(* ===== verification/Prelude.thy ===== *)
theory Prelude
  imports Main "HOL-Library.Char_ord" "HOL-Library.List_Lexorder" "HOL-Library.Word"
    "HOL-Library.Multiset"
begin

text \<open>
  What every theory of the development shares: Rust's integer types as words, results,
  ordered maps (\<open>BTreeMap\<close>) as strictly key-sorted association lists, and generic facts on
  folds and lists. Rust strings are their UTF-8 bytes, one \<open>char\<close> per byte, so \<open>length\<close> is
  Rust's \<open>len()\<close> and the order of \<open>List_Lexorder\<close> on them is Rust's order on \<open>String\<close>.
\<close>

named_theorems event_simps \<open>unfolding rules for the event constructors\<close>
named_theorems bt_simps \<open>rules for ordered maps\<close>

section \<open>Machine integers\<close>

type_synonym u8 = "8 word"
type_synonym u32 = "32 word"
type_synonym u64 = "64 word"

text \<open>Rust's \<open>checked_add\<close> and \<open>saturating_add\<close> on an unsigned type.\<close>

definition checked_add :: "'a::len word \<Rightarrow> 'a word \<Rightarrow> 'a word option" where
  "checked_add a b = (if unat a + unat b < 2 ^ LENGTH('a) then Some (a + b) else None)"

definition saturating_add :: "'a::len word \<Rightarrow> 'a word \<Rightarrow> 'a word" where
  "saturating_add a b = (case checked_add a b of Some c \<Rightarrow> c | None \<Rightarrow> - 1)"

text \<open>Signed 64-bit integers are integers in range; \<open>+\<close> wraps in a release build.\<close>

definition i64_range :: "int \<Rightarrow> bool" where
  "i64_range v \<longleftrightarrow> - (2 ^ 63) \<le> v \<and> v < 2 ^ 63"

definition i64_add :: "int \<Rightarrow> int \<Rightarrow> int" where
  "i64_add a b = (a + b + 2 ^ 63) mod 2 ^ 64 - 2 ^ 63"

definition i64_saturating_add :: "int \<Rightarrow> int \<Rightarrow> int" where
  "i64_saturating_add a b = max (- (2 ^ 63)) (min (2 ^ 63 - 1) (a + b))"

definition i64_saturating_sub :: "int \<Rightarrow> int \<Rightarrow> int" where
  "i64_saturating_sub a b = max (- (2 ^ 63)) (min (2 ^ 63 - 1) (a - b))"

lemma i64_add_exact: "i64_range (a + b) \<Longrightarrow> i64_add a b = a + b"
  by (simp add: i64_add_def i64_range_def)

lemma i64_saturating_add_exact: "i64_range (a + b) \<Longrightarrow> i64_saturating_add a b = a + b"
  by (simp add: i64_saturating_add_def i64_range_def min_def max_def)

lemma i64_saturating_sub_le:
  "0 \<le> bound \<Longrightarrow> a - b \<le> bound \<Longrightarrow> i64_saturating_sub a b \<le> bound"
  by (simp add: i64_saturating_sub_def min_def max_def)

text \<open>\<open>Option::unwrap_or\<close>.\<close>

definition unwrap_or :: "'a option \<Rightarrow> 'a \<Rightarrow> 'a" where
  "unwrap_or x d = (case x of Some y \<Rightarrow> y | None \<Rightarrow> d)"

section \<open>Ordered maps\<close>

text \<open>
  A \<open>BTreeMap<K, V>\<close> is the list of its entries in key order. \<open>bt_get\<close>, \<open>bt_insert\<close> and
  \<open>bt_remove\<close> are \<open>get\<close>, \<open>insert\<close> and \<open>remove\<close>; iteration is the list itself.
\<close>

type_synonym ('k, 'v) btree = "('k \<times> 'v) list"

abbreviation bt_get :: "('k, 'v) btree \<Rightarrow> 'k \<Rightarrow> 'v option" where
  "bt_get \<equiv> map_of"

fun bt_insert :: "'k::linorder \<Rightarrow> 'v \<Rightarrow> ('k, 'v) btree \<Rightarrow> ('k, 'v) btree" where
  "bt_insert k v [] = [(k, v)]"
| "bt_insert k v (e # m) =
     (if fst e < k then e # bt_insert k v m
      else if fst e = k then (k, v) # m
      else (k, v) # e # m)"

definition bt_remove :: "'k \<Rightarrow> ('k, 'v) btree \<Rightarrow> ('k, 'v) btree" where
  "bt_remove k m = filter (\<lambda>e. fst e \<noteq> k) m"

definition bt_inv :: "('k::linorder, 'v) btree \<Rightarrow> bool" where
  "bt_inv m \<longleftrightarrow> sorted_wrt (<) (map fst m)"

lemma bt_inv_Nil [simp, intro]: "bt_inv []"
  by (simp add: bt_inv_def)

lemma bt_inv_distinct: "bt_inv m \<Longrightarrow> distinct (map fst m)"
  unfolding bt_inv_def by (induction m) auto

lemma bt_keys_insert [bt_simps]: "set (map fst (bt_insert k v m)) = insert k (set (map fst m))"
  by (induction m) auto

lemma bt_inv_insert [intro]: "bt_inv m \<Longrightarrow> bt_inv (bt_insert k v m)"
proof (induction m)
  case Nil
  then show ?case by (simp add: bt_inv_def)
next
  case (Cons e m)
  then have "bt_inv m" and below: "\<forall>k'\<in>set (map fst m). fst e < k'"
    by (auto simp: bt_inv_def)
  with Cons.IH have inv: "bt_inv (bt_insert k v m)" by simp
  consider "fst e < k" | "fst e = k" | "k < fst e" by fastforce
  then show ?case
  proof cases
    case 1
    then have "\<forall>k'\<in>set (map fst (bt_insert k v m)). fst e < k'"
      using below by (simp only: bt_keys_insert) auto
    with 1 inv show ?thesis by (simp add: bt_inv_def)
  next
    case 2
    with Cons.prems show ?thesis by (simp add: bt_inv_def)
  next
    case 3
    with Cons.prems below show ?thesis by (auto simp: bt_inv_def)
  qed
qed

lemma bt_get_insert: "bt_get (bt_insert k v m) = (bt_get m)(k \<mapsto> v)"
proof (induction m)
  case (Cons e m)
  then show ?case by (cases e) auto
qed simp

lemma bt_get_insert_apply [simp]:
  "bt_get (bt_insert k v m) k' = (if k' = k then Some v else bt_get m k')"
  by (simp add: bt_get_insert)

lemma bt_get_remove [simp]: "bt_get (bt_remove k m) k' = (if k' = k then None else bt_get m k')"
  unfolding bt_remove_def by (induction m) auto

lemma bt_inv_remove [intro]: "bt_inv m \<Longrightarrow> bt_inv (bt_remove k m)"
  unfolding bt_inv_def bt_remove_def by (induction m) auto

lemma bt_length_insert:
  "bt_inv m \<Longrightarrow> length (bt_insert k v m) = (if bt_get m k = None then Suc (length m) else length m)"
proof (induction m)
  case (Cons e m)
  obtain k' v' where e: "e = (k', v')" by fastforce
  from Cons.prems have inv: "bt_inv m" and below: "\<forall>x\<in>set m. k' < fst x"
    by (auto simp: bt_inv_def e)
  consider "k' < k" | "k' = k" | "k < k'" by fastforce
  then show ?case
  proof cases
    case 3
    with below have "k \<notin> fst ` set m" by fastforce
    then have "bt_get m k = None" by (simp add: map_of_eq_None_iff)
    with 3 e show ?thesis by auto
  qed (use Cons.IH inv e in auto)
qed simp

lemma bt_insert_same_keys:
  "bt_inv m \<Longrightarrow> bt_get m k \<noteq> None \<Longrightarrow> map fst (bt_insert k v m) = map fst m"
proof (induction m)
  case (Cons e m)
  obtain k' v' where e: "e = (k', v')" by fastforce
  from Cons.prems have inv: "bt_inv m" and below: "\<forall>x\<in>set m. k' < fst x"
    by (auto simp: bt_inv_def e)
  consider "k' < k" | "k' = k" | "k < k'" by fastforce
  then show ?case
  proof cases
    case 3
    with below have "k \<notin> fst ` set m" by fastforce
    then have "bt_get m k = None" by (simp add: map_of_eq_None_iff)
    with 3 e Cons.prems(2) show ?thesis by auto
  qed (use Cons inv e in \<open>auto split: if_splits\<close>)
qed simp

section \<open>Interface of a finite map\<close>

text \<open>
  What the components above rely on when they use a keyed store: lookup after insert and
  removal, and that an insertion keeps the store's invariant. The lemmas of the locale are what
  the projectors use of their maps.
\<close>

locale keyed_store =
  fixes get :: "'m \<Rightarrow> 'k \<Rightarrow> 'v option"
    and put :: "'k \<Rightarrow> 'v \<Rightarrow> 'm \<Rightarrow> 'm"
    and invar :: "'m \<Rightarrow> bool"
  assumes get_put: "invar m \<Longrightarrow> get (put k v m) k' = (if k' = k then Some v else get m k')"
    and invar_put: "invar m \<Longrightarrow> invar (put k v m)"
begin

lemma put_other: "invar m \<Longrightarrow> k' \<noteq> k \<Longrightarrow> get (put k v m) k' = get m k'"
  by (simp add: get_put)

lemma put_list_get:
  "invar m \<Longrightarrow>
   get (foldl (\<lambda>m (k, v). put k v m) m kvs) k = (case map_of (rev kvs) k of Some v \<Rightarrow> Some v | None \<Rightarrow> get m k)
   \<and> invar (foldl (\<lambda>m (k, v). put k v m) m kvs)"
proof (induction kvs arbitrary: m)
  case (Cons kv kvs)
  obtain k1 v1 where kv: "kv = (k1, v1)" by fastforce
  from Cons.prems have "invar (put k1 v1 m)" by (rule invar_put)
  from Cons.IH [OF this] Cons.prems show ?case
    by (simp add: kv get_put map_add_def split: option.splits)
qed simp

end

interpretation bt: keyed_store bt_get bt_insert bt_inv
  by unfold_locales auto

section \<open>Folding an event stream\<close>

text \<open>
  Every read model of the program is a left fold of a step over the append-ordered stream.
  A state predicate the step keeps holds after every fold.
\<close>

locale event_fold =
  fixes step :: "'s \<Rightarrow> 'e \<Rightarrow> 's"
    and inv :: "'s \<Rightarrow> bool"
  assumes step_inv: "inv s \<Longrightarrow> inv (step s e)"
begin

lemma fold_inv: "inv s \<Longrightarrow> inv (foldl step s es)"
  by (induction es arbitrary: s) (auto intro: step_inv)

lemma fold_replay: "foldl step s (es @ fs) = foldl step (foldl step s es) fs"
  by simp

end

lemma unwrap_or_simps [simp]: "unwrap_or (Some x) d = x" "unwrap_or None d = d"
  by (simp_all add: unwrap_or_def)

section \<open>Generic lemmas\<close>

lemma foldl_filter_skip:
  assumes "\<And>s e. \<not> P e \<Longrightarrow> f s e = s"
  shows "foldl f s (filter P es) = foldl f s es"
  using assms by (induction es arbitrary: s) auto

lemma map_filter_append: "List.map_filter f (xs @ ys) = List.map_filter f xs @ List.map_filter f ys"
  by (simp add: List.map_filter_def)

lemma insort_key_map: "(\<And>x. k' (g x) = k x) \<Longrightarrow> insort_key k' (g a) (map g xs) = map g (insort_key k a xs)"
  by (induction xs) simp_all

lemma sort_key_map: "(\<And>x. k' (g x) = k x) \<Longrightarrow> sort_key k' (map g xs) = map g (sort_key k xs)"
  by (induction xs) (simp_all add: insort_key_map)

text \<open>Two folds whose states stay related: the simulation used by the refinement lemmas.\<close>

lemma foldl_simulation:
  assumes "R s t" and "\<And>s t e. e \<in> set es \<Longrightarrow> R s t \<Longrightarrow> R (f s e) (g t e)"
  shows "R (foldl f s es) (foldl g t es)"
  using assms
proof (induction es arbitrary: s t)
  case (Cons e es)
  have "R (f s e) (g t e)" using Cons.prems by simp
  then show ?case using Cons.IH Cons.prems(2) by (metis foldl_Cons list.set_intros(2))
qed simp

lemma unat_saturating_add:
  "unat (saturating_add a b :: 'a::len word) = min (unat a + unat b) (2 ^ LENGTH('a) - 1)"
proof (cases "unat a + unat b < 2 ^ LENGTH('a)")
  case True
  then show ?thesis
    by (auto simp: saturating_add_def checked_add_def unat_word_ariths min_def)
next
  case False
  then show ?thesis
    by (auto simp: saturating_add_def checked_add_def unsigned_minus_1_eq_mask mask_eq_exp_minus_1 min_def)
qed

lemma checked_add_Some_iff:
  "checked_add a b = Some c \<longleftrightarrow> unat c = unat a + unat (b :: 'a::len word)"
proof -
  have "unat c < 2 ^ LENGTH('a)" by (rule unsigned_less)
  then show ?thesis
    by (auto simp del: unsigned_less simp: checked_add_def unat_word_ariths word_unat_eq_iff)
qed

end
