(* ===== verification/Rust_Str.thy ===== *)
theory Rust_Str
  imports Prelude "HOL-Library.Sublist"
begin

text \<open>
  The operations of Rust's \<open>str\<close> the program uses, on UTF-8 byte lists: character boundaries,
  trimming of Unicode white space, lines, splitting, prefixes, substring search, and the ASCII
  character classes. These are the standard library's functions, written out once here.
\<close>

section \<open>Bytes\<close>

abbreviation byte :: "char \<Rightarrow> nat" where
  "byte c \<equiv> of_char c"

definition is_ascii_alphanumeric :: "char \<Rightarrow> bool" where
  "is_ascii_alphanumeric c \<longleftrightarrow>
     (48 \<le> byte c \<and> byte c \<le> 57) \<or> (65 \<le> byte c \<and> byte c \<le> 90) \<or> (97 \<le> byte c \<and> byte c \<le> 122)"

definition is_ascii_whitespace :: "char \<Rightarrow> bool" where
  "is_ascii_whitespace c \<longleftrightarrow> byte c \<in> {9, 10, 12, 13, 32}"

definition ascii_lower :: "char \<Rightarrow> char" where
  "ascii_lower c = (if 65 \<le> byte c \<and> byte c \<le> 90 then char_of (byte c + 32) else c)"

definition ascii_upper :: "char \<Rightarrow> char" where
  "ascii_upper c = (if 97 \<le> byte c \<and> byte c \<le> 122 then char_of (byte c - 32) else c)"

definition to_ascii_lowercase :: "string \<Rightarrow> string" where
  "to_ascii_lowercase = map ascii_lower"

definition to_ascii_uppercase :: "string \<Rightarrow> string" where
  "to_ascii_uppercase = map ascii_upper"

abbreviation NL :: char where "NL \<equiv> CHR 0x0A"
abbreviation CR :: char where "CR \<equiv> CHR 0x0D"
abbreviation TAB :: char where "TAB \<equiv> CHR 0x09"

text \<open>\<open>format!("{byte:02x}")\<close>: two lower-case hexadecimal digits.\<close>

definition hex_digit :: "nat \<Rightarrow> char" where
  "hex_digit n = ''0123456789abcdef'' ! n"

definition hex_byte :: "char \<Rightarrow> string" where
  "hex_byte c = [hex_digit (byte c div 16), hex_digit (byte c mod 16)]"

section \<open>Character boundaries and truncation\<close>

text \<open>A byte of the form \<open>10xxxxxx\<close> continues a UTF-8 character.\<close>

definition is_continuation :: "char \<Rightarrow> bool" where
  "is_continuation c \<longleftrightarrow> 128 \<le> byte c \<and> byte c < 192"

definition is_char_boundary :: "string \<Rightarrow> nat \<Rightarrow> bool" where
  "is_char_boundary s i \<longleftrightarrow>
     i = 0 \<or> i = length s \<or> (i < length s \<and> \<not> is_continuation (s ! i))"

text \<open>The loop \<open>while !value.is_char_boundary(end) { end -= 1 }\<close>; it stops at 0 at the latest.\<close>

fun boundary_below :: "string \<Rightarrow> nat \<Rightarrow> nat" where
  "boundary_below s 0 = 0"
| "boundary_below s (Suc n) = (if is_char_boundary s (Suc n) then Suc n else boundary_below s n)"

section \<open>Prefixes, substrings and splitting\<close>

definition strip_prefix :: "string \<Rightarrow> string \<Rightarrow> string option" where
  "strip_prefix p s = (if prefix p s then Some (drop (length p) s) else None)"

definition contains :: "string \<Rightarrow> string \<Rightarrow> bool" where
  "contains s p \<longleftrightarrow> (\<exists>i \<in> set [0..<Suc (length s)]. prefix p (drop i s))"

text \<open>\<open>match_indices\<close>: the positions of the non-overlapping matches, left to right.\<close>

function match_indices_from :: "nat \<Rightarrow> string \<Rightarrow> string \<Rightarrow> nat list" where
  "match_indices_from i p s =
     (if p = [] \<or> length s < length p then []
      else if prefix p s then i # match_indices_from (i + length p) p (drop (length p) s)
      else match_indices_from (Suc i) p (tl s))"
  by pat_completeness auto
termination
  by (relation "measure (\<lambda>(i, p, s). length s)") (auto simp: not_less neq_Nil_conv prefix_def)

declare match_indices_from.simps [simp del]

definition match_indices :: "string \<Rightarrow> string \<Rightarrow> nat list" where
  "match_indices s p = match_indices_from 0 p s"

text \<open>\<open>split(pred)\<close>: one piece more than there are separators.\<close>

fun split_on :: "(char \<Rightarrow> bool) \<Rightarrow> string \<Rightarrow> string list" where
  "split_on p [] = [[]]"
| "split_on p (c # s) =
     (if p c then [] # split_on p s
      else (case split_on p s of [] \<Rightarrow> [[c]] | x # xs \<Rightarrow> (c # x) # xs))"

text \<open>\<open>split_once(pred)\<close>: before and after the first separator.\<close>

fun split_once :: "(char \<Rightarrow> bool) \<Rightarrow> string \<Rightarrow> (string \<times> string) option" where
  "split_once p [] = None"
| "split_once p (c # s) =
     (if p c then Some ([], s) else map_option (\<lambda>(a, b). (c # a, b)) (split_once p s))"

text \<open>\<open>lines()\<close>: split at line feeds, a trailing empty piece left out, and a carriage return
  dropped only where a line feed follows it.\<close>

definition strip_cr :: "string \<Rightarrow> string" where
  "strip_cr s = (if s \<noteq> [] \<and> last s = CR then butlast s else s)"

definition lines_of :: "string \<Rightarrow> string list" where
  "lines_of s = (let ps = split_on (\<lambda>c. c = NL) s in
     map strip_cr (butlast ps) @ (if last ps = [] then [] else [last ps]))"

section \<open>White space\<close>

text \<open>The UTF-8 encodings of the characters with the Unicode property \<open>White_Space\<close>.\<close>

definition white_space :: "string list" where
  "white_space =
     [[CHR 0x09], [CHR 0x0A], [CHR 0x0B], [CHR 0x0C], [CHR 0x0D], [CHR 0x20],
      [CHR 0xC2, CHR 0x85], [CHR 0xC2, CHR 0xA0], [CHR 0xE1, CHR 0x9A, CHR 0x80],
      [CHR 0xE2, CHR 0x80, CHR 0x80], [CHR 0xE2, CHR 0x80, CHR 0x81], [CHR 0xE2, CHR 0x80, CHR 0x82],
      [CHR 0xE2, CHR 0x80, CHR 0x83], [CHR 0xE2, CHR 0x80, CHR 0x84], [CHR 0xE2, CHR 0x80, CHR 0x85],
      [CHR 0xE2, CHR 0x80, CHR 0x86], [CHR 0xE2, CHR 0x80, CHR 0x87], [CHR 0xE2, CHR 0x80, CHR 0x88],
      [CHR 0xE2, CHR 0x80, CHR 0x89], [CHR 0xE2, CHR 0x80, CHR 0x8A], [CHR 0xE2, CHR 0x80, CHR 0xA8],
      [CHR 0xE2, CHR 0x80, CHR 0xA9], [CHR 0xE2, CHR 0x80, CHR 0xAF], [CHR 0xE2, CHR 0x81, CHR 0x9F],
      [CHR 0xE3, CHR 0x80, CHR 0x80]]"

text \<open>Remove leading members of \<open>ws\<close> for as long as there is one.\<close>

function strip_leading :: "string list \<Rightarrow> string \<Rightarrow> string" where
  "strip_leading ws s =
     (case find (\<lambda>w. w \<noteq> [] \<and> prefix w s) ws of
        None \<Rightarrow> s
      | Some w \<Rightarrow> strip_leading ws (drop (length w) s))"
  by pat_completeness auto
termination
  by (relation "measure (\<lambda>(ws, s). length s)") (auto simp: find_Some_iff prefix_def)

declare strip_leading.simps [simp del]

definition trim_start :: "string \<Rightarrow> string" where
  "trim_start s = strip_leading white_space s"

definition trim_end :: "string \<Rightarrow> string" where
  "trim_end s = rev (strip_leading (map rev white_space) (rev s))"

definition trim :: "string \<Rightarrow> string" where
  "trim s = trim_end (trim_start s)"

section \<open>Lemmas\<close>

lemma boundary_below_le: "boundary_below s n \<le> n"
  by (induction n) auto

lemma boundary_below_is_boundary: "is_char_boundary s (boundary_below s n)"
  by (induction n) (auto simp: is_char_boundary_def)

lemma boundary_below_greatest:
  "is_char_boundary s k \<Longrightarrow> k \<le> n \<Longrightarrow> k \<le> boundary_below s n"
  by (induction n) (auto simp: le_Suc_eq)

lemma split_on_not_Nil [simp]: "split_on p s \<noteq> []"
  by (induction s) (auto split: list.splits)

lemma split_on_no_sep: "\<forall>c\<in>set s. \<not> p c \<Longrightarrow> split_on p s = [s]"
  by (induction s) auto

lemma split_on_append_sep: "p c \<Longrightarrow> split_on p (s @ c # t) = split_on p s @ split_on p t"
proof (induction s)
  case (Cons a s)
  then show ?case by (cases "split_on p s") (auto split: list.splits)
qed simp

lemma split_on_pieces: "x \<in> set (split_on p s) \<Longrightarrow> \<forall>c\<in>set x. \<not> p c"
proof (induction s arbitrary: x)
  case (Cons a s)
  then show ?case by (cases "split_on p s") (fastforce split: if_splits)+
qed simp

lemma strip_prefix_Some_iff: "strip_prefix p s = Some r \<longleftrightarrow> s = p @ r"
  by (auto simp: strip_prefix_def prefix_def)

lemma strip_prefix_append [simp]: "strip_prefix p (p @ r) = Some r"
  by (simp add: strip_prefix_def)

lemma strip_leading_suffix: "\<exists>p. s = p @ strip_leading ws s"
proof (induction ws s rule: strip_leading.induct)
  case (1 ws s)
  show ?case
  proof (cases "find (\<lambda>w. w \<noteq> [] \<and> prefix w s) ws")
    case None
    then show ?thesis by (subst strip_leading.simps) simp
  next
    case (Some w)
    then obtain t where s: "s = w @ t" by (auto simp: find_Some_iff prefix_def)
    from 1 [OF Some] obtain p where "drop (length w) s = p @ strip_leading ws (drop (length w) s)"
      by blast
    then have "s = (w @ p) @ strip_leading ws (drop (length w) s)" using s by simp
    with Some show ?thesis by (metis (no_types) strip_leading.simps option.simps(5))
  qed
qed

lemma strip_leading_id: "find (\<lambda>w. w \<noteq> [] \<and> prefix w s) ws = None \<Longrightarrow> strip_leading ws s = s"
  by (subst strip_leading.simps) simp

lemma contains_iff: "contains s p \<longleftrightarrow> sublist p s"
proof
  assume "contains s p"
  then obtain i where "prefix p (drop i s)" by (auto simp: contains_def)
  then show "sublist p s" by (metis append_take_drop_id prefix_def sublist_appendI)
next
  assume "sublist p s"
  then obtain a b where "s = a @ p @ b" by (auto simp: sublist_def)
  then show "contains s p" unfolding contains_def by (intro bexI [of _ "length a"]) auto
qed

lemma sublist_across:
  assumes "c \<notin> set p" "p \<noteq> []"
  shows "sublist p (s @ c # t) \<longleftrightarrow> sublist p s \<or> sublist p t"
proof -
  have "sublist p (c # t) \<longleftrightarrow> sublist p t"
    using assms by (auto simp: sublist_Cons_right prefix_Cons)
  moreover have "sublist p s" if "p = a @ b" "suffix a s" "prefix b (c # t)" for a b
    using that assms(1) by (auto simp: prefix_Cons suffix_imp_sublist)
  ultimately show ?thesis by (auto simp: sublist_append)
qed

section \<open>Words, joining and numbers\<close>

text \<open>The longest prefix without white space, and the rest.\<close>

function word_prefix :: "string \<Rightarrow> string \<times> string" where
  "word_prefix s =
     (if s = [] \<or> list_ex (\<lambda>w. prefix w s) white_space then ([], s)
      else (case word_prefix (tl s) of (w, r) \<Rightarrow> (hd s # w, r)))"
  by pat_completeness auto
termination
  by (relation "measure length") auto

declare word_prefix.simps [simp del]

lemma word_prefix_length: "length (fst (word_prefix s)) + length (snd (word_prefix s)) = length s"
proof (induction s rule: word_prefix.induct)
  case (1 s)
  then show ?case
    by (cases "s = [] \<or> list_ex (\<lambda>w. prefix w s) white_space")
      (auto simp: word_prefix.simps [of s] case_prod_beta neq_Nil_conv)
qed

lemma strip_leading_length: "length (strip_leading ws s) \<le> length s"
  using strip_leading_suffix [of s ws] by (metis le_add2 length_append)

lemma trim_start_length: "length (trim_start s) \<le> length s"
  by (simp add: trim_start_def strip_leading_length)

lemma word_prefix_nonempty: "trim_start s \<noteq> [] \<Longrightarrow> fst (word_prefix (trim_start s)) \<noteq> []"
proof -
  let ?t = "trim_start s"
  assume ne: "?t \<noteq> []"
  have "find (\<lambda>w. w \<noteq> [] \<and> prefix w (strip_leading ws s)) ws = None" for ws
  proof (induction ws s rule: strip_leading.induct)
    case (1 ws s)
    then show ?case
      by (cases "find (\<lambda>w. w \<noteq> [] \<and> prefix w s) ws")
        (simp_all add: strip_leading.simps [of ws s])
  qed
  then have "\<forall>w\<in>set white_space. w \<noteq> [] \<longrightarrow> \<not> prefix w ?t"
    by (auto simp: trim_start_def find_None_iff)
  moreover have "[] \<notin> set white_space" by (simp add: white_space_def)
  ultimately have "\<not> list_ex (\<lambda>w. prefix w ?t) white_space" by (auto simp: list_ex_iff)
  with ne show ?thesis by (subst word_prefix.simps) (simp add: case_prod_beta)
qed

function split_whitespace :: "string \<Rightarrow> string list" where
  "split_whitespace s =
     (let t = trim_start s in
      if t = [] then []
      else fst (word_prefix t) # split_whitespace (snd (word_prefix t)))"
  by pat_completeness auto
termination
proof (relation "measure length", simp, goal_cases)
  case (1 s t)
  then have "length (fst (word_prefix t)) + length (snd (word_prefix t)) = length t" "fst (word_prefix t) \<noteq> []"
    "length t \<le> length s"
    using word_prefix_length word_prefix_nonempty trim_start_length by auto
  then show ?case by (cases "fst (word_prefix t)") auto
qed

declare split_whitespace.simps [simp del]

fun join_with :: "string \<Rightarrow> string list \<Rightarrow> string" where
  "join_with sep [] = []"
| "join_with sep [s] = s"
| "join_with sep (s # t # ss) = s @ sep @ join_with sep (t # ss)"

definition trim_end_matches :: "char \<Rightarrow> string \<Rightarrow> string" where
  "trim_end_matches c s = rev (dropWhile (\<lambda>x. x = c) (rev s))"

text \<open>\<open>to_string\<close> of an unsigned integer, and \<open>parse\<close> of one with so many bits.\<close>

fun decimal :: "nat \<Rightarrow> string" where
  "decimal n = (if n < 10 then [char_of (48 + n)] else decimal (n div 10) @ [char_of (48 + n mod 10)])"

declare decimal.simps [simp del]

fun digits_value :: "nat \<Rightarrow> string \<Rightarrow> nat option" where
  "digits_value n [] = Some n"
| "digits_value n (c # s) =
     (if 48 \<le> byte c \<and> byte c \<le> 57 then digits_value (n * 10 + (byte c - 48)) s else None)"

definition parse_unsigned :: "nat \<Rightarrow> string \<Rightarrow> nat option" where
  "parse_unsigned bits s =
     (if s = [] \<or> s = ''+'' then None
      else (case digits_value 0 (if hd s = CHR ''+'' then tl s else s) of
              None \<Rightarrow> None
            | Some n \<Rightarrow> if n < 2 ^ bits then Some n else None))"

text \<open>\<open>split_once(char::is_whitespace)\<close>: the first white space character belongs to neither part.\<close>

definition split_once_whitespace :: "string \<Rightarrow> (string \<times> string) option" where
  "split_once_whitespace s =
     (case word_prefix s of (w, r) \<Rightarrow>
        map_option (\<lambda>sep. (w, drop (length sep) r)) (find (\<lambda>sep. prefix sep r) white_space))"

text \<open>\<open>split_once\<close> with a string pattern.\<close>

definition split_once_str :: "string \<Rightarrow> string \<Rightarrow> (string \<times> string) option" where
  "split_once_str p s =
     (case match_indices s p of [] \<Rightarrow> None | i # _ \<Rightarrow> Some (take i s, drop (i + length p) s))"

section \<open>Trimmed strings\<close>

text \<open>What trimming leaves, and that lowering the case of ASCII letters does not bring white space back.\<close>

definition no_leading :: "string list \<Rightarrow> string \<Rightarrow> bool" where
  "no_leading ws s \<longleftrightarrow> (\<forall>w \<in> set ws. w \<noteq> [] \<longrightarrow> \<not> prefix w s)"

lemma no_leading_find: "no_leading ws s \<longleftrightarrow> find (\<lambda>w. w \<noteq> [] \<and> prefix w s) ws = None"
  by (auto simp: no_leading_def find_None_iff)

lemma strip_leading_done: "no_leading ws (strip_leading ws s)"
proof (induction ws s rule: strip_leading.induct)
  case (1 ws s)
  show ?case
  proof (cases "find (\<lambda>w. w \<noteq> [] \<and> prefix w s) ws")
    case None
    then show ?thesis by (simp add: strip_leading_id no_leading_find)
  next
    case (Some w)
    then have "strip_leading ws s = strip_leading ws (drop (length w) s)"
      by (subst strip_leading.simps) simp
    with 1 [OF Some] show ?thesis by simp
  qed
qed

lemma no_leading_strip: "no_leading ws s \<Longrightarrow> strip_leading ws s = s"
  by (simp add: no_leading_find strip_leading_id)

lemma no_leading_prefix: "no_leading ws s \<Longrightarrow> prefix t s \<Longrightarrow> no_leading ws t"
  by (auto simp: no_leading_def dest: prefix_order.trans)

definition trimmed :: "string \<Rightarrow> bool" where
  "trimmed s \<longleftrightarrow> no_leading white_space s \<and> no_leading (map rev white_space) (rev s)"

lemma trim_trimmed: "trimmed (trim s)"
proof -
  let ?t = "trim_start s"
  have "no_leading white_space ?t" unfolding trim_start_def by (rule strip_leading_done)
  moreover have "prefix (trim_end ?t) ?t"
    using strip_leading_suffix [of "rev ?t" "map rev white_space"] unfolding trim_end_def
    by (metis prefixI rev_append rev_rev_ident)
  ultimately have "no_leading white_space (trim_end ?t)" by (rule no_leading_prefix)
  moreover have "no_leading (map rev white_space) (rev (trim_end ?t))"
    by (simp add: trim_end_def strip_leading_done)
  ultimately show ?thesis by (simp add: trimmed_def trim_def)
qed

lemma trimmed_trim: "trimmed s \<Longrightarrow> trim s = s"
  by (simp add: trimmed_def trim_def trim_start_def trim_end_def no_leading_strip)

lemma prefix_map_back:
  assumes "prefix w (map f s)" and "\<And>c d. c \<in> set w \<Longrightarrow> f d = c \<Longrightarrow> d = c"
  shows "prefix w s"
proof -
  from assms(1) obtain u v where s: "s = u @ v" "map f u = w"
    by (auto simp: prefix_def map_eq_append_conv)
  have "map f u = u" by (rule map_idI) (use s(2) assms(2) in force)
  with s show ?thesis by simp
qed

lemma ascii_lower_byte: "ascii_lower d = c \<Longrightarrow> \<not> (97 \<le> byte c \<and> byte c \<le> 122) \<Longrightarrow> d = c"
  by (auto simp: ascii_lower_def split: if_splits)

lemma white_space_bytes: "w \<in> set white_space \<Longrightarrow> c \<in> set w \<Longrightarrow> \<not> (97 \<le> byte c \<and> byte c \<le> 122)"
  by (auto simp: white_space_def)

lemma trimmed_lower: "trimmed s \<Longrightarrow> trimmed (to_ascii_lowercase s)"
  unfolding trimmed_def no_leading_def to_ascii_lowercase_def
  using prefix_map_back [of _ ascii_lower] white_space_bytes ascii_lower_byte
  by (fastforce simp: rev_map)

lemma ascii_lower_idem: "ascii_lower (ascii_lower c) = ascii_lower c"
  by (simp add: ascii_lower_def)

end
