(* ===== verification/Json.thy ===== *)
theory Json
  imports Rust_Str
begin

text \<open>
  JSON values as the program's code sees them: the public constructors of
  \<open>serde_json::Value\<close>. An object is the list of its entries in the map's iteration order
  (sorted for the default map, insertion order when some crate of the build enables
  \<open>preserve_order\<close>); keys are distinct. A number is an integer in \<open>u64\<close>, a negative \<open>i64\<close>, or
  the bits of an \<open>f64\<close>. Derived (de)serialisers are not modelled: they are parameters of the
  definitions that call them.
\<close>

datatype json_number = PosInt u64 | NegInt u64 | Float u64

datatype json =
    JNull
  | JBool bool
  | JNumber json_number
  | JString string
  | JArray "json list"
  | JObject "(string \<times> json) list"

definition json_get :: "json \<Rightarrow> string \<Rightarrow> json option" where
  "json_get v k = (case v of JObject kvs \<Rightarrow> map_of kvs k | _ \<Rightarrow> None)"

fun as_str :: "json \<Rightarrow> string option" where
  "as_str (JString s) = Some s"
| "as_str _ = None"

fun as_u64 :: "json \<Rightarrow> u64 option" where
  "as_u64 (JNumber (PosInt n)) = Some n"
| "as_u64 _ = None"

text \<open>What \<open>json!\<close> makes of an optional string: the string, or null.\<close>

definition opt_str :: "string option \<Rightarrow> json" where
  "opt_str s = (case s of Some t \<Rightarrow> JString t | None \<Rightarrow> JNull)"

definition opt_u64 :: "u64 option \<Rightarrow> json" where
  "opt_u64 n = (case n of Some k \<Rightarrow> JNumber (PosInt k) | None \<Rightarrow> JNull)"

text \<open>
  Reading one field of an object the way a derived deserialiser does: a required string, an
  optional string (absent or null is \<open>None\<close>, anything but a string is an error), and numbers at
  their width. They serve the concrete codecs the laws of the codec interfaces are checked on.
\<close>

definition string_field :: "json \<Rightarrow> string \<Rightarrow> string option" where
  "string_field v k = Option.bind (json_get v k) as_str"

definition optional_field :: "(json \<Rightarrow> 'a option) \<Rightarrow> json \<Rightarrow> string \<Rightarrow> 'a option option" where
  "optional_field read v k =
     (case json_get v k of
        None \<Rightarrow> Some None
      | Some JNull \<Rightarrow> Some None
      | Some x \<Rightarrow> map_option Some (read x))"

definition read_u32 :: "json \<Rightarrow> u32 option" where
  "read_u32 v = (case as_u64 v of
     Some n \<Rightarrow> if unat n < 2 ^ 32 then Some (ucast n) else None | None \<Rightarrow> None)"

definition write_u32 :: "u32 \<Rightarrow> json" where
  "write_u32 n = JNumber (PosInt (ucast n))"

lemma read_write_u32 [simp]: "read_u32 (write_u32 n) = Some n"
proof -
  have small: "unat n < 2 ^ 32" using unsigned_less [of n, where ?'a = nat] by simp
  then have "unat (ucast n :: u64) = unat n"
    by (simp add: unsigned_ucast_eq take_bit_nat_eq_self)
  moreover have "(ucast (ucast n :: u64) :: u32) = n"
    by (rule bit_word_eqI) (simp add: bit_simps)
  ultimately show ?thesis using small by (simp add: read_u32_def write_u32_def)
qed

text \<open>An object with its absent optional entries left out.\<close>

definition json_object :: "(string \<times> json option) list \<Rightarrow> json" where
  "json_object kvs = JObject (List.map_filter (\<lambda>(k, v). map_option (Pair k) v) kvs)"

text \<open>Well-formed values: no object holds a key twice.\<close>

fun json_wf :: "json \<Rightarrow> bool" where
  "json_wf (JArray vs) = list_all json_wf vs"
| "json_wf (JObject kvs) = (distinct (map fst kvs) \<and> list_all (\<lambda>kv. json_wf (snd kv)) kvs)"
| "json_wf _ = True"

text \<open>A value occurs in itself, in an array that holds it, and under a key of an object.\<close>

inductive occurs_in :: "json \<Rightarrow> json \<Rightarrow> bool" where
  occurs_refl: "occurs_in v v"
| occurs_array: "v \<in> set vs \<Longrightarrow> occurs_in w v \<Longrightarrow> occurs_in w (JArray vs)"
| occurs_object: "(k, v) \<in> set kvs \<Longrightarrow> occurs_in w v \<Longrightarrow> occurs_in w (JObject kvs)"

inductive_simps occurs_in_string [simp]: "occurs_in w (JString s)"
inductive_simps occurs_in_array: "occurs_in w (JArray vs)"
inductive_simps occurs_in_object: "occurs_in w (JObject kvs)"

end
