(* ===== verification/Operator_Event.thy ===== *)
theory Operator_Event
  imports Json
begin

text \<open>
  The operator event contract of \<open>crates/heiwa_evidence/src/operator.rs\<close>: the event types, the
  envelope \<open>OperatorEvent\<close>, and a replayed event with its cursor. Fields carry the prefix
  \<open>ev_\<close>, since several records of the program share field names.
\<close>

definition OPERATOR_EVENT_SCHEMA_VERSION :: u32 where
  "OPERATOR_EVENT_SCHEMA_VERSION = 1"

record OperatorActor =
  actor_kind :: string
  actor_id :: string

datatype OperatorRisk = RiskLow | RiskMedium | RiskHigh | RiskCritical

datatype OperatorSensitivity = PublicSafe | LocalPrivate | Restricted

datatype OperatorEventType =
    ThreadCreated | ProjectCreated | ProjectMetadataUpdated | ThreadMetadataUpdated
  | TurnStarted | UserMessage | RoutePlanned | RouteAttempted | RouteCompleted | RouteFailed
  | AssistantStarted | AssistantCompleted | ToolCallStarted | ToolCallCompleted
  | ApprovalRequested | ApprovalDecided | ArtifactCreated | TestResult | ReceiptLinked | Blocker
  | TurnCompleted | TurnCancelRequested | TurnInterrupted | LegacySessionImported
  | WorkCreated | WorkLinked | WorkspacePrepared | WorkspaceReleased
  | WorkerLaunched | WorkerHeartbeat | WorkerExited | WorkerStale | PaneOpened | PaneClosed

record OperatorEvent =
  ev_schema_version :: u32
  ev_event_id :: string
  ev_thread_id :: string
  ev_turn_id :: "string option"
  ev_run_id :: "string option"
  ev_call_id :: "string option"
  ev_work_id :: "string option"
  ev_event_type :: OperatorEventType
  ev_occurred_at :: string
  ev_actor :: OperatorActor
  ev_risk_class :: OperatorRisk
  ev_sensitivity :: OperatorSensitivity
  ev_parent_event_id :: "string option"
  ev_correlation_id :: "string option"
  ev_source_refs :: "string list"
  ev_evidence_refs :: "string list"
  ev_payload :: json

record CursorEvent =
  ce_cursor :: string
  ce_event :: OperatorEvent

end
