(* ===== verification/Work.thy ===== *)
theory Work
  imports Operator_Event
begin

text \<open>
  Durable Work: \<open>crates/heiwa_work/src/model.rs\<close> (the identity and the aggregate),
  \<open>events.rs\<close> (Work facts as operator events), \<open>projector.rs\<close> (the fold of the stream into
  every Work) and \<open>migration.rs\<close> (which id a promoted thread gets). The derived deserialisers of
  the two payloads are the fields of the parameter \<open>work_codec\<close>.
\<close>

section \<open>The aggregate\<close>

definition SCHEMA_VERSION :: u32 where "SCHEMA_VERSION = 1"

definition WORK_ID_PREFIX :: string where "WORK_ID_PREFIX = ''work-''"

datatype WorkId = WorkId string

definition WorkId_generate :: "string \<Rightarrow> WorkId" where
  "WorkId_generate new_uuid = WorkId (WORK_ID_PREFIX @ new_uuid)"

definition work_id_byte :: "char \<Rightarrow> bool" where
  "work_id_byte c \<longleftrightarrow> is_ascii_alphanumeric c \<or> c = CHR ''-'' \<or> c = CHR ''_''"

definition WorkId_parse :: "string \<Rightarrow> WorkId option" where
  "WorkId_parse value =
     (case strip_prefix WORK_ID_PREFIX value of
        None \<Rightarrow> None
      | Some rest \<Rightarrow>
          if rest = [] \<or> length rest > 128 \<or> \<not> list_all work_id_byte rest then None
          else Some (WorkId value))"

fun WorkId_as_str :: "WorkId \<Rightarrow> string" where
  "WorkId_as_str (WorkId s) = s"

datatype WorkStatus = Active | Blocked | Cancelled | Failed | Complete

record Work =
  work_schema_version :: u32
  work_work_id :: WorkId
  work_revision :: u64
  work_intent :: string
  work_status :: WorkStatus
  work_origin_installation_id :: string
  work_origin_node :: "string option"
  work_coordinator_node :: "string option"
  work_primary_thread_id :: string
  work_related_thread_ids :: "string list"
  work_created_at :: string
  work_updated_at :: string

definition is_replicable :: "Work \<Rightarrow> bool" where
  "is_replicable w \<longleftrightarrow> work_origin_node w \<noteq> None"

section \<open>Work facts as events\<close>

datatype WorkLinkOrigin = Adopted | Minted

fun WorkLinkOrigin_wire :: "WorkLinkOrigin \<Rightarrow> string" where
  "WorkLinkOrigin_wire Adopted = ''adopted''"
| "WorkLinkOrigin_wire Minted = ''minted''"

record WorkCreatedPayload =
  wcp_intent :: string
  wcp_origin_installation_id :: string
  wcp_primary_thread_id :: string

record WorkLinkedPayload =
  wlp_thread_id :: string
  wlp_origin :: WorkLinkOrigin

record work_codec =
  created_of_value :: "json \<Rightarrow> WorkCreatedPayload option"
  linked_of_value :: "json \<Rightarrow> WorkLinkedPayload option"

definition WorkCreatedPayload_from_event ::
    "work_codec \<Rightarrow> OperatorEvent \<Rightarrow> WorkCreatedPayload option" where
  "WorkCreatedPayload_from_event C event =
     (if ev_event_type event \<noteq> WorkCreated then None
      else case created_of_value C (ev_payload event) of
        None \<Rightarrow> None
      | Some payload \<Rightarrow>
          if wcp_primary_thread_id payload = ev_thread_id event then Some payload else None)"

definition WorkLinkedPayload_from_event ::
    "work_codec \<Rightarrow> OperatorEvent \<Rightarrow> WorkLinkedPayload option" where
  "WorkLinkedPayload_from_event C event =
     (if ev_event_type event \<noteq> WorkLinked then None
      else case linked_of_value C (ev_payload event) of
        None \<Rightarrow> None
      | Some payload \<Rightarrow>
          if wlp_thread_id payload = ev_thread_id event then Some payload else None)"

definition local_actor :: OperatorActor where
  "local_actor = \<lparr>actor_kind = ''user'', actor_id = ''local''\<rparr>"

definition scoped ::
    "WorkId \<Rightarrow> string \<Rightarrow> OperatorEventType \<Rightarrow> string \<Rightarrow> json \<Rightarrow> string \<Rightarrow> OperatorEvent" where
  "scoped work_id thread_id event_type occurred_at payload new_event_id =
     \<lparr>ev_schema_version = OPERATOR_EVENT_SCHEMA_VERSION,
      ev_event_id = new_event_id,
      ev_thread_id = thread_id,
      ev_turn_id = None,
      ev_run_id = None,
      ev_call_id = None,
      ev_work_id = Some (WorkId_as_str work_id),
      ev_event_type = event_type,
      ev_occurred_at = occurred_at,
      ev_actor = local_actor,
      ev_risk_class = RiskLow,
      ev_sensitivity = LocalPrivate,
      ev_parent_event_id = None,
      ev_correlation_id = None,
      ev_source_refs = [],
      ev_evidence_refs = [],
      ev_payload = payload\<rparr>"

definition created_payload :: "string \<Rightarrow> string \<Rightarrow> string \<Rightarrow> json" where
  "created_payload intent origin_installation_id primary_thread_id =
     JObject [(''intent'', JString intent),
       (''origin_installation_id'', JString origin_installation_id),
       (''primary_thread_id'', JString primary_thread_id)]"

definition work_created_event ::
    "WorkId \<Rightarrow> string \<Rightarrow> string \<Rightarrow> string \<Rightarrow> string \<Rightarrow> string \<Rightarrow> OperatorEvent" where
  "work_created_event work_id primary_thread_id intent origin_installation_id occurred_at new_event_id =
     scoped work_id primary_thread_id WorkCreated occurred_at
       (created_payload intent origin_installation_id primary_thread_id) new_event_id"

definition linked_payload :: "string \<Rightarrow> WorkLinkOrigin \<Rightarrow> json" where
  "linked_payload thread_id origin =
     JObject [(''origin'', JString (WorkLinkOrigin_wire origin)), (''thread_id'', JString thread_id)]"

definition work_linked_event ::
    "WorkId \<Rightarrow> string \<Rightarrow> WorkLinkOrigin \<Rightarrow> string \<Rightarrow> string \<Rightarrow> OperatorEvent" where
  "work_linked_event work_id thread_id origin occurred_at new_event_id =
     scoped work_id thread_id WorkLinked occurred_at (linked_payload thread_id origin) new_event_id"

section \<open>The projector\<close>

record WorkProjection =
  works :: "(string, Work) btree"
  skipped_events :: nat

definition empty_projection :: WorkProjection where
  "empty_projection = \<lparr>works = [], skipped_events = 0\<rparr>"

definition projection_work :: "WorkProjection \<Rightarrow> string \<Rightarrow> Work option" where
  "projection_work p work_id = bt_get (works p) work_id"

definition projection_all :: "WorkProjection \<Rightarrow> Work list" where
  "projection_all p = map snd (works p)"

definition projection_len :: "WorkProjection \<Rightarrow> nat" where
  "projection_len p = length (works p)"

definition skip :: "WorkProjection \<Rightarrow> WorkProjection" where
  "skip p = p\<lparr>skipped_events := skipped_events p + 1\<rparr>"

definition new_work :: "WorkId \<Rightarrow> WorkCreatedPayload \<Rightarrow> string \<Rightarrow> Work" where
  "new_work work_id payload occurred_at =
     \<lparr>work_schema_version = SCHEMA_VERSION,
      work_work_id = work_id,
      work_revision = 1,
      work_intent = wcp_intent payload,
      work_status = Active,
      work_origin_installation_id = wcp_origin_installation_id payload,
      work_origin_node = None,
      work_coordinator_node = None,
      work_primary_thread_id = wcp_primary_thread_id payload,
      work_related_thread_ids = [],
      work_created_at = occurred_at,
      work_updated_at = occurred_at\<rparr>"

definition link_work :: "Work \<Rightarrow> WorkLinkedPayload \<Rightarrow> string \<Rightarrow> Work" where
  "link_work work payload occurred_at =
     (let thread = wlp_thread_id payload;
          related = work_related_thread_ids work;
          work1 = (if thread \<noteq> work_primary_thread_id work \<and> thread \<notin> set related
                   then work\<lparr>work_related_thread_ids := related @ [thread]\<rparr> else work)
      in work1\<lparr>work_revision := work_revision work1 + 1, work_updated_at := occurred_at\<rparr>)"

text \<open>One iteration of the loop of \<open>fold\<close>; \<open>continue\<close> is returning the projection.\<close>

definition fold_step :: "work_codec \<Rightarrow> WorkProjection \<Rightarrow> OperatorEvent \<Rightarrow> WorkProjection" where
  "fold_step C projection event =
     (case ev_work_id event of
        None \<Rightarrow> projection
      | Some raw_id \<Rightarrow>
          (case WorkId_parse raw_id of
             None \<Rightarrow> skip projection
           | Some work_id \<Rightarrow>
               (case ev_event_type event of
                  WorkCreated \<Rightarrow>
                    (case WorkCreatedPayload_from_event C event of
                       None \<Rightarrow> skip projection
                     | Some payload \<Rightarrow>
                         if bt_get (works projection) (WorkId_as_str work_id) \<noteq> None
                         then skip projection
                         else projection\<lparr>works := bt_insert (WorkId_as_str work_id)
                                (new_work work_id payload (ev_occurred_at event)) (works projection)\<rparr>)
                | WorkLinked \<Rightarrow>
                    (case WorkLinkedPayload_from_event C event of
                       None \<Rightarrow> skip projection
                     | Some payload \<Rightarrow>
                         (case bt_get (works projection) (WorkId_as_str work_id) of
                            None \<Rightarrow> skip projection
                          | Some work \<Rightarrow>
                              projection\<lparr>works := bt_insert (WorkId_as_str work_id)
                                (link_work work payload (ev_occurred_at event)) (works projection)\<rparr>))
                | _ \<Rightarrow> projection)))"

definition fold_work :: "work_codec \<Rightarrow> OperatorEvent list \<Rightarrow> WorkProjection" where
  "fold_work C events = foldl (fold_step C) empty_projection events"

section \<open>Promoting a thread\<close>

datatype MigrationConflict = AmbiguousWorkId "string list"

record WorkIdResolution =
  res_work_id :: WorkId
  res_origin :: WorkLinkOrigin

text \<open>A \<open>BTreeSet\<close> of the ids: sorted, each once.\<close>

definition btree_set :: "string list \<Rightarrow> string list" where
  "btree_set xs = sorted_list_of_set (set xs)"

definition resolve_work_id :: "string list \<Rightarrow> string \<Rightarrow> MigrationConflict + WorkIdResolution" where
  "resolve_work_id existing_ids new_uuid =
     (let distinct_ids = btree_set existing_ids
      in if distinct_ids \<noteq> [] then
           (case (if length distinct_ids = 1 then WorkId_parse (hd distinct_ids) else None) of
              Some work_id \<Rightarrow> Inr \<lparr>res_work_id = work_id, res_origin = Adopted\<rparr>
            | None \<Rightarrow> Inl (AmbiguousWorkId distinct_ids))
         else Inr \<lparr>res_work_id = WorkId_generate new_uuid, res_origin = Minted\<rparr>)"

section \<open>Identity\<close>

lemma WorkId_parse_as_str: "WorkId_parse s = Some w \<Longrightarrow> WorkId_as_str w = s"
  by (auto simp: WorkId_parse_def split: option.splits if_splits)

lemma WorkId_parse_generate:
  "WorkId_parse (WorkId_as_str (WorkId_generate u)) =
     (if u = [] \<or> length u > 128 \<or> \<not> list_all work_id_byte u then None else Some (WorkId_generate u))"
  by (simp add: WorkId_parse_def WorkId_generate_def)

lemma WorkId_parse_bytes:
  "WorkId_parse s = Some w \<Longrightarrow> \<forall>c\<in>set s. work_id_byte c"
  by (auto simp: WorkId_parse_def WORK_ID_PREFIX_def strip_prefix_Some_iff list_all_iff
      work_id_byte_def is_ascii_alphanumeric_def split: option.splits if_splits)

section \<open>One step of the fold\<close>

text \<open>
  Every event either leaves the projection alone, counts one skipped event, inserts a new Work
  under an id that is not there, or links a thread to the Work that is there. The projector's
  properties are proved on these four cases.
\<close>

lemma fold_step_cases:
  obtains (ignored) "fold_step C p e = p"
      "\<And>raw. ev_work_id e = Some raw \<Longrightarrow> WorkId_parse raw \<noteq> None"
      "ev_work_id e \<noteq> None \<Longrightarrow> ev_event_type e \<noteq> WorkCreated"
      "ev_work_id e \<noteq> None \<Longrightarrow> ev_event_type e \<noteq> WorkLinked"
  | (skipped) raw where "fold_step C p e = skip p" "ev_work_id e = Some raw"
      "WorkId_parse raw = None \<or> ev_event_type e = WorkCreated \<or> ev_event_type e = WorkLinked"
  | (created) raw wid payload where "ev_work_id e = Some raw" "WorkId_parse raw = Some wid"
      "ev_event_type e = WorkCreated" "WorkCreatedPayload_from_event C e = Some payload"
      "bt_get (works p) raw = None"
      "fold_step C p e = p\<lparr>works := bt_insert raw (new_work wid payload (ev_occurred_at e)) (works p)\<rparr>"
  | (linked) raw wid payload work where "ev_work_id e = Some raw" "WorkId_parse raw = Some wid"
      "ev_event_type e = WorkLinked" "WorkLinkedPayload_from_event C e = Some payload"
      "bt_get (works p) raw = Some work"
      "fold_step C p e = p\<lparr>works := bt_insert raw (link_work work payload (ev_occurred_at e)) (works p)\<rparr>"
proof (cases "ev_work_id e")
  case None
  then show ?thesis using ignored by (auto simp: fold_step_def)
next
  case (Some raw)
  show ?thesis
  proof (cases "WorkId_parse raw")
    case None
    with Some show ?thesis using skipped by (simp add: fold_step_def)
  next
    case wid: (Some wid)
    have str: "WorkId_as_str wid = raw" using wid by (rule WorkId_parse_as_str)
    consider (c) "ev_event_type e = WorkCreated" | (l) "ev_event_type e = WorkLinked"
      | (o) "ev_event_type e \<noteq> WorkCreated" "ev_event_type e \<noteq> WorkLinked" by blast
    then show ?thesis
    proof cases
      case c
      with Some wid str show ?thesis
        using skipped [of raw] created [of raw wid]
        by (cases "WorkCreatedPayload_from_event C e"; cases "bt_get (works p) raw")
          (simp_all add: fold_step_def)
    next
      case l
      with Some wid str show ?thesis
        using skipped [of raw] linked [of raw wid]
        by (cases "WorkLinkedPayload_from_event C e"; cases "bt_get (works p) raw")
          (simp_all add: fold_step_def)
    next
      case o
      then have "fold_step C p e = p"
        using Some wid by (simp add: fold_step_def split: OperatorEventType.splits)
      with o Some wid show ?thesis using ignored by simp
    qed
  qed
qed

lemma skip_simps [simp]:
  "works (skip p) = works p" "skipped_events (skip p) = Suc (skipped_events p)"
  by (simp_all add: skip_def)

lemma new_work_simps [simp]:
  "work_work_id (new_work w pl t) = w" "work_revision (new_work w pl t) = 1"
  "work_status (new_work w pl t) = Active" "work_origin_node (new_work w pl t) = None"
  "work_related_thread_ids (new_work w pl t) = []" "work_created_at (new_work w pl t) = t"
  "work_primary_thread_id (new_work w pl t) = wcp_primary_thread_id pl"
  "work_intent (new_work w pl t) = wcp_intent pl"
  "work_origin_installation_id (new_work w pl t) = wcp_origin_installation_id pl"
  by (simp_all add: new_work_def)

lemma link_work_frame [simp]:
  "work_work_id (link_work w pl t) = work_work_id w"
  "work_status (link_work w pl t) = work_status w"
  "work_origin_node (link_work w pl t) = work_origin_node w"
  "work_primary_thread_id (link_work w pl t) = work_primary_thread_id w"
  "work_intent (link_work w pl t) = work_intent w"
  "work_origin_installation_id (link_work w pl t) = work_origin_installation_id w"
  "work_created_at (link_work w pl t) = work_created_at w"
  "work_revision (link_work w pl t) = work_revision w + 1"
  "work_updated_at (link_work w pl t) = t"
  by (simp_all add: link_work_def Let_def)

lemma link_work_related:
  "work_related_thread_ids (link_work w pl t) =
     (if wlp_thread_id pl \<noteq> work_primary_thread_id w \<and> wlp_thread_id pl \<notin> set (work_related_thread_ids w)
      then work_related_thread_ids w @ [wlp_thread_id pl] else work_related_thread_ids w)"
  by (simp add: link_work_def Let_def)

section \<open>The invariant of a projection\<close>

definition work_ok :: "string \<Rightarrow> Work \<Rightarrow> bool" where
  "work_ok key w \<longleftrightarrow>
     WorkId_parse key = Some (work_work_id w) \<and> work_status w = Active \<and> \<not> is_replicable w \<and>
     distinct (work_related_thread_ids w) \<and>
     work_primary_thread_id w \<notin> set (work_related_thread_ids w)"

definition projection_ok :: "WorkProjection \<Rightarrow> bool" where
  "projection_ok p \<longleftrightarrow> bt_inv (works p) \<and> (\<forall>k w. bt_get (works p) k = Some w \<longrightarrow> work_ok k w)"

lemma work_ok_new: "WorkId_parse raw = Some wid \<Longrightarrow> work_ok raw (new_work wid pl t)"
  by (simp add: work_ok_def is_replicable_def)

lemma work_ok_link: "work_ok k w \<Longrightarrow> work_ok k (link_work w pl t)"
  by (auto simp: work_ok_def is_replicable_def link_work_related)

lemma projection_ok_empty: "projection_ok empty_projection"
  by (simp add: projection_ok_def empty_projection_def)

lemma projection_ok_insert:
  "projection_ok p \<Longrightarrow> work_ok k w \<Longrightarrow> projection_ok (p\<lparr>works := bt_insert k w (works p)\<rparr>)"
  by (auto simp: projection_ok_def)

lemma projection_ok_step: "projection_ok p \<Longrightarrow> projection_ok (fold_step C p e)"
proof (cases rule: fold_step_cases [of C p e])
  case (linked raw wid payload work)
  assume "projection_ok p"
  moreover from this linked(5) have "work_ok raw work" by (simp add: projection_ok_def)
  ultimately show ?thesis using linked(6) by (simp add: projection_ok_insert work_ok_link)
next
  case ignored
  assume "projection_ok p"
  with ignored(1) show ?thesis by simp
next
  case (skipped raw)
  assume "projection_ok p"
  with skipped(1) show ?thesis by (simp add: projection_ok_def)
next
  case (created raw wid payload)
  assume "projection_ok p"
  with created(2,6) show ?thesis by (simp add: projection_ok_insert work_ok_new)
qed

interpretation work_fold: event_fold "fold_step C" projection_ok for C
  by unfold_locales (rule projection_ok_step)

lemma fold_work_ok: "projection_ok (fold_work C es)"
  unfolding fold_work_def by (rule work_fold.fold_inv) (rule projection_ok_empty)

lemma fold_work_append: "fold_work C (es @ fs) = foldl (fold_step C) (fold_work C es) fs"
  by (simp add: fold_work_def)

lemma fold_work_snoc [simp]: "fold_work C (es @ [e]) = fold_step C (fold_work C es) e"
  by (simp add: fold_work_def)

section \<open>Isolation\<close>

lemma fold_step_other:
  "ev_work_id e \<noteq> Some k \<Longrightarrow> bt_get (works (fold_step C p e)) k = bt_get (works p) k"
  by (cases rule: fold_step_cases [of C p e]) auto

text \<open>The entry of one id after a step depends on the entry before and the event only.\<close>

lemma fold_step_local:
  "bt_get (works p) k = bt_get (works q) k \<Longrightarrow>
   bt_get (works (fold_step C p e)) k = bt_get (works (fold_step C q e)) k"
proof (cases "ev_work_id e = Some k")
  case True
  assume eq: "bt_get (works p) k = bt_get (works q) k"
  show ?thesis
  proof (cases "WorkId_parse k")
    case None
    with True eq show ?thesis by (simp add: fold_step_def)
  next
    case (Some wid)
    then have "WorkId_as_str wid = k" by (rule WorkId_parse_as_str)
    with True Some eq show ?thesis
      by (auto simp: fold_step_def split: OperatorEventType.splits option.splits)
  qed
qed (simp add: fold_step_other)

lemma fold_work_isolated:
  "bt_get (works (foldl (fold_step C) p es)) k =
   bt_get (works (foldl (fold_step C) q (filter (\<lambda>e. ev_work_id e = Some k) es))) k"
  if "bt_get (works p) k = bt_get (works q) k"
  using that
proof (induction es arbitrary: p q)
  case (Cons e es)
  show ?case
  proof (cases "ev_work_id e = Some k")
    case True
    from Cons.prems have "bt_get (works (fold_step C p e)) k = bt_get (works (fold_step C q e)) k"
      by (rule fold_step_local)
    with True show ?thesis using Cons.IH by simp
  next
    case False
    then have "bt_get (works (fold_step C p e)) k = bt_get (works q) k"
      using Cons.prems by (simp add: fold_step_other)
    with False show ?thesis using Cons.IH by simp
  qed
qed simp

section \<open>What a later event can change\<close>

definition extends :: "Work \<Rightarrow> Work \<Rightarrow> bool" where
  "extends x y \<longleftrightarrow>
     work_work_id y = work_work_id x \<and> work_intent y = work_intent x \<and>
     work_primary_thread_id y = work_primary_thread_id x \<and>
     work_origin_installation_id y = work_origin_installation_id x \<and>
     work_created_at y = work_created_at x \<and>
     prefix (work_related_thread_ids x) (work_related_thread_ids y)"

lemma extends_refl: "extends x x"
  by (simp add: extends_def)

lemma extends_trans: "extends x y \<Longrightarrow> extends y z \<Longrightarrow> extends x z"
  unfolding extends_def using prefix_order.trans by (metis (no_types))

lemma extends_link: "extends w (link_work w pl t)"
  by (simp add: extends_def link_work_related)

lemma fold_step_extends:
  assumes "bt_get (works p) k = Some x"
  shows "\<exists>y. bt_get (works (fold_step C p e)) k = Some y \<and> extends x y"
  using assms by (cases rule: fold_step_cases [of C p e]) (auto simp: extends_refl extends_link)

lemma foldl_fold_step_extends:
  "bt_get (works p) k = Some x \<Longrightarrow>
   \<exists>y. bt_get (works (foldl (fold_step C) p es)) k = Some y \<and> extends x y"
proof (induction es arbitrary: p x)
  case (Cons e es)
  from fold_step_extends [OF Cons.prems] obtain y
    where y: "bt_get (works (fold_step C p e)) k = Some y" "extends x y" by blast
  from Cons.IH [OF y(1)] y(2) show ?case by (auto intro: extends_trans)
qed (simp add: extends_refl)

section \<open>Accounting\<close>

text \<open>
  The events the projector has to account for: those scoped to a Work whose id is unusable, and
  the lifecycle events of a usable one.
\<close>

definition accountable :: "OperatorEvent \<Rightarrow> bool" where
  "accountable e \<longleftrightarrow>
     (\<exists>raw. ev_work_id e = Some raw \<and>
       (WorkId_parse raw = None \<or> ev_event_type e = WorkCreated \<or> ev_event_type e = WorkLinked))"

definition total_revisions :: "WorkProjection \<Rightarrow> nat" where
  "total_revisions p = sum_list (map (\<lambda>w. unat (work_revision (snd w))) (works p))"

lemma sum_list_bt_insert:
  "bt_inv m \<Longrightarrow>
   sum_list (map (\<lambda>e. f (snd e)) (bt_insert k v m)) + (case bt_get m k of None \<Rightarrow> 0 | Some v' \<Rightarrow> f v') =
   sum_list (map (\<lambda>e. f (snd e)) m) + (f v :: nat)"
proof (induction m)
  case (Cons e m)
  obtain k' v' where e: "e = (k', v')" by fastforce
  from Cons.prems have inv: "bt_inv m" and below: "\<forall>x\<in>set m. k' < fst x"
    by (auto simp: bt_inv_def e)
  consider "k' < k" | "k' = k" | "k < k'" by fastforce
  then show ?case
  proof cases
    case 1
    then show ?thesis using Cons.IH [OF inv] e by (auto split: option.splits)
  next
    case 3
    with below have "k \<notin> fst ` set m" by fastforce
    then have "bt_get m k = None" by (simp add: map_of_eq_None_iff)
    with 3 e show ?thesis by auto
  qed (simp add: e)
qed simp

lemma unat_plus_one: "unat (w + 1 :: u64) = Suc (unat w)" if "Suc (unat w) < 2 ^ 64"
  using that by (simp add: unat_word_ariths)

lemma total_revisions_member:
  "bt_get (works p) k = Some w \<Longrightarrow> unat (work_revision w) \<le> total_revisions p"
  unfolding total_revisions_def by (force dest!: map_of_SomeD intro!: member_le_sum_list)

lemma accounting_step:
  assumes "projection_ok p" and "Suc (total_revisions p) < 2 ^ 64"
  shows "skipped_events (fold_step C p e) + total_revisions (fold_step C p e) =
    skipped_events p + total_revisions p + (if accountable e then 1 else 0)"
proof (cases rule: fold_step_cases [of C p e])
  case ignored
  then have "\<not> accountable e" by (auto simp: accountable_def)
  with ignored(1) show ?thesis by simp
next
  case (skipped raw)
  then have "accountable e" by (auto simp: accountable_def)
  with skipped(1) show ?thesis by (simp add: total_revisions_def)
next
  case (created raw wid payload)
  have inv: "bt_inv (works p)" using assms(1) by (simp add: projection_ok_def)
  from created have "accountable e" by (auto simp: accountable_def)
  with created(6) show ?thesis
    using sum_list_bt_insert [OF inv, of "\<lambda>w. unat (work_revision w)" raw] created(5)
    by (simp add: total_revisions_def)
next
  case (linked raw wid payload work)
  have inv: "bt_inv (works p)" using assms(1) by (simp add: projection_ok_def)
  have "Suc (unat (work_revision work)) < 2 ^ 64"
    using total_revisions_member [OF linked(5)] assms(2) by linarith
  then have rev: "unat (work_revision work + 1) = Suc (unat (work_revision work))"
    by (rule unat_plus_one)
  from linked have "accountable e" by (auto simp: accountable_def)
  with linked(6) show ?thesis
    using sum_list_bt_insert [OF inv, of "\<lambda>w. unat (work_revision w)" raw
        "link_work work payload (ev_occurred_at e)"] linked(5) rev
    by (simp add: total_revisions_def)
qed

lemma accounting:
  "length es < 2 ^ 64 - 1 \<Longrightarrow>
   skipped_events (fold_work C es) + total_revisions (fold_work C es) = length (filter accountable es)"
proof (induction es rule: rev_induct)
  case Nil
  then show ?case by (simp add: fold_work_def empty_projection_def total_revisions_def)
next
  case (snoc e es)
  then have IH: "skipped_events (fold_work C es) + total_revisions (fold_work C es) = length (filter accountable es)"
    by simp
  have "length (filter accountable es) \<le> length es" by (rule length_filter_le)
  then have "total_revisions (fold_work C es) \<le> length es" using IH by linarith
  then have "Suc (total_revisions (fold_work C es)) < 2 ^ 64" using snoc.prems by simp
  from accounting_step [OF fold_work_ok this] IH show ?case by simp
qed

section \<open>The payload codec\<close>

text \<open>
  What the projector relies on of the derived deserialisers: they read back the objects the two
  event constructors write.
\<close>

locale work_codec_laws =
  fixes C :: work_codec
  assumes created_law: "created_of_value C (created_payload i inst t) =
      Some \<lparr>wcp_intent = i, wcp_origin_installation_id = inst, wcp_primary_thread_id = t\<rparr>"
    and linked_law: "linked_of_value C (linked_payload t orig) =
      Some \<lparr>wlp_thread_id = t, wlp_origin = orig\<rparr>"
begin

lemma created_event_payload:
  "WorkCreatedPayload_from_event C (work_created_event wid t i inst at eid) =
   Some \<lparr>wcp_intent = i, wcp_origin_installation_id = inst, wcp_primary_thread_id = t\<rparr>"
  by (simp add: WorkCreatedPayload_from_event_def work_created_event_def scoped_def created_law)

lemma linked_event_payload:
  "WorkLinkedPayload_from_event C (work_linked_event wid t orig at eid) =
   Some \<lparr>wlp_thread_id = t, wlp_origin = orig\<rparr>"
  by (simp add: WorkLinkedPayload_from_event_def work_linked_event_def scoped_def linked_law)

lemma fold_created:
  assumes "WorkId_parse k = Some wid" and "bt_get (works p) k = None"
  shows "fold_step C p (work_created_event wid t i inst at eid) =
    p\<lparr>works := bt_insert k (new_work wid
       \<lparr>wcp_intent = i, wcp_origin_installation_id = inst, wcp_primary_thread_id = t\<rparr> at) (works p)\<rparr>"
proof -
  have "WorkId_as_str wid = k" using assms(1) by (rule WorkId_parse_as_str)
  then show ?thesis using assms created_event_payload [of wid t i inst at eid]
    by (simp add: fold_step_def work_created_event_def scoped_def)
qed

lemma fold_linked:
  assumes "WorkId_parse k = Some wid" and "bt_get (works p) k = Some w"
  shows "fold_step C p (work_linked_event wid t orig at eid) =
    p\<lparr>works := bt_insert k (link_work w \<lparr>wlp_thread_id = t, wlp_origin = orig\<rparr> at) (works p)\<rparr>"
proof -
  have "WorkId_as_str wid = k" using assms(1) by (rule WorkId_parse_as_str)
  then show ?thesis using assms linked_event_payload [of wid t orig at eid]
    by (simp add: fold_step_def work_linked_event_def scoped_def)
qed

end

text \<open>A codec that reads the fields of an object, as the derived one does.\<close>

definition object_work_codec :: work_codec where
  "object_work_codec =
     \<lparr>created_of_value = (\<lambda>v.
        case (string_field v ''intent'', string_field v ''origin_installation_id'',
              string_field v ''primary_thread_id'') of
          (Some i, Some inst, Some t) \<Rightarrow>
            Some \<lparr>wcp_intent = i, wcp_origin_installation_id = inst, wcp_primary_thread_id = t\<rparr>
        | _ \<Rightarrow> None),
      linked_of_value = (\<lambda>v.
        case (string_field v ''thread_id'', string_field v ''origin'') of
          (Some t, Some orig) \<Rightarrow>
            (if orig = ''adopted'' then Some \<lparr>wlp_thread_id = t, wlp_origin = Adopted\<rparr>
             else if orig = ''minted'' then Some \<lparr>wlp_thread_id = t, wlp_origin = Minted\<rparr>
             else None)
        | _ \<Rightarrow> None)\<rparr>"

interpretation object_codec: work_codec_laws object_work_codec
proof
  fix t and orig :: WorkLinkOrigin
  show "linked_of_value object_work_codec (linked_payload t orig) =
      Some \<lparr>wlp_thread_id = t, wlp_origin = orig\<rparr>"
    by (cases orig) (simp_all add: object_work_codec_def linked_payload_def string_field_def json_get_def)
qed (simp add: object_work_codec_def created_payload_def string_field_def json_get_def)

section \<open>Properties\<close>

text \<open>Replaying any stream, damaged or not, yields Works that are each filed under their own
  valid identity, are active and local to the installation (never replicable), and list every
  related thread once and never the primary one.\<close>

theorem work_projection_invariant:
  assumes "projection_work (fold_work C es) k = Some w"
  shows "WorkId_parse k = Some (work_work_id w) \<and> work_status w = Active \<and> \<not> is_replicable w \<and>
    distinct (work_related_thread_ids w) \<and> work_primary_thread_id w \<notin> set (work_related_thread_ids w)"
  using fold_work_ok [of C es] assms by (auto simp: projection_ok_def work_ok_def projection_work_def)

definition demo_created :: OperatorEvent where
  "demo_created = work_created_event (WorkId ''work-a'') ''thread-1'' ''ship'' ''inst'' ''t0'' ''e1''"

definition demo_linked :: OperatorEvent where
  "demo_linked = work_linked_event (WorkId ''work-a'') ''thread-9'' Adopted ''t1'' ''e2''"

lemma demo_parse: "WorkId_parse ''work-a'' = Some (WorkId ''work-a'')"
  by (simp add: WorkId_parse_def WORK_ID_PREFIX_def strip_prefix_def work_id_byte_def
      is_ascii_alphanumeric_def)

lemma demo_fold:
  "projection_work (fold_work object_work_codec [demo_created]) ''work-a'' =
   Some (new_work (WorkId ''work-a'')
     \<lparr>wcp_intent = ''ship'', wcp_origin_installation_id = ''inst'', wcp_primary_thread_id = ''thread-1''\<rparr> ''t0'')"
proof -
  have "fold_work object_work_codec ([] @ [demo_created]) =
    fold_step object_work_codec (fold_work object_work_codec []) demo_created" by (rule fold_work_snoc)
  then show ?thesis
    by (simp add: demo_created_def object_codec.fold_created [OF demo_parse] fold_work_def
        empty_projection_def projection_work_def)
qed

theorem work_projection_invariant_witness:
  "\<exists>w. projection_work (fold_work object_work_codec [demo_created]) ''work-a'' = Some w \<and>
     WorkId_parse ''work-a'' = Some (work_work_id w) \<and> \<not> is_replicable w"
  using work_projection_invariant [OF demo_fold] demo_fold by blast

text \<open>What one Work looks like depends on its own events only: dropping every event of every
  other Work, and every unscoped event, from the stream does not change its folded aggregate.\<close>

theorem work_fold_isolation:
  "projection_work (fold_work C es) k =
   projection_work (fold_work C (filter (\<lambda>e. ev_work_id e = Some k) es)) k"
  unfolding projection_work_def fold_work_def by (rule fold_work_isolated) simp

text \<open>Appending events never removes a Work or rewrites who it is: its identity, intent, primary
  thread, installation and creation time stay, and its related threads only grow at the end.\<close>

theorem work_fold_append_only:
  assumes "projection_work (fold_work C es) k = Some x"
  shows "\<exists>y. projection_work (fold_work C (es @ fs)) k = Some y \<and>
    work_work_id y = work_work_id x \<and> work_intent y = work_intent x \<and>
    work_primary_thread_id y = work_primary_thread_id x \<and>
    work_origin_installation_id y = work_origin_installation_id x \<and>
    work_created_at y = work_created_at x \<and>
    prefix (work_related_thread_ids x) (work_related_thread_ids y)"
proof -
  from assms have "bt_get (works (fold_work C es)) k = Some x" by (simp add: projection_work_def)
  from foldl_fold_step_extends [OF this, of C fs] show ?thesis
    by (auto simp: projection_work_def fold_work_append extends_def)
qed

theorem work_fold_append_only_witness:
  "\<exists>y. projection_work (fold_work object_work_codec ([demo_created] @ [demo_linked])) ''work-a'' = Some y \<and>
     work_intent y = ''ship'' \<and> work_created_at y = ''t0''"
  using work_fold_append_only [OF demo_fold, of "[demo_linked]"] by auto

text \<open>Damage is counted, never smoothed over: the skipped events and the revisions of all Works
  together are exactly the events the projector has to account for.\<close>

theorem work_fold_accounting:
  assumes "length es < 2 ^ 64 - 1"
  shows "skipped_events (fold_work C es) +
      sum_list (map (\<lambda>w. unat (work_revision w)) (projection_all (fold_work C es))) =
    length (filter accountable es)"
  using accounting [OF assms, of C] by (simp add: total_revisions_def projection_all_def comp_def)

theorem work_fold_accounting_witness:
  "skipped_events (fold_work object_work_codec [demo_created]) +
     sum_list (map (\<lambda>w. unat (work_revision w)) (projection_all (fold_work object_work_codec [demo_created]))) = 1"
  using work_fold_accounting [of "[demo_created]" object_work_codec]
  by (simp add: accountable_def demo_created_def work_created_event_def scoped_def)

text \<open>Creating a Work under an unused identity and then linking a thread to it gives exactly the
  recorded intent, threads and revision 2, and no event is counted as damage.\<close>

theorem work_created_then_linked:
  assumes "work_codec_laws C" and "WorkId_parse k = Some wid"
    and "projection_work (fold_work C es) k = None"
    and "p = fold_work C (es @ [work_created_event wid t i inst at1 e1, work_linked_event wid t2 orig at2 e2])"
  shows "projection_work p k = Some
    \<lparr>work_schema_version = SCHEMA_VERSION, work_work_id = wid, work_revision = 2, work_intent = i,
     work_status = Active, work_origin_installation_id = inst, work_origin_node = None,
     work_coordinator_node = None, work_primary_thread_id = t,
     work_related_thread_ids = (if t2 = t then [] else [t2]),
     work_created_at = at1, work_updated_at = at2\<rparr> \<and>
    skipped_events p = skipped_events (fold_work C es)"
  using assms(2-4) work_codec_laws.fold_created [OF assms(1,2)] work_codec_laws.fold_linked [OF assms(1,2)]
  by (simp add: projection_work_def fold_work_append new_work_def link_work_def)

theorem work_created_then_linked_witness:
  "work_related_thread_ids (the (projection_work
     (fold_work object_work_codec ([] @ [demo_created, demo_linked])) ''work-a'')) = [''thread-9'']"
proof -
  have none: "projection_work (fold_work object_work_codec []) ''work-a'' = None"
    by (simp add: fold_work_def empty_projection_def projection_work_def)
  show ?thesis
    unfolding demo_created_def demo_linked_def
    by (subst work_created_then_linked [OF object_codec.work_codec_laws_axioms demo_parse none refl,
          THEN conjunct1]) simp
qed

text \<open>Promoting a thread adopts the one usable id its rows carry, mints only when no row carries
  any, and otherwise refuses with the sorted conflicting ids; it never mints while an id exists.\<close>

theorem resolve_work_id_decides:
  "(resolve_work_id ids u = Inr r \<longleftrightarrow>
      ids = [] \<and> r = \<lparr>res_work_id = WorkId_generate u, res_origin = Minted\<rparr> \<or>
      (\<exists>x w. set ids = {x} \<and> WorkId_parse x = Some w \<and> r = \<lparr>res_work_id = w, res_origin = Adopted\<rparr>)) \<and>
   (resolve_work_id ids u = Inl (AmbiguousWorkId f) \<longleftrightarrow>
      ids \<noteq> [] \<and> f = sorted_list_of_set (set ids) \<and>
      (\<nexists>x w. set ids = {x} \<and> WorkId_parse x = Some w))"
proof (cases "ids = []")
  case True
  then show ?thesis by (auto simp: resolve_work_id_def btree_set_def)
next
  case False
  then have ne: "btree_set ids \<noteq> []" by (simp add: btree_set_def)
  have one: "length (btree_set ids) = 1 \<longleftrightarrow> (\<exists>x. set ids = {x})"
    by (simp add: btree_set_def card_1_singleton_iff)
  show ?thesis
  proof (cases "\<exists>x. set ids = {x}")
    case True
    then obtain x where x: "set ids = {x}" by blast
    then have "btree_set ids = [x]" by (simp add: btree_set_def)
    then have "resolve_work_id ids u = (case WorkId_parse x of
        Some w \<Rightarrow> Inr \<lparr>res_work_id = w, res_origin = Adopted\<rparr> | None \<Rightarrow> Inl (AmbiguousWorkId [x]))"
      by (simp add: resolve_work_id_def)
    then show ?thesis using False x by (cases "WorkId_parse x") auto
  next
    case no: False
    then have "length (btree_set ids) \<noteq> 1" using one by simp
    then have "resolve_work_id ids u = Inl (AmbiguousWorkId (btree_set ids))"
      using ne by (simp add: resolve_work_id_def)
    then show ?thesis using False no by (auto simp: btree_set_def)
  qed
qed

end
