(* ===== verification/Worker.thy ===== *)
theory Worker
  imports Operator_Event
begin

text \<open>
  Worker runs: \<open>crates/heiwa_worker/src/model.rs\<close> (worker, pane and process states and the
  identities), \<open>events.rs\<close> (their facts as operator events), \<open>projector.rs\<close> (the fold of the
  stream into run rows) and \<open>recovery.rs\<close> (which runs lost their supervisor after a restart, and
  what a look at the process proves). The derived (de)serialisers of the six payloads are the
  parameter \<open>worker_codec\<close>; their law is that decoding an encoded payload gives it back.
\<close>

type_synonym i32 = "32 word"

section \<open>States and identities\<close>

datatype WorkerState = Starting | Live | Stale | Exited | Failed | Revoked

datatype PaneState = Unverified | Working | Done | Failed | Stale

datatype ObservedProcess = Alive | Gone | Unknown

fun ObservedProcess_as_str :: "ObservedProcess \<Rightarrow> string" where
  "ObservedProcess_as_str Alive = ''alive''"
| "ObservedProcess_as_str Gone = ''gone''"
| "ObservedProcess_as_str Unknown = ''unknown''"

fun for_worker :: "WorkerState \<Rightarrow> PaneState" where
  "for_worker Starting = Unverified"
| "for_worker Live = Working"
| "for_worker Exited = Done"
| "for_worker WorkerState.Failed = PaneState.Failed"
| "for_worker Revoked = PaneState.Failed"
| "for_worker WorkerState.Stale = PaneState.Stale"

record WorkerIdentity =
  wi_schema_version :: u32
  wi_worker_id :: string
  wi_work_id :: string
  wi_thread_id :: string
  wi_provider :: string
  wi_provider_session_ref :: "string option"
  wi_executable_path :: string
  wi_executable_sha256 :: string
  wi_cwd :: string
  wi_repo_root :: string
  wi_branch :: string
  wi_base_commit :: string
  wi_lease_id :: string
  wi_installation_id :: string
  wi_started_at :: string

record PaneIdentity =
  pi_schema_version :: u32
  pi_pane_id :: string
  pi_work_id :: string
  pi_worker_id :: string
  pi_cwd :: string
  pi_repo_root :: string
  pi_branch :: string
  pi_opened_at :: string

section \<open>Payloads\<close>

record WorkerLaunchedPayload =
  lp_worker_id :: string
  lp_provider :: string
  lp_provider_session_ref :: "string option"
  lp_executable_path :: string
  lp_executable_sha256 :: string
  lp_cwd :: string
  lp_repo_root :: string
  lp_branch :: string
  lp_base_commit :: string
  lp_lease_id :: string
  lp_installation_id :: string

record WorkerHeartbeatPayload =
  hp_worker_id :: string
  hp_pid :: u32
  hp_process_start_id :: "string option"

record WorkerExitedPayload =
  xp_worker_id :: string
  xp_exit_code :: "i32 option"
  xp_failure_code :: "string option"

record WorkerStalePayload =
  sp_worker_id :: string
  sp_reason :: string
  sp_process :: ObservedProcess
  sp_pid :: "u32 option"

definition OWNER_LOST :: string where "OWNER_LOST = ''owner_lost''"

record PaneOpenedPayload =
  op_pane_id :: string
  op_worker_id :: string
  op_cwd :: string
  op_repo_root :: string
  op_branch :: string

record PaneClosedPayload =
  cp_pane_id :: string
  cp_worker_id :: string
  cp_tail :: "string list"
  cp_dropped_lines :: u64

record worker_codec =
  launched_to_value :: "WorkerLaunchedPayload \<Rightarrow> json"
  launched_of_value :: "json \<Rightarrow> WorkerLaunchedPayload option"
  heartbeat_to_value :: "WorkerHeartbeatPayload \<Rightarrow> json"
  heartbeat_of_value :: "json \<Rightarrow> WorkerHeartbeatPayload option"
  exited_to_value :: "WorkerExitedPayload \<Rightarrow> json"
  exited_of_value :: "json \<Rightarrow> WorkerExitedPayload option"
  stale_to_value :: "WorkerStalePayload \<Rightarrow> json"
  stale_of_value :: "json \<Rightarrow> WorkerStalePayload option"
  opened_to_value :: "PaneOpenedPayload \<Rightarrow> json"
  opened_of_value :: "json \<Rightarrow> PaneOpenedPayload option"
  closed_to_value :: "PaneClosedPayload \<Rightarrow> json"
  closed_of_value :: "json \<Rightarrow> PaneClosedPayload option"

text \<open>The macro \<open>from_event!\<close>: the payload of an event of the right type, if it decodes.\<close>

definition from_event ::
    "OperatorEventType \<Rightarrow> (json \<Rightarrow> 'p option) \<Rightarrow> OperatorEvent \<Rightarrow> 'p option" where
  "from_event variant decode event =
     (if ev_event_type event \<noteq> variant then None else decode (ev_payload event))"

section \<open>Event constructors\<close>

record RunRef =
  rr_work_id :: string
  rr_thread_id :: string
  rr_run_id :: string
  rr_worker_id :: string

definition RunRef_of :: "WorkerIdentity \<Rightarrow> string \<Rightarrow> RunRef" where
  "RunRef_of identity run_id =
     \<lparr>rr_work_id = wi_work_id identity, rr_thread_id = wi_thread_id identity,
      rr_run_id = run_id, rr_worker_id = wi_worker_id identity\<rparr>"

definition worker_scoped ::
    "RunRef \<Rightarrow> OperatorEventType \<Rightarrow> string \<Rightarrow> json \<Rightarrow> string \<Rightarrow> OperatorEvent" where
  "worker_scoped scope event_type occurred_at payload new_event_id =
     \<lparr>ev_schema_version = OPERATOR_EVENT_SCHEMA_VERSION,
      ev_event_id = new_event_id,
      ev_thread_id = rr_thread_id scope,
      ev_turn_id = None,
      ev_run_id = Some (rr_run_id scope),
      ev_call_id = None,
      ev_work_id = Some (rr_work_id scope),
      ev_event_type = event_type,
      ev_occurred_at = occurred_at,
      ev_actor = \<lparr>actor_kind = ''worker'', actor_id = rr_worker_id scope\<rparr>,
      ev_risk_class = RiskLow,
      ev_sensitivity = LocalPrivate,
      ev_parent_event_id = None,
      ev_correlation_id = None,
      ev_source_refs = [],
      ev_evidence_refs = [],
      ev_payload = payload\<rparr>"

definition worker_launched_event ::
    "worker_codec \<Rightarrow> WorkerIdentity \<Rightarrow> string \<Rightarrow> string \<Rightarrow> string \<Rightarrow> OperatorEvent" where
  "worker_launched_event C identity run_id occurred_at new_event_id =
     worker_scoped (RunRef_of identity run_id) WorkerLaunched occurred_at
       (launched_to_value C
         \<lparr>lp_worker_id = wi_worker_id identity, lp_provider = wi_provider identity,
          lp_provider_session_ref = wi_provider_session_ref identity,
          lp_executable_path = wi_executable_path identity,
          lp_executable_sha256 = wi_executable_sha256 identity,
          lp_cwd = wi_cwd identity, lp_repo_root = wi_repo_root identity,
          lp_branch = wi_branch identity, lp_base_commit = wi_base_commit identity,
          lp_lease_id = wi_lease_id identity, lp_installation_id = wi_installation_id identity\<rparr>)
       new_event_id"

definition worker_heartbeat_event ::
    "worker_codec \<Rightarrow> WorkerIdentity \<Rightarrow> string \<Rightarrow> u32 \<Rightarrow> string option \<Rightarrow> string \<Rightarrow> string \<Rightarrow>
      OperatorEvent" where
  "worker_heartbeat_event C identity run_id pid process_start_id occurred_at new_event_id =
     worker_scoped (RunRef_of identity run_id) WorkerHeartbeat occurred_at
       (heartbeat_to_value C
         \<lparr>hp_worker_id = wi_worker_id identity, hp_pid = pid, hp_process_start_id = process_start_id\<rparr>)
       new_event_id"

definition worker_exited_event ::
    "worker_codec \<Rightarrow> WorkerIdentity \<Rightarrow> string \<Rightarrow> i32 option \<Rightarrow> string option \<Rightarrow> string \<Rightarrow> string \<Rightarrow>
      OperatorEvent" where
  "worker_exited_event C identity run_id exit_code failure_code occurred_at new_event_id =
     worker_scoped (RunRef_of identity run_id) WorkerExited occurred_at
       (exited_to_value C
         \<lparr>xp_worker_id = wi_worker_id identity, xp_exit_code = exit_code,
          xp_failure_code = failure_code\<rparr>)
       new_event_id"

definition worker_stale_event ::
    "worker_codec \<Rightarrow> RunRef \<Rightarrow> ObservedProcess \<Rightarrow> u32 option \<Rightarrow> string \<Rightarrow> string \<Rightarrow> OperatorEvent" where
  "worker_stale_event C run process pid occurred_at new_event_id =
     (worker_scoped run WorkerStale occurred_at
       (stale_to_value C
         \<lparr>sp_worker_id = rr_worker_id run, sp_reason = OWNER_LOST, sp_process = process, sp_pid = pid\<rparr>)
       new_event_id)
     \<lparr>ev_actor := \<lparr>actor_kind = ''runtime'', actor_id = ''worker-recovery''\<rparr>\<rparr>"

definition pane_scope :: "PaneIdentity \<Rightarrow> string \<Rightarrow> string \<Rightarrow> RunRef" where
  "pane_scope pane run_id thread_id =
     \<lparr>rr_work_id = pi_work_id pane, rr_thread_id = thread_id, rr_run_id = run_id,
      rr_worker_id = pi_worker_id pane\<rparr>"

definition pane_opened_event ::
    "worker_codec \<Rightarrow> PaneIdentity \<Rightarrow> string \<Rightarrow> string \<Rightarrow> string \<Rightarrow> string \<Rightarrow> OperatorEvent" where
  "pane_opened_event C pane run_id thread_id occurred_at new_event_id =
     worker_scoped (pane_scope pane run_id thread_id) PaneOpened occurred_at
       (opened_to_value C
         \<lparr>op_pane_id = pi_pane_id pane, op_worker_id = pi_worker_id pane, op_cwd = pi_cwd pane,
          op_repo_root = pi_repo_root pane, op_branch = pi_branch pane\<rparr>)
       new_event_id"

definition pane_closed_event ::
    "worker_codec \<Rightarrow> PaneIdentity \<Rightarrow> string \<Rightarrow> string \<Rightarrow> string list \<Rightarrow> u64 \<Rightarrow> string \<Rightarrow> string \<Rightarrow>
      OperatorEvent" where
  "pane_closed_event C pane run_id thread_id tail dropped_lines occurred_at new_event_id =
     worker_scoped (pane_scope pane run_id thread_id) PaneClosed occurred_at
       (closed_to_value C
         \<lparr>cp_pane_id = pi_pane_id pane, cp_worker_id = pi_worker_id pane, cp_tail = tail,
          cp_dropped_lines = dropped_lines\<rparr>)
       new_event_id"

section \<open>The run projector\<close>

record SupervisionLoss =
  sl_reason :: string
  sl_process :: ObservedProcess
  sl_pid :: "u32 option"
  sl_recorded_at :: string

definition SupervisionLoss_code :: "SupervisionLoss \<Rightarrow> string" where
  "SupervisionLoss_code l = sl_reason l @ ''_process_'' @ ObservedProcess_as_str (sl_process l)"

record RunRow =
  row_run_id :: string
  row_worker_id :: string
  row_work_id :: string
  row_thread_id :: string
  row_worker_state :: WorkerState
  row_provider :: "string option"
  row_provider_session_ref :: "string option"
  row_executable_path :: "string option"
  row_executable_sha256 :: "string option"
  row_cwd :: "string option"
  row_repo_root :: "string option"
  row_branch :: "string option"
  row_base_commit :: "string option"
  row_lease_id :: "string option"
  row_started_at :: "string option"
  row_ended_at :: "string option"
  row_exit_code :: "i32 option"
  row_failure_code :: "string option"
  row_pid :: "u32 option"
  row_process_start_id :: "string option"
  row_supervision :: "SupervisionLoss option"
  row_pane_id :: "string option"
  row_pane_state :: "PaneState option"
  row_pane_tail :: "string list"
  row_pane_dropped_lines :: u64

definition RunRow_new :: "string \<Rightarrow> string \<Rightarrow> string \<Rightarrow> string \<Rightarrow> RunRow" where
  "RunRow_new run_id worker_id work_id thread_id =
     \<lparr>row_run_id = run_id, row_worker_id = worker_id, row_work_id = work_id,
      row_thread_id = thread_id, row_worker_state = Starting, row_provider = None,
      row_provider_session_ref = None, row_executable_path = None,
      row_executable_sha256 = None, row_cwd = None, row_repo_root = None, row_branch = None,
      row_base_commit = None, row_lease_id = None, row_started_at = None, row_ended_at = None,
      row_exit_code = None, row_failure_code = None, row_pid = None,
      row_process_start_id = None, row_supervision = None, row_pane_id = None,
      row_pane_state = None, row_pane_tail = [], row_pane_dropped_lines = 0\<rparr>"

record RunFold =
  rows :: "(string, RunRow) btree"
  order :: "string list"

definition empty_fold :: RunFold where
  "empty_fold = \<lparr>rows = [], order = []\<rparr>"

text \<open>\<open>RunFold::row\<close>: the row an event addresses, if it belongs to the same Work.\<close>

definition fold_row :: "RunFold \<Rightarrow> OperatorEvent \<Rightarrow> string \<Rightarrow> RunRow option" where
  "fold_row f event work_id =
     (case ev_run_id event of
        None \<Rightarrow> None
      | Some run_id \<Rightarrow>
          (case bt_get (rows f) run_id of
             None \<Rightarrow> None
           | Some row \<Rightarrow> if row_work_id row = work_id then Some row else None))"

text \<open>Writing through the reference \<open>row\<close> returned.\<close>

definition put_row :: "RunFold \<Rightarrow> OperatorEvent \<Rightarrow> RunRow \<Rightarrow> RunFold" where
  "put_row f event row = f\<lparr>rows := bt_insert (the (ev_run_id event)) row (rows f)\<rparr>"

definition set_launched :: "worker_codec \<Rightarrow> OperatorEvent \<Rightarrow> RunRow \<Rightarrow> RunRow" where
  "set_launched C event row0 =
     (let row = row0\<lparr>row_started_at := Some (ev_occurred_at event)\<rparr> in
      case from_event WorkerLaunched (launched_of_value C) event of
        None \<Rightarrow> row
      | Some payload \<Rightarrow>
          row\<lparr>row_worker_id := lp_worker_id payload,
              row_provider := Some (lp_provider payload),
              row_provider_session_ref := lp_provider_session_ref payload,
              row_executable_path := Some (lp_executable_path payload),
              row_executable_sha256 := Some (lp_executable_sha256 payload),
              row_cwd := Some (lp_cwd payload),
              row_repo_root := Some (lp_repo_root payload),
              row_branch := Some (lp_branch payload),
              row_base_commit := Some (lp_base_commit payload),
              row_lease_id := Some (lp_lease_id payload)\<rparr>)"

definition set_heartbeat :: "worker_codec \<Rightarrow> OperatorEvent \<Rightarrow> RunRow \<Rightarrow> RunRow" where
  "set_heartbeat C event row0 =
     (let row = (if row_worker_state row0 = Starting then row0\<lparr>row_worker_state := Live\<rparr> else row0) in
      if row_pid row = None then
        (case from_event WorkerHeartbeat (heartbeat_of_value C) event of
           None \<Rightarrow> row
         | Some payload \<Rightarrow>
             row\<lparr>row_pid := Some (hp_pid payload),
                 row_process_start_id := hp_process_start_id payload\<rparr>)
      else row)"

definition set_exited :: "worker_codec \<Rightarrow> OperatorEvent \<Rightarrow> RunRow \<Rightarrow> RunRow" where
  "set_exited C event row0 =
     (let row1 = row0\<lparr>row_ended_at := Some (ev_occurred_at event)\<rparr>;
          row = (case from_event WorkerExited (exited_of_value C) event of
            Some payload \<Rightarrow>
              row1\<lparr>row_exit_code := xp_exit_code payload,
                   row_failure_code := xp_failure_code payload,
                   row_worker_state :=
                     (if xp_failure_code payload \<noteq> None then WorkerState.Failed else Exited)\<rparr>
          | None \<Rightarrow> row1\<lparr>row_worker_state := Exited\<rparr>) in
      if row_pane_id row \<noteq> None
      then row\<lparr>row_pane_state := Some (for_worker (row_worker_state row))\<rparr> else row)"

definition set_stale :: "worker_codec \<Rightarrow> OperatorEvent \<Rightarrow> RunRow \<Rightarrow> RunRow" where
  "set_stale C event row0 =
     (if row_worker_state row0 \<notin> {Starting, Live} then row0
      else
        let payload = from_event WorkerStale (stale_of_value C) event;
            row = row0\<lparr>row_worker_state := WorkerState.Stale,
              row_supervision := Some
                \<lparr>sl_reason = (case payload of Some p \<Rightarrow> sp_reason p | None \<Rightarrow> OWNER_LOST),
                 sl_process = (case payload of Some p \<Rightarrow> sp_process p | None \<Rightarrow> Unknown),
                 sl_pid = (case payload of Some p \<Rightarrow> sp_pid p | None \<Rightarrow> None),
                 sl_recorded_at = ev_occurred_at event\<rparr>\<rparr> in
        if row_pane_id row \<noteq> None
        then row\<lparr>row_pane_state := Some (for_worker WorkerState.Stale)\<rparr> else row)"

definition set_opened :: "PaneOpenedPayload \<Rightarrow> RunRow \<Rightarrow> RunRow" where
  "set_opened payload row =
     row\<lparr>row_pane_id := Some (op_pane_id payload),
         row_pane_state := Some (for_worker (row_worker_state row))\<rparr>"

definition set_closed :: "PaneClosedPayload \<Rightarrow> RunRow \<Rightarrow> RunRow" where
  "set_closed payload row =
     row\<lparr>row_pane_tail := cp_tail payload,
         row_pane_dropped_lines := cp_dropped_lines payload,
         row_pane_state := Some (for_worker (row_worker_state row))\<rparr>"

text \<open>An event that finds no row of its Work changes nothing.\<close>

definition with_row :: "RunFold \<Rightarrow> OperatorEvent \<Rightarrow> string \<Rightarrow> (RunRow \<Rightarrow> RunRow) \<Rightarrow> RunFold" where
  "with_row f event work_id g =
     (case fold_row f event work_id of None \<Rightarrow> f | Some row \<Rightarrow> put_row f event (g row))"

definition mint_row :: "RunFold \<Rightarrow> OperatorEvent \<Rightarrow> string \<Rightarrow> string \<Rightarrow> RunFold" where
  "mint_row f event work_id run_id =
     (if bt_get (rows f) run_id = None then
        f\<lparr>order := order f @ [run_id],
          rows := bt_insert run_id
            (RunRow_new run_id (actor_id (ev_actor event)) work_id (ev_thread_id event)) (rows f)\<rparr>
      else f)"

definition fold_apply :: "worker_codec \<Rightarrow> RunFold \<Rightarrow> OperatorEvent \<Rightarrow> string \<Rightarrow> RunFold" where
  "fold_apply C f event work_id =
     (case ev_event_type event of
        WorkerLaunched \<Rightarrow>
          (case ev_run_id event of
             None \<Rightarrow> f
           | Some run_id \<Rightarrow>
               with_row (mint_row f event work_id run_id) event work_id (set_launched C event))
      | WorkerHeartbeat \<Rightarrow> with_row f event work_id (set_heartbeat C event)
      | WorkerExited \<Rightarrow> with_row f event work_id (set_exited C event)
      | WorkerStale \<Rightarrow> with_row f event work_id (set_stale C event)
      | PaneOpened \<Rightarrow>
          (case from_event PaneOpened (opened_of_value C) event of
             None \<Rightarrow> f
           | Some payload \<Rightarrow> with_row f event work_id (set_opened payload))
      | PaneClosed \<Rightarrow>
          (case from_event PaneClosed (closed_of_value C) event of
             None \<Rightarrow> f
           | Some payload \<Rightarrow> with_row f event work_id (set_closed payload))
      | _ \<Rightarrow> f)"

fun finish_rows :: "string list \<Rightarrow> (string, RunRow) btree \<Rightarrow> RunRow list" where
  "finish_rows [] m = []"
| "finish_rows (run_id # ids) m =
     (case bt_get m run_id of
        None \<Rightarrow> finish_rows ids m
      | Some row \<Rightarrow> row # finish_rows ids (bt_remove run_id m))"

definition finish :: "RunFold \<Rightarrow> RunRow list" where
  "finish f = finish_rows (order f) (rows f)"

definition work_step :: "worker_codec \<Rightarrow> string \<Rightarrow> RunFold \<Rightarrow> OperatorEvent \<Rightarrow> RunFold" where
  "work_step C work_id f event =
     (if ev_work_id event = Some work_id then fold_apply C f event work_id else f)"

definition fold_runs :: "worker_codec \<Rightarrow> OperatorEvent list \<Rightarrow> string \<Rightarrow> RunRow list" where
  "fold_runs C events work_id = finish (foldl (work_step C work_id) empty_fold events)"

definition all_step :: "worker_codec \<Rightarrow> RunFold \<Rightarrow> OperatorEvent \<Rightarrow> RunFold" where
  "all_step C f event =
     (case ev_work_id event of None \<Rightarrow> f | Some work_id \<Rightarrow> fold_apply C f event work_id)"

definition fold_all_runs :: "worker_codec \<Rightarrow> OperatorEvent list \<Rightarrow> RunRow list" where
  "fold_all_runs C events = finish (foldl (all_step C) empty_fold events)"

section \<open>Restart recovery\<close>

datatype ProcessSighting = NotRunning | Running "string option" | Uninspectable

definition observe_process ::
    "u32 option \<Rightarrow> string option \<Rightarrow> (u32 \<Rightarrow> ProcessSighting) \<Rightarrow> ObservedProcess" where
  "observe_process pid recorded_start_id sighting =
     (case pid of
        None \<Rightarrow> Unknown
      | Some pid \<Rightarrow>
          (case sighting pid of
             NotRunning \<Rightarrow> Gone
           | Uninspectable \<Rightarrow> Unknown
           | Running start_id \<Rightarrow>
               (case (recorded_start_id, start_id) of
                  (Some recorded, Some current) \<Rightarrow> if recorded = current then Alive else Gone
                | _ \<Rightarrow> Unknown)))"

definition unfinished :: "RunRow \<Rightarrow> bool" where
  "unfinished row \<longleftrightarrow> row_worker_state row \<in> {Starting, Live}"

definition unfinished_runs :: "worker_codec \<Rightarrow> OperatorEvent list \<Rightarrow> RunRow list" where
  "unfinished_runs C events = filter unfinished (fold_all_runs C events)"

definition stale_marker ::
    "worker_codec \<Rightarrow> RunRow \<Rightarrow> ObservedProcess \<Rightarrow> string \<Rightarrow> string \<Rightarrow> OperatorEvent" where
  "stale_marker C row process occurred_at new_event_id =
     worker_stale_event C
       \<lparr>rr_work_id = row_work_id row, rr_thread_id = row_thread_id row,
        rr_run_id = row_run_id row, rr_worker_id = row_worker_id row\<rparr>
       process (row_pid row) occurred_at new_event_id"

section \<open>What one event does to the fold\<close>

text \<open>
  The proofs see a step through two equations: what it does to the row of a run, and what it
  appends to the launch order.
\<close>

definition row_effect :: "worker_codec \<Rightarrow> OperatorEvent \<Rightarrow> RunRow \<Rightarrow> RunRow" where
  "row_effect C event row =
     (case ev_event_type event of
        WorkerLaunched \<Rightarrow> set_launched C event row
      | WorkerHeartbeat \<Rightarrow> set_heartbeat C event row
      | WorkerExited \<Rightarrow> set_exited C event row
      | WorkerStale \<Rightarrow> set_stale C event row
      | PaneOpened \<Rightarrow>
          (case from_event PaneOpened (opened_of_value C) event of
             None \<Rightarrow> row | Some payload \<Rightarrow> set_opened payload row)
      | PaneClosed \<Rightarrow>
          (case from_event PaneClosed (closed_of_value C) event of
             None \<Rightarrow> row | Some payload \<Rightarrow> set_closed payload row)
      | _ \<Rightarrow> row)"

definition launched_row :: "worker_codec \<Rightarrow> OperatorEvent \<Rightarrow> string \<Rightarrow> string \<Rightarrow> RunRow" where
  "launched_row C event run_id work_id =
     set_launched C event (RunRow_new run_id (actor_id (ev_actor event)) work_id (ev_thread_id event))"

lemmas set_row_defs = set_launched_def set_heartbeat_def set_exited_def set_stale_def
  set_opened_def set_closed_def

lemma set_row_ids [simp]:
  "row_run_id (set_launched C e r) = row_run_id r" "row_work_id (set_launched C e r) = row_work_id r"
  "row_run_id (set_heartbeat C e r) = row_run_id r" "row_work_id (set_heartbeat C e r) = row_work_id r"
  "row_run_id (set_exited C e r) = row_run_id r" "row_work_id (set_exited C e r) = row_work_id r"
  "row_run_id (set_stale C e r) = row_run_id r" "row_work_id (set_stale C e r) = row_work_id r"
  "row_run_id (set_opened po r) = row_run_id r" "row_work_id (set_opened po r) = row_work_id r"
  "row_run_id (set_closed pc r) = row_run_id r" "row_work_id (set_closed pc r) = row_work_id r"
  by (simp_all add: set_row_defs Let_def split: option.split)

lemma row_effect_ids [simp]:
  "row_run_id (row_effect C e r) = row_run_id r"
  "row_work_id (row_effect C e r) = row_work_id r"
  by (simp_all add: row_effect_def split: OperatorEventType.split option.split)

lemma launched_row_simps [simp]:
  "row_run_id (launched_row C e k w) = k"
  "row_work_id (launched_row C e k w) = w"
  "row_worker_state (launched_row C e k w) = Starting"
  "row_pane_state (launched_row C e k w) = None"
  by (simp_all add: launched_row_def RunRow_new_def set_launched_def Let_def split: option.split)

lemma with_row_get:
  "bt_get (rows (with_row f e w g)) k =
     (if ev_run_id e = Some k
      then map_option (\<lambda>r. if row_work_id r = w then g r else r) (bt_get (rows f) k)
      else bt_get (rows f) k)"
  by (auto simp: with_row_def fold_row_def put_row_def split: option.split)

lemma with_row_order [simp]: "order (with_row f e w g) = order f"
  by (simp add: with_row_def put_row_def split: option.split)

lemma mint_row_get:
  "bt_get (rows (mint_row f e w i)) k =
     (if k = i \<and> bt_get (rows f) k = None
      then Some (RunRow_new i (actor_id (ev_actor e)) w (ev_thread_id e)) else bt_get (rows f) k)"
  by (auto simp: mint_row_def)

lemma fold_apply_get:
  "bt_get (rows (fold_apply C f e w)) k =
     (if ev_run_id e = Some k then
        (case bt_get (rows f) k of
           Some r \<Rightarrow> Some (if row_work_id r = w then row_effect C e r else r)
         | None \<Rightarrow> if ev_event_type e = WorkerLaunched then Some (launched_row C e k w) else None)
      else bt_get (rows f) k)"
  by (cases "ev_event_type e"; cases "bt_get (rows f) k")
    (auto simp: fold_apply_def row_effect_def with_row_get mint_row_get launched_row_def
      RunRow_new_def split: option.split)

lemma fold_apply_order:
  "order (fold_apply C f e w) =
     order f @ (case ev_run_id e of
       Some k \<Rightarrow> if ev_event_type e = WorkerLaunched \<and> bt_get (rows f) k = None then [k] else []
     | None \<Rightarrow> [])"
  by (cases "ev_event_type e") (auto simp: fold_apply_def mint_row_def split: option.split)

lemma all_step_get:
  "bt_get (rows (all_step C f e)) k =
     (case ev_work_id e of
        Some w \<Rightarrow> bt_get (rows (fold_apply C f e w)) k
      | None \<Rightarrow> bt_get (rows f) k)"
  by (simp add: all_step_def split: option.split)

subsection \<open>The shape of the fold\<close>

definition fold_ok :: "RunFold \<Rightarrow> bool" where
  "fold_ok f \<longleftrightarrow> distinct (order f) \<and> (\<forall>k. k \<in> set (order f) \<longleftrightarrow> bt_get (rows f) k \<noteq> None) \<and>
     (\<forall>k r. bt_get (rows f) k = Some r \<longrightarrow> row_run_id r = k)"

lemma fold_ok_empty [simp]: "fold_ok empty_fold"
  by (simp add: fold_ok_def empty_fold_def)

lemma fold_ok_apply: "fold_ok f \<Longrightarrow> fold_ok (fold_apply C f e w)"
  unfolding fold_ok_def fold_apply_order fold_apply_get
  by (cases "ev_run_id e") (auto split: option.splits if_splits)

lemma finish_rows_eq:
  "distinct ids \<Longrightarrow> finish_rows ids m = List.map_filter (bt_get m) ids"
proof (induction ids arbitrary: m)
  case (Cons i ids)
  have "List.map_filter (bt_get (bt_remove i m)) ids = List.map_filter (bt_get m) ids"
    using Cons.prems by (auto simp: List.map_filter_def intro!: map_cong filter_cong)
  with Cons show ?case by (simp add: List.map_filter_simps split: option.split)
qed (simp add: List.map_filter_simps)

lemma finish_eq: "fold_ok f \<Longrightarrow> finish f = map (\<lambda>k. the (bt_get (rows f) k)) (order f)"
  unfolding finish_def by (subst finish_rows_eq) (auto simp: fold_ok_def List.map_filter_def)

lemma fold_ok_order: "fold_ok f \<Longrightarrow> k \<in> set (order f) \<longleftrightarrow> (\<exists>r. bt_get (rows f) k = Some r)"
  unfolding fold_ok_def by simp

lemma fold_ok_id: "fold_ok f \<Longrightarrow> bt_get (rows f) k = Some r \<Longrightarrow> row_run_id r = k"
  unfolding fold_ok_def by blast

lemma finish_in:
  assumes "fold_ok f"
  shows "r \<in> set (finish f) \<longleftrightarrow> bt_get (rows f) (row_run_id r) = Some r"
proof
  assume "r \<in> set (finish f)"
  then obtain k where k: "k \<in> set (order f)" and r: "the (bt_get (rows f) k) = r"
    unfolding finish_eq [OF assms] by auto
  from k obtain r' where r': "bt_get (rows f) k = Some r'" using fold_ok_order [OF assms] by blast
  with r have "r' = r" by simp
  with r' fold_ok_id [OF assms r'] show "bt_get (rows f) (row_run_id r) = Some r" by simp
next
  assume r: "bt_get (rows f) (row_run_id r) = Some r"
  then have "row_run_id r \<in> set (order f)" using fold_ok_order [OF assms] by blast
  then have "the (bt_get (rows f) (row_run_id r)) \<in> set (finish f)"
    unfolding finish_eq [OF assms] by simp
  with r show "r \<in> set (finish f)" by simp
qed

interpretation run_fold: event_fold "all_step C" fold_ok for C
  by unfold_locales (auto simp: all_step_def fold_ok_apply split: option.split)

interpretation work_run_fold: event_fold "work_step C w" fold_ok for C w
  by unfold_locales (auto simp: work_step_def fold_ok_apply)

definition run_of :: "worker_codec \<Rightarrow> OperatorEvent list \<Rightarrow> string \<Rightarrow> RunRow option" where
  "run_of C es k = bt_get (rows (foldl (all_step C) empty_fold es)) k"

lemma fold_all_ok: "fold_ok (foldl (all_step C) empty_fold es)"
  by (rule run_fold.fold_inv) simp

lemma fold_all_runs_in:
  "r \<in> set (fold_all_runs C es) \<longleftrightarrow> run_of C es (row_run_id r) = Some r"
  using finish_in [OF fold_all_ok] by (simp add: fold_all_runs_def run_of_def)

lemma run_of_id: "run_of C es k = Some r \<Longrightarrow> row_run_id r = k"
  using fold_all_ok [of C es] by (simp add: run_of_def fold_ok_def)

lemma run_of_Nil [simp]: "run_of C [] k = None"
  by (simp add: run_of_def empty_fold_def)

lemma run_of_snoc:
  "run_of C (es @ [e]) k =
     (case ev_work_id e of
        None \<Rightarrow> run_of C es k
      | Some w \<Rightarrow>
          (if ev_run_id e = Some k then
             (case run_of C es k of
                Some r \<Rightarrow> Some (if row_work_id r = w then row_effect C e r else r)
              | None \<Rightarrow> if ev_event_type e = WorkerLaunched then Some (launched_row C e k w) else None)
           else run_of C es k))"
  by (simp add: run_of_def all_step_get fold_apply_get split: option.split)

subsection \<open>Lifecycle of a run\<close>

text \<open>The moves a recorded run can make. Nothing leads back to \<open>Starting\<close> or \<open>Live\<close>.\<close>

inductive worker_step :: "WorkerState \<Rightarrow> WorkerState \<Rightarrow> bool" where
  heartbeat: "worker_step Starting Live"
| lost: "s = Starting \<or> s = Live \<Longrightarrow> worker_step s WorkerState.Stale"
| exited: "worker_step s Exited"
| failed: "worker_step s WorkerState.Failed"

inductive_simps worker_step_iff: "worker_step s t"

lemma row_effect_state:
  "worker_step\<^sup>=\<^sup>= (row_worker_state r) (row_worker_state (row_effect C e r))"
  by (auto simp: row_effect_def set_row_defs Let_def worker_step_iff
      split: OperatorEventType.split option.split)

lemma worker_steps_rank:
  assumes "worker_step\<^sup>*\<^sup>* s t"
  shows "(s \<in> {Exited, WorkerState.Failed} \<longrightarrow> t \<in> {Exited, WorkerState.Failed}) \<and>
    (s = WorkerState.Stale \<longrightarrow> t \<in> {WorkerState.Stale, Exited, WorkerState.Failed}) \<and>
    (s \<noteq> Starting \<longrightarrow> t \<noteq> Starting) \<and> (s \<noteq> Revoked \<longrightarrow> t \<noteq> Revoked)"
  using assms by (induction rule: rtranclp_induct) (auto simp: worker_step_iff)

lemma run_of_extends:
  assumes "run_of C es k = Some r"
  shows "\<exists>r'. run_of C (es @ fs) k = Some r' \<and> row_work_id r' = row_work_id r \<and>
    worker_step\<^sup>*\<^sup>* (row_worker_state r) (row_worker_state r')"
proof (induction fs rule: rev_induct)
  case (snoc e fs)
  then obtain r' where r': "run_of C (es @ fs) k = Some r'" "row_work_id r' = row_work_id r"
    "worker_step\<^sup>*\<^sup>* (row_worker_state r) (row_worker_state r')" by blast
  have "run_of C ((es @ fs) @ [e]) k = Some r' \<or> run_of C ((es @ fs) @ [e]) k = Some (row_effect C e r')"
    using r'(1) by (auto simp only: run_of_snoc split: option.split if_split)
  moreover have "worker_step\<^sup>*\<^sup>* (row_worker_state r) (row_worker_state (row_effect C e r'))"
    using r'(3) row_effect_state [of r' C e] by (auto intro: rtranclp.rtrancl_into_rtrancl)
  ultimately show ?case using r' by auto
qed (use assms in auto)

lemma row_effect_live:
  assumes "row_worker_state (row_effect C e r) = Live \<or> row_pane_state (row_effect C e r) = Some Working"
    and "ev_event_type e \<noteq> WorkerHeartbeat"
  shows "row_worker_state r = Live \<or> row_pane_state r = Some Working"
proof -
  have fw: "for_worker s = Working \<longleftrightarrow> s = Live" for s by (cases s) auto
  show ?thesis using assms
    by (cases "ev_event_type e")
      (auto simp: row_effect_def set_row_defs Let_def fw split: option.splits if_splits)
qed

definition recorded :: "OperatorEvent list \<Rightarrow> OperatorEventType \<Rightarrow> RunRow \<Rightarrow> bool" where
  "recorded es t r \<longleftrightarrow>
     (\<exists>e\<in>set es. ev_event_type e = t \<and> ev_run_id e = Some (row_run_id r) \<and>
        ev_work_id e = Some (row_work_id r))"

lemma recorded_snoc: "recorded es t r \<Longrightarrow> recorded (es @ [e]) t r"
  by (auto simp: recorded_def)

lemma recorded_effect [simp]: "recorded es t (row_effect C e r) = recorded es t r"
  by (simp add: recorded_def)

lemma recorded_new:
  "ev_event_type e = t \<Longrightarrow> ev_run_id e = Some (row_run_id r) \<Longrightarrow> ev_work_id e = Some (row_work_id r) \<Longrightarrow>
   recorded (es @ [e]) t r"
  by (simp add: recorded_def)

lemma run_of_snoc_cases:
  assumes "run_of C (es @ [e]) k = Some r"
  obtains (minted) w where "ev_work_id e = Some w" "ev_run_id e = Some k"
      "ev_event_type e = WorkerLaunched" "r = launched_row C e k w"
    | (kept) "run_of C es k = Some r"
    | (changed) r0 where "run_of C es k = Some r0" "ev_work_id e = Some (row_work_id r0)"
      "ev_run_id e = Some k" "r = row_effect C e r0"
  using assms by (simp only: run_of_snoc split: option.splits if_splits) blast+

lemma run_of_not_revoked: "run_of C es k = Some r \<Longrightarrow> row_worker_state r \<noteq> Revoked"
proof (induction es arbitrary: r rule: rev_induct)
  case (snoc e es)
  from snoc.prems show ?case
  proof (cases rule: run_of_snoc_cases)
    case (changed r0)
    with row_effect_state [of r0 C e] snoc.IH [OF changed(1)] show ?thesis
      by (auto simp: worker_step_iff)
  qed (use snoc.IH in auto)
qed simp

lemma run_of_evidence:
  "run_of C es k = Some r \<Longrightarrow> recorded es WorkerLaunched r \<and>
     (row_worker_state r = Live \<or> row_pane_state r = Some Working \<longrightarrow> recorded es WorkerHeartbeat r)"
proof (induction es arbitrary: r rule: rev_induct)
  case (snoc e es)
  from snoc.prems show ?case
  proof (cases rule: run_of_snoc_cases)
    case (minted w)
    then show ?thesis by (simp add: recorded_new)
  next
    case kept
    from snoc.IH [OF this] show ?thesis by (simp add: recorded_snoc)
  next
    case (changed r0)
    note IH = snoc.IH [OF changed(1)] and ids = run_of_id [OF changed(1)]
    have "recorded (es @ [e]) WorkerHeartbeat r"
      if live: "row_worker_state r = Live \<or> row_pane_state r = Some Working"
    proof (cases "ev_event_type e = WorkerHeartbeat")
      case True
      then show ?thesis using changed ids by (simp add: recorded_new)
    next
      case False
      from row_effect_live [OF _ False, of C r0] live changed(4)
      have "row_worker_state r0 = Live \<or> row_pane_state r0 = Some Working" by simp
      with IH changed(4) show ?thesis by (simp add: recorded_snoc)
    qed
    with IH changed(4) show ?thesis by (simp add: recorded_snoc)
  qed
qed simp

subsection \<open>One Work or all of them\<close>

text \<open>The row a fold for one Work has, seen from the fold of every Work.\<close>

definition of_work :: "string \<Rightarrow> RunRow option \<Rightarrow> RunRow option" where
  "of_work w r = (case r of Some x \<Rightarrow> if row_work_id x = w then Some x else None | None \<Rightarrow> None)"

definition launches_agree :: "OperatorEvent list \<Rightarrow> bool" where
  "launches_agree es \<longleftrightarrow>
     (\<forall>e\<in>set es. \<forall>e'\<in>set es. ev_event_type e = WorkerLaunched \<longrightarrow> ev_event_type e' = WorkerLaunched \<longrightarrow>
        ev_run_id e = ev_run_id e' \<longrightarrow> ev_run_id e \<noteq> None \<longrightarrow>
        ev_work_id e \<noteq> None \<longrightarrow> ev_work_id e' \<noteq> None \<longrightarrow> ev_work_id e = ev_work_id e')"

lemma fold_runs_simulation:
  assumes "launches_agree es"
  shows "(\<forall>k. bt_get (rows (foldl (work_step C w) empty_fold es)) k = of_work w (run_of C es k)) \<and>
    order (foldl (work_step C w) empty_fold es) =
      filter (\<lambda>k. of_work w (run_of C es k) \<noteq> None) (order (foldl (all_step C) empty_fold es))"
  using assms
proof (induction es rule: rev_induct)
  case (snoc e es)
  let ?f = "foldl (work_step C w) empty_fold es" and ?g = "foldl (all_step C) empty_fold es"
  have agree: "launches_agree es" using snoc.prems by (auto simp: launches_agree_def)
  note IH = snoc.IH [OF agree, THEN conjunct1, rule_format] snoc.IH [OF agree, THEN conjunct2]
  have launch: "ev_work_id e = Some (row_work_id r)"
    if "ev_event_type e = WorkerLaunched" "ev_run_id e = Some k" "run_of C es k = Some r"
      "ev_work_id e \<noteq> None" for k r
    using run_of_evidence [OF that(3), THEN conjunct1] that run_of_id [OF that(3)] snoc.prems
    unfolding recorded_def launches_agree_def by fastforce
  have keep: "of_work w (run_of C (es @ [e]) k) \<noteq> None \<longleftrightarrow> of_work w (run_of C es k) \<noteq> None"
    if "run_of C es k \<noteq> None" for k
    using that by (auto simp: run_of_snoc of_work_def split: option.splits)
  have rows: "bt_get (rows (work_step C w ?f e)) k = of_work w (run_of C (es @ [e]) k)" for k
    using launch [of k]
    by (auto simp: work_step_def [of C w ?f e] fold_apply_get IH run_of_snoc of_work_def split: option.splits)
  have new: "order (all_step C ?g e) = order ?g @ (case (ev_work_id e, ev_run_id e) of
      (Some w', Some k) \<Rightarrow> if ev_event_type e = WorkerLaunched \<and> run_of C es k = None then [k] else []
    | _ \<Rightarrow> [])"
    by (simp add: all_step_def fold_apply_order run_of_def split: option.split)
  have old: "filter (\<lambda>k. of_work w (run_of C (es @ [e]) k) \<noteq> None) (order ?g) =
      filter (\<lambda>k. of_work w (run_of C es k) \<noteq> None) (order ?g)"
    using fold_ok_order [OF fold_all_ok, of _ C es] keep
    by (intro filter_cong) (auto simp: run_of_def)
  have ord: "order (work_step C w ?f e) =
      filter (\<lambda>k. of_work w (run_of C (es @ [e]) k) \<noteq> None) (order (all_step C ?g e))"
    unfolding new filter_append old IH(2) [symmetric] work_step_def [of C w ?f e]
    using launch
    by (auto simp: fold_apply_order IH(1) run_of_snoc of_work_def split: option.splits)
  from rows ord show ?case by simp
qed (simp add: empty_fold_def of_work_def)

subsection \<open>Markers\<close>

lemma stale_marker_simps [event_simps]:
  "ev_event_type (stale_marker C r p at i) = WorkerStale"
  "ev_run_id (stale_marker C r p at i) = Some (row_run_id r)"
  "ev_work_id (stale_marker C r p at i) = Some (row_work_id r)"
  "ev_occurred_at (stale_marker C r p at i) = at"
  by (simp_all add: stale_marker_def worker_stale_event_def worker_scoped_def)

lemma run_of_markers:
  assumes "distinct (map row_run_id us)" and "\<forall>r\<in>set us. run_of C es (row_run_id r) = Some r"
  shows "run_of C (es @ map (\<lambda>r. stale_marker C r (proc r) at (eid r)) us) k =
    map_option (\<lambda>r. if r \<in> set us then set_stale C (stale_marker C r (proc r) at (eid r)) r else r)
      (run_of C es k)"
  using assms
proof (induction us arbitrary: k rule: rev_induct)
  case Nil
  then show ?case by (cases "run_of C es k") auto
next
  case (snoc u us)
  let ?m = "\<lambda>r. stale_marker C r (proc r) at (eid r)"
  have u: "run_of C es (row_run_id u) = Some u" "u \<notin> set us" using snoc.prems by auto
  have IH: "run_of C (es @ map ?m us) k =
      map_option (\<lambda>r. if r \<in> set us then set_stale C (?m r) r else r) (run_of C es k)" for k
    using snoc by simp
  have "run_of C ((es @ map ?m us) @ [?m u]) k =
      map_option (\<lambda>r. if r \<in> set (us @ [u]) then set_stale C (?m r) r else r) (run_of C es k)"
  proof (cases "k = row_run_id u")
    case True
    with u show ?thesis unfolding run_of_snoc IH
      by (simp add: event_simps row_effect_def)
  next
    case False
    then have "run_of C es k \<noteq> Some u" using run_of_id by blast
    with False show ?thesis unfolding run_of_snoc IH
      by (cases "run_of C es k") (auto simp: event_simps)
  qed
  then show ?case by simp
qed

lemma order_markers:
  "order (foldl (all_step C) f (map (\<lambda>r. stale_marker C r (proc r) at (eid r)) us)) = order f"
  by (induction us arbitrary: f) (simp_all add: all_step_def fold_apply_order event_simps)

lemma fold_all_runs_eq:
  "fold_all_runs C es =
     map (\<lambda>k. the (run_of C es k)) (order (foldl (all_step C) empty_fold es))"
  unfolding fold_all_runs_def run_of_def by (rule finish_eq [OF fold_all_ok])

lemma fold_all_runs_markers:
  fixes C es at and proc :: "RunRow \<Rightarrow> ObservedProcess" and eid :: "RunRow \<Rightarrow> string"
  defines "m \<equiv> (\<lambda>r. stale_marker C r (proc r) at (eid r))"
  shows "fold_all_runs C (es @ map m (unfinished_runs C es)) =
    map (\<lambda>r. if unfinished r then set_stale C (m r) r else r) (fold_all_runs C es)"
proof -
  let ?U = "unfinished_runs C es"
  have "map row_run_id (fold_all_runs C es) = order (foldl (all_step C) empty_fold es)"
    unfolding fold_all_runs_eq map_map o_def
    using fold_ok_order [OF fold_all_ok, of _ C es] run_of_id [of C es]
    by (intro map_idI) (auto simp: run_of_def)
  then have "distinct (map row_run_id (fold_all_runs C es))"
    using fold_all_ok [of C es] by (simp add: fold_ok_def)
  then have dist: "distinct (map row_run_id ?U)"
    by (simp add: unfinished_runs_def distinct_map_filter)
  have run: "\<forall>r\<in>set ?U. run_of C es (row_run_id r) = Some r"
    by (simp add: unfinished_runs_def fold_all_runs_in)
  have "the (run_of C (es @ map m ?U) k) =
      (if unfinished (the (run_of C es k)) then set_stale C (m (the (run_of C es k))) (the (run_of C es k))
       else the (run_of C es k))"
    if "k \<in> set (order (foldl (all_step C) empty_fold es))" for k
  proof -
    from that obtain r where r: "run_of C es k = Some r"
      using fold_ok_order [OF fold_all_ok, of _ C es] by (auto simp: run_of_def)
    with run_of_id [OF r] have "r \<in> set (fold_all_runs C es)" by (simp add: fold_all_runs_in)
    with r show ?thesis
      unfolding m_def run_of_markers [OF dist run] by (simp add: unfinished_runs_def)
  qed
  then show ?thesis
    unfolding fold_all_runs_eq foldl_append m_def order_markers by simp
qed

lemma set_stale_not_unfinished: "\<not> unfinished (set_stale C e r)"
  by (simp add: unfinished_def set_stale_def Let_def)

section \<open>Codec\<close>

text \<open>What the fold relies on of the derived serialisers: a value written by one is read back.\<close>

locale worker_codec_laws =
  fixes C :: worker_codec
  assumes launched_rt: "launched_of_value C (launched_to_value C p1) = Some p1"
    and heartbeat_rt: "heartbeat_of_value C (heartbeat_to_value C p2) = Some p2"
    and exited_rt: "exited_of_value C (exited_to_value C p3) = Some p3"
    and stale_rt: "stale_of_value C (stale_to_value C p4) = Some p4"
    and opened_rt: "opened_of_value C (opened_to_value C p5) = Some p5"
    and closed_rt: "closed_of_value C (closed_to_value C p6) = Some p6"
begin

lemma set_stale_marker:
  assumes "unfinished r"
  shows "set_stale C (stale_marker C r p at i) r =
    r\<lparr>row_worker_state := WorkerState.Stale,
      row_supervision := Some \<lparr>sl_reason = OWNER_LOST, sl_process = p, sl_pid = row_pid r, sl_recorded_at = at\<rparr>,
      row_pane_state := (if row_pane_id r \<noteq> None then Some PaneState.Stale else row_pane_state r)\<rparr>"
  using assms
  by (simp add: set_stale_def unfinished_def stale_marker_def worker_stale_event_def worker_scoped_def
      from_event_def stale_rt)

lemma set_launched_event:
  "set_launched C (worker_launched_event C w i at e) r =
     r\<lparr>row_started_at := Some at, row_worker_id := wi_worker_id w, row_provider := Some (wi_provider w),
       row_provider_session_ref := wi_provider_session_ref w,
       row_executable_path := Some (wi_executable_path w),
       row_executable_sha256 := Some (wi_executable_sha256 w), row_cwd := Some (wi_cwd w),
       row_repo_root := Some (wi_repo_root w), row_branch := Some (wi_branch w),
       row_base_commit := Some (wi_base_commit w), row_lease_id := Some (wi_lease_id w)\<rparr>"
  by (simp add: set_launched_def worker_launched_event_def worker_scoped_def from_event_def launched_rt)

lemma set_heartbeat_event:
  "set_heartbeat C (worker_heartbeat_event C w i pid st at e) r =
     r\<lparr>row_worker_state := (if row_worker_state r = Starting then Live else row_worker_state r),
       row_pid := (if row_pid r = None then Some pid else row_pid r),
       row_process_start_id := (if row_pid r = None then st else row_process_start_id r)\<rparr>"
  by (simp add: set_heartbeat_def worker_heartbeat_event_def worker_scoped_def from_event_def
      heartbeat_rt Let_def)

lemma set_exited_event:
  "set_exited C (worker_exited_event C w i code fail at e) r =
     (let s = (if fail \<noteq> None then WorkerState.Failed else Exited) in
      r\<lparr>row_ended_at := Some at, row_exit_code := code, row_failure_code := fail, row_worker_state := s,
        row_pane_state := (if row_pane_id r \<noteq> None then Some (for_worker s) else row_pane_state r)\<rparr>)"
  by (simp add: set_exited_def worker_exited_event_def worker_scoped_def from_event_def
      exited_rt Let_def)

end

text \<open>
  The codec the derive macros describe: one entry per field, an optional field null when absent
  unless the field is skipped, states by their snake-case name.
\<close>

definition write_i32 :: "i32 \<Rightarrow> json" where
  "write_i32 n = JNumber (if sint n < 0 then NegInt (scast n) else PosInt (scast n))"

definition read_i32 :: "json \<Rightarrow> i32 option" where
  "read_i32 v = (case v of
     JNumber (PosInt n) \<Rightarrow> if sint (scast n :: i32) = uint n then Some (scast n) else None
   | JNumber (NegInt n) \<Rightarrow> if sint (scast n :: i32) = sint n then Some (scast n) else None
   | _ \<Rightarrow> None)"

definition write_opt :: "('a \<Rightarrow> json) \<Rightarrow> 'a option \<Rightarrow> json" where
  "write_opt f x = (case x of Some y \<Rightarrow> f y | None \<Rightarrow> JNull)"

definition read_process :: "json \<Rightarrow> ObservedProcess option" where
  "read_process v = (case as_str v of
     Some s \<Rightarrow>
       if s = ''alive'' then Some Alive else if s = ''gone'' then Some Gone
       else if s = ''unknown'' then Some Unknown else None
   | None \<Rightarrow> None)"

definition read_strings :: "json \<Rightarrow> string list option" where
  "read_strings v = (case v of
     JArray vs \<Rightarrow> if list_all (\<lambda>x. as_str x \<noteq> None) vs then Some (map (\<lambda>x. the (as_str x)) vs) else None
   | _ \<Rightarrow> None)"

definition object_worker_codec :: worker_codec where
  "object_worker_codec =
     \<lparr>launched_to_value = (\<lambda>p. JObject
        [(''worker_id'', JString (lp_worker_id p)), (''provider'', JString (lp_provider p)),
         (''provider_session_ref'', opt_str (lp_provider_session_ref p)),
         (''executable_path'', JString (lp_executable_path p)),
         (''executable_sha256'', JString (lp_executable_sha256 p)),
         (''cwd'', JString (lp_cwd p)), (''repo_root'', JString (lp_repo_root p)),
         (''branch'', JString (lp_branch p)), (''base_commit'', JString (lp_base_commit p)),
         (''lease_id'', JString (lp_lease_id p)),
         (''installation_id'', JString (lp_installation_id p))]),
      launched_of_value = (\<lambda>v.
        Option.bind (string_field v ''worker_id'') (\<lambda>w.
        Option.bind (string_field v ''provider'') (\<lambda>pr.
        Option.bind (optional_field as_str v ''provider_session_ref'') (\<lambda>ps.
        Option.bind (string_field v ''executable_path'') (\<lambda>ep.
        Option.bind (string_field v ''executable_sha256'') (\<lambda>es.
        Option.bind (string_field v ''cwd'') (\<lambda>cwd.
        Option.bind (string_field v ''repo_root'') (\<lambda>root.
        Option.bind (string_field v ''branch'') (\<lambda>br.
        Option.bind (string_field v ''base_commit'') (\<lambda>bc.
        Option.bind (string_field v ''lease_id'') (\<lambda>l.
        Option.bind (string_field v ''installation_id'') (\<lambda>i.
          Some \<lparr>lp_worker_id = w, lp_provider = pr, lp_provider_session_ref = ps,
            lp_executable_path = ep, lp_executable_sha256 = es, lp_cwd = cwd, lp_repo_root = root,
            lp_branch = br, lp_base_commit = bc, lp_lease_id = l, lp_installation_id = i\<rparr>)))))))))))),
      heartbeat_to_value = (\<lambda>p. json_object
        [(''worker_id'', Some (JString (hp_worker_id p))), (''pid'', Some (write_u32 (hp_pid p))),
         (''process_start_id'', map_option JString (hp_process_start_id p))]),
      heartbeat_of_value = (\<lambda>v.
        Option.bind (string_field v ''worker_id'') (\<lambda>w.
        Option.bind (Option.bind (json_get v ''pid'') read_u32) (\<lambda>pid.
        Option.bind (optional_field as_str v ''process_start_id'') (\<lambda>st.
          Some \<lparr>hp_worker_id = w, hp_pid = pid, hp_process_start_id = st\<rparr>)))),
      exited_to_value = (\<lambda>p. JObject
        [(''worker_id'', JString (xp_worker_id p)), (''exit_code'', write_opt write_i32 (xp_exit_code p)),
         (''failure_code'', opt_str (xp_failure_code p))]),
      exited_of_value = (\<lambda>v.
        Option.bind (string_field v ''worker_id'') (\<lambda>w.
        Option.bind (optional_field read_i32 v ''exit_code'') (\<lambda>c.
        Option.bind (optional_field as_str v ''failure_code'') (\<lambda>f.
          Some \<lparr>xp_worker_id = w, xp_exit_code = c, xp_failure_code = f\<rparr>)))),
      stale_to_value = (\<lambda>p. json_object
        [(''worker_id'', Some (JString (sp_worker_id p))), (''reason'', Some (JString (sp_reason p))),
         (''process'', Some (JString (ObservedProcess_as_str (sp_process p)))),
         (''pid'', map_option write_u32 (sp_pid p))]),
      stale_of_value = (\<lambda>v.
        Option.bind (string_field v ''worker_id'') (\<lambda>w.
        Option.bind (string_field v ''reason'') (\<lambda>r.
        Option.bind (Option.bind (json_get v ''process'') read_process) (\<lambda>pr.
        Option.bind (optional_field read_u32 v ''pid'') (\<lambda>pid.
          Some \<lparr>sp_worker_id = w, sp_reason = r, sp_process = pr, sp_pid = pid\<rparr>))))),
      opened_to_value = (\<lambda>p. JObject
        [(''pane_id'', JString (op_pane_id p)), (''worker_id'', JString (op_worker_id p)),
         (''cwd'', JString (op_cwd p)), (''repo_root'', JString (op_repo_root p)),
         (''branch'', JString (op_branch p))]),
      opened_of_value = (\<lambda>v.
        Option.bind (string_field v ''pane_id'') (\<lambda>i.
        Option.bind (string_field v ''worker_id'') (\<lambda>w.
        Option.bind (string_field v ''cwd'') (\<lambda>cwd.
        Option.bind (string_field v ''repo_root'') (\<lambda>root.
        Option.bind (string_field v ''branch'') (\<lambda>br.
          Some \<lparr>op_pane_id = i, op_worker_id = w, op_cwd = cwd, op_repo_root = root, op_branch = br\<rparr>)))))),
      closed_to_value = (\<lambda>p. JObject
        [(''pane_id'', JString (cp_pane_id p)), (''worker_id'', JString (cp_worker_id p)),
         (''tail'', JArray (map JString (cp_tail p))),
         (''dropped_lines'', JNumber (PosInt (cp_dropped_lines p)))]),
      closed_of_value = (\<lambda>v.
        Option.bind (string_field v ''pane_id'') (\<lambda>i.
        Option.bind (string_field v ''worker_id'') (\<lambda>w.
        Option.bind (Option.bind (json_get v ''tail'') read_strings) (\<lambda>t.
        Option.bind (Option.bind (json_get v ''dropped_lines'') as_u64) (\<lambda>d.
          Some \<lparr>cp_pane_id = i, cp_worker_id = w, cp_tail = t, cp_dropped_lines = d\<rparr>)))))\<rparr>"

lemma read_write_i32 [simp]: "read_i32 (write_i32 n) = Some n"
proof -
  have rt: "(scast (scast n :: u64) :: i32) = n"
    by (rule bit_word_eqI) (simp add: bit_simps)
  have lim: "- (2 ^ 31) \<le> sint n" "sint n < 2 ^ 31"
    using sint_ge [of n] sint_lt [of n] by simp_all
  then have s: "sint (scast n :: u64) = sint n"
    by (simp add: signed_scast_eq signed_take_bit_int_eq_self)
  have "uint (scast n :: u64) = sint n" if "0 \<le> sint n"
    unfolding scast_eq uint_word_of_int using lim that by (intro mod_pos_pos_trivial) simp_all
  then show ?thesis by (simp add: read_i32_def write_i32_def rt s)
qed

lemma write_not_null [simp]: "write_i32 n \<noteq> JNull" "write_u32 m \<noteq> JNull"
  by (simp_all add: write_i32_def write_u32_def)

lemma optional_field_None [simp]: "json_get v k = None \<Longrightarrow> optional_field g v k = Some None"
  by (simp add: optional_field_def)

lemma optional_field_Some [simp]:
  "json_get v k = Some y \<Longrightarrow> y \<noteq> JNull \<Longrightarrow> optional_field g v k = map_option Some (g y)"
  by (cases y) (simp_all add: optional_field_def)

lemma optional_field_write_opt [simp]:
  assumes "json_get v k = Some (write_opt f x)"
    and "\<And>y. g (f y) = Some y" and "\<And>y. f y \<noteq> JNull"
  shows "optional_field g v k = Some x"
proof (cases x)
  case None
  with assms(1) show ?thesis by (simp add: optional_field_def write_opt_def)
next
  case (Some y)
  with assms show ?thesis by (simp add: write_opt_def)
qed

lemma opt_str_write_opt: "opt_str = write_opt JString"
  by (rule ext) (simp add: opt_str_def write_opt_def)

interpretation object_worker: worker_codec_laws object_worker_codec
proof
  fix p1 show "launched_of_value object_worker_codec (launched_to_value object_worker_codec p1) = Some p1"
    by (simp add: object_worker_codec_def string_field_def json_get_def opt_str_write_opt)
next
  fix p2 show "heartbeat_of_value object_worker_codec (heartbeat_to_value object_worker_codec p2) = Some p2"
    by (cases "hp_process_start_id p2")
      (simp_all add: object_worker_codec_def string_field_def json_get_def json_object_def
        List.map_filter_simps)
next
  fix p3 show "exited_of_value object_worker_codec (exited_to_value object_worker_codec p3) = Some p3"
    by (simp add: object_worker_codec_def string_field_def json_get_def opt_str_write_opt)
next
  fix p4 show "stale_of_value object_worker_codec (stale_to_value object_worker_codec p4) = Some p4"
    by (cases "sp_pid p4"; cases "sp_process p4")
      (simp_all add: object_worker_codec_def string_field_def json_get_def json_object_def
        List.map_filter_simps read_process_def)
next
  fix p5 show "opened_of_value object_worker_codec (opened_to_value object_worker_codec p5) = Some p5"
    by (simp add: object_worker_codec_def string_field_def json_get_def)
next
  fix p6 show "closed_of_value object_worker_codec (closed_to_value object_worker_codec p6) = Some p6"
    by (simp add: object_worker_codec_def string_field_def json_get_def read_strings_def
        list_all_iff comp_def)
qed

section \<open>Properties\<close>

definition demo_identity :: WorkerIdentity where
  "demo_identity =
     \<lparr>wi_schema_version = 1, wi_worker_id = ''worker-1'', wi_work_id = ''work-1'',
      wi_thread_id = ''thread-1'', wi_provider = ''claude'', wi_provider_session_ref = None,
      wi_executable_path = ''/bin/claude'', wi_executable_sha256 = ''aa'', wi_cwd = ''/tmp/w'',
      wi_repo_root = ''/tmp/r'', wi_branch = ''b'', wi_base_commit = ''cc'',
      wi_lease_id = ''lease-1'', wi_installation_id = ''i'', wi_started_at = ''t0''\<rparr>"

definition demo_launch :: OperatorEvent where
  "demo_launch = worker_launched_event object_worker_codec demo_identity ''run-1'' ''t0'' ''e0''"

definition demo_heartbeat :: OperatorEvent where
  "demo_heartbeat =
     worker_heartbeat_event object_worker_codec demo_identity ''run-1'' 42 (Some ''s'') ''t1'' ''e1''"

lemma worker_event_simps [event_simps]:
  "ev_event_type (worker_launched_event C w i at e) = WorkerLaunched"
  "ev_run_id (worker_launched_event C w i at e) = Some i"
  "ev_work_id (worker_launched_event C w i at e) = Some (wi_work_id w)"
  "ev_thread_id (worker_launched_event C w i at e) = wi_thread_id w"
  "actor_id (ev_actor (worker_launched_event C w i at e)) = wi_worker_id w"
  "ev_event_type (worker_heartbeat_event C w i pid st at e) = WorkerHeartbeat"
  "ev_run_id (worker_heartbeat_event C w i pid st at e) = Some i"
  "ev_work_id (worker_heartbeat_event C w i pid st at e) = Some (wi_work_id w)"
  "ev_event_type (worker_exited_event C w i code fail at e) = WorkerExited"
  "ev_run_id (worker_exited_event C w i code fail at e) = Some i"
  "ev_work_id (worker_exited_event C w i code fail at e) = Some (wi_work_id w)"
  by (simp_all add: worker_launched_event_def worker_heartbeat_event_def worker_exited_event_def
      worker_scoped_def RunRef_of_def)

lemma demo_run:
  "\<exists>r. run_of object_worker_codec [demo_launch, demo_heartbeat] ''run-1'' = Some r \<and>
     row_worker_state r = Live \<and> row_run_id r = ''run-1'' \<and> row_work_id r = ''work-1''"
proof -
  let ?C = object_worker_codec
  have 1: "run_of ?C ([] @ [demo_launch]) ''run-1'' =
      Some (launched_row ?C demo_launch ''run-1'' ''work-1'')"
    unfolding run_of_snoc by (simp add: demo_launch_def event_simps demo_identity_def)
  have "run_of ?C ([demo_launch] @ [demo_heartbeat]) ''run-1'' =
      Some (set_heartbeat ?C demo_heartbeat (launched_row ?C demo_launch ''run-1'' ''work-1''))"
    unfolding run_of_snoc using 1
    by (simp add: demo_heartbeat_def event_simps demo_identity_def row_effect_def)
  then show ?thesis by (simp add: demo_heartbeat_def object_worker.set_heartbeat_event)
qed

text \<open>C35. Appending events never loses a run: it stays listed under its own Work, its state only
  moves forward (from starting over live and stale to an ending), an ended run never runs again,
  a stale one is never reported live again, and no recorded run is ever reported revoked.\<close>

theorem run_lifecycle:
  assumes "r \<in> set (fold_all_runs C es)"
  shows "\<exists>r'\<in>set (fold_all_runs C (es @ fs)).
    row_run_id r' = row_run_id r \<and> row_work_id r' = row_work_id r \<and>
    worker_step\<^sup>*\<^sup>* (row_worker_state r) (row_worker_state r') \<and>
    (row_worker_state r \<in> {Exited, WorkerState.Failed} \<longrightarrow>
      row_worker_state r' \<in> {Exited, WorkerState.Failed}) \<and>
    (row_worker_state r = WorkerState.Stale \<longrightarrow> \<not> unfinished r') \<and>
    row_worker_state r' \<noteq> Revoked"
proof -
  let ?k = "row_run_id r"
  from assms have r: "run_of C es ?k = Some r" by (simp add: fold_all_runs_in)
  have "row_worker_state r \<noteq> Revoked" using r by (rule run_of_not_revoked)
  moreover from run_of_extends [OF r, of fs] obtain r' where r': "run_of C (es @ fs) ?k = Some r'"
    "row_work_id r' = row_work_id r" "worker_step\<^sup>*\<^sup>* (row_worker_state r) (row_worker_state r')" by blast
  moreover from r' have "r' \<in> set (fold_all_runs C (es @ fs))" "row_run_id r' = ?k"
    using run_of_id [OF r'(1)] by (simp_all add: fold_all_runs_in)
  ultimately show ?thesis
    using worker_steps_rank [OF r'(3)] by (intro bexI [of _ r']) (auto simp: unfinished_def)
qed

theorem run_lifecycle_witness:
  "\<exists>r\<in>set (fold_all_runs object_worker_codec [demo_launch, demo_heartbeat]).
     \<exists>r'\<in>set (fold_all_runs object_worker_codec ([demo_launch, demo_heartbeat] @ [demo_launch])).
       row_worker_state r = Live \<and> row_run_id r' = row_run_id r \<and> row_worker_state r' \<noteq> Revoked"
proof -
  obtain r where r: "run_of object_worker_codec [demo_launch, demo_heartbeat] ''run-1'' = Some r"
    "row_worker_state r = Live" "row_run_id r = ''run-1''" using demo_run by blast
  then have "r \<in> set (fold_all_runs object_worker_codec [demo_launch, demo_heartbeat])"
    by (simp add: fold_all_runs_in)
  from run_lifecycle [OF this, of "[demo_launch]"] this r(2) show ?thesis by blast
qed

text \<open>No run is minted by a pane, a heartbeat or an exit: every listed run has a launch event of
  its own Work, and a run reported live, or a pane reported working, has a heartbeat event of that
  run in that Work.\<close>

theorem live_needs_heartbeat:
  assumes "r \<in> set (fold_all_runs C es)"
  shows "recorded es WorkerLaunched r \<and>
    (row_worker_state r = Live \<or> row_pane_state r = Some Working \<longrightarrow> recorded es WorkerHeartbeat r)"
  using run_of_evidence [of C es "row_run_id r" r] assms by (simp add: fold_all_runs_in)

theorem live_needs_heartbeat_witness:
  "\<exists>r\<in>set (fold_all_runs object_worker_codec [demo_launch, demo_heartbeat]).
     row_worker_state r = Live \<and> recorded [demo_launch, demo_heartbeat] WorkerHeartbeat r"
proof -
  obtain r where r: "run_of object_worker_codec [demo_launch, demo_heartbeat] ''run-1'' = Some r"
    "row_worker_state r = Live" "row_run_id r = ''run-1''" using demo_run by blast
  then have "r \<in> set (fold_all_runs object_worker_codec [demo_launch, demo_heartbeat])"
    by (simp add: fold_all_runs_in)
  with live_needs_heartbeat [OF this] r(2) show ?thesis by blast
qed

text \<open>Restart recovery is idempotent: once the markers of every unfinished run are appended, a
  second recovery over the longer stream finds no unfinished run, and no run was lost or added.\<close>

theorem recovery_idempotent:
  "unfinished_runs C (es @ map (\<lambda>r. stale_marker C r (proc r) at (eid r)) (unfinished_runs C es)) = [] \<and>
   map row_run_id (fold_all_runs C (es @ map (\<lambda>r. stale_marker C r (proc r) at (eid r)) (unfinished_runs C es))) =
   map row_run_id (fold_all_runs C es)"
  using set_stale_not_unfinished
  unfolding unfinished_runs_def [of C "es @ _"] fold_all_runs_markers
  by (auto simp: filter_empty_conv)

text \<open>Recovery writes exactly what it observed: each unfinished run becomes stale with the reason,
  the sighting of its process, its recorded pid and the time, an attached pane is shown stale,
  and every run that had ended or was already stale is left untouched.\<close>

theorem recovery_marks_exactly:
  assumes "worker_codec_laws C"
  shows "fold_all_runs C (es @ map (\<lambda>r. stale_marker C r (proc r) at (eid r)) (unfinished_runs C es)) =
    map (\<lambda>r. if unfinished r then
        r\<lparr>row_worker_state := WorkerState.Stale,
          row_supervision := Some \<lparr>sl_reason = OWNER_LOST, sl_process = proc r, sl_pid = row_pid r,
            sl_recorded_at = at\<rparr>,
          row_pane_state := (if row_pane_id r \<noteq> None then Some PaneState.Stale else row_pane_state r)\<rparr>
      else r) (fold_all_runs C es)"
  unfolding fold_all_runs_markers
  by (rule map_cong) (simp_all add: worker_codec_laws.set_stale_marker [OF assms])

theorem recovery_marks_exactly_witness:
  "\<exists>r\<in>set (fold_all_runs object_worker_codec ([demo_launch, demo_heartbeat] @
      map (\<lambda>r. stale_marker object_worker_codec r Gone ''t2'' ''e2'')
        (unfinished_runs object_worker_codec [demo_launch, demo_heartbeat]))).
     row_worker_state r = WorkerState.Stale \<and> map_option sl_process (row_supervision r) = Some Gone"
proof -
  obtain r where r: "run_of object_worker_codec [demo_launch, demo_heartbeat] ''run-1'' = Some r"
    "row_worker_state r = Live" "row_run_id r = ''run-1''" using demo_run by blast
  then have "r \<in> set (fold_all_runs object_worker_codec [demo_launch, demo_heartbeat])"
    by (simp add: fold_all_runs_in)
  with r(2) show ?thesis
    unfolding recovery_marks_exactly [OF object_worker.worker_codec_laws_axioms]
    unfolding set_map bex_simps(7) by (intro bexI [of _ r]) (simp_all add: unfinished_def)
qed

text \<open>The per-Work view is the global view restricted to that Work, in the same launch order, as
  long as no run id was launched under two Works.\<close>

theorem fold_runs_is_filter:
  assumes "launches_agree es"
  shows "fold_runs C es w = filter (\<lambda>r. row_work_id r = w) (fold_all_runs C es)"
proof -
  let ?f = "foldl (work_step C w) empty_fold es" and ?g = "foldl (all_step C) empty_fold es"
  have ok: "fold_ok ?f" by (rule work_run_fold.fold_inv) simp
  have sel: "run_of C es k \<noteq> None" if "k \<in> set (order ?g)" for k
    using that fold_ok_order [OF fold_all_ok, of k C es] by (auto simp: run_of_def)
  have "fold_runs C es w = map (\<lambda>k. the (of_work w (run_of C es k)))
      (filter (\<lambda>k. of_work w (run_of C es k) \<noteq> None) (order ?g))"
    using fold_runs_simulation [OF assms, of C w] unfolding fold_runs_def finish_eq [OF ok] by simp
  also have "\<dots> = map (\<lambda>k. the (run_of C es k)) (filter (\<lambda>k. row_work_id (the (run_of C es k)) = w) (order ?g))"
    by (intro map_cong filter_cong refl)
      (use sel in \<open>fastforce simp: of_work_def split: option.splits if_splits\<close>)+
  finally show ?thesis by (simp add: fold_all_runs_eq filter_map comp_def)
qed

theorem fold_runs_is_filter_witness:
  "fold_runs object_worker_codec [demo_launch, demo_heartbeat] ''work-2'' =
   filter (\<lambda>r. row_work_id r = ''work-2'') (fold_all_runs object_worker_codec [demo_launch, demo_heartbeat])"
  by (rule fold_runs_is_filter)
    (simp add: launches_agree_def demo_launch_def demo_heartbeat_def event_simps)

text \<open>A look at the process proves no more than it can: alive only for a running process with the
  recorded start identity, gone only when nothing holds the pid or both identities are known and
  differ, and unknown in every other case.\<close>

theorem observe_process_proves:
  "(observe_process pid rec sighting = Alive \<longleftrightarrow>
      (\<exists>p s. pid = Some p \<and> rec = Some s \<and> sighting p = Running (Some s))) \<and>
   (observe_process pid rec sighting = Gone \<longleftrightarrow>
      (\<exists>p. pid = Some p \<and> (sighting p = NotRunning \<or>
        (\<exists>s s'. rec = Some s \<and> sighting p = Running (Some s') \<and> s' \<noteq> s))))"
  by (auto simp: observe_process_def split: option.split ProcessSighting.split)

text \<open>A run launched under a fresh id, seen alive once and then exited is listed last with exactly
  the launch's identity, the first heartbeat's process, and the recorded outcome.\<close>

theorem run_launch_heartbeat_exit:
  assumes "worker_codec_laws C" and "run_of C es i = None"
    and "es' = es @ [worker_launched_event C w i at0 e0, worker_heartbeat_event C w i pid st at1 e1,
      worker_exited_event C w i code fail at2 e2]"
  shows "fold_all_runs C es' = fold_all_runs C es @
    [(RunRow_new i (wi_worker_id w) (wi_work_id w) (wi_thread_id w))
      \<lparr>row_worker_state := (if fail \<noteq> None then WorkerState.Failed else Exited),
       row_provider := Some (wi_provider w), row_provider_session_ref := wi_provider_session_ref w,
       row_executable_path := Some (wi_executable_path w),
       row_executable_sha256 := Some (wi_executable_sha256 w), row_cwd := Some (wi_cwd w),
       row_repo_root := Some (wi_repo_root w), row_branch := Some (wi_branch w),
       row_base_commit := Some (wi_base_commit w), row_lease_id := Some (wi_lease_id w),
       row_started_at := Some at0, row_ended_at := Some at2, row_exit_code := code,
       row_failure_code := fail, row_pid := Some pid, row_process_start_id := st\<rparr>]"
proof -
  let ?l = "worker_launched_event C w i at0 e0" and ?h = "worker_heartbeat_event C w i pid st at1 e1"
    and ?x = "worker_exited_event C w i code fail at2 e2"
  let ?f = "foldl (all_step C) empty_fold"
  have es': "es' = ((es @ [?l]) @ [?h]) @ [?x]" by (simp add: assms(3))
  have other: "run_of C es' k = run_of C es k" if "k \<noteq> i" for k
    unfolding es' run_of_snoc using that by (simp add: event_simps)
  note sets = worker_codec_laws.set_launched_event [OF assms(1)]
    worker_codec_laws.set_heartbeat_event [OF assms(1)] worker_codec_laws.set_exited_event [OF assms(1)]
  have row: "run_of C es' i = Some
      (set_exited C ?x (set_heartbeat C ?h (launched_row C ?l i (wi_work_id w))))"
    unfolding es' run_of_snoc using assms(2) by (simp add: event_simps row_effect_def)
  have "order (?f es') = order (?f es) @ [i]"
    using assms(2) by (simp add: es' run_of_def all_step_def fold_apply_order fold_apply_get event_simps)
  moreover have "i \<notin> set (order (?f es))"
    using fold_ok_order [OF fold_all_ok, of i C es] assms(2) by (simp add: run_of_def)
  then have "map (\<lambda>k. the (run_of C es' k)) (order (?f es)) = map (\<lambda>k. the (run_of C es k)) (order (?f es))"
    by (intro map_cong refl) (metis other)
  ultimately show ?thesis
    unfolding fold_all_runs_eq using row
    by (simp add: launched_row_def sets event_simps RunRow_new_def)
qed

theorem run_launch_heartbeat_exit_witness:
  "length (fold_all_runs object_worker_codec ([] @ [demo_launch, demo_heartbeat,
     worker_exited_event object_worker_codec demo_identity ''run-1'' (Some 0) None ''t2'' ''e2''])) = 1"
  unfolding demo_launch_def demo_heartbeat_def
  by (subst run_launch_heartbeat_exit [OF object_worker.worker_codec_laws_axioms run_of_Nil refl])
    (simp add: fold_all_runs_def finish_def empty_fold_def)

end
