(* ===== verification/Pane.thy ===== *)
theory Pane
  imports Rust_Str
begin

text \<open>
  The bounded window a pane keeps of its worker's output, \<open>crates/heiwa_worker/src/pane.rs\<close>.
  The counter of dropped lines is a natural number: the process would have to drop \<open>2 ^ 64\<close>
  lines before the program's counter overflows.
\<close>

definition PANE_TAIL_LINES :: nat where "PANE_TAIL_LINES = 200"

definition PANE_LINE_BYTES :: nat where "PANE_LINE_BYTES = 2000"

record PaneTail =
  pt_lines :: "string list"
  pt_capacity :: nat
  pt_line_bytes :: nat
  pt_dropped :: nat

definition PaneTail_new :: "nat \<Rightarrow> nat \<Rightarrow> PaneTail" where
  "PaneTail_new capacity line_bytes =
     \<lparr>pt_lines = [], pt_capacity = max capacity 1, pt_line_bytes = max line_bytes 1, pt_dropped = 0\<rparr>"

definition PaneTail_default :: PaneTail where
  "PaneTail_default = PaneTail_new PANE_TAIL_LINES PANE_LINE_BYTES"

definition truncate_on_char_boundary :: "string \<Rightarrow> nat \<Rightarrow> string" where
  "truncate_on_char_boundary value max_bytes =
     (if length value \<le> max_bytes then value else take (boundary_below value max_bytes) value)"

text \<open>The loop of \<open>push\<close>: pop the front while there are more lines than the capacity.\<close>

fun pop_excess :: "nat \<Rightarrow> string list \<Rightarrow> nat \<Rightarrow> string list \<times> nat" where
  "pop_excess capacity [] dropped = ([], dropped)"
| "pop_excess capacity (l # ls) dropped =
     (if length (l # ls) > capacity then pop_excess capacity ls (dropped + 1) else (l # ls, dropped))"

definition push :: "PaneTail \<Rightarrow> string \<Rightarrow> PaneTail" where
  "push t line =
     (let (ls, d) = pop_excess (pt_capacity t)
        (pt_lines t @ [truncate_on_char_boundary line (pt_line_bytes t)]) (pt_dropped t)
      in t\<lparr>pt_lines := ls, pt_dropped := d\<rparr>)"

lemma pop_excess_eq: "pop_excess c ls d = (drop (length ls - c) ls, d + (length ls - c))"
  by (induction ls arbitrary: d) (auto simp: Suc_diff_le not_less)

lemma push_window:
  assumes "1 \<le> c"
  shows "push \<lparr>pt_lines = drop (length ls - c) ls, pt_capacity = c, pt_line_bytes = b,
      pt_dropped = length ls - c\<rparr> l =
    (let ls' = ls @ [truncate_on_char_boundary l b] in
      \<lparr>pt_lines = drop (length ls' - c) ls', pt_capacity = c, pt_line_bytes = b,
       pt_dropped = length ls' - c\<rparr>)"
proof -
  have "Suc (length ls - (length ls - c)) - c + (length ls - c) = Suc (length ls) - c"
    "length ls - c + (Suc (length ls - (length ls - c)) - c) = Suc (length ls) - c"
    "Suc (length ls) - c - length ls = 0"
    using assms by linarith+
  with assms show ?thesis by (simp add: push_def pop_excess_eq)
qed

lemma foldl_push:
  "foldl push (PaneTail_new c b) ls =
     \<lparr>pt_lines = drop (length ls - max c 1) (map (\<lambda>l. truncate_on_char_boundary l (max b 1)) ls),
      pt_capacity = max c 1, pt_line_bytes = max b 1, pt_dropped = length ls - max c 1\<rparr>"
proof (induction ls rule: rev_induct)
  case Nil
  then show ?case by (simp add: PaneTail_new_def)
next
  case (snoc l ls)
  let ?ms = "map (\<lambda>l. truncate_on_char_boundary l (max b 1)) ls"
  show ?case unfolding foldl_append foldl.simps snoc
    using push_window [of "max c 1" ?ms "max b 1" l] by (simp only: length_map) (simp add: Let_def)
qed

lemma truncate_length:
  "length (truncate_on_char_boundary v m) = Max {k. k \<le> m \<and> k \<le> length v \<and> is_char_boundary v k}"
proof (cases "length v \<le> m")
  case True
  then have "length v = Max {k. k \<le> m \<and> k \<le> length v \<and> is_char_boundary v k}"
    by (intro Max_eqI [symmetric]) (auto simp: is_char_boundary_def)
  with True show ?thesis by (simp add: truncate_on_char_boundary_def)
next
  case False
  have "boundary_below v m = Max {k. k \<le> m \<and> k \<le> length v \<and> is_char_boundary v k}"
    using False boundary_below_le [of v m] boundary_below_is_boundary [of v m]
    by (intro Max_eqI [symmetric]) (auto intro: boundary_below_greatest)
  moreover have "boundary_below v m \<le> length v" using False boundary_below_le [of v m] by linarith
  ultimately show ?thesis using False by (simp add: truncate_on_char_boundary_def)
qed

text \<open>A pane keeps exactly the last lines its worker printed, as many as its capacity, in order,
  each truncated to its byte limit, and its counter says exactly how many earlier lines are gone.\<close>

theorem pane_tail_window:
  "foldl push (PaneTail_new capacity line_bytes) ls =
     \<lparr>pt_lines = drop (length ls - max capacity 1)
        (map (\<lambda>l. truncate_on_char_boundary l (max line_bytes 1)) ls),
      pt_capacity = max capacity 1, pt_line_bytes = max line_bytes 1,
      pt_dropped = length ls - max capacity 1\<rparr>"
  by (rule foldl_push)

text \<open>A truncated line is the longest prefix of the line that fits the limit and ends on a
  character boundary: a multi-byte character is never split.\<close>

theorem truncate_longest_prefix:
  "prefix (truncate_on_char_boundary v m) v \<and>
   length (truncate_on_char_boundary v m) = Max {k. k \<le> m \<and> k \<le> length v \<and> is_char_boundary v k}"
  using truncate_length by (simp add: truncate_on_char_boundary_def take_is_prefix)

end
