(* ===== verification/Work_Session.thy ===== *)
theory Work_Session
  imports Work Worker Pane
begin

text \<open>
  The bounded read model of one Work session: \<open>crates/heiwa_work/src/session.rs\<close> (building the
  snapshot from the stream), \<open>snapshot.rs\<close> (the snapshot, its deltas, and the client's guard) and
  \<open>surface.rs\<close> (Home, Work and Agent as selections over one snapshot). Entries of a JSON row are
  written in the order of the source; nothing below depends on it.

  Parameters, in \<open>session_lib\<close>: the payload decoders, the derived serialiser of a run row,
  \<open>serde_json\<close>'s \<open>as_f64\<close> (the bits of the double), and SHA-256. \<open>expect\<close> on a missing collection
  would panic: it is the result \<open>None\<close>.
\<close>

section \<open>Snapshots and deltas\<close>

datatype ProjectionEpoch = ProjectionEpoch string

definition from_seed :: "(string \<Rightarrow> string) \<Rightarrow> string \<Rightarrow> ProjectionEpoch" where
  "from_seed sha256 seed = ProjectionEpoch (concat (map hex_byte (take 8 (sha256 seed))))"

type_synonym CollectionRows = "(string, json) btree"

record WorkSessionSnapshotV1 =
  snap_work_id :: string
  snap_work_revision :: u64
  snap_projection_epoch :: ProjectionEpoch
  snap_projection_revision :: u64
  snap_operator_cursor :: "string option"
  snap_source_watermarks :: "(string, string) btree"
  snap_collections :: "(string, CollectionRows) btree"
  snap_truncated_collections :: "(string, nat) btree"

record WorkSessionDeltaV1 =
  delta_work_id :: string
  delta_projection_epoch :: ProjectionEpoch
  delta_base_projection_revision :: u64
  delta_projection_revision :: u64
  delta_operator_cursor :: "string option"
  delta_upserts :: "(string, CollectionRows) btree"
  delta_removals :: "(string, string list) btree"

datatype ResyncReason = WorkChanged | EpochChanged | RevisionGap

datatype DeltaApplyOutcome = Applied u64 | ResyncRequired ResyncReason

record ClientProjection =
  client_work_id :: string
  client_epoch :: ProjectionEpoch
  client_projection_revision :: u64

definition from_snapshot :: "WorkSessionSnapshotV1 \<Rightarrow> ClientProjection" where
  "from_snapshot snapshot =
     \<lparr>client_work_id = snap_work_id snapshot, client_epoch = snap_projection_epoch snapshot,
      client_projection_revision = snap_projection_revision snapshot\<rparr>"

definition accept :: "ClientProjection \<Rightarrow> WorkSessionDeltaV1 \<Rightarrow> DeltaApplyOutcome" where
  "accept self delta =
     (if delta_work_id delta \<noteq> client_work_id self then ResyncRequired WorkChanged
      else if delta_projection_epoch delta \<noteq> client_epoch self then ResyncRequired EpochChanged
      else if delta_base_projection_revision delta \<noteq> client_projection_revision self \<or>
              delta_projection_revision delta \<le> delta_base_projection_revision delta
           then ResyncRequired RevisionGap
      else Applied (delta_projection_revision delta))"

section \<open>Building a session\<close>

definition COLLECTIONS :: "string list" where
  "COLLECTIONS =
     [''work'', ''threads'', ''workspace'', ''runs'', ''approvals'', ''actions'', ''artifacts'',
      ''tests'', ''receipts'', ''blockers'']"

record WorkSessionBuildOptions =
  opt_epoch_seed :: string
  opt_collection_limit :: nat

definition options_new :: "string \<Rightarrow> nat \<Rightarrow> WorkSessionBuildOptions" where
  "options_new epoch_seed collection_limit =
     \<lparr>opt_epoch_seed = epoch_seed, opt_collection_limit = max collection_limit 1\<rparr>"

datatype WorkSessionBuildError = UnknownWork string

record session_lib =
  lib_work_codec :: work_codec
  lib_worker_codec :: worker_codec
  lib_row_to_value :: "RunRow \<Rightarrow> json"
  lib_as_f64 :: "json \<Rightarrow> u64 option"
  lib_sha256 :: "string \<Rightarrow> string"

text \<open>The two maps the builder mutates.\<close>

record session_state =
  st_collections :: "(string, CollectionRows) btree"
  st_truncated :: "(string, nat) btree"

definition bounded_upsert ::
    "string \<Rightarrow> string \<Rightarrow> json \<Rightarrow> nat \<Rightarrow> session_state \<Rightarrow> session_state option" where
  "bounded_upsert collection key value limit st =
     (case bt_get (st_collections st) collection of
        None \<Rightarrow> None
      | Some rs \<Rightarrow>
          if bt_get rs key \<noteq> None \<or> length rs < limit
          then Some (st\<lparr>st_collections := bt_insert collection (bt_insert key value rs) (st_collections st)\<rparr>)
          else Some (st\<lparr>st_truncated := bt_insert collection
                 ((case bt_get (st_truncated st) collection of Some n \<Rightarrow> n | None \<Rightarrow> 0) + 1)
                 (st_truncated st)\<rparr>))"

definition str_of :: "json \<Rightarrow> string \<Rightarrow> string option" where
  "str_of payload key = Option.bind (json_get payload key) as_str"

definition bounded :: "string \<Rightarrow> nat \<Rightarrow> string" where
  "bounded value max_bytes =
     (if length value \<le> max_bytes then value else take (boundary_below value max_bytes) value)"

text \<open>\<open>json!\<close> of an optional double: null when absent or not finite.\<close>

definition opt_f64 :: "u64 option \<Rightarrow> json" where
  "opt_f64 x = (case x of
     Some bits \<Rightarrow> if take_bit 11 (drop_bit 52 bits) = 0x7FF then JNull else JNumber (Float bits)
   | None \<Rightarrow> JNull)"

definition thread_status :: "session_state \<Rightarrow> OperatorEvent \<Rightarrow> string option" where
  "thread_status st event =
     (let running =
        (if ev_turn_id event \<noteq> None then
           let current = Option.bind (Option.bind (Option.bind
                 (bt_get (st_collections st) ''threads'') (\<lambda>rs. bt_get rs (ev_thread_id event)))
                 (\<lambda>row. json_get row ''status'')) as_str
           in Some (if current = Some ''cancelling'' then ''cancelling'' else ''running'')
         else None)
      in case ev_event_type event of
           TurnStarted \<Rightarrow> Some ''open''
         | TurnCancelRequested \<Rightarrow> Some ''cancelling''
         | TurnCompleted \<Rightarrow> Some ''completed''
         | TurnInterrupted \<Rightarrow> Some ''interrupted''
         | Blocker \<Rightarrow> if ev_turn_id event \<noteq> None then Some ''blocked'' else running
         | _ \<Rightarrow> running)"

definition project_thread :: "OperatorEvent \<Rightarrow> nat \<Rightarrow> session_state \<Rightarrow> session_state option" where
  "project_thread event limit st =
     (case thread_status st event of
        None \<Rightarrow> Some st
      | Some status \<Rightarrow>
          bounded_upsert ''threads'' (ev_thread_id event)
            (JObject [(''thread_id'', JString (ev_thread_id event)),
              (''latest_turn_id'', opt_str (ev_turn_id event)),
              (''status'', JString status),
              (''updated_at'', JString (ev_occurred_at event))]) limit st)"

definition project_workspace_prepared ::
    "OperatorEvent \<Rightarrow> nat \<Rightarrow> session_state \<Rightarrow> session_state option" where
  "project_workspace_prepared event limit st =
     (let s = str_of (ev_payload event) in
      case s ''repo_root'' of
        None \<Rightarrow> Some st
      | Some repo_root \<Rightarrow>
          bounded_upsert ''workspace'' repo_root
            (JObject [(''repo_root'', JString repo_root),
              (''worktree_path'', opt_str (s ''worktree_path'')),
              (''branch'', opt_str (s ''branch'')),
              (''base_commit'', opt_str (s ''base_commit'')),
              (''state'', JString ''prepared''),
              (''updated_at'', JString (ev_occurred_at event))]) limit st)"

definition project_workspace_released ::
    "OperatorEvent \<Rightarrow> nat \<Rightarrow> session_state \<Rightarrow> session_state option" where
  "project_workspace_released event limit st =
     (case str_of (ev_payload event) ''repo_root'' of
        None \<Rightarrow> Some st
      | Some repo_root \<Rightarrow>
          bounded_upsert ''workspace'' repo_root
            (JObject [(''repo_root'', JString repo_root),
              (''state'', JString ''released''),
              (''updated_at'', JString (ev_occurred_at event))]) limit st)"

definition project_approval :: "OperatorEvent \<Rightarrow> nat \<Rightarrow> session_state \<Rightarrow> session_state option" where
  "project_approval event limit st =
     (let s = str_of (ev_payload event);
          key = unwrap_or (s ''request_id'') (unwrap_or (ev_call_id event) (ev_event_id event)) in
      bounded_upsert ''approvals'' key
        (JObject [(''request_id'', opt_str (s ''request_id'')),
          (''call_id'', opt_str (ev_call_id event)),
          (''tool'', opt_str (s ''tool'')),
          (''risk'', opt_str (s ''risk'')),
          (''outcome'', opt_str (s ''outcome'')),
          (''updated_at'', JString (ev_occurred_at event))]) limit st)"

definition project_action :: "OperatorEvent \<Rightarrow> nat \<Rightarrow> session_state \<Rightarrow> session_state option" where
  "project_action event limit st =
     (let s = str_of (ev_payload event);
          key = unwrap_or (ev_call_id event) (ev_event_id event);
          status = (if ev_event_type event = ToolCallStarted then ''started''
                    else unwrap_or (s ''status'') ''completed'') in
      bounded_upsert ''actions'' key
        (JObject [(''call_id'', opt_str (ev_call_id event)),
          (''name'', opt_str (s ''name'')),
          (''status'', JString status),
          (''receipt_id'', opt_str (s ''receipt_id'')),
          (''artifact_ref'', opt_str (s ''artifact_ref'')),
          (''updated_at'', JString (ev_occurred_at event))]) limit st)"

definition project_artifact :: "OperatorEvent \<Rightarrow> nat \<Rightarrow> session_state \<Rightarrow> session_state option" where
  "project_artifact event limit st =
     (let s = str_of (ev_payload event) in
      bounded_upsert ''artifacts'' (unwrap_or (s ''artifact_id'') (ev_event_id event))
        (JObject [(''artifact_id'', opt_str (s ''artifact_id'')),
          (''artifact_ref'', opt_str (s ''artifact_ref'')),
          (''kind'', opt_str (s ''kind'')),
          (''byte_len'', opt_u64 (Option.bind (json_get (ev_payload event) ''byte_len'') as_u64)),
          (''created_at'', JString (ev_occurred_at event))]) limit st)"

definition project_test :: "OperatorEvent \<Rightarrow> nat \<Rightarrow> session_state \<Rightarrow> session_state option" where
  "project_test event limit st =
     (let s = str_of (ev_payload event) in
      bounded_upsert ''tests'' (ev_event_id event)
        (JObject [(''event_id'', JString (ev_event_id event)),
          (''name'', opt_str (s ''name'')),
          (''status'', opt_str (s ''status'')),
          (''occurred_at'', JString (ev_occurred_at event))]) limit st)"

definition project_receipt ::
    "(json \<Rightarrow> u64 option) \<Rightarrow> OperatorEvent \<Rightarrow> nat \<Rightarrow> session_state \<Rightarrow> session_state option" where
  "project_receipt as_f64 event limit st =
     (let s = str_of (ev_payload event) in
      bounded_upsert ''receipts'' (ev_event_id event)
        (JObject [(''event_id'', JString (ev_event_id event)),
          (''kind'', opt_str (s ''kind'')),
          (''receipt_ref'', opt_str (s ''receipt_ref'')),
          (''provider'', opt_str (s ''provider'')),
          (''model'', opt_str (s ''model'')),
          (''cost_usd'', opt_f64 (Option.bind (json_get (ev_payload event) ''cost_usd'') as_f64)),
          (''occurred_at'', JString (ev_occurred_at event))]) limit st)"

definition project_blocker :: "OperatorEvent \<Rightarrow> nat \<Rightarrow> session_state \<Rightarrow> session_state option" where
  "project_blocker event limit st =
     (let s = str_of (ev_payload event) in
      bounded_upsert ''blockers'' (ev_event_id event)
        (JObject [(''event_id'', JString (ev_event_id event)),
          (''code'', opt_str (s ''code'')),
          (''reason'', opt_str (map_option (\<lambda>value. bounded value 256) (s ''reason''))),
          (''occurred_at'', JString (ev_occurred_at event))]) limit st)"

definition project_event ::
    "session_lib \<Rightarrow> OperatorEvent \<Rightarrow> nat \<Rightarrow> session_state \<Rightarrow> session_state option" where
  "project_event L event limit st =
     Option.bind (project_thread event limit st) (\<lambda>st.
       case ev_event_type event of
         WorkspacePrepared \<Rightarrow> project_workspace_prepared event limit st
       | WorkspaceReleased \<Rightarrow> project_workspace_released event limit st
       | ApprovalRequested \<Rightarrow> project_approval event limit st
       | ApprovalDecided \<Rightarrow> project_approval event limit st
       | ToolCallStarted \<Rightarrow> project_action event limit st
       | ToolCallCompleted \<Rightarrow> project_action event limit st
       | ArtifactCreated \<Rightarrow> project_artifact event limit st
       | TestResult \<Rightarrow> project_test event limit st
       | ReceiptLinked \<Rightarrow> project_receipt (lib_as_f64 L) event limit st
       | Blocker \<Rightarrow> project_blocker event limit st
       | _ \<Rightarrow> Some st)"

fun WorkStatus_wire :: "WorkStatus \<Rightarrow> string" where
  "WorkStatus_wire Active = ''active''"
| "WorkStatus_wire Blocked = ''blocked''"
| "WorkStatus_wire Cancelled = ''cancelled''"
| "WorkStatus_wire WorkStatus.Failed = ''failed''"
| "WorkStatus_wire Complete = ''complete''"

definition work_row :: "Work \<Rightarrow> json" where
  "work_row work =
     JObject [(''work_id'', JString (WorkId_as_str (work_work_id work))),
       (''intent'', JString (work_intent work)),
       (''status'', JString (WorkStatus_wire (work_status work))),
       (''revision'', JNumber (PosInt (work_revision work))),
       (''primary_thread_id'', JString (work_primary_thread_id work)),
       (''related_thread_ids'', JArray (map JString (work_related_thread_ids work))),
       (''updated_at'', JString (work_updated_at work))]"

definition initial_state :: session_state where
  "initial_state =
     \<lparr>st_collections = foldl (\<lambda>m name. bt_insert name [] m) [] COLLECTIONS, st_truncated = []\<rparr>"

text \<open>The loop over the stream: events of other Works are skipped, the others counted and projected.\<close>

fun project_all ::
    "session_lib \<Rightarrow> string \<Rightarrow> nat \<Rightarrow> CursorEvent list \<Rightarrow> u64 \<times> session_state \<Rightarrow>
      (u64 \<times> session_state) option" where
  "project_all L work_id limit [] acc = Some acc"
| "project_all L work_id limit (row # rs) (revision, st) =
     (if ev_work_id (ce_event row) \<noteq> Some work_id then project_all L work_id limit rs (revision, st)
      else Option.bind (project_event L (ce_event row) limit st) (\<lambda>st.
             project_all L work_id limit rs (saturating_add revision 1, st)))"

fun upsert_runs ::
    "session_lib \<Rightarrow> nat \<Rightarrow> RunRow list \<Rightarrow> session_state \<Rightarrow> session_state option" where
  "upsert_runs L limit [] st = Some st"
| "upsert_runs L limit (row # rs) st =
     Option.bind (bounded_upsert ''runs'' (row_run_id row) (lib_row_to_value L row) limit st)
       (upsert_runs L limit rs)"

definition build_work_session ::
    "session_lib \<Rightarrow> CursorEvent list \<Rightarrow> string \<Rightarrow> WorkSessionBuildOptions \<Rightarrow>
      (WorkSessionBuildError + WorkSessionSnapshotV1) option" where
  "build_work_session L rs work_id options =
     (let events = map ce_event rs;
          limit = opt_collection_limit options in
      case projection_work (fold_work (lib_work_codec L) events) work_id of
        None \<Rightarrow> Some (Inl (UnknownWork work_id))
      | Some work \<Rightarrow>
          Option.bind (bounded_upsert ''work'' work_id (work_row work) limit initial_state) (\<lambda>st1.
          Option.bind (project_all L work_id limit rs (0, st1)) (\<lambda>(revision, st2).
          Option.bind (upsert_runs L limit (fold_runs (lib_worker_codec L) events work_id) st2) (\<lambda>st3.
            let operator_cursor = (if rs = [] then None else Some (ce_cursor (last rs))) in
            Some (Inr
              \<lparr>snap_work_id = work_id,
               snap_work_revision = work_revision work,
               snap_projection_epoch = from_seed (lib_sha256 L) (opt_epoch_seed options),
               snap_projection_revision = revision,
               snap_operator_cursor = operator_cursor,
               snap_source_watermarks =
                 (case operator_cursor of Some c \<Rightarrow> bt_insert ''operator'' c [] | None \<Rightarrow> []),
               snap_collections = st_collections st3,
               snap_truncated_collections = st_truncated st3\<rparr>)))))"

section \<open>Surfaces\<close>

record SurfaceIdentity =
  si_work_id :: string
  si_work_revision :: u64
  si_projection_epoch :: ProjectionEpoch
  si_projection_revision :: u64
  si_operator_cursor :: "string option"

definition SurfaceIdentity_of :: "WorkSessionSnapshotV1 \<Rightarrow> SurfaceIdentity" where
  "SurfaceIdentity_of snapshot =
     \<lparr>si_work_id = snap_work_id snapshot, si_work_revision = snap_work_revision snapshot,
      si_projection_epoch = snap_projection_epoch snapshot,
      si_projection_revision = snap_projection_revision snapshot,
      si_operator_cursor = snap_operator_cursor snapshot\<rparr>"

definition SurfaceIdentity_client :: "SurfaceIdentity \<Rightarrow> ClientProjection" where
  "SurfaceIdentity_client self =
     \<lparr>client_work_id = si_work_id self, client_epoch = si_projection_epoch self,
      client_projection_revision = si_projection_revision self\<rparr>"

record SurfaceView =
  sv_surface :: string
  sv_identity :: SurfaceIdentity
  sv_collections :: "(string, CollectionRows) btree"
  sv_truncated_collections :: "(string, nat) btree"

definition SURFACES :: "string list" where
  "SURFACES = [''home'', ''work'', ''agent'']"

text \<open>Copying the named entries of one map into a new one.\<close>

definition select_names :: "(string, 'a) btree \<Rightarrow> string list \<Rightarrow> (string, 'a) btree" where
  "select_names m names =
     foldl (\<lambda>acc name. case bt_get m name of Some v \<Rightarrow> bt_insert name v acc | None \<Rightarrow> acc) [] names"

definition select_view :: "WorkSessionSnapshotV1 \<Rightarrow> string \<Rightarrow> string list \<Rightarrow> SurfaceView" where
  "select_view snapshot surface names =
     \<lparr>sv_surface = surface, sv_identity = SurfaceIdentity_of snapshot,
      sv_collections = select_names (snap_collections snapshot) names,
      sv_truncated_collections = select_names (snap_truncated_collections snapshot) names\<rparr>"

definition home_names :: "string list" where
  "home_names = [''work'', ''blockers'', ''approvals'', ''runs'', ''receipts'']"

definition work_names :: "string list" where
  "work_names = [''work'', ''threads'', ''workspace'', ''runs'', ''actions'', ''artifacts'',
     ''tests'', ''receipts'', ''blockers'']"

definition agent_names :: "string list" where
  "agent_names = [''work'', ''runs'', ''workspace'', ''actions'', ''approvals'']"

definition home_view :: "WorkSessionSnapshotV1 \<Rightarrow> SurfaceView" where
  "home_view snapshot = select_view snapshot ''home'' home_names"

definition work_view :: "WorkSessionSnapshotV1 \<Rightarrow> SurfaceView" where
  "work_view snapshot = select_view snapshot ''work'' work_names"

definition agent_view :: "WorkSessionSnapshotV1 \<Rightarrow> SurfaceView" where
  "agent_view snapshot = select_view snapshot ''agent'' agent_names"

definition view_for :: "WorkSessionSnapshotV1 \<Rightarrow> string \<Rightarrow> SurfaceView option" where
  "view_for snapshot surface =
     (if surface = ''home'' then Some (home_view snapshot)
      else if surface = ''work'' then Some (work_view snapshot)
      else if surface = ''agent'' then Some (agent_view snapshot)
      else None)"

definition surfaces :: "WorkSessionSnapshotV1 \<Rightarrow> SurfaceView list" where
  "surfaces snapshot = [home_view snapshot, work_view snapshot, agent_view snapshot]"

section \<open>Bounds\<close>

definition state_ok :: "nat \<Rightarrow> session_state \<Rightarrow> bool" where
  "state_ok limit st \<longleftrightarrow> bt_inv (st_collections st) \<and>
     map fst (st_collections st) = sort COLLECTIONS \<and>
     (\<forall>c rs. bt_get (st_collections st) c = Some rs \<longrightarrow> bt_inv rs \<and> length rs \<le> limit) \<and>
     fst ` set (st_truncated st) \<subseteq> set COLLECTIONS"

definition keeps :: "nat \<Rightarrow> session_state option \<Rightarrow> bool" where
  "keeps limit r \<longleftrightarrow> (\<exists>st. r = Some st \<and> state_ok limit st)"

lemma state_ok_initial: "state_ok limit initial_state"
  by (simp add: state_ok_def initial_state_def COLLECTIONS_def bt_inv_def
      less_char_def less_eq_char_def)

lemma state_ok_has:
  assumes "state_ok limit st" and "c \<in> set COLLECTIONS"
  shows "\<exists>rs. bt_get (st_collections st) c = Some rs"
proof -
  have "fst ` set (st_collections st) = set COLLECTIONS"
    using assms(1) unfolding state_ok_def by (metis image_set set_sort)
  with assms(2) show ?thesis by (metis domD dom_map_of_conv_image_fst)
qed

lemma upsert_keeps:
  assumes "state_ok limit st" and "c \<in> set COLLECTIONS"
  shows "keeps limit (bounded_upsert c k v limit st)"
proof -
  obtain rs where rs: "bt_get (st_collections st) c = Some rs"
    using state_ok_has [OF assms] by blast
  then have ok: "bt_inv rs" "length rs \<le> limit" "bt_inv (st_collections st)"
    "map fst (st_collections st) = sort COLLECTIONS" "fst ` set (st_truncated st) \<subseteq> set COLLECTIONS"
    using assms(1) by (auto simp: state_ok_def)
  have keys: "map fst (bt_insert c x (st_collections st)) = sort COLLECTIONS" for x
    using bt_insert_same_keys [OF ok(3)] rs ok(4) by simp
  have trunc: "fst ` set (bt_insert c n (st_truncated st)) \<subseteq> set COLLECTIONS" for n
    using ok(5) assms(2) bt_keys_insert [of c n "st_truncated st"] by simp
  have len: "length (bt_insert k v rs) \<le> limit" if "bt_get rs k \<noteq> None \<or> length rs < limit"
    using that ok(2) bt_length_insert [OF ok(1), of k v] by (auto split: if_splits)
  show ?thesis
    using assms(1) rs ok keys trunc len
    by (auto simp: keeps_def bounded_upsert_def state_ok_def)
qed

lemma keeps_Some [simp]: "keeps limit (Some st) = state_ok limit st"
  by (simp add: keeps_def)

lemma keeps_bind:
  "keeps limit r \<Longrightarrow> (\<And>st. state_ok limit st \<Longrightarrow> keeps limit (f st)) \<Longrightarrow> keeps limit (Option.bind r f)"
  by (auto simp: keeps_def)

lemma known_collections [simp]:
  "''work'' \<in> set COLLECTIONS" "''threads'' \<in> set COLLECTIONS" "''workspace'' \<in> set COLLECTIONS"
  "''runs'' \<in> set COLLECTIONS" "''approvals'' \<in> set COLLECTIONS" "''actions'' \<in> set COLLECTIONS"
  "''artifacts'' \<in> set COLLECTIONS" "''tests'' \<in> set COLLECTIONS" "''receipts'' \<in> set COLLECTIONS"
  "''blockers'' \<in> set COLLECTIONS"
  by (simp_all add: COLLECTIONS_def)

lemmas project_defs = project_workspace_prepared_def project_workspace_released_def
  project_approval_def project_action_def project_artifact_def project_test_def
  project_receipt_def project_blocker_def

lemma project_event_keeps:
  assumes "state_ok limit st"
  shows "keeps limit (project_event L e limit st)"
  unfolding project_event_def
proof (rule keeps_bind)
  show "keeps limit (project_thread e limit st)"
    using assms by (simp add: project_thread_def upsert_keeps split: option.split)
next
  fix st' assume "state_ok limit st'"
  then show "keeps limit (case ev_event_type e of
         WorkspacePrepared \<Rightarrow> project_workspace_prepared e limit st'
       | WorkspaceReleased \<Rightarrow> project_workspace_released e limit st'
       | ApprovalRequested \<Rightarrow> project_approval e limit st'
       | ApprovalDecided \<Rightarrow> project_approval e limit st'
       | ToolCallStarted \<Rightarrow> project_action e limit st'
       | ToolCallCompleted \<Rightarrow> project_action e limit st'
       | ArtifactCreated \<Rightarrow> project_artifact e limit st'
       | TestResult \<Rightarrow> project_test e limit st'
       | ReceiptLinked \<Rightarrow> project_receipt (lib_as_f64 L) e limit st'
       | Blocker \<Rightarrow> project_blocker e limit st'
       | _ \<Rightarrow> Some st')"
    by (cases "ev_event_type e")
      (simp_all add: project_defs Let_def upsert_keeps split: option.split)
qed

text \<open>How many events of the stream belong to the Work.\<close>

definition own_events :: "string \<Rightarrow> CursorEvent list \<Rightarrow> nat" where
  "own_events w rs = length (filter (\<lambda>r. ev_work_id (ce_event r) = Some w) rs)"

lemma project_all_ok:
  "state_ok limit st \<Longrightarrow>
   \<exists>st'. project_all L w limit rs (n, st) =
     Some (word_of_nat (min (unat n + own_events w rs) (2 ^ 64 - 1)), st') \<and> state_ok limit st'"
proof (induction rs arbitrary: n st)
  case Nil
  have "unat n < 2 ^ 64" using unsigned_less [of n, where ?'a = nat] by simp
  then have "min (unat n) (2 ^ 64 - 1) = unat n" by simp
  with Nil show ?case by (simp only: project_all.simps) (simp add: own_events_def)
next
  case (Cons r rs)
  show ?case
  proof (cases "ev_work_id (ce_event r) = Some w")
    case True
    obtain st1 where st1: "project_event L (ce_event r) limit st = Some st1" "state_ok limit st1"
      using project_event_keeps [OF Cons.prems, of L "ce_event r"] by (auto simp: keeps_def)
    have n: "min (unat (saturating_add n 1) + own_events w rs) (2 ^ 64 - 1) =
        min (unat n + own_events w (r # rs)) (2 ^ 64 - 1)"
      using True by (simp add: unat_saturating_add own_events_def)
    show ?thesis using Cons.IH [OF st1(2), of "saturating_add n 1"] True st1(1) n by simp
  next
    case False
    then have "own_events w (r # rs) = own_events w rs" by (simp add: own_events_def)
    with Cons.IH [OF Cons.prems, of n] False show ?thesis by simp
  qed
qed

lemma upsert_runs_keeps: "state_ok limit st \<Longrightarrow> keeps limit (upsert_runs L limit rs st)"
  by (induction rs arbitrary: st) (auto intro!: keeps_bind upsert_keeps)

section \<open>What a bounded collection keeps\<close>

text \<open>A sequence of upserts into one collection, and the keys it admits: the first \<open>limit\<close> distinct ones.\<close>

fun upsert_all :: "string \<Rightarrow> nat \<Rightarrow> (string \<times> json) list \<Rightarrow> session_state \<Rightarrow> session_state option" where
  "upsert_all c limit [] st = Some st"
| "upsert_all c limit ((k, v) # ups) st =
     Option.bind (bounded_upsert c k v limit st) (upsert_all c limit ups)"

definition first_keys :: "nat \<Rightarrow> string list \<Rightarrow> string list" where
  "first_keys limit ks = take limit (rev (remdups (rev ks)))"

lemma first_keys_snoc:
  "first_keys limit (ks @ [k]) =
     (if k \<in> set ks \<or> limit \<le> length (first_keys limit ks) then first_keys limit ks
      else first_keys limit ks @ [k])"
  by (auto simp: first_keys_def)

lemma first_keys_new:
  "length (first_keys limit ks) < limit \<Longrightarrow> k \<notin> set (first_keys limit ks) \<Longrightarrow> k \<notin> set ks"
  by (auto simp: first_keys_def)

lemma first_keys_full:
  "\<not> length (first_keys limit ks) < limit \<Longrightarrow> limit \<le> length (first_keys limit ks)"
  by simp

lemma upsert_all_snoc:
  "upsert_all c limit (ups @ [(k, v)]) st =
     Option.bind (upsert_all c limit ups st) (bounded_upsert c k v limit)"
  by (induction c limit ups st rule: upsert_all.induct) (auto split: bind_split)

definition kept_exactly ::
    "string \<Rightarrow> string list \<Rightarrow> (string \<times> json) list \<Rightarrow> session_state option \<Rightarrow> bool" where
  "kept_exactly c F ups r \<longleftrightarrow>
     (\<exists>st rs. r = Some st \<and> bt_get (st_collections st) c = Some rs \<and> bt_inv rs \<and> length rs = length F \<and>
       (\<forall>k. bt_get rs k = (if k \<in> set F then map_of (rev ups) k else None)) \<and>
       unwrap_or (bt_get (st_truncated st) c) 0 = length (filter (\<lambda>up. fst up \<notin> set F) ups))"

lemma kept_exactlyI:
  "r = Some st \<Longrightarrow> bt_get (st_collections st) c = Some rs \<Longrightarrow> bt_inv rs \<Longrightarrow> length rs = length F \<Longrightarrow>
   (\<forall>k. bt_get rs k = (if k \<in> set F then map_of (rev ups) k else None)) \<Longrightarrow>
   unwrap_or (bt_get (st_truncated st) c) 0 = length (filter (\<lambda>up. fst up \<notin> set F) ups) \<Longrightarrow>
   kept_exactly c F ups r"
  unfolding kept_exactly_def by blast

lemma kept_exactlyE:
  assumes "kept_exactly c F ups r"
  obtains st rs where "r = Some st" "bt_get (st_collections st) c = Some rs" "bt_inv rs" "length rs = length F"
    "\<forall>k. bt_get rs k = (if k \<in> set F then map_of (rev ups) k else None)"
    "unwrap_or (bt_get (st_truncated st) c) 0 = length (filter (\<lambda>up. fst up \<notin> set F) ups)"
  using assms unfolding kept_exactly_def by (elim exE conjE)

lemma upsert_all_spec:
  assumes "bt_get (st_collections st) c = Some []" and "bt_get (st_truncated st) c = None"
  shows "kept_exactly c (first_keys limit (map fst ups)) ups (upsert_all c limit ups st)"
proof (induction ups rule: rev_induct)
  case Nil
  show ?case using assms by (simp add: kept_exactly_def first_keys_def unwrap_or_def)
next
  case (snoc up ups)
  obtain k v where up: "up = (k, v)" by fastforce
  let ?F = "first_keys limit (map fst ups)"
  from snoc obtain st' rs where IH: "upsert_all c limit ups st = Some st'"
    "bt_get (st_collections st') c = Some rs" "bt_inv rs" "length rs = length ?F"
    "\<forall>k. bt_get rs k = (if k \<in> set ?F then map_of (rev ups) k else None)"
    "unwrap_or (bt_get (st_truncated st') c) 0 = length (filter (\<lambda>up. fst up \<notin> set ?F) ups)"
    by (rule kept_exactlyE)
  have sub: "set ?F \<subseteq> set (map fst ups)"
    by (auto simp: first_keys_def dest: in_set_takeD)
  have known: "bt_get rs k' \<noteq> None \<longleftrightarrow> k' \<in> set ?F" for k'
  proof (cases "k' \<in> set ?F")
    case True
    with sub have "k' \<in> fst ` set (rev ups)" by auto
    then have "bt_get (rev ups) k' \<noteq> None" by (simp only: map_of_eq_None_iff) simp
    with True IH(5) [rule_format, of k'] show ?thesis by simp
  qed (use IH(5) [rule_format, of k'] in simp)
  consider (old) "k \<in> set ?F" | (new) "k \<notin> set ?F" "length ?F < limit"
    | (refused) "k \<notin> set ?F" "\<not> length ?F < limit" by blast
  then show ?case
  proof cases
    case old
    then have F: "first_keys limit (map fst (ups @ [up])) = ?F"
      using sub by (auto simp: first_keys_snoc up)
    let ?st = "st'\<lparr>st_collections := bt_insert c (bt_insert k v rs) (st_collections st')\<rparr>"
    have "bounded_upsert c k v limit st' = Some ?st"
      using IH(2) known [of k] old by (simp add: bounded_upsert_def)
    then have res: "upsert_all c limit (ups @ [up]) st = Some ?st" by (simp add: up upsert_all_snoc IH(1))
    have len: "length (bt_insert k v rs) = length ?F"
      using bt_length_insert [OF IH(3), of k v] known [of k] old IH(4) by auto
    have look: "\<forall>k'. bt_get (bt_insert k v rs) k' = (if k' \<in> set ?F then map_of (rev (ups @ [up])) k' else None)"
      using IH(5) old by (simp add: up)
    have cnt: "unwrap_or (bt_get (st_truncated ?st) c) 0 = length (filter (\<lambda>up. fst up \<notin> set ?F) (ups @ [up]))"
      using IH(6) old by (simp add: up)
    show ?thesis
      unfolding F by (rule kept_exactlyI [OF res _ bt_inv_insert [OF IH(3)] len look cnt]) simp
  next
    case new
    then have fresh: "k \<notin> set (map fst ups)" using first_keys_new by blast
    then have F: "first_keys limit (map fst (ups @ [up])) = ?F @ [k]"
      using new by (simp add: first_keys_snoc up)
    let ?st = "st'\<lparr>st_collections := bt_insert c (bt_insert k v rs) (st_collections st')\<rparr>"
    have "bounded_upsert c k v limit st' = Some ?st"
      using IH(2,4) new by (simp add: bounded_upsert_def)
    then have res: "upsert_all c limit (ups @ [up]) st = Some ?st" by (simp add: up upsert_all_snoc IH(1))
    have len: "length (bt_insert k v rs) = length (?F @ [k])"
      using bt_length_insert [OF IH(3), of k v] known [of k] new IH(4) by auto
    have cnt: "filter (\<lambda>up. fst up \<notin> set (?F @ [k])) (ups @ [up]) = filter (\<lambda>up. fst up \<notin> set ?F) ups"
      using fresh by (auto simp: up intro!: filter_cong)
    have look: "\<forall>k'. bt_get (bt_insert k v rs) k' =
        (if k' \<in> set (?F @ [k]) then map_of (rev (ups @ [up])) k' else None)"
      using IH(5) new by (simp add: up)
    show ?thesis
      unfolding F by (rule kept_exactlyI [OF res _ bt_inv_insert [OF IH(3)] len look])
        (simp, simp only: cnt, use IH(6) in simp)
  next
    case refused
    then have F: "first_keys limit (map fst (ups @ [up])) = ?F"
      by (simp add: first_keys_snoc up)
    let ?n = "unwrap_or (bt_get (st_truncated st') c) 0"
    let ?st = "st'\<lparr>st_truncated := bt_insert c (?n + 1) (st_truncated st')\<rparr>"
    have "bounded_upsert c k v limit st' = Some ?st"
      using IH(2,4) known [of k] refused by (simp add: bounded_upsert_def unwrap_or_def)
    then have res: "upsert_all c limit (ups @ [up]) st = Some ?st" by (simp add: up upsert_all_snoc IH(1))
    have rest: "\<forall>k'. bt_get rs k' = (if k' \<in> set ?F then map_of (rev (ups @ [up])) k' else None)"
      using IH(5) refused by (auto simp: up)
    have cnt: "unwrap_or (bt_get (st_truncated ?st) c) 0 = length (filter (\<lambda>up. fst up \<notin> set ?F) (ups @ [up]))"
      using IH(6) refused by (simp add: up)
    show ?thesis
      unfolding F by (rule kept_exactlyI [OF res _ IH(3,4) rest cnt]) (use IH(2) in simp)
  qed
qed

section \<open>Selections\<close>

lemma select_names_get:
  "bt_get (select_names m names) c = (if c \<in> set names then bt_get m c else None)"
proof -
  have "bt_get (foldl (\<lambda>acc name. case bt_get m name of Some v \<Rightarrow> bt_insert name v acc | None \<Rightarrow> acc) acc names) c
    = (if c \<in> set names \<and> bt_get m c \<noteq> None then bt_get m c else bt_get acc c)" for acc
    by (induction names arbitrary: acc) (auto split: option.split)
  then show ?thesis by (auto simp: select_names_def)
qed

section \<open>What a session can reveal\<close>

text \<open>
  The payload entries the builder looks at, by event type. \<open>None\<close> stands for the facts of Works and
  workers, which go through their decoders whole.
\<close>

definition read_keys :: "OperatorEventType \<Rightarrow> string list option" where
  "read_keys t = (case t of
     WorkspacePrepared \<Rightarrow> Some [''repo_root'', ''worktree_path'', ''branch'', ''base_commit'']
   | WorkspaceReleased \<Rightarrow> Some [''repo_root'']
   | ApprovalRequested \<Rightarrow> Some [''request_id'', ''tool'', ''risk'', ''outcome'']
   | ApprovalDecided \<Rightarrow> Some [''request_id'', ''tool'', ''risk'', ''outcome'']
   | ToolCallStarted \<Rightarrow> Some [''name'', ''receipt_id'', ''artifact_ref'']
   | ToolCallCompleted \<Rightarrow> Some [''name'', ''status'', ''receipt_id'', ''artifact_ref'']
   | ArtifactCreated \<Rightarrow> Some [''artifact_id'', ''artifact_ref'', ''kind'', ''byte_len'']
   | TestResult \<Rightarrow> Some [''name'', ''status'']
   | ReceiptLinked \<Rightarrow> Some [''kind'', ''receipt_ref'', ''provider'', ''model'', ''cost_usd'']
   | Blocker \<Rightarrow> Some [''code'', ''reason'']
   | WorkCreated \<Rightarrow> None | WorkLinked \<Rightarrow> None
   | WorkerLaunched \<Rightarrow> None | WorkerHeartbeat \<Rightarrow> None | WorkerExited \<Rightarrow> None | WorkerStale \<Rightarrow> None
   | PaneOpened \<Rightarrow> None | PaneClosed \<Rightarrow> None
   | _ \<Rightarrow> Some [])"

definition restrict_value :: "string list \<Rightarrow> json \<Rightarrow> json" where
  "restrict_value ks v = (case v of JObject kvs \<Rightarrow> JObject (filter (\<lambda>kv. fst kv \<in> set ks) kvs) | _ \<Rightarrow> JNull)"

definition redact :: "CursorEvent \<Rightarrow> CursorEvent" where
  "redact row = row\<lparr>ce_event := (case read_keys (ev_event_type (ce_event row)) of
     None \<Rightarrow> ce_event row
   | Some ks \<Rightarrow> (ce_event row)\<lparr>ev_payload := restrict_value ks (ev_payload (ce_event row))\<rparr>)\<rparr>"

lemma restrict_value_get: "json_get (restrict_value ks v) k = (if k \<in> set ks then json_get v k else None)"
proof (cases v)
  case (JObject kvs)
  have "bt_get (filter (\<lambda>kv. fst kv \<in> set ks) kvs) k = (if k \<in> set ks then bt_get kvs k else None)"
    by (induction kvs) auto
  with JObject show ?thesis by (simp add: restrict_value_def json_get_def)
qed (simp_all add: restrict_value_def json_get_def)

lemma redact_simps [simp]:
  "ce_cursor (redact r) = ce_cursor r"
  "ev_event_type (ce_event (redact r)) = ev_event_type (ce_event r)"
  "ev_work_id (ce_event (redact r)) = ev_work_id (ce_event r)"
  "ev_run_id (ce_event (redact r)) = ev_run_id (ce_event r)"
  "ev_call_id (ce_event (redact r)) = ev_call_id (ce_event r)"
  "ev_turn_id (ce_event (redact r)) = ev_turn_id (ce_event r)"
  "ev_event_id (ce_event (redact r)) = ev_event_id (ce_event r)"
  "ev_thread_id (ce_event (redact r)) = ev_thread_id (ce_event r)"
  "ev_occurred_at (ce_event (redact r)) = ev_occurred_at (ce_event r)"
  by (simp_all add: redact_def split: option.split)

lemma redact_payload:
  "ev_payload (ce_event (redact r)) = (case read_keys (ev_event_type (ce_event r)) of
     None \<Rightarrow> ev_payload (ce_event r) | Some ks \<Rightarrow> restrict_value ks (ev_payload (ce_event r)))"
  by (simp add: redact_def split: option.split)

lemma redact_decoded:
  "read_keys (ev_event_type (ce_event r)) = None \<Longrightarrow> redact r = r"
  by (simp add: redact_def)

lemma project_event_redact: "project_event L (ce_event (redact r)) limit st = project_event L (ce_event r) limit st"
proof -
  have t: "project_thread (ce_event (redact r)) limit st = project_thread (ce_event r) limit st"
    unfolding project_thread_def thread_status_def redact_simps by (rule refl)
  show ?thesis unfolding project_event_def t
    by (cases "ev_event_type (ce_event r)")
      (simp_all add: project_defs Let_def redact_payload read_keys_def restrict_value_get str_of_def
        cong: option.case_cong)
qed

lemma fold_step_redact: "fold_step C p (ce_event (redact r)) = fold_step C p (ce_event r)"
proof (cases "read_keys (ev_event_type (ce_event r))")
  case (Some ks)
  then show ?thesis
    by (cases "ev_event_type (ce_event r)") (simp_all add: fold_step_def read_keys_def split: option.split)
qed (simp add: redact_decoded)

lemma work_step_redact: "work_step C w f (ce_event (redact r)) = work_step C w f (ce_event r)"
proof (cases "read_keys (ev_event_type (ce_event r))")
  case (Some ks)
  then show ?thesis
    by (cases "ev_event_type (ce_event r)") (simp_all add: work_step_def fold_apply_def read_keys_def)
qed (simp add: redact_decoded)

lemma foldl_map_same: "(\<And>a x. f a (g x) = f a (h x)) \<Longrightarrow> foldl f a (map g xs) = foldl f a (map h xs)"
  by (induction xs arbitrary: a) simp_all

lemma project_all_redact: "project_all L w limit (map redact rs) acc = project_all L w limit rs acc"
proof (induction rs arbitrary: acc)
  case (Cons r rs)
  then show ?case by (cases acc) (simp add: project_event_redact cong: Option.bind_cong)
qed simp

lemma folds_redact:
  "fold_work C (map ce_event (map redact rs)) = fold_work C (map ce_event rs)"
  "fold_runs W (map ce_event (map redact rs)) w = fold_runs W (map ce_event rs) w"
  unfolding fold_work_def fold_runs_def map_map comp_def
  by (simp_all add: foldl_map_same [where g = "\<lambda>r. ce_event (redact r)" and h = ce_event]
      fold_step_redact work_step_redact)

section \<open>Properties\<close>

text \<open>Building a session always returns: it is refused exactly for a Work the stream does not
  create, and otherwise carries the ten fixed collections, each within the configured bound, the
  cursor of the last row, and a revision that counts the Work's events (saturating).\<close>

theorem build_work_session_bounded:
  "\<exists>r. build_work_session L rs w opts = Some r \<and>
     (case projection_work (fold_work (lib_work_codec L) (map ce_event rs)) w of
        None \<Rightarrow> r = Inl (UnknownWork w)
      | Some work \<Rightarrow> \<exists>s. r = Inr s \<and> snap_work_id s = w \<and> snap_work_revision s = work_revision work \<and>
          map fst (snap_collections s) = sort COLLECTIONS \<and>
          (\<forall>c rows'. bt_get (snap_collections s) c = Some rows' \<longrightarrow> length rows' \<le> opt_collection_limit opts) \<and>
          fst ` set (snap_truncated_collections s) \<subseteq> set COLLECTIONS \<and>
          snap_operator_cursor s = (if rs = [] then None else Some (ce_cursor (last rs))) \<and>
          unat (snap_projection_revision s) = min (own_events w rs) (2 ^ 64 - 1))"
proof (cases "projection_work (fold_work (lib_work_codec L) (map ce_event rs)) w")
  case None
  then show ?thesis by (simp add: build_work_session_def)
next
  case (Some work)
  let ?n = "opt_collection_limit opts"
  obtain st1 where st1: "bounded_upsert ''work'' w (work_row work) ?n initial_state = Some st1" "state_ok ?n st1"
    using upsert_keeps [OF state_ok_initial known_collections(1), of ?n w "work_row work"]
    by (auto simp: keeps_def)
  obtain st2 where st2: "project_all L w ?n rs (0, st1) =
      Some (word_of_nat (min (own_events w rs) (2 ^ 64 - 1)), st2)" "state_ok ?n st2"
    using project_all_ok [OF st1(2), of L w rs 0] by auto
  obtain st3 where st3: "upsert_runs L ?n (fold_runs (lib_worker_codec L) (map ce_event rs) w) st2 = Some st3"
    "state_ok ?n st3"
    using upsert_runs_keeps [OF st2(2)] by (auto simp: keeps_def)
  have rev: "unat (word_of_nat (min (own_events w rs) (2 ^ 64 - 1)) :: u64) = min (own_events w rs) (2 ^ 64 - 1)"
    by (simp add: unsigned_of_nat take_bit_nat_eq_self)
  show ?thesis
    using Some st1(1) st2(1) st3 rev by (auto simp: build_work_session_def Let_def state_ok_def)
qed

definition demo_lib :: session_lib where
  "demo_lib = \<lparr>lib_work_codec = object_work_codec, lib_worker_codec = object_worker_codec,
     lib_row_to_value = (\<lambda>r. JString (row_run_id r)), lib_as_f64 = (\<lambda>v. None), lib_sha256 = (\<lambda>s. s)\<rparr>"

theorem build_work_session_bounded_witness:
  "\<exists>s. build_work_session demo_lib [\<lparr>ce_cursor = ''c1'', ce_event = demo_created\<rparr>] ''work-a''
       (options_new ''seed'' 3) = Some (Inr s) \<and> snap_operator_cursor s = Some ''c1'' \<and>
     map fst (snap_collections s) = sort COLLECTIONS \<and> snap_projection_revision s = 1"
proof -
  let ?rs = "[\<lparr>ce_cursor = ''c1'', ce_event = demo_created\<rparr>]"
  have own: "own_events ''work-a'' ?rs = 1"
    by (simp add: own_events_def demo_created_def work_created_event_def scoped_def)
  have lib: "lib_work_codec demo_lib = object_work_codec" by (simp add: demo_lib_def)
  show ?thesis
    using build_work_session_bounded [of demo_lib ?rs "''work-a''" "options_new ''seed'' 3"]
    unfolding own lib by (auto simp: demo_fold word_unat_eq_iff)
qed

text \<open>A bounded collection keeps exactly the first \<open>limit\<close> distinct keys it is given, each with the
  latest value written under it, and its truncation counter is the number of refused writes
  (several writes to one refused key are counted several times).\<close>

theorem bounded_upserts_keep_first:
  assumes "bt_get (st_collections st) c = Some []" and "bt_get (st_truncated st) c = None"
  shows "\<exists>st' rs. upsert_all c limit ups st = Some st' \<and> bt_get (st_collections st') c = Some rs \<and>
    length rs = length (first_keys limit (map fst ups)) \<and>
    (\<forall>k. bt_get rs k = (if k \<in> set (first_keys limit (map fst ups)) then map_of (rev ups) k else None)) \<and>
    unwrap_or (bt_get (st_truncated st') c) 0 =
      length (filter (\<lambda>up. fst up \<notin> set (first_keys limit (map fst ups))) ups)"
  using upsert_all_spec [OF assms, of limit ups] by (rule kept_exactlyE) blast

theorem bounded_upserts_keep_first_witness:
  "\<exists>st'. upsert_all ''tests'' 1 [(''a'', JNull), (''b'', JNull), (''b'', JNull)] initial_state = Some st' \<and>
     unwrap_or (bt_get (st_truncated st') ''tests'') 0 = 2"
proof -
  have init: "bt_get (st_collections initial_state) ''tests'' = Some []"
    "bt_get (st_truncated initial_state) ''tests'' = None"
    by (simp_all add: initial_state_def COLLECTIONS_def)
  have "first_keys 1 [''a'', ''b'', ''b''] = [''a'']" by (simp add: first_keys_def)
  with bounded_upserts_keep_first [OF init, of 1 "[(''a'', JNull), (''b'', JNull), (''b'', JNull)]"]
  show ?thesis by auto
qed

text \<open>A session reveals no more of the stream than it declares: building it from events whose
  payloads are cut down to the entries of \<open>read_keys\<close> (none at all for messages, turns and routes)
  gives the same session, so prompts, answers, tool arguments and outputs never reach it.\<close>

theorem session_reveals_only_read_keys:
  "build_work_session L (map redact rs) w opts = build_work_session L rs w opts"
proof -
  have cur: "(if map redact rs = [] then None else Some (ce_cursor (last (map redact rs)))) =
      (if rs = [] then None else Some (ce_cursor (last rs)))"
    by (simp add: last_map)
  show ?thesis
    unfolding build_work_session_def Let_def folds_redact project_all_redact cur by (rule refl)
qed

text \<open>A client applies a delta only if it is for its Work, from the same fold, based on exactly its
  revision and beyond it; every other delta asks for a resync and names the first reason that holds.\<close>

theorem accept_guards:
  "(accept cl d = Applied n \<longleftrightarrow> delta_work_id d = client_work_id cl \<and>
      delta_projection_epoch d = client_epoch cl \<and>
      delta_base_projection_revision d = client_projection_revision cl \<and>
      n = delta_projection_revision d \<and> unat (client_projection_revision cl) < unat n) \<and>
   (accept cl d = ResyncRequired WorkChanged \<longleftrightarrow> delta_work_id d \<noteq> client_work_id cl) \<and>
   (accept cl d = ResyncRequired EpochChanged \<longleftrightarrow>
      delta_work_id d = client_work_id cl \<and> delta_projection_epoch d \<noteq> client_epoch cl)"
  by (auto simp: accept_def word_less_nat_alt not_le word_le_nat_alt)

text \<open>The three surfaces never disagree: each view of a snapshot carries the snapshot's identity
  and the same client guard, and every collection it shows, with its truncation count, is the
  snapshot's own.\<close>

theorem surfaces_agree:
  "view_for s name = (if name \<in> set SURFACES then
      find (\<lambda>v. sv_surface v = name) (surfaces s) else None) \<and>
   (\<forall>v\<in>set (surfaces s). sv_identity v = SurfaceIdentity_of s \<and>
      SurfaceIdentity_client (sv_identity v) = from_snapshot s \<and>
      (\<exists>names. set names \<subseteq> set COLLECTIONS \<and>
        (\<forall>c. bt_get (sv_collections v) c = (if c \<in> set names then bt_get (snap_collections s) c else None) \<and>
             bt_get (sv_truncated_collections v) c =
               (if c \<in> set names then bt_get (snap_truncated_collections s) c else None))))"
proof -
  have names: "set home_names \<subseteq> set COLLECTIONS" "set work_names \<subseteq> set COLLECTIONS"
    "set agent_names \<subseteq> set COLLECTIONS"
    by (simp_all add: home_names_def work_names_def agent_names_def COLLECTIONS_def)
  have sel: "sv_identity (select_view s n ns) = SurfaceIdentity_of s \<and>
      SurfaceIdentity_client (sv_identity (select_view s n ns)) = from_snapshot s \<and>
      (\<exists>names. set names \<subseteq> set COLLECTIONS \<and>
        (\<forall>c. bt_get (sv_collections (select_view s n ns)) c = (if c \<in> set names then bt_get (snap_collections s) c else None) \<and>
             bt_get (sv_truncated_collections (select_view s n ns)) c =
               (if c \<in> set names then bt_get (snap_truncated_collections s) c else None)))"
    if "set ns \<subseteq> set COLLECTIONS" for n ns
    using that
    by (auto simp: select_view_def select_names_get SurfaceIdentity_client_def SurfaceIdentity_of_def
        from_snapshot_def intro!: exI [of _ ns])
  have v: "view_for s name = (if name \<in> set SURFACES then find (\<lambda>v. sv_surface v = name) (surfaces s) else None)"
    by (simp add: view_for_def SURFACES_def surfaces_def home_view_def work_view_def agent_view_def
        select_view_def)
  show ?thesis
  proof (rule conjI [OF v], rule ballI)
    fix v assume "v \<in> set (surfaces s)"
    then obtain n ns where v: "v = select_view s n ns" and ns: "set ns \<subseteq> set COLLECTIONS"
      using names by (auto simp: surfaces_def home_view_def work_view_def agent_view_def)
    show "sv_identity v = SurfaceIdentity_of s \<and>
      SurfaceIdentity_client (sv_identity v) = from_snapshot s \<and>
      (\<exists>names. set names \<subseteq> set COLLECTIONS \<and>
        (\<forall>c. bt_get (sv_collections v) c = (if c \<in> set names then bt_get (snap_collections s) c else None) \<and>
             bt_get (sv_truncated_collections v) c =
               (if c \<in> set names then bt_get (snap_truncated_collections s) c else None)))"
      unfolding v by (rule sel [OF ns])
  qed
qed

definition demo_snapshot :: WorkSessionSnapshotV1 where
  "demo_snapshot = \<lparr>snap_work_id = ''work-a'', snap_work_revision = 1,
     snap_projection_epoch = ProjectionEpoch ''00'', snap_projection_revision = 3,
     snap_operator_cursor = None, snap_source_watermarks = [],
     snap_collections = [(''tests'', []), (''work'', [(''work-a'', JNull)])],
     snap_truncated_collections = []\<rparr>"

theorem surfaces_agree_witness:
  "view_for demo_snapshot ''home'' = Some (home_view demo_snapshot) \<and>
   SurfaceIdentity_client (sv_identity (home_view demo_snapshot)) = from_snapshot demo_snapshot"
proof -
  have "home_view demo_snapshot \<in> set (surfaces demo_snapshot)" by (simp add: surfaces_def)
  from surfaces_agree [of demo_snapshot "''home''", THEN conjunct2, THEN bspec, OF this]
  have "SurfaceIdentity_client (sv_identity (home_view demo_snapshot)) = from_snapshot demo_snapshot"
    by blast
  then show ?thesis by (simp add: view_for_def)
qed
end
