(* ===== verification/Utf8.thy ===== *)
theory Utf8
  imports Rust_Str
begin

text \<open>
  UTF-8 as the standard library decodes it: one decoding step (the length of the character at
  the front, or of the longest prefix that could not be one), validity, and
  \<open>String::from_utf8_lossy\<close>, which writes U+FFFD for every ill-formed part.
\<close>

definition in_range :: "nat \<Rightarrow> nat \<Rightarrow> char \<Rightarrow> bool" where
  "in_range a b c \<longleftrightarrow> a \<le> byte c \<and> byte c \<le> b"

definition second_of_three :: "char \<Rightarrow> char \<Rightarrow> bool" where
  "second_of_three b c \<longleftrightarrow>
     byte b = 0xE0 \<and> in_range 0xA0 0xBF c \<or> in_range 0xE1 0xEC b \<and> in_range 0x80 0xBF c \<or>
     byte b = 0xED \<and> in_range 0x80 0x9F c \<or> in_range 0xEE 0xEF b \<and> in_range 0x80 0xBF c"

definition second_of_four :: "char \<Rightarrow> char \<Rightarrow> bool" where
  "second_of_four b c \<longleftrightarrow>
     byte b = 0xF0 \<and> in_range 0x90 0xBF c \<or> in_range 0xF1 0xF3 b \<and> in_range 0x80 0xBF c \<or>
     byte b = 0xF4 \<and> in_range 0x80 0x8F c"

text \<open>Whether \<open>s\<close> starts with a well-formed character, and how many bytes to take.\<close>

definition utf8_next :: "string \<Rightarrow> bool \<times> nat" where
  "utf8_next s =
     (case s of
        [] \<Rightarrow> (False, 0)
      | b # r \<Rightarrow>
          if byte b < 128 then (True, 1)
          else if in_range 0xC2 0xDF b then
            (case r of c # _ \<Rightarrow> if is_continuation c then (True, 2) else (False, 1) | [] \<Rightarrow> (False, 1))
          else if in_range 0xE0 0xEF b then
            (case r of
               c # d # _ \<Rightarrow> if \<not> second_of_three b c then (False, 1)
                            else if is_continuation d then (True, 3) else (False, 2)
             | [c] \<Rightarrow> (False, if second_of_three b c then 2 else 1)
             | [] \<Rightarrow> (False, 1))
          else if in_range 0xF0 0xF4 b then
            (case r of
               c # d # e # _ \<Rightarrow> if \<not> second_of_four b c then (False, 1)
                                else if \<not> is_continuation d then (False, 2)
                                else if is_continuation e then (True, 4) else (False, 3)
             | [c, d] \<Rightarrow> (False, if \<not> second_of_four b c then 1 else if is_continuation d then 3 else 2)
             | [c] \<Rightarrow> (False, if second_of_four b c then 2 else 1)
             | [] \<Rightarrow> (False, 1))
          else (False, 1))"

lemma utf8_next_pos: "s \<noteq> [] \<Longrightarrow> 0 < snd (utf8_next s)"
  by (auto simp: utf8_next_def split: list.split)

lemma utf8_next_le: "snd (utf8_next s) \<le> length s"
  by (auto simp: utf8_next_def split: list.split)

definition replacement :: string where
  "replacement = [CHR 0xEF, CHR 0xBF, CHR 0xBD]"

function from_utf8_lossy :: "string \<Rightarrow> string" where
  "from_utf8_lossy s =
     (if s = [] then []
      else (if fst (utf8_next s) then take (snd (utf8_next s)) s else replacement) @
           from_utf8_lossy (drop (snd (utf8_next s)) s))"
  by pat_completeness auto
termination
  by (relation "measure length") (use utf8_next_pos in auto)

function valid_utf8 :: "string \<Rightarrow> bool" where
  "valid_utf8 s =
     (if s = [] then True
      else if fst (utf8_next s) then valid_utf8 (drop (snd (utf8_next s)) s) else False)"
  by pat_completeness auto
termination
  by (relation "measure length") (use utf8_next_pos in auto)

declare from_utf8_lossy.simps [simp del] valid_utf8.simps [simp del]

lemma lossy_of_valid: "valid_utf8 s \<Longrightarrow> from_utf8_lossy s = s"
proof (induction s rule: valid_utf8.induct)
  case (1 s)
  show ?case
  proof (cases "s = []")
    case False
    with "1.prems" have "fst (utf8_next s)" "valid_utf8 (drop (snd (utf8_next s)) s)"
      using valid_utf8.simps [of s] by (auto split: if_splits)
    with 1 False show ?thesis by (subst from_utf8_lossy.simps) simp
  qed (simp add: from_utf8_lossy.simps)
qed

lemma utf8_next_append:
  assumes "fst (utf8_next a)" shows "utf8_next (a @ b) = utf8_next a"
proof -
  consider "a = []" | c where "a = [c]" | c d where "a = [c, d]" | c d e where "a = [c, d, e]"
    | c d e f r where "a = c # d # e # f # r" by (metis list.exhaust)
  then show ?thesis by cases (use assms in \<open>simp_all add: utf8_next_def split: if_splits\<close>)
qed

lemma valid_utf8_append: "valid_utf8 a \<Longrightarrow> valid_utf8 b \<Longrightarrow> valid_utf8 (a @ b)"
proof (induction a rule: valid_utf8.induct)
  case (1 a)
  show ?case
  proof (cases "a = []")
    case False
    then have first: "fst (utf8_next a)" and rest: "valid_utf8 (drop (snd (utf8_next a)) a)"
      using valid_utf8.simps [of a] "1.prems"(1) by (auto split: if_splits)
    have "drop (snd (utf8_next a)) (a @ b) = drop (snd (utf8_next a)) a @ b" using utf8_next_le [of a] by simp
    then show ?thesis
      using "1.IH" [OF False first rest "1.prems"(2)] first False
      by (subst valid_utf8.simps) (simp add: utf8_next_append)
  qed (use "1.prems"(2) in simp)
qed

lemma valid_of_ascii: "\<forall>c\<in>set s. byte c < 128 \<Longrightarrow> valid_utf8 s"
proof (induction s)
  case (Cons c s)
  then have "utf8_next (c # s) = (True, 1)" by (simp add: utf8_next_def)
  with Cons show ?case by (subst valid_utf8.simps) simp
qed (simp add: valid_utf8.simps)

end
