(* ===== verification/Wire.thy ===== *)
theory Wire
  imports Json Utf8
begin

text \<open>
  \<open>serde_json\<close>'s text format is not part of the program: the theories take its printer and parser
  as parameters and rely on the laws of the locale \<open>json_text\<close>: parsing a printed value gives it
  back, and printed values are non-empty, contain no line feed, and are well-formed UTF-8. The
  functions \<open>wire\<close> and \<open>unwire\<close> are one concrete pair with these laws: a bracketed prefix
  notation with strings and numbers in hexadecimal.
\<close>

section \<open>The interface\<close>

locale json_text =
  fixes to_text :: "json \<Rightarrow> string" and of_text :: "string \<Rightarrow> json option"
  assumes of_to_text: "of_text (to_text v) = Some v"
    and text_not_empty: "to_text v \<noteq> []"
    and text_one_line: "NL \<notin> set (to_text v)"
    and text_utf8: "valid_utf8 (to_text v)"
begin

lemma to_text_inject: "to_text v = to_text w \<longleftrightarrow> v = w"
  using of_to_text by (metis option.inject)

end

section \<open>A concrete format\<close>

definition nibbles :: "nat list" where "nibbles = [0..<16]"

definition hex_val :: "char \<Rightarrow> nat option" where
  "hex_val c = find (\<lambda>n. hex_digit n = c) nibbles"

fun wire_string :: "string \<Rightarrow> string" where
  "wire_string [] = '';''"
| "wire_string (c # s) = hex_byte c @ wire_string s"

fun unwire_string :: "string \<Rightarrow> (string \<times> string) option" where
  "unwire_string (a # b # s) =
     (if a = CHR '';'' then Some ([], b # s)
      else (case (hex_val a, hex_val b) of
        (Some x, Some y) \<Rightarrow> map_option (\<lambda>(t, r). (char_of (x * 16 + y) # t, r)) (unwire_string s)
      | _ \<Rightarrow> None))"
| "unwire_string [a] = (if a = CHR '';'' then Some ([], []) else None)"
| "unwire_string [] = None"

text \<open>A word as its bits, least significant first.\<close>

definition word_bytes :: "u64 \<Rightarrow> string" where
  "word_bytes w = map (\<lambda>i. if bit w i then CHR ''1'' else CHR ''0'') [0..<64]"

definition bytes_word :: "string \<Rightarrow> u64" where
  "bytes_word s = horner_sum of_bool 2 (map (\<lambda>c. c = CHR ''1'') s)"

fun wire_number :: "json_number \<Rightarrow> string" where
  "wire_number (PosInt w) = CHR ''p'' # wire_string (word_bytes w)"
| "wire_number (NegInt w) = CHR ''m'' # wire_string (word_bytes w)"
| "wire_number (Float w) = CHR ''d'' # wire_string (word_bytes w)"

fun wire :: "json \<Rightarrow> string" where
  "wire JNull = ''n''"
| "wire (JBool b) = (if b then ''t'' else ''f'')"
| "wire (JNumber n) = wire_number n"
| "wire (JString s) = CHR ''s'' # wire_string s"
| "wire (JArray vs) = CHR ''['' # concat (map wire vs) @ '']''"
| "wire (JObject kvs) = CHR ''{'' # concat (map (\<lambda>kv. CHR '':'' # wire_string (fst kv) @ wire (snd kv)) kvs) @ ''}''"

text \<open>The parser reads one value and returns the rest; its fuel bounds the number of nested calls.\<close>

fun unwire_value :: "nat \<Rightarrow> string \<Rightarrow> (json \<times> string) option"
  and unwire_list :: "nat \<Rightarrow> string \<Rightarrow> (json list \<times> string) option"
  and unwire_entries :: "nat \<Rightarrow> string \<Rightarrow> ((string \<times> json) list \<times> string) option" where
  "unwire_value 0 s = None"
| "unwire_value (Suc n) s = (case s of
     [] \<Rightarrow> None
   | c # r \<Rightarrow>
       if c = CHR ''n'' then Some (JNull, r)
       else if c = CHR ''t'' then Some (JBool True, r)
       else if c = CHR ''f'' then Some (JBool False, r)
       else if c = CHR ''p'' then map_option (\<lambda>(t, r). (JNumber (PosInt (bytes_word t)), r)) (unwire_string r)
       else if c = CHR ''m'' then map_option (\<lambda>(t, r). (JNumber (NegInt (bytes_word t)), r)) (unwire_string r)
       else if c = CHR ''d'' then map_option (\<lambda>(t, r). (JNumber (Float (bytes_word t)), r)) (unwire_string r)
       else if c = CHR ''s'' then map_option (\<lambda>(t, r). (JString t, r)) (unwire_string r)
       else if c = CHR ''['' then map_option (\<lambda>(vs, r). (JArray vs, r)) (unwire_list n r)
       else if c = CHR ''{'' then map_option (\<lambda>(kvs, r). (JObject kvs, r)) (unwire_entries n r)
       else None)"
| "unwire_list 0 s = None"
| "unwire_list (Suc n) s = (case s of
     [] \<Rightarrow> None
   | c # r \<Rightarrow>
       if c = CHR '']'' then Some ([], r)
       else (case unwire_value n s of
               None \<Rightarrow> None
             | Some (v, r') \<Rightarrow> map_option (\<lambda>(vs, q). (v # vs, q)) (unwire_list n r')))"
| "unwire_entries 0 s = None"
| "unwire_entries (Suc n) s = (case s of
     [] \<Rightarrow> None
   | c # r \<Rightarrow>
       if c = CHR ''}'' then Some ([], r)
       else if c = CHR '':'' then
         (case unwire_string r of
            None \<Rightarrow> None
          | Some (k, r1) \<Rightarrow>
              (case unwire_value n r1 of
                 None \<Rightarrow> None
               | Some (v, r2) \<Rightarrow> map_option (\<lambda>(kvs, q). ((k, v) # kvs, q)) (unwire_entries n r2)))
       else None)"

definition unwire :: "string \<Rightarrow> json option" where
  "unwire s = (case unwire_value (Suc (length s)) s of Some (v, []) \<Rightarrow> Some v | _ \<Rightarrow> None)"

section \<open>The concrete format has the laws\<close>

lemma hex_digit_cases: "n < 16 \<Longrightarrow> hex_digit n \<in> set ''0123456789abcdef''"
  unfolding hex_digit_def by (rule nth_mem) simp

lemma hex_val_digit: "n < 16 \<Longrightarrow> hex_val (hex_digit n) = Some n"
proof -
  assume "n < 16"
  then have "n \<in> set nibbles" by (simp add: nibbles_def)
  moreover have "\<forall>m\<in>set nibbles. hex_val (hex_digit m) = Some m"
    by (simp add: nibbles_def hex_val_def hex_digit_def upt_rec numeral_eq_Suc)
  ultimately show ?thesis by blast
qed

lemma hex_byte_char: "char_of (byte c div 16 * 16 + byte c mod 16) = (c :: char)"
  by simp

lemma hex_digit_not_semi: "n < 16 \<Longrightarrow> hex_digit n \<noteq> CHR '';''"
  using hex_digit_cases by force

lemma unwire_wire_string: "unwire_string (wire_string s @ r) = Some (s, r)"
proof (induction s)
  case Nil
  then show ?case by (cases r) simp_all
next
  case (Cons c s)
  have b: "byte c < 256" by (rule nat_of_char_less_256)
  have "byte c div 16 < 16" using b by (intro less_mult_imp_div_less) simp
  moreover have "byte c mod 16 < 16" by simp
  ultimately show ?case using Cons
    by (simp add: hex_byte_def hex_val_digit hex_digit_not_semi)
qed

lemma bytes_word_bytes [simp]: "bytes_word (word_bytes w) = w"
proof -
  have "map (\<lambda>c. c = CHR ''1'') (word_bytes w) = map (bit w) [0..<64]"
    by (simp add: word_bytes_def comp_def)
  then show ?thesis by (simp add: bytes_word_def horner_sum_bit_eq_take_bit take_bit_word_eq_self)
qed

lemma wire_number_head: "hd (wire_number x) \<noteq> CHR '']'' \<and> 0 < length (wire_number x)"
  by (cases x) simp_all

lemma wire_pos: "0 < length (wire v)"
  using wire_number_head by (cases v) simp_all

lemma wire_head: "hd (wire v) \<noteq> CHR '']''"
  using wire_number_head by (cases v) simp_all

lemma unwire_list_wire:
  assumes "\<And>v n r. v \<in> set vs \<Longrightarrow> length (wire v) \<le> n \<Longrightarrow> unwire_value n (wire v @ r) = Some (v, r)"
    and "length (concat (map wire vs)) < n"
  shows "unwire_list n (concat (map wire vs) @ CHR '']'' # r) = Some (vs, r)"
  using assms
proof (induction vs arbitrary: n)
  case Nil
  then show ?case by (cases n) simp_all
next
  case (Cons v vs)
  obtain m where n: "n = Suc m" using Cons.prems(2) by (cases n) auto
  have "length (wire v) + length (concat (map wire vs)) < Suc m" using Cons.prems(2) by (simp add: n)
  then have len: "length (wire v) \<le> m" "length (concat (map wire vs)) < m"
    using wire_pos [of v] by linarith+
  let ?t = "concat (map wire vs) @ CHR '']'' # r"
  have v: "unwire_value m (wire v @ ?t) = Some (v, ?t)" using Cons.prems(1) len(1) by simp
  have vs: "unwire_list m ?t = Some (vs, r)" using Cons.IH [OF Cons.prems(1) len(2)] by simp
  obtain c w where c: "wire v = c # w" using wire_pos [of v] by (cases "wire v") auto
  have "c \<noteq> CHR '']''" using wire_head [of v] c by simp
  then show ?case using v vs by (simp add: n c)
qed

lemma unwire_entries_wire:
  assumes "\<And>kv n r. kv \<in> set kvs \<Longrightarrow> length (wire (snd kv)) \<le> n \<Longrightarrow>
      unwire_value n (wire (snd kv) @ r) = Some (snd kv, r)"
    and "length (concat (map (\<lambda>kv. CHR '':'' # wire_string (fst kv) @ wire (snd kv)) kvs)) < n"
  shows "unwire_entries n (concat (map (\<lambda>kv. CHR '':'' # wire_string (fst kv) @ wire (snd kv)) kvs)
      @ CHR ''}'' # r) = Some (kvs, r)"
  using assms
proof (induction kvs arbitrary: n)
  case Nil
  then show ?case by (cases n) simp_all
next
  case (Cons kv kvs)
  obtain m where n: "n = Suc m" using Cons.prems(2) by (cases n) auto
  let ?e = "concat (map (\<lambda>kv. CHR '':'' # wire_string (fst kv) @ wire (snd kv)) kvs)"
  have len: "length (wire (snd kv)) \<le> m" "length ?e < m"
    using Cons.prems(2) by (simp_all add: n)
  have v: "unwire_value m (wire (snd kv) @ ?e @ CHR ''}'' # r) = Some (snd kv, ?e @ CHR ''}'' # r)"
    using Cons.prems(1) len(1) by simp
  have e: "unwire_entries m (?e @ CHR ''}'' # r) = Some (kvs, r)"
    using Cons.IH [OF Cons.prems(1) len(2)] by simp
  show ?case using v e by (simp add: n unwire_wire_string)
qed

lemma unwire_value_wire: "length (wire v) \<le> n \<Longrightarrow> unwire_value n (wire v @ r) = Some (v, r)"
proof (induction v arbitrary: n r)
  case (JNumber x)
  then show ?case by (cases n; cases x) (simp_all add: unwire_wire_string)
next
  case (JString s)
  then show ?case by (cases n) (simp_all add: unwire_wire_string)
next
  case (JArray vs)
  obtain m where n: "n = Suc m" using JArray.prems by (cases n) auto
  have "length (concat (map wire vs)) < m" using JArray.prems n by simp
  from unwire_list_wire [OF JArray.IH this] show ?case by (simp add: n)
next
  case (JObject kvs)
  obtain m where n: "n = Suc m" using JObject.prems by (cases n) auto
  have "length (concat (map (\<lambda>kv. CHR '':'' # wire_string (fst kv) @ wire (snd kv)) kvs)) < m"
    using JObject.prems n by simp
  moreover have "unwire_value n (wire (snd kv) @ r) = Some (snd kv, r)"
    if "kv \<in> set kvs" "length (wire (snd kv)) \<le> n" for kv n r
    using JObject.IH [OF that(1), of "snd kv"] that(2) by (simp add: snds.simps)
  ultimately show ?case using unwire_entries_wire [of kvs m r] by (simp add: n)
next
  case (JBool b)
  then show ?case by (cases n) (auto split: if_splits)
qed (case_tac n; simp)+

definition wire_alphabet :: string where
  "wire_alphabet = ''0123456789abcdef;nftpmds[]{}:''"

lemma wire_string_alphabet: "set (wire_string s) \<subseteq> set wire_alphabet"
proof (induction s)
  case (Cons c s)
  have b: "byte c < 256" by (rule nat_of_char_less_256)
  have "byte c div 16 < 16" using b by (intro less_mult_imp_div_less) simp
  moreover have "byte c mod 16 < 16" by simp
  ultimately have "set (hex_byte c) \<subseteq> set ''0123456789abcdef''"
    using hex_digit_cases by (simp add: hex_byte_def)
  also have "\<dots> \<subseteq> set wire_alphabet" by (simp add: wire_alphabet_def)
  finally show ?case using Cons by simp
qed (simp add: wire_alphabet_def)

lemma wire_alphabet_in: "set (wire v) \<subseteq> set wire_alphabet"
proof (induction v)
  case (JNumber x)
  then show ?case
    using wire_string_alphabet by (cases x) (auto simp: wire_alphabet_def)
next
  case (JString s)
  then show ?case using wire_string_alphabet [of s] by (auto simp: wire_alphabet_def)
next
  case (JArray vs)
  have "set (concat (map wire vs)) \<subseteq> set wire_alphabet" using JArray by fastforce
  then show ?case by (auto simp: wire_alphabet_def)
next
  case (JObject kvs)
  have "set (CHR '':'' # wire_string (fst kv) @ wire (snd kv)) \<subseteq> set wire_alphabet" if "kv \<in> set kvs" for kv
    using JObject [OF that, of "snd kv"] wire_string_alphabet [of "fst kv"]
    by (auto simp: wire_alphabet_def snds.simps)
  then have "set (concat (map (\<lambda>kv. CHR '':'' # wire_string (fst kv) @ wire (snd kv)) kvs)) \<subseteq> set wire_alphabet"
    unfolding set_concat set_map by blast
  then show ?case by (auto simp: wire_alphabet_def)
qed (auto simp: wire_alphabet_def)

interpretation wire_text: json_text wire unwire
proof
  fix v
  show "unwire (wire v) = Some v"
    using unwire_value_wire [of v "Suc (length (wire v))" "[]"] by (simp add: unwire_def)
  show "wire v \<noteq> []" using wire_pos [of v] by auto
  show "NL \<notin> set (wire v)" using wire_alphabet_in [of v] by (auto simp: wire_alphabet_def)
  show "valid_utf8 (wire v)"
  proof (rule valid_of_ascii)
    have "\<forall>c\<in>set wire_alphabet. byte c < 128" by (simp add: wire_alphabet_def)
    then show "\<forall>c\<in>set (wire v). byte c < 128" using wire_alphabet_in [of v] by blast
  qed
qed

end
