(* ===== verification/Evidence.thy ===== *)
theory Evidence
  imports Wire
begin

text \<open>
  The evidence journal: \<open>crates/heiwa_evidence/src/records.rs\<close> (the persisted worker sessions and
  leases), \<open>journal.rs\<close> (appending an envelope to a stream, and the atomic acquisition of a
  capability), \<open>replay.rs\<close> (reading a stream back, damage counted), \<open>state.rs\<close> (the worker view,
  restart recovery, compaction), and the writer lease of \<open>crates/heiwa_workspace/src/lease.rs\<close>.

  A directory of streams is a map from a kind to the bytes of \<open><kind>.jsonl\<close>. The stream lock is
  held for the whole of each operation, so an operation is one step on this map; a crash may cut
  an append anywhere, which is a file whose last line has no line feed. I/O errors and a poisoned
  mutex are not modelled. The parameters in \<open>evidence_lib\<close> are \<open>serde_json\<close>'s printer and parsers,
  the derived (de)serialisers, and the RFC 3339 parser (an instant, as an integer). \<open>now_ms\<close> is a
  clock: the value of the i-th call. The iteration order of a \<open>HashMap\<close> is a permutation \<open>perm\<close>.
\<close>

section \<open>Records\<close>

record PersistedWorkerSession =
  ps_session_id :: string
  ps_node_id :: string
  ps_instance_id :: string
  ps_runtime :: string
  ps_runtime_version :: string
  ps_worker_version :: string
  ps_protocol :: string
  ps_capabilities_json :: string
  ps_metadata_json :: string
  ps_max_concurrency :: u64
  ps_active_tasks :: u32
  ps_status :: string
  ps_load :: u64
  ps_created_at :: string
  ps_updated_at :: string
  ps_expires_at :: string
  ps_last_seen_at :: string
  ps_closed_at :: "string option"
  ps_current_task_id :: "string option"
  ps_lease_id :: "string option"

record PersistedWorkerLease =
  pl_lease_id :: string
  pl_task_id :: string
  pl_session_id :: string
  pl_node_id :: string
  pl_capability :: string
  pl_status :: string
  pl_issued_at :: string
  pl_updated_at :: string
  pl_expires_at :: string
  pl_acked_at :: "string option"
  pl_completed_at :: "string option"
  pl_failure_code :: "string option"
  pl_reason :: "string option"

record evidence_lib =
  el_to_text :: "json \<Rightarrow> string"
  el_of_text :: "string \<Rightarrow> json option"
  el_of_slice :: "string \<Rightarrow> json option"
  el_lease_to_value :: "PersistedWorkerLease \<Rightarrow> json"
  el_lease_of_value :: "json \<Rightarrow> PersistedWorkerLease option"
  el_session_to_value :: "PersistedWorkerSession \<Rightarrow> json"
  el_session_of_value :: "json \<Rightarrow> PersistedWorkerSession option"
  el_parse_time :: "string \<Rightarrow> int option"

definition EVIDENCE_SCHEMA_VERSION :: u32 where "EVIDENCE_SCHEMA_VERSION = 1"

section \<open>Appending\<close>

type_synonym streams = "string \<Rightarrow> string option"

definition envelope_text :: "evidence_lib \<Rightarrow> u64 \<Rightarrow> string \<Rightarrow> json \<Rightarrow> string" where
  "envelope_text L now_ms kind rec =
     el_to_text L (JObject [(''at_ms'', JNumber (PosInt now_ms)), (''kind'', JString kind), (''record'', rec),
       (''v'', write_u32 EVIDENCE_SCHEMA_VERSION)])"

definition encoded_record :: "evidence_lib \<Rightarrow> u64 \<Rightarrow> string \<Rightarrow> json \<Rightarrow> string" where
  "encoded_record L now_ms kind rec = envelope_text L now_ms kind rec @ [NL]"

definition append_locked :: "evidence_lib \<Rightarrow> u64 \<Rightarrow> string \<Rightarrow> json \<Rightarrow> streams \<Rightarrow> streams" where
  "append_locked L now_ms kind rec fs =
     fs(kind \<mapsto> unwrap_or (fs kind) [] @ encoded_record L now_ms kind rec)"

section \<open>Replay\<close>

record EvidenceEvent =
  ee_v :: u32
  ee_at_ms :: u64
  ee_kind :: string
  ee_record :: json

record ReplayedStream =
  rp_events :: "EvidenceEvent list"
  rp_skipped_lines :: nat

definition empty_replay :: ReplayedStream where
  "empty_replay = \<lparr>rp_events = [], rp_skipped_lines = 0\<rparr>"

definition parse_event :: "json \<Rightarrow> EvidenceEvent option" where
  "parse_event value =
     (case value of
        JObject object \<Rightarrow>
          Option.bind (Option.bind (map_of object ''kind'') as_str) (\<lambda>kind.
          Option.bind (map_of object ''record'') (\<lambda>rec.
            Some \<lparr>ee_v = ucast (unwrap_or (Option.bind (map_of object ''v'') as_u64) 0),
                  ee_at_ms = unwrap_or (Option.bind (map_of object ''at_ms'') as_u64) 0,
                  ee_kind = kind, ee_record = rec\<rparr>))
      | _ \<Rightarrow> None)"

definition chunks :: "string \<Rightarrow> string list" where
  "chunks raw = filter (\<lambda>chunk. chunk \<noteq> []) (split_on (\<lambda>c. c = NL) raw)"

definition parse_line :: "evidence_lib \<Rightarrow> string \<Rightarrow> EvidenceEvent option" where
  "parse_line L chunk = Option.bind (el_of_text L (from_utf8_lossy chunk)) parse_event"

definition replay_step :: "evidence_lib \<Rightarrow> ReplayedStream \<Rightarrow> string \<Rightarrow> ReplayedStream" where
  "replay_step L stream chunk =
     (case parse_line L chunk of
        Some event \<Rightarrow> stream\<lparr>rp_events := rp_events stream @ [event]\<rparr>
      | None \<Rightarrow> stream\<lparr>rp_skipped_lines := rp_skipped_lines stream + 1\<rparr>)"

definition read_stream :: "evidence_lib \<Rightarrow> streams \<Rightarrow> string \<Rightarrow> ReplayedStream" where
  "read_stream L fs kind =
     (case fs kind of
        None \<Rightarrow> empty_replay
      | Some raw \<Rightarrow> foldl (replay_step L) empty_replay (chunks raw))"

record StreamSummary =
  ss_kind :: string
  ss_events :: nat
  ss_skipped_lines :: nat

text \<open>\<open>journal_summary\<close> over the names of the directory's files; entries that are not UTF-8 were left out.\<close>

definition stream_kind :: "string \<Rightarrow> string option" where
  "stream_kind name =
     (if prefix ''.'' name then None
      else if suffix ''.jsonl'' name then Some (take (length name - 6) name) else None)"

definition journal_summary :: "evidence_lib \<Rightarrow> streams \<Rightarrow> string list \<Rightarrow> StreamSummary list" where
  "journal_summary L fs names =
     map (\<lambda>kind. let stream = read_stream L fs kind in
       \<lparr>ss_kind = kind, ss_events = length (rp_events stream), ss_skipped_lines = rp_skipped_lines stream\<rparr>)
       (sort (List.map_filter stream_kind names))"

section \<open>Acquiring a capability\<close>

datatype acquire_error =
    NotAcquirable string
  | InvalidIssuedAt
  | InvalidExpiresAt
  | ExpiresNotLater
  | DamagedStream nat
  | InvalidLiveExpiry string

definition lease_live :: "PersistedWorkerLease \<Rightarrow> bool" where
  "lease_live lease \<longleftrightarrow> pl_status lease = ''issued'' \<or> pl_status lease = ''acked''"

definition insert_lease ::
    "evidence_lib \<Rightarrow> (string, PersistedWorkerLease) btree \<Rightarrow> EvidenceEvent \<Rightarrow>
      (string, PersistedWorkerLease) btree" where
  "insert_lease L latest event =
     (case el_lease_of_value L (ee_record event) of
        Some persisted \<Rightarrow> bt_insert (pl_lease_id persisted) persisted latest
      | None \<Rightarrow> latest)"

definition latest_leases :: "evidence_lib \<Rightarrow> EvidenceEvent list \<Rightarrow> (string, PersistedWorkerLease) btree" where
  "latest_leases L events = foldl (insert_lease L) [] events"

text \<open>The loop over the live candidates: an error, a holder, or the expired ones collected so far.\<close>

fun scan_candidates ::
    "evidence_lib \<Rightarrow> int \<Rightarrow> PersistedWorkerLease list \<Rightarrow> PersistedWorkerLease list \<Rightarrow>
      acquire_error + PersistedWorkerLease option \<times> PersistedWorkerLease list" where
  "scan_candidates L acquired_at [] expired = Inr (None, expired)"
| "scan_candidates L acquired_at (candidate # rest) expired =
     (case el_parse_time L (pl_expires_at candidate) of
        None \<Rightarrow> Inl (InvalidLiveExpiry (pl_lease_id candidate))
      | Some expires_at \<Rightarrow>
          if expires_at > acquired_at then Inr (Some candidate, expired)
          else scan_candidates L acquired_at rest (expired @ [candidate]))"

definition expire_lease :: "PersistedWorkerLease \<Rightarrow> PersistedWorkerLease \<Rightarrow> PersistedWorkerLease" where
  "expire_lease lease stale =
     stale\<lparr>pl_status := ''expired'', pl_updated_at := pl_issued_at lease,
       pl_completed_at := Some (pl_issued_at lease), pl_failure_code := Some ''LEASE_EXPIRED'',
       pl_reason := Some ''lease expired before successor acquisition''\<rparr>"

fun append_leases ::
    "evidence_lib \<Rightarrow> (nat \<Rightarrow> u64) \<Rightarrow> nat \<Rightarrow> PersistedWorkerLease list \<Rightarrow> streams \<Rightarrow> streams" where
  "append_leases L clock i [] fs = fs"
| "append_leases L clock i (l # ls) fs =
     append_leases L clock (Suc i) ls
       (append_locked L (clock i) ''worker_leases'' (el_lease_to_value L l) fs)"

definition try_acquire_worker_lease ::
    "evidence_lib \<Rightarrow> (PersistedWorkerLease list \<Rightarrow> PersistedWorkerLease list) \<Rightarrow> (nat \<Rightarrow> u64) \<Rightarrow>
      PersistedWorkerLease \<Rightarrow> streams \<Rightarrow> (acquire_error + PersistedWorkerLease option) \<times> streams" where
  "try_acquire_worker_lease L perm clock lease fs =
     (if \<not> lease_live lease then (Inl (NotAcquirable (pl_status lease)), fs)
      else case el_parse_time L (pl_issued_at lease) of
        None \<Rightarrow> (Inl InvalidIssuedAt, fs)
      | Some acquired_at \<Rightarrow>
        (case el_parse_time L (pl_expires_at lease) of
           None \<Rightarrow> (Inl InvalidExpiresAt, fs)
         | Some candidate_expires_at \<Rightarrow>
             if candidate_expires_at \<le> acquired_at then (Inl ExpiresNotLater, fs)
             else
               let replay = read_stream L fs ''worker_leases'' in
               if rp_skipped_lines replay > 0 then (Inl (DamagedStream (rp_skipped_lines replay)), fs)
               else
                 let latest = latest_leases L (rp_events replay);
                     candidates = filter (\<lambda>c. pl_capability c = pl_capability lease \<and> lease_live c)
                       (perm (map snd latest)) in
                 (case scan_candidates L acquired_at candidates [] of
                    Inl err \<Rightarrow> (Inl err, fs)
                  | Inr (Some holder, _) \<Rightarrow> (Inr (Some holder), fs)
                  | Inr (None, expired) \<Rightarrow>
                      (Inr None,
                       append_leases L clock 0 (map (expire_lease lease) expired @ [lease]) fs))))"

section \<open>The worker view and restart recovery\<close>

record WorkerStateView =
  view_sessions :: "(string, PersistedWorkerSession) btree"
  view_leases :: "(string, PersistedWorkerLease) btree"
  view_skipped_lines :: nat

text \<open>The loop over the session stream also remembers when each session was last written.\<close>

fun session_step ::
    "evidence_lib \<Rightarrow> WorkerStateView \<times> (string, u64) btree \<Rightarrow> EvidenceEvent \<Rightarrow>
      WorkerStateView \<times> (string, u64) btree" where
  "session_step L (view, last_at) event =
     (case el_session_of_value L (ee_record event) of
        Some session \<Rightarrow>
          (view\<lparr>view_sessions := bt_insert (ps_session_id session) session (view_sessions view)\<rparr>,
           bt_insert (ps_session_id session) (ee_at_ms event) last_at)
      | None \<Rightarrow> (view\<lparr>view_skipped_lines := view_skipped_lines view + 1\<rparr>, last_at))"

definition lease_step :: "evidence_lib \<Rightarrow> WorkerStateView \<Rightarrow> EvidenceEvent \<Rightarrow> WorkerStateView" where
  "lease_step L view event =
     (case el_lease_of_value L (ee_record event) of
        Some lease \<Rightarrow> view\<lparr>view_leases := bt_insert (pl_lease_id lease) lease (view_leases view)\<rparr>
      | None \<Rightarrow> view\<lparr>view_skipped_lines := view_skipped_lines view + 1\<rparr>)"

definition close_session_row :: "PersistedWorkerSession \<Rightarrow> PersistedWorkerSession" where
  "close_session_row session =
     (let closed = session\<lparr>ps_status := ''closed''\<rparr> in
      if ps_closed_at closed = None then closed\<lparr>ps_closed_at := Some (ps_last_seen_at closed)\<rparr>
      else closed)"

definition close_step :: "(string, u64) btree \<Rightarrow> WorkerStateView \<Rightarrow> EvidenceEvent \<Rightarrow> WorkerStateView" where
  "close_step last_at view event =
     (case Option.bind (json_get (ee_record event) ''session_id'') as_str of
        None \<Rightarrow> view\<lparr>view_skipped_lines := view_skipped_lines view + 1\<rparr>
      | Some session_id \<Rightarrow>
          if ee_at_ms event < unwrap_or (bt_get last_at session_id) 0 then view
          else (case bt_get (view_sessions view) session_id of
                  None \<Rightarrow> view
                | Some session \<Rightarrow>
                    view\<lparr>view_sessions :=
                      bt_insert session_id (close_session_row session) (view_sessions view)\<rparr>))"

definition add_skipped :: "nat \<Rightarrow> WorkerStateView \<Rightarrow> WorkerStateView" where
  "add_skipped n view = view\<lparr>view_skipped_lines := view_skipped_lines view + n\<rparr>"

definition WorkerStateView_replay :: "evidence_lib \<Rightarrow> streams \<Rightarrow> WorkerStateView" where
  "WorkerStateView_replay L fs =
     (let sessions = read_stream L fs ''worker_sessions'';
          view0 = add_skipped (rp_skipped_lines sessions)
            \<lparr>view_sessions = [], view_leases = [], view_skipped_lines = 0\<rparr>;
          (view1, last_at) = foldl (session_step L) (view0, []) (rp_events sessions);
          leases = read_stream L fs ''worker_leases'';
          view2 = foldl (lease_step L) (add_skipped (rp_skipped_lines leases) view1) (rp_events leases);
          closes = read_stream L fs ''session_closes''
      in foldl (close_step last_at) (add_skipped (rp_skipped_lines closes) view2) (rp_events closes))"

record RecoveryReport =
  rr_sessions_closed :: nat
  rr_leases_revoked :: nat

definition session_ended :: "PersistedWorkerSession \<Rightarrow> bool" where
  "session_ended session \<longleftrightarrow> ps_status session = ''closed'' \<or> ps_status session = ''expired''"

definition upsert_worker_session ::
    "evidence_lib \<Rightarrow> u64 \<Rightarrow> PersistedWorkerSession \<Rightarrow> streams \<Rightarrow> streams" where
  "upsert_worker_session L now_ms session fs =
     append_locked L now_ms ''worker_sessions'' (el_session_to_value L session) fs"

definition close_session :: "evidence_lib \<Rightarrow> u64 \<Rightarrow> string \<Rightarrow> streams \<Rightarrow> streams" where
  "close_session L now_ms session_id fs =
     append_locked L now_ms ''session_closes'' (JObject [(''session_id'', JString session_id)]) fs"

definition upsert_worker_lease ::
    "evidence_lib \<Rightarrow> u64 \<Rightarrow> PersistedWorkerLease \<Rightarrow> streams \<Rightarrow> streams" where
  "upsert_worker_lease L now_ms lease fs =
     append_locked L now_ms ''worker_leases'' (el_lease_to_value L lease) fs"

fun recover_sessions ::
    "evidence_lib \<Rightarrow> (nat \<Rightarrow> u64) \<Rightarrow> string \<Rightarrow> nat \<Rightarrow> PersistedWorkerSession list \<Rightarrow>
      streams \<Rightarrow> nat \<Rightarrow> streams \<times> nat" where
  "recover_sessions L clock now i [] fs n = (fs, n)"
| "recover_sessions L clock now i (session # rest) fs n =
     (if session_ended session then recover_sessions L clock now i rest fs n
      else
        let closed = session\<lparr>ps_status := ''closed'', ps_updated_at := now, ps_closed_at := Some now\<rparr>;
            fs1 = upsert_worker_session L (clock i) closed fs;
            fs2 = close_session L (clock (Suc i)) (ps_session_id closed) fs1
        in recover_sessions L clock now (i + 2) rest fs2 (n + 1))"

definition revoke_row :: "string \<Rightarrow> PersistedWorkerLease \<Rightarrow> PersistedWorkerLease" where
  "revoke_row now lease =
     lease\<lparr>pl_status := ''revoked'', pl_updated_at := now, pl_completed_at := Some now,
       pl_failure_code := Some ''RUNTIME_RESTART'',
       pl_reason := Some ''runtime restarted before lease completion''\<rparr>"

fun recover_leases ::
    "evidence_lib \<Rightarrow> (nat \<Rightarrow> u64) \<Rightarrow> string \<Rightarrow> nat \<Rightarrow> PersistedWorkerLease list \<Rightarrow>
      streams \<Rightarrow> nat \<Rightarrow> streams \<times> nat" where
  "recover_leases L clock now i [] fs n = (fs, n)"
| "recover_leases L clock now i (lease # rest) fs n =
     (if \<not> lease_live lease then recover_leases L clock now i rest fs n
      else recover_leases L clock now (Suc i) rest
             (upsert_worker_lease L (clock i) (revoke_row now lease) fs) (n + 1))"

definition recover_interrupted ::
    "evidence_lib \<Rightarrow> (PersistedWorkerSession list \<Rightarrow> PersistedWorkerSession list) \<Rightarrow>
      (PersistedWorkerLease list \<Rightarrow> PersistedWorkerLease list) \<Rightarrow> (nat \<Rightarrow> u64) \<Rightarrow> (nat \<Rightarrow> u64) \<Rightarrow>
      string \<Rightarrow> streams \<Rightarrow> RecoveryReport \<times> streams" where
  "recover_interrupted L sperm lperm sclock lclock now fs =
     (let view = WorkerStateView_replay L fs;
          (fs1, n) = recover_sessions L sclock now 0 (sperm (map snd (view_sessions view))) fs 0;
          (fs2, m) = recover_leases L lclock now 0 (lperm (map snd (view_leases view))) fs1 0
      in (\<lparr>rr_sessions_closed = n, rr_leases_revoked = m\<rparr>, fs2))"

section \<open>Compaction\<close>

record CompactionReport =
  cr_records_before :: nat
  cr_records_after :: nat
  cr_corrupt_lines_dropped :: nat

text \<open>A line that holds a record, with its key when the record has one; \<open>None\<close> for a corrupt line.\<close>

definition keyed_line :: "evidence_lib \<Rightarrow> string \<Rightarrow> string \<Rightarrow> (string \<times> string option) option" where
  "keyed_line L key_field chunk =
     (case el_of_slice L chunk of
        Some value \<Rightarrow>
          (case json_get value ''record'' of
             Some rec \<Rightarrow> Some (chunk, Option.bind (json_get rec key_field) as_str)
           | None \<Rightarrow> None)
      | None \<Rightarrow> None)"

text \<open>\<open>last_index_per_key\<close>, for the lines from index \<open>i\<close> on.\<close>

fun last_index_per_key ::
    "nat \<Rightarrow> (string \<times> string option) list \<Rightarrow> (string, nat) btree \<Rightarrow> (string, nat) btree" where
  "last_index_per_key i [] m = m"
| "last_index_per_key i ((line, key) # rest) m =
     last_index_per_key (Suc i) rest (case key of Some k \<Rightarrow> bt_insert k i m | None \<Rightarrow> m)"

definition keep_line :: "(string, nat) btree \<Rightarrow> nat \<times> string \<times> string option \<Rightarrow> bool" where
  "keep_line m ilk =
     (case ilk of (index, line, key) \<Rightarrow>
        (case key of Some k \<Rightarrow> bt_get m k = Some index | None \<Rightarrow> True))"

definition compact_stream ::
    "evidence_lib \<Rightarrow> string \<Rightarrow> string \<Rightarrow> streams \<Rightarrow> CompactionReport \<times> streams" where
  "compact_stream L kind key_field fs =
     (case fs kind of
        None \<Rightarrow> (\<lparr>cr_records_before = 0, cr_records_after = 0, cr_corrupt_lines_dropped = 0\<rparr>, fs)
      | Some raw \<Rightarrow>
          let parsed = map (keyed_line L key_field) (chunks raw);
              ls = List.map_filter (\<lambda>x. x) parsed;
              last_index = last_index_per_key 0 ls [];
              kept = filter (keep_line last_index) (enumerate 0 ls)
          in (\<lparr>cr_records_before = length ls, cr_records_after = length kept,
               cr_corrupt_lines_dropped = length (filter (\<lambda>x. x = None) parsed)\<rparr>,
              fs(kind \<mapsto> concat (map (\<lambda>ilk. fst (snd ilk) @ [NL]) kept))))"

section \<open>Writer leases\<close>

record WriterLease =
  wl_lease_id :: string
  wl_work_id :: string
  wl_worker_id :: string
  wl_capability :: string
  wl_node_id :: string
  wl_issued_at :: string
  wl_expires_at :: string

datatype lease_error = LeaseEvidence acquire_error | LeaseRootMismatch | LeaseHeld string string

definition capability_for :: "string \<Rightarrow> string" where
  "capability_for repo_root = ''workspace.write:'' @ repo_root"

definition acquire_writer_lease ::
    "evidence_lib \<Rightarrow> (PersistedWorkerLease list \<Rightarrow> PersistedWorkerLease list) \<Rightarrow> (nat \<Rightarrow> u64) \<Rightarrow>
      bool \<Rightarrow> string \<Rightarrow> string \<Rightarrow> string \<Rightarrow> string \<Rightarrow> string \<Rightarrow> string \<Rightarrow> string \<Rightarrow> streams \<Rightarrow>
      (lease_error + WriterLease) \<times> streams" where
  "acquire_writer_lease L perm clock same_root work_id repo_root installation_id worker_id
       issued_at expires_at new_lease_id fs =
     (let capability = capability_for repo_root in
      if \<not> same_root then (Inl LeaseRootMismatch, fs)
      else
        let persisted =
              \<lparr>pl_lease_id = new_lease_id, pl_task_id = work_id, pl_session_id = worker_id,
               pl_node_id = installation_id, pl_capability = capability, pl_status = ''issued'',
               pl_issued_at = issued_at, pl_updated_at = issued_at, pl_expires_at = expires_at,
               pl_acked_at = None, pl_completed_at = None, pl_failure_code = None, pl_reason = None\<rparr>
        in (case try_acquire_worker_lease L perm clock persisted fs of
              (Inl err, fs') \<Rightarrow> (Inl (LeaseEvidence err), fs')
            | (Inr (Some held), fs') \<Rightarrow> (Inl (LeaseHeld repo_root (pl_task_id held)), fs')
            | (Inr None, fs') \<Rightarrow>
                (Inr \<lparr>wl_lease_id = new_lease_id, wl_work_id = work_id, wl_worker_id = worker_id,
                      wl_capability = capability, wl_node_id = installation_id,
                      wl_issued_at = issued_at, wl_expires_at = expires_at\<rparr>, fs')))"

definition finish_writer_lease ::
    "evidence_lib \<Rightarrow> u64 \<Rightarrow> WriterLease \<Rightarrow> string \<Rightarrow> string \<Rightarrow> string option \<Rightarrow> string \<Rightarrow> streams \<Rightarrow> streams" where
  "finish_writer_lease L now_ms lease finished_at status failure_code reason fs =
     upsert_worker_lease L now_ms
       \<lparr>pl_lease_id = wl_lease_id lease, pl_task_id = wl_work_id lease,
        pl_session_id = wl_worker_id lease, pl_node_id = wl_node_id lease,
        pl_capability = wl_capability lease, pl_status = status,
        pl_issued_at = wl_issued_at lease, pl_updated_at = finished_at,
        pl_expires_at = wl_expires_at lease, pl_acked_at = None,
        pl_completed_at = Some finished_at, pl_failure_code = failure_code, pl_reason = Some reason\<rparr> fs"

definition release_writer_lease ::
    "evidence_lib \<Rightarrow> u64 \<Rightarrow> WriterLease \<Rightarrow> string \<Rightarrow> streams \<Rightarrow> streams" where
  "release_writer_lease L now_ms lease released_at fs =
     finish_writer_lease L now_ms lease released_at ''completed'' None ''workspace released'' fs"

definition revoke_writer_lease ::
    "evidence_lib \<Rightarrow> u64 \<Rightarrow> WriterLease \<Rightarrow> string \<Rightarrow> string \<Rightarrow> string \<Rightarrow> streams \<Rightarrow> streams" where
  "revoke_writer_lease L now_ms lease revoked_at failure_code reason fs =
     finish_writer_lease L now_ms lease revoked_at ''revoked'' (Some failure_code) reason fs"

section \<open>Reading back what was appended\<close>

text \<open>A stream that no crash has cut: empty, or ending in a line feed.\<close>

definition closed_file :: "string \<Rightarrow> bool" where
  "closed_file f \<longleftrightarrow> f = [] \<or> last f = NL"

definition stream_closed :: "streams \<Rightarrow> string \<Rightarrow> bool" where
  "stream_closed fs kind \<longleftrightarrow> closed_file (unwrap_or (fs kind) [])"

lemma chunks_Nil [simp]: "chunks [] = []"
  by (simp add: chunks_def)

lemma chunks_append:
  assumes "closed_file f" and "NL \<notin> set l" and "l \<noteq> []"
  shows "chunks (f @ l @ [NL]) = chunks f @ [l]"
proof -
  let ?sp = "split_on (\<lambda>c. c = NL)"
  have l: "?sp l = [l]" using assms(2) by (intro split_on_no_sep) auto
  have tail: "?sp (l @ [NL]) = [l, []]"
    using split_on_append_sep [of "\<lambda>c. c = NL" NL l "[]"] l by simp
  show ?thesis
  proof (cases "f = []")
    case True
    with tail assms(3) show ?thesis by (simp add: chunks_def)
  next
    case False
    then obtain g where f: "f = g @ [NL]"
      using assms(1) by (metis append_butlast_last_id closed_file_def)
    have "?sp (f @ l @ [NL]) = ?sp g @ [l, []]" "?sp f = ?sp g @ [[]]"
      using split_on_append_sep [of "\<lambda>c. c = NL" NL g "l @ [NL]"] tail
        split_on_append_sep [of "\<lambda>c. c = NL" NL g "[]"] by (simp_all add: f)
    with assms(3) show ?thesis by (simp add: chunks_def)
  qed
qed

lemma read_stream_frame: "fs kind = gs kind \<Longrightarrow> read_stream L fs kind = read_stream L gs kind"
  by (simp add: read_stream_def)

lemma append_locked_other [simp]:
  "kind' \<noteq> kind \<Longrightarrow> append_locked L now kind rec fs kind' = fs kind'"
  by (simp add: append_locked_def)

lemma stream_closed_append: "stream_closed fs k \<Longrightarrow> stream_closed (append_locked L now kind rec fs) k"
  by (simp add: stream_closed_def append_locked_def encoded_record_def closed_file_def)

definition envelope_event :: "u64 \<Rightarrow> string \<Rightarrow> json \<Rightarrow> EvidenceEvent" where
  "envelope_event now kind rec = \<lparr>ee_v = 1, ee_at_ms = now, ee_kind = kind, ee_record = rec\<rparr>"

text \<open>What replay and acquisition rely on of the text format and the derived codecs.\<close>

locale evidence_laws = json_text "el_to_text L" "el_of_text L" for L :: evidence_lib +
  assumes lease_rt: "el_lease_of_value L (el_lease_to_value L l) = Some l"
    and session_rt: "el_session_of_value L (el_session_to_value L s) = Some s"
    and of_slice: "valid_utf8 t \<Longrightarrow> el_of_slice L t = el_of_text L t"
    and lease_key: "json_get (el_lease_to_value L l) ''lease_id'' = Some (JString (pl_lease_id l))"
begin

lemma parse_line_envelope: "parse_line L (envelope_text L now kind rec) = Some (envelope_event now kind rec)"
  by (simp add: envelope_text_def parse_line_def lossy_of_valid [OF text_utf8] of_to_text parse_event_def
      envelope_event_def write_u32_def EVIDENCE_SCHEMA_VERSION_def)

lemma read_append:
  assumes "stream_closed fs kind"
  shows "read_stream L (append_locked L now kind rec fs) kind =
    (read_stream L fs kind)\<lparr>rp_events := rp_events (read_stream L fs kind) @ [envelope_event now kind rec]\<rparr>"
proof -
  let ?t = "envelope_text L now kind rec"
  let ?f = "unwrap_or (fs kind) []"
  have "chunks (?f @ ?t @ [NL]) = chunks ?f @ [?t]"
    using assms text_one_line text_not_empty
    by (intro chunks_append) (simp_all add: stream_closed_def envelope_text_def)
  moreover have "read_stream L fs kind = foldl (replay_step L) empty_replay (chunks ?f)"
    by (cases "fs kind") (simp_all add: read_stream_def)
  ultimately show ?thesis
    by (simp add: read_stream_def append_locked_def encoded_record_def replay_step_def parse_line_envelope)
qed

end

section \<open>Leases\<close>

definition leases_of :: "evidence_lib \<Rightarrow> streams \<Rightarrow> (string, PersistedWorkerLease) btree" where
  "leases_of L fs = latest_leases L (rp_events (read_stream L fs ''worker_leases''))"

definition put_lease ::
    "(string, PersistedWorkerLease) btree \<Rightarrow> PersistedWorkerLease \<Rightarrow> (string, PersistedWorkerLease) btree" where
  "put_lease m l = bt_insert (pl_lease_id l) l m"

definition live_for :: "string \<Rightarrow> (string, PersistedWorkerLease) btree \<Rightarrow> PersistedWorkerLease set" where
  "live_for cap m = {l. \<exists>k. bt_get m k = Some l \<and> pl_capability l = cap \<and> lease_live l}"

definition leases_ok :: "(string, PersistedWorkerLease) btree \<Rightarrow> bool" where
  "leases_ok m \<longleftrightarrow> bt_inv m \<and> (\<forall>k l. bt_get m k = Some l \<longrightarrow> pl_lease_id l = k)"

lemma leases_ok_put: "leases_ok m \<Longrightarrow> leases_ok (put_lease m l)"
  by (auto simp: leases_ok_def put_lease_def)

interpretation lease_writes: event_fold put_lease leases_ok
  by unfold_locales (rule leases_ok_put)

interpretation lease_events: event_fold "insert_lease L" leases_ok for L
  by unfold_locales
    (auto simp: insert_lease_def leases_ok_put [unfolded put_lease_def] split: option.split)

lemma leases_ok_of: "leases_ok (leases_of L fs)"
  unfolding leases_of_def latest_leases_def by (rule lease_events.fold_inv) (simp add: leases_ok_def)

lemma bt_values: "bt_inv m \<Longrightarrow> l \<in> set (map snd m) \<longleftrightarrow> (\<exists>k. bt_get m k = Some l)"
  by (force simp: map_of_eq_Some_iff [OF bt_inv_distinct])

lemma put_leases_get:
  "bt_get (foldl put_lease m ls) k =
     (case find (\<lambda>l. pl_lease_id l = k) (rev ls) of Some l \<Rightarrow> Some l | None \<Rightarrow> bt_get m k)"
  by (induction ls rule: rev_induct) (auto simp: put_lease_def)

lemma put_leases_cases:
  assumes "bt_get (foldl put_lease m ls) k = Some l"
  obtains "l \<in> set ls" "pl_lease_id l = k" | "bt_get m k = Some l" "\<forall>x\<in>set ls. pl_lease_id x \<noteq> k"
  using assms by (auto simp: put_leases_get find_Some_iff find_None_iff split: option.splits)
    (metis length_rev nth_mem set_rev)

context evidence_laws
begin

lemma leases_append:
  "stream_closed fs ''worker_leases'' \<Longrightarrow>
   leases_of L (append_locked L now ''worker_leases'' (el_lease_to_value L l) fs) = put_lease (leases_of L fs) l"
  by (simp add: leases_of_def read_append latest_leases_def insert_lease_def envelope_event_def lease_rt
      put_lease_def)

lemma append_leases:
  assumes "stream_closed fs ''worker_leases''"
  shows "leases_of L (append_leases L clock i ls fs) = foldl put_lease (leases_of L fs) ls \<and>
    rp_skipped_lines (read_stream L (append_leases L clock i ls fs) ''worker_leases'') =
      rp_skipped_lines (read_stream L fs ''worker_leases'') \<and>
    stream_closed (append_leases L clock i ls fs) ''worker_leases''"
  using assms
proof (induction ls arbitrary: i fs)
  case (Cons l ls)
  from Cons.IH [OF stream_closed_append [OF Cons.prems]] Cons.prems
  show ?case by (simp add: leases_append read_append)
qed simp

end

lemma scan_candidates_None:
  "scan_candidates L t cs acc = Inr (None, ex) \<Longrightarrow> ex = acc @ cs"
proof (induction cs arbitrary: acc)
  case (Cons a cs)
  from Cons.prems have "scan_candidates L t cs (acc @ [a]) = Inr (None, ex)"
    by (simp split: option.splits if_splits)
  from Cons.IH [OF this] show ?case by simp
qed simp

lemma scan_candidates_Some:
  "scan_candidates L t cs acc = Inr (Some h, ex) \<Longrightarrow>
   h \<in> set cs \<and> (\<exists>e. el_parse_time L (pl_expires_at h) = Some e \<and> t < e)"
  by (induction cs arbitrary: acc) (auto split: option.splits if_splits)

lemma expire_lease_simps [simp]:
  "pl_lease_id (expire_lease l x) = pl_lease_id x" "pl_capability (expire_lease l x) = pl_capability x"
  "\<not> lease_live (expire_lease l x)"
  by (simp_all add: expire_lease_def lease_live_def)

lemma try_acquire_cases:
  assumes "try_acquire_worker_lease L perm clock lease fs = (r, fs')"
  obtains (refused) err where "r = Inl err" "fs' = fs"
  | (held) h where "r = Inr (Some h)" "fs' = fs"
      "h \<in> set (perm (map snd (leases_of L fs)))" "pl_capability h = pl_capability lease" "lease_live h"
      "\<exists>t e. el_parse_time L (pl_issued_at lease) = Some t \<and> el_parse_time L (pl_expires_at h) = Some e \<and> t < e"
      "rp_skipped_lines (read_stream L fs ''worker_leases'') = 0"
  | (taken) "r = Inr None" "lease_live lease"
      "fs' = append_leases L clock 0 (map (expire_lease lease)
        (filter (\<lambda>c. pl_capability c = pl_capability lease \<and> lease_live c) (perm (map snd (leases_of L fs))))
        @ [lease]) fs"
      "rp_skipped_lines (read_stream L fs ''worker_leases'') = 0"
  using assms
  by (auto simp: try_acquire_worker_lease_def Let_def leases_of_def [symmetric]
      dest!: scan_candidates_None scan_candidates_Some
      split: if_splits option.splits sum.splits prod.splits)

text \<open>Writing a list of rows that ends what it names: what stays live afterwards.\<close>

lemma live_after_ending:
  assumes "\<forall>x\<in>set ls. \<not> lease_live x"
  shows "live_for cap (foldl put_lease m ls) \<subseteq> live_for cap m"
  using assms by (auto simp: live_for_def elim!: put_leases_cases)

lemma live_after_ending_all:
  assumes "\<forall>x\<in>set ls. \<not> lease_live x" and "leases_ok m"
    and "\<forall>l\<in>live_for cap m. \<exists>x\<in>set ls. pl_lease_id x = pl_lease_id l"
  shows "live_for cap (foldl put_lease m ls) = {}"
proof -
  have False if l: "bt_get (foldl put_lease m ls) k = Some l" "pl_capability l = cap" "lease_live l" for k l
    using l(1)
  proof (cases rule: put_leases_cases)
    case 1
    with assms(1) l(3) show False by blast
  next
    case 2
    then have "l \<in> live_for cap m" using l by (auto simp: live_for_def)
    with assms(3) obtain x where "x \<in> set ls" "pl_lease_id x = pl_lease_id l" by blast
    with 2 assms(2) show False by (auto simp: leases_ok_def)
  qed
  then show ?thesis by (auto simp: live_for_def)
qed

lemma live_for_put:
  "leases_ok m \<Longrightarrow> lease_live l \<Longrightarrow>
   live_for (pl_capability l) (put_lease m l) \<subseteq> insert l (live_for (pl_capability l) m) \<and>
   l \<in> live_for (pl_capability l) (put_lease m l) \<and>
   (cap \<noteq> pl_capability l \<longrightarrow> live_for cap (put_lease m l) \<subseteq> live_for cap m)"
  by (auto simp: live_for_def put_lease_def split: if_splits)

context evidence_laws
begin

lemma acquire_exclusive:
  assumes "\<And>xs. set (perm xs) = set xs" and "stream_closed fs ''worker_leases''"
    and "try_acquire_worker_lease L perm clock lease fs = (Inr None, fs')"
  shows "live_for (pl_capability lease) (leases_of L fs') = {lease} \<and>
    (\<forall>cap. cap \<noteq> pl_capability lease \<longrightarrow> live_for cap (leases_of L fs') \<subseteq> live_for cap (leases_of L fs)) \<and>
    stream_closed fs' ''worker_leases'' \<and> rp_skipped_lines (read_stream L fs' ''worker_leases'') = 0"
  using assms(3)
proof (cases rule: try_acquire_cases)
  case taken
  let ?m = "leases_of L fs"
  let ?ex = "map (expire_lease lease)
    (filter (\<lambda>c. pl_capability c = pl_capability lease \<and> lease_live c) (perm (map snd ?m)))"
  note app = append_leases [OF assms(2), of clock 0 "?ex @ [lease]"]
  let ?m1 = "foldl put_lease ?m ?ex"
  have ok1: "leases_ok ?m1" by (rule lease_writes.fold_inv [OF leases_ok_of])
  have dead: "\<forall>x\<in>set ?ex. \<not> lease_live x" by auto
  have "\<exists>x\<in>set ?ex. pl_lease_id x = pl_lease_id l" if "l \<in> live_for (pl_capability lease) ?m" for l
  proof -
    from that obtain k where "bt_get ?m k = Some l" by (auto simp: live_for_def)
    then have "l \<in> set (perm (map snd ?m))"
      using assms(1) bt_values [of ?m l] leases_ok_of [of L fs] by (auto simp: leases_ok_def)
    with that show ?thesis by (auto simp: live_for_def)
  qed
  then have none: "live_for (pl_capability lease) ?m1 = {}"
    using live_after_ending_all [OF dead leases_ok_of] by blast
  have m': "leases_of L fs' = put_lease ?m1 lease" using app taken(3) by simp
  have one: "live_for (pl_capability lease) (put_lease ?m1 lease) = {lease}"
    using live_for_put [OF ok1 taken(2)] none by blast
  have others: "live_for cap (put_lease ?m1 lease) \<subseteq> live_for cap ?m" if "cap \<noteq> pl_capability lease" for cap
    using live_for_put [OF ok1 taken(2), of cap] live_after_ending [OF dead, of cap ?m] that by blast
  from one others app taken(3,4) show ?thesis unfolding m' by simp
qed simp_all

lemma upsert_lease:
  assumes "stream_closed fs ''worker_leases''"
  shows "leases_of L (upsert_worker_lease L now l fs) = put_lease (leases_of L fs) l"
    "stream_closed (upsert_worker_lease L now l fs) ''worker_leases''"
    "rp_skipped_lines (read_stream L (upsert_worker_lease L now l fs) ''worker_leases'') =
     rp_skipped_lines (read_stream L fs ''worker_leases'')"
  using assms by (simp_all add: upsert_worker_lease_def leases_append stream_closed_append read_append)

lemma recover_leases_spec:
  assumes "stream_closed fs ''worker_leases''"
  shows "leases_of L (fst (recover_leases L clock now i ls fs n)) =
      foldl put_lease (leases_of L fs) (map (revoke_row now) (filter lease_live ls)) \<and>
    stream_closed (fst (recover_leases L clock now i ls fs n)) ''worker_leases'' \<and>
    rp_skipped_lines (read_stream L (fst (recover_leases L clock now i ls fs n)) ''worker_leases'') =
      rp_skipped_lines (read_stream L fs ''worker_leases'') \<and>
    snd (recover_leases L clock now i ls fs n) = n + length (filter lease_live ls)"
  using assms
  by (induction ls arbitrary: fs i n) (simp_all add: upsert_lease)

end

lemma recover_leases_frame:
  "kind \<noteq> ''worker_leases'' \<Longrightarrow> fst (recover_leases L clock now i ls fs n) kind = fs kind"
  by (induction ls arbitrary: fs i n) (simp_all add: upsert_worker_lease_def)

lemma recover_sessions_frame:
  "kind \<noteq> ''worker_sessions'' \<Longrightarrow> kind \<noteq> ''session_closes'' \<Longrightarrow>
   fst (recover_sessions L clock now i ss fs n) kind = fs kind"
  by (induction ss arbitrary: fs i n)
    (simp_all add: Let_def upsert_worker_session_def close_session_def)

lemma recover_idle:
  "\<forall>s\<in>set ss. session_ended s \<Longrightarrow> recover_sessions L clock now i ss fs n = (fs, n)"
  "\<forall>l\<in>set ls. \<not> lease_live l \<Longrightarrow> recover_leases L clock now i ls fs n = (fs, n)"
  by (induction ss arbitrary: i n, simp_all, induction ls arbitrary: i n, simp_all)

section \<open>Sessions\<close>

text \<open>What one session's row is in the view: its latest record, closed if a tombstone is not older.\<close>

definition sessions_of :: "evidence_lib \<Rightarrow> EvidenceEvent list \<Rightarrow> string \<Rightarrow> (PersistedWorkerSession \<times> u64) option" where
  "sessions_of L es k = foldl (\<lambda>acc e. case el_session_of_value L (ee_record e) of
      Some s \<Rightarrow> if ps_session_id s = k then Some (s, ee_at_ms e) else acc | None \<Rightarrow> acc) None es"

definition tombstoned :: "EvidenceEvent list \<Rightarrow> string \<Rightarrow> u64 \<Rightarrow> bool" where
  "tombstoned es k at \<longleftrightarrow>
     (\<exists>e\<in>set es. Option.bind (json_get (ee_record e) ''session_id'') as_str = Some k \<and> \<not> ee_at_ms e < at)"

lemma session_steps:
  "bt_get (view_sessions (fst (foldl (session_step L) (v, m) es))) k =
     (case sessions_of L es k of Some (s, at) \<Rightarrow> Some s | None \<Rightarrow> bt_get (view_sessions v) k) \<and>
   bt_get (snd (foldl (session_step L) (v, m) es)) k =
     (case sessions_of L es k of Some (s, at) \<Rightarrow> Some at | None \<Rightarrow> bt_get m k) \<and>
   view_leases (fst (foldl (session_step L) (v, m) es)) = view_leases v \<and>
   (bt_inv (view_sessions v) \<longrightarrow> bt_inv (view_sessions (fst (foldl (session_step L) (v, m) es))))"
proof (induction es rule: rev_induct)
  case (snoc e es)
  then show ?case
    by (cases "foldl (session_step L) (v, m) es"; cases "el_session_of_value L (ee_record e)")
      (auto simp: sessions_of_def split: option.splits)
qed (simp add: sessions_of_def)

lemma sessions_of_id: "sessions_of L es k = Some (s, at) \<Longrightarrow> ps_session_id s = k"
  by (induction es rule: rev_induct) (auto simp: sessions_of_def split: option.splits if_splits)

lemma lease_steps:
  "view_sessions (foldl (lease_step L) v es) = view_sessions v \<and>
   view_leases (foldl (lease_step L) v es) = foldl (insert_lease L) (view_leases v) es"
  by (induction es rule: rev_induct) (simp_all add: lease_step_def insert_lease_def split: option.split)

lemma close_session_row_simps [simp]:
  "ps_session_id (close_session_row s) = ps_session_id s" "session_ended (close_session_row s)"
  "close_session_row (close_session_row s) = close_session_row s"
  by (simp_all add: close_session_row_def session_ended_def Let_def)

lemma close_steps:
  "bt_get (view_sessions (foldl (close_step m) v es)) k =
     map_option (\<lambda>s. if tombstoned es k (unwrap_or (bt_get m k) 0) then close_session_row s else s)
       (bt_get (view_sessions v) k) \<and>
   view_leases (foldl (close_step m) v es) = view_leases v \<and>
   (bt_inv (view_sessions v) \<longrightarrow> bt_inv (view_sessions (foldl (close_step m) v es)))"
proof (induction es rule: rev_induct)
  case Nil
  then show ?case by (cases "bt_get (view_sessions v) k") (simp_all add: tombstoned_def)
next
  case (snoc e es)
  then show ?case
    by (cases "bt_get (view_sessions v) k"; cases "Option.bind (json_get (ee_record e) ''session_id'') as_str")
      (auto simp: close_step_def tombstoned_def split: option.splits)
qed

lemma view_of:
  "view_leases (WorkerStateView_replay L fs) = leases_of L fs"
  "bt_inv (view_sessions (WorkerStateView_replay L fs))"
  "bt_get (view_sessions (WorkerStateView_replay L fs)) k =
     (case sessions_of L (rp_events (read_stream L fs ''worker_sessions'')) k of
        None \<Rightarrow> None
      | Some (s, at) \<Rightarrow>
          Some (if tombstoned (rp_events (read_stream L fs ''session_closes'')) k at
                then close_session_row s else s))"
proof -
  let ?ses = "read_stream L fs ''worker_sessions''" and ?cls = "read_stream L fs ''session_closes''"
    and ?lss = "read_stream L fs ''worker_leases''"
  let ?v0 = "add_skipped (rp_skipped_lines ?ses) \<lparr>view_sessions = [], view_leases = [], view_skipped_lines = 0\<rparr>"
  obtain v1 la where v1: "foldl (session_step L) (?v0, []) (rp_events ?ses) = (v1, la)" by fastforce
  note S = session_steps [of L ?v0 "[]" "rp_events ?ses", unfolded v1 fst_conv snd_conv]
  let ?v2 = "foldl (lease_step L) (add_skipped (rp_skipped_lines ?lss) v1) (rp_events ?lss)"
  have eq: "WorkerStateView_replay L fs =
      foldl (close_step la) (add_skipped (rp_skipped_lines ?cls) ?v2) (rp_events ?cls)"
    by (simp add: WorkerStateView_replay_def Let_def v1)
  note C = close_steps [of la "add_skipped (rp_skipped_lines ?cls) ?v2" "rp_events ?cls"]
  show "view_leases (WorkerStateView_replay L fs) = leases_of L fs"
    using C S lease_steps [of L "add_skipped (rp_skipped_lines ?lss) v1" "rp_events ?lss"]
    by (simp add: eq add_skipped_def leases_of_def latest_leases_def)
  show "bt_inv (view_sessions (WorkerStateView_replay L fs))"
    using C S lease_steps [of L "add_skipped (rp_skipped_lines ?lss) v1" "rp_events ?lss"]
    by (simp add: eq add_skipped_def)
  show "bt_get (view_sessions (WorkerStateView_replay L fs)) k =
     (case sessions_of L (rp_events ?ses) k of
        None \<Rightarrow> None
      | Some (s, at) \<Rightarrow> Some (if tombstoned (rp_events ?cls) k at then close_session_row s else s))"
    using C [of k] S [of k] lease_steps [of L "add_skipped (rp_skipped_lines ?lss) v1" "rp_events ?lss"]
    by (simp add: eq add_skipped_def split: option.splits)
qed

abbreviation session_events :: "evidence_lib \<Rightarrow> streams \<Rightarrow> EvidenceEvent list" where
  "session_events L fs \<equiv> rp_events (read_stream L fs ''worker_sessions'')"

abbreviation close_events :: "evidence_lib \<Rightarrow> streams \<Rightarrow> EvidenceEvent list" where
  "close_events L fs \<equiv> rp_events (read_stream L fs ''session_closes'')"

lemma sessions_of_snoc:
  "sessions_of L (es @ [e]) k = (case el_session_of_value L (ee_record e) of
     Some s \<Rightarrow> if ps_session_id s = k then Some (s, ee_at_ms e) else sessions_of L es k
   | None \<Rightarrow> sessions_of L es k)"
  unfolding sessions_of_def by simp

context evidence_laws
begin

lemma recover_session_step:
  assumes "stream_closed fs ''worker_sessions''" "stream_closed fs ''session_closes''"
    and fs'_def: "fs' = close_session L b (ps_session_id s) (upsert_worker_session L a s fs)"
  shows "stream_closed fs' ''worker_sessions''" "stream_closed fs' ''session_closes''"
    "sessions_of L (session_events L fs') k =
       (if ps_session_id s = k then Some (s, a) else sessions_of L (session_events L fs) k)"
    "set (close_events L fs) \<subseteq> set (close_events L fs')"
proof -
  let ?fs1 = "upsert_worker_session L a s fs"
  have c1: "stream_closed ?fs1 ''worker_sessions''" "stream_closed ?fs1 ''session_closes''"
    using assms(1,2) by (simp_all add: upsert_worker_session_def stream_closed_append)
  then show "stream_closed fs' ''worker_sessions''" "stream_closed fs' ''session_closes''"
    by (simp_all add: fs'_def close_session_def stream_closed_append)
  have "read_stream L fs' ''worker_sessions'' = read_stream L ?fs1 ''worker_sessions''"
    by (rule read_stream_frame) (simp add: fs'_def close_session_def)
  then have "session_events L fs' =
      session_events L fs @ [envelope_event a ''worker_sessions'' (el_session_to_value L s)]"
    using assms(1) by (simp add: upsert_worker_session_def read_append)
  then show "sessions_of L (session_events L fs') k =
       (if ps_session_id s = k then Some (s, a) else sessions_of L (session_events L fs) k)"
    by (simp add: sessions_of_snoc envelope_event_def session_rt)
  have "read_stream L ?fs1 ''session_closes'' = read_stream L fs ''session_closes''"
    by (rule read_stream_frame) (simp add: upsert_worker_session_def)
  then show "set (close_events L fs) \<subseteq> set (close_events L fs')"
    using c1(2) by (auto simp: fs'_def close_session_def read_append)
qed

lemma recover_sessions_spec:
  assumes "stream_closed fs ''worker_sessions''" "stream_closed fs ''session_closes''"
    and "fs' = fst (recover_sessions L clock now i ss fs n)"
  shows "stream_closed fs' ''worker_sessions'' \<and> stream_closed fs' ''session_closes'' \<and>
    set (close_events L fs) \<subseteq> set (close_events L fs') \<and>
    (if \<exists>s\<in>set ss. \<not> session_ended s \<and> ps_session_id s = k
     then \<exists>s at. sessions_of L (session_events L fs') k = Some (s, at) \<and> session_ended s
     else sessions_of L (session_events L fs') k = sessions_of L (session_events L fs) k) \<and>
    snd (recover_sessions L clock now i ss fs n) = n + length (filter (\<lambda>s. \<not> session_ended s) ss)"
  using assms(1,2) unfolding assms(3)
proof (induction ss arbitrary: fs i n)
  case (Cons s ss)
  show ?case
  proof (cases "session_ended s")
    case True
    with Cons.IH [OF Cons.prems, of i n] show ?thesis by (auto split: if_splits)
  next
    case False
    let ?c = "s\<lparr>ps_status := ''closed'', ps_updated_at := now, ps_closed_at := Some now\<rparr>"
    let ?g = "close_session L (clock (Suc i)) (ps_session_id ?c) (upsert_worker_session L (clock i) ?c fs)"
    note st = recover_session_step [OF Cons.prems refl, of "clock (Suc i)" ?c "clock i"]
    have ended: "session_ended ?c" by (simp add: session_ended_def)
    have eq: "recover_sessions L clock now i (s # ss) fs n =
        recover_sessions L clock now (i + 2) ss ?g (n + 1)"
      using False by (simp add: Let_def)
    note IH = Cons.IH [OF st(1,2), of "i + 2" "n + 1"]
    have same: "sessions_of L (session_events L ?g) k =
        (if ps_session_id s = k then Some (?c, clock i) else sessions_of L (session_events L fs) k)"
      using st(3) [of k] by simp
    show ?thesis unfolding eq
      using IH st(4) False ended same by (auto split: if_splits)
  qed
qed simp

end

lemma recovered_view:
  assumes "evidence_laws L" "\<And>xs. set (sperm xs) = set xs" "\<And>xs. set (lperm xs) = set xs"
    and "stream_closed fs ''worker_sessions''" "stream_closed fs ''session_closes''"
      "stream_closed fs ''worker_leases''"
    and "recover_interrupted L sperm lperm sclock lclock now fs = (report, fs')"
  shows "\<forall>s\<in>set (map snd (view_sessions (WorkerStateView_replay L fs'))). session_ended s"
    "\<forall>l\<in>set (map snd (view_leases (WorkerStateView_replay L fs'))). \<not> lease_live l"
    "stream_closed fs' ''worker_leases''"
    "rp_skipped_lines (read_stream L fs' ''worker_leases'') = rp_skipped_lines (read_stream L fs ''worker_leases'')"
proof -
  let ?v = "WorkerStateView_replay L fs"
  let ?ss = "sperm (map snd (view_sessions ?v))" and ?ls = "lperm (map snd (view_leases ?v))"
  let ?rs = "recover_sessions L sclock now 0 ?ss fs 0"
  let ?fs1 = "fst ?rs"
  let ?rl = "recover_leases L lclock now 0 ?ls ?fs1 0"
  have fs': "fs' = fst ?rl"
    using assms(7) by (simp add: recover_interrupted_def Let_def split: prod.splits)
  have kind: "read_stream L ?fs1 ''worker_leases'' = read_stream L fs ''worker_leases''"
    by (rule read_stream_frame) (simp add: recover_sessions_frame)
  have closed1: "stream_closed ?fs1 ''worker_leases''"
    using assms(6) by (simp add: stream_closed_def recover_sessions_frame)
  note R = evidence_laws.recover_leases_spec [OF assms(1) closed1, of lclock now 0 ?ls 0]
  show "stream_closed fs' ''worker_leases''"
    "rp_skipped_lines (read_stream L fs' ''worker_leases'') = rp_skipped_lines (read_stream L fs ''worker_leases'')"
    using R kind by (simp_all add: fs')
  have sess: "read_stream L fs' ''worker_sessions'' = read_stream L ?fs1 ''worker_sessions''"
    "read_stream L fs' ''session_closes'' = read_stream L ?fs1 ''session_closes''"
    by (rule read_stream_frame, simp add: fs' recover_leases_frame)+
  have m: "leases_of L fs' = foldl put_lease (leases_of L fs) (map (revoke_row now) (filter lease_live ?ls))"
    using R kind by (simp add: fs' leases_of_def)
  have dead: "\<forall>x\<in>set (map (revoke_row now) (filter lease_live ?ls)). \<not> lease_live x"
    by (auto simp: revoke_row_def lease_live_def)
  have inv: "bt_inv (leases_of L fs)" "bt_inv (leases_of L fs')"
    using leases_ok_of [of L] by (simp_all add: leases_ok_def)
  have "live_for cap (leases_of L fs') = {}" for cap
    unfolding m
  proof (rule live_after_ending_all [OF dead leases_ok_of], rule ballI)
    fix l assume l: "l \<in> live_for cap (leases_of L fs)"
    then have "l \<in> set ?ls" using assms(3) bt_values [OF inv(1)] by (auto simp: live_for_def view_of(1))
    with l have "revoke_row now l \<in> set (map (revoke_row now) (filter lease_live ?ls))"
      by (auto simp: live_for_def)
    moreover have "pl_lease_id (revoke_row now l) = pl_lease_id l" by (simp add: revoke_row_def)
    ultimately show "\<exists>x\<in>set (map (revoke_row now) (filter lease_live ?ls)). pl_lease_id x = pl_lease_id l"
      by blast
  qed
  then have none: "\<not> lease_live l" if "bt_get (leases_of L fs') k = Some l" for k l
    using that by (auto simp: live_for_def)
  then show "\<forall>l\<in>set (map snd (view_leases (WorkerStateView_replay L fs'))). \<not> lease_live l"
    unfolding view_of(1) using bt_values [OF inv(2)] by blast
  show "\<forall>s\<in>set (map snd (view_sessions (WorkerStateView_replay L fs'))). session_ended s"
  proof
    fix s' assume "s' \<in> set (map snd (view_sessions (WorkerStateView_replay L fs')))"
    then obtain k where k: "bt_get (view_sessions (WorkerStateView_replay L fs')) k = Some s'"
      using bt_values [OF view_of(2)] by blast
    note S = evidence_laws.recover_sessions_spec [OF assms(1,4,5) refl, of sclock now 0 ?ss 0 k]
    obtain s at where sof: "sessions_of L (session_events L ?fs1) k = Some (s, at)"
      and s': "s' = (if tombstoned (close_events L ?fs1) k at then close_session_row s else s)"
      using k by (auto simp: view_of(3) sess split: option.splits)
    show "session_ended s'"
    proof (cases "\<exists>s\<in>set ?ss. \<not> session_ended s \<and> ps_session_id s = k")
      case True
      with S sof have "session_ended s" by auto
      with s' show ?thesis by simp
    next
      case False
      with S sof have old: "sessions_of L (session_events L fs) k = Some (s, at)" by auto
      let ?row = "if tombstoned (close_events L fs) k at then close_session_row s else s"
      have "bt_get (view_sessions ?v) k = Some ?row" using old by (simp add: view_of(3))
      then have "?row \<in> set ?ss" using assms(2) bt_values [OF view_of(2)] by blast
      moreover have "ps_session_id ?row = k" using sessions_of_id [OF old] by simp
      ultimately have ended: "session_ended ?row" using False by blast
      have "tombstoned (close_events L ?fs1) k at" if "tombstoned (close_events L fs) k at"
        using that S by (auto simp: tombstoned_def)
      with ended s' show ?thesis by (auto split: if_splits)
    qed
  qed
qed

section \<open>Compaction keeps the latest records\<close>

text \<open>The lines compaction is meant to keep: of those with a key, the last one per key.\<close>

fun keep_last :: "(string \<times> string option) list \<Rightarrow> (string \<times> string option) list" where
  "keep_last [] = []"
| "keep_last (lk # rest) =
     (if snd lk \<noteq> None \<and> snd lk \<in> snd ` set rest then keep_last rest else lk # keep_last rest)"

lemma last_index_get:
  "if Some k \<in> snd ` set ls then \<exists>j\<ge>i. bt_get (last_index_per_key i ls m) k = Some j
   else bt_get (last_index_per_key i ls m) k = bt_get m k"
proof (induction ls arbitrary: i m)
  case (Cons lk ls)
  obtain line key where lk: "lk = (line, key)" by fastforce
  let ?m = "case key of Some k \<Rightarrow> bt_insert k i m | None \<Rightarrow> m"
  show ?case
  proof (cases "Some k \<in> snd ` set ls")
    case True
    with Cons.IH [of "Suc i" ?m] obtain j where "Suc i \<le> j" "bt_get (last_index_per_key (Suc i) ls ?m) k = Some j"
      by auto
    with True show ?thesis by (auto simp: lk intro!: exI [of _ j])
  next
    case False
    with Cons.IH [of "Suc i" ?m] have "bt_get (last_index_per_key (Suc i) ls ?m) k = bt_get ?m k" by simp
    with False show ?thesis by (cases key) (auto simp: lk)
  qed
qed simp

lemma compact_keeps_last:
  "map snd (filter (keep_line (last_index_per_key i ls m)) (enumerate i ls)) = keep_last ls"
proof (induction ls arbitrary: i m)
  case (Cons lk ls)
  obtain line key where lk: "lk = (line, key)" by fastforce
  show ?case
  proof (cases key)
    case None
    with Cons.IH [of "Suc i" m] show ?thesis by (simp add: lk keep_line_def)
  next
    case (Some k)
    with Cons.IH [of "Suc i" "bt_insert k i m"] last_index_get [of k ls "Suc i" "bt_insert k i m"]
    show ?thesis by (auto simp: lk keep_line_def split: if_splits)
  qed
qed simp

lemma keep_last_subset: "set (keep_last ls) \<subseteq> set ls"
  by (induction ls) auto

lemma keep_last_keys: "snd ` set (keep_last ls) = snd ` set ls"
  by (induction ls) auto

lemma keep_last_idem: "keep_last (keep_last ls) = keep_last ls"
  by (induction ls) (auto simp: keep_last_keys)

text \<open>On lines that stand for leases, keeping the last per key does not change the latest leases.\<close>

definition lease_line :: "evidence_lib \<Rightarrow> string \<Rightarrow> PersistedWorkerLease \<Rightarrow> bool" where
  "lease_line L c l \<longleftrightarrow> (\<exists>now. c = envelope_text L now ''worker_leases'' (el_lease_to_value L l))"

definition corrupt_line :: "evidence_lib \<Rightarrow> string \<Rightarrow> bool" where
  "corrupt_line L c \<longleftrightarrow> el_of_slice L c = None \<and> parse_line L c = None"

definition lease_of_line :: "evidence_lib \<Rightarrow> string \<Rightarrow> PersistedWorkerLease option" where
  "lease_of_line L c = Option.bind (parse_line L c) (\<lambda>e. el_lease_of_value L (ee_record e))"

lemma replay_events:
  "rp_events (foldl (replay_step L) r cs) = rp_events r @ List.map_filter (parse_line L) cs \<and>
   rp_skipped_lines (foldl (replay_step L) r cs) =
     rp_skipped_lines r + length (filter (\<lambda>c. parse_line L c = None) cs)"
  by (induction cs arbitrary: r) (auto simp: replay_step_def List.map_filter_simps split: option.split)

lemma latest_of_lines:
  "latest_leases L (List.map_filter (parse_line L) cs) =
   foldl put_lease [] (List.map_filter (lease_of_line L) cs)"
  by (induction cs rule: rev_induct)
    (auto simp: latest_leases_def List.map_filter_simps map_filter_append lease_of_line_def insert_lease_def
      put_lease_def split: option.split)

lemma find_app: "find P (xs @ ys) = (case find P xs of Some x \<Rightarrow> Some x | None \<Rightarrow> find P ys)"
  by (induction xs) auto

lemma keep_last_find:
  assumes "\<forall>ck\<in>set ls. \<exists>l. f (fst ck) = Some l \<and> snd ck = Some (pl_lease_id l)"
  shows "find (\<lambda>l. pl_lease_id l = k) (rev (List.map_filter f (map fst (keep_last ls)))) =
    find (\<lambda>l. pl_lease_id l = k) (rev (List.map_filter f (map fst ls)))"
  using assms
proof (induction ls)
  case (Cons ck ls)
  obtain l where l: "f (fst ck) = Some l" "snd ck = Some (pl_lease_id l)" using Cons.prems by auto
  show ?case
  proof (cases "snd ck \<in> snd ` set ls")
    case True
    then obtain ck' l' where "ck' \<in> set ls" "f (fst ck') = Some l'" "pl_lease_id l' = pl_lease_id l"
      using Cons.prems l by auto
    then have "l' \<in> set (List.map_filter f (map fst ls))"
      by (auto simp: List.map_filter_def intro!: image_eqI [of _ _ "fst ck'"])
    then have "find (\<lambda>x. pl_lease_id x = pl_lease_id l) (rev (List.map_filter f (map fst ls))) \<noteq> None"
      using \<open>pl_lease_id l' = pl_lease_id l\<close> by (auto simp: find_None_iff)
    then show ?thesis using Cons True l by (auto simp: List.map_filter_simps find_app split: option.split)
  next
    case False
    with Cons l show ?thesis by (auto simp: List.map_filter_simps find_app split: option.split)
  qed
qed simp

lemma chunks_lines:
  assumes "\<forall>l\<in>set ls. NL \<notin> set l \<and> l \<noteq> []"
  shows "chunks (concat (map (\<lambda>l. l @ [NL]) ls)) = ls \<and> closed_file (concat (map (\<lambda>l. l @ [NL]) ls))"
  using assms
proof (induction ls rule: rev_induct)
  case (snoc l ls)
  then show ?case using chunks_append [of "concat (map (\<lambda>l. l @ [NL]) ls)" l] by (simp add: closed_file_def)
qed (simp add: closed_file_def)

lemma chunk_props: "c \<in> set (chunks raw) \<Longrightarrow> NL \<notin> set c \<and> c \<noteq> []"
  using split_on_pieces [of c "\<lambda>c. c = NL" raw] by (auto simp: chunks_def)

context evidence_laws
begin

lemma lease_line_parses:
  assumes "lease_line L c l"
  shows "lease_of_line L c = Some l" "keyed_line L ''lease_id'' c = Some (c, Some (pl_lease_id l))"
proof -
  obtain now where c: "c = envelope_text L now ''worker_leases'' (el_lease_to_value L l)"
    using assms by (auto simp: lease_line_def)
  show "lease_of_line L c = Some l"
    by (simp add: c lease_of_line_def parse_line_envelope envelope_event_def lease_rt)
  have "el_of_slice L c = el_of_text L c" by (simp add: c envelope_text_def of_slice [OF text_utf8])
  then show "keyed_line L ''lease_id'' c = Some (c, Some (pl_lease_id l))"
    by (simp add: c keyed_line_def envelope_text_def of_to_text json_get_def [of "JObject _"] lease_key)
qed

lemma corrupt_line_parses:
  "corrupt_line L c \<Longrightarrow> lease_of_line L c = None \<and> keyed_line L key c = None"
  by (simp add: corrupt_line_def lease_of_line_def keyed_line_def)

lemma keyed_lines:
  assumes "\<forall>c\<in>set cs. (\<exists>l. lease_line L c l) \<or> corrupt_line L c"
  shows "List.map_filter (\<lambda>x. x) (map (keyed_line L ''lease_id'') cs) =
    map (\<lambda>c. (c, map_option pl_lease_id (lease_of_line L c))) (filter (\<lambda>c. lease_of_line L c \<noteq> None) cs)"
  using assms
proof (induction cs)
  case (Cons c cs)
  from Cons.prems consider l where "lease_line L c l" | "corrupt_line L c" by auto
  then show ?case
  proof cases
    case 1
    with Cons lease_line_parses [OF 1] show ?thesis by (simp add: List.map_filter_simps)
  next
    case 2
    with Cons corrupt_line_parses [OF 2] show ?thesis by (simp add: List.map_filter_simps)
  qed
qed (simp add: List.map_filter_simps)

lemma compact_leases:
  assumes "fs ''worker_leases'' = Some raw"
    and "\<forall>c\<in>set (chunks raw). (\<exists>l. lease_line L c l) \<or> corrupt_line L c"
    and "compact_stream L ''worker_leases'' ''lease_id'' fs = (report, fs')"
  obtains kept where "fs' ''worker_leases'' = Some (concat (map (\<lambda>c. c @ [NL]) kept))"
    "chunks (concat (map (\<lambda>c. c @ [NL]) kept)) = kept" "closed_file (concat (map (\<lambda>c. c @ [NL]) kept))"
    "\<forall>c\<in>set kept. c \<in> set (chunks raw) \<and> (\<exists>l. lease_line L c l)"
    "\<forall>k. bt_get (leases_of L fs') k = bt_get (leases_of L fs) k"
    "kept = map fst (keep_last (map (\<lambda>c. (c, map_option pl_lease_id (lease_of_line L c)))
       (filter (\<lambda>c. lease_of_line L c \<noteq> None) (chunks raw))))"
    "rp_skipped_lines (read_stream L fs' ''worker_leases'') = 0"
proof -
  let ?W = "filter (\<lambda>c. lease_of_line L c \<noteq> None) (chunks raw)"
  let ?ls = "map (\<lambda>c. (c, map_option pl_lease_id (lease_of_line L c))) ?W"
  let ?kept = "map fst (keep_last ?ls)"
  note keyed = keyed_lines [OF assms(2)]
  have "map (\<lambda>ilk. fst (snd ilk) @ [NL]) (filter (keep_line (last_index_per_key 0 ?ls [])) (enumerate 0 ?ls))
      = map (\<lambda>c. c @ [NL]) ?kept"
    unfolding compact_keeps_last [of 0 ?ls "[]", symmetric] by simp
  moreover have "fs' ''worker_leases'' = Some (concat (map (\<lambda>ilk. fst (snd ilk) @ [NL])
      (filter (keep_line (last_index_per_key 0 ?ls [])) (enumerate 0 ?ls))))"
    using assms(3) unfolding compact_stream_def Let_def assms(1) option.case keyed
    by (auto simp only: prod.inject fun_upd_same)
  ultimately have f: "fs' ''worker_leases'' = Some (concat (map (\<lambda>c. c @ [NL]) ?kept))" by simp
  have sub: "\<forall>c\<in>set ?kept. c \<in> set (chunks raw) \<and> lease_of_line L c \<noteq> None"
    using keep_last_subset [of ?ls] by fastforce
  have ch: "chunks (concat (map (\<lambda>c. c @ [NL]) ?kept)) = ?kept \<and> closed_file (concat (map (\<lambda>c. c @ [NL]) ?kept))"
    using sub chunk_props by (intro chunks_lines) blast
  have lines: "\<forall>c\<in>set ?kept. c \<in> set (chunks raw) \<and> (\<exists>l. lease_line L c l)"
    using sub assms(2) corrupt_line_parses by blast
  have ev: "leases_of L fs' = foldl put_lease [] (List.map_filter (lease_of_line L) ?kept)"
    "leases_of L fs = foldl put_lease [] (List.map_filter (lease_of_line L) (chunks raw))"
    using f ch assms(1)
    by (simp_all add: leases_of_def read_stream_def replay_events empty_replay_def latest_of_lines)
  have W: "List.map_filter (lease_of_line L) (chunks raw) = List.map_filter (lease_of_line L) (map fst ?ls)"
    by (simp add: List.map_filter_def comp_def)
  have pre: "\<forall>ck\<in>set ?ls. \<exists>l. lease_of_line L (fst ck) = Some l \<and> snd ck = Some (pl_lease_id l)"
    by auto
  have same: "\<forall>k. bt_get (leases_of L fs') k = bt_get (leases_of L fs) k"
    unfolding ev W put_leases_get keep_last_find [OF pre] by (intro allI refl)
  have none: "rp_skipped_lines (read_stream L fs' ''worker_leases'') = 0"
  proof -
    have "parse_line L c \<noteq> None" if "lease_of_line L c \<noteq> None" for c
      using that by (cases "parse_line L c") (simp_all add: lease_of_line_def)
    then have "\<forall>c\<in>set ?kept. parse_line L c \<noteq> None" using sub by blast
    then have empty: "filter (\<lambda>c. parse_line L c = None) ?kept = []" unfolding filter_empty_conv by blast
    have "rp_skipped_lines (read_stream L fs' ''worker_leases'') =
        rp_skipped_lines empty_replay + length (filter (\<lambda>c. parse_line L c = None) ?kept)"
      unfolding read_stream_def f option.case ch [THEN conjunct1] by (rule replay_events [THEN conjunct2])
    then show ?thesis unfolding empty by (simp add: empty_replay_def)
  qed
  show thesis using that [OF f _ _ lines same refl none] ch by blast
qed

end

section \<open>States the writers can reach\<close>

text \<open>
  The lease stream as the program's own operations move it, in any order and any number of times,
  from an empty journal: an acquisition attempt of any lease, a release or a revocation of any
  writer lease, restart recovery, and compaction. Iteration orders and clock values are arbitrary.
\<close>

inductive lease_reachable :: "evidence_lib \<Rightarrow> streams \<Rightarrow> bool" for L where
  start: "lease_reachable L (\<lambda>_. None)"
| acquire: "lease_reachable L fs \<Longrightarrow> (\<And>xs. set (perm xs) = set xs) \<Longrightarrow>
    try_acquire_worker_lease L perm clock lease fs = (r, fs') \<Longrightarrow> lease_reachable L fs'"
| release: "lease_reachable L fs \<Longrightarrow> lease_reachable L (release_writer_lease L now w at fs)"
| revoke: "lease_reachable L fs \<Longrightarrow> lease_reachable L (revoke_writer_lease L now w at code reason fs)"
| recover: "lease_reachable L fs \<Longrightarrow> (\<And>xs. set (sperm xs) = set xs) \<Longrightarrow> (\<And>xs. set (lperm xs) = set xs) \<Longrightarrow>
    recover_interrupted L sperm lperm sclock lclock tm fs = (report, fs') \<Longrightarrow> lease_reachable L fs'"
| compact: "lease_reachable L fs \<Longrightarrow>
    compact_stream L ''worker_leases'' ''lease_id'' fs = (creport, fs') \<Longrightarrow> lease_reachable L fs'"

definition all_closed :: "streams \<Rightarrow> bool" where
  "all_closed fs \<longleftrightarrow> (\<forall>kind. stream_closed fs kind)"

definition at_most_one_live :: "evidence_lib \<Rightarrow> streams \<Rightarrow> bool" where
  "at_most_one_live L fs \<longleftrightarrow> (\<forall>cap l l'. l \<in> live_for cap (leases_of L fs) \<longrightarrow>
     l' \<in> live_for cap (leases_of L fs) \<longrightarrow> l = l')"

definition lease_stream_ok :: "evidence_lib \<Rightarrow> streams \<Rightarrow> bool" where
  "lease_stream_ok L fs \<longleftrightarrow> at_most_one_live L fs \<and>
     all_closed fs \<and>
     (\<forall>c\<in>set (chunks (unwrap_or (fs ''worker_leases'') [])). \<exists>l. lease_line L c l)"

lemma at_most_one_mono:
  "(\<And>cap. live_for cap (leases_of L fs') \<subseteq> live_for cap (leases_of L fs)) \<Longrightarrow>
   at_most_one_live L fs \<Longrightarrow> at_most_one_live L fs'"
  unfolding at_most_one_live_def by blast

lemma all_closed_append: "all_closed fs \<Longrightarrow> all_closed (append_locked L now kind rec fs)"
  by (simp add: all_closed_def stream_closed_append)

definition lease_lines :: "evidence_lib \<Rightarrow> streams \<Rightarrow> bool" where
  "lease_lines L fs \<longleftrightarrow> (\<forall>c\<in>set (chunks (unwrap_or (fs ''worker_leases'') [])). \<exists>l. lease_line L c l)"

context evidence_laws
begin

lemma lease_lines_append:
  assumes "all_closed fs" and "lease_lines L fs"
  shows "lease_lines L (append_locked L now ''worker_leases'' (el_lease_to_value L l) fs)"
proof -
  let ?t = "envelope_text L now ''worker_leases'' (el_lease_to_value L l)"
  have "chunks (unwrap_or (fs ''worker_leases'') [] @ ?t @ [NL]) = chunks (unwrap_or (fs ''worker_leases'') []) @ [?t]"
    using assms(1) text_one_line text_not_empty
    by (intro chunks_append) (simp_all add: all_closed_def stream_closed_def envelope_text_def)
  then show ?thesis
    using assms(2) by (auto simp: lease_lines_def append_locked_def encoded_record_def lease_line_def)
qed

lemma lease_lines_other: "kind \<noteq> ''worker_leases'' \<Longrightarrow> lease_lines L (append_locked L now kind rec fs) = lease_lines L fs"
  by (simp add: lease_lines_def)

lemma append_leases_shape:
  "all_closed fs \<Longrightarrow> lease_lines L fs \<Longrightarrow>
   all_closed (append_leases L clock i ls fs) \<and> lease_lines L (append_leases L clock i ls fs)"
  by (induction ls arbitrary: i fs) (simp_all add: lease_lines_append all_closed_append)

lemma recover_shape:
  "all_closed fs \<Longrightarrow> lease_lines L fs \<Longrightarrow>
   all_closed (fst (recover_leases L clock now i ls fs n)) \<and>
   lease_lines L (fst (recover_leases L clock now i ls fs n))"
  "all_closed fs \<Longrightarrow> lease_lines L fs \<Longrightarrow>
   all_closed (fst (recover_sessions L clock now i ss fs n)) \<and>
   lease_lines L (fst (recover_sessions L clock now i ss fs n))"
proof -
  show "all_closed fs \<Longrightarrow> lease_lines L fs \<Longrightarrow>
   all_closed (fst (recover_leases L clock now i ls fs n)) \<and>
   lease_lines L (fst (recover_leases L clock now i ls fs n))"
    by (induction ls arbitrary: i fs n)
      (simp_all add: lease_lines_append all_closed_append upsert_worker_lease_def)
  show "all_closed fs \<Longrightarrow> lease_lines L fs \<Longrightarrow>
   all_closed (fst (recover_sessions L clock now i ss fs n)) \<and>
   lease_lines L (fst (recover_sessions L clock now i ss fs n))"
    by (induction ss arbitrary: i fs n)
      (simp_all add: lease_lines_other all_closed_append upsert_worker_session_def close_session_def Let_def)
qed

lemma finish_lease_ok:
  assumes "lease_stream_ok L fs" and "\<not> lease_live l"
  shows "lease_stream_ok L (upsert_worker_lease L now l fs)"
proof -
  have c: "all_closed fs" and ll: "lease_lines L fs" and one: "at_most_one_live L fs"
    using assms(1) by (simp_all add: lease_stream_ok_def lease_lines_def)
  have "leases_of L (upsert_worker_lease L now l fs) = foldl put_lease (leases_of L fs) [l]"
    using upsert_lease(1) [of fs now l] c by (simp add: all_closed_def)
  then have "live_for cap (leases_of L (upsert_worker_lease L now l fs)) \<subseteq> live_for cap (leases_of L fs)" for cap
    using live_after_ending [of "[l]" cap "leases_of L fs"] assms(2) by simp
  from at_most_one_mono [OF this one]
  show ?thesis
    using all_closed_append [OF c] lease_lines_append [OF c ll]
    by (simp add: lease_stream_ok_def lease_lines_def upsert_worker_lease_def)
qed

end

lemma lease_lines_no_skip:
  assumes "evidence_laws L" and "lease_lines L fs"
  shows "rp_skipped_lines (read_stream L fs ''worker_leases'') = 0"
proof -
  have "parse_line L c \<noteq> None" if "c \<in> set (chunks (unwrap_or (fs ''worker_leases'') []))" for c
    using assms that evidence_laws.parse_line_envelope [OF assms(1)]
    by (auto simp: lease_lines_def lease_line_def)
  then show ?thesis
    by (cases "fs ''worker_leases''") (auto simp: read_stream_def replay_events empty_replay_def filter_empty_conv)
qed

lemma no_live_values:
  assumes "\<forall>l\<in>set (map snd (leases_of L fs)). \<not> lease_live l"
  shows "live_for cap (leases_of L fs) = {}"
proof -
  have "bt_inv (leases_of L fs)" using leases_ok_of [of L fs] by (simp add: leases_ok_def)
  from bt_values [OF this] assms show ?thesis unfolding live_for_def by blast
qed

lemma recover_interrupted_snd:
  "recover_interrupted L sperm lperm sclock lclock now fs = (report, fs') \<Longrightarrow>
   fs' = fst (recover_leases L lclock now 0 (lperm (map snd (view_leases (WorkerStateView_replay L fs))))
     (fst (recover_sessions L sclock now 0 (sperm (map snd (view_sessions (WorkerStateView_replay L fs)))) fs 0)) 0)"
  by (simp add: recover_interrupted_def Let_def split: prod.splits)

lemma compact_other:
  "compact_stream L kind key fs = (report, fs') \<Longrightarrow> kind' \<noteq> kind \<Longrightarrow> fs' kind' = fs kind'"
  by (auto simp: compact_stream_def Let_def split: option.splits)

lemma reachable_ok:
  assumes "evidence_laws L" and "lease_reachable L fs"
  shows "lease_stream_ok L fs"
  using assms(2)
proof (induction rule: lease_reachable.induct)
  case start
  show ?case
    by (simp add: lease_stream_ok_def at_most_one_live_def live_for_def leases_of_def read_stream_def
        empty_replay_def latest_leases_def all_closed_def stream_closed_def closed_file_def)
next
  case (acquire fs perm clock lease r fs')
  have c: "all_closed fs" "lease_lines L fs" "at_most_one_live L fs"
    using acquire.IH by (simp_all add: lease_stream_ok_def lease_lines_def)
  from acquire.hyps(3) show ?case
  proof (cases rule: try_acquire_cases)
    case taken
    have shape: "all_closed fs' \<and> lease_lines L fs'"
      unfolding taken(3) by (rule evidence_laws.append_leases_shape [OF assms(1) c(1,2)])
    have "stream_closed fs ''worker_leases''" using c(1) by (simp add: all_closed_def)
    note ex = evidence_laws.acquire_exclusive [OF assms(1) acquire.hyps(2) this acquire.hyps(3) [unfolded taken(1)]]
    have "l = l'" if "l \<in> live_for cap (leases_of L fs')" "l' \<in> live_for cap (leases_of L fs')" for cap l l'
    proof (cases "cap = pl_capability lease")
      case True
      with that ex show ?thesis by auto
    next
      case False
      with that ex have "l \<in> live_for cap (leases_of L fs)" "l' \<in> live_for cap (leases_of L fs)" by blast+
      with c(3) show ?thesis unfolding at_most_one_live_def by blast
    qed
    with shape show ?thesis by (simp add: lease_stream_ok_def lease_lines_def at_most_one_live_def)
  qed (use acquire.IH in simp_all)
next
  case (release fs now w at)
  then show ?case
    by (simp add: release_writer_lease_def finish_writer_lease_def lease_live_def
        evidence_laws.finish_lease_ok [OF assms(1)])
next
  case (revoke fs now w at code reason)
  then show ?case
    by (simp add: revoke_writer_lease_def finish_writer_lease_def lease_live_def
        evidence_laws.finish_lease_ok [OF assms(1)])
next
  case (recover fs sperm lperm sclock lclock tm report fs')
  have c: "all_closed fs" "lease_lines L fs" using recover.IH by (simp_all add: lease_stream_ok_def lease_lines_def)
  note ss = evidence_laws.recover_shape(2) [OF assms(1) c]
  have shape: "all_closed fs'" "lease_lines L fs'"
    unfolding recover_interrupted_snd [OF recover.hyps(4)]
    using evidence_laws.recover_shape(1) [OF assms(1) ss [THEN conjunct1] ss [THEN conjunct2]] by blast+
  have closed: "stream_closed fs k" for k using c(1) by (simp add: all_closed_def)
  have "\<forall>l\<in>set (map snd (leases_of L fs')). \<not> lease_live l"
    using recovered_view(2) [OF assms(1) recover.hyps(2,3) closed closed closed recover.hyps(4)]
    by (simp add: view_of(1))
  then have "live_for cap (leases_of L fs') = {}" for cap by (rule no_live_values)
  with shape show ?case by (simp add: lease_stream_ok_def lease_lines_def at_most_one_live_def)
next
  case (compact fs creport fs')
  have c: "all_closed fs" "lease_lines L fs" "at_most_one_live L fs"
    using compact.IH by (simp_all add: lease_stream_ok_def lease_lines_def)
  show ?case
  proof (cases "fs ''worker_leases''")
    case None
    then have "fs' = fs" using compact.hyps(2) by (simp add: compact_stream_def)
    with compact.IH show ?thesis by simp
  next
    case (Some raw)
    have lines: "\<forall>c\<in>set (chunks raw). (\<exists>l. lease_line L c l) \<or> corrupt_line L c"
      using c(2) Some by (simp add: lease_lines_def)
    obtain kept where
      k: "fs' ''worker_leases'' = Some (concat (map (\<lambda>c. c @ [NL]) kept))"
      "chunks (concat (map (\<lambda>c. c @ [NL]) kept)) = kept" "closed_file (concat (map (\<lambda>c. c @ [NL]) kept))"
      "\<forall>c\<in>set kept. c \<in> set (chunks raw) \<and> (\<exists>l. lease_line L c l)"
      "\<forall>k. bt_get (leases_of L fs') k = bt_get (leases_of L fs) k"
      by (rule evidence_laws.compact_leases [OF assms(1) Some lines compact.hyps(2)])
    have "live_for cap (leases_of L fs') = live_for cap (leases_of L fs)" for cap
      using k(5) by (simp add: live_for_def)
    moreover have "stream_closed fs' kind" for kind
      using k(1,3) c(1) compact_other [OF compact.hyps(2), of kind]
      by (cases "kind = ''worker_leases''") (simp_all add: stream_closed_def all_closed_def)
    ultimately show ?thesis
      using c(3) k(1,2,4) by (simp add: lease_stream_ok_def at_most_one_live_def all_closed_def)
  qed
qed

section \<open>A concrete library\<close>

definition demo_lease_to :: "PersistedWorkerLease \<Rightarrow> json" where
  "demo_lease_to l = JObject [(''lease_id'', JString (pl_lease_id l)), (''rest'', JArray
     [JString (pl_task_id l), JString (pl_session_id l), JString (pl_node_id l), JString (pl_capability l),
      JString (pl_status l), JString (pl_issued_at l), JString (pl_updated_at l), JString (pl_expires_at l),
      opt_str (pl_acked_at l), opt_str (pl_completed_at l), opt_str (pl_failure_code l), opt_str (pl_reason l)])]"

definition demo_lease_of :: "json \<Rightarrow> PersistedWorkerLease option" where
  "demo_lease_of v = (case v of
     JObject [(k, JString i), (k', JArray [JString a, JString b, JString c, JString d, JString e, JString f,
       JString g, JString h, j, m, n, p])] \<Rightarrow>
       Some \<lparr>pl_lease_id = i, pl_task_id = a, pl_session_id = b, pl_node_id = c, pl_capability = d,
         pl_status = e, pl_issued_at = f, pl_updated_at = g, pl_expires_at = h, pl_acked_at = as_str j,
         pl_completed_at = as_str m, pl_failure_code = as_str n, pl_reason = as_str p\<rparr>
   | _ \<Rightarrow> None)"

definition demo_session_to :: "PersistedWorkerSession \<Rightarrow> json" where
  "demo_session_to s = JArray
     [JString (ps_session_id s), JString (ps_node_id s), JString (ps_instance_id s), JString (ps_runtime s),
      JString (ps_runtime_version s), JString (ps_worker_version s), JString (ps_protocol s),
      JString (ps_capabilities_json s), JString (ps_metadata_json s), JNumber (PosInt (ps_max_concurrency s)),
      write_u32 (ps_active_tasks s), JString (ps_status s), JNumber (Float (ps_load s)),
      JString (ps_created_at s), JString (ps_updated_at s), JString (ps_expires_at s),
      JString (ps_last_seen_at s), opt_str (ps_closed_at s), opt_str (ps_current_task_id s),
      opt_str (ps_lease_id s)]"

definition demo_session_of :: "json \<Rightarrow> PersistedWorkerSession option" where
  "demo_session_of v = (case v of
     JArray [JString a, JString b, JString c, JString d, JString e, JString f, JString g, JString h, JString i,
       JNumber (PosInt j), k, JString l, JNumber (Float m), JString n, JString p, JString q, JString r, s, t, u] \<Rightarrow>
       map_option (\<lambda>k. \<lparr>ps_session_id = a, ps_node_id = b, ps_instance_id = c, ps_runtime = d,
         ps_runtime_version = e, ps_worker_version = f, ps_protocol = g, ps_capabilities_json = h,
         ps_metadata_json = i, ps_max_concurrency = j, ps_active_tasks = k, ps_status = l, ps_load = m,
         ps_created_at = n, ps_updated_at = p, ps_expires_at = q, ps_last_seen_at = r,
         ps_closed_at = as_str s, ps_current_task_id = as_str t, ps_lease_id = as_str u\<rparr>) (read_u32 k)
   | _ \<Rightarrow> None)"

text \<open>Instants of the concrete library are the lengths of their strings.\<close>

definition demo_evidence :: evidence_lib where
  "demo_evidence =
     \<lparr>el_to_text = wire, el_of_text = unwire,
      el_of_slice = unwire,
      el_lease_to_value = demo_lease_to, el_lease_of_value = demo_lease_of,
      el_session_to_value = demo_session_to, el_session_of_value = demo_session_of,
      el_parse_time = (\<lambda>s. Some (int (length s)))\<rparr>"

lemma as_str_opt_str [simp]: "as_str (opt_str x) = x"
  by (cases x) (simp_all add: opt_str_def)

interpretation demo_evidence: evidence_laws demo_evidence
proof -
  have "json_text (el_to_text demo_evidence) (el_of_text demo_evidence)"
    using wire_text.json_text_axioms by (simp add: demo_evidence_def)
  moreover have "evidence_laws_axioms demo_evidence"
    by unfold_locales
      (simp_all add: demo_evidence_def demo_lease_to_def demo_lease_of_def demo_session_to_def
        demo_session_of_def json_get_def)
  ultimately show "evidence_laws demo_evidence" by (rule evidence_laws.intro)
qed

definition demo_lease :: "string \<Rightarrow> string \<Rightarrow> PersistedWorkerLease" where
  "demo_lease i work =
     \<lparr>pl_lease_id = i, pl_task_id = work, pl_session_id = ''worker'', pl_node_id = ''node'',
      pl_capability = ''workspace.write:/repo'', pl_status = ''issued'', pl_issued_at = ''1'',
      pl_updated_at = ''1'', pl_expires_at = ''123'', pl_acked_at = None, pl_completed_at = None,
      pl_failure_code = None, pl_reason = None\<rparr>"

definition demo_fs :: streams where
  "demo_fs = snd (try_acquire_worker_lease demo_evidence (\<lambda>xs. xs) (\<lambda>_. 7) (demo_lease ''lease-1'' ''work-a'') (\<lambda>_. None))"

lemma demo_acquire:
  "try_acquire_worker_lease demo_evidence (\<lambda>xs. xs) (\<lambda>_. 7) (demo_lease ''lease-1'' ''work-a'') (\<lambda>_. None) =
     (Inr None, demo_fs)"
proof -
  have "fst (try_acquire_worker_lease demo_evidence (\<lambda>xs. xs) (\<lambda>_. 7) (demo_lease ''lease-1'' ''work-a'') (\<lambda>_. None)) =
      Inr None"
    by (simp add: try_acquire_worker_lease_def demo_lease_def lease_live_def demo_evidence_def read_stream_def
        empty_replay_def latest_leases_def)
  then show ?thesis by (simp add: demo_fs_def prod_eq_iff)
qed

section \<open>Properties\<close>

text \<open>C1. However acquisitions, releases, revocations, restart recoveries and compactions interleave
  from an empty journal, replay never shows two live leases of one capability, so two writers
  never hold one repository; and the lease stream is never damaged by its own writers.\<close>

theorem writer_exclusion:
  assumes "evidence_laws L" and "lease_reachable L fs"
  shows "at_most_one_live L fs \<and> rp_skipped_lines (read_stream L fs ''worker_leases'') = 0"
  using reachable_ok [OF assms] lease_lines_no_skip [OF assms(1)]
  by (simp add: lease_stream_ok_def lease_lines_def)

theorem writer_exclusion_witness:
  "at_most_one_live demo_evidence demo_fs \<and> lease_reachable demo_evidence demo_fs"
proof -
  have "lease_reachable demo_evidence demo_fs"
    by (rule lease_reachable.acquire [OF lease_reachable.start _ demo_acquire]) simp
  then show ?thesis using writer_exclusion [OF demo_evidence.evidence_laws_axioms] by blast
qed

text \<open>C2. A granted acquisition is exclusive, when the lease stream ends at a line boundary, as every append
  leaves it: after it, replay shows the new lease as the only live one of its capability (expired
  predecessors are ended in the record), no lease of another capability came to life, and the stream
  again ends at a line boundary. The candidates may be visited in any order, and what is used of the text
  format and the derived codecs is that they read back what they wrote.\<close>

theorem acquire_grants_exclusively:
  assumes "evidence_laws L" and "\<And>xs. set (perm xs) = set xs" and "stream_closed fs ''worker_leases''"
    and "try_acquire_worker_lease L perm clock lease fs = (Inr None, fs')"
  shows "live_for (pl_capability lease) (leases_of L fs') = {lease} \<and>
    (\<forall>cap. cap \<noteq> pl_capability lease \<longrightarrow> live_for cap (leases_of L fs') \<subseteq> live_for cap (leases_of L fs)) \<and>
    stream_closed fs' ''worker_leases''"
  using evidence_laws.acquire_exclusive [OF assms] by blast

theorem acquire_grants_exclusively_witness:
  "live_for ''workspace.write:/repo'' (leases_of demo_evidence demo_fs) = {demo_lease ''lease-1'' ''work-a''}"
proof -
  have "stream_closed (\<lambda>_. None) ''worker_leases''" by (simp add: stream_closed_def closed_file_def)
  from acquire_grants_exclusively [OF demo_evidence.evidence_laws_axioms _ this demo_acquire]
  show ?thesis by (simp add: demo_lease_def)
qed

text \<open>A refused acquisition writes nothing, and when it names a holder, that holder is a live lease of
  the same capability in the record whose expiry is later than the requested start.\<close>

theorem acquire_refusal_is_silent:
  assumes "\<And>xs. set (perm xs) = set xs"
    and "try_acquire_worker_lease L perm clock lease fs = (r, fs')" and "r \<noteq> Inr None"
  shows "fs' = fs \<and> (\<forall>h. r = Inr (Some h) \<longrightarrow> h \<in> live_for (pl_capability lease) (leases_of L fs) \<and>
    (\<exists>t e. el_parse_time L (pl_issued_at lease) = Some t \<and> el_parse_time L (pl_expires_at h) = Some e \<and> t < e))"
  using assms(2)
proof (cases rule: try_acquire_cases)
  case (held h)
  have "bt_inv (leases_of L fs)" using leases_ok_of [of L fs] by (simp add: leases_ok_def)
  then have "\<exists>k. bt_get (leases_of L fs) k = Some h"
    using held(3) assms(1) [of "map snd (leases_of L fs)"] bt_values [of "leases_of L fs" h] by blast
  with held show ?thesis by (auto simp: live_for_def)
qed (use assms(3) in simp_all)

theorem acquire_refusal_is_silent_witness:
  "\<exists>r fs'. try_acquire_worker_lease demo_evidence (\<lambda>xs. xs) (\<lambda>_. 7) (demo_lease ''lease-2'' ''work-b'') demo_fs = (r, fs')
     \<and> fs' = demo_fs"
proof -
  let ?a = "try_acquire_worker_lease demo_evidence (\<lambda>xs. xs) (\<lambda>_. 7) (demo_lease ''lease-2'' ''work-b'') demo_fs"
  have closed: "stream_closed (\<lambda>_. None) ''worker_leases''" by (simp add: stream_closed_def closed_file_def)
  note ex = demo_evidence.acquire_exclusive [OF _ closed demo_acquire]
  obtain r fs' where a: "?a = (r, fs')" by fastforce
  have "r \<noteq> Inr None"
  proof
    assume n: "r = Inr None"
    have lf: "demo_lease ''lease-1'' ''work-a'' \<in> live_for ''workspace.write:/repo'' (leases_of demo_evidence demo_fs)"
      using ex by (simp add: demo_lease_def)
    then have h: "demo_lease ''lease-1'' ''work-a'' \<in> set (map snd (leases_of demo_evidence demo_fs))"
      using bt_values [of "leases_of demo_evidence demo_fs"] leases_ok_of [of demo_evidence demo_fs]
      unfolding live_for_def leases_ok_def by blast
    have time: "el_parse_time demo_evidence x = Some (int (length x))" for x by (simp add: demo_evidence_def)
    have "scan_candidates demo_evidence (int (length (pl_issued_at (demo_lease ''lease-2'' ''work-b'')))) cs acc
        \<noteq> Inr (None, ex)"
      if "demo_lease ''lease-1'' ''work-a'' \<in> set cs" for cs acc ex
      using that by (induction cs arbitrary: acc) (auto simp: time demo_lease_def split: if_splits)
    moreover have "demo_lease ''lease-1'' ''work-a'' \<in> set (filter (\<lambda>c. pl_capability c =
        pl_capability (demo_lease ''lease-2'' ''work-b'') \<and> lease_live c) (map snd (leases_of demo_evidence demo_fs)))"
      using h by (simp add: demo_lease_def lease_live_def)
    ultimately show False
      using a n unfolding try_acquire_worker_lease_def Let_def leases_of_def [symmetric]
      by (auto simp: time split: if_splits option.splits sum.splits prod.splits)
  qed
  from acquire_refusal_is_silent [OF _ a this] a show ?thesis by auto
qed

text \<open>Restart recovery leaves nothing running in the record: afterwards every replayed session is ended
  and no lease is live, and running it again writes nothing and reports zero.\<close>

theorem recover_interrupted_idempotent:
  assumes "evidence_laws L" and "\<And>xs. set (sperm xs) = set xs" and "\<And>xs. set (lperm xs) = set xs"
    and "\<And>kind. stream_closed fs kind"
    and "recover_interrupted L sperm lperm sclock lclock now fs = (report, fs')"
  shows "(\<forall>s\<in>set (map snd (view_sessions (WorkerStateView_replay L fs'))). session_ended s) \<and>
    (\<forall>l\<in>set (map snd (view_leases (WorkerStateView_replay L fs'))). \<not> lease_live l) \<and>
    recover_interrupted L sperm lperm sclock' lclock' now' fs' =
      (\<lparr>rr_sessions_closed = 0, rr_leases_revoked = 0\<rparr>, fs')"
proof -
  note R = recovered_view [OF assms(1-3) assms(4) assms(4) assms(4) assms(5)]
  have "\<forall>s\<in>set (sperm (map snd (view_sessions (WorkerStateView_replay L fs')))). session_ended s"
    "\<forall>l\<in>set (lperm (map snd (view_leases (WorkerStateView_replay L fs')))). \<not> lease_live l"
    using R(1,2) by (simp_all only: assms(2,3))
  with R(1,2) show ?thesis by (simp add: recover_interrupted_def Let_def recover_idle)
qed

theorem recover_interrupted_idempotent_witness:
  "\<exists>report fs'. recover_interrupted demo_evidence (\<lambda>xs. xs) (\<lambda>xs. xs) (\<lambda>_. 8) (\<lambda>_. 9) ''now'' demo_fs = (report, fs') \<and>
     (\<forall>l\<in>set (map snd (view_leases (WorkerStateView_replay demo_evidence fs'))). \<not> lease_live l)"
proof -
  have "lease_reachable demo_evidence demo_fs"
    by (rule lease_reachable.acquire [OF lease_reachable.start _ demo_acquire]) simp
  then have "stream_closed demo_fs kind" for kind
    using reachable_ok [OF demo_evidence.evidence_laws_axioms] by (simp add: lease_stream_ok_def all_closed_def)
  moreover obtain report fs' where r:
    "recover_interrupted demo_evidence (\<lambda>xs. xs) (\<lambda>xs. xs) (\<lambda>_. 8) (\<lambda>_. 9) ''now'' demo_fs = (report, fs')"
    by fastforce
  ultimately show ?thesis
    using recover_interrupted_idempotent [OF demo_evidence.evidence_laws_axioms refl refl _ r] r by blast
qed

text \<open>C39. Compacting the lease stream changes no lease, when each line of the file is a lease record as the
  program writes it or a line that neither replay nor compaction can read: replay shows the same latest record
  under every id, no line is left that replay would skip, every kept line is a line of the old file, and
  compacting again rewrites the same bytes. (A line that only one of the two readers accepts, such as a record
  with invalid UTF-8 inside a string or one without a kind, is outside this statement: compaction reads bytes
  strictly and asks for less of a record than replay does.)\<close>

theorem compaction_preserves_leases:
  assumes "evidence_laws L" and "fs ''worker_leases'' = Some raw"
    and "\<forall>c\<in>set (chunks raw). (\<exists>l. lease_line L c l) \<or> corrupt_line L c"
    and "compact_stream L ''worker_leases'' ''lease_id'' fs = (report, fs')"
  shows "(\<forall>k. bt_get (leases_of L fs') k = bt_get (leases_of L fs) k) \<and>
    rp_skipped_lines (read_stream L fs' ''worker_leases'') = 0 \<and>
    set (chunks (unwrap_or (fs' ''worker_leases'') [])) \<subseteq> set (chunks raw) \<and>
    snd (compact_stream L ''worker_leases'' ''lease_id'' fs') = fs'"
proof -
  let ?key = "\<lambda>c. (c, map_option pl_lease_id (lease_of_line L c))"
  obtain kept where k: "fs' ''worker_leases'' = Some (concat (map (\<lambda>c. c @ [NL]) kept))"
    "chunks (concat (map (\<lambda>c. c @ [NL]) kept)) = kept" "closed_file (concat (map (\<lambda>c. c @ [NL]) kept))"
    "\<forall>c\<in>set kept. c \<in> set (chunks raw) \<and> (\<exists>l. lease_line L c l)"
    "\<forall>k. bt_get (leases_of L fs') k = bt_get (leases_of L fs) k"
    "kept = map fst (keep_last (map ?key (filter (\<lambda>c. lease_of_line L c \<noteq> None) (chunks raw))))"
    "rp_skipped_lines (read_stream L fs' ''worker_leases'') = 0"
    by (rule evidence_laws.compact_leases [OF assms])
  obtain report2 fs2 where c2: "compact_stream L ''worker_leases'' ''lease_id'' fs' = (report2, fs2)" by fastforce
  have lines: "\<forall>c\<in>set (chunks (concat (map (\<lambda>c. c @ [NL]) kept))). (\<exists>l. lease_line L c l) \<or> corrupt_line L c"
    using k(2,4) by simp
  obtain kept2 where k2: "fs2 ''worker_leases'' = Some (concat (map (\<lambda>c. c @ [NL]) kept2))"
    "chunks (concat (map (\<lambda>c. c @ [NL]) kept2)) = kept2" "closed_file (concat (map (\<lambda>c. c @ [NL]) kept2))"
    "\<forall>c\<in>set kept2. c \<in> set (chunks (concat (map (\<lambda>c. c @ [NL]) kept))) \<and> (\<exists>l. lease_line L c l)"
    "\<forall>k. bt_get (leases_of L fs2) k = bt_get (leases_of L fs') k"
    "kept2 = map fst (keep_last (map ?key (filter (\<lambda>c. lease_of_line L c \<noteq> None)
      (chunks (concat (map (\<lambda>c. c @ [NL]) kept))))))"
    "rp_skipped_lines (read_stream L fs2 ''worker_leases'') = 0"
    by (rule evidence_laws.compact_leases [OF assms(1) k(1) lines c2])
  let ?ls = "map ?key (filter (\<lambda>c. lease_of_line L c \<noteq> None) (chunks raw))"
  have all: "filter (\<lambda>c. lease_of_line L c \<noteq> None) kept = kept"
    using k(4) evidence_laws.lease_line_parses(1) [OF assms(1)] by (intro filter_True) fastforce
  have "map ?key kept = keep_last ?ls"
    unfolding k(6) map_map using keep_last_subset [of ?ls] by (intro map_idI) fastforce
  then have "kept2 = kept" unfolding k2(6) k(2) all by (simp only: keep_last_idem) (simp only: k(6))
  moreover have "fs2 = fs'"
  proof
    fix kind show "fs2 kind = fs' kind"
      using k(1) k2(1) \<open>kept2 = kept\<close> compact_other [OF c2] by (cases "kind = ''worker_leases''") simp_all
  qed
  ultimately show ?thesis using k(1,2,4,5,7) c2 by auto
qed

theorem compaction_preserves_leases_witness:
  "\<exists>report fs'. compact_stream demo_evidence ''worker_leases'' ''lease_id'' demo_fs = (report, fs') \<and>
     bt_get (leases_of demo_evidence fs') ''lease-1'' = bt_get (leases_of demo_evidence demo_fs) ''lease-1''"
proof -
  have "lease_reachable demo_evidence demo_fs"
    by (rule lease_reachable.acquire [OF lease_reachable.start _ demo_acquire]) simp
  then have lines: "lease_lines demo_evidence demo_fs"
    using reachable_ok [OF demo_evidence.evidence_laws_axioms] by (simp add: lease_stream_ok_def lease_lines_def)
  have closed: "stream_closed (\<lambda>_. None) ''worker_leases''" by (simp add: stream_closed_def closed_file_def)
  have "live_for ''workspace.write:/repo'' (leases_of demo_evidence demo_fs) \<noteq> {}"
    using demo_evidence.acquire_exclusive [OF _ closed demo_acquire] by (simp add: demo_lease_def)
  then have "demo_fs ''worker_leases'' \<noteq> None"
    by (cases "demo_fs ''worker_leases''")
      (simp_all add: live_for_def leases_of_def read_stream_def empty_replay_def latest_leases_def)
  then obtain raw where raw: "demo_fs ''worker_leases'' = Some raw" by blast
  obtain report fs' where c: "compact_stream demo_evidence ''worker_leases'' ''lease_id'' demo_fs = (report, fs')"
    by fastforce
  have "\<forall>c\<in>set (chunks raw). (\<exists>l. lease_line demo_evidence c l) \<or> corrupt_line demo_evidence c"
    using lines raw by (simp add: lease_lines_def)
  from compaction_preserves_leases [OF demo_evidence.evidence_laws_axioms raw this c] c show ?thesis by blast
qed






end
