(* ===== verification/Operator_Codec.thy ===== *)
theory Operator_Codec
  imports Operator_Event Wire
begin

text \<open>
  A concrete codec for operator events with the field names and enum tags of
  \<open>crates/heiwa_evidence/src/operator.rs\<close>. The program derives its codec with \<open>serde\<close>; this one
  is an instance the laws on that codec are checked on.
\<close>

section \<open>Enums by name\<close>

definition event_tags :: "(OperatorEventType \<times> string) list" where
  "event_tags =
     [(ThreadCreated, ''thread_created''), (ProjectCreated, ''project_created''),
      (ProjectMetadataUpdated, ''project_metadata_updated''), (ThreadMetadataUpdated, ''thread_metadata_updated''),
      (TurnStarted, ''turn_started''), (UserMessage, ''user_message''), (RoutePlanned, ''route_planned''),
      (RouteAttempted, ''route_attempted''), (RouteCompleted, ''route_completed''), (RouteFailed, ''route_failed''),
      (AssistantStarted, ''assistant_started''), (AssistantCompleted, ''assistant_completed''),
      (ToolCallStarted, ''tool_call_started''), (ToolCallCompleted, ''tool_call_completed''),
      (ApprovalRequested, ''approval_requested''), (ApprovalDecided, ''approval_decided''),
      (ArtifactCreated, ''artifact_created''), (TestResult, ''test_result''), (ReceiptLinked, ''receipt_linked''),
      (Blocker, ''blocker''), (TurnCompleted, ''turn_completed''), (TurnCancelRequested, ''turn_cancel_requested''),
      (TurnInterrupted, ''turn_interrupted''), (LegacySessionImported, ''legacy_session_imported''),
      (WorkCreated, ''work_created''), (WorkLinked, ''work_linked''), (WorkspacePrepared, ''workspace_prepared''),
      (WorkspaceReleased, ''workspace_released''), (WorkerLaunched, ''worker_launched''),
      (WorkerHeartbeat, ''worker_heartbeat''), (WorkerExited, ''worker_exited''), (WorkerStale, ''worker_stale''),
      (PaneOpened, ''pane_opened''), (PaneClosed, ''pane_closed'')]"

definition risk_tags :: "(OperatorRisk \<times> string) list" where
  "risk_tags = [(RiskLow, ''low''), (RiskMedium, ''medium''), (RiskHigh, ''high''), (RiskCritical, ''critical'')]"

definition sensitivity_tags :: "(OperatorSensitivity \<times> string) list" where
  "sensitivity_tags = [(PublicSafe, ''public_safe''), (LocalPrivate, ''local_private''), (Restricted, ''restricted'')]"

definition write_tag :: "('a \<times> string) list \<Rightarrow> 'a \<Rightarrow> json" where
  "write_tag tags x = JString (unwrap_or (map_of tags x) [])"

definition read_tag :: "('a \<times> string) list \<Rightarrow> json \<Rightarrow> 'a option" where
  "read_tag tags v = Option.bind (as_str v) (map_of (map (\<lambda>(x, t). (t, x)) tags))"

lemma event_tag_round_trip [simp]: "read_tag event_tags (write_tag event_tags x) = Some x"
  by (cases x) (simp_all add: read_tag_def write_tag_def event_tags_def unwrap_or_def)

lemma risk_tag_round_trip [simp]: "read_tag risk_tags (write_tag risk_tags x) = Some x"
  by (cases x) (simp_all add: read_tag_def write_tag_def risk_tags_def unwrap_or_def)

lemma sensitivity_tag_round_trip [simp]: "read_tag sensitivity_tags (write_tag sensitivity_tags x) = Some x"
  by (cases x) (simp_all add: read_tag_def write_tag_def sensitivity_tags_def unwrap_or_def)

section \<open>The event\<close>

fun read_strings :: "json list \<Rightarrow> string list option" where
  "read_strings [] = Some []"
| "read_strings (v # vs) =
     (case as_str v of None \<Rightarrow> None | Some s \<Rightarrow> map_option ((#) s) (read_strings vs))"

definition strings_field :: "json \<Rightarrow> string \<Rightarrow> string list option" where
  "strings_field v k = (case json_get v k of Some (JArray vs) \<Rightarrow> read_strings vs | _ \<Rightarrow> None)"

lemma read_strings_map [simp]: "read_strings (map JString ss) = Some ss"
  by (induction ss) simp_all

definition actor_to_value :: "OperatorActor \<Rightarrow> json" where
  "actor_to_value a = JObject [(''kind'', JString (actor_kind a)), (''id'', JString (actor_id a))]"

definition actor_of_value :: "json \<Rightarrow> OperatorActor option" where
  "actor_of_value v =
     (case (string_field v ''kind'', string_field v ''id'') of
        (Some k, Some i) \<Rightarrow> Some \<lparr>actor_kind = k, actor_id = i\<rparr>
      | _ \<Rightarrow> None)"

definition event_to_value :: "OperatorEvent \<Rightarrow> json" where
  "event_to_value e = JObject
     ([(''schema_version'', write_u32 (ev_schema_version e)), (''event_id'', JString (ev_event_id e)),
       (''thread_id'', JString (ev_thread_id e)), (''turn_id'', opt_str (ev_turn_id e)),
       (''run_id'', opt_str (ev_run_id e)), (''call_id'', opt_str (ev_call_id e)),
       (''event_type'', write_tag event_tags (ev_event_type e)), (''occurred_at'', JString (ev_occurred_at e)),
       (''actor'', actor_to_value (ev_actor e)), (''risk_class'', write_tag risk_tags (ev_risk_class e)),
       (''sensitivity'', write_tag sensitivity_tags (ev_sensitivity e)),
       (''parent_event_id'', opt_str (ev_parent_event_id e)), (''correlation_id'', opt_str (ev_correlation_id e)),
       (''source_refs'', JArray (map JString (ev_source_refs e))),
       (''evidence_refs'', JArray (map JString (ev_evidence_refs e))), (''payload'', ev_payload e)] @
      (case ev_work_id e of None \<Rightarrow> [] | Some w \<Rightarrow> [(''work_id'', JString w)]))"

definition event_of_value :: "json \<Rightarrow> OperatorEvent option" where
  "event_of_value v =
     Option.bind (Option.bind (json_get v ''schema_version'') read_u32) (\<lambda>sv.
     Option.bind (string_field v ''event_id'') (\<lambda>eid.
     Option.bind (string_field v ''thread_id'') (\<lambda>tid.
     Option.bind (optional_field as_str v ''turn_id'') (\<lambda>turn.
     Option.bind (optional_field as_str v ''run_id'') (\<lambda>run.
     Option.bind (optional_field as_str v ''call_id'') (\<lambda>call.
     Option.bind (optional_field as_str v ''work_id'') (\<lambda>work.
     Option.bind (Option.bind (json_get v ''event_type'') (read_tag event_tags)) (\<lambda>ty.
     Option.bind (string_field v ''occurred_at'') (\<lambda>at.
     Option.bind (Option.bind (json_get v ''actor'') actor_of_value) (\<lambda>actor.
     Option.bind (Option.bind (json_get v ''risk_class'') (read_tag risk_tags)) (\<lambda>risk.
     Option.bind (Option.bind (json_get v ''sensitivity'') (read_tag sensitivity_tags)) (\<lambda>sens.
     Option.bind (optional_field as_str v ''parent_event_id'') (\<lambda>parent.
     Option.bind (optional_field as_str v ''correlation_id'') (\<lambda>corr.
     Option.bind (strings_field v ''source_refs'') (\<lambda>src.
     Option.bind (strings_field v ''evidence_refs'') (\<lambda>evi.
     Option.bind (json_get v ''payload'') (\<lambda>payload.
       Some \<lparr>ev_schema_version = sv, ev_event_id = eid, ev_thread_id = tid, ev_turn_id = turn, ev_run_id = run,
             ev_call_id = call, ev_work_id = work, ev_event_type = ty, ev_occurred_at = at, ev_actor = actor,
             ev_risk_class = risk, ev_sensitivity = sens, ev_parent_event_id = parent, ev_correlation_id = corr,
             ev_source_refs = src, ev_evidence_refs = evi, ev_payload = payload\<rparr>)))))))))))))))))"

lemma optional_of_opt_str:
  "json_get v k = Some (opt_str s) \<Longrightarrow> optional_field as_str v k = Some s"
  by (cases s) (simp_all add: optional_field_def opt_str_def)

lemma actor_round_trip [simp]: "actor_of_value (actor_to_value a) = Some a"
  by (simp add: actor_of_value_def actor_to_value_def string_field_def json_get_def)

lemma event_round_trip: "event_of_value (event_to_value e) = Some e"
  by (cases "ev_work_id e")
    (simp_all add: event_of_value_def event_to_value_def json_get_def string_field_def strings_field_def
      optional_of_opt_str optional_field_def [of _ _ "''work_id''"])

end
