(* ===== verification/Operator_Journal.thy ===== *)
theory Operator_Journal
  imports Operator_Codec Sensitive
begin

text \<open>
  The operator journal, \<open>crates/heiwa_evidence/src/operator.rs\<close>: appending an event behind the
  sensitive-material gate, repairing a torn tail, opaque cursors, and lock-free replay of pages
  and of the newest window.

  The stream file is \<open>None\<close> when missing and its bytes otherwise; offsets are natural numbers (a
  file is shorter than \<open>2 ^ 63\<close> bytes). A buffered reader is the list of non-empty buffers its
  \<open>fill_buf\<close> returns; how a file is cut into buffers is the parameter \<open>bufs\<close>. A lock-free reader
  looks at the file several times while a writer may change it, so every look has its own
  content. Parameters in \<open>operator_lib\<close>: \<open>serde_json\<close>, the derived codecs of the envelope and the
  cursor, base64 and SHA-256. I/O errors other than a missing file or a short read, the creation
  of directories and a poisoned mutex are not modelled.
\<close>

section \<open>Constants and records\<close>

definition OPERATOR_CURSOR_VERSION :: u8 where "OPERATOR_CURSOR_VERSION = 1"

definition OPERATOR_STREAM_KIND :: string where "OPERATOR_STREAM_KIND = ''operator_events''"

definition JOURNAL_ENVELOPE_VERSION :: u32 where "JOURNAL_ENVELOPE_VERSION = 1"

definition MAX_OPERATOR_ENVELOPE_BYTES :: nat where "MAX_OPERATOR_ENVELOPE_BYTES = 16 * 1024 * 1024"

definition MAX_OPERATOR_CORRUPT_LINES_PER_READ :: nat where "MAX_OPERATOR_CORRUPT_LINES_PER_READ = 1024"

definition MAX_OPERATOR_CORRUPT_BYTES_PER_READ :: nat where
  "MAX_OPERATOR_CORRUPT_BYTES_PER_READ = 64 * 1024 * 1024"

definition MAX_OPERATOR_LINEAGE_READ_ATTEMPTS :: nat where "MAX_OPERATOR_LINEAGE_READ_ATTEMPTS = 3"

record OperatorCursor =
  oc_version :: u8
  oc_fingerprint :: string
  oc_offset :: nat

record OperatorPage =
  pg_events :: "CursorEvent list"
  pg_next_cursor :: "string option"
  pg_skipped_lines :: nat

record OperatorTail =
  tl_events :: "CursorEvent list"
  tl_stream_present :: bool
  tl_starts_mid_stream :: bool
  tl_dropped_events :: nat
  tl_skipped_lines :: nat
  tl_window_bytes :: nat

definition OperatorTail_is_complete :: "OperatorTail \<Rightarrow> bool" where
  "OperatorTail_is_complete t \<longleftrightarrow>
     \<not> tl_starts_mid_stream t \<and> tl_dropped_events t = 0 \<and> tl_skipped_lines t = 0"

datatype journal_error =
    SensitiveMaterial
  | EnvelopeTooLarge nat
  | LineTooLong
  | TornTailTooLong
  | BudgetExceeded
  | ShortRead
  | StreamMissing

datatype cursor_reason =
    NotBase64 | Malformed | UnsupportedVersion u8 | FingerprintMismatch | BeyondEnd
  | NotEventBoundary | LineageChanged

datatype CursorError = InvalidCursor cursor_reason | UnstableLineage nat | Storage journal_error

record OperatorEnvelope =
  oe_v :: u32
  oe_at_ms :: u64
  oe_kind :: string
  oe_record :: OperatorEvent

record operator_lib =
  ol_to_text :: "json \<Rightarrow> string"
  ol_event_to_value :: "OperatorEvent \<Rightarrow> json"
  ol_envelope_of_slice :: "string \<Rightarrow> OperatorEnvelope option"
  ol_sha256 :: "string \<Rightarrow> string"
  ol_cursor_to_text :: "OperatorCursor \<Rightarrow> string"
  ol_cursor_of_text :: "string \<Rightarrow> OperatorCursor option"
  ol_base64 :: "string \<Rightarrow> string"
  ol_unbase64 :: "string \<Rightarrow> string option"

section \<open>Cursors and lines\<close>

definition encode_cursor :: "operator_lib \<Rightarrow> OperatorCursor \<Rightarrow> string" where
  "encode_cursor L cursor = ol_base64 L (ol_cursor_to_text L cursor)"

definition decode_cursor :: "operator_lib \<Rightarrow> string \<Rightarrow> CursorError + OperatorCursor" where
  "decode_cursor L raw =
     (case ol_unbase64 L raw of
        None \<Rightarrow> Inl (InvalidCursor NotBase64)
      | Some bytes \<Rightarrow>
          (case ol_cursor_of_text L bytes of
             None \<Rightarrow> Inl (InvalidCursor Malformed)
           | Some cursor \<Rightarrow> Inr cursor))"

definition sha256_hex :: "operator_lib \<Rightarrow> string \<Rightarrow> string" where
  "sha256_hex L bytes = concat (map hex_byte (ol_sha256 L bytes))"

definition parse_operator_line :: "operator_lib \<Rightarrow> string \<Rightarrow> OperatorEvent option" where
  "parse_operator_line L line =
     (case ol_envelope_of_slice L line of
        None \<Rightarrow> None
      | Some envelope \<Rightarrow>
          if oe_v envelope \<noteq> JOURNAL_ENVELOPE_VERSION \<or> oe_kind envelope \<noteq> OPERATOR_STREAM_KIND then None
          else Some (oe_record envelope))"

text \<open>What one call of \<open>read_capped_line\<close> yields; a complete line includes its line feed.\<close>

datatype capped_line = Eof | Torn string | CompleteLine string

definition position_nl :: "string \<Rightarrow> nat option" where
  "position_nl s = (if NL \<in> set s then Some (length (takeWhile (\<lambda>c. c \<noteq> NL) s)) else None)"

function read_capped_line ::
    "string \<Rightarrow> string list \<Rightarrow> journal_error + capped_line \<times> string list" where
  "read_capped_line line reader =
     (case reader of
        [] \<Rightarrow> Inr (if line = [] then Eof else Torn line, [])
      | available # rest \<Rightarrow>
          if available = [] then Inr (if line = [] then Eof else Torn line, reader)
          else
            let n = (case position_nl available of Some p \<Rightarrow> p + 1 | None \<Rightarrow> length available) in
            if length line + n > MAX_OPERATOR_ENVELOPE_BYTES then Inl LineTooLong
            else
              let line' = line @ take n available;
                  reader' = (if n < length available then drop n available # rest else rest) in
              if available ! (n - 1) = NL then Inr (CompleteLine line', reader')
              else read_capped_line line' reader')"
  by pat_completeness auto
termination
proof (relation "measure (\<lambda>(line, reader). length reader + length (concat reader))", simp, goal_cases)
  case (1 line reader available rest n line' reader')
  then have "0 < n" by (simp split: option.splits)
  with 1 show ?case by (auto simp: position_nl_def split: option.splits if_splits)
qed

declare read_capped_line.simps [simp del]

lemma position_nl_Some: "position_nl s = Some p \<Longrightarrow> p < length s \<and> s ! p = NL \<and> take p s = takeWhile (\<lambda>c. c \<noteq> NL) s"
proof -
  assume "position_nl s = Some p"
  then have nl: "NL \<in> set s" and p: "p = length (takeWhile (\<lambda>c. c \<noteq> NL) s)"
    by (simp_all add: position_nl_def split: if_splits)
  then have "dropWhile (\<lambda>c. c \<noteq> NL) s \<noteq> []" by (auto simp: dropWhile_eq_Nil_conv)
  with p have "p < length s" by (metis length_append length_greater_0_conv less_add_same_cancel1 takeWhile_dropWhile_id)
  with p show ?thesis using nth_length_takeWhile [of "\<lambda>c. c \<noteq> NL" s] by (simp add: takeWhile_eq_take [symmetric])
qed

lemma read_capped_line_length:
  "read_capped_line line reader = Inr (CompleteLine l, reader') \<Longrightarrow>
   length l + length (concat reader') = length line + length (concat reader) \<and> l \<noteq> [] \<and> length line < length l"
proof (induction line reader rule: read_capped_line.induct)
  case (1 line reader)
  show ?case
  proof (cases reader)
    case Nil
    with "1.prems" show ?thesis by (simp add: read_capped_line.simps [of line "[]"] split: if_splits)
  next
    case (Cons av rest)
    let ?n = "case position_nl av of Some p \<Rightarrow> p + 1 | None \<Rightarrow> length av"
    let ?r = "if ?n < length av then drop ?n av # rest else rest"
    have av: "av \<noteq> []" using "1.prems" Cons
      by (auto simp: read_capped_line.simps [of line "av # rest"] split: if_splits)
    have n: "0 < ?n" "?n \<le> length av" using av position_nl_Some [of av] by (auto split: option.split)
    have len: "length (concat ?r) + ?n = length (concat reader)" using n Cons by auto
    have ok: "\<not> length line + ?n > MAX_OPERATOR_ENVELOPE_BYTES" using "1.prems" Cons av
      by (auto simp: read_capped_line.simps [of line "av # rest"] Let_def split: if_splits)
    show ?thesis
    proof (cases "av ! (?n - 1) = NL")
      case True
      then have "l = line @ take ?n av" "reader' = ?r" using "1.prems" Cons av ok
        by (simp_all add: read_capped_line.simps [of line "av # rest"] Let_def)
      with n len show ?thesis by auto
    next
      case False
      then have "read_capped_line (line @ take ?n av) ?r = Inr (CompleteLine l, reader')"
        using "1.prems" Cons av ok by (simp add: read_capped_line.simps [of line "av # rest"] Let_def)
      from "1.IH" [OF Cons av refl ok refl refl False this] n len show ?thesis by auto
    qed
  qed
qed

text \<open>The results of calling \<open>read_capped_line\<close> until the reader ends or a line is refused.\<close>

function line_reads :: "string list \<Rightarrow> (journal_error + capped_line) list" where
  "line_reads reader =
     (case read_capped_line [] reader of
        Inl err \<Rightarrow> [Inl err]
      | Inr (CompleteLine l, reader') \<Rightarrow> Inr (CompleteLine l) # line_reads reader'
      | Inr (c, reader') \<Rightarrow> [Inr c])"
  by pat_completeness auto
termination
proof (relation "measure (\<lambda>r. length (concat r))", simp, goal_cases)
  case (1 reader p c reader' l)
  then have "length l + length (concat reader') = length (concat reader)" "l \<noteq> []"
    using read_capped_line_length [of "[]" reader l reader'] by auto
  then show ?case by (cases l) auto
qed

declare line_reads.simps [simp del]

record CorruptScanBudget =
  cb_lines :: nat
  cb_bytes :: nat

definition empty_budget :: CorruptScanBudget where
  "empty_budget = \<lparr>cb_lines = 0, cb_bytes = 0\<rparr>"

definition budget_record :: "CorruptScanBudget \<Rightarrow> nat \<Rightarrow> journal_error + CorruptScanBudget" where
  "budget_record b bytes =
     (let b' = \<lparr>cb_lines = cb_lines b + 1, cb_bytes = cb_bytes b + bytes\<rparr> in
      if cb_lines b' > MAX_OPERATOR_CORRUPT_LINES_PER_READ \<or> cb_bytes b' > MAX_OPERATOR_CORRUPT_BYTES_PER_READ
      then Inl BudgetExceeded else Inr b')"

fun fingerprint_loop ::
    "operator_lib \<Rightarrow> (journal_error + capped_line) list \<Rightarrow> CorruptScanBudget \<Rightarrow> journal_error + string" where
  "fingerprint_loop L [] budget = Inr ''empty''"
| "fingerprint_loop L (Inl err # _) budget = Inl err"
| "fingerprint_loop L (Inr Eof # _) budget = Inr ''empty''"
| "fingerprint_loop L (Inr (Torn line) # _) budget =
     (case budget_record budget (length line) of Inl err \<Rightarrow> Inl err | Inr _ \<Rightarrow> Inr ''empty'')"
| "fingerprint_loop L (Inr (CompleteLine line) # rest) budget =
     (if parse_operator_line L (butlast line) \<noteq> None then Inr (sha256_hex L (butlast line))
      else (case budget_record budget (length line) of
              Inl err \<Rightarrow> Inl err
            | Inr budget' \<Rightarrow> fingerprint_loop L rest budget'))"

definition first_line_fingerprint ::
    "operator_lib \<Rightarrow> (string \<Rightarrow> string list) \<Rightarrow> string option \<Rightarrow> journal_error + string" where
  "first_line_fingerprint L bufs file =
     (case file of
        None \<Rightarrow> Inr ''empty''
      | Some f \<Rightarrow> fingerprint_loop L (line_reads (bufs f)) empty_budget)"

section \<open>Scanning backwards\<close>

definition rposition_nl :: "string \<Rightarrow> nat option" where
  "rposition_nl s = map_option (\<lambda>i. length s - 1 - i) (position_nl (rev s))"

text \<open>The loop shared by tail repair and the boundary check: the position after the last line feed
  before \<open>hi\<close>, in chunks of 8192 bytes and not below \<open>oldest\<close>; \<open>None\<close> when the line is too long.\<close>

function scan_back :: "string \<Rightarrow> nat \<Rightarrow> nat \<Rightarrow> nat option" where
  "scan_back f oldest hi =
     (let start = max (hi - 8192) oldest;
          chunk = take (hi - start) (drop start f) in
      case rposition_nl chunk of
        Some index \<Rightarrow> Some (start + index + 1)
      | None \<Rightarrow>
          if start = 0 then Some 0
          else if start = oldest then (if f ! (start - 1) = NL then Some start else None)
          else scan_back f oldest start)"
  by pat_completeness auto
termination
  by (relation "measure (\<lambda>(f, oldest, hi). hi)") auto

declare scan_back.simps [simp del]

definition repair_unterminated_tail :: "string \<Rightarrow> journal_error + string" where
  "repair_unterminated_tail f =
     (if f = [] \<or> last f = NL then Inr f
      else (case scan_back f (length f - (MAX_OPERATOR_ENVELOPE_BYTES - 1)) (length f) of
              Some complete_len \<Rightarrow> Inr (take complete_len f)
            | None \<Rightarrow> Inl TornTailTooLong))"

definition offset_follows_valid_operator_event ::
    "operator_lib \<Rightarrow> string option \<Rightarrow> nat \<Rightarrow> journal_error + bool" where
  "offset_follows_valid_operator_event L file offset =
     (if offset = 0 then Inr True
      else case file of
        None \<Rightarrow> Inl StreamMissing
      | Some f \<Rightarrow>
          if offset > length f then Inl ShortRead
          else if f ! (offset - 1) \<noteq> NL \<or> offset = 1 then Inr False
          else
            let line_end = offset - 1 in
            (case scan_back f (line_end - (MAX_OPERATOR_ENVELOPE_BYTES - 1)) line_end of
               None \<Rightarrow> Inr False
             | Some line_start \<Rightarrow>
                 if line_start = line_end then Inr False
                 else Inr (parse_operator_line L (take (line_end - line_start) (drop line_start f)) \<noteq> None)))"

section \<open>Appending\<close>

definition operator_line :: "operator_lib \<Rightarrow> u64 \<Rightarrow> OperatorEvent \<Rightarrow> string" where
  "operator_line L now_ms event =
     ol_to_text L (JObject [(''at_ms'', JNumber (PosInt now_ms)), (''kind'', JString OPERATOR_STREAM_KIND),
       (''record'', ol_event_to_value L event), (''v'', write_u32 JOURNAL_ENVELOPE_VERSION)])"

definition append_event ::
    "operator_lib \<Rightarrow> (string \<Rightarrow> string list) \<Rightarrow> u64 \<Rightarrow> OperatorEvent \<Rightarrow> string option \<Rightarrow>
      (journal_error + CursorEvent) \<times> string option" where
  "append_event L bufs now_ms event file =
     (if find_sensitive (ol_event_to_value L event) \<noteq> None then (Inl SensitiveMaterial, file)
      else
        let bytes = operator_line L now_ms event @ [NL] in
        if length bytes > MAX_OPERATOR_ENVELOPE_BYTES then (Inl (EnvelopeTooLarge (length bytes)), file)
        else
          (case first_line_fingerprint L bufs file of
             Inl err \<Rightarrow> (Inl err, file)
           | Inr fingerprint_before \<Rightarrow>
               (case repair_unterminated_tail (unwrap_or file []) of
                  Inl err \<Rightarrow> (Inl err, Some (unwrap_or file []))
                | Inr repaired \<Rightarrow>
                    let f' = repaired @ bytes in
                    (case (if fingerprint_before = ''empty'' then first_line_fingerprint L bufs (Some f')
                           else Inr fingerprint_before) of
                       Inl err \<Rightarrow> (Inl err, Some f')
                     | Inr fingerprint \<Rightarrow>
                         (Inr \<lparr>ce_cursor = encode_cursor L
                                \<lparr>oc_version = OPERATOR_CURSOR_VERSION, oc_fingerprint = fingerprint,
                                 oc_offset = length f'\<rparr>,
                               ce_event = event\<rparr>, Some f')))))"

section \<open>Replay of a page\<close>

fun page_loop ::
    "operator_lib \<Rightarrow> string \<Rightarrow> nat \<Rightarrow> (journal_error + capped_line) list \<Rightarrow> nat \<Rightarrow> CursorEvent list \<Rightarrow> nat \<Rightarrow>
      CorruptScanBudget \<Rightarrow> journal_error + CursorEvent list \<times> nat" where
  "page_loop L fingerprint limit reads offset events skipped budget =
     (if length events \<ge> limit then Inr (events, skipped)
      else case reads of
        [] \<Rightarrow> Inr (events, skipped)
      | Inl err # _ \<Rightarrow> Inl err
      | Inr Eof # _ \<Rightarrow> Inr (events, skipped)
      | Inr (Torn line) # _ \<Rightarrow>
          (case budget_record budget (length line) of
             Inl err \<Rightarrow> Inl err | Inr _ \<Rightarrow> Inr (events, skipped + 1))
      | Inr (CompleteLine line) # rest \<Rightarrow>
          (case parse_operator_line L (butlast line) of
             Some event \<Rightarrow>
               page_loop L fingerprint limit rest (offset + length line)
                 (events @ [\<lparr>ce_cursor = encode_cursor L
                    \<lparr>oc_version = OPERATOR_CURSOR_VERSION, oc_fingerprint = fingerprint,
                     oc_offset = offset + length line\<rparr>, ce_event = event\<rparr>]) skipped budget
           | None \<Rightarrow>
               (case budget_record budget (length line) of
                  Inl err \<Rightarrow> Inl err
                | Inr budget' \<Rightarrow>
                    page_loop L fingerprint limit rest (offset + length line) events (skipped + 1) budget')))"

declare page_loop.simps [simp del]

text \<open>What the file was at each look of one attempt.\<close>

record attempt_view =
  at_len :: "string option"
  at_first :: "string option"
  at_boundary :: "string option"
  at_read :: "string option"
  at_last :: "string option"

definition start_offset ::
    "operator_lib \<Rightarrow> attempt_view \<Rightarrow> OperatorCursor option \<Rightarrow> string \<Rightarrow> CursorError + nat" where
  "start_offset L v decoded_cursor snapshot_fingerprint =
     (case decoded_cursor of
        None \<Rightarrow> Inr 0
      | Some decoded \<Rightarrow>
          if oc_fingerprint decoded \<noteq> snapshot_fingerprint then Inl (InvalidCursor FingerprintMismatch)
          else if oc_offset decoded > length (unwrap_or (at_len v) []) then Inl (InvalidCursor BeyondEnd)
          else (case offset_follows_valid_operator_event L (at_boundary v) (oc_offset decoded) of
                  Inl err \<Rightarrow> Inl (Storage err)
                | Inr False \<Rightarrow> Inl (InvalidCursor NotEventBoundary)
                | Inr True \<Rightarrow> Inr (oc_offset decoded)))"

definition attempt_page ::
    "operator_lib \<Rightarrow> (string \<Rightarrow> string list) \<Rightarrow> attempt_view \<Rightarrow> string option \<Rightarrow> OperatorCursor option \<Rightarrow>
      nat \<Rightarrow> string \<Rightarrow> CursorError + OperatorPage" where
  "attempt_page L bufs v cursor decoded_cursor limit snapshot_fingerprint =
     (case start_offset L v decoded_cursor snapshot_fingerprint of
        Inl err \<Rightarrow> Inl err
      | Inr start \<Rightarrow>
          (case (case at_read v of
                   None \<Rightarrow> Inr ([], 0)
                 | Some f \<Rightarrow>
                     page_loop L snapshot_fingerprint limit
                       (line_reads (bufs (take (length (unwrap_or (at_len v) []) - start) (drop start f))))
                       start [] 0 empty_budget) of
             Inl err \<Rightarrow> Inl (Storage err)
           | Inr (events, skipped) \<Rightarrow>
               Inr \<lparr>pg_events = events,
                    pg_next_cursor = (if events = [] then cursor else Some (ce_cursor (last events))),
                    pg_skipped_lines = skipped\<rparr>))"

text \<open>The retry loop; \<open>views\<close> are the attempts still allowed.\<close>

fun read_attempts ::
    "operator_lib \<Rightarrow> (string \<Rightarrow> string list) \<Rightarrow> attempt_view list \<Rightarrow> string option \<Rightarrow> OperatorCursor option \<Rightarrow>
      nat \<Rightarrow> CursorError + OperatorPage" where
  "read_attempts L bufs [] cursor decoded_cursor limit =
     Inl (UnstableLineage MAX_OPERATOR_LINEAGE_READ_ATTEMPTS)"
| "read_attempts L bufs (v # views) cursor decoded_cursor limit =
     (case first_line_fingerprint L bufs (at_first v) of
        Inl err \<Rightarrow> Inl (Storage err)
      | Inr snapshot_fingerprint \<Rightarrow>
          let attempt_result = attempt_page L bufs v cursor decoded_cursor limit snapshot_fingerprint in
          (case first_line_fingerprint L bufs (at_last v) of
             Inl err \<Rightarrow> Inl (Storage err)
           | Inr end_fingerprint \<Rightarrow>
               if end_fingerprint \<noteq> snapshot_fingerprint then
                 (if decoded_cursor \<noteq> None then Inl (InvalidCursor LineageChanged)
                  else if views = [] then Inl (UnstableLineage MAX_OPERATOR_LINEAGE_READ_ATTEMPTS)
                  else read_attempts L bufs views cursor decoded_cursor limit)
               else attempt_result))"

definition read_after ::
    "operator_lib \<Rightarrow> (string \<Rightarrow> string list) \<Rightarrow> (nat \<Rightarrow> attempt_view) \<Rightarrow> string option \<Rightarrow> nat \<Rightarrow>
      CursorError + OperatorPage" where
  "read_after L bufs views cursor limit =
     (let attempts = map views [0..<MAX_OPERATOR_LINEAGE_READ_ATTEMPTS] in
      case cursor of
        None \<Rightarrow> read_attempts L bufs attempts None None limit
      | Some raw \<Rightarrow>
          (case decode_cursor L raw of
             Inl err \<Rightarrow> Inl err
           | Inr decoded \<Rightarrow>
               if oc_version decoded \<noteq> OPERATOR_CURSOR_VERSION
               then Inl (InvalidCursor (UnsupportedVersion (oc_version decoded)))
               else read_attempts L bufs attempts cursor (Some decoded) limit))"

section \<open>The newest window\<close>

fun tail_loop ::
    "operator_lib \<Rightarrow> string \<Rightarrow> nat \<Rightarrow> (journal_error + capped_line) list \<Rightarrow> nat \<Rightarrow> CursorEvent list \<Rightarrow> nat \<Rightarrow> nat \<Rightarrow>
      CorruptScanBudget \<Rightarrow> journal_error + CursorEvent list \<times> nat \<times> nat" where
  "tail_loop L fingerprint max_events [] offset events dropped skipped budget = Inr (events, dropped, skipped)"
| "tail_loop L fingerprint max_events (Inl err # _) offset events dropped skipped budget = Inl err"
| "tail_loop L fingerprint max_events (Inr Eof # _) offset events dropped skipped budget =
     Inr (events, dropped, skipped)"
| "tail_loop L fingerprint max_events (Inr (Torn line) # _) offset events dropped skipped budget =
     (case budget_record budget (length line) of
        Inl err \<Rightarrow> Inl err | Inr _ \<Rightarrow> Inr (events, dropped, skipped + 1))"
| "tail_loop L fingerprint max_events (Inr (CompleteLine line) # rest) offset events dropped skipped budget =
     (let offset' = offset + length line in
      case parse_operator_line L (butlast line) of
        Some event \<Rightarrow>
          let row = \<lparr>ce_cursor = encode_cursor L
                \<lparr>oc_version = OPERATOR_CURSOR_VERSION, oc_fingerprint = fingerprint, oc_offset = offset'\<rparr>,
                ce_event = event\<rparr> in
          if length events = max_events then
            (if max_events = 0
             then tail_loop L fingerprint max_events rest offset' events (dropped + 1) skipped budget
             else tail_loop L fingerprint max_events rest offset' (tl events @ [row]) (dropped + 1) skipped budget)
          else tail_loop L fingerprint max_events rest offset' (events @ [row]) dropped skipped budget
      | None \<Rightarrow>
          (case budget_record budget (length line) of
             Inl err \<Rightarrow> Inl err
           | Inr budget' \<Rightarrow>
               tail_loop L fingerprint max_events rest offset' events dropped (skipped + 1) budget'))"

definition absent_tail :: OperatorTail where
  "absent_tail = \<lparr>tl_events = [], tl_stream_present = False, tl_starts_mid_stream = False,
     tl_dropped_events = 0, tl_skipped_lines = 0, tl_window_bytes = 0\<rparr>"

definition read_tail_window ::
    "operator_lib \<Rightarrow> (string \<Rightarrow> string list) \<Rightarrow> string option \<Rightarrow> nat \<Rightarrow> nat \<Rightarrow> nat \<Rightarrow> string \<Rightarrow>
      journal_error + OperatorTail" where
  "read_tail_window L bufs file file_len max_bytes max_events fingerprint =
     (case file of
        None \<Rightarrow> Inr absent_tail
      | Some f \<Rightarrow>
          let start = file_len - max_bytes in
          if start \<noteq> 0 \<and> start > length f then Inl ShortRead
          else
            let aligned = (start = 0 \<or> f ! (start - 1) = NL);
                reads = line_reads (bufs (take (file_len - start) (drop start f)));
                build = (\<lambda>rest offset.
                  case tail_loop L fingerprint max_events rest offset [] 0 0 empty_budget of
                    Inl err \<Rightarrow> Inl err
                  | Inr (events, dropped, skipped) \<Rightarrow>
                      Inr \<lparr>tl_events = events, tl_stream_present = True, tl_starts_mid_stream = (start > 0),
                           tl_dropped_events = dropped, tl_skipped_lines = skipped,
                           tl_window_bytes = file_len - start\<rparr>)
            in if aligned then build reads start
               else (case reads of
                       Inl err # _ \<Rightarrow> Inl err
                     | Inr (CompleteLine line) # rest \<Rightarrow> build rest (start + length line)
                     | _ \<Rightarrow> Inr \<lparr>tl_events = [], tl_stream_present = True, tl_starts_mid_stream = True,
                             tl_dropped_events = 0, tl_skipped_lines = 0, tl_window_bytes = file_len - start\<rparr>))"

fun tail_attempts ::
    "operator_lib \<Rightarrow> (string \<Rightarrow> string list) \<Rightarrow> attempt_view list \<Rightarrow> nat \<Rightarrow> nat \<Rightarrow> CursorError + OperatorTail" where
  "tail_attempts L bufs [] max_bytes max_events = Inl (UnstableLineage MAX_OPERATOR_LINEAGE_READ_ATTEMPTS)"
| "tail_attempts L bufs (v # views) max_bytes max_events =
     (case at_len v of
        None \<Rightarrow> Inr absent_tail
      | Some f \<Rightarrow>
          (case first_line_fingerprint L bufs (at_first v) of
             Inl err \<Rightarrow> Inl (Storage err)
           | Inr fingerprint \<Rightarrow>
               (case read_tail_window L bufs (at_read v) (length f) max_bytes max_events fingerprint of
                  Inl err \<Rightarrow> Inl (Storage err)
                | Inr tail \<Rightarrow>
                    (case first_line_fingerprint L bufs (at_last v) of
                       Inl err \<Rightarrow> Inl (Storage err)
                     | Inr end_fingerprint \<Rightarrow>
                         if end_fingerprint = fingerprint then Inr tail
                         else tail_attempts L bufs views max_bytes max_events))))"

definition read_tail ::
    "operator_lib \<Rightarrow> (string \<Rightarrow> string list) \<Rightarrow> (nat \<Rightarrow> attempt_view) \<Rightarrow> nat \<Rightarrow> nat \<Rightarrow>
      CursorError + OperatorTail" where
  "read_tail L bufs views max_bytes max_events =
     tail_attempts L bufs (map views [0..<MAX_OPERATOR_LINEAGE_READ_ATTEMPTS]) max_bytes max_events"

section \<open>Lines do not depend on buffering\<close>

text \<open>The lines of a byte string, without buffers.\<close>

function flat_reads :: "string \<Rightarrow> (journal_error + capped_line) list" where
  "flat_reads s =
     (if s = [] then [Inr Eof]
      else (case position_nl s of
              None \<Rightarrow> if length s > MAX_OPERATOR_ENVELOPE_BYTES then [Inl LineTooLong] else [Inr (Torn s)]
            | Some p \<Rightarrow>
                if p + 1 > MAX_OPERATOR_ENVELOPE_BYTES then [Inl LineTooLong]
                else Inr (CompleteLine (take (p + 1) s)) # flat_reads (drop (p + 1) s)))"
  by pat_completeness auto
termination
  by (relation "measure length") auto

declare flat_reads.simps [simp del]

text \<open>One call, on the bytes read so far and those to come.\<close>

definition flat_line :: "string \<Rightarrow> string \<Rightarrow> journal_error + capped_line \<times> string" where
  "flat_line line s =
     (case position_nl s of
        Some p \<Rightarrow> if length line + p + 1 > MAX_OPERATOR_ENVELOPE_BYTES then Inl LineTooLong
                  else Inr (CompleteLine (line @ take (p + 1) s), drop (p + 1) s)
      | None \<Rightarrow> if s \<noteq> [] \<and> length line + length s > MAX_OPERATOR_ENVELOPE_BYTES then Inl LineTooLong
                else Inr (if line @ s = [] then Eof else Torn (line @ s), []))"

lemma position_nl_append:
  "position_nl (a @ b) =
     (case position_nl a of Some p \<Rightarrow> Some p | None \<Rightarrow> map_option ((+) (length a)) (position_nl b))"
proof (cases "NL \<in> set a")
  case True
  then show ?thesis by (auto simp: position_nl_def takeWhile_append)
next
  case False
  then have "takeWhile (\<lambda>c. c \<noteq> NL) (a @ b) = a @ takeWhile (\<lambda>c. c \<noteq> NL) b"
    by (intro takeWhile_append2) auto
  with False show ?thesis by (auto simp: position_nl_def)
qed

lemma position_nl_None: "position_nl s = None \<longleftrightarrow> NL \<notin> set s"
  by (simp add: position_nl_def)

lemma flat_line_append_none:
  assumes "position_nl a = None" "a \<noteq> []" "length line + length a \<le> MAX_OPERATOR_ENVELOPE_BYTES"
  shows "flat_line line (a @ s) = flat_line (line @ a) s"
  using assms by (auto simp: flat_line_def position_nl_append split: option.split)

lemma read_capped_line_flat:
  assumes "[] \<notin> set reader"
  shows "map_sum (\<lambda>e. e) (\<lambda>(c, r). (c, concat r)) (read_capped_line line reader) = flat_line line (concat reader) \<and>
    (\<forall>c r. read_capped_line line reader = Inr (c, r) \<longrightarrow> [] \<notin> set r)"
  using assms
proof (induction line reader rule: read_capped_line.induct)
  case (1 line reader)
  show ?case
  proof (cases reader)
    case Nil
    then show ?thesis by (simp add: read_capped_line.simps [of line "[]"] flat_line_def position_nl_def)
  next
    case (Cons av rest)
    have av: "av \<noteq> []" and rest: "[] \<notin> set rest" using "1.prems" Cons by auto
    show ?thesis
    proof (cases "position_nl av")
      case (Some p)
      note p = position_nl_Some [OF Some]
      then show ?thesis using Cons av rest Some
        by (auto simp: read_capped_line.simps [of line "av # rest"] flat_line_def position_nl_append Let_def)
    next
      case None
      have last: "av ! (length av - 1) \<noteq> NL" using None av by (auto simp: position_nl_None in_set_conv_nth)
      show ?thesis
      proof (cases "length line + length av > MAX_OPERATOR_ENVELOPE_BYTES")
        case True
        then show ?thesis using Cons av None
          by (auto simp: read_capped_line.simps [of line "av # rest"] flat_line_def position_nl_append
              split: option.splits)
      next
        case False
        have step: "read_capped_line line reader = read_capped_line (line @ av) rest"
          using Cons av None False last by (simp add: read_capped_line.simps [of line "av # rest"])
        have ih: "map_sum (\<lambda>e. e) (\<lambda>(c, r). (c, concat r)) (read_capped_line (line @ av) rest) =
              flat_line (line @ av) (concat rest) \<and>
            (\<forall>c r. read_capped_line (line @ av) rest = Inr (c, r) \<longrightarrow> [] \<notin> set r)"
          using "1.IH" [OF Cons av refl _ refl refl] None False last rest by simp
        then show ?thesis using flat_line_append_none [OF None av] False Cons step by simp
      qed
    qed
  qed
qed

lemma flat_reads_line:
  "flat_reads s =
     (case flat_line [] s of
        Inl err \<Rightarrow> [Inl err]
      | Inr (CompleteLine l, r) \<Rightarrow> Inr (CompleteLine l) # flat_reads r
      | Inr (c, r) \<Rightarrow> [Inr c])"
proof (cases "s = []")
  case True
  then show ?thesis by (simp add: flat_reads.simps [of "[]"] flat_line_def position_nl_def)
next
  case False
  then show ?thesis by (simp add: flat_reads.simps [of s] flat_line_def split: option.split)
qed

lemma line_reads_flat: "[] \<notin> set reader \<Longrightarrow> line_reads reader = flat_reads (concat reader)"
proof (induction reader rule: line_reads.induct)
  case (1 reader)
  have flat: "map_sum (\<lambda>e. e) (\<lambda>(c, r). (c, concat r)) (read_capped_line [] reader) = flat_line [] (concat reader)"
    and ne: "\<And>c r. read_capped_line [] reader = Inr (c, r) \<Longrightarrow> [] \<notin> set r"
    using read_capped_line_flat [OF "1.prems"] by auto
  show ?case
  proof (cases "read_capped_line [] reader")
    case (Inl err)
    then show ?thesis using flat [symmetric] by (simp add: line_reads.simps [of reader] flat_reads_line [of "concat reader"])
  next
    case (Inr cr)
    obtain c r where cr: "cr = (c, r)" by (cases cr)
    have "c = CompleteLine l \<Longrightarrow> line_reads r = flat_reads (concat r)" for l
      using "1.IH" [OF Inr cr [symmetric]] ne [of c r] Inr cr by simp
    then show ?thesis using flat [symmetric] Inr cr
      by (cases c) (simp_all add: line_reads.simps [of reader] flat_reads_line [of "concat reader"])
  qed
qed

section \<open>Framing\<close>

text \<open>A framed line ends with its only line feed and fits the ceiling; every file is framed lines
  followed by a torn tail, when no line is longer than the ceiling.\<close>

definition framed :: "string \<Rightarrow> bool" where
  "framed l \<longleftrightarrow> l \<noteq> [] \<and> last l = NL \<and> NL \<notin> set (butlast l) \<and> length l \<le> MAX_OPERATOR_ENVELOPE_BYTES"

definition torn_ok :: "string \<Rightarrow> bool" where
  "torn_ok t \<longleftrightarrow> NL \<notin> set t \<and> length t \<le> MAX_OPERATOR_ENVELOPE_BYTES"

definition end_read :: "string \<Rightarrow> (journal_error + capped_line) list" where
  "end_read t = [Inr (if t = [] then Eof else Torn t)]"

lemma framedE:
  assumes "framed l"
  obtains b where "l = b @ [NL]" "NL \<notin> set b" "length b < MAX_OPERATOR_ENVELOPE_BYTES" "butlast l = b"
proof
  show "l = butlast l @ [NL]" using assms append_butlast_last_id [of l] by (simp add: framed_def)
  show "NL \<notin> set (butlast l)" using assms by (simp add: framed_def)
  show "length (butlast l) < MAX_OPERATOR_ENVELOPE_BYTES" using assms by (cases l) (auto simp: framed_def)
qed simp

lemma position_nl_framed: "NL \<notin> set b \<Longrightarrow> position_nl (b @ NL # s) = Some (length b)"
  by (simp add: position_nl_append position_nl_None [THEN iffD2]) (simp add: position_nl_def)

lemma flat_reads_framed:
  "list_all framed ls \<Longrightarrow> torn_ok t \<Longrightarrow>
   flat_reads (concat ls @ t) = map (\<lambda>l. Inr (CompleteLine l)) ls @ end_read t"
proof (induction ls)
  case Nil
  then show ?case
    by (auto simp: flat_reads.simps [of t] end_read_def torn_ok_def position_nl_None [THEN iffD2])
next
  case (Cons l ls)
  from Cons.prems obtain b where b: "l = b @ [NL]" "NL \<notin> set b" "length b < MAX_OPERATOR_ENVELOPE_BYTES"
    by (auto elim: framedE)
  then show ?case using Cons
    by (subst flat_reads.simps) (simp add: position_nl_framed)
qed

section \<open>Tail repair\<close>

text \<open>The file up to and with its last line feed.\<close>

definition complete_prefix :: "string \<Rightarrow> string" where
  "complete_prefix f = rev (dropWhile (\<lambda>c. c \<noteq> NL) (rev f))"

lemma complete_prefix_append:
  "complete_prefix (a @ b) = (if NL \<in> set b then a @ complete_prefix b else complete_prefix a)"
proof (cases "NL \<in> set b")
  case True
  then show ?thesis by (auto simp: complete_prefix_def dropWhile_append dropWhile_eq_Nil_conv)
next
  case False
  then have "dropWhile (\<lambda>c. c \<noteq> NL) (rev b @ rev a) = dropWhile (\<lambda>c. c \<noteq> NL) (rev a)"
    by (intro dropWhile_append2) auto
  with False show ?thesis by (simp add: complete_prefix_def)
qed

lemma complete_prefix_NL [simp]: "complete_prefix (a @ [NL]) = a @ [NL]"
  by (simp add: complete_prefix_def)

lemma complete_prefix_none: "NL \<notin> set f \<Longrightarrow> complete_prefix f = []"
  by (auto simp: complete_prefix_def dropWhile_eq_Nil_conv)

lemma complete_prefix_take: "take (length (complete_prefix f)) f = complete_prefix f"
proof -
  have "f = complete_prefix f @ rev (takeWhile (\<lambda>c. c \<noteq> NL) (rev f))"
    unfolding complete_prefix_def by (metis rev_append rev_rev_ident takeWhile_dropWhile_id)
  then show ?thesis by (metis append_eq_conv_conj)
qed

lemma rposition_nl_prefix:
  "rposition_nl s = (if NL \<in> set s then Some (length (complete_prefix s) - 1) else None)"
proof (cases "NL \<in> set s")
  case True
  have "length (takeWhile (\<lambda>c. c \<noteq> NL) (rev s)) + length (dropWhile (\<lambda>c. c \<noteq> NL) (rev s)) = length s"
    by (metis length_append length_rev takeWhile_dropWhile_id)
  then have "length s - 1 - length (takeWhile (\<lambda>c. c \<noteq> NL) (rev s)) =
      length (dropWhile (\<lambda>c. c \<noteq> NL) (rev s)) - 1" by linarith
  with True show ?thesis by (simp add: rposition_nl_def position_nl_def complete_prefix_def)
qed (simp add: rposition_nl_def position_nl_def)

lemma complete_prefix_pos: "NL \<in> set s \<Longrightarrow> 0 < length (complete_prefix s)"
  by (auto simp: complete_prefix_def dropWhile_eq_Nil_conv)

lemma scan_back_spec:
  assumes "hi \<le> length f" "oldest \<le> hi"
  shows "scan_back f oldest hi =
    (let p = length (complete_prefix (take hi f)) in if oldest \<le> p then Some p else None)"
  using assms
proof (induction f oldest hi rule: scan_back.induct)
  case (1 f oldest hi)
  define start where "start = max (hi - 8192) oldest"
  define chunk where "chunk = take (hi - start) (drop start f)"
  define p where "p = length (complete_prefix (take hi f))"
  have start: "start \<le> hi" "oldest \<le> start" "start \<le> length f" using "1.prems" by (auto simp: start_def)
  have cut: "take hi f = take start f @ chunk"
    using start take_add [of start "hi - start" f] by (simp add: chunk_def)
  have eq: "scan_back f oldest hi =
      (case rposition_nl chunk of Some index \<Rightarrow> Some (start + index + 1)
       | None \<Rightarrow> if start = 0 then Some 0
           else if start = oldest then (if f ! (start - 1) = NL then Some start else None)
           else scan_back f oldest start)"
    unfolding scan_back.simps [of f oldest hi] Let_def start_def [symmetric] chunk_def [symmetric] by (rule refl)
  show ?case unfolding eq Let_def p_def [symmetric]
  proof (cases "NL \<in> set chunk")
    case True
    have "p = start + length (complete_prefix chunk)"
      unfolding p_def cut complete_prefix_append using True start by simp
    then show "(case rposition_nl chunk of Some index \<Rightarrow> Some (start + index + 1)
       | None \<Rightarrow> if start = 0 then Some 0
           else if start = oldest then (if f ! (start - 1) = NL then Some start else None)
           else scan_back f oldest start) = (if oldest \<le> p then Some p else None)"
      using True complete_prefix_pos [OF True] start by (simp add: rposition_nl_prefix)
  next
    case False
    then have p: "p = length (complete_prefix (take start f))"
      unfolding p_def cut complete_prefix_append by simp
    have ih: "scan_back f oldest start = (if oldest \<le> p then Some p else None)" if "start \<noteq> 0" "start \<noteq> oldest"
      using "1.IH" [OF start_def chunk_def _ that] False start p
      by (simp add: rposition_nl_prefix Let_def)
    have "take start f = take (start - 1) f @ [f ! (start - 1)]" if "start \<noteq> 0"
      using that start take_Suc_conv_app_nth [of "start - 1" f] by simp
    then have "p = (if f ! (start - 1) = NL then start else length (complete_prefix (take (start - 1) f)))" if "start \<noteq> 0"
      using that start complete_prefix_NL [of "[]"] unfolding p by (simp add: complete_prefix_append)
    moreover have "length (complete_prefix (take (start - 1) f)) \<le> start - 1"
      by (metis complete_prefix_take length_take min.bounded_iff min.cobounded1 nat_le_linear order_trans take_all)
    ultimately show "(case rposition_nl chunk of Some index \<Rightarrow> Some (start + index + 1)
       | None \<Rightarrow> if start = 0 then Some 0
           else if start = oldest then (if f ! (start - 1) = NL then Some start else None)
           else scan_back f oldest start) = (if oldest \<le> p then Some p else None)"
      using False ih start p by (auto simp: rposition_nl_prefix complete_prefix_none split: if_splits)
  qed
qed

lemma repair_spec:
  "repair_unterminated_tail f =
     (if length f - length (complete_prefix f) < MAX_OPERATOR_ENVELOPE_BYTES then Inr (complete_prefix f)
      else Inl TornTailTooLong)"
proof (cases "f = [] \<or> last f = NL")
  case True
  then have "complete_prefix f = f"
    by (metis append_butlast_last_id complete_prefix_NL complete_prefix_none empty_iff empty_set)
  with True show ?thesis by (simp add: repair_unterminated_tail_def MAX_OPERATOR_ENVELOPE_BYTES_def)
next
  case False
  define p where "p = length (complete_prefix f)"
  have "scan_back f (length f - (MAX_OPERATOR_ENVELOPE_BYTES - 1)) (length f) =
      (if length f - (MAX_OPERATOR_ENVELOPE_BYTES - 1) \<le> p then Some p else None)"
    using scan_back_spec [of "length f" f "length f - (MAX_OPERATOR_ENVELOPE_BYTES - 1)"] by (simp add: p_def Let_def)
  moreover have "0 < MAX_OPERATOR_ENVELOPE_BYTES" by (simp add: MAX_OPERATOR_ENVELOPE_BYTES_def)
  then have "length f - (MAX_OPERATOR_ENVELOPE_BYTES - 1) \<le> p \<longleftrightarrow> length f - p < MAX_OPERATOR_ENVELOPE_BYTES"
    by linarith
  moreover have "take p f = complete_prefix f" unfolding p_def by (rule complete_prefix_take)
  ultimately show ?thesis using False unfolding repair_unterminated_tail_def p_def by simp
qed

text \<open>Repairing a torn tail keeps every complete line, byte for byte: it cuts the file right after
  its last line feed, and it refuses exactly when the torn tail is as long as the envelope
  ceiling. So the repair never has to look at more than the ceiling.\<close>

theorem repair_keeps_complete_lines:
  "repair_unterminated_tail f =
     (if length f - length (complete_prefix f) < MAX_OPERATOR_ENVELOPE_BYTES then Inr (complete_prefix f)
      else Inl TornTailTooLong)"
  by (rule repair_spec)

section \<open>The rows of a stream\<close>

definition cursor_row :: "operator_lib \<Rightarrow> string \<Rightarrow> nat \<Rightarrow> OperatorEvent \<Rightarrow> CursorEvent" where
  "cursor_row L fp offset event =
     \<lparr>ce_cursor = encode_cursor L
        \<lparr>oc_version = OPERATOR_CURSOR_VERSION, oc_fingerprint = fp, oc_offset = offset\<rparr>,
      ce_event = event\<rparr>"

text \<open>The events of framed lines that start at \<open>offset\<close>, each with the cursor after it.\<close>

fun stream_rows :: "operator_lib \<Rightarrow> string \<Rightarrow> nat \<Rightarrow> string list \<Rightarrow> CursorEvent list" where
  "stream_rows L fp offset [] = []"
| "stream_rows L fp offset (l # ls) =
     (case parse_operator_line L (butlast l) of
        Some event \<Rightarrow> cursor_row L fp (offset + length l) event # stream_rows L fp (offset + length l) ls
      | None \<Rightarrow> stream_rows L fp (offset + length l) ls)"

definition corrupt_line :: "operator_lib \<Rightarrow> string \<Rightarrow> bool" where
  "corrupt_line L l \<longleftrightarrow> parse_operator_line L (butlast l) = None"

definition anchor :: "operator_lib \<Rightarrow> string list \<Rightarrow> string" where
  "anchor L ls = (case find (\<lambda>l. \<not> corrupt_line L l) ls of
     Some l \<Rightarrow> sha256_hex L (butlast l) | None \<Rightarrow> ''empty'')"

text \<open>What is left of the budget covers the corrupt lines and the torn tail.\<close>

definition fits :: "operator_lib \<Rightarrow> CorruptScanBudget \<Rightarrow> string list \<Rightarrow> string \<Rightarrow> bool" where
  "fits L b ls t \<longleftrightarrow>
     cb_lines b + length (filter (corrupt_line L) ls) + (if t = [] then 0 else 1) \<le> MAX_OPERATOR_CORRUPT_LINES_PER_READ \<and>
     cb_bytes b + length (concat (filter (corrupt_line L) ls)) + length t \<le> MAX_OPERATOR_CORRUPT_BYTES_PER_READ"

lemma stream_rows_append:
  "stream_rows L fp offset (ls @ ms) =
     stream_rows L fp offset ls @ stream_rows L fp (offset + length (concat ls)) ms"
  by (induction ls arbitrary: offset) (auto split: option.split simp: add.assoc)

lemma stream_rows_nth:
  "i < length (stream_rows L fp offset ls) \<Longrightarrow>
   \<exists>ls1 l ls2 event. ls = ls1 @ l # ls2 \<and> parse_operator_line L (butlast l) = Some event \<and>
     stream_rows L fp offset ls ! i = cursor_row L fp (offset + length (concat ls1) + length l) event \<and>
     drop (Suc i) (stream_rows L fp offset ls) = stream_rows L fp (offset + length (concat ls1) + length l) ls2"
proof (induction ls arbitrary: offset i)
  case (Cons l ls)
  consider (here) event where "i = 0" "parse_operator_line L (butlast l) = Some event"
    | (later) event j where "i = Suc j" "parse_operator_line L (butlast l) = Some event"
    | (corrupt) "parse_operator_line L (butlast l) = None"
    by (cases i; cases "parse_operator_line L (butlast l)") auto
  then show ?case
  proof cases
    case here
    then show ?thesis by (intro exI [of _ "[]"] exI [of _ l] exI [of _ ls] exI [of _ event]) simp
  next
    case later
    with Cons.prems have "j < length (stream_rows L fp (offset + length l) ls)" by simp
    from Cons.IH [OF this] later show ?thesis
      by (elim exE) (rule exI [of _ "l # _"], auto simp: add.assoc)
  next
    case corrupt
    with Cons.prems have "i < length (stream_rows L fp (offset + length l) ls)" by simp
    from Cons.IH [OF this] corrupt show ?thesis
      by (elim exE) (rule exI [of _ "l # _"], auto simp: add.assoc)
  qed
qed simp

lemma budget_record_fits:
  assumes "cb_lines b + 1 \<le> MAX_OPERATOR_CORRUPT_LINES_PER_READ" "cb_bytes b + n \<le> MAX_OPERATOR_CORRUPT_BYTES_PER_READ"
  shows "budget_record b n = Inr \<lparr>cb_lines = cb_lines b + 1, cb_bytes = cb_bytes b + n\<rparr>"
  using assms by (simp add: budget_record_def Let_def)

lemma fits_torn: "fits L b [] t \<Longrightarrow> t \<noteq> [] \<Longrightarrow> \<exists>b'. budget_record b (length t) = Inr b'"
  by (simp add: fits_def budget_record_fits)

lemma fits_corrupt:
  assumes "fits L b (l # ls) t" "corrupt_line L l"
  obtains b' where "budget_record b (length l) = Inr b'" "fits L b' ls t"
proof
  show "budget_record b (length l) = Inr \<lparr>cb_lines = cb_lines b + 1, cb_bytes = cb_bytes b + length l\<rparr>"
    using assms by (intro budget_record_fits) (auto simp: fits_def)
  show "fits L \<lparr>cb_lines = cb_lines b + 1, cb_bytes = cb_bytes b + length l\<rparr> ls t"
    using assms by (auto simp: fits_def)
qed

lemma fits_valid: "fits L b (l # ls) t \<Longrightarrow> \<not> corrupt_line L l \<Longrightarrow> fits L b ls t"
  by (simp add: fits_def)

lemma fits_suffix: "fits L b (ls1 @ ls2) t \<Longrightarrow> fits L b ls2 t"
  by (auto simp: fits_def)

lemma fingerprint_framed:
  "fits L b ls t \<Longrightarrow>
   fingerprint_loop L (map (\<lambda>l. Inr (CompleteLine l)) ls @ end_read t) b = Inr (anchor L ls)"
proof (induction ls arbitrary: b)
  case Nil
  then show ?case using fits_torn [OF Nil] by (auto simp: end_read_def anchor_def)
next
  case (Cons l ls)
  show ?case
  proof (cases "corrupt_line L l")
    case True
    from fits_corrupt [OF Cons.prems True] obtain b' where b': "budget_record b (length l) = Inr b'" "fits L b' ls t" .
    then show ?thesis using True Cons.IH [OF b'(2)] by (simp add: corrupt_line_def anchor_def)
  next
    case False
    then show ?thesis by (simp add: corrupt_line_def anchor_def)
  qed
qed

lemma page_framed:
  "fits L b ls t \<Longrightarrow> length events \<le> limit \<Longrightarrow>
   \<exists>skipped'. page_loop L fp limit (map (\<lambda>l. Inr (CompleteLine l)) ls @ end_read t) offset events skipped b =
     Inr (take limit (events @ stream_rows L fp offset ls), skipped')"
proof (induction ls arbitrary: b offset events skipped)
  case Nil
  then show ?case using fits_torn [OF Nil(1)]
    by (auto simp: page_loop.simps [of L fp limit] end_read_def)
next
  case (Cons l ls)
  show ?case
  proof (cases "length events = limit")
    case True
    then show ?thesis by (simp add: page_loop.simps [of L fp limit])
  next
    case False
    then have lt: "length events < limit" using Cons.prems(2) by simp
    show ?thesis
    proof (cases "parse_operator_line L (butlast l)")
      case None
      then have c: "corrupt_line L l" by (simp add: corrupt_line_def)
      from fits_corrupt [OF Cons.prems(1) c] obtain b' where b': "budget_record b (length l) = Inr b'" "fits L b' ls t" .
      show ?thesis using Cons.IH [OF b'(2) Cons.prems(2), of "offset + length l" "skipped + 1"] lt None b'(1)
        by (simp add: page_loop.simps [of L fp limit "_ # _"])
    next
      case (Some event)
      then have "\<not> corrupt_line L l" by (simp add: corrupt_line_def)
      with Cons.prems have "fits L b ls t" by (auto intro: fits_valid)
      from Cons.IH [OF this, of "events @ [cursor_row L fp (offset + length l) event]" "offset + length l" skipped] lt Some
      show ?thesis by (simp add: page_loop.simps [of L fp limit "_ # _"] cursor_row_def)
    qed
  qed
qed

section \<open>What replay relies on\<close>

text \<open>
  The documented behaviour of the libraries: buffers are non-empty pieces of the content in
  order, base64 round-trips, so does the cursor's codec for a \<open>u64\<close> offset, a SHA-256 digest has 32 bytes, printed JSON
  has no line feed, and the empty text is not an envelope.
\<close>

locale operator_laws =
  fixes L :: operator_lib and bufs :: "string \<Rightarrow> string list"
  assumes bufs_concat: "concat (bufs s) = s"
    and bufs_nonempty: "[] \<notin> set (bufs s)"
    and base64_round_trip: "ol_unbase64 L (ol_base64 L s) = Some s"
    and cursor_round_trip: "oc_offset c < 2 ^ 64 \<Longrightarrow> ol_cursor_of_text L (ol_cursor_to_text L c) = Some c"
    and digest_length: "length (ol_sha256 L s) = 32"
    and text_one_line: "NL \<notin> set (ol_to_text L v)"
    and empty_is_no_envelope: "ol_envelope_of_slice L [] = None"
begin

lemma reads_flat: "line_reads (bufs s) = flat_reads s"
  using line_reads_flat [OF bufs_nonempty] bufs_concat by simp

lemma decode_encode: "oc_offset c < 2 ^ 64 \<Longrightarrow> decode_cursor L (encode_cursor L c) = Inr c"
  by (simp add: decode_cursor_def encode_cursor_def base64_round_trip cursor_round_trip)

lemma sha256_hex_not_empty: "sha256_hex L s \<noteq> ''empty''"
proof
  assume "sha256_hex L s = ''empty''"
  then have "length (sha256_hex L s) = 5" by simp
  moreover have "length (concat (map hex_byte xs)) = 2 * length xs" for xs
    by (induction xs) (simp_all add: hex_byte_def)
  ultimately show False by (simp add: sha256_hex_def digest_length)
qed

lemma fingerprint_of_framed:
  assumes "list_all framed ls" "torn_ok t" "fits L empty_budget ls t"
  shows "first_line_fingerprint L bufs (Some (concat ls @ t)) = Inr (anchor L ls)"
  using fingerprint_framed [OF assms(3)] flat_reads_framed [OF assms(1,2)]
  by (simp add: first_line_fingerprint_def reads_flat)

lemma framed_concat_prefix: "list_all framed ls \<Longrightarrow> complete_prefix (concat ls) = concat ls"
proof (induction ls rule: rev_induct)
  case (snoc l ls)
  then obtain b where "l = b @ [NL]" by (auto elim: framedE)
  then show ?case using complete_prefix_NL [of "concat ls @ b"] by simp
qed (simp add: complete_prefix_none)

lemma boundary_after_event:
  assumes "list_all framed ls1" "framed l" "parse_operator_line L (butlast l) = Some event"
  shows "offset_follows_valid_operator_event L (Some (concat ls1 @ l @ rest)) (length (concat ls1) + length l) = Inr True"
proof -
  obtain b where b: "l = b @ [NL]" "NL \<notin> set b" "length b < MAX_OPERATOR_ENVELOPE_BYTES" "butlast l = b"
    using assms(2) by (rule framedE)
  have ne: "b \<noteq> []" using assms(3) b(4) empty_is_no_envelope by (auto simp: parse_operator_line_def)
  let ?f = "concat ls1 @ l @ rest" and ?e = "length (concat ls1) + length b"
  have "take ?e ?f = concat ls1 @ b" by (simp add: b(1))
  moreover have "complete_prefix (concat ls1 @ b) = concat ls1"
    using b(2) framed_concat_prefix [OF assms(1)] by (simp add: complete_prefix_append)
  ultimately have "scan_back ?f (?e - (MAX_OPERATOR_ENVELOPE_BYTES - 1)) ?e = Some (length (concat ls1))"
    using scan_back_spec [of ?e ?f "?e - (MAX_OPERATOR_ENVELOPE_BYTES - 1)"] b(3) by (simp add: b(1) Let_def)
  moreover have "?f ! ?e = NL" by (simp add: b(1) nth_append)
  ultimately show ?thesis using ne assms(3) b(4)
    by (simp add: offset_follows_valid_operator_event_def b(1) Let_def)
qed

end

text \<open>A file that no writer touches during the read.\<close>

definition quiet :: "string \<Rightarrow> nat \<Rightarrow> attempt_view" where
  "quiet f _ = \<lparr>at_len = Some f, at_first = Some f, at_boundary = Some f, at_read = Some f, at_last = Some f\<rparr>"

text \<open>A client that polls: \<open>n\<close> pages, each read with the cursor the previous page returned.\<close>

fun poll ::
    "operator_lib \<Rightarrow> (string \<Rightarrow> string list) \<Rightarrow> string \<Rightarrow> nat \<Rightarrow> nat \<Rightarrow> string option \<Rightarrow> CursorError + CursorEvent list" where
  "poll L bufs f limit 0 cursor = Inr []"
| "poll L bufs f limit (Suc n) cursor =
     (case read_after L bufs (quiet f) cursor limit of
        Inl err \<Rightarrow> Inl err
      | Inr page \<Rightarrow>
          (case poll L bufs f limit n (pg_next_cursor page) of
             Inl err \<Rightarrow> Inl err
           | Inr rest \<Rightarrow> Inr (pg_events page @ rest)))"

text \<open>The cursor a client holds after the first \<open>i\<close> events.\<close>

definition position_cursor :: "CursorEvent list \<Rightarrow> nat \<Rightarrow> string option" where
  "position_cursor all i = (if i = 0 then None else Some (ce_cursor (all ! (i - 1))))"

context operator_laws
begin

lemma read_after_position:
  assumes "list_all framed ls" "torn_ok t" "fits L empty_budget ls t"
    and all: "all = stream_rows L (anchor L ls) 0 ls" and "i \<le> length all"
    and small: "length (concat ls @ t) < 2 ^ 64"
  shows "\<exists>skipped. read_after L bufs (quiet (concat ls @ t)) (position_cursor all i) limit =
    Inr \<lparr>pg_events = take limit (drop i all),
         pg_next_cursor = position_cursor all (i + length (take limit (drop i all))),
         pg_skipped_lines = skipped\<rparr>"
proof -
  note fp = fingerprint_of_framed [OF assms(1-3)]
  have three: "map (quiet f) [0..<MAX_OPERATOR_LINEAGE_READ_ATTEMPTS] = [quiet f 0, quiet f 1, quiet f 2]" for f
    by (simp add: MAX_OPERATOR_LINEAGE_READ_ATTEMPTS_def upt_rec numeral_eq_Suc)
  let ?f = "concat ls @ t" and ?fp = "anchor L ls" and ?c = "position_cursor all i"
  have next_cursor: "(if take limit (drop i all) = [] then ?c else Some (ce_cursor (last (take limit (drop i all))))) =
      position_cursor all (i + length (take limit (drop i all)))"
  proof (cases "take limit (drop i all) = []")
    case False
    let ?w = "take limit (drop i all)"
    have "last ?w = all ! (i + length ?w - 1)"
      using False assms(5) by (subst last_conv_nth) auto
    then show ?thesis using False by (simp add: position_cursor_def)
  next
    case True
    show ?thesis unfolding True by simp
  qed
  have page: "\<exists>skipped. page_loop L ?fp limit (line_reads (bufs (take (length ?f - off) (drop off ?f)))) off [] 0 empty_budget =
        Inr (take limit (stream_rows L ?fp off ls2), skipped)"
    if "ls = ls1 @ ls2" "off = length (concat ls1)" for off ls1 ls2
  proof -
    have cut: "take (length ?f - off) (drop off ?f) = concat ls2 @ t" using that by simp
    have "list_all framed ls2" "fits L empty_budget ls2 t" using that(1) assms(1,3) fits_suffix by auto
    then show ?thesis unfolding cut reads_flat
      using page_framed [of L empty_budget ls2 t "[]" limit ?fp off 0] flat_reads_framed [OF _ assms(2)] by simp
  qed
  show ?thesis
  proof (cases i)
    case 0
    then have c: "?c = None" by (simp add: position_cursor_def)
    from page [of "[]" ls 0] obtain skipped where
      "page_loop L ?fp limit (line_reads (bufs ?f)) 0 [] 0 empty_budget = Inr (take limit all, skipped)"
      using all by auto
    then have "attempt_page L bufs (quiet ?f 0) None None limit ?fp =
        Inr \<lparr>pg_events = take limit (drop i all),
             pg_next_cursor = position_cursor all (i + length (take limit (drop i all))), pg_skipped_lines = skipped\<rparr>"
      unfolding next_cursor [symmetric] c using 0
      by (simp add: attempt_page_def start_offset_def quiet_def)
    then show ?thesis unfolding c read_after_def three
      by (intro exI [of _ skipped]) (simp add: fp quiet_def)
  next
    case (Suc j)
    then have "j < length (stream_rows L ?fp 0 ls)" using assms(5) all by simp
    from stream_rows_nth [OF this] obtain ls1 l ls2 event where
      ls: "ls = ls1 @ l # ls2" and parse: "parse_operator_line L (butlast l) = Some event"
      and row: "all ! j = cursor_row L ?fp (length (concat ls1) + length l) event"
      and rest: "drop i all = stream_rows L ?fp (length (concat ls1) + length l) ls2"
      using all Suc by auto
    define off where "off = length (concat ls1) + length l"
    define cur where "cur = \<lparr>oc_version = OPERATOR_CURSOR_VERSION, oc_fingerprint = ?fp, oc_offset = off\<rparr>"
    have c: "?c = Some (encode_cursor L cur)"
      using Suc row by (simp add: position_cursor_def cursor_row_def off_def cur_def)
    have f: "?f = concat ls1 @ l @ concat ls2 @ t" by (simp add: ls)
    have bound: "offset_follows_valid_operator_event L (Some ?f) off = Inr True"
      unfolding f off_def using boundary_after_event [OF _ _ parse] assms(1) ls by simp
    from page [of "ls1 @ [l]" ls2 off] obtain skipped where
      "page_loop L ?fp limit (line_reads (bufs (take (length ?f - off) (drop off ?f)))) off [] 0 empty_budget =
        Inr (take limit (drop i all), skipped)"
      using ls rest by (auto simp: off_def)
    then have "attempt_page L bufs (quiet ?f 0) ?c (Some cur) limit ?fp =
        Inr \<lparr>pg_events = take limit (drop i all),
             pg_next_cursor = position_cursor all (i + length (take limit (drop i all))), pg_skipped_lines = skipped\<rparr>"
      unfolding next_cursor [symmetric] using bound ls
      by (simp add: attempt_page_def start_offset_def quiet_def cur_def off_def)
    moreover have "decode_cursor L (encode_cursor L cur) = Inr cur"
      using small ls by (intro decode_encode) (simp add: cur_def off_def)
    ultimately show ?thesis unfolding read_after_def three c
      by (intro exI [of _ skipped]) (simp add: fp quiet_def cur_def)
  qed
qed

lemma poll_position:
  assumes "list_all framed ls" "torn_ok t" "fits L empty_budget ls t"
    and "all = stream_rows L (anchor L ls) 0 ls" and "length (concat ls @ t) < 2 ^ 64" and "i \<le> length all"
  shows "poll L bufs (concat ls @ t) limit n (position_cursor all i) = Inr (take (n * limit) (drop i all))"
  using assms(6)
proof (induction n arbitrary: i)
  case (Suc n)
  let ?k = "length (take limit (drop i all))"
  obtain skipped where page: "read_after L bufs (quiet (concat ls @ t)) (position_cursor all i) limit =
      Inr \<lparr>pg_events = take limit (drop i all), pg_next_cursor = position_cursor all (i + ?k), pg_skipped_lines = skipped\<rparr>"
    using read_after_position [OF assms(1-4) Suc.prems assms(5)] by blast
  have "poll L bufs (concat ls @ t) limit n (position_cursor all (i + ?k)) = Inr (take (n * limit) (drop (i + ?k) all))"
    using Suc.prems by (intro Suc.IH) simp
  moreover have "take limit (drop i all) @ take (n * limit) (drop (i + ?k) all) = take (Suc n * limit) (drop i all)"
    by (simp add: take_add min_def add.commute)
  ultimately show ?case using page by simp
qed simp

end

text \<open>C3. Polling replays the stream exactly: on a file no writer touches, whatever its corrupt lines
  and torn tail within the scan budget and however reads are buffered, \<open>n\<close> pages of \<open>limit\<close>
  events, each continued from the previous page's cursor, are the first \<open>n * limit\<close> valid events
  in append order. No event is lost, repeated or reordered, and a poll at the end of the stream
  keeps its place.\<close>

theorem polling_replays_exactly:
  assumes "operator_laws L bufs" and "list_all framed ls" and "torn_ok t" and "fits L empty_budget ls t"
    and "length (concat ls @ t) < 2 ^ 64"
  shows "poll L bufs (concat ls @ t) limit n None = Inr (take (n * limit) (stream_rows L (anchor L ls) 0 ls))"
  using operator_laws.poll_position [OF assms(1-4) refl assms(5), of 0 limit n] by (simp add: position_cursor_def)

section \<open>Appending to a stream\<close>

text \<open>Every file is framed lines followed by a torn tail or by a line over the ceiling.\<close>

lemma frame_decomposition:
  obtains (framed) ls t where "f = concat ls @ t" "list_all framed ls" "torn_ok t"
      "flat_reads f = map (\<lambda>l. Inr (CompleteLine l)) ls @ end_read t"
  | (too_long) ls where "flat_reads f = map (\<lambda>l. Inr (CompleteLine l)) ls @ [Inl LineTooLong]"
proof -
  have "(\<exists>ls t. f = concat ls @ t \<and> list_all framed ls \<and> torn_ok t) \<or>
      (\<exists>ls. flat_reads f = map (\<lambda>l. Inr (CompleteLine l)) ls @ [Inl LineTooLong])"
  proof (induction f rule: flat_reads.induct)
    case (1 f)
    show ?case
    proof (cases "position_nl f")
      case None
      then show ?thesis
      proof (cases "length f > MAX_OPERATOR_ENVELOPE_BYTES")
        case True
        then have "flat_reads f = map (\<lambda>l. Inr (CompleteLine l)) [] @ [Inl LineTooLong]"
          using None by (auto simp: flat_reads.simps [of f])
        then show ?thesis by blast
      next
        case False
        then have "f = concat [] @ f" "list_all framed []" "torn_ok f"
          using None by (simp_all add: position_nl_None torn_ok_def)
        then show ?thesis by blast
      qed
    next
      case (Some p)
      note p = position_nl_Some [OF Some]
      let ?l = "take (Suc p) f"
      show ?thesis
      proof (cases "p + 1 > MAX_OPERATOR_ENVELOPE_BYTES")
        case True
        then show ?thesis using Some p by (auto simp: flat_reads.simps [of f] intro: exI [of _ "[]"])
      next
        case False
        have l: "?l = take p f @ [NL]" using p by (simp add: take_Suc_conv_app_nth)
        have nl: "NL \<notin> set (take p f)" using p set_takeWhileD by force
        have "length (take p f) = p" using conjunct1 [OF p] by simp
        then have fr: "framed ?l" unfolding l framed_def using nl False by simp
        have ne: "f \<noteq> []" using p by auto
        from "1.IH" [OF ne Some False] show ?thesis
        proof (elim disjE exE conjE)
          fix ls t
          assume "drop (p + 1) f = concat ls @ t" "list_all framed ls" "torn_ok t"
          then have "f = concat (?l # ls) @ t" "list_all framed (?l # ls)"
            using fr append_take_drop_id [of "Suc p" f] by simp_all
          with \<open>torn_ok t\<close> show ?thesis by blast
        next
          fix ls
          assume "flat_reads (drop (p + 1) f) = map (\<lambda>l. Inr (CompleteLine l)) ls @ [Inl LineTooLong]"
          then have "flat_reads f = map (\<lambda>l. Inr (CompleteLine l)) (?l # ls) @ [Inl LineTooLong]"
            using Some False ne by (simp add: flat_reads.simps [of f])
          then show ?thesis by blast
        qed
      qed
    qed
  qed
  then show thesis using that flat_reads_framed by blast
qed

lemma anchor_append:
  assumes "\<And>s. sha256_hex L s \<noteq> ''empty''"
  shows "anchor L (ls @ [l]) = (if anchor L ls = ''empty'' then anchor L [l] else anchor L ls)"
proof -
  have "find P (xs @ [x]) = (case find P xs of Some y \<Rightarrow> Some y | None \<Rightarrow> find P [x])" for P xs and x :: string
    by (induction xs) simp_all
  then show ?thesis using assms by (simp add: anchor_def split: option.split)
qed

lemma fits_repaired:
  assumes "fits L b ls t" "\<not> corrupt_line L l"
  shows "fits L b (ls @ [l]) []"
  using assms by (auto simp: fits_def split: if_splits)

context operator_laws
begin

lemma fingerprint_empty:
  assumes "fingerprint_loop L (map (\<lambda>l. Inr (CompleteLine l)) ls @ e) b = Inr ''empty''"
    and "e = end_read t \<or> e = [Inl LineTooLong]"
    and "cb_lines b \<le> MAX_OPERATOR_CORRUPT_LINES_PER_READ" "cb_bytes b \<le> MAX_OPERATOR_CORRUPT_BYTES_PER_READ"
  shows "e = end_read t \<and> fits L b ls t"
  using assms
proof (induction ls arbitrary: b)
  case Nil
  then show ?case
    by (auto simp: end_read_def fits_def budget_record_def Let_def split: if_splits sum.splits)
next
  case (Cons l ls)
  have c: "corrupt_line L l" using Cons.prems(1)
    by (auto simp: corrupt_line_def sha256_hex_not_empty split: if_splits)
  let ?b = "\<lparr>cb_lines = cb_lines b + 1, cb_bytes = cb_bytes b + length l\<rparr>"
  have within: "cb_lines ?b \<le> MAX_OPERATOR_CORRUPT_LINES_PER_READ" "cb_bytes ?b \<le> MAX_OPERATOR_CORRUPT_BYTES_PER_READ"
    using Cons.prems(1) c
    by (auto simp: corrupt_line_def budget_record_def Let_def split: if_splits)
  then have "budget_record b (length l) = Inr ?b" by (intro budget_record_fits) simp_all
  then have "fingerprint_loop L (map (\<lambda>l. Inr (CompleteLine l)) ls @ e) ?b = Inr ''empty''"
    using Cons.prems(1) c by (simp add: corrupt_line_def)
  from Cons.IH [OF this Cons.prems(2) within] c show ?case by (auto simp: fits_def)
qed

lemma file_fingerprint_empty:
  assumes "first_line_fingerprint L bufs (Some f) = Inr ''empty''"
  obtains ls t where "f = concat ls @ t" "list_all framed ls" "torn_ok t" "fits L empty_budget ls t"
proof (cases rule: frame_decomposition [of f])
  case (framed ls t)
  then have "fits L empty_budget ls t"
    using assms fingerprint_empty [of ls "end_read t" empty_budget t]
    by (simp add: first_line_fingerprint_def reads_flat empty_budget_def)
  with framed that show thesis by blast
next
  case (too_long ls)
  then have "[Inl LineTooLong] = end_read []"
    using assms fingerprint_empty [of ls "[Inl LineTooLong]" empty_budget "[]"]
    by (simp add: first_line_fingerprint_def reads_flat empty_budget_def)
  then show thesis by (simp add: end_read_def)
qed

lemma new_line_framed:
  assumes "length (operator_line L now event) < MAX_OPERATOR_ENVELOPE_BYTES"
  shows "framed (operator_line L now event @ [NL])"
  using assms text_one_line by (simp add: framed_def operator_line_def)

lemma repair_framed:
  assumes "list_all framed ls" "torn_ok t" "length t < MAX_OPERATOR_ENVELOPE_BYTES"
  shows "repair_unterminated_tail (concat ls @ t) = Inr (concat ls)"
proof -
  have "complete_prefix (concat ls @ t) = concat ls"
    using assms(1,2) framed_concat_prefix by (simp add: complete_prefix_append torn_ok_def)
  then show ?thesis using assms(3) by (simp add: repair_spec)
qed

lemma append_framed:
  assumes content: "unwrap_or file [] = concat ls @ t" and "list_all framed ls" and "torn_ok t"
    and "fits L empty_budget ls t" and "length t < MAX_OPERATOR_ENVELOPE_BYTES"
    and "find_sensitive (ol_event_to_value L event) = None"
    and "length (operator_line L now event) < MAX_OPERATOR_ENVELOPE_BYTES"
    and parse: "parse_operator_line L (operator_line L now event) = Some event"
    and l: "l = operator_line L now event @ [NL]"
  shows "append_event L bufs now event file =
    (Inr (cursor_row L (anchor L (ls @ [l])) (length (concat (ls @ [l]))) event), Some (concat (ls @ [l])))"
proof -
  have valid: "\<not> corrupt_line L l" using parse l by (simp add: corrupt_line_def)
  have fr: "list_all framed (ls @ [l])" using assms(2) new_line_framed [OF assms(7)] l by simp
  have before: "first_line_fingerprint L bufs file = Inr (anchor L ls)"
  proof (cases "file")
    case None
    then have "concat ls = []" using content by (simp add: unwrap_or_def)
    then have "ls = []" using assms(2) by (cases ls) (auto simp: framed_def)
    then show ?thesis using None by (simp add: first_line_fingerprint_def anchor_def)
  next
    case (Some f)
    then show ?thesis using fingerprint_of_framed [OF assms(2-4)] content by (simp add: unwrap_or_def)
  qed
  have after: "first_line_fingerprint L bufs (Some (concat ls @ l)) = Inr (anchor L (ls @ [l]))"
    using fingerprint_of_framed [OF fr _ fits_repaired [OF assms(4) valid]] by (simp add: torn_ok_def)
  have fp: "(if anchor L ls = ''empty'' then first_line_fingerprint L bufs (Some (concat ls @ l))
      else Inr (anchor L ls)) = Inr (anchor L (ls @ [l]))"
    using after anchor_append [OF sha256_hex_not_empty, of ls l] by simp
  have size: "\<not> length l > MAX_OPERATOR_ENVELOPE_BYTES" using assms(7) l by simp
  show ?thesis
    unfolding append_event_def Let_def l [symmetric] content before sum.case
      repair_framed [OF assms(2,3,5)] fp
    using assms(6) size by (simp add: cursor_row_def)
qed

lemma append_error_keeps_content:
  assumes "append_event L bufs now event file = (Inl err, file')"
    and parse: "parse_operator_line L (operator_line L now event) = Some event"
  shows "unwrap_or file' [] = unwrap_or file []"
proof (rule ccontr)
  assume changed: "unwrap_or file' [] \<noteq> unwrap_or file []"
  let ?l = "operator_line L now event @ [NL]"
  obtain r where gate: "find_sensitive (ol_event_to_value L event) = None" "\<not> length ?l > MAX_OPERATOR_ENVELOPE_BYTES"
    and before: "first_line_fingerprint L bufs file = Inr ''empty''"
    and r: "repair_unterminated_tail (unwrap_or file []) = Inr r"
    using assms(1) changed unfolding append_event_def Let_def
    by (auto simp: unwrap_or_def split: if_splits sum.splits option.splits)
  obtain ls t where dec: "unwrap_or file [] = concat ls @ t" "list_all framed ls" "torn_ok t" "fits L empty_budget ls t"
  proof (cases "file")
    case None
    then show thesis using that [of "[]" "[]"] by (simp add: unwrap_or_def torn_ok_def fits_def empty_budget_def)
  next
    case (Some f)
    with before obtain ls t where "f = concat ls @ t" "list_all framed ls" "torn_ok t" "fits L empty_budget ls t"
      by (auto elim: file_fingerprint_empty)
    with Some that show thesis by (simp add: unwrap_or_def)
  qed
  have "complete_prefix (concat ls @ t) = concat ls"
    using dec(2,3) framed_concat_prefix by (simp add: complete_prefix_append torn_ok_def)
  then have "length t < MAX_OPERATOR_ENVELOPE_BYTES" using r dec(1) by (simp add: repair_spec split: if_splits)
  from append_framed [OF dec this gate(1) _ parse refl] gate(2) assms(1) show False by simp
qed

end

text \<open>C4. An append adds exactly one event. Let the stream be complete lines, valid or corrupt, no longer than the largest
  envelope, and a torn tail shorter than it, with corrupt lines and tail together within the scan budget of one read
  (past it an append may succeed whose event no reader reaches), and let the event pass the sensitivity gate and
  its line be shorter than the largest envelope and parse back. Then the append succeeds: the torn bytes are
  dropped, every complete line stays, the new line is last, the stream's events are the old ones followed
  by the appended event, and the cursor returned to the writer is the one a reader gets for that event.\<close>

theorem append_adds_one_event:
  assumes "operator_laws L bufs" and "unwrap_or file [] = concat ls @ t" and "list_all framed ls" and "torn_ok t"
    and "fits L empty_budget ls t" and "length t < MAX_OPERATOR_ENVELOPE_BYTES"
    and "find_sensitive (ol_event_to_value L event) = None"
    and "length (operator_line L now event) < MAX_OPERATOR_ENVELOPE_BYTES"
    and "parse_operator_line L (operator_line L now event) = Some event"
  shows "\<exists>row. append_event L bufs now event file =
      (Inr row, Some (concat (ls @ [operator_line L now event @ [NL]]))) \<and> ce_event row = event \<and>
    stream_rows L (anchor L (ls @ [operator_line L now event @ [NL]])) 0 (ls @ [operator_line L now event @ [NL]]) =
      stream_rows L (anchor L (ls @ [operator_line L now event @ [NL]])) 0 ls @ [row]"
  using operator_laws.append_framed [OF assms refl] assms(9)
  by (simp add: stream_rows_append cursor_row_def)

text \<open>A refused append changes nothing: whatever the error, the bytes of the stream are what they
  were, and an event the gate finds sensitive is refused before the stream is even created.\<close>

theorem refused_append_keeps_stream:
  assumes "operator_laws L bufs" and "parse_operator_line L (operator_line L now event) = Some event"
    and "append_event L bufs now event file = (Inl err, file')"
  shows "unwrap_or file' [] = unwrap_or file [] \<and>
    (find_sensitive (ol_event_to_value L event) \<noteq> None \<longrightarrow> err = SensitiveMaterial \<and> file' = file)"
  using operator_laws.append_error_keeps_content [OF assms(1,3,2)] assms(3)
  by (auto simp: append_event_def)

section \<open>Readers and lineage\<close>





section \<open>The newest events\<close>

text \<open>The last \<open>n\<close> entries of a list.\<close>

definition newest :: "nat \<Rightarrow> 'a list \<Rightarrow> 'a list" where
  "newest n xs = drop (length xs - n) xs"

lemma newest_short: "length xs \<le> n \<Longrightarrow> newest n xs = xs"
  by (simp add: newest_def)

lemma newest_full:
  assumes "length xs = n"
  shows "newest n (xs @ x # ys) = newest n (tl (xs @ [x]) @ ys)"
proof (cases xs)
  case Nil
  then show ?thesis using assms by (simp add: newest_def)
next
  case (Cons y zs)
  have "drop (length (xs @ x # ys) - n) (xs @ x # ys) = drop (Suc (length ys)) (y # zs @ x # ys)"
    using assms Cons by (intro arg_cong2 [where f = drop]) auto
  moreover have "drop (length (tl (xs @ [x]) @ ys) - n) (tl (xs @ [x]) @ ys) = drop (length ys) (zs @ x # ys)"
    using assms Cons by (intro arg_cong2 [where f = drop]) auto
  ultimately show ?thesis by (simp add: newest_def)
qed

lemma tail_loop_framed:
  "fits L b ls t \<Longrightarrow> length events \<le> n \<Longrightarrow>
   tail_loop L fp n (map (\<lambda>l. Inr (CompleteLine l)) ls @ end_read t) offset events dropped skipped b =
     Inr (newest n (events @ stream_rows L fp offset ls),
          dropped + (length (events @ stream_rows L fp offset ls) - n),
          skipped + length (filter (corrupt_line L) ls) + (if t = [] then 0 else 1))"
proof (induction ls arbitrary: b offset events dropped skipped)
  case Nil
  then show ?case using fits_torn [OF Nil(1)] by (auto simp: end_read_def newest_short)
next
  case (Cons l ls)
  show ?case
  proof (cases "parse_operator_line L (butlast l)")
    case None
    then have c: "corrupt_line L l" by (simp add: corrupt_line_def)
    from fits_corrupt [OF Cons.prems(1) c] obtain b' where b': "budget_record b (length l) = Inr b'" "fits L b' ls t" .
    show ?thesis using Cons.IH [OF b'(2) Cons.prems(2)] b'(1) None c by (simp add: Let_def)
  next
    case (Some event)
    then have v: "\<not> corrupt_line L l" by (simp add: corrupt_line_def)
    with Cons.prems have f: "fits L b ls t" by (auto intro: fits_valid)
    let ?row = "cursor_row L fp (offset + length l) event"
    let ?rest = "stream_rows L fp (offset + length l) ls"
    show ?thesis
    proof (cases "length events = n")
      case False
      then show ?thesis
        using Cons.IH [OF f, of "events @ [?row]"] Cons.prems(2) Some v by (simp add: Let_def cursor_row_def)
    next
      case full: True
      have step: "tail_loop L fp n (map (\<lambda>l. Inr (CompleteLine l)) (l # ls) @ end_read t) offset events dropped skipped b =
          tail_loop L fp n (map (\<lambda>l. Inr (CompleteLine l)) ls @ end_read t) (offset + length l) (tl (events @ [?row]))
            (dropped + 1) skipped b"
        using full Some by (cases events) (simp_all add: Let_def cursor_row_def)
      have len: "length (tl (events @ [?row])) \<le> n" using full by simp
      show ?thesis unfolding step Cons.IH [OF f len] using full Some v newest_full [OF full, of ?row ?rest] by simp
    qed
  qed
qed

text \<open>Where a window of a framed file begins: between two lines, inside a line, or in the torn tail.\<close>

lemma window_cut:
  assumes "start \<le> length (concat ls @ t)"
  obtains (between) ls1 ls2 where "ls = ls1 @ ls2" "start = length (concat ls1)"
  | (inside) ls1 a q ls2 where "ls = ls1 @ (a @ q) # ls2" "a \<noteq> []" "q \<noteq> []" "start = length (concat ls1) + length a"
  | (torn) "length (concat ls) < start"
proof -
  have "(\<exists>ls1 ls2. ls = ls1 @ ls2 \<and> start = length (concat ls1)) \<or>
      (\<exists>ls1 a q ls2. ls = ls1 @ (a @ q) # ls2 \<and> a \<noteq> [] \<and> q \<noteq> [] \<and> start = length (concat ls1) + length a) \<or>
      length (concat ls) < start"
  proof (induction ls arbitrary: start)
    case (Cons l ls)
    consider "start = 0" | "0 < start" "start < length l" | "length l \<le> start" by linarith
    then show ?case
    proof cases
      case 1
      then show ?thesis by (intro disjI1 exI [of _ "[]"] exI [of _ "l # ls"]) simp
    next
      case 2
      then have "l # ls = [] @ (take start l @ drop start l) # ls" "take start l \<noteq> []" "drop start l \<noteq> []"
        "start = length (concat []) + length (take start l)" by auto
      then show ?thesis by blast
    next
      case 3
      from Cons.IH [of "start - length l"] show ?thesis
      proof (elim disjE exE conjE)
        fix ls1 ls2
        assume "ls = ls1 @ ls2" "start - length l = length (concat ls1)"
        then show ?thesis using 3 by (intro disjI1 exI [of _ "l # ls1"] exI [of _ ls2]) simp
      next
        fix ls1 a q ls2
        assume "ls = ls1 @ (a @ q) # ls2" "a \<noteq> []" "q \<noteq> []" "start - length l = length (concat ls1) + length a"
        then show ?thesis using 3
          by (intro disjI2 disjI1 exI [of _ "l # ls1"] exI [of _ a] exI [of _ q] exI [of _ ls2]) simp
      qed (use 3 in auto)
    qed
  qed auto
  then show thesis using that by blast
qed

context operator_laws
begin

lemma tail_window_framed:
  assumes "list_all framed ls" "torn_ok t" "fits L empty_budget ls t" and f: "f = concat ls @ t"
  shows "\<exists>ls1 ls2 tail. ls = ls1 @ ls2 \<and>
    read_tail_window L bufs (Some f) (length f) max_bytes n fp = Inr tail \<and>
    tl_events tail = newest n (stream_rows L fp (length (concat ls1)) ls2) \<and>
    tl_dropped_events tail = length (stream_rows L fp (length (concat ls1)) ls2) - n \<and>
    tl_stream_present tail \<and> (tl_starts_mid_stream tail \<longleftrightarrow> max_bytes < length f) \<and>
    (ls1 = [] \<or> max_bytes < length (last ls1 @ concat ls2 @ t))"
proof -
  define start where "start = length f - max_bytes"
  have le: "start \<le> length (concat ls @ t)" using f by (simp add: start_def)
  have le': "start \<le> length f" by (simp add: start_def)
  have mid: "0 < start \<longleftrightarrow> max_bytes < length f" by (auto simp: start_def)
  have win: "take (length f - start) (drop start f) = drop start f" by simp
  have loop: "tail_loop L fp n (map (\<lambda>l. Inr (CompleteLine l)) ls2 @ end_read t) off [] 0 0 empty_budget =
      Inr (newest n (stream_rows L fp off ls2), length (stream_rows L fp off ls2) - n,
        length (filter (corrupt_line L) ls2) + (if t = [] then 0 else 1))" if "ls = ls1 @ ls2" for ls1 ls2 off
    using tail_loop_framed [OF fits_suffix, of L empty_budget ls1 ls2 t "[]" n fp off 0 0] assms(3) that by simp
  have reads: "line_reads (bufs (concat ls2 @ t)) = map (\<lambda>l. Inr (CompleteLine l)) ls2 @ end_read t"
    if "list_all framed ls2" for ls2
    using flat_reads_framed [OF that assms(2)] by (simp add: reads_flat)
  from le show ?thesis
  proof (cases rule: window_cut)
    case (between ls1 ls2)
    have cut: "drop start f = concat ls2 @ t" using between f by simp
    have aligned: "start = 0 \<or> f ! (start - 1) = NL"
    proof (cases ls1 rule: rev_cases)
      case (snoc ms l)
      then obtain b where "l = b @ [NL]" using assms(1) between(1) by (auto elim: framedE)
      then show ?thesis using snoc between f by (simp add: nth_append)
    qed (simp add: between(2))
    have fr: "list_all framed ls2" using assms(1) between(1) by simp
    have "read_tail_window L bufs (Some f) (length f) max_bytes n fp =
        Inr \<lparr>tl_events = newest n (stream_rows L fp start ls2), tl_stream_present = True,
          tl_starts_mid_stream = (start > 0), tl_dropped_events = length (stream_rows L fp start ls2) - n,
          tl_skipped_lines = length (filter (corrupt_line L) ls2) + (if t = [] then 0 else 1),
          tl_window_bytes = length f - start\<rparr>"
      unfolding read_tail_window_def option.case Let_def start_def [symmetric] win unfolding cut
      using aligned reads [OF fr] loop [OF between(1)] le' by simp
    moreover have "ls1 = [] \<or> max_bytes < length (last ls1 @ concat ls2 @ t)"
      using between f start_def assms(1)
      by (cases ls1 rule: rev_cases) (auto simp: framed_def simp flip: length_greater_0_conv)
    ultimately show ?thesis unfolding between(2) [symmetric]
      using between(1) mid by (intro exI [of _ ls1] exI [of _ ls2]) (simp flip: between(2))
  next
    case (inside ls1 a q ls2)
    have cut: "drop start f = concat (q # ls2) @ t" using inside f by simp
    obtain b where b: "a @ q = b @ [NL]" "NL \<notin> set b" using assms(1) inside(1) by (auto elim: framedE)
    have fr: "framed q" "list_all framed ls2" using assms(1) inside by (auto simp: framed_def butlast_append)
    have na: "\<not> (start = 0 \<or> f ! (start - 1) = NL)"
    proof -
      have "NL \<notin> set a" using assms(1) inside(1,3) by (auto simp: framed_def butlast_append)
      moreover have "f ! (start - 1) = last a" using inside(1,2,4) f by (cases a rule: rev_cases) (simp_all add: nth_append)
      ultimately have "f ! (start - 1) \<noteq> NL" using last_in_set [OF inside(2)] by metis
      then show ?thesis using inside(2,4) by simp
    qed
    have sp: "ls = (ls1 @ [a @ q]) @ ls2" using inside(1) by simp
    have len: "start + length q = length (concat (ls1 @ [a @ q]))" using inside by simp
    have "read_tail_window L bufs (Some f) (length f) max_bytes n fp =
        Inr \<lparr>tl_events = newest n (stream_rows L fp (start + length q) ls2), tl_stream_present = True,
          tl_starts_mid_stream = (start > 0), tl_dropped_events = length (stream_rows L fp (start + length q) ls2) - n,
          tl_skipped_lines = length (filter (corrupt_line L) ls2) + (if t = [] then 0 else 1),
          tl_window_bytes = length f - start\<rparr>"
      unfolding read_tail_window_def option.case Let_def start_def [symmetric] win unfolding cut
      using na reads [of "q # ls2"] fr loop [OF sp] le' by simp
    moreover have "max_bytes < length ((a @ q) @ concat ls2 @ t)"
      using inside f start_def by (auto simp flip: length_greater_0_conv)
    ultimately show ?thesis using sp mid
      by (intro exI [of _ "ls1 @ [a @ q]"] exI [of _ ls2]) (simp add: len [symmetric] del: concat_append)
  next
    case torn
    have cut: "drop start f = drop (start - length (concat ls)) t" using torn f by simp
    let ?u = "drop (start - length (concat ls)) t"
    have u: "torn_ok ?u" using assms(2) in_set_dropD by (fastforce simp: torn_ok_def)
    have na: "\<not> (start = 0 \<or> f ! (start - 1) = NL)"
    proof -
      have "f ! (start - 1) = t ! (start - 1 - length (concat ls))" "start - 1 - length (concat ls) < length t"
        using torn f le by (auto simp: nth_append)
      then show ?thesis using assms(2) torn nth_mem by (fastforce simp: torn_ok_def)
    qed
    have "line_reads (bufs ?u) = end_read ?u"
      using flat_reads_framed [of "[]" ?u] u by (simp add: reads_flat)
    then have "read_tail_window L bufs (Some f) (length f) max_bytes n fp =
        Inr \<lparr>tl_events = [], tl_stream_present = True, tl_starts_mid_stream = True,
          tl_dropped_events = 0, tl_skipped_lines = 0, tl_window_bytes = length f - start\<rparr>"
      unfolding read_tail_window_def option.case Let_def start_def [symmetric] win unfolding cut
      using na le' by (simp add: end_read_def)
    moreover have "max_bytes < length f" using na by (simp add: start_def)
    moreover have "max_bytes < length (last ls @ t)" using torn f start_def by auto
    ultimately show ?thesis
      by (intro exI [of _ ls] exI [of _ "[]"]) (simp add: newest_def)
  qed
qed

end

text \<open>The tail holds the newest events: on a file no writer touches, it is the newest \<open>n\<close> events of
  the whole lines in the window, no line that fits the window whole is left out of it, the number
  of events dropped for the limit is exact, and a tail that claims to be complete is the whole
  stream.\<close>

theorem tail_is_newest:
  assumes "operator_laws L bufs" and "list_all framed ls" and "torn_ok t" and "fits L empty_budget ls t"
  shows "\<exists>ls1 ls2 tail. ls = ls1 @ ls2 \<and>
    read_tail L bufs (quiet (concat ls @ t)) max_bytes n = Inr tail \<and>
    (ls1 = [] \<or> max_bytes < length (last ls1 @ concat ls2 @ t)) \<and>
    tl_events tail = newest n (stream_rows L (anchor L ls) (length (concat ls1)) ls2) \<and>
    tl_dropped_events tail = length (stream_rows L (anchor L ls) (length (concat ls1)) ls2) - n \<and>
    (OperatorTail_is_complete tail \<longrightarrow> tl_events tail = stream_rows L (anchor L ls) 0 ls)"
proof -
  let ?f = "concat ls @ t"
  note fp = operator_laws.fingerprint_of_framed [OF assms]
  from operator_laws.tail_window_framed [OF assms refl, of max_bytes n "anchor L ls"]
  obtain ls1 ls2 tail where w: "ls = ls1 @ ls2"
      "read_tail_window L bufs (Some ?f) (length ?f) max_bytes n (anchor L ls) = Inr tail"
      "tl_events tail = newest n (stream_rows L (anchor L ls) (length (concat ls1)) ls2)"
      "tl_dropped_events tail = length (stream_rows L (anchor L ls) (length (concat ls1)) ls2) - n"
      "tl_starts_mid_stream tail \<longleftrightarrow> max_bytes < length ?f"
      "ls1 = [] \<or> max_bytes < length (last ls1 @ concat ls2 @ t)" by blast
  have "read_tail L bufs (quiet ?f) max_bytes n = Inr tail"
    using fp w(2) by (simp add: read_tail_def MAX_OPERATOR_LINEAGE_READ_ATTEMPTS_def upt_rec quiet_def)
  moreover have "tl_events tail = stream_rows L (anchor L ls) 0 ls" if "OperatorTail_is_complete tail"
  proof -
    have "length ?f \<le> max_bytes" using that w(5) by (simp add: OperatorTail_is_complete_def)
    then have "ls1 = []"
      using w(1,6) by (cases ls1 rule: rev_cases) auto
    moreover have "length (stream_rows L (anchor L ls) (length (concat ls1)) ls2) \<le> n"
      using that w(4) by (simp add: OperatorTail_is_complete_def)
    ultimately show ?thesis using w(1,3) by (simp add: newest_short)
  qed
  ultimately show ?thesis using w by blast
qed

section \<open>A concrete library\<close>

definition cursor_to_value :: "OperatorCursor \<Rightarrow> json" where
  "cursor_to_value c = JObject
     [(''version'', JNumber (PosInt (ucast (oc_version c)))), (''fingerprint'', JString (oc_fingerprint c)),
      (''offset'', JNumber (PosInt (of_nat (oc_offset c))))]"

definition cursor_of_value :: "json \<Rightarrow> OperatorCursor option" where
  "cursor_of_value v =
     Option.bind (Option.bind (json_get v ''version'') as_u64) (\<lambda>ver.
     Option.bind (string_field v ''fingerprint'') (\<lambda>fp.
     Option.bind (Option.bind (json_get v ''offset'') as_u64) (\<lambda>off.
       if unat ver < 256 then Some \<lparr>oc_version = ucast ver, oc_fingerprint = fp, oc_offset = unat off\<rparr>
       else None)))"

definition envelope_of_value :: "json \<Rightarrow> OperatorEnvelope option" where
  "envelope_of_value v =
     Option.bind (Option.bind (json_get v ''v'') read_u32) (\<lambda>ver.
     Option.bind (Option.bind (json_get v ''at_ms'') as_u64) (\<lambda>at.
     Option.bind (string_field v ''kind'') (\<lambda>kind.
     Option.bind (Option.bind (json_get v ''record'') event_of_value) (\<lambda>event.
       Some \<lparr>oe_v = ver, oe_at_ms = at, oe_kind = kind, oe_record = event\<rparr>))))"

text \<open>A checksum of 32 bytes in place of the digest.\<close>

definition checksum :: "string \<Rightarrow> string" where
  "checksum s = map (\<lambda>i. char_of (sum_list (map of_char s) + i :: nat)) [0..<32]"

text \<open>The default buffer of a buffered reader.\<close>

function buffers :: "string \<Rightarrow> string list" where
  "buffers s = (if s = [] then [] else take 8192 s # buffers (drop 8192 s))"
  by pat_completeness auto
termination
  by (relation "measure length") auto

declare buffers.simps [simp del]

definition demo_operator :: operator_lib where
  "demo_operator = \<lparr>ol_to_text = wire, ol_event_to_value = event_to_value,
     ol_envelope_of_slice = (\<lambda>s. Option.bind (unwire s) envelope_of_value), ol_sha256 = checksum,
     ol_cursor_to_text = (\<lambda>c. wire (cursor_to_value c)),
     ol_cursor_of_text = (\<lambda>s. Option.bind (unwire s) cursor_of_value),
     ol_base64 = wire_string, ol_unbase64 = (\<lambda>s. map_option fst (unwire_string s))\<rparr>"

lemma cursor_value_round_trip:
  assumes "oc_offset c < 2 ^ 64"
  shows "cursor_of_value (cursor_to_value c) = Some c"
proof -
  have small: "unat (oc_version c) < 2 ^ 8" using unsigned_less [of "oc_version c", where ?'a = nat] by simp
  then have "unat (ucast (oc_version c) :: u64) = unat (oc_version c)"
    by (simp add: unsigned_ucast_eq take_bit_nat_eq_self)
  moreover have "(ucast (ucast (oc_version c) :: u64) :: u8) = oc_version c"
    by (rule bit_word_eqI) (simp add: bit_simps)
  moreover have "unat (of_nat (oc_offset c) :: u64) = oc_offset c"
    using assms by (simp add: unat_of_nat take_bit_nat_eq_self)
  ultimately show ?thesis using small
    by (simp add: cursor_of_value_def cursor_to_value_def json_get_def string_field_def)
qed

interpretation demo_operator: operator_laws demo_operator buffers
proof
  fix s c v
  show "concat (buffers s) = s"
  proof (induction s rule: buffers.induct)
    case (1 s)
    then show ?case by (cases "s = []") (simp_all add: buffers.simps [of s] buffers.simps [of "[]"])
  qed
  show "[] \<notin> set (buffers s)"
  proof (induction s rule: buffers.induct)
    case (1 s)
    then show ?case by (cases "s = []") (simp_all add: buffers.simps [of s] buffers.simps [of "[]"])
  qed
  show "ol_unbase64 demo_operator (ol_base64 demo_operator s) = Some s"
    using unwire_wire_string [of s "[]"] by (simp add: demo_operator_def)
  show "ol_cursor_of_text demo_operator (ol_cursor_to_text demo_operator c) = Some c" if "oc_offset c < 2 ^ 64"
    using cursor_value_round_trip [OF that] by (simp add: demo_operator_def wire_text.of_to_text)
  show "length (ol_sha256 demo_operator s) = 32" by (simp add: demo_operator_def checksum_def)
  show "NL \<notin> set (ol_to_text demo_operator v)" by (simp add: demo_operator_def wire_text.text_one_line)
  show "ol_envelope_of_slice demo_operator [] = None" by (simp add: demo_operator_def unwire_def)
qed

lemma demo_operator_parse: "parse_operator_line demo_operator (operator_line demo_operator now event) = Some event"
  by (simp add: parse_operator_line_def operator_line_def demo_operator_def wire_text.of_to_text
      envelope_of_value_def json_get_def string_field_def event_round_trip del: wire.simps)

definition demo_event :: OperatorEvent where
  "demo_event = \<lparr>ev_schema_version = 1, ev_event_id = ''e1'', ev_thread_id = [], ev_turn_id = None,
     ev_run_id = None, ev_call_id = None, ev_work_id = None, ev_event_type = Blocker, ev_occurred_at = [],
     ev_actor = \<lparr>actor_kind = [], actor_id = []\<rparr>, ev_risk_class = RiskLow, ev_sensitivity = Restricted,
     ev_parent_event_id = None, ev_correlation_id = None, ev_source_refs = [], ev_evidence_refs = [],
     ev_payload = JNull\<rparr>"

lemma wire_string_length: "length (wire_string s) = 2 * length s + 1"
  by (induction s) (simp_all add: hex_byte_def)

lemma word_bytes_length: "length (word_bytes w) = 64"
  by (simp add: word_bytes_def)

lemma demo_line_short: "length (operator_line demo_operator 7 demo_event) < MAX_OPERATOR_ENVELOPE_BYTES"
  by (simp add: operator_line_def demo_operator_def event_to_value_def demo_event_def wire_string_length
      write_u32_def opt_str_def write_tag_def event_tags_def risk_tags_def sensitivity_tags_def actor_to_value_def
      word_bytes_length unwrap_or_def OPERATOR_STREAM_KIND_def MAX_OPERATOR_ENVELOPE_BYTES_def
      del: wire_string.simps)

lemma demo_clean: "find_sensitive (ol_event_to_value demo_operator demo_event) = None"
  unfolding demo_operator_def operator_lib.simps by code_simp

definition demo_line :: string where
  "demo_line = operator_line demo_operator 7 demo_event @ [NL]"

lemma demo_line_framed: "framed demo_line"
  unfolding demo_line_def by (rule demo_operator.new_line_framed [OF demo_line_short])

lemma demo_line_valid: "parse_operator_line demo_operator (butlast demo_line) = Some demo_event"
  by (simp add: demo_line_def demo_operator_parse)

lemma demo_stream:
  "list_all framed [demo_line]" "torn_ok ''x''" "fits demo_operator empty_budget [demo_line] ''x''"
  "length (concat [demo_line] @ ''x'') < 2 ^ 64"
proof -
  show "list_all framed [demo_line]" using demo_line_framed by simp
  show "torn_ok ''x''" by (simp add: torn_ok_def MAX_OPERATOR_ENVELOPE_BYTES_def)
  show "fits demo_operator empty_budget [demo_line] ''x''"
    by (simp add: fits_def empty_budget_def corrupt_line_def demo_line_valid
        MAX_OPERATOR_CORRUPT_LINES_PER_READ_def MAX_OPERATOR_CORRUPT_BYTES_PER_READ_def)
  show "length (concat [demo_line] @ ''x'') < 2 ^ 64"
    using demo_line_short by (simp add: demo_line_def MAX_OPERATOR_ENVELOPE_BYTES_def)
qed

theorem polling_replays_exactly_witness:
  "map_sum (\<lambda>e. e) (map ce_event) (poll demo_operator buffers (concat [demo_line] @ ''x'') 1 2 None) = Inr [demo_event]"
  using polling_replays_exactly [OF demo_operator.operator_laws_axioms demo_stream, of 1 2]
  by (simp add: demo_line_valid cursor_row_def)

theorem tail_is_newest_witness:
  "\<exists>tail. read_tail demo_operator buffers (quiet (concat [demo_line] @ ''x'')) 0 5 = Inr tail \<and>
     length (tl_events tail) \<le> 1"
  using tail_is_newest [OF demo_operator.operator_laws_axioms demo_stream(1-3), of 0 5]
  by (auto simp: Cons_eq_append_conv newest_def demo_line_valid)

theorem append_adds_one_event_witness:
  "\<exists>row. append_event demo_operator buffers 7 demo_event (Some (demo_line @ ''x'')) =
     (Inr row, Some (demo_line @ demo_line)) \<and> ce_event row = demo_event"
  using append_adds_one_event [OF demo_operator.operator_laws_axioms _ demo_stream(1-3) _ demo_clean demo_line_short
      demo_operator_parse, of "Some (demo_line @ ''x'')"]
  by (auto simp: unwrap_or_def MAX_OPERATOR_ENVELOPE_BYTES_def simp flip: demo_line_def)

definition leaking_event :: OperatorEvent where
  "leaking_event = demo_event\<lparr>ev_event_id := ''.env''\<rparr>"

lemma leaking_event_refused: "find_sensitive (ol_event_to_value demo_operator leaking_event) \<noteq> None"
proof
  assume clean: "find_sensitive (ol_event_to_value demo_operator leaking_event) = None"
  have "occurs_in (JString ''.env'') (ol_event_to_value demo_operator leaking_event)"
    unfolding demo_operator_def operator_lib.simps event_to_value_def
    by (rule occurs_object [of "''event_id''" "JString ''.env''"]) (auto simp: leaking_event_def occurs_refl)
  from find_sensitive_inside [OF this clean] have "find_sensitive_text ''.env'' = None" by simp
  moreover have "find_sensitive_text ''.env'' \<noteq> None" by code_simp
  ultimately show False by simp
qed

theorem refused_append_keeps_stream_witness:
  "append_event demo_operator buffers 7 leaking_event None = (Inl SensitiveMaterial, None)"
proof -
  have refused: "append_event demo_operator buffers 7 leaking_event None = (Inl SensitiveMaterial, None)"
    using leaking_event_refused by (simp add: append_event_def)
  from refused_append_keeps_stream [OF demo_operator.operator_laws_axioms demo_operator_parse this] refused
  show ?thesis by simp
qed


end
