(* ===== verification/Keys.thy ===== *)
theory Keys
  imports Json
begin

text \<open>
  Where secrets live: the OS keychain wrapper \<open>crates/heiwa_vault/src/lib.rs\<close> and the key stores of
  \<open>crates/heiwa_mesh/src/keystore.rs\<close>. The \<open>keyring\<close> crate is the parameter \<open>keyring\<close>: operations on
  a state of some type. The trait \<open>KeyStore\<close> is a record of operations, its contract the locale
  \<open>key_store\<close>; the memory store and, over any backend with the locale \<open>keyring_backend\<close>, the vault
  store satisfy it. A poisoned mutex is not modelled.
\<close>

section \<open>The keychain wrapper\<close>

datatype keyring_error = NoEntry | OtherFailure

record 's keyring =
  kr_new :: "string \<Rightarrow> string \<Rightarrow> keyring_error option"
  kr_set_password :: "string \<times> string \<Rightarrow> string \<Rightarrow> 's \<Rightarrow> keyring_error option \<times> 's"
  kr_get_password :: "string \<times> string \<Rightarrow> 's \<Rightarrow> keyring_error + string"
  kr_delete_credential :: "string \<times> string \<Rightarrow> 's \<Rightarrow> keyring_error option \<times> 's"

datatype VaultError = NotFound string string | VaultBackend keyring_error | InvalidUtf8 | Decode

record OAuthSecret =
  os_access_token :: string
  os_refresh_token :: "string option"
  os_expires_at_unix :: "u64 option"
  os_scope :: "string option"

record Vault = vault_service :: string

definition DEFAULT_SERVICE :: string where "DEFAULT_SERVICE = ''heiwa''"

definition Vault_new :: "string \<Rightarrow> Vault" where
  "Vault_new service = \<lparr>vault_service = service\<rparr>"

definition Vault_default :: Vault where
  "Vault_default = Vault_new DEFAULT_SERVICE"

definition vault_entry :: "'s keyring \<Rightarrow> Vault \<Rightarrow> string \<Rightarrow> VaultError + string \<times> string" where
  "vault_entry R v account =
     (case kr_new R (vault_service v) account of
        Some e \<Rightarrow> Inl (VaultBackend e)
      | None \<Rightarrow> Inr (vault_service v, account))"

definition vault_store :: "'s keyring \<Rightarrow> Vault \<Rightarrow> string \<Rightarrow> string \<Rightarrow> 's \<Rightarrow> (VaultError + unit) \<times> 's" where
  "vault_store R v account secret s =
     (case vault_entry R v account of
        Inl e \<Rightarrow> (Inl e, s)
      | Inr entry \<Rightarrow>
          (case kr_set_password R entry secret s of
             (Some e, s') \<Rightarrow> (Inl (VaultBackend e), s')
           | (None, s') \<Rightarrow> (Inr (), s')))"

definition vault_load :: "'s keyring \<Rightarrow> Vault \<Rightarrow> string \<Rightarrow> 's \<Rightarrow> VaultError + string" where
  "vault_load R v account s =
     (case vault_entry R v account of
        Inl e \<Rightarrow> Inl e
      | Inr entry \<Rightarrow>
          (case kr_get_password R entry s of
             Inr secret \<Rightarrow> Inr secret
           | Inl NoEntry \<Rightarrow> Inl (NotFound (vault_service v) account)
           | Inl e \<Rightarrow> Inl (VaultBackend e)))"

definition vault_delete :: "'s keyring \<Rightarrow> Vault \<Rightarrow> string \<Rightarrow> 's \<Rightarrow> (VaultError + unit) \<times> 's" where
  "vault_delete R v account s =
     (case vault_entry R v account of
        Inl e \<Rightarrow> (Inl e, s)
      | Inr entry \<Rightarrow>
          (case kr_delete_credential R entry s of
             (None, s') \<Rightarrow> (Inr (), s')
           | (Some NoEntry, s') \<Rightarrow> (Inl (NotFound (vault_service v) account), s')
           | (Some e, s') \<Rightarrow> (Inl (VaultBackend e), s')))"

text \<open>The derived codec of \<open>OAuthSecret\<close> is a parameter.\<close>

definition vault_store_oauth ::
    "(OAuthSecret \<Rightarrow> string) \<Rightarrow> 's keyring \<Rightarrow> Vault \<Rightarrow> string \<Rightarrow> OAuthSecret \<Rightarrow> 's \<Rightarrow> (VaultError + unit) \<times> 's" where
  "vault_store_oauth to_text R v account secret s = vault_store R v account (to_text secret) s"

definition vault_load_oauth ::
    "(string \<Rightarrow> OAuthSecret option) \<Rightarrow> 's keyring \<Rightarrow> Vault \<Rightarrow> string \<Rightarrow> 's \<Rightarrow> VaultError + OAuthSecret" where
  "vault_load_oauth of_text R v account s =
     (case vault_load R v account s of
        Inl e \<Rightarrow> Inl e
      | Inr raw \<Rightarrow> (case of_text raw of None \<Rightarrow> Inl Decode | Some secret \<Rightarrow> Inr secret))"

section \<open>Key stores\<close>

datatype KeyStoreError = Backend

record 's KeyStore =
  ks_store :: "string \<Rightarrow> string \<Rightarrow> 's \<Rightarrow> (KeyStoreError + unit) \<times> 's"
  ks_load :: "string \<Rightarrow> 's \<Rightarrow> KeyStoreError + string option"
  ks_delete :: "string \<Rightarrow> 's \<Rightarrow> (KeyStoreError + unit) \<times> 's"

type_synonym memory_keys = "string \<rightharpoonup> string"

definition MemoryKeyStore :: "memory_keys KeyStore" where
  "MemoryKeyStore =
     \<lparr>ks_store = (\<lambda>account secret m. (Inr (), m(account \<mapsto> secret))),
      ks_load = (\<lambda>account m. Inr (m account)),
      ks_delete = (\<lambda>account m. (Inr (), m(account := None)))\<rparr>"

definition KEY_STORE_SERVICE :: string where "KEY_STORE_SERVICE = ''heiwa-mesh''"

definition absent_is_none :: "VaultError + string \<Rightarrow> KeyStoreError + string option" where
  "absent_is_none result =
     (case result of
        Inr secret \<Rightarrow> Inr (Some secret)
      | Inl (NotFound _ _) \<Rightarrow> Inr None
      | Inl _ \<Rightarrow> Inl Backend)"

definition VaultKeyStore :: "'s keyring \<Rightarrow> 's KeyStore" where
  "VaultKeyStore R =
     (let vault = Vault_new KEY_STORE_SERVICE in
      \<lparr>ks_store = (\<lambda>account secret s.
         (case vault_store R vault account secret s of
            (Inl _, s') \<Rightarrow> (Inl Backend, s') | (Inr u, s') \<Rightarrow> (Inr u, s'))),
       ks_load = (\<lambda>account s. absent_is_none (vault_load R vault account s)),
       ks_delete = (\<lambda>account s.
         (case vault_delete R vault account s of
            (Inr u, s') \<Rightarrow> (Inr u, s')
          | (Inl (NotFound _ _), s') \<Rightarrow> (Inr (), s')
          | (Inl _, s') \<Rightarrow> (Inl Backend, s')))\<rparr>)"

section \<open>The contract of a key store\<close>

locale key_store =
  fixes K :: "'s KeyStore"
  assumes store_load: "ks_store K a secret s = (Inr (), s') \<Longrightarrow> ks_load K a s' = Inr (Some secret)"
    and store_other: "ks_store K a secret s = (Inr (), s') \<Longrightarrow> b \<noteq> a \<Longrightarrow> ks_load K b s' = ks_load K b s"
    and delete_load: "ks_delete K a s = (Inr (), s') \<Longrightarrow> ks_load K a s' = Inr None"
    and delete_other: "ks_delete K a s = (Inr (), s') \<Longrightarrow> b \<noteq> a \<Longrightarrow> ks_load K b s' = ks_load K b s"
begin

lemma rotate:
  assumes "ks_store K a old s = (Inr (), s')" "ks_delete K a s' = (Inr (), s'')" "ks_store K a new s'' = (Inr (), s3)"
  shows "ks_load K a s'' = Inr None \<and> ks_load K a s3 = Inr (Some new)"
  using assms store_load delete_load by blast

end

interpretation memory_keys: key_store MemoryKeyStore
  by unfold_locales (auto simp: MemoryKeyStore_def)

text \<open>The documented behaviour of a keyring backend: a password set is the one got, deleting removes
  it, a missing entry reads and deletes as \<open>NoEntry\<close>, and entries are independent. An entry that
  could be created once can be created again.\<close>

locale keyring_backend =
  fixes R :: "'s keyring"
  assumes set_get: "kr_set_password R e p s = (None, s') \<Longrightarrow> kr_get_password R e s' = Inr p"
    and set_other: "kr_set_password R e p s = (None, s') \<Longrightarrow> e' \<noteq> e \<Longrightarrow> kr_get_password R e' s' = kr_get_password R e' s"
    and delete_get: "kr_delete_credential R e s = (None, s') \<Longrightarrow> kr_get_password R e s' = Inl NoEntry"
    and delete_missing: "kr_delete_credential R e s = (Some NoEntry, s') \<Longrightarrow>
      kr_get_password R e s' = Inl NoEntry"
    and delete_other: "kr_delete_credential R e s = (r, s') \<Longrightarrow> r \<in> {None, Some NoEntry} \<Longrightarrow> e' \<noteq> e \<Longrightarrow>
      kr_get_password R e' s' = kr_get_password R e' s"

lemmas vault_defs =
  VaultKeyStore_def vault_store_def vault_load_def vault_delete_def vault_entry_def absent_is_none_def
  Vault_new_def Let_def

sublocale keyring_backend \<subseteq> vault_keys: key_store "VaultKeyStore R"
proof
  fix a secret s s'
  assume st: "ks_store (VaultKeyStore R) a secret s = (Inr (), s')"
  from st show "ks_load (VaultKeyStore R) a s' = Inr (Some secret)"
    by (auto simp: vault_defs set_get split: option.splits sum.splits prod.splits)
  show "ks_load (VaultKeyStore R) b s' = ks_load (VaultKeyStore R) b s" if "b \<noteq> a" for b
    using st that set_other
    by (fastforce simp: vault_defs split: option.splits sum.splits prod.splits)
next
  fix a s s'
  assume de: "ks_delete (VaultKeyStore R) a s = (Inr (), s')"
  then obtain r where new: "kr_new R KEY_STORE_SERVICE a = None"
    and r: "kr_delete_credential R (KEY_STORE_SERVICE, a) s = (r, s')" "r \<in> {None, Some NoEntry}"
    by (auto simp: vault_defs split: option.splits sum.splits prod.splits keyring_error.splits VaultError.splits)
  then have "kr_get_password R (KEY_STORE_SERVICE, a) s' = Inl NoEntry"
    using delete_get delete_missing by auto
  with new show "ks_load (VaultKeyStore R) a s' = Inr None" by (simp add: vault_defs)
  show "ks_load (VaultKeyStore R) b s' = ks_load (VaultKeyStore R) b s" if "b \<noteq> a" for b
    using delete_other [OF r, of "(KEY_STORE_SERVICE, b)"] that by (cases "kr_new R KEY_STORE_SERVICE b") (simp_all add: vault_defs)
qed

text \<open>A keyring in memory.\<close>

definition memory_keyring :: "(string \<times> string \<rightharpoonup> string) keyring" where
  "memory_keyring =
     \<lparr>kr_new = (\<lambda>service account. None),
      kr_set_password = (\<lambda>e p m. (None, m(e \<mapsto> p))),
      kr_get_password = (\<lambda>e m. case m e of None \<Rightarrow> Inl NoEntry | Some p \<Rightarrow> Inr p),
      kr_delete_credential = (\<lambda>e m. case m e of None \<Rightarrow> (Some NoEntry, m) | Some _ \<Rightarrow> (None, m(e := None)))\<rparr>"

interpretation memory_keyring: keyring_backend memory_keyring
  by unfold_locales (auto simp: memory_keyring_def split: option.splits if_splits)

end
