(* ===== verification/Mesh.thy ===== *)
theory Mesh
  imports Keys Wire
begin

text \<open>
  Mesh node identity and replication framing, \<open>crates/heiwa_mesh\<close>: the hybrid logical clock, hex,
  the signed envelope with its canonical JSON, the node record and its signing key, enrolled peers
  and capability advertisements. Ed25519, SHA-256, \<open>serde_json\<close>'s printing of strings and numbers and
  the derived codecs are the parameter \<open>mesh_lib\<close>; a signing key is its 32-byte seed. The record
  files are \<open>None\<close> when missing and their bytes otherwise; I/O errors other than invalid UTF-8 are
  not modelled.
\<close>

section \<open>The hybrid logical clock\<close>

record HybridLogicalClock =
  wall_ms :: u64
  counter :: u32

text \<open>The derived order: fields from left to right.\<close>

instantiation HybridLogicalClock_ext :: (linorder) linorder
begin

definition less_eq_HybridLogicalClock_ext ::
    "'a HybridLogicalClock_ext \<Rightarrow> 'a HybridLogicalClock_ext \<Rightarrow> bool" where
  "less_eq_HybridLogicalClock_ext a b \<longleftrightarrow>
     wall_ms a < wall_ms b \<or> wall_ms a = wall_ms b \<and>
       (counter a < counter b \<or> counter a = counter b \<and>
         HybridLogicalClock.more a \<le> HybridLogicalClock.more b)"

definition less_HybridLogicalClock_ext ::
    "'a HybridLogicalClock_ext \<Rightarrow> 'a HybridLogicalClock_ext \<Rightarrow> bool" where
  "less_HybridLogicalClock_ext a b \<longleftrightarrow>
     wall_ms a < wall_ms b \<or> wall_ms a = wall_ms b \<and>
       (counter a < counter b \<or> counter a = counter b \<and>
         HybridLogicalClock.more a < HybridLogicalClock.more b)"

instance
proof
  fix x y z :: "'a HybridLogicalClock_ext"
  show "x < y \<longleftrightarrow> x \<le> y \<and> \<not> y \<le> x"
    by (auto simp: less_HybridLogicalClock_ext_def less_eq_HybridLogicalClock_ext_def)
  show "x \<le> x" by (simp add: less_eq_HybridLogicalClock_ext_def)
  show "x \<le> y \<Longrightarrow> y \<le> z \<Longrightarrow> x \<le> z" by (auto simp: less_eq_HybridLogicalClock_ext_def)
  show "x \<le> y \<Longrightarrow> y \<le> x \<Longrightarrow> x = y" by (auto simp: less_eq_HybridLogicalClock_ext_def)
  show "x \<le> y \<or> y \<le> x" by (auto simp: less_eq_HybridLogicalClock_ext_def)
qed

end

definition hlc_step :: "u64 \<Rightarrow> u32 \<Rightarrow> HybridLogicalClock" where
  "hlc_step w c =
     (case checked_add c 1 of
        Some c' \<Rightarrow> \<lparr>wall_ms = w, counter = c'\<rparr>
      | None \<Rightarrow>
          (case checked_add w 1 of
             Some w' \<Rightarrow> \<lparr>wall_ms = w', counter = 0\<rparr>
           | None \<Rightarrow> \<lparr>wall_ms = w, counter = c\<rparr>))"

definition hlc_tick :: "HybridLogicalClock \<Rightarrow> u64 \<Rightarrow> HybridLogicalClock" where
  "hlc_tick self now_ms =
     (if now_ms > wall_ms self then \<lparr>wall_ms = now_ms, counter = 0\<rparr>
      else hlc_step (wall_ms self) (counter self))"

definition hlc_observe :: "HybridLogicalClock \<Rightarrow> HybridLogicalClock \<Rightarrow> u64 \<Rightarrow> HybridLogicalClock" where
  "hlc_observe self remote now_ms =
     (let highest = max (wall_ms self) (wall_ms remote) in
      if now_ms > highest then \<lparr>wall_ms = now_ms, counter = 0\<rparr>
      else
        let c = (if wall_ms self = wall_ms remote then max (counter self) (counter remote)
                 else if wall_ms self > wall_ms remote then counter self
                 else counter remote) in
        hlc_step highest c)"

section \<open>Errors and hex\<close>

datatype MeshError =
    UnknownVersion u32
  | NotEstablished
  | Malformed
  | KeyStoreFailure KeyStoreError
  | MissingSigningKey string
  | BadSignature string
  | WrongOrigin string string
  | Io

text \<open>A call returns a value, returns an error, or panics.\<close>

datatype 'a outcome = Ok 'a | Err MeshError | Panic

fun and_then :: "'a outcome \<Rightarrow> ('a \<Rightarrow> 'b outcome) \<Rightarrow> 'b outcome" where
  "and_then (Ok x) f = f x"
| "and_then (Err e) f = Err e"
| "and_then Panic f = Panic"

definition to_hex :: "string \<Rightarrow> string" where
  "to_hex bytes = concat (map hex_byte bytes)"

definition hex_value :: "char \<Rightarrow> nat option" where
  "hex_value c =
     (if 48 \<le> byte c \<and> byte c \<le> 57 then Some (byte c - 48)
      else if 97 \<le> byte c \<and> byte c \<le> 102 then Some (byte c - 87)
      else if 65 \<le> byte c \<and> byte c \<le> 70 then Some (byte c - 55)
      else None)"

fun hex_number :: "nat \<Rightarrow> string \<Rightarrow> nat option" where
  "hex_number n [] = Some n"
| "hex_number n (c # s) = (case hex_value c of None \<Rightarrow> None | Some d \<Rightarrow> hex_number (n * 16 + d) s)"

text \<open>\<open>u8::from_str_radix(s, 16)\<close>: both cases of letters, and an optional leading plus.\<close>

definition u8_from_hex :: "string \<Rightarrow> char option" where
  "u8_from_hex s =
     (if s = [] \<or> s = ''+'' \<or> s = ''-'' then None
      else (case hex_number 0 (if hd s = CHR ''+'' then tl s else s) of
              None \<Rightarrow> None
            | Some n \<Rightarrow> if n < 256 then Some (char_of n) else None))"

text \<open>Slicing a \<open>str\<close> off a character boundary panics.\<close>

fun from_hex_loop :: "string \<Rightarrow> nat list \<Rightarrow> string outcome" where
  "from_hex_loop hex [] = Ok []"
| "from_hex_loop hex (index # rest) =
     (if \<not> is_char_boundary hex (index * 2) \<or> \<not> is_char_boundary hex (index * 2 + 2) then Panic
      else (case u8_from_hex (take 2 (drop (index * 2) hex)) of
              None \<Rightarrow> Err Malformed
            | Some b \<Rightarrow> and_then (from_hex_loop hex rest) (\<lambda>bytes. Ok (b # bytes))))"

definition from_hex :: "nat \<Rightarrow> string \<Rightarrow> string outcome" where
  "from_hex n hex = (if length hex \<noteq> n * 2 then Err Malformed else from_hex_loop hex [0..<n])"

section \<open>The node record\<close>

definition NODE_SCHEMA_VERSION :: u32 where "NODE_SCHEMA_VERSION = 1"

datatype NodeId = NodeId (node_str: string)

datatype Platform = MacOS | Windows | Linux | Ios | Android

datatype NodeClass = FullNode | MobileNode

datatype BackgroundReliability = Continuous | ForegroundOnly

fun for_class :: "NodeClass \<Rightarrow> BackgroundReliability" where
  "for_class FullNode = Continuous"
| "for_class MobileNode = ForegroundOnly"

record MeshNode =
  mn_version :: u32
  mn_node_id :: NodeId
  mn_installation_id :: string
  mn_public_key :: string
  mn_display_name :: string
  mn_platform :: Platform
  mn_class :: NodeClass
  mn_enrolled_at :: string
  mn_background_reliability :: BackgroundReliability

record NodeEnrolment =
  en_installation_id :: string
  en_display_name :: string
  en_platform :: Platform
  en_class :: NodeClass
  en_enrolled_at :: string

record Peer =
  peer_node_id :: NodeId
  peer_display_name :: string
  peer_public_key :: string
  peer_enrolled_at :: string
  peer_revoked_at :: "string option"

record PeerRegistry =
  reg_version :: u32
  reg_peers :: "Peer list"

record mesh_lib =
  ml_sha256 :: "string \<Rightarrow> string"
  ml_public :: "string \<Rightarrow> string"
  ml_key_valid :: "string \<Rightarrow> bool"
  ml_sign :: "string \<Rightarrow> string \<Rightarrow> string"
  ml_verify :: "string \<Rightarrow> string \<Rightarrow> string \<Rightarrow> bool"
  ml_value_of_text :: "string \<Rightarrow> json option"
  ml_node_to_text :: "MeshNode \<Rightarrow> string"
  ml_node_of_text :: "string \<Rightarrow> MeshNode option"
  ml_registry_of_text :: "string \<Rightarrow> PeerRegistry option"
  ml_string_text :: "string \<Rightarrow> string"
  ml_number_text :: "json_number \<Rightarrow> string"

definition fingerprint :: "mesh_lib \<Rightarrow> string \<Rightarrow> string" where
  "fingerprint L public_key_bytes = ''sha256:'' @ to_hex (ml_sha256 L public_key_bytes)"

definition from_public_key :: "mesh_lib \<Rightarrow> string \<Rightarrow> NodeId" where
  "from_public_key L public_key = NodeId (fingerprint L public_key)"

definition load_node :: "mesh_lib \<Rightarrow> string option \<Rightarrow> MeshNode option outcome" where
  "load_node L file =
     (case file of
        None \<Rightarrow> Ok None
      | Some raw \<Rightarrow>
          if \<not> valid_utf8 raw then Err Io
          else (case ml_value_of_text L raw of
             None \<Rightarrow> Err Malformed
           | Some probe \<Rightarrow>
               (case Option.bind (json_get probe ''version'') as_u64 of
                  None \<Rightarrow> Err Malformed
                | Some version \<Rightarrow>
                    if version > ucast NODE_SCHEMA_VERSION then Err (UnknownVersion (ucast version))
                    else (case ml_node_of_text L raw of
                            None \<Rightarrow> Err Malformed
                          | Some node \<Rightarrow> Ok (Some node)))))"

definition new_node :: "mesh_lib \<Rightarrow> NodeEnrolment \<Rightarrow> string \<Rightarrow> MeshNode" where
  "new_node L enrolment seed =
     (let public = ml_public L seed in
      \<lparr>mn_version = NODE_SCHEMA_VERSION, mn_node_id = from_public_key L public,
       mn_installation_id = en_installation_id enrolment, mn_public_key = to_hex public,
       mn_display_name = trim (en_display_name enrolment), mn_platform = en_platform enrolment,
       mn_class = en_class enrolment, mn_enrolled_at = en_enrolled_at enrolment,
       mn_background_reliability = for_class (en_class enrolment)\<rparr>)"

definition establish_in ::
    "mesh_lib \<Rightarrow> 's KeyStore \<Rightarrow> NodeEnrolment \<Rightarrow> string \<Rightarrow> string option \<times> 's \<Rightarrow>
      MeshNode outcome \<times> string option \<times> 's" where
  "establish_in L K enrolment seed st =
     (case st of (file, keys) \<Rightarrow>
        (case load_node L file of
           Panic \<Rightarrow> (Panic, st)
         | Err e \<Rightarrow> (Err e, st)
         | Ok (Some existing) \<Rightarrow> (Ok existing, st)
         | Ok None \<Rightarrow>
             let node = new_node L enrolment seed in
             (case ks_store K (node_str (mn_node_id node)) (to_hex seed) keys of
                (Inl e, keys') \<Rightarrow> (Err (KeyStoreFailure e), file, keys')
              | (Inr _, keys') \<Rightarrow> (Ok node, Some (ml_node_to_text L node), keys'))))"

definition signing_key_in :: "mesh_lib \<Rightarrow> 's KeyStore \<Rightarrow> string option \<times> 's \<Rightarrow> string outcome" where
  "signing_key_in L K st =
     (case st of (file, keys) \<Rightarrow>
        and_then (load_node L file) (\<lambda>loaded.
          case loaded of
            None \<Rightarrow> Err NotEstablished
          | Some node \<Rightarrow>
              (case ks_load K (node_str (mn_node_id node)) keys of
                 Inl e \<Rightarrow> Err (KeyStoreFailure e)
               | Inr None \<Rightarrow> Err (MissingSigningKey (node_str (mn_node_id node)))
               | Inr (Some stored) \<Rightarrow>
                   and_then (from_hex 32 stored) (\<lambda>signing.
                     if from_public_key L (ml_public L signing) \<noteq> mn_node_id node then Err Malformed
                     else Ok signing))))"

definition verifying_key :: "mesh_lib \<Rightarrow> MeshNode \<Rightarrow> string outcome" where
  "verifying_key L node =
     and_then (from_hex 32 (mn_public_key node)) (\<lambda>bytes.
       if ml_key_valid L bytes then Ok bytes else Err Malformed)"

section \<open>The envelope\<close>

definition ENVELOPE_SCHEMA_VERSION :: u32 where "ENVELOPE_SCHEMA_VERSION = 1"

datatype PrivacyClass = Standard | LocalOnly | Sovereign

fun PrivacyClass_as_str :: "PrivacyClass \<Rightarrow> string" where
  "PrivacyClass_as_str Standard = ''standard''"
| "PrivacyClass_as_str LocalOnly = ''local_only''"
| "PrivacyClass_as_str Sovereign = ''sovereign''"

definition may_replicate_to_peer :: "PrivacyClass \<Rightarrow> bool" where
  "may_replicate_to_peer c \<longleftrightarrow> c \<noteq> LocalOnly"

definition may_leave_user_devices :: "PrivacyClass \<Rightarrow> bool" where
  "may_leave_user_devices c \<longleftrightarrow> c = Standard"

record EnvelopeDraft =
  ed_event_id :: string
  ed_origin_seq :: u64
  ed_hlc :: HybridLogicalClock
  ed_causal_parents :: "string list"
  ed_work_id :: "string option"
  ed_task_id :: "string option"
  ed_event_type :: string
  ed_payload :: json
  ed_privacy_class :: PrivacyClass
  ed_previous_hash :: "string option"

record MeshEnvelope =
  me_schema_version :: u32
  me_event_id :: string
  me_origin_node :: NodeId
  me_origin_seq :: u64
  me_hlc :: HybridLogicalClock
  me_causal_parents :: "string list"
  me_work_id :: "string option"
  me_task_id :: "string option"
  me_event_type :: string
  me_payload :: json
  me_privacy_class :: PrivacyClass
  me_previous_hash :: "string option"
  me_signature :: string

text \<open>\<open>to_le_bytes\<close> of an integer of \<open>n\<close> bytes.\<close>

fun le_bytes :: "nat \<Rightarrow> nat \<Rightarrow> string" where
  "le_bytes 0 x = []"
| "le_bytes (Suc n) x = char_of (x mod 256) # le_bytes n (x div 256)"

definition feed :: "string \<Rightarrow> string \<Rightarrow> string" where
  "feed label bytes = le_bytes 8 (length label) @ label @ le_bytes 8 (length bytes) @ bytes"

definition feed_optional :: "string \<Rightarrow> string option \<Rightarrow> string" where
  "feed_optional label v =
     (case v of None \<Rightarrow> feed label [CHR 0x00] | Some s \<Rightarrow> feed label (CHR 0x01 # s))"

fun join_comma :: "string list \<Rightarrow> string" where
  "join_comma [] = []"
| "join_comma [s] = s"
| "join_comma (s # t # ss) = s @ CHR '','' # join_comma (t # ss)"

text \<open>Keys are distinct, so sorting the entries by key is sorting the keys and looking each up.\<close>

fun canonical_json :: "mesh_lib \<Rightarrow> json \<Rightarrow> string" where
  "canonical_json L JNull = ''null''"
| "canonical_json L (JBool b) = (if b then ''true'' else ''false'')"
| "canonical_json L (JNumber n) = ml_number_text L n"
| "canonical_json L (JString s) = ml_string_text L s"
| "canonical_json L (JArray items) = CHR ''['' # join_comma (map (canonical_json L) items) @ '']''"
| "canonical_json L (JObject kvs) =
     CHR ''{'' # join_comma (map (\<lambda>kv. ml_string_text L (fst kv) @ CHR '':'' # snd kv)
       (sort_key fst (map (\<lambda>(k, v). (k, canonical_json L v)) kvs))) @ ''}''"

definition signing_bytes :: "mesh_lib \<Rightarrow> MeshEnvelope \<Rightarrow> string" where
  "signing_bytes L e =
     feed ''schema_version'' (le_bytes 4 (unat (me_schema_version e))) @
     feed ''event_id'' (me_event_id e) @
     feed ''origin_node'' (node_str (me_origin_node e)) @
     feed ''origin_seq'' (le_bytes 8 (unat (me_origin_seq e))) @
     feed ''hlc_wall_ms'' (le_bytes 8 (unat (wall_ms (me_hlc e)))) @
     feed ''hlc_counter'' (le_bytes 4 (unat (counter (me_hlc e)))) @
     feed ''causal_parent_count'' (le_bytes 8 (length (me_causal_parents e))) @
     concat (map (feed ''causal_parent'') (me_causal_parents e)) @
     feed_optional ''work_id'' (me_work_id e) @
     feed_optional ''task_id'' (me_task_id e) @
     feed ''event_type'' (me_event_type e) @
     feed ''payload'' (canonical_json L (me_payload e)) @
     feed ''privacy_class'' (PrivacyClass_as_str (me_privacy_class e)) @
     feed_optional ''previous_hash'' (me_previous_hash e)"

definition signing_digest :: "mesh_lib \<Rightarrow> MeshEnvelope \<Rightarrow> string" where
  "signing_digest L e = ml_sha256 L (signing_bytes L e)"

definition unsigned_envelope :: "NodeId \<Rightarrow> EnvelopeDraft \<Rightarrow> MeshEnvelope" where
  "unsigned_envelope node_id draft =
     \<lparr>me_schema_version = ENVELOPE_SCHEMA_VERSION, me_event_id = ed_event_id draft,
      me_origin_node = node_id, me_origin_seq = ed_origin_seq draft, me_hlc = ed_hlc draft,
      me_causal_parents = ed_causal_parents draft, me_work_id = ed_work_id draft,
      me_task_id = ed_task_id draft, me_event_type = ed_event_type draft,
      me_payload = ed_payload draft, me_privacy_class = ed_privacy_class draft,
      me_previous_hash = ed_previous_hash draft, me_signature = []\<rparr>"

definition seal :: "mesh_lib \<Rightarrow> NodeId \<Rightarrow> string \<Rightarrow> EnvelopeDraft \<Rightarrow> MeshEnvelope outcome" where
  "seal L node_id key draft =
     (let derived = from_public_key L (ml_public L key) in
      if derived \<noteq> node_id then Err (WrongOrigin (node_str node_id) (node_str derived))
      else
        let e = unsigned_envelope node_id draft in
        Ok (e\<lparr>me_signature := to_hex (ml_sign L key (signing_digest L e))\<rparr>))"

definition open_envelope :: "mesh_lib \<Rightarrow> MeshEnvelope \<Rightarrow> NodeId \<Rightarrow> string \<Rightarrow> unit outcome" where
  "open_envelope L e origin key =
     (let derived = from_public_key L key in
      if derived \<noteq> origin then Err (WrongOrigin (node_str origin) (node_str derived))
      else if me_origin_node e \<noteq> origin then
        Err (WrongOrigin (node_str (me_origin_node e)) (node_str origin))
      else
        and_then (from_hex 64 (me_signature e)) (\<lambda>signature.
          if ml_verify L key (signing_digest L e) signature then Ok ()
          else Err (BadSignature (node_str (me_origin_node e)))))"

definition envelope_hash :: "mesh_lib \<Rightarrow> MeshEnvelope \<Rightarrow> string" where
  "envelope_hash L e = ''sha256:'' @ to_hex (ml_sha256 L (signing_digest L e @ me_signature e))"

section \<open>Peers and advertisements\<close>

definition PEERS_SCHEMA_VERSION :: u32 where "PEERS_SCHEMA_VERSION = 1"

definition active_peer_ids :: "PeerRegistry \<Rightarrow> string list" where
  "active_peer_ids r = map (\<lambda>p. node_str (peer_node_id p)) (filter (\<lambda>p. peer_revoked_at p = None) (reg_peers r))"

definition is_active :: "PeerRegistry \<Rightarrow> string \<Rightarrow> bool" where
  "is_active r node_id \<longleftrightarrow>
     list_ex (\<lambda>p. node_str (peer_node_id p) = node_id \<and> peer_revoked_at p = None) (reg_peers r)"

definition load_registry :: "mesh_lib \<Rightarrow> string option \<Rightarrow> PeerRegistry outcome" where
  "load_registry L file =
     (case file of
        None \<Rightarrow> Ok \<lparr>reg_version = PEERS_SCHEMA_VERSION, reg_peers = []\<rparr>
      | Some raw \<Rightarrow>
          if \<not> valid_utf8 raw then Err Io
          else (case ml_registry_of_text L raw of
             None \<Rightarrow> Err Malformed
           | Some registry \<Rightarrow>
               if reg_version registry > PEERS_SCHEMA_VERSION then Err (UnknownVersion (reg_version registry))
               else Ok registry))"

record ModelEndpointRef =
  ep_node_id :: NodeId
  ep_provider :: string
  ep_model :: string
  ep_account_id :: "string option"
  ep_session_ref :: "string option"

datatype PowerState = OnMains | Battery u8 | PowerUnknown

record LoadSnapshot =
  ls_cpu_percent :: u8
  ls_memory_percent :: u8
  ls_gpu_percent :: "u8 option"

record CapabilityAdvertisement =
  ad_node_id :: NodeId
  ad_published_at_ms :: u64
  ad_expires_at_ms :: u64
  ad_model_endpoints :: "ModelEndpointRef list"
  ad_tools :: "string list"
  ad_surfaces :: "string list"
  ad_resources :: "string list"
  ad_load :: LoadSnapshot
  ad_power :: PowerState

definition is_fresh_at :: "CapabilityAdvertisement \<Rightarrow> u64 \<Rightarrow> bool" where
  "is_fresh_at a now_ms \<longleftrightarrow> now_ms < ad_expires_at_ms a"

definition differs_from :: "CapabilityAdvertisement \<Rightarrow> CapabilityAdvertisement \<Rightarrow> bool" where
  "differs_from a previous \<longleftrightarrow>
     ad_node_id a \<noteq> ad_node_id previous \<or> ad_model_endpoints a \<noteq> ad_model_endpoints previous \<or>
     ad_tools a \<noteq> ad_tools previous \<or> ad_surfaces a \<noteq> ad_surfaces previous \<or>
     ad_resources a \<noteq> ad_resources previous \<or> ad_load a \<noteq> ad_load previous \<or> ad_power a \<noteq> ad_power previous"

section \<open>The clock only moves forward\<close>

definition last_stamp :: HybridLogicalClock where
  "last_stamp = \<lparr>wall_ms = - 1, counter = - 1\<rparr>"

lemma hlc_less [simp]:
  "\<lparr>wall_ms = a, counter = b\<rparr> < \<lparr>wall_ms = c, counter = d\<rparr> \<longleftrightarrow> a < c \<or> a = c \<and> b < d"
  by (auto simp: less_HybridLogicalClock_ext_def)

lemma checked_succ:
  "checked_add w 1 = Some v \<Longrightarrow> w < v" "checked_add w (1 :: 'a::len word) = None \<longleftrightarrow> w = - 1"
proof -
  have one: "unat (1 :: 'a word) = 1" by simp
  show "w < v" if "checked_add w 1 = Some v"
    using that by (auto simp: checked_add_def word_less_nat_alt unat_word_ariths split: if_splits)
  have "unat w < 2 ^ LENGTH('a)" by (rule unsigned_less)
  then have "unat w + 1 \<ge> 2 ^ LENGTH('a) \<longleftrightarrow> unat w = 2 ^ LENGTH('a) - 1" by linarith
  also have "\<dots> \<longleftrightarrow> w = - 1" 
    by (simp add: word_eq_iff_unsigned [of w, where ?'a = nat] unsigned_minus_1_eq_mask mask_eq_exp_minus_1)
  finally show "checked_add w (1 :: 'a word) = None \<longleftrightarrow> w = - 1"
    by (auto simp: checked_add_def not_less)
qed

lemma hlc_step_advances:
  "\<lparr>wall_ms = w, counter = c\<rparr> \<noteq> last_stamp \<Longrightarrow> \<lparr>wall_ms = w, counter = c\<rparr> < hlc_step w c"
  "hlc_step (- 1) (- 1) = last_stamp"
  using checked_succ [of c] checked_succ [of w] checked_succ(2) [of "- 1 :: u64"] checked_succ(2) [of "- 1 :: u32"]
  by (auto simp: hlc_step_def last_stamp_def simp del: not_None_eq split: option.split)

lemma hlc_step_wall: "c \<noteq> - 1 \<Longrightarrow> wall_ms (hlc_step w c) = w"
  using checked_succ(2) [of c] by (auto simp: hlc_step_def split: option.split)

lemma hlc_eta: "\<lparr>wall_ms = wall_ms c, counter = counter c\<rparr> = c"
  by simp

lemma hlc_max:
  "\<lparr>wall_ms = max (wall_ms a) (wall_ms b),
    counter = (if wall_ms a = wall_ms b then max (counter a) (counter b)
               else if wall_ms a > wall_ms b then counter a else counter b)\<rparr> = max a (b :: HybridLogicalClock)"
  by (cases a; cases b) (auto simp: max_def less_eq_HybridLogicalClock_ext_def)

text \<open>The clock never runs backwards: a stamp for a local event is later than the stamp before
  it, a stamp for a received event is later than both the local clock and the sender's, whatever
  the wall clock says, except that the last representable stamp repeats. The stamp is the wall
  clock or the highest clock seen, unless \<open>2 ^ 32\<close> events shared a millisecond.\<close>

theorem hlc_advances:
  "(c \<noteq> last_stamp \<longrightarrow> c < hlc_tick c now) \<and>
   (max c remote \<noteq> last_stamp \<longrightarrow> c < hlc_observe c remote now \<and> remote < hlc_observe c remote now) \<and>
   (max c remote = last_stamp \<longrightarrow> hlc_observe c remote now = last_stamp) \<and>
   (counter (max c remote) \<noteq> - 1 \<longrightarrow> wall_ms (hlc_observe c remote now) = max now (wall_ms (max c remote)))"
proof -
  have observe: "hlc_observe c remote now =
      (if now > wall_ms (max c remote) then \<lparr>wall_ms = now, counter = 0\<rparr>
       else hlc_step (wall_ms (max c remote)) (counter (max c remote)))"
    unfolding hlc_observe_def Let_def by (simp flip: hlc_max)
  have tick: "c \<noteq> last_stamp \<longrightarrow> c < hlc_tick c now"
    using hlc_step_advances(1) [of "wall_ms c" "counter c", unfolded hlc_eta]
    by (auto simp: hlc_tick_def less_HybridLogicalClock_ext_def)
  have above: "max c remote < hlc_observe c remote now" if "max c remote \<noteq> last_stamp"
    using hlc_step_advances(1) [of "wall_ms (max c remote)" "counter (max c remote)", unfolded hlc_eta] that
    unfolding observe by (auto simp: less_HybridLogicalClock_ext_def)
  have stuck: "hlc_observe c remote now = last_stamp" if "max c remote = last_stamp"
    unfolding observe that using hlc_step_advances(2) by (simp add: last_stamp_def)
  have wall: "wall_ms (hlc_observe c remote now) = max now (wall_ms (max c remote))"
    if "counter (max c remote) \<noteq> - 1"
    unfolding observe using hlc_step_wall [OF that] by (auto simp: max_def [of now])
  have "c \<le> max c remote" "remote \<le> max c remote" by simp_all
  with tick above stuck wall show ?thesis by (meson le_less_trans)
qed

theorem hlc_advances_witness:
  "\<lparr>wall_ms = 5, counter = 7\<rparr> < hlc_tick \<lparr>wall_ms = 5, counter = 7\<rparr> 3 \<and>
   \<lparr>wall_ms = 9, counter = 0\<rparr> < hlc_observe \<lparr>wall_ms = 5, counter = 7\<rparr> \<lparr>wall_ms = 9, counter = 0\<rparr> 3"
proof -
  let ?c = "\<lparr>wall_ms = 5, counter = 7\<rparr> :: HybridLogicalClock" and ?r = "\<lparr>wall_ms = 9, counter = 0\<rparr> :: HybridLogicalClock"
  have "?c \<noteq> last_stamp" "max ?c ?r \<noteq> last_stamp"
    by (simp_all add: last_stamp_def max_def less_eq_HybridLogicalClock_ext_def)
  then show ?thesis using hlc_advances [of ?c 3 ?r] by blast
qed

section \<open>Canonical JSON\<close>

text \<open>What \<open>serde_json\<close> promises of a printed string and a printed number: a string starts with a
  quote and ends itself, and a number consists of the characters of numbers, so it ends at a
  comma or a closing bracket.\<close>

definition ends_item :: "string \<Rightarrow> bool" where
  "ends_item r \<longleftrightarrow> r = [] \<or> hd r \<in> set '',]}''"

locale json_print =
  fixes L :: mesh_lib
  assumes string_ends: "ml_string_text L s @ r = ml_string_text L s' @ r' \<Longrightarrow> s = s' \<and> r = r'"
    and string_quote: "\<exists>t. ml_string_text L s = CHR 0x22 # t"
    and number_ends: "ml_number_text L n @ r = ml_number_text L m @ r' \<Longrightarrow> ends_item r \<Longrightarrow> ends_item r' \<Longrightarrow>
      n = m \<and> r = r'"
    and number_head: "\<exists>c t. ml_number_text L n = c # t \<and> c \<in> set ''-0123456789''"

text \<open>A value with the entries of every object sorted, and printing in the order given.\<close>

fun sorted_json :: "json \<Rightarrow> json" where
  "sorted_json (JArray vs) = JArray (map sorted_json vs)"
| "sorted_json (JObject kvs) = JObject (sort_key fst (map (\<lambda>(k, v). (k, sorted_json v)) kvs))"
| "sorted_json v = v"

fun plain_json :: "mesh_lib \<Rightarrow> json \<Rightarrow> string" where
  "plain_json L JNull = ''null''"
| "plain_json L (JBool b) = (if b then ''true'' else ''false'')"
| "plain_json L (JNumber n) = ml_number_text L n"
| "plain_json L (JString s) = ml_string_text L s"
| "plain_json L (JArray items) = CHR ''['' # join_comma (map (plain_json L) items) @ '']''"
| "plain_json L (JObject kvs) =
     CHR ''{'' # join_comma (map (\<lambda>kv. ml_string_text L (fst kv) @ CHR '':'' # plain_json L (snd kv)) kvs) @ ''}''"

lemma canonical_plain: "canonical_json L v = plain_json L (sorted_json v)"
proof (induction v)
  case (JObject kvs)
  let ?g = "\<lambda>kv. (fst kv, plain_json L (snd kv))"
  have "map (\<lambda>(k, v). (k, canonical_json L v)) kvs = map ?g (map (\<lambda>(k, v). (k, sorted_json v)) kvs)"
    using JObject by (auto simp: snds.simps)
  then have "sort_key fst (map (\<lambda>(k, v). (k, canonical_json L v)) kvs) =
      map ?g (sort_key fst (map (\<lambda>(k, v). (k, sorted_json v)) kvs))"
    by (simp only:) (rule sort_key_map, simp)
  then show ?case by (simp add: comp_def)
qed (simp_all add: comp_def cong: map_cong)

lemma join_comma_inject:
  assumes item: "\<And>v w r r'. v \<in> set vs \<Longrightarrow> p v @ r = p w @ r' \<Longrightarrow> ends_item r \<Longrightarrow> ends_item r' \<Longrightarrow> v = w \<and> r = r'"
    and head: "\<And>v. p v \<noteq> [] \<and> hd (p v) \<noteq> z" and z: "z \<in> set '']}''"
    and eq: "join_comma (map p vs) @ z # r = join_comma (map p ws) @ z # r'"
  shows "vs = ws \<and> r = r'"
  using item eq
proof (induction vs arbitrary: ws)
  case Nil
  then show ?case
  proof (cases ws)
    case (Cons w ws')
    then show ?thesis using Nil(2) head [of w] by (cases "p w"; cases ws') auto
  qed simp
next
  case (Cons v vs)
  have zc: "z \<noteq> CHR '',''" "ends_item (z # t)" "ends_item (CHR '','' # t)" for t
    using z by (auto simp: ends_item_def)
  have tail: "\<exists>t. join_comma (map p (x # xs)) @ z # q = p x @ t \<and> ends_item t \<and>
      (if xs = [] then t = z # q else t = CHR '','' # join_comma (map p xs) @ z # q)" for x xs q
    using zc by (cases xs) auto
  from tail [of v vs r] obtain t where t: "join_comma (map p (v # vs)) @ z # r = p v @ t" "ends_item t"
    "if vs = [] then t = z # r else t = CHR '','' # join_comma (map p vs) @ z # r" by blast
  show ?case
  proof (cases ws)
    case Nil
    then have "p v @ t = z # r'" using Cons.prems(2) t(1) by simp
    then show ?thesis using head [of v] by (cases "p v") auto
  next
    case (Cons w ws')
    from tail [of w ws' r'] obtain u where u: "join_comma (map p (w # ws')) @ z # r' = p w @ u" "ends_item u"
      "if ws' = [] then u = z # r' else u = CHR '','' # join_comma (map p ws') @ z # r'" by blast
    have "p v @ t = p w @ u" using Cons.prems(2) t(1) u(1) Cons by simp
    then have same: "v = w" "t = u" using Cons.prems(1) [of v t w u] t(2) u(2) by auto
    show ?thesis
    proof (cases "vs = []")
      case True
      then have "ws' = []" using t(3) u(3) same zc by (auto split: if_splits)
      then show ?thesis using True t(3) u(3) same Cons by simp
    next
      case False
      then have "ws' \<noteq> []" using t(3) u(3) same zc by (auto split: if_splits)
      then have "join_comma (map p vs) @ z # r = join_comma (map p ws') @ z # r'"
        using False t(3) u(3) same by simp
      then have "vs = ws' \<and> r = r'" by (intro Cons.IH) (use Cons.prems(1) in auto)
      then show ?thesis using same Cons by simp
    qed
  qed
qed

context json_print
begin

lemma plain_head:
  "\<exists>c t. plain_json L v = c # t \<and>
     (case v of JNull \<Rightarrow> c = CHR ''n'' | JBool b \<Rightarrow> c = (if b then CHR ''t'' else CHR ''f'')
      | JNumber n \<Rightarrow> c \<in> set ''-0123456789'' | JString s \<Rightarrow> c = CHR 0x22
      | JArray vs \<Rightarrow> c = CHR ''['' | JObject kvs \<Rightarrow> c = CHR ''{'')"
  using number_head string_quote by (cases v) auto

lemma plain_same_kind:
  assumes "plain_json L v @ r = plain_json L w @ r'"
  obtains "v = JNull" "w = JNull" | b where "v = JBool b" "w = JBool b"
    | n m where "v = JNumber n" "w = JNumber m" | s t where "v = JString s" "w = JString t"
    | vs ws where "v = JArray vs" "w = JArray ws" | kvs kws where "v = JObject kvs" "w = JObject kws"
proof -
  obtain c t where c: "plain_json L v = c # t"
    "case v of JNull \<Rightarrow> c = CHR ''n'' | JBool b \<Rightarrow> c = (if b then CHR ''t'' else CHR ''f'')
      | JNumber n \<Rightarrow> c \<in> set ''-0123456789'' | JString s \<Rightarrow> c = CHR 0x22
      | JArray vs \<Rightarrow> c = CHR ''['' | JObject kvs \<Rightarrow> c = CHR ''{''" using plain_head by blast
  obtain d u where d: "plain_json L w = d # u"
    "case w of JNull \<Rightarrow> d = CHR ''n'' | JBool b \<Rightarrow> d = (if b then CHR ''t'' else CHR ''f'')
      | JNumber n \<Rightarrow> d \<in> set ''-0123456789'' | JString s \<Rightarrow> d = CHR 0x22
      | JArray vs \<Rightarrow> d = CHR ''['' | JObject kvs \<Rightarrow> d = CHR ''{''" using plain_head by blast
  have "c = d" using assms c(1) d(1) by simp
  then show thesis using c(2) d(2) that by (cases v; cases w) (auto split: if_splits)
qed

lemma plain_inject:
  "plain_json L v @ r = plain_json L w @ r' \<Longrightarrow> ends_item r \<Longrightarrow> ends_item r' \<Longrightarrow> v = w \<and> r = r'"
proof (induction v arbitrary: w r r')
  case JNull
  from JNull.prems(1) have "w = JNull" by (rule plain_same_kind) auto
  then show ?case using JNull by simp
next
  case (JBool b)
  from JBool.prems(1) have "w = JBool b" by (rule plain_same_kind) auto
  then show ?case using JBool by (simp split: if_splits)
next
  case (JNumber n)
  from JNumber.prems(1) obtain m where w: "w = JNumber m" by (rule plain_same_kind) auto
  with JNumber.prems(1) have "ml_number_text L n @ r = ml_number_text L m @ r'" by simp
  from number_ends [OF this JNumber.prems(2,3)] w show ?case by simp
next
  case (JString s)
  from JString.prems(1) obtain t where w: "w = JString t" by (rule plain_same_kind) auto
  with JString.prems(1) have "ml_string_text L s @ r = ml_string_text L t @ r'" by simp
  from string_ends [OF this] w show ?case by simp
next
  case (JArray vs)
  from JArray.prems(1) obtain ws where w: "w = JArray ws" by (rule plain_same_kind) auto
  have head: "plain_json L x \<noteq> [] \<and> hd (plain_json L x) \<noteq> CHR '']''" for x
    using plain_head [of x] by (cases x) auto
  have item: "x = y \<and> q = q'"
    if "x \<in> set vs" "plain_json L x @ q = plain_json L y @ q'" "ends_item q" "ends_item q'" for x y q q'
    using JArray.IH that by blast
  have eq: "join_comma (map (plain_json L) vs) @ CHR '']'' # r = join_comma (map (plain_json L) ws) @ CHR '']'' # r'"
    using JArray.prems(1) w by simp
  have "vs = ws \<and> r = r'"
    by (rule join_comma_inject [OF item head _ eq]) auto
  then show ?case using w by simp
next
  case (JObject kvs)
  from JObject.prems(1) obtain kws where w: "w = JObject kws" by (rule plain_same_kind) auto
  let ?p = "\<lambda>kv. ml_string_text L (fst kv) @ CHR '':'' # plain_json L (snd kv)"
  have head: "?p x \<noteq> [] \<and> hd (?p x) \<noteq> CHR ''}''" for x
    using string_quote [of "fst x"] by auto
  have item: "x = y \<and> q = q'" if "x \<in> set kvs" "?p x @ q = ?p y @ q'" "ends_item q" "ends_item q'" for x y q q'
  proof -
    have "ml_string_text L (fst x) @ (CHR '':'' # plain_json L (snd x) @ q) =
        ml_string_text L (fst y) @ (CHR '':'' # plain_json L (snd y) @ q')" using that(2) by simp
    from string_ends [OF this]
    have "fst x = fst y" "plain_json L (snd x) @ q = plain_json L (snd y) @ q'" by simp_all
    moreover have "snd x = snd y \<and> q = q'"
      using JObject.IH [OF that(1), of "snd x"] calculation(2) that(3,4) by (simp add: snds.simps)
    ultimately show ?thesis by (simp add: prod_eq_iff)
  qed
  have eq: "join_comma (map ?p kvs) @ CHR ''}'' # r = join_comma (map ?p kws) @ CHR ''}'' # r'"
    using JObject.prems(1) w by simp
  have "kvs = kws \<and> r = r'"
    by (rule join_comma_inject [OF item head _ eq]) auto
  then show ?case using w by simp
qed

lemma canonical_iff: "canonical_json L v = canonical_json L w \<longleftrightarrow> sorted_json v = sorted_json w"
  using plain_inject [of "sorted_json v" "[]" "sorted_json w" "[]"]
  by (auto simp: canonical_plain ends_item_def)

end

text \<open>The same content, written in another order.\<close>

inductive reorders :: "json \<Rightarrow> json \<Rightarrow> bool" where
  reorder_refl: "reorders v v"
| reorder_trans: "reorders u v \<Longrightarrow> reorders v w \<Longrightarrow> reorders u w"
| reorder_entries: "mset kvs = mset kws \<Longrightarrow> distinct (map fst kvs) \<Longrightarrow> reorders (JObject kvs) (JObject kws)"
| reorder_item: "reorders v w \<Longrightarrow> reorders (JArray (xs @ v # ys)) (JArray (xs @ w # ys))"
| reorder_value: "reorders v w \<Longrightarrow> reorders (JObject (xs @ (k, v) # ys)) (JObject (xs @ (k, w) # ys))"

lemma sort_key_perm:
  assumes "mset kvs = mset kws" "distinct (map fst kvs)"
  shows "sort_key fst kvs = sort_key (fst :: string \<times> 'a \<Rightarrow> string) kws"
proof (rule properties_for_sort_key)
  show "mset (sort_key fst kws) = mset kvs" using assms(1) by simp
  show "sorted (map fst (sort_key fst kws))" by simp
  have inj: "inj_on fst (set kvs)" using assms(2) by (simp add: distinct_map)
  have one: "filter (\<lambda>x. fst e = fst x) xs = [e]" if "e \<in> set xs" "distinct (map fst xs)" for e and xs :: "(string \<times> 'a) list"
    using that
  proof (induction xs)
    case (Cons y xs)
    show ?case
    proof (cases "e = y")
      case True
      then show ?thesis using Cons.prems by (force simp: filter_empty_conv)
    next
      case False
      then have e: "e \<in> set xs" using Cons.prems by simp
      then have "fst e \<in> set (map fst xs)" by simp
      then have "fst e \<noteq> fst y" using Cons.prems(2) by (metis distinct.simps(2) list.simps(9))
      then show ?thesis using Cons.IH [OF e] Cons.prems(2) by simp
    qed
  qed simp
  have d: "distinct (map fst kws)"
    using assms by (metis mset_eq_setD mset_map mset_eq_imp_distinct_iff)
  show "filter (\<lambda>x. fst e = fst x) (sort_key fst kws) = filter (\<lambda>x. fst e = fst x) kvs"
    if "e \<in> set (sort_key fst kws)" for e
    using that assms(2) d mset_eq_setD [OF assms(1)] by (simp add: one filter_sort)
qed

lemma reorders_sorted: "reorders v w \<Longrightarrow> sorted_json v = sorted_json w"
proof (induction rule: reorders.induct)
  case (reorder_entries kvs kws)
  let ?g = "\<lambda>(k, v). (k, sorted_json v)"
  have "sort_key fst (map ?g xs) = map ?g (sort_key fst xs)" for xs :: "(string \<times> json) list"
    by (rule sort_key_map) auto
  then show ?case using sort_key_perm [OF reorder_entries] by simp
qed simp_all

section \<open>The signed bytes determine the envelope\<close>

lemma le_bytes_length [simp]: "length (le_bytes n x) = n"
  by (induction n arbitrary: x) simp_all

lemma le_bytes_inject: "x < 256 ^ n \<Longrightarrow> y < 256 ^ n \<Longrightarrow> le_bytes n x = le_bytes n y \<longleftrightarrow> x = y"
proof (induction n arbitrary: x y)
  case (Suc n)
  have byte: "char_of (x mod 256) = (char_of (y mod 256) :: char) \<longleftrightarrow> x mod 256 = y mod 256"
    by (metis mod_less_divisor of_char_of zero_less_numeral mod_mod_trivial)
  have "le_bytes n (x div 256) = le_bytes n (y div 256) \<longleftrightarrow> x div 256 = y div 256"
    using Suc.prems by (intro Suc.IH) (auto simp: less_mult_imp_div_less mult.commute)
  then show ?case using byte by (metis div_mult_mod_eq le_bytes.simps(2) list.inject)
qed simp

lemma u64_bytes: "le_bytes 8 (unat v) = le_bytes 8 (unat w) \<longleftrightarrow> v = (w :: u64)"
proof -
  have "unat x < 256 ^ 8" for x :: u64 using unsigned_less [of x, where ?'a = nat] by simp
  then show ?thesis using le_bytes_inject [of "unat v" 8 "unat w"] by (simp add: word_eq_iff_unsigned [of v w, where ?'a = nat])
qed

lemma u32_bytes: "le_bytes 4 (unat v) = le_bytes 4 (unat w) \<longleftrightarrow> v = (w :: u32)"
proof -
  have "unat x < 256 ^ 4" for x :: u32 using unsigned_less [of x, where ?'a = nat] by simp
  then show ?thesis using le_bytes_inject [of "unat v" 4 "unat w"] by (simp add: word_eq_iff_unsigned [of v w, where ?'a = nat])
qed

definition sized :: "string \<Rightarrow> bool" where
  "sized s \<longleftrightarrow> length s < 2 ^ 64"

lemma sized_le_bytes [simp]: "sized (le_bytes 4 x)" "sized (le_bytes 8 x)"
  by (simp_all add: sized_def)

lemma feed_inject:
  assumes "sized a" "sized b"
  shows "feed l a @ r = feed l b @ r' \<longleftrightarrow> a = b \<and> r = r'"
proof
  assume "feed l a @ r = feed l b @ r'"
  then have eq: "le_bytes 8 (length a) @ a @ r = le_bytes 8 (length b) @ b @ r'" by (simp add: feed_def)
  then have "le_bytes 8 (length a) = le_bytes 8 (length b)" "a @ r = b @ r'"
    by (simp_all add: append_eq_append_conv)
  moreover from this have "length a = length b"
    using le_bytes_inject [of "length a" 8 "length b"] assms by (simp add: sized_def)
  ultimately show "a = b \<and> r = r'" by simp
qed simp

definition sized_option :: "string option \<Rightarrow> bool" where
  "sized_option v \<longleftrightarrow> (case v of None \<Rightarrow> True | Some s \<Rightarrow> length s + 1 < 2 ^ 64)"

lemma feed_optional_inject:
  assumes "sized_option v" "sized_option w"
  shows "feed_optional l v @ r = feed_optional l w @ r' \<longleftrightarrow> v = w \<and> r = r'"
  using assms
  by (cases v; cases w) (auto simp: feed_optional_def sized_option_def feed_inject sized_def)

lemma feeds_inject:
  assumes "length xs = length ys" "list_all sized xs" "list_all sized ys"
  shows "concat (map (feed l) xs) @ r = concat (map (feed l) ys) @ r' \<longleftrightarrow> xs = ys \<and> r = r'"
  using assms by (induction xs ys rule: list_induct2) (auto simp: feed_inject)

text \<open>Every field fits the \<open>u64\<close> length it is framed with, as any value in memory does.\<close>

definition sized_envelope :: "mesh_lib \<Rightarrow> MeshEnvelope \<Rightarrow> bool" where
  "sized_envelope L e \<longleftrightarrow>
     sized (me_event_id e) \<and> sized (node_str (me_origin_node e)) \<and> length (me_causal_parents e) < 2 ^ 64 \<and>
     list_all sized (me_causal_parents e) \<and> sized_option (me_work_id e) \<and> sized_option (me_task_id e) \<and>
     sized (me_event_type e) \<and> sized (canonical_json L (me_payload e)) \<and> sized_option (me_previous_hash e)"

lemma privacy_inject: "PrivacyClass_as_str c = PrivacyClass_as_str d \<longleftrightarrow> c = d"
  by (cases c; cases d) simp_all

lemma sized_privacy [simp]: "sized (PrivacyClass_as_str c)"
  by (cases c) (simp_all add: sized_def)

lemma node_str_inject: "node_str a = node_str b \<longleftrightarrow> a = b"
  by (cases a; cases b) simp

lemma signing_bytes_fields:
  assumes "sized_envelope L e" "sized_envelope L e'"
  shows "signing_bytes L e = signing_bytes L e' \<longleftrightarrow>
    me_schema_version e = me_schema_version e' \<and> me_event_id e = me_event_id e' \<and>
    me_origin_node e = me_origin_node e' \<and> me_origin_seq e = me_origin_seq e' \<and> me_hlc e = me_hlc e' \<and>
    me_causal_parents e = me_causal_parents e' \<and> me_work_id e = me_work_id e' \<and> me_task_id e = me_task_id e' \<and>
    me_event_type e = me_event_type e' \<and> canonical_json L (me_payload e) = canonical_json L (me_payload e') \<and>
    me_privacy_class e = me_privacy_class e' \<and> me_previous_hash e = me_previous_hash e'"
proof -
  note sz = assms [unfolded sized_envelope_def]
  have count: "le_bytes 8 (length (me_causal_parents e)) = le_bytes 8 (length (me_causal_parents e')) \<longleftrightarrow>
      length (me_causal_parents e) = length (me_causal_parents e')"
    using sz by (intro le_bytes_inject) simp_all
  have clock: "me_hlc e = me_hlc e' \<longleftrightarrow>
      wall_ms (me_hlc e) = wall_ms (me_hlc e') \<and> counter (me_hlc e) = counter (me_hlc e')"
    by (metis HybridLogicalClock.equality old.unit.exhaust)
  have last: "feed_optional l v = feed_optional l w \<longleftrightarrow> v = w" if "sized_option v" "sized_option w" for l v w
    using feed_optional_inject [OF that, of l "[]" "[]"] by simp
  show ?thesis unfolding signing_bytes_def clock
    using sz feeds_inject [of "me_causal_parents e" "me_causal_parents e'"]
    by (auto simp: feed_inject feed_optional_inject last u64_bytes u32_bytes count node_str_inject privacy_inject)
qed

text \<open>C21. The signature covers everything and nothing else: two envelopes have the same signed bytes
  exactly when they agree in every field but the signature, and their payloads are the same JSON
  up to the order of object entries. Moving bytes between fields, dropping a causal parent, or
  turning an absent field into an empty one changes the signed bytes; parsing a payload into
  another key order does not.\<close>

theorem signed_bytes_determine_envelope:
  assumes "json_print L" and "sized_envelope L e" and "sized_envelope L e'"
  shows "(signing_bytes L e = signing_bytes L e' \<longleftrightarrow>
      e\<lparr>me_payload := JNull, me_signature := []\<rparr> = e'\<lparr>me_payload := JNull, me_signature := []\<rparr> \<and>
      sorted_json (me_payload e) = sorted_json (me_payload e')) \<and>
    (\<forall>p. reorders (me_payload e) p \<longrightarrow> signing_bytes L (e\<lparr>me_payload := p\<rparr>) = signing_bytes L e)"
proof -
  have "signing_bytes L e = signing_bytes L e' \<longleftrightarrow>
      e\<lparr>me_payload := JNull, me_signature := []\<rparr> = e'\<lparr>me_payload := JNull, me_signature := []\<rparr> \<and>
      sorted_json (me_payload e) = sorted_json (me_payload e')"
    unfolding signing_bytes_fields [OF assms(2,3)] json_print.canonical_iff [OF assms(1)]
    by (cases e; cases e') auto
  moreover have "signing_bytes L (e\<lparr>me_payload := p\<rparr>) = signing_bytes L e" if "reorders (me_payload e) p" for p
    using reorders_sorted [OF that] by (simp add: signing_bytes_def canonical_plain)
  ultimately show ?thesis by blast
qed

section \<open>Hex\<close>

lemma hex_digit_value: "n < 16 \<Longrightarrow> hex_value (hex_digit n) = Some n \<and> hex_value (ascii_upper (hex_digit n)) = Some n \<and>
    byte (hex_digit n) < 128 \<and> hex_digit n \<noteq> CHR ''+'' \<and> ascii_upper (hex_digit n) \<noteq> CHR ''+''"
proof -
  assume "n < 16"
  then have "n \<in> set nibbles" by (simp add: nibbles_def)
  moreover have "\<forall>m\<in>set nibbles. hex_value (hex_digit m) = Some m \<and> hex_value (ascii_upper (hex_digit m)) = Some m \<and>
      byte (hex_digit m) < 128 \<and> hex_digit m \<noteq> CHR ''+'' \<and> ascii_upper (hex_digit m) \<noteq> CHR ''+''"
    by code_simp
  ultimately show ?thesis by blast
qed

lemma hex_byte_digits: "byte c div 16 < 16" "byte c mod 16 < 16"
  using nat_of_char_less_256 [of c] by (auto intro: less_mult_imp_div_less)

lemma u8_of_hex_byte:
  "u8_from_hex (hex_byte c) = Some c" "u8_from_hex (to_ascii_uppercase (hex_byte c)) = Some c"
  using hex_digit_value [OF hex_byte_digits(1) [of c]] hex_digit_value [OF hex_byte_digits(2) [of c]]
    nat_of_char_less_256 [of c]
  by (simp_all add: u8_from_hex_def hex_byte_def to_ascii_uppercase_def)

lemma to_hex_length [simp]: "length (to_hex bs) = 2 * length bs"
  by (induction bs) (simp_all add: to_hex_def hex_byte_def)

lemma to_hex_piece: "i < length bs \<Longrightarrow> take 2 (drop (i * 2) (to_hex bs)) = hex_byte (bs ! i)"
proof (induction bs arbitrary: i)
  case (Cons b bs)
  then show ?case by (cases i) (simp_all add: to_hex_def hex_byte_def)
qed simp

lemma ascii_boundary: "list_all (\<lambda>c. byte c < 128) s \<Longrightarrow> i \<le> length s \<Longrightarrow> is_char_boundary s i"
  by (cases "i = length s") (auto simp: is_char_boundary_def is_continuation_def list_all_length dest!: spec [of _ i])

lemma to_hex_ascii: "list_all (\<lambda>c. byte c < 128) (to_hex bs)"
  by (induction bs) (simp_all add: to_hex_def hex_byte_def hex_digit_value hex_byte_digits)

lemma upper_ascii: "list_all (\<lambda>c. byte c < 128) s \<Longrightarrow> list_all (\<lambda>c. byte c < 128) (to_ascii_uppercase s)"
  by (auto simp: list_all_iff to_ascii_uppercase_def ascii_upper_def)

lemma from_hex_loop_ok:
  assumes "list_all (\<lambda>c. byte c < 128) hex" "length hex = 2 * length bs"
    and "\<And>i. i < length bs \<Longrightarrow> u8_from_hex (take 2 (drop (i * 2) hex)) = Some (bs ! i)"
  shows "\<forall>i\<in>set js. i < length bs \<Longrightarrow> from_hex_loop hex js = Ok (map ((!) bs) js)"
  using assms by (induction js) (simp_all add: ascii_boundary)

lemma from_hex_loop_ascii:
  assumes "list_all (\<lambda>c. byte c < 128) hex"
  shows "\<forall>i\<in>set js. i * 2 + 2 \<le> length hex \<Longrightarrow>
    (case from_hex_loop hex js of Ok bs \<Rightarrow> length bs = length js | Err e \<Rightarrow> e = Malformed | Panic \<Rightarrow> False)"
  using assms
  by (induction js) (auto simp: ascii_boundary split: option.split outcome.splits)

lemma from_hex_to_hex: "from_hex (length bs) (to_hex bs) = Ok bs"
  using from_hex_loop_ok [OF to_hex_ascii [of bs] _ _, of bs "[0..<length bs]"]
  by (simp add: from_hex_def to_hex_piece u8_of_hex_byte map_nth mult.commute)

lemma from_hex_upper: "from_hex (length bs) (to_ascii_uppercase (to_hex bs)) = Ok bs"
proof -
  have "take 2 (drop (i * 2) (to_ascii_uppercase (to_hex bs))) = to_ascii_uppercase (hex_byte (bs ! i))"
    if "i < length bs" for i
    using to_hex_piece [OF that] by (simp add: to_ascii_uppercase_def drop_map take_map)
  then show ?thesis
    using from_hex_loop_ok [OF upper_ascii [OF to_hex_ascii [of bs]] _ _, of bs "[0..<length bs]"]
    by (simp add: from_hex_def u8_of_hex_byte map_nth mult.commute) (simp add: to_ascii_uppercase_def mult.commute)
qed

text \<open>Decoding hex inverts encoding, of lower-case and of upper-case digits alike; on ASCII text it
  returns the bytes or \<open>Malformed\<close> and never panics.\<close>

theorem from_hex_inverts_to_hex:
  "from_hex (length bs) (to_hex bs) = Ok bs \<and> from_hex (length bs) (to_ascii_uppercase (to_hex bs)) = Ok bs \<and>
   (list_all (\<lambda>c. byte c < 128) hex \<longrightarrow>
     (case from_hex n hex of Ok out \<Rightarrow> length out = n | Err e \<Rightarrow> e = Malformed | Panic \<Rightarrow> False))"
  using from_hex_to_hex from_hex_upper from_hex_loop_ascii [of hex "[0..<n]"]
  by (auto simp: from_hex_def split: outcome.splits)

theorem from_hex_inverts_to_hex_witness:
  "from_hex 1 ''ff'' = Ok [CHR 0xFF] \<and> from_hex 2 ''zz'' \<noteq> Panic"
proof -
  have "list_all (\<lambda>c. byte c < 128) ''zz''" by simp
  moreover have "to_hex [CHR 0xFF] = ''ff''" by (simp add: to_hex_def hex_byte_def hex_digit_def)
  ultimately show ?thesis
    using from_hex_inverts_to_hex [of "[CHR 0xFF]" "''zz''" 2] by (auto split: outcome.splits)
qed

text \<open>A signature of the right length whose second character is not ASCII.\<close>

definition crafted_signature :: string where
  "crafted_signature = CHR ''a'' # CHR 0xC3 # CHR 0xA9 # replicate 125 (CHR ''a'')"

lemma valid_ascii_tail: "valid_utf8 (CHR 0xC3 # CHR 0xA9 # s) = valid_utf8 s" "valid_utf8 (CHR ''a'' # s) = valid_utf8 s"
  by (simp_all add: valid_utf8.simps [of "CHR 0xC3 # _"] valid_utf8.simps [of "CHR ''a'' # _"] utf8_next_def
      in_range_def is_continuation_def)

text \<open>A peer can crash the verifier: for every origin and key, an envelope that names that origin
  and carries a certain signature of 128 bytes, valid UTF-8 text but not ASCII, makes
  verification panic instead of returning an error.\<close>

theorem open_panics_on_crafted_signature:
  "valid_utf8 crafted_signature \<and> length crafted_signature = 128 \<and>
   open_envelope L (e\<lparr>me_origin_node := from_public_key L key, me_signature := crafted_signature\<rparr>)
     (from_public_key L key) key = Panic"
proof -
  have "valid_utf8 (replicate 125 (CHR ''a''))" by (rule valid_of_ascii) simp
  then have utf8: "valid_utf8 crafted_signature" by (simp add: crafted_signature_def valid_ascii_tail)
  have len: "length crafted_signature = 128" by (simp add: crafted_signature_def)
  have upt: "[0..<64] = 0 # [Suc 0..<64]" by (simp add: upt_rec)
  have "\<not> is_char_boundary crafted_signature (Suc (Suc 0))"
    by (simp add: is_char_boundary_def is_continuation_def len) (simp add: crafted_signature_def)
  then have "from_hex 64 crafted_signature = Panic"
    by (simp add: from_hex_def len upt)
  then show ?thesis using utf8 len by (simp add: open_envelope_def)
qed

section \<open>Node identity\<close>

text \<open>Ed25519: keys have 32 bytes, signatures 64, the public key of a seed is a valid key, and a
  signature verifies under it.\<close>

locale signing_scheme =
  fixes L :: mesh_lib
  assumes public_length: "length (ml_public L seed) = 32"
    and public_valid: "ml_key_valid L (ml_public L seed)"
    and sign_length: "length (ml_sign L seed d) = 64"
    and verify_sign: "ml_verify L (ml_public L seed) d (ml_sign L seed d)"
begin

lemma signed_digest_frame: "signing_digest L (e\<lparr>me_signature := s\<rparr>) = signing_digest L e"
  by (simp add: signing_digest_def signing_bytes_def)

lemma open_sealed:
  assumes "node = from_public_key L (ml_public L key)"
  obtains e where "seal L node key draft = Ok e" "open_envelope L e node (ml_public L key) = Ok ()"
    "me_origin_node e = node" "me_payload e = ed_payload draft"
proof -
  define e0 where "e0 = unsigned_envelope node draft"
  have e0: "me_origin_node e0 = node" "me_payload e0 = ed_payload draft"
    by (simp_all add: e0_def unsigned_envelope_def)
  have sealed: "seal L node key draft = Ok (e0\<lparr>me_signature := to_hex (ml_sign L key (signing_digest L e0))\<rparr>)"
    using assms by (simp add: seal_def e0_def Let_def)
  have "from_hex 64 (to_hex (ml_sign L key d)) = Ok (ml_sign L key d)" for d
    using from_hex_to_hex [of "ml_sign L key d"] sign_length by simp
  then show thesis using that [OF sealed] e0 assms verify_sign
    by (simp add: open_envelope_def signed_digest_frame)
qed

end

text \<open>The node record's codec: it round-trips, prints UTF-8, and has its version under its name.\<close>

locale node_codec =
  fixes L :: mesh_lib
  assumes node_round_trip: "ml_node_of_text L (ml_node_to_text L n) = Some n"
    and node_utf8: "valid_utf8 (ml_node_to_text L n)"
    and node_version: "\<exists>v. ml_value_of_text L (ml_node_to_text L n) = Some v \<and>
      Option.bind (json_get v ''version'') as_u64 = Some (ucast (mn_version n))"
begin

lemma load_stored: "mn_version n = NODE_SCHEMA_VERSION \<Longrightarrow> load_node L (Some (ml_node_to_text L n)) = Ok (Some n)"
  using node_version [of n] by (auto simp: load_node_def node_utf8 node_round_trip)

end

locale mesh_identity = signing_scheme L + node_codec L + key_store K
  for L :: mesh_lib and K :: "'s KeyStore"
begin

lemma established:
  assumes "length seed = 32" and est: "establish_in L K enrolment seed (None, keys) = (Ok node, st)"
  shows "signing_key_in L K st = Ok seed \<and> establish_in L K other_enrolment other_seed st = (Ok node, st) \<and>
    verifying_key L node = Ok (ml_public L seed) \<and> mn_node_id node = from_public_key L (ml_public L seed)"
proof -
  define n where "n = new_node L enrolment seed"
  obtain r keys' where ks: "ks_store K (node_str (mn_node_id n)) (to_hex seed) keys = (r, keys')"
    by (cases "ks_store K (node_str (mn_node_id n)) (to_hex seed) keys")
  have "load_node L None = Ok None" by (simp add: load_node_def)
  then have result: "(case r of Inl e \<Rightarrow> (Err (KeyStoreFailure e), None, keys')
      | Inr u \<Rightarrow> (Ok n, Some (ml_node_to_text L n), keys')) = (Ok node, st)"
    using est ks by (simp add: establish_in_def Let_def flip: n_def split: sum.splits)
  then have node: "node = new_node L enrolment seed" and st: "st = (Some (ml_node_to_text L node), keys')"
    and stored: "ks_store K (node_str (mn_node_id node)) (to_hex seed) keys = (Inr (), keys')"
    using ks by (cases r; simp add: n_def)+
  have load: "load_node L (Some (ml_node_to_text L node)) = Ok (Some node)"
    by (rule load_stored) (simp add: node new_node_def Let_def)
  have "from_hex 32 (to_hex seed) = Ok seed" using from_hex_to_hex [of seed] assms(1) by simp
  moreover have "from_hex 32 (to_hex (ml_public L seed)) = Ok (ml_public L seed)"
    using from_hex_to_hex [of "ml_public L seed"] public_length by simp
  moreover have "mn_node_id node = from_public_key L (ml_public L seed)" "mn_public_key node = to_hex (ml_public L seed)"
    by (simp_all add: node new_node_def Let_def)
  ultimately show ?thesis using load store_load [OF stored] public_valid
    by (simp add: st signing_key_in_def establish_in_def verifying_key_def)
qed

end

text \<open>C22. A node's identity holds together: after a first enrolment the signing key can be loaded and is
  the generated one, the record alone gives its public half, enrolling again with any other data
  returns the same node and changes nothing, and whatever the node seals opens under the node's
  public key.\<close>

theorem enrolled_node_seals_and_opens:
  assumes "mesh_identity L K" and "length seed = 32"
    and "establish_in L K enrolment seed (None, keys) = (Ok node, st)"
  shows "signing_key_in L K st = Ok seed \<and> verifying_key L node = Ok (ml_public L seed) \<and>
    establish_in L K other_enrolment other_seed st = (Ok node, st) \<and>
    (\<exists>e. seal L (mn_node_id node) seed draft = Ok e \<and> me_payload e = ed_payload draft \<and>
      open_envelope L e (mn_node_id node) (ml_public L seed) = Ok ())"
proof -
  have scheme: "signing_scheme L" using assms(1) by (rule mesh_identity.axioms)
  note est = mesh_identity.established [OF assms, of other_enrolment other_seed]
  then have "mn_node_id node = from_public_key L (ml_public L seed)" by blast
  from signing_scheme.open_sealed [OF scheme this, of draft] est show ?thesis by metis
qed

section \<open>A concrete library\<close>

definition pad :: "nat \<Rightarrow> string \<Rightarrow> string" where
  "pad n s = take n (s @ replicate n (CHR 0x00))"

definition platform_tags :: "(string \<times> Platform) list" where
  "platform_tags = [(''macos'', MacOS), (''windows'', Windows), (''linux'', Linux), (''ios'', Ios), (''android'', Android)]"

definition class_tags :: "(string \<times> NodeClass) list" where
  "class_tags = [(''full_node'', FullNode), (''mobile_node'', MobileNode)]"

definition reliability_tags :: "(string \<times> BackgroundReliability) list" where
  "reliability_tags = [(''continuous'', Continuous), (''foreground_only'', ForegroundOnly)]"

definition tag_of :: "(string \<times> 'a) list \<Rightarrow> 'a \<Rightarrow> string" where
  "tag_of tags x = (case find (\<lambda>t. snd t = x) tags of None \<Rightarrow> [] | Some t \<Rightarrow> fst t)"

lemma tags_round_trip:
  "map_of platform_tags (tag_of platform_tags p) = Some p" "map_of class_tags (tag_of class_tags c) = Some c"
  "map_of reliability_tags (tag_of reliability_tags r) = Some r"
  by (cases p; simp add: platform_tags_def tag_of_def) (cases c; cases r; simp add: class_tags_def reliability_tags_def tag_of_def)+

definition demo_node_to_value :: "MeshNode \<Rightarrow> json" where
  "demo_node_to_value n = JObject
     [(''version'', write_u32 (mn_version n)), (''node_id'', JString (node_str (mn_node_id n))),
      (''installation_id'', JString (mn_installation_id n)), (''public_key'', JString (mn_public_key n)),
      (''display_name'', JString (mn_display_name n)),
      (''platform'', JString (tag_of platform_tags (mn_platform n))),
      (''class'', JString (tag_of class_tags (mn_class n))), (''enrolled_at'', JString (mn_enrolled_at n)),
      (''background_reliability'', JString (tag_of reliability_tags (mn_background_reliability n)))]"

definition demo_node_of_value :: "json \<Rightarrow> MeshNode option" where
  "demo_node_of_value v =
     Option.bind (Option.bind (json_get v ''version'') read_u32) (\<lambda>ver.
     Option.bind (string_field v ''node_id'') (\<lambda>nid.
     Option.bind (string_field v ''installation_id'') (\<lambda>inst.
     Option.bind (string_field v ''public_key'') (\<lambda>pk.
     Option.bind (string_field v ''display_name'') (\<lambda>name.
     Option.bind (Option.bind (string_field v ''platform'') (map_of platform_tags)) (\<lambda>plat.
     Option.bind (Option.bind (string_field v ''class'') (map_of class_tags)) (\<lambda>cls.
     Option.bind (string_field v ''enrolled_at'') (\<lambda>at.
     Option.bind (Option.bind (string_field v ''background_reliability'') (map_of reliability_tags)) (\<lambda>rel.
       Some \<lparr>mn_version = ver, mn_node_id = NodeId nid, mn_installation_id = inst, mn_public_key = pk,
             mn_display_name = name, mn_platform = plat, mn_class = cls, mn_enrolled_at = at,
             mn_background_reliability = rel\<rparr>)))))))))"

definition demo_mesh :: mesh_lib where
  "demo_mesh = \<lparr>ml_sha256 = pad 32, ml_public = (\<lambda>seed. pad 32 (CHR 0x01 # seed)), ml_key_valid = (\<lambda>k. length k = 32),
     ml_sign = (\<lambda>seed d. pad 32 (CHR 0x01 # seed) @ pad 32 d), ml_verify = (\<lambda>k d s. s = k @ pad 32 d),
     ml_value_of_text = unwire, ml_node_to_text = (\<lambda>n. wire (demo_node_to_value n)),
     ml_node_of_text = (\<lambda>s. Option.bind (unwire s) demo_node_of_value), ml_registry_of_text = (\<lambda>_. None),
     ml_string_text = (\<lambda>s. CHR 0x22 # wire_string s), ml_number_text = (\<lambda>n. CHR ''0'' # wire_number n)\<rparr>"

lemma demo_node_round_trip: "demo_node_of_value (demo_node_to_value n) = Some n"
  by (simp add: demo_node_of_value_def demo_node_to_value_def json_get_def string_field_def tags_round_trip)

lemma pad_length [simp]: "length (pad n s) = n"
  by (simp add: pad_def)

interpretation demo_mesh: mesh_identity demo_mesh MemoryKeyStore
proof unfold_locales
  show "ml_node_of_text demo_mesh (ml_node_to_text demo_mesh n) = Some n" for n
    by (simp add: demo_mesh_def wire_text.of_to_text demo_node_round_trip)
  show "valid_utf8 (ml_node_to_text demo_mesh n)" for n by (simp add: demo_mesh_def wire_text.text_utf8)
  show "\<exists>v. ml_value_of_text demo_mesh (ml_node_to_text demo_mesh n) = Some v \<and>
      Option.bind (json_get v ''version'') as_u64 = Some (ucast (mn_version n))" for n
    by (simp add: demo_mesh_def wire_text.of_to_text demo_node_to_value_def json_get_def write_u32_def
        del: wire.simps)
qed (simp_all add: demo_mesh_def)

lemma wire_string_ends: "wire_string s @ r = wire_string t @ r' \<Longrightarrow> s = t \<and> r = r'"
  by (metis option.inject prod.inject unwire_wire_string)

interpretation demo_mesh: json_print demo_mesh
proof
  show "s = s' \<and> r = r'" if "ml_string_text demo_mesh s @ r = ml_string_text demo_mesh s' @ r'" for s s' r r'
    using that wire_string_ends [of s r s' r'] by (simp add: demo_mesh_def)
  show "n = m \<and> r = r'" if "ml_number_text demo_mesh n @ r = ml_number_text demo_mesh m @ r'" for n m r r'
  proof -
    have "v = w \<and> q = q'" if "wire_string (word_bytes v) @ q = wire_string (word_bytes w) @ q'" for v w q q'
      using wire_string_ends [OF that] by (metis bytes_word_bytes)
    then show ?thesis using that by (cases n; cases m) (auto simp: demo_mesh_def)
  qed
qed (auto simp: demo_mesh_def)

definition demo_draft :: EnvelopeDraft where
  "demo_draft = \<lparr>ed_event_id = ''e'', ed_origin_seq = 1, ed_hlc = \<lparr>wall_ms = 10, counter = 0\<rparr>, ed_causal_parents = [],
     ed_work_id = None, ed_task_id = None, ed_event_type = ''w'', ed_payload = JNull,
     ed_privacy_class = Sovereign, ed_previous_hash = None\<rparr>"

definition demo_enrolment :: NodeEnrolment where
  "demo_enrolment = \<lparr>en_installation_id = ''i'', en_display_name = ''mac'', en_platform = MacOS, en_class = FullNode,
     en_enrolled_at = ''t''\<rparr>"

theorem enrolled_node_seals_and_opens_witness:
  "\<exists>node st. establish_in demo_mesh MemoryKeyStore demo_enrolment (replicate 32 (CHR 0x05)) (None, Map.empty) = (Ok node, st) \<and>
     signing_key_in demo_mesh MemoryKeyStore st = Ok (replicate 32 (CHR 0x05))"
proof -
  let ?seed = "replicate 32 (CHR 0x05)"
  obtain node st where est: "establish_in demo_mesh MemoryKeyStore demo_enrolment ?seed (None, Map.empty) = (Ok node, st)"
    by (simp add: establish_in_def load_node_def Let_def MemoryKeyStore_def)
  have "length ?seed = 32" by simp
  from enrolled_node_seals_and_opens [OF demo_mesh.mesh_identity_axioms this est] est show ?thesis by blast
qed

definition demo_envelope :: MeshEnvelope where
  "demo_envelope = \<lparr>me_schema_version = 1, me_event_id = ''e'', me_origin_node = NodeId ''n'', me_origin_seq = 1,
     me_hlc = \<lparr>wall_ms = 10, counter = 0\<rparr>, me_causal_parents = [], me_work_id = None, me_task_id = None,
     me_event_type = ''w'', me_payload = JNull, me_privacy_class = Sovereign, me_previous_hash = None, me_signature = []\<rparr>"

theorem signed_bytes_determine_envelope_witness:
  "signing_bytes demo_mesh demo_envelope \<noteq> signing_bytes demo_mesh (demo_envelope\<lparr>me_work_id := Some []\<rparr>)"
proof -
  have "sized_envelope demo_mesh demo_envelope" "sized_envelope demo_mesh (demo_envelope\<lparr>me_work_id := Some []\<rparr>)"
    by (simp_all add: sized_envelope_def demo_envelope_def sized_def sized_option_def)
  from signed_bytes_determine_envelope [OF demo_mesh.json_print_axioms this]
  show ?thesis by (simp add: demo_envelope_def)
qed

end
