(* ===== verification/Claims.thy ===== *)
theory Claims
  imports Json Utf8
begin

text \<open>
  The data of the executable claim registry, \<open>crates/heiwa_claims\<close>: claims and their evidence
  (\<open>manifest.rs\<close>, \<open>evidence.rs\<close>), the verifier allowlist (\<open>verifier.rs\<close>), the computed state of a
  claim (\<open>state.rs\<close>), and scopes with the staleness digest (\<open>scope.rs\<close>).

  Parameters (\<open>claims_lib\<close>): TOML, the derived codecs and SHA-256. Git is a view of the repository at
  one moment (\<open>git_view\<close>), each field the standard output of the command of that name, or \<open>None\<close> when
  it fails. Error messages and the one-line reasons of a state are left out.
\<close>

section \<open>Verifiers\<close>

datatype ClaimError = ClaimIo | ManifestError | UnknownVerifier string | ParamsError | DirtyScope | ChangedInputs

datatype VerifierKind = SymbolsPresent | TextAbsent | Script string "string list" | CargoTest

record VerifierDef =
  vd_id :: string
  vd_version :: string
  vd_kind :: VerifierKind

definition VERIFIERS :: "VerifierDef list" where
  "VERIFIERS =
     [\<lparr>vd_id = ''symbols-present'', vd_version = ''3'', vd_kind = SymbolsPresent\<rparr>,
      \<lparr>vd_id = ''text-absent'', vd_version = ''3'', vd_kind = TextAbsent\<rparr>,
      \<lparr>vd_id = ''cargo-test'', vd_version = ''3'', vd_kind = CargoTest\<rparr>,
      \<lparr>vd_id = ''l0-acceptance'', vd_version = ''3'', vd_kind = Script ''bash'' [''scripts/check_l0_acceptance.sh'']\<rparr>,
      \<lparr>vd_id = ''l1-acceptance'', vd_version = ''3'', vd_kind = Script ''bash'' [''scripts/check_l1_acceptance.sh'']\<rparr>,
      \<lparr>vd_id = ''l2-acceptance'', vd_version = ''3'', vd_kind = Script ''bash'' [''scripts/check_l2_acceptance.sh'']\<rparr>,
      \<lparr>vd_id = ''agent-baseline'', vd_version = ''3'', vd_kind = Script ''bash'' [''scripts/check_agent_baseline.sh'']\<rparr>]"

definition lookup_verifier :: "string \<Rightarrow> VerifierDef option" where
  "lookup_verifier vid = find (\<lambda>v. vd_id v = vid) VERIFIERS"

record VerifierParams =
  vp_symbols :: "string list"
  vp_patterns :: "string list"
  vp_package :: "string option"

definition validate_params ::
    "VerifierParams \<Rightarrow> VerifierDef \<Rightarrow> (string, string) btree \<Rightarrow> ClaimError option" where
  "validate_params p d workspace_packages =
     (case vd_kind d of
        SymbolsPresent \<Rightarrow>
          if vp_symbols p = [] then Some ParamsError
          else if vp_patterns p \<noteq> [] then Some ParamsError
          else if vp_package p \<noteq> None then Some ParamsError else None
      | TextAbsent \<Rightarrow>
          if vp_patterns p = [] then Some ParamsError
          else if vp_symbols p \<noteq> [] then Some ParamsError
          else if vp_package p \<noteq> None then Some ParamsError else None
      | CargoTest \<Rightarrow>
          (case vp_package p of
             None \<Rightarrow> Some ParamsError
           | Some package \<Rightarrow>
               if bt_get workspace_packages package = None then Some ParamsError
               else if vp_symbols p \<noteq> [] then Some ParamsError
               else if vp_patterns p \<noteq> [] then Some ParamsError else None)
      | Script program args \<Rightarrow>
          if vp_symbols p \<noteq> [] then Some ParamsError
          else if vp_patterns p \<noteq> [] then Some ParamsError
          else if vp_package p \<noteq> None then Some ParamsError else None)"

section \<open>Claims, evidence and observations\<close>

datatype RequiredState = RequireImplemented | RequireVerified

record Claim =
  cl_claim_id :: string
  cl_subject :: string
  cl_claim :: string
  cl_required_state :: RequiredState
  cl_scope :: "string list"
  cl_verifier_id :: string
  cl_params :: VerifierParams
  cl_compatibility :: "string list"
  cl_max_age_days :: "u32 option"
  cl_retired :: bool

datatype VerifyResult = Pass | Fail

record EvidenceRecord =
  er_claim_id :: string
  er_claim_digest :: string
  er_verifier_id :: string
  er_verifier_version :: string
  er_result :: VerifyResult
  er_commit :: string
  er_scope_digest :: string
  er_verified_at :: int
  er_os :: string
  er_arch :: string
  er_detail :: string

datatype toml = TString string | TBool bool | TArray "toml list" | TTable "(string \<times> toml) list" | TOther

record claims_lib =
  lb_toml :: "string \<Rightarrow> toml option"
  lb_manifest :: "string \<Rightarrow> Claim list option"
  lb_claim_bytes :: "Claim \<Rightarrow> string"
  lb_sha256 :: "string \<Rightarrow> string"
  lb_record_to_text :: "EvidenceRecord \<Rightarrow> string"
  lb_record_of_text :: "string \<Rightarrow> EvidenceRecord option"
  lb_os :: string
  lb_arch :: string

definition validate_claim_id :: "string \<Rightarrow> ClaimError option" where
  "validate_claim_id i =
     (if i = [] \<or> length i > 128 \<or> i = ''.'' \<or> i = ''..'' \<or>
         \<not> list_all (\<lambda>b. is_ascii_alphanumeric b \<or> b \<in> set ''._-'') i
      then Some ManifestError else None)"

text \<open>\<open>format!("{:x}", digest)\<close>.\<close>

definition hex_digest :: "claims_lib \<Rightarrow> string \<Rightarrow> string" where
  "hex_digest L bytes = concat (map hex_byte (lb_sha256 L bytes))"

definition claim_fingerprint :: "claims_lib \<Rightarrow> Claim \<Rightarrow> string" where
  "claim_fingerprint L c = hex_digest L (lb_claim_bytes L c)"

definition claim_verifier :: "Claim \<Rightarrow> ClaimError + VerifierDef" where
  "claim_verifier c =
     (case lookup_verifier (cl_verifier_id c) of
        None \<Rightarrow> Inl (UnknownVerifier (cl_verifier_id c)) | Some d \<Rightarrow> Inr d)"

section \<open>Computed state\<close>

datatype ClaimState = Planned | Implemented | Verified | Degraded | Retired

fun ClaimState_as_str :: "ClaimState \<Rightarrow> string" where
  "ClaimState_as_str Planned = ''planned''"
| "ClaimState_as_str Implemented = ''implemented''"
| "ClaimState_as_str Verified = ''verified''"
| "ClaimState_as_str Degraded = ''degraded''"
| "ClaimState_as_str Retired = ''retired''"

definition satisfies :: "ClaimState \<Rightarrow> RequiredState \<Rightarrow> bool" where
  "satisfies s required \<longleftrightarrow> s = Verified \<or> s = Implemented \<and> required = RequireImplemented"

record Observation =
  ob_scope_files :: nat
  ob_scope_digest :: string
  ob_evidence :: "EvidenceRecord option"
  ob_evidence_is_ancestor :: bool
  ob_verifier_version :: string
  ob_now :: int

definition DAY_SECONDS :: int where "DAY_SECONDS = 86400"

text \<open>The state; the one-line reason is left out.\<close>

definition compute :: "claims_lib \<Rightarrow> Claim \<Rightarrow> Observation \<Rightarrow> ClaimState" where
  "compute L claim obs =
     (if cl_retired claim then Retired
      else if ob_scope_files obs = 0 then (if ob_evidence obs \<noteq> None then Retired else Planned)
      else (case ob_evidence obs of
        None \<Rightarrow> Implemented
      | Some evidence \<Rightarrow>
          if er_claim_id evidence \<noteq> cl_claim_id claim \<or> er_claim_digest evidence \<noteq> claim_fingerprint L claim
          then Degraded
          else if er_result evidence = Fail then Degraded
          else if er_verifier_id evidence \<noteq> cl_verifier_id claim then Degraded
          else if er_verifier_version evidence \<noteq> ob_verifier_version obs then Degraded
          else if \<not> ob_evidence_is_ancestor obs then Degraded
          else if er_scope_digest evidence \<noteq> ob_scope_digest obs then Degraded
          else (case cl_max_age_days claim of
                  Some max_age_days \<Rightarrow>
                    if i64_saturating_sub (ob_now obs) (er_verified_at evidence) >
                       int (unat max_age_days) * DAY_SECONDS
                    then Degraded else Verified
                | None \<Rightarrow> Verified)))"

section \<open>Git and scopes\<close>

record git_view =
  gv_rev_parse_head :: "string option"
  gv_ls_tree :: "string \<Rightarrow> string list \<Rightarrow> string option"
  gv_cat_file :: "string \<Rightarrow> string option"
  gv_status :: "string list \<Rightarrow> string option"
  gv_is_ancestor :: "string \<Rightarrow> string \<Rightarrow> bool"

record ScopeEntry =
  se_path :: string
  se_mode :: string
  se_blob :: string

abbreviation NUL :: char where "NUL \<equiv> CHR 0x00"

definition head_commit :: "git_view \<Rightarrow> ClaimError + string" where
  "head_commit g =
     (case gv_rev_parse_head g of
        None \<Rightarrow> Inl ClaimIo | Some out \<Rightarrow> Inr (trim (from_utf8_lossy out)))"

text \<open>One record of \<open>ls-tree -z\<close>: \<open>mode type object TAB path\<close>.\<close>

definition parse_tree_record :: "string \<Rightarrow> ScopeEntry option" where
  "parse_tree_record rec =
     (if rec = [] then None
      else (case split_once (\<lambda>c. c = TAB) (from_utf8_lossy rec) of
              None \<Rightarrow> None
            | Some (meta, path) \<Rightarrow>
                let fields = split_whitespace meta in
                if length fields \<le> 2 then None
                else Some \<lparr>se_path = path, se_mode = fields ! 0, se_blob = fields ! 2\<rparr>))"

definition entry_key :: "ScopeEntry \<Rightarrow> string list" where
  "entry_key e = [se_path e, se_mode e, se_blob e]"

definition resolve_at :: "git_view \<Rightarrow> string list \<Rightarrow> string \<Rightarrow> ClaimError + ScopeEntry list" where
  "resolve_at g scope commit =
     (case gv_ls_tree g commit scope of
        None \<Rightarrow> Inl ClaimIo
      | Some out \<Rightarrow>
          Inr (remdups_adj (sort_key entry_key
            (List.map_filter parse_tree_record (split_on (\<lambda>c. c = NUL) out)))))"

definition resolve_scope :: "git_view \<Rightarrow> string list \<Rightarrow> ClaimError + ScopeEntry list" where
  "resolve_scope g scope = resolve_at g scope ''HEAD''"

definition require_regular :: "ScopeEntry \<Rightarrow> ClaimError option" where
  "require_regular e = (if se_mode e = ''100644'' \<or> se_mode e = ''100755'' then None else Some ManifestError)"

definition read_text :: "git_view \<Rightarrow> ScopeEntry \<Rightarrow> ClaimError + string" where
  "read_text g e =
     (case require_regular e of
        Some err \<Rightarrow> Inl err
      | None \<Rightarrow>
          (case gv_cat_file g (se_blob e) of
             None \<Rightarrow> Inl ClaimIo
           | Some out \<Rightarrow> if valid_utf8 out then Inr out else Inl ClaimIo))"

definition digest_bytes :: "ScopeEntry list \<Rightarrow> string" where
  "digest_bytes entries =
     concat (map (\<lambda>e. se_path e @ [NUL] @ se_mode e @ [NUL] @ se_blob e @ [NL]) entries)"

definition scope_digest :: "claims_lib \<Rightarrow> ScopeEntry list \<Rightarrow> string" where
  "scope_digest L entries = hex_digest L (digest_bytes entries)"

definition is_ancestor :: "git_view \<Rightarrow> string \<Rightarrow> string \<Rightarrow> bool" where
  "is_ancestor g candidate head \<longleftrightarrow> candidate = head \<or> gv_is_ancestor g candidate head"


section \<open>The digest determines the scope\<close>

lemma lossy_bytes: "set (from_utf8_lossy s) \<subseteq> set s \<union> set replacement"
proof (induction s rule: from_utf8_lossy.induct)
  case (1 s)
  show ?case
  proof (cases "s = []")
    case False
    have sub: "set (take n s) \<subseteq> set s" "set (drop n s) \<subseteq> set s" for n
      by (auto dest: in_set_takeD in_set_dropD)
    have "set (from_utf8_lossy (drop (snd (utf8_next s)) s)) \<subseteq> set s \<union> set replacement"
      using 1 [OF False] sub(2) [of "snd (utf8_next s)"] by blast
    with sub(1) [of "snd (utf8_next s)"] False show ?thesis by (subst from_utf8_lossy.simps) auto
  qed (simp add: from_utf8_lossy.simps)
qed

lemma split_once_sets: "split_once p s = Some (a, b) \<Longrightarrow> set a \<subseteq> set s \<and> set b \<subseteq> set s"
  by (induction s arbitrary: a b) (auto split: if_splits)

lemma word_prefix_sets:
  "set (fst (word_prefix s)) \<subseteq> set s \<and> set (snd (word_prefix s)) \<subseteq> set s \<and> NL \<notin> set (fst (word_prefix s))"
proof (induction s rule: word_prefix.induct)
  case (1 s)
  show ?case
  proof (cases "s = [] \<or> list_ex (\<lambda>w. prefix w s) white_space")
    case False
    then obtain c t where s: "s = c # t" by (cases s) auto
    have "[NL] \<in> set white_space" by (simp add: white_space_def)
    with False have "\<not> prefix [NL] s" unfolding list_ex_iff by blast
    then have "c \<noteq> NL" using s by simp
    with 1 False s show ?thesis by (subst (1 2 3) word_prefix.simps) (auto simp: case_prod_beta)
  qed (simp add: word_prefix.simps [of s])
qed

lemma trim_start_sets: "set (trim_start s) \<subseteq> set s"
  using strip_leading_suffix [of s white_space] unfolding trim_start_def by (metis Un_upper2 set_append)

lemma split_whitespace_sets: "w \<in> set (split_whitespace s) \<Longrightarrow> set w \<subseteq> set s \<and> NL \<notin> set w"
proof (induction s arbitrary: w rule: split_whitespace.induct)
  case (1 s)
  let ?t = "trim_start s"
  note sets = word_prefix_sets [of ?t] trim_start_sets [of s]
  have ne: "?t \<noteq> []" using "1.prems" by (subst (asm) split_whitespace.simps) (auto simp: Let_def)
  with "1.prems" consider "w = fst (word_prefix ?t)" | "w \<in> set (split_whitespace (snd (word_prefix ?t)))"
    by (subst (asm) split_whitespace.simps) (auto simp: Let_def)
  then show ?case
  proof cases
    case 2
    from "1.IH" [OF refl ne this] sets show ?thesis by blast
  qed (use sets in auto)
qed

text \<open>The fields of an entry hold none of the bytes that separate them.\<close>

definition separable :: "ScopeEntry \<Rightarrow> bool" where
  "separable e \<longleftrightarrow> NUL \<notin> set (se_path e) \<and> NUL \<notin> set (se_mode e) \<and> NL \<notin> set (se_blob e)"

lemma parse_tree_record_separable:
  assumes "parse_tree_record rec = Some e" "NUL \<notin> set rec"
  shows "separable e"
proof -
  from assms(1) obtain meta path where
      parts: "split_once (\<lambda>c. c = TAB) (from_utf8_lossy rec) = Some (meta, path)"
    and fields: "2 < length (split_whitespace meta)"
      "e = \<lparr>se_path = path, se_mode = split_whitespace meta ! 0, se_blob = split_whitespace meta ! 2\<rparr>"
    by (auto simp: parse_tree_record_def Let_def split: if_splits option.splits)
  have "NUL \<notin> set (from_utf8_lossy rec)"
    using lossy_bytes [of rec] assms(2) by (auto simp: replacement_def)
  then have "NUL \<notin> set meta" "NUL \<notin> set path" using split_once_sets [OF parts] by auto
  moreover have "split_whitespace meta ! i \<in> set (split_whitespace meta)" if "i \<le> 2" for i
    using that fields(1) by simp
  then have "set (split_whitespace meta ! i) \<subseteq> set meta \<and> NL \<notin> set (split_whitespace meta ! i)" if "i \<le> 2" for i
    using split_whitespace_sets that by blast
  from this [of 0] this [of 2]
  have "set (split_whitespace meta ! 0) \<subseteq> set meta" "NL \<notin> set (split_whitespace meta ! 2)" by auto
  ultimately show ?thesis unfolding separable_def fields(2) by auto
qed

lemma resolve_at_separable:
  assumes "resolve_at g scope commit = Inr entries" "e \<in> set entries"
  shows "separable e"
proof -
  from assms obtain out rec where "rec \<in> set (split_on (\<lambda>c. c = NUL) out)" "parse_tree_record rec = Some e"
    by (auto simp: resolve_at_def map_filter_def split: option.splits)
  with split_on_pieces [of rec "\<lambda>c. c = NUL" out] show ?thesis by (auto intro: parse_tree_record_separable)
qed

lemma separator_cancel:
  "c \<notin> set xs \<Longrightarrow> c \<notin> set xs' \<Longrightarrow> xs @ c # ys = xs' @ c # ys' \<longleftrightarrow> xs = xs' \<and> ys = ys'"
proof (induction xs arbitrary: xs')
  case Nil
  then show ?case by (cases xs') auto
next
  case (Cons x xs)
  then show ?case by (cases xs') auto
qed

lemma digest_bytes_Cons:
  "digest_bytes (e # es) = se_path e @ NUL # se_mode e @ NUL # se_blob e @ NL # digest_bytes es"
  by (simp add: digest_bytes_def)

lemma digest_bytes_inject:
  "\<forall>e\<in>set es. separable e \<Longrightarrow> \<forall>e\<in>set es'. separable e \<Longrightarrow> digest_bytes es = digest_bytes es' \<Longrightarrow> es = es'"
proof (induction es arbitrary: es')
  case Nil
  then show ?case by (cases es') (auto simp: digest_bytes_def)
next
  case (Cons e es)
  then obtain e' es'' where es': "es' = e' # es''" by (cases es') (auto simp: digest_bytes_def)
  have "separable e" "separable e'" using Cons.prems es' by auto
  then have "se_path e = se_path e' \<and> se_mode e = se_mode e' \<and> se_blob e = se_blob e' \<and>
      digest_bytes es = digest_bytes es''"
    using Cons.prems(3) by (simp add: es' digest_bytes_Cons separable_def separator_cancel)
  moreover from this have "es = es''" using Cons.IH [of es''] Cons.prems(1,2) es' by simp
  ultimately show ?case by (simp add: es')
qed

text \<open>The staleness digest is taken over bytes that determine the scope: two resolved scopes, of any
  commits and any paths, give the same bytes only when they have the same files with the same modes and
  contents. No file name can imitate a change of another field, because git's records carry no NUL.\<close>

theorem scope_bytes_determine_scope:
  assumes "resolve_at g scope commit = Inr entries" "resolve_at g' scope' commit' = Inr entries'"
  shows "digest_bytes entries = digest_bytes entries' \<longleftrightarrow> entries = entries'"
  using assms by (auto intro: digest_bytes_inject dest: resolve_at_separable)

definition demo_git :: git_view where
  "demo_git =
     \<lparr>gv_rev_parse_head = Some (''c0ffee'' @ [NL]),
      gv_ls_tree = (\<lambda>commit scope. if scope = [''claims'']
        then Some (''100644 blob b1'' @ [TAB] @ ''claims/c.toml'' @ [NUL])
        else if scope = [''docs''] then Some (''100644 blob b2'' @ [TAB] @ ''docs/guide.md'' @ [NUL])
        else Some []),
      gv_cat_file = map_of [(''b1'', ''claims''), (''b2'', ''new names only'')],
      gv_status = (\<lambda>_. Some []), gv_is_ancestor = (\<lambda>_ _. False)\<rparr>"

lemma demo_docs:
  "resolve_at demo_git [''docs''] ''c0ffee'' =
     Inr [\<lparr>se_path = ''docs/guide.md'', se_mode = ''100644'', se_blob = ''b2''\<rparr>]"
  by code_simp

lemma demo_claims_tree:
  "resolve_at demo_git [''claims''] ''c0ffee'' =
     Inr [\<lparr>se_path = ''claims/c.toml'', se_mode = ''100644'', se_blob = ''b1''\<rparr>]"
  by code_simp

theorem scope_bytes_determine_scope_witness:
  "digest_bytes [\<lparr>se_path = ''docs/guide.md'', se_mode = ''100644'', se_blob = ''b2''\<rparr>] \<noteq>
   digest_bytes [\<lparr>se_path = ''claims/c.toml'', se_mode = ''100644'', se_blob = ''b1''\<rparr>]"
  using scope_bytes_determine_scope [OF demo_docs demo_claims_tree] by simp

end
