(* ===== verification/Claim_Registry.thy ===== *)
theory Claim_Registry
  imports Claims
begin

text \<open>
  Loading and validating the claim manifests, \<open>crates/heiwa_claims/src/manifest.rs\<close>, with the
  packages of the workspace (\<open>lib.rs\<close>). The working tree is the parameter \<open>work_tree\<close>: what reading a
  file or a directory and \<open>canonicalize\<close> give, \<open>None\<close> where the call fails. The walk over the path
  dependencies of a package ends only where the tree is finite, so it is a partial function: \<open>None\<close>
  of the outer option is a walk that never ends.
\<close>

section \<open>Paths and TOML values\<close>

record work_tree =
  wt_read :: "string \<Rightarrow> string option"
  wt_read_dir :: "string \<Rightarrow> string option list option"
  wt_canonicalize :: "string \<Rightarrow> string option"

abbreviation SLASH :: char where "SLASH \<equiv> CHR ''/''"
abbreviation BACKSLASH :: char where "BACKSLASH \<equiv> CHR 0x5C"

text \<open>\<open>Path::join\<close>: an absolute second path replaces the first.\<close>

definition path_join :: "string \<Rightarrow> string \<Rightarrow> string" where
  "path_join a b =
     (if b \<noteq> [] \<and> hd b = SLASH then b
      else if a = [] \<or> last a = SLASH then a @ b else a @ [SLASH] @ b)"

text \<open>\<open>Path::strip_prefix\<close> on canonical paths.\<close>

definition path_strip_prefix :: "string \<Rightarrow> string \<Rightarrow> string option" where
  "path_strip_prefix base p =
     (if p = base then Some []
      else strip_prefix (if base \<noteq> [] \<and> last base = SLASH then base else base @ [SLASH]) p)"

text \<open>\<open>Path::extension\<close> of a file name: a dot at the front starts no extension.\<close>

definition path_extension :: "string \<Rightarrow> string option" where
  "path_extension name =
     (let ps = split_on (\<lambda>c. c = CHR ''.'') name in
      if name = ''..'' \<or> length ps = 1 \<or> (length ps = 2 \<and> hd ps = []) then None else Some (last ps))"

fun toml_get :: "toml \<Rightarrow> string \<Rightarrow> toml option" where
  "toml_get (TTable kvs) k = map_of kvs k"
| "toml_get _ k = None"

fun toml_as_str :: "toml \<Rightarrow> string option" where
  "toml_as_str (TString s) = Some s"
| "toml_as_str _ = None"

fun toml_as_bool :: "toml \<Rightarrow> bool option" where
  "toml_as_bool (TBool b) = Some b"
| "toml_as_bool _ = None"

fun toml_as_array :: "toml \<Rightarrow> toml list option" where
  "toml_as_array (TArray vs) = Some vs"
| "toml_as_array _ = None"

fun toml_as_table :: "toml \<Rightarrow> (string \<times> toml) list option" where
  "toml_as_table (TTable kvs) = Some kvs"
| "toml_as_table _ = None"

section \<open>The packages of the workspace\<close>

definition read_cargo_manifest :: "claims_lib \<Rightarrow> work_tree \<Rightarrow> string \<Rightarrow> ClaimError + toml" where
  "read_cargo_manifest L T path =
     (case wt_read T path of
        None \<Rightarrow> Inl ClaimIo
      | Some t \<Rightarrow> (case lb_toml L t of None \<Rightarrow> Inl ManifestError | Some v \<Rightarrow> Inr v))"

text \<open>One turn of the loop over the members; a member that cannot be read or parsed is skipped.\<close>

definition add_member ::
    "claims_lib \<Rightarrow> work_tree \<Rightarrow> string \<Rightarrow> (string, string) btree \<Rightarrow> toml \<Rightarrow> (string, string) btree" where
  "add_member L T root packages member =
     (case toml_as_str member of
        None \<Rightarrow> packages
      | Some rel \<Rightarrow>
          (case read_cargo_manifest L T (path_join (path_join root rel) ''Cargo.toml'') of
             Inl _ \<Rightarrow> packages
           | Inr v \<Rightarrow>
               (case Option.bind (Option.bind (toml_get v ''package'') (\<lambda>p. toml_get p ''name'')) toml_as_str of
                  None \<Rightarrow> packages
                | Some name \<Rightarrow> bt_insert name rel packages)))"

definition workspace_packages :: "claims_lib \<Rightarrow> work_tree \<Rightarrow> string \<Rightarrow> ClaimError + (string, string) btree" where
  "workspace_packages L T root =
     (case read_cargo_manifest L T (path_join root ''Cargo.toml'') of
        Inl e \<Rightarrow> Inl e
      | Inr v \<Rightarrow>
          (case Option.bind (Option.bind (toml_get v ''workspace'') (\<lambda>w. toml_get w ''members'')) toml_as_array of
             None \<Rightarrow> Inl ManifestError
           | Some members \<Rightarrow> Inr (foldl (add_member L T root) [] members)))"

section \<open>The inputs of a Cargo test\<close>

definition push_path :: "string \<Rightarrow> toml \<Rightarrow> string list \<Rightarrow> string list" where
  "push_path base dependency pending =
     (case Option.bind (toml_get dependency ''path'') toml_as_str of
        None \<Rightarrow> pending | Some path \<Rightarrow> pending @ [path_join base path])"

fun collect_dependencies ::
    "string \<Rightarrow> string \<Rightarrow> toml option \<Rightarrow> (string \<times> toml) list \<Rightarrow> string list \<Rightarrow> ClaimError + string list" where
  "collect_dependencies directory root inherited [] pending = Inr pending"
| "collect_dependencies directory root inherited ((name, declared) # ds) pending =
     (if Option.bind (toml_get declared ''workspace'') toml_as_bool = Some True then
        (case Option.bind inherited (\<lambda>v. toml_get v name) of
           None \<Rightarrow> Inl ManifestError
         | Some dependency \<Rightarrow>
             collect_dependencies directory root inherited ds (push_path root dependency pending))
      else collect_dependencies directory root inherited ds (push_path directory declared pending))"

fun collect_sections ::
    "string list \<Rightarrow> toml \<Rightarrow> string \<Rightarrow> string \<Rightarrow> toml option \<Rightarrow> string list \<Rightarrow> ClaimError + string list" where
  "collect_sections [] manifest directory root inherited pending = Inr pending"
| "collect_sections (section # sections) manifest directory root inherited pending =
     (case Option.bind (toml_get manifest section) toml_as_table of
        None \<Rightarrow> collect_sections sections manifest directory root inherited pending
      | Some dependencies \<Rightarrow>
          (case collect_dependencies directory root inherited dependencies pending of
             Inl e \<Rightarrow> Inl e
           | Inr pending' \<Rightarrow> collect_sections sections manifest directory root inherited pending'))"

definition collect_path_dependencies ::
    "toml \<Rightarrow> string \<Rightarrow> string \<Rightarrow> toml option \<Rightarrow> string list \<Rightarrow> ClaimError + string list" where
  "collect_path_dependencies = collect_sections [''dependencies'', ''dev-dependencies'', ''build-dependencies'']"

fun collect_targets ::
    "(string \<times> toml) list \<Rightarrow> string \<Rightarrow> string \<Rightarrow> toml option \<Rightarrow> string list \<Rightarrow> ClaimError + string list" where
  "collect_targets [] directory root inherited pending = Inr pending"
| "collect_targets ((name, target) # targets) directory root inherited pending =
     (case collect_path_dependencies target directory root inherited pending of
        Inl e \<Rightarrow> Inl e
      | Inr pending' \<Rightarrow> collect_targets targets directory root inherited pending')"

text \<open>What one package adds to the pending directories: its own dependencies, then those of each target.\<close>

definition package_dependencies ::
    "toml \<Rightarrow> string \<Rightarrow> string \<Rightarrow> toml option \<Rightarrow> string list \<Rightarrow> ClaimError + string list" where
  "package_dependencies manifest directory root inherited pending =
     (case collect_path_dependencies manifest directory root inherited pending of
        Inl e \<Rightarrow> Inl e
      | Inr pending' \<Rightarrow>
          (case Option.bind (toml_get manifest ''target'') toml_as_table of
             None \<Rightarrow> Inr pending'
           | Some targets \<Rightarrow> collect_targets targets directory root inherited pending'))"

definition slashed :: "string \<Rightarrow> string" where
  "slashed s = map (\<lambda>c. if c = BACKSLASH then SLASH else c) (from_utf8_lossy s)"

text \<open>The loop \<open>while let Some(directory) = pending.pop()\<close>. The two sets are lists; nothing reads their order.\<close>

partial_function (option) cargo_inputs ::
    "claims_lib \<Rightarrow> work_tree \<Rightarrow> string \<Rightarrow> toml option \<Rightarrow> string list \<Rightarrow> string list \<Rightarrow> string list \<Rightarrow>
     (ClaimError + string list) option" where
  "cargo_inputs L T root inherited pending visited required =
     (if pending = [] then Some (Inr required)
      else case wt_canonicalize T (last pending) of
        None \<Rightarrow> Some (Inl ClaimIo)
      | Some directory \<Rightarrow>
          if directory \<in> set visited
          then cargo_inputs L T root inherited (butlast pending) visited required
          else case path_strip_prefix root directory of
            None \<Rightarrow> Some (Inl ManifestError)
          | Some relative \<Rightarrow>
              (case read_cargo_manifest L T (path_join directory ''Cargo.toml'') of
                 Inl e \<Rightarrow> Some (Inl e)
               | Inr manifest \<Rightarrow>
                   (case package_dependencies manifest directory root inherited (butlast pending) of
                      Inl e \<Rightarrow> Some (Inl e)
                    | Inr pending' \<Rightarrow>
                        cargo_inputs L T root inherited pending' (directory # visited)
                          (List.insert (slashed relative) required))))"

declare cargo_inputs.simps [code]

definition scope_covers :: "string list \<Rightarrow> string \<Rightarrow> bool" where
  "scope_covers scope path \<longleftrightarrow>
     list_ex (\<lambda>s. path = trim_end_matches SLASH s \<or> prefix (trim_end_matches SLASH s @ [SLASH]) path) scope"

definition CARGO_ROOT_INPUTS :: "string list" where
  "CARGO_ROOT_INPUTS = [''Cargo.toml'', ''Cargo.lock'', ''rust-toolchain.toml'', ''.cargo'']"

text \<open>The inputs a Cargo test of \<open>package\<close> is known to read.\<close>

definition required_inputs :: "claims_lib \<Rightarrow> work_tree \<Rightarrow> string \<Rightarrow> string \<Rightarrow> (ClaimError + string list) option" where
  "required_inputs L T repo_root package =
     (case workspace_packages L T repo_root of
        Inl e \<Rightarrow> Some (Inl e)
      | Inr packages \<Rightarrow>
          (case bt_get packages package of
             None \<Rightarrow> Some (Inl ParamsError)
           | Some member \<Rightarrow>
               (case wt_canonicalize T repo_root of
                  None \<Rightarrow> Some (Inl ClaimIo)
                | Some root \<Rightarrow>
                    (case read_cargo_manifest L T (path_join root ''Cargo.toml'') of
                       Inl e \<Rightarrow> Some (Inl e)
                     | Inr root_manifest \<Rightarrow>
                         cargo_inputs L T root
                           (Option.bind (toml_get root_manifest ''workspace'') (\<lambda>v. toml_get v ''dependencies''))
                           [path_join root member] [] CARGO_ROOT_INPUTS))))"

definition validate_cargo_scope :: "claims_lib \<Rightarrow> work_tree \<Rightarrow> string \<Rightarrow> Claim \<Rightarrow> ClaimError option option" where
  "validate_cargo_scope L T repo_root claim =
     (case claim_verifier claim of
        Inl e \<Rightarrow> Some (Some e)
      | Inr d \<Rightarrow>
          if vd_kind d \<noteq> CargoTest then Some None
          else (case vp_package (cl_params claim) of
            None \<Rightarrow> Some (Some ParamsError)
          | Some package \<Rightarrow>
              map_option (\<lambda>r. case r of
                  Inl e \<Rightarrow> Some e
                | Inr required \<Rightarrow>
                    if list_all (scope_covers (cl_scope claim)) required then None else Some ManifestError)
                (required_inputs L T repo_root package)))"

section \<open>The registry\<close>

record Registry = reg_claims :: "Claim list"

definition leaves_repository :: "string \<Rightarrow> bool" where
  "leaves_repository path \<longleftrightarrow>
     path = [] \<or> hd path = SLASH \<or> BACKSLASH \<in> set path \<or> CHR '':'' \<in> set path \<or>
     list_ex (\<lambda>seg. seg = ''..'' \<or> seg = ''.'' \<or> seg = [])
       (split_on (\<lambda>c. c = SLASH) (trim_end_matches SLASH path))"

definition covers_evidence_store :: "string \<Rightarrow> bool" where
  "covers_evidence_store path \<longleftrightarrow>
     trim_end_matches SLASH path = ''claims'' \<or> prefix ''claims/evidence'' (trim_end_matches SLASH path)"

text \<open>The checks of one turn of the loop of \<open>load\<close>, after the duplicate check.\<close>

definition validate_claim ::
    "claims_lib \<Rightarrow> work_tree \<Rightarrow> string \<Rightarrow> (string, string) btree \<Rightarrow> Claim \<Rightarrow> ClaimError option option" where
  "validate_claim L T root packages claim =
     (if cl_scope claim = [] then Some (Some ManifestError)
      else if list_ex leaves_repository (cl_scope claim) then Some (Some ManifestError)
      else if list_ex covers_evidence_store (cl_scope claim) then Some (Some ManifestError)
      else (case claim_verifier claim of
        Inl e \<Rightarrow> Some (Some e)
      | Inr d \<Rightarrow>
          (case validate_params (cl_params claim) d packages of
             Some e \<Rightarrow> Some (Some e)
           | None \<Rightarrow> validate_cargo_scope L T root claim)))"

fun validate_claims ::
    "claims_lib \<Rightarrow> work_tree \<Rightarrow> string \<Rightarrow> (string, string) btree \<Rightarrow> string list \<Rightarrow> Claim list \<Rightarrow>
     ClaimError option option" where
  "validate_claims L T root packages seen [] = Some None"
| "validate_claims L T root packages seen (claim # claims) =
     (case validate_claim_id (cl_claim_id claim) of
        Some e \<Rightarrow> Some (Some e)
      | None \<Rightarrow>
          if cl_claim_id claim \<in> set seen then Some (Some ManifestError)
          else (case validate_claim L T root packages claim of
            None \<Rightarrow> None
          | Some (Some e) \<Rightarrow> Some (Some e)
          | Some None \<Rightarrow> validate_claims L T root packages (cl_claim_id claim # seen) claims))"

fun load_manifests :: "claims_lib \<Rightarrow> work_tree \<Rightarrow> string list \<Rightarrow> ClaimError + Claim list" where
  "load_manifests L T [] = Inr []"
| "load_manifests L T (path # paths) =
     (case wt_read T path of
        None \<Rightarrow> Inl ClaimIo
      | Some t \<Rightarrow>
          (case lb_manifest L t of
             None \<Rightarrow> Inl ManifestError
           | Some cs \<Rightarrow>
               (case load_manifests L T paths of Inl e \<Rightarrow> Inl e | Inr cs' \<Rightarrow> Inr (cs @ cs'))))"

text \<open>The manifest files: the readable entries of \<open>claims\<close> with the extension \<open>toml\<close>, sorted.\<close>

definition manifest_paths :: "work_tree \<Rightarrow> string \<Rightarrow> string list option" where
  "manifest_paths T root =
     map_option
       (\<lambda>names. sort (map (path_join (path_join root ''claims''))
          (filter (\<lambda>n. path_extension n = Some ''toml'') (List.map_filter id names))))
       (wt_read_dir T (path_join root ''claims''))"

definition Registry_load :: "claims_lib \<Rightarrow> work_tree \<Rightarrow> string \<Rightarrow> (ClaimError + Registry) option" where
  "Registry_load L T root =
     (case workspace_packages L T root of
        Inl e \<Rightarrow> Some (Inl e)
      | Inr packages \<Rightarrow>
          (case manifest_paths T root of
             None \<Rightarrow> Some (Inl ClaimIo)
           | Some paths \<Rightarrow>
               (case load_manifests L T paths of
                  Inl e \<Rightarrow> Some (Inl e)
                | Inr claims \<Rightarrow>
                    map_option (\<lambda>r. case r of
                        Some e \<Rightarrow> Inl e
                      | None \<Rightarrow> Inr \<lparr>reg_claims = sort_key cl_claim_id claims\<rparr>)
                      (validate_claims L T root packages [] claims))))"

definition Registry_get :: "Registry \<Rightarrow> string \<Rightarrow> Claim option" where
  "Registry_get r claim_id = find (\<lambda>c. cl_claim_id c = claim_id) (reg_claims r)"

text \<open>The committed manifests are read in the order of the tree; the first claim of that id counts.\<close>

fun claim_in_entries :: "claims_lib \<Rightarrow> git_view \<Rightarrow> string \<Rightarrow> ScopeEntry list \<Rightarrow> ClaimError + Claim" where
  "claim_in_entries L g i [] = Inl ManifestError"
| "claim_in_entries L g i (entry # entries) =
     (if \<not> suffix ''.toml'' (se_path entry) \<or> count_list (se_path entry) SLASH \<noteq> 1
      then claim_in_entries L g i entries
      else (case read_text g entry of
        Inl e \<Rightarrow> Inl e
      | Inr t \<Rightarrow>
          (case lb_manifest L t of
             None \<Rightarrow> Inl ManifestError
           | Some cs \<Rightarrow>
               (case find (\<lambda>c. cl_claim_id c = i) cs of
                  Some c \<Rightarrow> Inr c
                | None \<Rightarrow> claim_in_entries L g i entries))))"

definition claim_at_commit :: "claims_lib \<Rightarrow> git_view \<Rightarrow> string \<Rightarrow> string \<Rightarrow> ClaimError + Claim" where
  "claim_at_commit L g i commit =
     (case resolve_at g [''claims''] commit of
        Inl e \<Rightarrow> Inl e | Inr entries \<Rightarrow> claim_in_entries L g i entries)"


section \<open>The walk over path dependencies\<close>

text \<open>Every step only adds to the end of the pending directories, and what it adds does not depend on them.\<close>

fun after :: "'a list \<Rightarrow> 'e + 'a list \<Rightarrow> 'e + 'a list" where
  "after xs (Inl e) = Inl e"
| "after xs (Inr ys) = Inr (xs @ ys)"

lemma after_append: "after (xs @ ys) r = after xs (after ys r)"
  by (cases r) auto

lemma after_Inr: "after xs r = Inr zs \<Longrightarrow> \<exists>ys. r = Inr ys \<and> zs = xs @ ys"
  by (cases r) auto

text \<open>A fold of steps that only add is itself a step that only adds.\<close>

lemma after_bind:
  assumes "\<And>pending. f pending = after pending (f [])" "\<And>pending. g pending = after pending (g [])"
  shows "(case f pending of Inl e \<Rightarrow> Inl e | Inr pending' \<Rightarrow> g pending') =
    after pending (case f [] of Inl e \<Rightarrow> Inl e | Inr pending' \<Rightarrow> g pending')"
proof (cases "f []")
  case (Inl e)
  then show ?thesis by (simp add: assms(1) [of pending])
next
  case (Inr ps)
  have "g (pending @ ps) = after pending (g ps)"
    by (simp add: assms(2) [of "pending @ ps"] assms(2) [of ps] after_append)
  then show ?thesis by (simp add: assms(1) [of pending] Inr)
qed

lemma push_path_append: "push_path base v pending = pending @ push_path base v []"
  by (simp add: push_path_def split: option.split)

lemma collect_dependencies_append:
  "collect_dependencies d root inh ds pending = after pending (collect_dependencies d root inh ds [])"
proof (induction ds arbitrary: pending)
  case (Cons nd ds)
  obtain name declared where nd: "nd = (name, declared)" by (cases nd)
  have *: "collect_dependencies d root inh ds (push_path base v pending) =
      after pending (collect_dependencies d root inh ds (push_path base v []))" for base v
    by (subst (1 2) Cons.IH, subst push_path_append) (simp add: after_append)
  show ?case by (simp add: nd * split: option.split)
qed simp

lemma collect_sections_append:
  "collect_sections ss m d root inh pending = after pending (collect_sections ss m d root inh [])"
proof (induction ss arbitrary: pending)
  case (Cons s ss)
  show ?case
  proof (cases "Option.bind (toml_get m s) toml_as_table")
    case None
    show ?thesis by (simp add: None) (rule Cons.IH)
  next
    case (Some ds)
    show ?thesis
      by (simp add: Some) (intro after_bind collect_dependencies_append Cons.IH)
  qed
qed simp

lemma collect_path_dependencies_append:
  "collect_path_dependencies m d root inh pending = after pending (collect_path_dependencies m d root inh [])"
  unfolding collect_path_dependencies_def by (rule collect_sections_append)

lemma collect_targets_append:
  "collect_targets ts d root inh pending = after pending (collect_targets ts d root inh [])"
proof (induction ts arbitrary: pending)
  case (Cons nt ts)
  obtain n t where nt: "nt = (n, t)" by (cases nt)
  show ?case
    by (simp add: nt) (intro after_bind collect_path_dependencies_append Cons.IH)
qed simp

lemma package_dependencies_append:
  "package_dependencies m d root inh pending = after pending (package_dependencies m d root inh [])"
  unfolding package_dependencies_def
proof (intro after_bind collect_path_dependencies_append)
  fix pending
  show "(case Option.bind (toml_get m ''target'') toml_as_table of None \<Rightarrow> Inr pending
      | Some targets \<Rightarrow> collect_targets targets d root inh pending) =
    after pending (case Option.bind (toml_get m ''target'') toml_as_table of None \<Rightarrow> Inr []
      | Some targets \<Rightarrow> collect_targets targets d root inh [])"
    using collect_targets_append [of _ d root inh pending] by (simp split: option.split)
qed

lemma package_dependencies_grow:
  assumes "package_dependencies m d root inh pending = Inr pending'"
  shows "\<exists>ps. package_dependencies m d root inh [] = Inr ps \<and> pending' = pending @ ps"
  using assms by (subst (asm) package_dependencies_append) (rule after_Inr)

text \<open>The walk ends wherever the file system has finitely many directories.\<close>

lemma cargo_inputs_ends:
  assumes "finite {d. \<exists>p. wt_canonicalize T p = Some d}"
  shows "\<exists>r. cargo_inputs L T root inh pending visited required = Some r"
proof -
  let ?D = "{d. \<exists>p. wt_canonicalize T p = Some d}"
  let ?rel = "(\<lambda>(visited, pending). card (?D - set visited)) <*mlex*> measure (\<lambda>(visited, pending). length pending)"
  have "wf ?rel" by (intro wf_mlex wf_measure)
  then show ?thesis
  proof (induction "(visited, pending)" arbitrary: visited pending required rule: wf_induct_rule)
    case less
    show ?case
    proof (cases "pending = []")
      case True
      then show ?thesis by (simp add: cargo_inputs.simps)
    next
      case False
      show ?thesis
      proof (cases "wt_canonicalize T (last pending)")
        case None
        then show ?thesis using False by (simp add: cargo_inputs.simps)
      next
        case (Some d)
        show ?thesis
        proof (cases "d \<in> set visited")
          case True
          have "((visited, butlast pending), (visited, pending)) \<in> ?rel"
            using False by (simp add: mlex_prod_def)
          from less.hyps [OF this] show ?thesis
            by (subst cargo_inputs.simps) (simp add: False Some True)
        next
          case unseen: False
          have "card (?D - set (d # visited)) < card (?D - set visited)"
            using assms Some unseen by (intro psubset_card_mono) auto
          then have "((d # visited, pending'), (visited, pending)) \<in> ?rel" for pending' :: "string list"
            by (simp add: mlex_prod_def)
          then have "\<exists>r. cargo_inputs L T root inh pending' (d # visited) required' = Some r"
            for pending' required'
            using less.hyps by blast
          then show ?thesis
            by (subst cargo_inputs.simps) (simp add: False Some unseen split: option.split sum.split)
        qed
      qed
    qed
  qed
qed


text \<open>The directories a build of one package reads through path dependencies, as a relation: what the
  walk has to find.\<close>

inductive cargo_reach :: "claims_lib \<Rightarrow> work_tree \<Rightarrow> string \<Rightarrow> toml option \<Rightarrow> string \<Rightarrow> string \<Rightarrow> bool"
  for L T root inh start where
  reach_start: "wt_canonicalize T start = Some d \<Longrightarrow> cargo_reach L T root inh start d"
| reach_dependency:
    "\<lbrakk>cargo_reach L T root inh start d; read_cargo_manifest L T (path_join d ''Cargo.toml'') = Inr m;
      package_dependencies m d root inh [] = Inr ps; p \<in> set ps; wt_canonicalize T p = Some d'\<rbrakk>
     \<Longrightarrow> cargo_reach L T root inh start d'"

text \<open>A directory whose dependencies all lie in \<open>V\<close>.\<close>

definition deps_within :: "claims_lib \<Rightarrow> work_tree \<Rightarrow> string \<Rightarrow> toml option \<Rightarrow> string set \<Rightarrow> string \<Rightarrow> bool" where
  "deps_within L T root inh V d \<longleftrightarrow>
     (\<exists>m ps. read_cargo_manifest L T (path_join d ''Cargo.toml'') = Inr m \<and>
        package_dependencies m d root inh [] = Inr ps \<and> (\<forall>p\<in>set ps. \<exists>d'\<in>V. wt_canonicalize T p = Some d'))"

definition names_directory :: "string \<Rightarrow> string set \<Rightarrow> string \<Rightarrow> bool" where
  "names_directory root out d \<longleftrightarrow> (\<exists>rel. path_strip_prefix root d = Some rel \<and> slashed rel \<in> out)"

text \<open>What a finished walk from some point establishes: it found a set of directories closed under path
  dependencies, and named each of them that was not visited before.\<close>

definition walk_ok ::
    "claims_lib \<Rightarrow> work_tree \<Rightarrow> string \<Rightarrow> toml option \<Rightarrow> string list \<Rightarrow> string list \<Rightarrow> string list \<Rightarrow> string list \<Rightarrow> bool" where
  "walk_ok L T root inh pending visited required out \<longleftrightarrow>
     set required \<subseteq> set out \<and>
     (\<exists>V. set visited \<subseteq> V \<and> (\<forall>p\<in>set pending. \<exists>d\<in>V. wt_canonicalize T p = Some d) \<and>
        (\<forall>d\<in>V - set visited. deps_within L T root inh V d \<and> names_directory root (set out) d))"

lemma walk_ok_skip:
  assumes "walk_ok L T root inh (butlast pending) visited required out" "pending \<noteq> []"
    "wt_canonicalize T (last pending) = Some d" "d \<in> set visited"
  shows "walk_ok L T root inh pending visited required out"
proof -
  have "set pending = insert (last pending) (set (butlast pending))"
    using append_butlast_last_id [OF assms(2)] by (metis list.simps(15) rotate1.simps(2) set_rotate1)
  with assms(3,4) have "(\<forall>p\<in>set pending. \<exists>d\<in>V. wt_canonicalize T p = Some d) \<longleftrightarrow>
      (\<forall>p\<in>set (butlast pending). \<exists>d\<in>V. wt_canonicalize T p = Some d)" if "set visited \<subseteq> V" for V
    using that by auto
  with assms(1) show ?thesis unfolding walk_ok_def by blast
qed

lemma walk_ok_enter:
  assumes ok: "walk_ok L T root inh (butlast pending @ ps) (d # visited) (List.insert (slashed rel) required) out"
    and step: "pending \<noteq> []" "wt_canonicalize T (last pending) = Some d" "path_strip_prefix root d = Some rel"
      "read_cargo_manifest L T (path_join d ''Cargo.toml'') = Inr m" "package_dependencies m d root inh [] = Inr ps"
  shows "walk_ok L T root inh pending visited required out"
proof -
  have pending: "set pending = insert (last pending) (set (butlast pending))"
    using append_butlast_last_id [OF step(1)] by (metis list.simps(15) rotate1.simps(2) set_rotate1)
  from ok obtain V where V: "set (d # visited) \<subseteq> V"
      "\<forall>p\<in>set (butlast pending @ ps). \<exists>d\<in>V. wt_canonicalize T p = Some d"
      "\<forall>e\<in>V - set (d # visited). deps_within L T root inh V e \<and> names_directory root (set out) e"
    and out: "slashed rel \<in> set out" "set required \<subseteq> set out"
    unfolding walk_ok_def by auto
  have "deps_within L T root inh V d" using V(2) step(4,5) unfolding deps_within_def by auto
  moreover have "names_directory root (set out) d" using step(3) out unfolding names_directory_def by auto
  ultimately have "\<forall>e\<in>V - set visited. deps_within L T root inh V e \<and> names_directory root (set out) e"
    using V(3) by auto
  moreover have "\<forall>p\<in>set pending. \<exists>d\<in>V. wt_canonicalize T p = Some d"
    using V(1,2) step(2) pending by auto
  ultimately show ?thesis using V(1) out unfolding walk_ok_def by auto
qed

lemma cargo_inputs_walk_ok:
  assumes "cargo_inputs L T root inh pending visited required = Some (Inr out)"
  shows "walk_ok L T root inh pending visited required out"
proof -
  have "case r of Inl e \<Rightarrow> True | Inr out \<Rightarrow> walk_ok L T root inh pending visited required out"
    if "cargo_inputs L T root inh pending visited required = Some r" for r
  proof (rule cargo_inputs.raw_induct [OF _ that], goal_cases)
    case (1 cargo_inputs L T root inh pending visited required r)
    note IH = 1(1) and run = 1(2)
    show ?case
    proof (cases r)
      case (Inr out)
      show ?thesis
      proof (cases "pending = []")
        case True
        with run Inr show ?thesis by (auto simp: walk_ok_def)
      next
        case False
        with run Inr obtain d where d: "wt_canonicalize T (last pending) = Some d"
          by (auto split: option.splits)
        show ?thesis
        proof (cases "d \<in> set visited")
          case True
          with run d False have "cargo_inputs L T root inh (butlast pending) visited required = Some r" by simp
          from IH [OF this] Inr True d False show ?thesis by (auto intro: walk_ok_skip)
        next
          case unseen: False
          with run d False Inr obtain rel m pending' where step: "path_strip_prefix root d = Some rel"
              "read_cargo_manifest L T (path_join d ''Cargo.toml'') = Inr m"
              "package_dependencies m d root inh (butlast pending) = Inr pending'"
            and rest: "cargo_inputs L T root inh pending' (d # visited) (List.insert (slashed rel) required) = Some r"
            by (auto split: option.splits sum.splits)
          from package_dependencies_grow [OF step(3)] obtain ps
            where ps: "package_dependencies m d root inh [] = Inr ps" "pending' = butlast pending @ ps" by blast
          from IH [OF rest] Inr ps(2)
          have "walk_ok L T root inh (butlast pending @ ps) (d # visited) (List.insert (slashed rel) required) out"
            by simp
          from walk_ok_enter [OF this False d step(1,2) ps(1)] Inr show ?thesis by simp
        qed
      qed
    qed simp
  qed
  from this [OF assms] show ?thesis by simp
qed

lemma walk_finds_reachable:
  assumes walk: "cargo_inputs L T root inh [start] [] required = Some (Inr out)"
    and reach: "cargo_reach L T root inh start d"
  shows "names_directory root (set out) d"
proof -
  from cargo_inputs_walk_ok [OF walk] obtain V where V: "\<exists>d\<in>V. wt_canonicalize T start = Some d"
      "\<forall>d\<in>V. deps_within L T root inh V d \<and> names_directory root (set out) d"
    unfolding walk_ok_def by auto
  from reach have "d \<in> V"
  proof (induction rule: cargo_reach.induct)
    case (reach_start d)
    with V(1) show ?case by auto
  next
    case (reach_dependency d m ps p d')
    then have "deps_within L T root inh V d" using V(2) by blast
    with reach_dependency.hyps show ?case unfolding deps_within_def by force
  qed
  with V(2) show ?thesis by blast
qed


section \<open>What a loaded registry guarantees\<close>

lemma validate_claim_ends:
  assumes "finite {d. \<exists>p. wt_canonicalize T p = Some d}"
  shows "\<exists>r. validate_claim L T root packages claim = Some r"
proof -
  have "\<exists>r. required_inputs L T root package = Some r" for package
    using cargo_inputs_ends [OF assms] unfolding required_inputs_def by (auto split: sum.split option.split)
  then have "\<exists>r. validate_cargo_scope L T root claim = Some r"
    unfolding validate_cargo_scope_def by (auto split: sum.split option.split)
  then show ?thesis unfolding validate_claim_def by (auto split: sum.split option.split)
qed

lemma validate_claims_ends:
  assumes "finite {d. \<exists>p. wt_canonicalize T p = Some d}"
  shows "\<exists>r. validate_claims L T root packages seen claims = Some r"
proof (induction claims arbitrary: seen)
  case (Cons c cs)
  with validate_claim_ends [OF assms] show ?case by (auto split: option.split) (metis option.distinct(1))
qed simp

lemma validate_claims_sound:
  "validate_claims L T root packages seen claims = Some None \<Longrightarrow>
   distinct (map cl_claim_id claims) \<and> set seen \<inter> set (map cl_claim_id claims) = {} \<and>
   (\<forall>c\<in>set claims. validate_claim_id (cl_claim_id c) = None \<and> validate_claim L T root packages c = Some None)"
proof (induction claims arbitrary: seen)
  case (Cons c cs)
  then have "validate_claim_id (cl_claim_id c) = None" "cl_claim_id c \<notin> set seen"
      "validate_claim L T root packages c = Some None"
      "validate_claims L T root packages (cl_claim_id c # seen) cs = Some None"
    by (auto split: option.splits if_splits)
  with Cons.IH [of "cl_claim_id c # seen"] show ?case by auto
qed simp

lemma Registry_load_cases:
  assumes "Registry_load L T root = Some (Inr reg)"
  obtains packages paths claims where
    "workspace_packages L T root = Inr packages" "manifest_paths T root = Some paths"
    "load_manifests L T paths = Inr claims" "validate_claims L T root packages [] claims = Some None"
    "reg_claims reg = sort_key cl_claim_id claims"
  using assms unfolding Registry_load_def by (auto split: sum.splits option.splits)

lemma validate_claim_cases:
  assumes "validate_claim L T root packages c = Some None"
  obtains d where "cl_scope c \<noteq> []" "\<forall>p\<in>set (cl_scope c). \<not> leaves_repository p \<and> \<not> covers_evidence_store p"
    "claim_verifier c = Inr d" "validate_params (cl_params c) d packages = None"
    "validate_cargo_scope L T root c = Some None"
  using assms unfolding validate_claim_def
  by (auto simp: list_ex_iff split: if_splits sum.splits option.splits)

lemma validate_cargo_scope_cases:
  assumes "validate_cargo_scope L T root c = Some None" "claim_verifier c = Inr d" "vd_kind d = CargoTest"
  obtains package required where "vp_package (cl_params c) = Some package"
    "required_inputs L T root package = Some (Inr required)" "list_all (scope_covers (cl_scope c)) required"
proof -
  from assms obtain package r where r: "vp_package (cl_params c) = Some package"
      "required_inputs L T root package = Some r"
    by (auto simp: validate_cargo_scope_def split: option.splits)
  with assms show ?thesis
    by (cases r) (auto simp: validate_cargo_scope_def split: if_splits intro: that)
qed

lemma split_before:
  assumes "xs @ ys = ns @ c # rs" "c \<notin> set ys"
  shows "ns = take (length ns) xs \<and> length ns < length xs \<and> xs ! length ns = c"
  using assms by (auto simp: append_eq_append_conv2 append_eq_Cons_conv)

lemma path_under_store:
  assumes "scope_covers [p] (''claims/evidence/'' @ file)" "SLASH \<notin> set file"
  shows "covers_evidence_store p"
proof -
  define n where "n = trim_end_matches SLASH p"
  from assms(1) consider "''claims/evidence/'' @ file = n" | r where "''claims/evidence/'' @ file = n @ SLASH # r"
    by (auto simp: scope_covers_def n_def prefix_def)
  then show ?thesis
  proof cases
    case 1
    then have "prefix ''claims/evidence'' n" by (auto intro!: prefixI simp flip: 1)
    then show ?thesis by (simp add: covers_evidence_store_def n_def)
  next
    case 2
    note * = split_before [OF 2 assms(2)]
    then have "length n \<in> {6, 15}"
      by (auto simp: less_Suc_eq numeral_eq_Suc)
    with * have "n = ''claims'' \<or> n = ''claims/evidence''" by auto
    then show ?thesis by (auto simp: covers_evidence_store_def n_def [symmetric])
  qed
qed


definition evidence_path :: "string \<Rightarrow> string" where
  "evidence_path claim_id = ''claims/evidence/'' @ claim_id @ ''.json''"

lemma evidence_path_uncovered:
  assumes "validate_claim_id i = None" "\<forall>p\<in>set scope. \<not> covers_evidence_store p"
  shows "\<not> scope_covers scope (evidence_path i)"
proof
  assume "scope_covers scope (evidence_path i)"
  then obtain p where p: "p \<in> set scope" "scope_covers [p] (evidence_path i)"
    by (auto simp: scope_covers_def list_ex_iff)
  have "SLASH \<notin> set i" using assms(1)
    by (auto simp: validate_claim_id_def list_all_iff is_ascii_alphanumeric_def split: if_splits)
  then have "SLASH \<notin> set (i @ ''.json'')" by simp
  with p assms(2) path_under_store [of p "i @ ''.json''"] show False unfolding evidence_path_def by blast
qed

lemma lookup_verifier_in: "claim_verifier c = Inr d \<Longrightarrow> d \<in> set VERIFIERS \<and> vd_id d = cl_verifier_id c"
  by (auto simp: claim_verifier_def lookup_verifier_def find_Some_iff split: option.splits)

lemma find_key_distinct: "distinct (map f xs) \<Longrightarrow> x \<in> set xs \<Longrightarrow> find (\<lambda>y. f y = f x) xs = Some x"
  by (induction xs) auto

text \<open>A registry that loads holds every claim of every manifest file, ordered by identifier with no
  identifier twice, so that each is found under its own; every claim names an allowlisted verifier whose
  parameters it fits, and no scope of one covers the file in which any claim's evidence is recorded:
  recording evidence never invalidates it.\<close>

theorem loaded_registry_is_valid:
  assumes "Registry_load L T root = Some (Inr reg)"
  shows "sorted_wrt (<) (map cl_claim_id (reg_claims reg)) \<and>
    (\<exists>paths claims. manifest_paths T root = Some paths \<and> load_manifests L T paths = Inr claims \<and>
       mset (reg_claims reg) = mset claims) \<and>
    (\<forall>c\<in>set (reg_claims reg).
       Registry_get reg (cl_claim_id c) = Some c \<and>
       (\<exists>packages. workspace_packages L T root = Inr packages \<and>
          (\<exists>d\<in>set VERIFIERS. vd_id d = cl_verifier_id c \<and> validate_params (cl_params c) d packages = None)) \<and>
       cl_scope c \<noteq> [] \<and> (\<forall>p\<in>set (cl_scope c). \<not> leaves_repository p) \<and>
       (\<forall>c'\<in>set (reg_claims reg). \<not> scope_covers (cl_scope c) (evidence_path (cl_claim_id c'))))"
proof -
  from assms obtain packages paths claims where load:
    "workspace_packages L T root = Inr packages" "manifest_paths T root = Some paths"
    "load_manifests L T paths = Inr claims" "validate_claims L T root packages [] claims = Some None"
    "reg_claims reg = sort_key cl_claim_id claims"
    by (rule Registry_load_cases)
  note valid = validate_claims_sound [OF load(4)]
  have dist: "distinct (map cl_claim_id (reg_claims reg))"
    using valid by (simp add: load(5) distinct_map)
  then have sorted: "sorted_wrt (<) (map cl_claim_id (reg_claims reg))"
    by (simp add: load(5) strict_sorted_iff)
  have "Registry_get reg (cl_claim_id c) = Some c \<and>
       (\<exists>packages. workspace_packages L T root = Inr packages \<and>
          (\<exists>d\<in>set VERIFIERS. vd_id d = cl_verifier_id c \<and> validate_params (cl_params c) d packages = None)) \<and>
       cl_scope c \<noteq> [] \<and> (\<forall>p\<in>set (cl_scope c). \<not> leaves_repository p) \<and>
       (\<forall>c'\<in>set (reg_claims reg). \<not> scope_covers (cl_scope c) (evidence_path (cl_claim_id c')))"
    if c: "c \<in> set (reg_claims reg)" for c
  proof -
    from c valid have "validate_claim L T root packages c = Some None" by (simp add: load(5))
    then obtain d where d: "cl_scope c \<noteq> []"
        "\<forall>p\<in>set (cl_scope c). \<not> leaves_repository p \<and> \<not> covers_evidence_store p"
        "claim_verifier c = Inr d" "validate_params (cl_params c) d packages = None"
      by (rule validate_claim_cases)
    have "\<not> scope_covers (cl_scope c) (evidence_path (cl_claim_id c'))" if "c' \<in> set (reg_claims reg)" for c'
      using valid that d(2) by (intro evidence_path_uncovered) (auto simp: load(5))
    with d lookup_verifier_in [OF d(3)] load(1) find_key_distinct [OF dist c]
    show ?thesis by (auto simp: Registry_get_def)
  qed
  with sorted load(2,3,5) show ?thesis by (metis mset_sort)
qed

text \<open>C34. Loading the registry always ends, whatever cycles the path dependencies of the packages form, as
  long as the file system has finitely many directories.\<close>

theorem registry_load_ends:
  assumes "finite {d. \<exists>p. wt_canonicalize T p = Some d}"
  shows "\<exists>r. Registry_load L T root = Some r"
  using validate_claims_ends [OF assms] unfolding Registry_load_def
  by (auto split: sum.split option.split)

text \<open>A claim verified by a Cargo test is accepted only with a scope that covers the workspace files
  and every directory the package reaches through path dependencies, in any number of steps, direct or
  inherited from the workspace; all of them lie inside the repository.\<close>

theorem cargo_claim_covers_dependencies:
  assumes "Registry_load L T repo_root = Some (Inr reg)" "c \<in> set (reg_claims reg)"
    "claim_verifier c = Inr d" "vd_kind d = CargoTest"
  shows "\<exists>package packages member root manifest.
    vp_package (cl_params c) = Some package \<and> workspace_packages L T repo_root = Inr packages \<and>
    bt_get packages package = Some member \<and> wt_canonicalize T repo_root = Some root \<and>
    read_cargo_manifest L T (path_join root ''Cargo.toml'') = Inr manifest \<and>
    list_all (scope_covers (cl_scope c)) CARGO_ROOT_INPUTS \<and>
    (\<forall>dir. cargo_reach L T root
         (Option.bind (toml_get manifest ''workspace'') (\<lambda>v. toml_get v ''dependencies''))
         (path_join root member) dir \<longrightarrow>
       (\<exists>rel. path_strip_prefix root dir = Some rel \<and> scope_covers (cl_scope c) (slashed rel)))"
proof -
  from assms(1) obtain packages claims where "reg_claims reg = sort_key cl_claim_id claims"
      "validate_claims L T repo_root packages [] claims = Some None"
    by (rule Registry_load_cases)
  with assms(2) have "validate_claim L T repo_root packages c = Some None"
    using validate_claims_sound by fastforce
  then have "validate_cargo_scope L T repo_root c = Some None" by (rule validate_claim_cases)
  then obtain package required where req: "vp_package (cl_params c) = Some package"
      "required_inputs L T repo_root package = Some (Inr required)"
      "list_all (scope_covers (cl_scope c)) required"
    using assms(3,4) by (rule validate_cargo_scope_cases)
  then obtain packages member root manifest where w: "workspace_packages L T repo_root = Inr packages"
      "bt_get packages package = Some member" "wt_canonicalize T repo_root = Some root"
      "read_cargo_manifest L T (path_join root ''Cargo.toml'') = Inr manifest"
      "cargo_inputs L T root (Option.bind (toml_get manifest ''workspace'') (\<lambda>v. toml_get v ''dependencies''))
         [path_join root member] [] CARGO_ROOT_INPUTS = Some (Inr required)" (is "cargo_inputs _ _ _ ?inh _ _ _ = _")
    unfolding required_inputs_def by (auto split: option.splits sum.splits)
  have "set CARGO_ROOT_INPUTS \<subseteq> set required"
    using cargo_inputs_walk_ok [OF w(5)] by (simp add: walk_ok_def)
  moreover have "\<exists>rel. path_strip_prefix root dir = Some rel \<and> slashed rel \<in> set required"
    if "cargo_reach L T root ?inh (path_join root member) dir" for dir
    using walk_finds_reachable [OF w(5) that] by (simp add: names_directory_def)
  ultimately show ?thesis using req w(1-4) by (auto simp: list_all_iff) blast
qed


section \<open>A small repository\<close>

text \<open>Two packages that depend on each other, one through the workspace, and a manifest file with two
  claims. The codecs are tables of the texts that occur.\<close>

definition demo_toml :: "string \<Rightarrow> toml option" where
  "demo_toml = map_of
     [(''root'', TTable [(''workspace'', TTable
         [(''members'', TArray [TString ''a'', TString ''b'']),
          (''dependencies'', TTable [(''pb'', TTable [(''path'', TString ''b'')])])])]),
      (''a'', TTable [(''package'', TTable [(''name'', TString ''pa'')]),
         (''dependencies'', TTable [(''pb'', TTable [(''workspace'', TBool True)])])]),
      (''b'', TTable [(''package'', TTable [(''name'', TString ''pb'')]),
         (''dev-dependencies'', TTable [(''pa'', TTable [(''path'', TString ''../a'')])])])]"

definition demo_cargo_claim :: Claim where
  "demo_cargo_claim =
     \<lparr>cl_claim_id = ''suite'', cl_subject = ''pa'', cl_claim = ''passes'', cl_required_state = RequireVerified,
      cl_scope = CARGO_ROOT_INPUTS @ [''a/'', ''b''], cl_verifier_id = ''cargo-test'',
      cl_params = \<lparr>vp_symbols = [], vp_patterns = [], vp_package = Some ''pa''\<rparr>,
      cl_compatibility = [], cl_max_age_days = Some 30, cl_retired = False\<rparr>"

definition demo_text_claim :: Claim where
  "demo_text_claim =
     \<lparr>cl_claim_id = ''names'', cl_subject = ''docs'', cl_claim = ''no old names'', cl_required_state = RequireVerified,
      cl_scope = [''docs''], cl_verifier_id = ''text-absent'',
      cl_params = \<lparr>vp_symbols = [], vp_patterns = [''old''], vp_package = None\<rparr>,
      cl_compatibility = [], cl_max_age_days = None, cl_retired = False\<rparr>"

definition demo_claim_bytes :: "Claim \<Rightarrow> string" where
  "demo_claim_bytes c = cl_claim_id c"

definition demo_lib :: claims_lib where
  "demo_lib =
     \<lparr>lb_toml = demo_toml,
      lb_manifest = map_of [(''claims'', [demo_cargo_claim, demo_text_claim])],
      lb_claim_bytes = demo_claim_bytes, lb_sha256 = id,
      lb_record_to_text = er_commit, lb_record_of_text = (\<lambda>t. None), lb_os = ''linux'', lb_arch = ''x86_64''\<rparr>"

definition demo_tree :: work_tree where
  "demo_tree =
     \<lparr>wt_read = map_of [(''/r/Cargo.toml'', ''root''), (''/r/a/Cargo.toml'', ''a''), (''/r/b/Cargo.toml'', ''b''),
        (''/r/claims/c.toml'', ''claims'')],
      wt_read_dir = map_of [(''/r/claims'', [Some ''c.toml'', Some ''evidence'', None])],
      wt_canonicalize = map_of [(''/r'', ''/r''), (''/r/a'', ''/r/a''), (''/r/b'', ''/r/b''), (''/r/b/../a'', ''/r/a'')]\<rparr>"

lemma demo_registry:
  "Registry_load demo_lib demo_tree ''/r'' = Some (Inr \<lparr>reg_claims = [demo_text_claim, demo_cargo_claim]\<rparr>)"
  by code_simp

lemma demo_cargo_verifier:
  "claim_verifier demo_cargo_claim = Inr \<lparr>vd_id = ''cargo-test'', vd_version = ''3'', vd_kind = CargoTest\<rparr>"
  by code_simp

lemma demo_tree_finite: "finite {d. \<exists>p. wt_canonicalize demo_tree p = Some d}"
proof -
  have "{d. \<exists>p. map_of kvs p = Some d} \<subseteq> snd ` set kvs" for kvs :: "(string \<times> string) list"
    by (force dest: map_of_SomeD)
  then have "finite {d. \<exists>p. map_of kvs p = Some d}" for kvs :: "(string \<times> string) list"
    by (rule finite_subset) simp
  then show ?thesis by (simp only: demo_tree_def work_tree.simps)
qed

theorem loaded_registry_is_valid_witness:
  "\<not> scope_covers (cl_scope demo_cargo_claim) (evidence_path ''names'')"
  using loaded_registry_is_valid [OF demo_registry] by (auto simp: demo_text_claim_def)

theorem registry_load_ends_witness: "\<exists>r. Registry_load demo_lib demo_tree ''/r'' = Some r"
  by (rule registry_load_ends [OF demo_tree_finite])

theorem cargo_claim_covers_dependencies_witness:
  "\<exists>package packages member root manifest.
    vp_package (cl_params demo_cargo_claim) = Some package \<and> workspace_packages demo_lib demo_tree ''/r'' = Inr packages \<and>
    bt_get packages package = Some member \<and> wt_canonicalize demo_tree ''/r'' = Some root \<and>
    read_cargo_manifest demo_lib demo_tree (path_join root ''Cargo.toml'') = Inr manifest \<and>
    list_all (scope_covers (cl_scope demo_cargo_claim)) CARGO_ROOT_INPUTS"
  using cargo_claim_covers_dependencies [OF demo_registry _ demo_cargo_verifier] by fastforce

end
