(* ===== verification/Claim_Verify.thy ===== *)
theory Claim_Verify
  imports Claim_Registry Wire
begin

text \<open>
  Running a verifier, recording its result and computing the state of every claim,
  \<open>crates/heiwa_claims/src/lib.rs\<close> and \<open>evidence.rs\<close>.

  The evidence store is a map from paths to directory entries; a link is an entry of its own, so a call
  that does not follow links sees it as one. \<open>claim_env\<close> says which calls the operating system refuses,
  what another process puts at a path between a check and the call it guards, and how much of a refused
  write lands. Opening a file follows links: what it opens is the parameter \<open>opener\<close>, the object's
  identity and bytes. A verifier run may change the repository, so \<open>verify\<close> takes the git view before
  and the one after it.
\<close>

section \<open>The evidence store\<close>

datatype node = Directory | RegularFile nat string | SymbolicLink string | OtherNode

datatype io_op = OpStat string | OpCreateDir string | OpCreateNew string | OpWrite string
  | OpRename string string | OpRemove string

record claim_env =
  en_refuses :: "io_op \<Rightarrow> bool"
  en_race :: "string \<Rightarrow> node option"
  en_torn :: nat
  en_pid :: nat

record claim_fs =
  cf_entries :: "string \<rightharpoonup> node"
  cf_inode :: nat
  cf_next :: nat

type_synonym opened = "bool \<times> nat \<times> string"

definition MAX_DETAIL :: nat where "MAX_DETAIL = 2000"

definition truncate_detail :: "string \<Rightarrow> string" where
  "truncate_detail detail =
     (if length detail > MAX_DETAIL
      then take (boundary_below detail MAX_DETAIL) detail @ [NL, CHR 0xE2, CHR 0x80, CHR 0xA6] @ '' truncated''
      else detail)"

definition path_for :: "string \<Rightarrow> string \<Rightarrow> ClaimError + string" where
  "path_for root claim_id =
     (case validate_claim_id claim_id of
        Some e \<Rightarrow> Inl e
      | None \<Rightarrow> Inr (path_join (path_join (path_join root ''claims'') ''evidence'') (claim_id @ ''.json'')))"

definition evidence_dirs :: "string \<Rightarrow> string \<times> string" where
  "evidence_dirs root = (path_join root ''claims'', path_join (path_join root ''claims'') ''evidence'')"

datatype Presence = Missing | Present

definition inspect_dir :: "claim_env \<Rightarrow> claim_fs \<Rightarrow> string \<Rightarrow> ClaimError + Presence" where
  "inspect_dir E f path =
     (if en_refuses E (OpStat path) then Inl ClaimIo
      else (case cf_entries f path of
        None \<Rightarrow> Inr Missing | Some Directory \<Rightarrow> Inr Present | Some _ \<Rightarrow> Inl ClaimIo))"

text \<open>What a racing process left at \<open>path\<close>.\<close>

definition raced :: "claim_env \<Rightarrow> string \<Rightarrow> claim_fs \<Rightarrow> claim_fs" where
  "raced E path f =
     (case en_race E path of None \<Rightarrow> f | Some n \<Rightarrow> f\<lparr>cf_entries := (cf_entries f)(path \<mapsto> n)\<rparr>)"

definition ensure_dir :: "claim_env \<Rightarrow> string \<Rightarrow> claim_fs \<Rightarrow> ClaimError option \<times> claim_fs" where
  "ensure_dir E path f =
     (case inspect_dir E f path of
        Inl e \<Rightarrow> (Some e, f)
      | Inr Present \<Rightarrow> (None, f)
      | Inr Missing \<Rightarrow>
          let f' = raced E path f in
          if en_refuses E (OpCreateDir path) then (Some ClaimIo, f')
          else (case cf_entries f' path of
            None \<Rightarrow> (None, f'\<lparr>cf_entries := (cf_entries f')(path \<mapsto> Directory)\<rparr>)
          | Some _ \<Rightarrow>
              (case inspect_dir E f' path of
                 Inl e \<Rightarrow> (Some e, f')
               | Inr Present \<Rightarrow> (None, f')
               | Inr Missing \<Rightarrow> (Some ClaimIo, f'))))"

definition inspect_record :: "claim_env \<Rightarrow> claim_fs \<Rightarrow> string \<Rightarrow> ClaimError + nat option" where
  "inspect_record E f path =
     (if en_refuses E (OpStat path) then Inl ClaimIo
      else (case cf_entries f path of
        None \<Rightarrow> Inr None | Some (RegularFile i _) \<Rightarrow> Inr (Some i) | Some _ \<Rightarrow> Inl ClaimIo))"

definition sibling_path :: "claim_env \<Rightarrow> string \<Rightarrow> string \<Rightarrow> nat \<Rightarrow> string" where
  "sibling_path E dir claim_id n =
     path_join dir (''.'' @ claim_id @ ''.'' @ decimal (en_pid E) @ ''.'' @ decimal n @ ''.tmp'')"

text \<open>The loop of \<open>create_sibling\<close>, with the attempts that are left.\<close>

fun create_sibling_loop ::
    "nat \<Rightarrow> claim_env \<Rightarrow> string \<Rightarrow> string \<Rightarrow> claim_fs \<Rightarrow> (ClaimError + string) \<times> claim_fs" where
  "create_sibling_loop 0 E dir claim_id f = (Inl ClaimIo, f)"
| "create_sibling_loop (Suc k) E dir claim_id f =
     (let sibling = sibling_path E dir claim_id (cf_next f); f' = f\<lparr>cf_next := cf_next f + 1\<rparr> in
      if en_refuses E (OpCreateNew sibling) then (Inl ClaimIo, f')
      else (case cf_entries f' sibling of
        Some _ \<Rightarrow> create_sibling_loop k E dir claim_id f'
      | None \<Rightarrow>
          (Inr sibling, f'\<lparr>cf_entries := (cf_entries f')(sibling \<mapsto> RegularFile (cf_inode f') []),
                           cf_inode := cf_inode f' + 1\<rparr>)))"

definition create_sibling :: "claim_env \<Rightarrow> string \<Rightarrow> string \<Rightarrow> claim_fs \<Rightarrow> (ClaimError + string) \<times> claim_fs" where
  "create_sibling = create_sibling_loop 64"

text \<open>The handle writes to the object it created, whatever its name is bound to by then; no other
  process uses the sibling's name.\<close>

definition write_sibling :: "claim_env \<Rightarrow> string \<Rightarrow> string \<Rightarrow> claim_fs \<Rightarrow> bool \<times> claim_fs" where
  "write_sibling E sibling bytes f =
     (let ok = \<not> en_refuses E (OpWrite sibling) in
      (ok, (case cf_entries f sibling of
              Some (RegularFile i _) \<Rightarrow>
                f\<lparr>cf_entries := (cf_entries f)
                   (sibling \<mapsto> RegularFile i (if ok then bytes else take (en_torn E) bytes))\<rparr>
            | _ \<Rightarrow> f)))"

text \<open>\<open>fs::rename\<close>: the entry moves, and a directory is never replaced by a file.\<close>

definition rename_entry :: "claim_env \<Rightarrow> string \<Rightarrow> string \<Rightarrow> claim_fs \<Rightarrow> bool \<times> claim_fs" where
  "rename_entry E src dst f =
     (if en_refuses E (OpRename src dst) \<or> cf_entries f src = None \<or> cf_entries f dst = Some Directory
      then (False, f)
      else (True, f\<lparr>cf_entries := ((cf_entries f)(src := None))(dst := cf_entries f src)\<rparr>))"

definition remove_entry :: "claim_env \<Rightarrow> string \<Rightarrow> claim_fs \<Rightarrow> claim_fs" where
  "remove_entry E path f =
     (if en_refuses E (OpRemove path) then f else f\<lparr>cf_entries := (cf_entries f)(path := None)\<rparr>)"

text \<open>The bytes go to the sibling, which then replaces the record; a failure removes the sibling.\<close>

definition commit_record :: "claim_env \<Rightarrow> string \<Rightarrow> string \<Rightarrow> string \<Rightarrow> claim_fs \<Rightarrow> bool \<times> claim_fs" where
  "commit_record E sibling path bytes f =
     (case write_sibling E sibling bytes f of
        (False, f') \<Rightarrow> (False, remove_entry E sibling f')
      | (True, f') \<Rightarrow>
          (case rename_entry E sibling path (raced E path f') of
             (False, f'') \<Rightarrow> (False, remove_entry E sibling f'')
           | (True, f'') \<Rightarrow> (True, f'')))"

definition store_evidence ::
    "claims_lib \<Rightarrow> claim_env \<Rightarrow> string \<Rightarrow> EvidenceRecord \<Rightarrow> claim_fs \<Rightarrow> (ClaimError + string) \<times> claim_fs" where
  "store_evidence L E root r f =
     (case path_for root (er_claim_id r) of
        Inl e \<Rightarrow> (Inl e, f)
      | Inr path \<Rightarrow>
          (case evidence_dirs root of (claims, dir) \<Rightarrow>
          (case ensure_dir E claims f of
             (Some e, f1) \<Rightarrow> (Inl e, f1)
           | (None, f1) \<Rightarrow>
          (case ensure_dir E dir f1 of
             (Some e, f2) \<Rightarrow> (Inl e, f2)
           | (None, f2) \<Rightarrow>
          (case inspect_record E f2 path of
             Inl e \<Rightarrow> (Inl e, f2)
           | Inr _ \<Rightarrow>
          (case create_sibling E dir (er_claim_id r) f2 of
             (Inl e, f3) \<Rightarrow> (Inl e, f3)
           | (Inr sibling, f3) \<Rightarrow>
          (case commit_record E sibling path (lb_record_to_text L r @ [NL]) f3 of
             (False, f4) \<Rightarrow> (Inl ClaimIo, f4)
           | (True, f4) \<Rightarrow> (Inr path, f4))))))))"

definition same_object :: "nat \<Rightarrow> opened \<Rightarrow> bool" where
  "same_object inspected op = (case op of (is_file, inode, _) \<Rightarrow> is_file \<and> inode = inspected)"

definition load_evidence ::
    "claims_lib \<Rightarrow> claim_env \<Rightarrow> (string \<Rightarrow> opened option) \<Rightarrow> string \<Rightarrow> string \<Rightarrow> claim_fs \<Rightarrow> EvidenceRecord option" where
  "load_evidence L E opener root claim_id f =
     (case path_for root claim_id of
        Inl _ \<Rightarrow> None
      | Inr path \<Rightarrow>
          if inspect_dir E f (fst (evidence_dirs root)) \<noteq> Inr Present then None
          else if inspect_dir E f (snd (evidence_dirs root)) \<noteq> Inr Present then None
          else (case inspect_record E f path of
            Inr (Some inspected) \<Rightarrow>
              (case opener path of
                 None \<Rightarrow> None
               | Some op \<Rightarrow>
                   if \<not> same_object inspected op then None
                   else if \<not> valid_utf8 (snd (snd op)) then None
                   else lb_record_of_text L (snd (snd op)))
          | _ \<Rightarrow> None))"

section \<open>Running a verifier\<close>

record command_output =
  co_success :: bool
  co_stdout :: string
  co_stderr :: string

type_synonym runner = "string \<Rightarrow> string list \<Rightarrow> command_output option"

definition tail_lines :: "string \<Rightarrow> nat \<Rightarrow> string" where
  "tail_lines s n =
     (let ls = filter (\<lambda>l. trim l \<noteq> []) (lines_of s) in join_with [NL] (drop (length ls - n) ls))"

definition last_meaningful_line :: "string \<Rightarrow> string option" where
  "last_meaningful_line s = find (\<lambda>l. l \<noteq> []) (rev (map trim (lines_of s)))"

text \<open>The counters are \<open>u32\<close>; they wrap, as in a release build.\<close>

record cargo_counts =
  cc_passed :: u32
  cc_failed :: u32
  cc_ignored :: u32
  cc_blocks :: u32

definition count_pair :: "cargo_counts \<Rightarrow> string \<times> string \<Rightarrow> cargo_counts" where
  "count_pair c p =
     (case parse_unsigned 32 (fst p) of
        None \<Rightarrow> c
      | Some n \<Rightarrow>
          let word = trim_end_matches (CHR '';'') (snd p) in
          if word = ''passed'' then c\<lparr>cc_passed := cc_passed c + of_nat n\<rparr>
          else if word = ''failed'' then c\<lparr>cc_failed := cc_failed c + of_nat n\<rparr>
          else if word = ''ignored'' then c\<lparr>cc_ignored := cc_ignored c + of_nat n\<rparr>
          else c)"

definition count_line :: "cargo_counts \<Rightarrow> string \<Rightarrow> cargo_counts" where
  "count_line c line =
     (case strip_prefix ''test result:'' (trim line) of
        None \<Rightarrow> c
      | Some rest \<Rightarrow>
          let ws = split_whitespace rest in
          foldl count_pair (c\<lparr>cc_blocks := cc_blocks c + 1\<rparr>) (zip ws (tl ws)))"

definition summarize_cargo_run :: "string \<Rightarrow> string" where
  "summarize_cargo_run detail =
     (let c = foldl count_line \<lparr>cc_passed = 0, cc_failed = 0, cc_ignored = 0, cc_blocks = 0\<rparr> (lines_of detail) in
      if cc_blocks c = 0 then detail
      else decimal (unat (cc_passed c)) @ '' passed, '' @ decimal (unat (cc_failed c)) @ '' failed, '' @
           decimal (unat (cc_ignored c)) @ '' ignored across '' @ decimal (unat (cc_blocks c)) @ '' target(s)'')"

definition labeled_tail :: "string \<Rightarrow> string \<Rightarrow> string" where
  "labeled_tail label stream =
     (let tail = tail_lines stream 20 in
      if tail = [] then [] else ''--- '' @ label @ '' ---'' @ [NL] @ tail @ [NL])"

definition run_command :: "runner \<Rightarrow> string \<Rightarrow> string list \<Rightarrow> ClaimError + VerifyResult \<times> string" where
  "run_command run program args =
     (case run program args of
        None \<Rightarrow> Inl ClaimIo
      | Some out \<Rightarrow>
          let stdout = from_utf8_lossy (co_stdout out); stderr = from_utf8_lossy (co_stderr out) in
          if co_success out then
            Inr (Pass, if trim stdout = [] then unwrap_or (last_meaningful_line stderr) ''ok'' else trim stdout)
          else Inr (Fail, trim_end (labeled_tail ''stderr'' stderr @ labeled_tail ''stdout'' stdout)))"

fun read_scope :: "git_view \<Rightarrow> ScopeEntry list \<Rightarrow> ClaimError + string" where
  "read_scope g [] = Inr []"
| "read_scope g (entry # entries) =
     (case read_text g entry of
        Inl e \<Rightarrow> Inl e
      | Inr t \<Rightarrow> (case read_scope g entries of Inl e \<Rightarrow> Inl e | Inr rest \<Rightarrow> Inr (t @ [NL] @ rest)))"

fun patterns_found :: "git_view \<Rightarrow> string list \<Rightarrow> ScopeEntry list \<Rightarrow> ClaimError + string list" where
  "patterns_found g patterns [] = Inr []"
| "patterns_found g patterns (entry # entries) =
     (case read_text g entry of
        Inl e \<Rightarrow> Inl e
      | Inr t \<Rightarrow>
          (case patterns_found g patterns entries of
             Inl e \<Rightarrow> Inl e
           | Inr found \<Rightarrow>
               Inr (map (\<lambda>p. se_path entry @ '': '' @ p) (filter (contains t) patterns) @ found)))"

definition run_verifier ::
    "git_view \<Rightarrow> runner \<Rightarrow> VerifierDef \<Rightarrow> VerifierParams \<Rightarrow> ScopeEntry list \<Rightarrow> ClaimError + VerifyResult \<times> string" where
  "run_verifier g run d params entries =
     (case vd_kind d of
        SymbolsPresent \<Rightarrow>
          (case read_scope g entries of
             Inl e \<Rightarrow> Inl e
           | Inr haystack \<Rightarrow>
               let missing = filter (\<lambda>s. \<not> contains haystack s) (vp_symbols params) in
               if missing = [] then Inr (Pass, decimal (length (vp_symbols params)) @ '' symbol(s) present'')
               else Inr (Fail, ''missing symbol(s): '' @ join_with '', '' missing))
      | TextAbsent \<Rightarrow>
          (case patterns_found g (vp_patterns params) entries of
             Inl e \<Rightarrow> Inl e
           | Inr found \<Rightarrow>
               if found = [] then
                 Inr (Pass, decimal (length (vp_patterns params)) @ '' pattern(s) absent across '' @
                            decimal (length entries) @ '' file(s)'')
               else Inr (Fail, ''present: '' @ join_with ''; '' found))
      | CargoTest \<Rightarrow>
          (case vp_package params of
             None \<Rightarrow> Inl ParamsError
           | Some package \<Rightarrow>
               (case run_command run ''cargo'' [''test'', ''--locked'', ''-p'', package, ''--quiet''] of
                  Inl e \<Rightarrow> Inl e
                | Inr (Pass, detail) \<Rightarrow> Inr (Pass, summarize_cargo_run detail)
                | Inr (Fail, detail) \<Rightarrow> Inr (Fail, detail)))
      | Script program args \<Rightarrow>
          (case run_command run program args of
             Inl e \<Rightarrow> Inl e
           | Inr (Pass, detail) \<Rightarrow> Inr (Pass, tail_lines detail 3)
           | Inr (Fail, detail) \<Rightarrow> Inr (Fail, detail)))"

section \<open>Verifying a claim\<close>

text \<open>\<open>record.get(3..)\<close> is none where byte 3 is no character boundary.\<close>

definition dirty_scope_paths :: "git_view \<Rightarrow> string list \<Rightarrow> bool \<Rightarrow> ClaimError + string list" where
  "dirty_scope_paths g scope exempt_evidence =
     (case gv_status g scope of
        None \<Rightarrow> Inl ClaimIo
      | Some out \<Rightarrow>
          Inr (filter
            (\<lambda>record. record \<noteq> [] \<and>
               (\<not> exempt_evidence \<or>
                \<not> (is_char_boundary record 3 \<and> prefix ''claims/evidence/'' (drop 3 record))))
            (split_on (\<lambda>c. c = NUL) (from_utf8_lossy out))))"

definition require_clean :: "git_view \<Rightarrow> string list \<Rightarrow> bool \<Rightarrow> ClaimError option" where
  "require_clean g inputs execution =
     (case dirty_scope_paths g (if execution then [] else inputs) execution of
        Inl e \<Rightarrow> Some e
      | Inr dirty \<Rightarrow> if dirty = [] then None else Some DirtyScope)"

fun first_irregular :: "ScopeEntry list \<Rightarrow> ClaimError option" where
  "first_irregular [] = None"
| "first_irregular (e # es) = (case require_regular e of Some err \<Rightarrow> Some err | None \<Rightarrow> first_irregular es)"

definition is_execution :: "VerifierKind \<Rightarrow> bool" where
  "is_execution k = (case k of CargoTest \<Rightarrow> True | Script _ _ \<Rightarrow> True | _ \<Rightarrow> False)"

text \<open>What \<open>verify\<close> settles before it runs anything: the verifier, the commit, the entries in scope and
  the inputs that must stay clean.\<close>

record verify_plan =
  pl_verifier :: VerifierDef
  pl_head :: string
  pl_entries :: "ScopeEntry list"
  pl_inputs :: "string list"

definition plan_at_head ::
    "claims_lib \<Rightarrow> git_view \<Rightarrow> VerifierDef \<Rightarrow> Claim \<Rightarrow> string \<Rightarrow> ClaimError + verify_plan" where
  "plan_at_head L g d claim head =
     (case resolve_at g (cl_scope claim) head of
        Inl e \<Rightarrow> Inl e
      | Inr entries \<Rightarrow>
          (case first_irregular entries of
             Some e \<Rightarrow> Inl e
           | None \<Rightarrow>
               (case resolve_at g [''claims''] head of
                  Inl e \<Rightarrow> Inl e
                | Inr manifests \<Rightarrow>
                    let inputs = cl_scope claim @ map se_path (filter (\<lambda>e. suffix ''.toml'' (se_path e)) manifests) in
                    (case require_clean g inputs (is_execution (vd_kind d)) of
                       Some e \<Rightarrow> Inl e
                     | None \<Rightarrow> Inr \<lparr>pl_verifier = d, pl_head = head, pl_entries = entries, pl_inputs = inputs\<rparr>))))"

definition plan_verification ::
    "claims_lib \<Rightarrow> work_tree \<Rightarrow> git_view \<Rightarrow> string \<Rightarrow> Claim \<Rightarrow> (ClaimError + verify_plan) option" where
  "plan_verification L T g root claim =
     (case validate_claim_id (cl_claim_id claim) of
        Some e \<Rightarrow> Some (Inl e)
      | None \<Rightarrow>
     (case claim_verifier claim of
        Inl e \<Rightarrow> Some (Inl e)
      | Inr d \<Rightarrow>
     (case workspace_packages L T root of
        Inl e \<Rightarrow> Some (Inl e)
      | Inr packages \<Rightarrow>
     (case validate_params (cl_params claim) d packages of
        Some e \<Rightarrow> Some (Inl e)
      | None \<Rightarrow>
     (case head_commit g of
        Inl e \<Rightarrow> Some (Inl e)
      | Inr head \<Rightarrow>
     (case claim_at_commit L g (cl_claim_id claim) head of
        Inl e \<Rightarrow> Some (Inl e)
      | Inr committed \<Rightarrow>
          if committed \<noteq> claim then Some (Inl ManifestError)
          else (case validate_cargo_scope L T root claim of
            None \<Rightarrow> None
          | Some (Some e) \<Rightarrow> Some (Inl e)
          | Some None \<Rightarrow> Some (plan_at_head L g d claim head))))))))"

definition run_plan ::
    "git_view \<Rightarrow> runner \<Rightarrow> Claim \<Rightarrow> verify_plan \<Rightarrow> ClaimError + VerifyResult \<times> string" where
  "run_plan g run claim p =
     (if pl_entries p = [] then Inr (Fail, ''scope contains no tracked files'')
      else run_verifier g run (pl_verifier p) (cl_params claim) (pl_entries p))"

definition evidence_of :: "claims_lib \<Rightarrow> int \<Rightarrow> Claim \<Rightarrow> verify_plan \<Rightarrow> VerifyResult \<Rightarrow> string \<Rightarrow> EvidenceRecord" where
  "evidence_of L now claim p result detail =
     \<lparr>er_claim_id = cl_claim_id claim, er_claim_digest = claim_fingerprint L claim,
      er_verifier_id = vd_id (pl_verifier p), er_verifier_version = vd_version (pl_verifier p),
      er_result = result, er_commit = pl_head p, er_scope_digest = scope_digest L (pl_entries p),
      er_verified_at = now, er_os = lb_os L, er_arch = lb_arch L, er_detail = truncate_detail detail\<rparr>"

text \<open>The run and what follows it: \<open>g\<close> is the repository before the verifier runs, \<open>g'\<close> the one after.\<close>

definition verify_planned ::
    "claims_lib \<Rightarrow> claim_env \<Rightarrow> git_view \<Rightarrow> git_view \<Rightarrow> runner \<Rightarrow> int \<Rightarrow> string \<Rightarrow> Claim \<Rightarrow> verify_plan \<Rightarrow> claim_fs \<Rightarrow>
     (ClaimError + EvidenceRecord) \<times> claim_fs" where
  "verify_planned L E g g' run now root claim p f =
     (case run_plan g run claim p of
        Inl e \<Rightarrow> (Inl e, f)
      | Inr (result, detail) \<Rightarrow>
          (case head_commit g' of
             Inl e \<Rightarrow> (Inl e, f)
           | Inr head' \<Rightarrow>
               if head' \<noteq> pl_head p then (Inl ChangedInputs, f)
               else (case require_clean g' (pl_inputs p) (is_execution (vd_kind (pl_verifier p))) of
                 Some e \<Rightarrow> (Inl e, f)
               | None \<Rightarrow>
                   let r = evidence_of L now claim p result detail in
                   (case store_evidence L E root r f of
                      (Inl e, f') \<Rightarrow> (Inl e, f')
                    | (Inr _, f') \<Rightarrow> (Inr r, f')))))"

definition verify ::
    "claims_lib \<Rightarrow> work_tree \<Rightarrow> claim_env \<Rightarrow> git_view \<Rightarrow> git_view \<Rightarrow> runner \<Rightarrow> int \<Rightarrow> string \<Rightarrow> Claim \<Rightarrow> claim_fs \<Rightarrow>
     ((ClaimError + EvidenceRecord) \<times> claim_fs) option" where
  "verify L T E g g' run now root claim f =
     map_option (\<lambda>plan. case plan of
         Inl e \<Rightarrow> (Inl e, f)
       | Inr p \<Rightarrow> verify_planned L E g g' run now root claim p f)
       (plan_verification L T g root claim)"

section \<open>Evaluating the registry\<close>

record ClaimReport =
  cr_claim_id :: string
  cr_subject :: string
  cr_claim :: string
  cr_verifier_id :: string
  cr_required_state :: RequiredState
  cr_state :: ClaimState
  cr_scope_files :: nat
  cr_scope_digest :: string
  cr_compatibility :: "string list"
  cr_satisfied :: bool

definition report_claim ::
    "claims_lib \<Rightarrow> claim_env \<Rightarrow> git_view \<Rightarrow> (string \<Rightarrow> opened option) \<Rightarrow> int \<Rightarrow> string \<Rightarrow> claim_fs \<Rightarrow> string \<Rightarrow> Claim \<Rightarrow>
     ClaimError + ClaimReport" where
  "report_claim L E g opener now root f head claim =
     (case claim_verifier claim of
        Inl e \<Rightarrow> Inl e
      | Inr d \<Rightarrow>
          (case resolve_scope g (cl_scope claim) of
             Inl e \<Rightarrow> Inl e
           | Inr entries \<Rightarrow>
               let digest = scope_digest L entries;
                   evidence = load_evidence L E opener root (cl_claim_id claim) f;
                   ancestor = (case evidence of None \<Rightarrow> False | Some r \<Rightarrow> is_ancestor g (er_commit r) head);
                   state = compute L claim
                     \<lparr>ob_scope_files = length entries, ob_scope_digest = digest, ob_evidence = evidence,
                      ob_evidence_is_ancestor = ancestor, ob_verifier_version = vd_version d, ob_now = now\<rparr> in
               Inr \<lparr>cr_claim_id = cl_claim_id claim, cr_subject = cl_subject claim, cr_claim = cl_claim claim,
                    cr_verifier_id = cl_verifier_id claim, cr_required_state = cl_required_state claim,
                    cr_state = state, cr_scope_files = length entries, cr_scope_digest = digest,
                    cr_compatibility = cl_compatibility claim,
                    cr_satisfied = satisfies state (cl_required_state claim)\<rparr>))"

fun report_claims ::
    "claims_lib \<Rightarrow> claim_env \<Rightarrow> git_view \<Rightarrow> (string \<Rightarrow> opened option) \<Rightarrow> int \<Rightarrow> string \<Rightarrow> claim_fs \<Rightarrow> string \<Rightarrow>
     Claim list \<Rightarrow> ClaimError + ClaimReport list" where
  "report_claims L E g opener now root f head [] = Inr []"
| "report_claims L E g opener now root f head (c # cs) =
     (case report_claim L E g opener now root f head c of
        Inl e \<Rightarrow> Inl e
      | Inr r \<Rightarrow>
          (case report_claims L E g opener now root f head cs of Inl e \<Rightarrow> Inl e | Inr rs \<Rightarrow> Inr (r # rs)))"

definition evaluate ::
    "claims_lib \<Rightarrow> claim_env \<Rightarrow> git_view \<Rightarrow> (string \<Rightarrow> opened option) \<Rightarrow> int \<Rightarrow> string \<Rightarrow> claim_fs \<Rightarrow> Registry \<Rightarrow>
     ClaimError + ClaimReport list" where
  "evaluate L E g opener now root f registry =
     (case head_commit g of
        Inl e \<Rightarrow> Inl e
      | Inr head \<Rightarrow> report_claims L E g opener now root f head (reg_claims registry))"


section \<open>The evidence store keeps its promises\<close>

text \<open>The paths the store works on are pairwise different.\<close>

abbreviation claims_dir :: "string \<Rightarrow> string" where
  "claims_dir root \<equiv> path_join root ''claims''"

abbreviation store_dir :: "string \<Rightarrow> string" where
  "store_dir root \<equiv> path_join (claims_dir root) ''evidence''"

lemma path_join_rel: "b \<noteq> [] \<Longrightarrow> hd b \<noteq> SLASH \<Longrightarrow> \<exists>sep. path_join a b = a @ sep @ b"
  by (auto simp: path_join_def)

lemma path_join_longer: "b \<noteq> [] \<Longrightarrow> hd b \<noteq> SLASH \<Longrightarrow> length a < length (path_join a b)"
  by (auto simp: path_join_def)

lemma valid_id_head:
  assumes "validate_claim_id i = None"
  shows "i \<noteq> [] \<and> hd i \<noteq> SLASH"
proof -
  have "i \<noteq> []" "list_all (\<lambda>b. is_ascii_alphanumeric b \<or> b \<in> set ''._-'') i"
    using assms by (auto simp: validate_claim_id_def split: if_splits)
  then show ?thesis by (cases i) (auto simp: is_ascii_alphanumeric_def)
qed

lemma store_dir_differs: "claims_dir root \<noteq> store_dir root"
  using path_join_longer [of "''evidence''" "claims_dir root"] by auto

lemma record_path_differs:
  assumes "path_for root i = Inr path"
  shows "path \<noteq> claims_dir root" "path \<noteq> store_dir root" "path \<noteq> sibling_path E (store_dir root) j n"
proof -
  from assms have p: "path = path_join (store_dir root) (i @ ''.json'')" and i: "i \<noteq> []" "hd i \<noteq> SLASH"
    using valid_id_head [of i] by (auto simp: path_for_def split: option.splits)
  then have "length (store_dir root) < length path" by (simp add: path_join_longer)
  then show "path \<noteq> claims_dir root" "path \<noteq> store_dir root"
    using path_join_longer [of "''evidence''" "claims_dir root"] by auto
  have "last path = CHR ''n''" using path_join_rel [of "i @ ''.json''" "store_dir root"] p i by auto
  moreover have "last (sibling_path E (store_dir root) j n) = CHR ''p''" by (simp add: sibling_path_def path_join_def)
  ultimately show "path \<noteq> sibling_path E (store_dir root) j n" by auto
qed

lemma sibling_path_differs: "sibling_path E (store_dir root) j n \<noteq> claims_dir root" "sibling_path E (store_dir root) j n \<noteq> store_dir root"
proof -
  have "length (store_dir root) < length (sibling_path E (store_dir root) j n)"
    unfolding sibling_path_def by (rule path_join_longer) simp_all
  then show "sibling_path E (store_dir root) j n \<noteq> claims_dir root" "sibling_path E (store_dir root) j n \<noteq> store_dir root"
    using path_join_longer [of "''evidence''" "claims_dir root"] by auto
qed

text \<open>What each step changes.\<close>

lemma raced_other: "q \<noteq> path \<Longrightarrow> cf_entries (raced E path f) q = cf_entries f q"
  by (simp add: raced_def split: option.split)

lemma ensure_dir_other:
  "ensure_dir E path f = (r, f') \<Longrightarrow> q \<noteq> path \<Longrightarrow> cf_entries f' q = cf_entries f q"
  by (auto simp: ensure_dir_def Let_def raced_other split: sum.splits Presence.splits if_splits option.splits)

lemma ensure_dir_ok:
  "ensure_dir E path f = (None, f') \<Longrightarrow> cf_entries f' path = Some Directory"
  by (auto simp: ensure_dir_def inspect_dir_def Let_def
      split: sum.splits Presence.splits if_splits option.splits node.splits)

lemma ensure_dir_counters:
  "ensure_dir E path f = (r, f') \<Longrightarrow> cf_inode f' = cf_inode f \<and> cf_next f' = cf_next f"
  by (auto simp: ensure_dir_def raced_def Let_def split: sum.splits Presence.splits if_splits option.splits)

lemma create_sibling_loop_effect:
  "create_sibling_loop k E dir i f = (r, f') \<Longrightarrow>
   (case r of
      Inl e \<Rightarrow> cf_entries f' = cf_entries f
    | Inr s \<Rightarrow> \<exists>n. s = sibling_path E dir i n \<and> cf_entries f s = None \<and>
        cf_entries f' = (cf_entries f)(s \<mapsto> RegularFile (cf_inode f) []))"
proof (induction k arbitrary: f)
  case (Suc k)
  let ?f = "f\<lparr>cf_next := cf_next f + 1\<rparr>"
  show ?case
  proof (cases "en_refuses E (OpCreateNew (sibling_path E dir i (cf_next f)))")
    case True
    with Suc.prems show ?thesis by auto
  next
    case False
    then show ?thesis
      using Suc.prems Suc.IH [of ?f]
      by (cases "cf_entries f (sibling_path E dir i (cf_next f))") (auto simp: Let_def split: sum.splits)
  qed
qed auto

lemma create_sibling_effect:
  assumes "create_sibling E dir i f = (r, f')"
  shows "case r of
      Inl e \<Rightarrow> cf_entries f' = cf_entries f
    | Inr s \<Rightarrow> \<exists>n. s = sibling_path E dir i n \<and> cf_entries f s = None \<and>
        cf_entries f' = (cf_entries f)(s \<mapsto> RegularFile (cf_inode f) [])"
  using assms unfolding create_sibling_def by (rule create_sibling_loop_effect)


lemma write_sibling_other: "write_sibling E s b f = (ok, f') \<Longrightarrow> q \<noteq> s \<Longrightarrow> cf_entries f' q = cf_entries f q"
  by (auto simp: write_sibling_def Let_def split: option.splits node.splits)

lemma write_sibling_ok:
  "write_sibling E s b f = (True, f') \<Longrightarrow> cf_entries f s = Some (RegularFile i c) \<Longrightarrow>
   cf_entries f' s = Some (RegularFile i b)"
  by (auto simp: write_sibling_def Let_def)

lemma remove_entry_other: "q \<noteq> s \<Longrightarrow> cf_entries (remove_entry E s f) q = cf_entries f q"
  by (simp add: remove_entry_def)

lemma rename_entry_other:
  "rename_entry E s p f = (ok, f') \<Longrightarrow> q \<noteq> s \<Longrightarrow> q \<noteq> p \<Longrightarrow> cf_entries f' q = cf_entries f q"
  by (auto simp: rename_entry_def split: if_splits)

lemma rename_entry_false: "rename_entry E s p f = (False, f') \<Longrightarrow> f' = f"
  by (auto simp: rename_entry_def split: if_splits)

lemma rename_entry_true: "rename_entry E s p f = (True, f') \<Longrightarrow> cf_entries f' p = cf_entries f s"
  by (auto simp: rename_entry_def split: if_splits)

lemma raced_at: "cf_entries (raced E p f) p \<in> {cf_entries f p, en_race E p}"
  by (auto simp: raced_def split: option.split)

lemma commit_record_effect:
  assumes run: "commit_record E s path bytes f = (ok, f')" and "s \<noteq> path"
    and at_s: "cf_entries f s = Some (RegularFile i c)"
  shows "(if ok then cf_entries f' path = Some (RegularFile i bytes)
    else cf_entries f' path \<in> {cf_entries f path, en_race E path}) \<and>
    (\<forall>q. q \<noteq> path \<and> q \<noteq> s \<longrightarrow> cf_entries f' q = cf_entries f q)"
proof -
  obtain ok1 f1 where s1: "write_sibling E s bytes f = (ok1, f1)" by fastforce
  note e1 = write_sibling_other [OF s1]
  obtain ok2 f2 where s2: "rename_entry E s path (raced E path f1) = (ok2, f2)" by fastforce
  note e2 = rename_entry_other [OF s2]
  consider "\<not> ok1" | "ok1" "\<not> ok2" | "ok1" "ok2" by blast
  then show ?thesis
  proof cases
    case 1
    with run s1 have "ok = False" "f' = remove_entry E s f1" by (auto simp: commit_record_def)
    with e1 \<open>s \<noteq> path\<close> show ?thesis by (auto simp: remove_entry_other)
  next
    case 2
    with run s1 s2 have "ok = False" "f' = remove_entry E s f2" by (auto simp: commit_record_def)
    moreover have "f2 = raced E path f1" using rename_entry_false [of E s path "raced E path f1" f2] s2 2 by simp
    ultimately show ?thesis
      using raced_at [of E path f1] e1 \<open>s \<noteq> path\<close> by (auto simp: remove_entry_other raced_other)
  next
    case 3
    with run s1 s2 have "ok = True" "f' = f2" by (auto simp: commit_record_def)
    moreover have "cf_entries f1 s = Some (RegularFile i bytes)"
      using s1 3 at_s by (auto intro: write_sibling_ok)
    moreover have "cf_entries f2 path = cf_entries (raced E path f1) s" using rename_entry_true [of E s path "raced E path f1" f2] s2 3 by simp
    ultimately show ?thesis using e1 e2 \<open>s \<noteq> path\<close> by (auto simp: raced_other)
  qed
qed

text \<open>The store up to the sibling: both directories are real, and only they have changed.\<close>

lemma ensure_dirs_effect:
  assumes "ensure_dir E (claims_dir root) f = (r1, f1)" "ensure_dir E (store_dir root) f1 = (r2, f2)"
  shows "q \<noteq> claims_dir root \<Longrightarrow> q \<noteq> store_dir root \<Longrightarrow> cf_entries f2 q = cf_entries f q"
    and "r1 = None \<Longrightarrow> r2 = None \<Longrightarrow>
      cf_entries f2 (claims_dir root) = Some Directory \<and> cf_entries f2 (store_dir root) = Some Directory"
  using ensure_dir_other [OF assms(1)] ensure_dir_other [OF assms(2)] assms store_dir_differs
  by (auto dest: ensure_dir_ok)

text \<open>The result at the record's path, the directories above it, and every other path.\<close>

lemma store_evidence_effect:
  assumes path: "path_for root (er_claim_id r) = Inr path"
    and run: "store_evidence L E root r f = (res, f')"
  shows "(case res of
      Inr p \<Rightarrow> p = path \<and> cf_entries f' (claims_dir root) = Some Directory \<and>
        cf_entries f' (store_dir root) = Some Directory \<and>
        (\<exists>i. cf_entries f' path = Some (RegularFile i (lb_record_to_text L r @ [NL])))
    | Inl e \<Rightarrow> cf_entries f' path \<in> {cf_entries f path, en_race E path}) \<and>
    (\<forall>q. q \<noteq> path \<and> q \<noteq> claims_dir root \<and> q \<noteq> store_dir root \<and>
       (\<forall>n. q \<noteq> sibling_path E (store_dir root) (er_claim_id r) n) \<longrightarrow> cf_entries f' q = cf_entries f q)"
proof -
  let ?sib = "sibling_path E (store_dir root) (er_claim_id r)"
  note diff = record_path_differs(1,2) [OF path] record_path_differs(3) [OF path, of E "er_claim_id r"]
    store_dir_differs sibling_path_differs [of E root "er_claim_id r"]
  obtain r1 f1 where s1: "ensure_dir E (claims_dir root) f = (r1, f1)" by fastforce
  obtain r2 f2 where s2: "ensure_dir E (store_dir root) f1 = (r2, f2)" by fastforce
  obtain r3 f3 where s3: "create_sibling E (store_dir root) (er_claim_id r) f2 = (r3, f3)" by fastforce
  note e1 = ensure_dir_other [OF s1] and e2 = ensure_dirs_effect [OF s1 s2] and e3 = create_sibling_effect [OF s3]
  consider (claims) e where "r1 = Some e" "res = Inl e" "f' = f1"
    | (dir) e where "r1 = None" "res = Inl e" "f' = f2"
    | (sibling) e where "r3 = Inl e" "res = Inl e" "f' = f3"
    | (commit) s ok f4 where "r1 = None" "r2 = None" "r3 = Inr s"
        "commit_record E s path (lb_record_to_text L r @ [NL]) f3 = (ok, f4)"
        "res = (if ok then Inr path else Inl ClaimIo)" "f' = f4"
    using run path s1 s2 s3 unfolding store_evidence_def evidence_dirs_def
    by (auto split: option.splits sum.splits prod.splits bool.splits)
  then show ?thesis
  proof cases
    case claims
    with e1 diff show ?thesis by auto
  next
    case dir
    with e2(1) diff show ?thesis by auto
  next
    case sibling
    with e2(1) e3 diff show ?thesis by auto
  next
    case commit
    with e3 obtain n where s: "s = ?sib n"
      and f3: "cf_entries f3 = (cf_entries f2)(s \<mapsto> RegularFile (cf_inode f2) [])" by auto
    have "cf_entries f3 s = Some (RegularFile (cf_inode f2) [])" "s \<noteq> path" using f3 s diff by auto
    note e4 = commit_record_effect [OF commit(4) this(2,1)]
    then show ?thesis using commit e2 f3 s diff not_sym [OF diff(1)] not_sym [OF diff(2)] not_sym [OF diff(5)] not_sym [OF diff(6)]
      by (cases ok) auto
  qed
qed


section \<open>Evidence codecs\<close>

text \<open>What the derived codec of the record promises: a record with an \<open>i64\<close> time reads back, also with the
  line feed \<open>store\<close> adds, and its text is UTF-8.\<close>

locale evidence_codec =
  fixes L :: claims_lib
  assumes record_round_trip:
      "i64_range (er_verified_at r) \<Longrightarrow> lb_record_of_text L (lb_record_to_text L r @ [NL]) = Some r"
    and record_utf8: "valid_utf8 (lb_record_to_text L r @ [NL])"
begin

text \<open>A stored record is what a reader that reaches the store finds.\<close>

lemma stored_record_loads:
  assumes "store_evidence L E root r f = (Inr path, f')" "i64_range (er_verified_at r)"
    and "\<forall>p. \<not> en_refuses E' (OpStat p)"
    and opener: "\<forall>p i b. cf_entries f' p = Some (RegularFile i b) \<longrightarrow> opener p = Some (True, i, b)"
  shows "load_evidence L E' opener root (er_claim_id r) f' = Some r"
proof -
  from assms(1) obtain p where p: "path_for root (er_claim_id r) = Inr p"
    by (cases "path_for root (er_claim_id r)") (auto simp: store_evidence_def)
  from store_evidence_effect [OF p assms(1)] obtain i where f':
      "cf_entries f' (claims_dir root) = Some Directory" "cf_entries f' (store_dir root) = Some Directory"
      "cf_entries f' p = Some (RegularFile i (lb_record_to_text L r @ [NL]))" by auto
  then have "opener p = Some (True, i, lb_record_to_text L r @ [NL])" using opener by simp
  with f' p assms(3) record_round_trip [OF assms(2)] record_utf8 show ?thesis
    by (simp add: load_evidence_def evidence_dirs_def inspect_dir_def inspect_record_def same_object_def)
qed

end

section \<open>What a verification establishes\<close>

lemma plan_verification_cases:
  assumes "plan_verification L T g root claim = Some (Inr p)"
  obtains manifests where "validate_claim_id (cl_claim_id claim) = None" "claim_verifier claim = Inr (pl_verifier p)"
    "head_commit g = Inr (pl_head p)" "claim_at_commit L g (cl_claim_id claim) (pl_head p) = Inr claim"
    "resolve_at g (cl_scope claim) (pl_head p) = Inr (pl_entries p)" "first_irregular (pl_entries p) = None"
    "resolve_at g [''claims''] (pl_head p) = Inr manifests"
    "pl_inputs p = cl_scope claim @ map se_path (filter (\<lambda>e. suffix ''.toml'' (se_path e)) manifests)"
    "require_clean g (pl_inputs p) (is_execution (vd_kind (pl_verifier p))) = None"
    "validate_cargo_scope L T root claim = Some None"
  using assms unfolding plan_verification_def plan_at_head_def
  by (auto simp: Let_def split: option.splits sum.splits if_splits)

lemma verify_planned_cases:
  assumes "verify_planned L E g g' run now root claim p f = (Inr r, f')"
  obtains result detail path where "run_plan g run claim p = Inr (result, detail)" "head_commit g' = Inr (pl_head p)"
    "require_clean g' (pl_inputs p) (is_execution (vd_kind (pl_verifier p))) = None"
    "r = evidence_of L now claim p result detail" "store_evidence L E root r f = (Inr path, f')"
  using assms unfolding verify_planned_def Let_def
  by (auto split: option.splits sum.splits if_splits prod.splits)

lemma verify_cases:
  assumes "verify L T E g g' run now root claim f = Some (Inr r, f')"
  obtains p where "plan_verification L T g root claim = Some (Inr p)"
    "verify_planned L E g g' run now root claim p f = (Inr r, f')"
proof -
  from assms obtain plan where "plan_verification L T g root claim = Some plan"
    unfolding verify_def by (auto split: option.splits)
  with assms show ?thesis by (cases plan) (auto simp: verify_def intro: that)
qed


lemma run_plan_pass: "run_plan g run claim p = Inr (Pass, detail) \<Longrightarrow> pl_entries p \<noteq> []"
  by (auto simp: run_plan_def split: if_splits)


text \<open>A claim whose standing evidence passed on this very source state is verified.\<close>

lemma compute_fresh_evidence:
  assumes "\<not> cl_retired claim" "pl_entries p \<noteq> []" "claim_verifier claim = Inr (pl_verifier p)"
    and age: "\<forall>days. cl_max_age_days claim = Some days \<longrightarrow> now' - now \<le> int (unat days) * DAY_SECONDS"
  shows "compute L claim
    \<lparr>ob_scope_files = length (pl_entries p), ob_scope_digest = scope_digest L (pl_entries p),
     ob_evidence = Some (evidence_of L now claim p Pass detail), ob_evidence_is_ancestor = True,
     ob_verifier_version = vd_version (pl_verifier p), ob_now = now'\<rparr> = Verified"
proof -
  have "vd_id (pl_verifier p) = cl_verifier_id claim" using lookup_verifier_in [OF assms(3)] by blast
  moreover have "i64_saturating_sub now' now \<le> int (unat days) * DAY_SECONDS" if "cl_max_age_days claim = Some days" for days
    using age that by (intro i64_saturating_sub_le) (auto simp: DAY_SECONDS_def)
  ultimately show ?thesis
    using assms(1,2) by (auto simp: compute_def evidence_of_def not_less split: option.split)
qed

lemma report_claims_member:
  "report_claims L E g opener now root f head cs = Inr rs \<Longrightarrow> c \<in> set cs \<Longrightarrow>
   report_claim L E g opener now root f head c = Inr rep \<Longrightarrow> rep \<in> set rs"
  by (induction cs arbitrary: rs) (auto split: sum.splits)


text \<open>C6. A verification that passes makes a claim that is not retired verified: evaluating a registry that holds
  the claim afterwards, with HEAD at the verified commit and the scope's tree as it was, within the claim's age
  limit, and with the evidence store readable and its text format reading back what it wrote, reads the record back through the store and reports the
  claim as verified and satisfied. (Verifying does not look at retirement; a retired claim stays
  reported as retired.)\<close>

theorem passed_claim_is_verified:
  assumes codec: "evidence_codec L"
    and run: "verify L T E g g' run now root claim f = Some (Inr r, f')" and pass: "er_result r = Pass"
    and active: "\<not> cl_retired claim" and range: "i64_range now"
    and age: "\<forall>days. cl_max_age_days claim = Some days \<longrightarrow> now' - now \<le> int (unat days) * DAY_SECONDS"
    and head: "head_commit h = Inr (er_commit r)"
    and tree: "gv_ls_tree h ''HEAD'' (cl_scope claim) = gv_ls_tree g (er_commit r) (cl_scope claim)"
    and stat: "\<forall>p. \<not> en_refuses E' (OpStat p)"
    and opener: "\<forall>p i b. cf_entries f' p = Some (RegularFile i b) \<longrightarrow> opener p = Some (True, i, b)"
    and member: "claim \<in> set (reg_claims reg)"
    and eval: "evaluate L E' h opener now' root f' reg = Inr reports"
  shows "\<exists>rep\<in>set reports. cr_claim_id rep = cl_claim_id claim \<and> cr_state rep = Verified \<and> cr_satisfied rep"
proof -
  from run obtain p where plan: "plan_verification L T g root claim = Some (Inr p)"
      and planned: "verify_planned L E g g' run now root claim p f = (Inr r, f')" by (rule verify_cases)
  from planned obtain result detail path where r: "run_plan g run claim p = Inr (result, detail)"
      "r = evidence_of L now claim p result detail" "store_evidence L E root r f = (Inr path, f')"
    by (rule verify_planned_cases)
  with pass have result: "result = Pass" by (simp add: evidence_of_def)
  from plan have v: "claim_verifier claim = Inr (pl_verifier p)"
      and entries: "resolve_at g (cl_scope claim) (pl_head p) = Inr (pl_entries p)"
    by (auto elim: plan_verification_cases)
  have fields: "er_claim_id r = cl_claim_id claim" "er_commit r = pl_head p" "er_verified_at r = now"
    by (simp_all add: r(2) evidence_of_def)
  have load: "load_evidence L E' opener root (cl_claim_id claim) f' = Some r"
    using evidence_codec.stored_record_loads [OF codec r(3) _ stat opener] range fields by simp
  have scope: "resolve_scope h (cl_scope claim) = Inr (pl_entries p)"
    using entries tree fields by (simp add: resolve_scope_def resolve_at_def)
  have state: "compute L claim
    \<lparr>ob_scope_files = length (pl_entries p), ob_scope_digest = scope_digest L (pl_entries p),
     ob_evidence = Some r, ob_evidence_is_ancestor = True,
     ob_verifier_version = vd_version (pl_verifier p), ob_now = now'\<rparr> = Verified"
    using compute_fresh_evidence [OF active run_plan_pass v age] r(1,2) result by simp
  obtain rep where rep: "report_claim L E' h opener now' root f' (er_commit r) claim = Inr rep"
      "cr_claim_id rep = cl_claim_id claim" "cr_state rep = Verified" "cr_satisfied rep"
    using v scope load state by (simp add: report_claim_def Let_def is_ancestor_def satisfies_def)
  have "rep \<in> set reports"
    using eval head rep(1) member by (auto simp: evaluate_def intro: report_claims_member)
  with rep show ?thesis by blast
qed

text \<open>A link at one of the three paths is refused before anything is written.\<close>

lemma ensure_dir_link:
  "cf_entries f path = Some (SymbolicLink t) \<Longrightarrow> ensure_dir E path f = (Some ClaimIo, f)"
  by (simp add: ensure_dir_def inspect_dir_def)

lemma store_refuses_links:
  assumes path: "path_for root (er_claim_id r) = Inr path" and run: "store_evidence L E root r f = (res, f')"
    and q: "q \<in> {path, claims_dir root, store_dir root}" and link: "cf_entries f q = Some (SymbolicLink t)"
  shows "(\<exists>e. res = Inl e) \<and> cf_entries f' q = Some (SymbolicLink t)"
proof -
  obtain r1 f1 where s1: "ensure_dir E (claims_dir root) f = (r1, f1)" by fastforce
  obtain r2 f2 where s2: "ensure_dir E (store_dir root) f1 = (r2, f2)" by fastforce
  note e1 = ensure_dir_other [OF s1] and e2 = ensure_dir_other [OF s2]
  note diff = record_path_differs(1,2) [OF path] store_dir_differs
  consider "q = claims_dir root" | "q = store_dir root" | "q = path" using q by blast
  then show ?thesis
  proof cases
    case 1
    with ensure_dir_link link run path show ?thesis by (auto simp: store_evidence_def evidence_dirs_def)
  next
    case 2
    then have "cf_entries f1 (store_dir root) = Some (SymbolicLink t)"
      using e1 [OF not_sym [OF store_dir_differs]] link by simp
    from ensure_dir_link [OF this, of E] 2 this run path s1 show ?thesis
      by (cases r1) (auto simp: store_evidence_def evidence_dirs_def)
  next
    case 3
    then have f1: "cf_entries f1 path = Some (SymbolicLink t)" using e1 diff link by auto
    then have f2: "cf_entries f2 path = Some (SymbolicLink t)" using e2 diff by auto
    then have "inspect_record E f2 path = Inl ClaimIo" by (simp add: inspect_record_def)
    with f1 f2 3 run path s1 s2 show ?thesis
      by (cases r1; cases r2) (auto simp: store_evidence_def evidence_dirs_def)
  qed
qed

text \<open>C19. Recording evidence is atomic and stays inside the store, whatever calls the operating system
  refuses and whatever a racing process puts at the record's path: the record is either completely the
  new one, in a regular file, or untouched by this call; besides it only the two directories of the store
  and this process's temporary names change; and a link found at any of the three paths is refused and
  left as it is, so nothing a link points to is ever written.\<close>

theorem store_is_atomic:
  assumes "path_for root (er_claim_id r) = Inr path" "store_evidence L E root r f = (res, f')"
  shows "(case res of
      Inr p \<Rightarrow> p = path \<and> (\<exists>i. cf_entries f' path = Some (RegularFile i (lb_record_to_text L r @ [NL])))
    | Inl e \<Rightarrow> cf_entries f' path \<in> {cf_entries f path, en_race E path}) \<and>
    (\<forall>q. q \<notin> {path, path_join root ''claims'', path_join (path_join root ''claims'') ''evidence''} \<and>
       (\<forall>n. q \<noteq> sibling_path E (path_join (path_join root ''claims'') ''evidence'') (er_claim_id r) n) \<longrightarrow>
       cf_entries f' q = cf_entries f q) \<and>
    (\<forall>q t. q \<in> {path, path_join root ''claims'', path_join (path_join root ''claims'') ''evidence''} \<longrightarrow>
       cf_entries f q = Some (SymbolicLink t) \<longrightarrow>
       (\<exists>e. res = Inl e) \<and> cf_entries f' q = Some (SymbolicLink t))"
  using store_evidence_effect [OF assms] store_refuses_links [OF assms]
  by (intro conjI allI impI) (auto split: sum.splits)

section \<open>The verifiers that read text\<close>

lemma read_scope_contains:
  assumes "\<forall>e\<in>set es. read_text g e = Inr (txt e)"
  shows "\<exists>h. read_scope g es = Inr h \<and>
    (\<forall>p. p \<noteq> [] \<and> NL \<notin> set p \<longrightarrow> contains h p = (\<exists>e\<in>set es. contains (txt e) p))"
  using assms
proof (induction es)
  case (Cons e es)
  then obtain h where "read_scope g es = Inr h"
    "\<forall>p. p \<noteq> [] \<and> NL \<notin> set p \<longrightarrow> contains h p = (\<exists>e\<in>set es. contains (txt e) p)" by auto
  with Cons.prems show ?case by (auto simp: contains_iff sublist_across)
qed (simp add: contains_iff)

lemma patterns_found_iff:
  assumes "\<forall>e\<in>set es. read_text g e = Inr (txt e)"
  shows "\<exists>found. patterns_found g ps es = Inr found \<and>
    (found = [] \<longleftrightarrow> (\<forall>e\<in>set es. \<forall>p\<in>set ps. \<not> contains (txt e) p))"
  using assms by (induction es) (auto simp: filter_empty_conv)

text \<open>The verifiers that read text decide what they are documented to decide: with every file of a
  non-empty scope readable, \<open>symbols-present\<close> passes exactly when each symbol (non-empty and within one
  line) occurs in some file, and \<open>text-absent\<close> passes exactly when no pattern occurs in any file;
  otherwise they fail, and no command is run.\<close>

theorem text_verifiers_decide:
  assumes "\<forall>e\<in>set entries. read_text g e = Inr (txt e)"
    "\<forall>s\<in>set (vp_symbols params). s \<noteq> [] \<and> NL \<notin> set s"
  shows "(vd_kind d = SymbolsPresent \<longrightarrow>
      (\<exists>detail. run_verifier g run d params entries =
         Inr (if \<forall>s\<in>set (vp_symbols params). \<exists>e\<in>set entries. sublist s (txt e) then Pass else Fail, detail))) \<and>
    (vd_kind d = TextAbsent \<longrightarrow>
      (\<exists>detail. run_verifier g run d params entries =
         Inr (if \<forall>p\<in>set (vp_patterns params). \<forall>e\<in>set entries. \<not> sublist p (txt e) then Pass else Fail, detail)))"
proof -
  from read_scope_contains [OF assms(1)] obtain h where h: "read_scope g entries = Inr h"
    "\<forall>p. p \<noteq> [] \<and> NL \<notin> set p \<longrightarrow> contains h p = (\<exists>e\<in>set entries. contains (txt e) p)" by blast
  have "filter (\<lambda>s. \<not> contains h s) (vp_symbols params) = [] \<longleftrightarrow>
      (\<forall>s\<in>set (vp_symbols params). \<exists>e\<in>set entries. sublist s (txt e))"
    using h(2) assms(2) by (auto simp: filter_empty_conv contains_iff)
  moreover from patterns_found_iff [OF assms(1)] obtain found where
    "patterns_found g (vp_patterns params) entries = Inr found"
    "found = [] \<longleftrightarrow> (\<forall>e\<in>set entries. \<forall>p\<in>set (vp_patterns params). \<not> contains (txt e) p)" by blast
  ultimately show ?thesis using h(1) by (auto simp: run_verifier_def Let_def contains_iff)
qed


section \<open>A run in the small repository\<close>

text \<open>A codec of evidence records over the concrete JSON text.\<close>

definition record_to_value :: "EvidenceRecord \<Rightarrow> json" where
  "record_to_value r = JObject
     [(''claim_id'', JString (er_claim_id r)), (''claim_digest'', JString (er_claim_digest r)),
      (''verifier_id'', JString (er_verifier_id r)), (''verifier_version'', JString (er_verifier_version r)),
      (''result'', JBool (er_result r = Pass)), (''commit'', JString (er_commit r)),
      (''scope_digest'', JString (er_scope_digest r)), (''verified_at'', JNumber (PosInt (of_int (er_verified_at r)))),
      (''os'', JString (er_os r)), (''arch'', JString (er_arch r)), (''detail'', JString (er_detail r))]"

definition result_field :: "json \<Rightarrow> VerifyResult option" where
  "result_field v = (case json_get v ''result'' of Some (JBool b) \<Rightarrow> Some (if b then Pass else Fail) | _ \<Rightarrow> None)"

definition time_field :: "json \<Rightarrow> int option" where
  "time_field v = (case json_get v ''verified_at'' of Some (JNumber (PosInt w)) \<Rightarrow> Some (sint w) | _ \<Rightarrow> None)"

definition record_of_value :: "json \<Rightarrow> EvidenceRecord option" where
  "record_of_value v =
     Option.bind (string_field v ''claim_id'') (\<lambda>i.
     Option.bind (string_field v ''claim_digest'') (\<lambda>cd.
     Option.bind (string_field v ''verifier_id'') (\<lambda>vi.
     Option.bind (string_field v ''verifier_version'') (\<lambda>vv.
     Option.bind (result_field v) (\<lambda>res.
     Option.bind (string_field v ''commit'') (\<lambda>c.
     Option.bind (string_field v ''scope_digest'') (\<lambda>sd.
     Option.bind (time_field v) (\<lambda>at.
     Option.bind (string_field v ''os'') (\<lambda>os.
     Option.bind (string_field v ''arch'') (\<lambda>arch.
     Option.bind (string_field v ''detail'') (\<lambda>detail.
       Some \<lparr>er_claim_id = i, er_claim_digest = cd, er_verifier_id = vi, er_verifier_version = vv,
             er_result = res, er_commit = c, er_scope_digest = sd, er_verified_at = at,
             er_os = os, er_arch = arch, er_detail = detail\<rparr>)))))))))))"

definition record_to_text :: "EvidenceRecord \<Rightarrow> string" where
  "record_to_text r = wire (record_to_value r)"

definition record_of_text :: "string \<Rightarrow> EvidenceRecord option" where
  "record_of_text t = Option.bind (unwire (if suffix [NL] t then butlast t else t)) record_of_value"

definition demo_verify_lib :: claims_lib where
  "demo_verify_lib = demo_lib\<lparr>lb_record_to_text := record_to_text, lb_record_of_text := record_of_text\<rparr>"

lemma sint_of_i64: "i64_range v \<Longrightarrow> sint (of_int v :: u64) = v"
  by (simp add: i64_range_def signed_take_bit_int_eq_self signed_of_int)

lemma record_value_round_trip: "i64_range (er_verified_at r) \<Longrightarrow> record_of_value (record_to_value r) = Some r"
  by (cases "er_result r")
    (simp_all add: record_of_value_def record_to_value_def string_field_def json_get_def result_field_def
      time_field_def sint_of_i64)

interpretation demo_evidence: evidence_codec demo_verify_lib
proof
  fix r :: EvidenceRecord
  show "i64_range (er_verified_at r) \<Longrightarrow>
      lb_record_of_text demo_verify_lib (lb_record_to_text demo_verify_lib r @ [NL]) = Some r"
    by (simp add: demo_verify_lib_def record_to_text_def record_of_text_def wire_text.of_to_text
        record_value_round_trip del: wire.simps)
  have "\<forall>c\<in>set (wire (record_to_value r) @ [NL]). byte c < 128"
    using wire_alphabet_in [of "record_to_value r"] by (auto simp: wire_alphabet_def)
  then show "valid_utf8 (lb_record_to_text demo_verify_lib r @ [NL])"
    by (simp add: demo_verify_lib_def record_to_text_def valid_of_ascii)
qed


definition demo_env :: claim_env where
  "demo_env = \<lparr>en_refuses = (\<lambda>_. False), en_race = (\<lambda>_. None), en_torn = 0, en_pid = 7\<rparr>"

definition demo_fs :: claim_fs where
  "demo_fs = \<lparr>cf_entries = [''/r/claims'' \<mapsto> Directory], cf_inode = 3, cf_next = 0\<rparr>"

definition demo_run :: "(ClaimError + EvidenceRecord) \<times> claim_fs" where
  "demo_run = the (verify demo_verify_lib demo_tree demo_env demo_git demo_git (\<lambda>_ _. None) 1000 ''/r'' demo_text_claim demo_fs)"

definition demo_record :: EvidenceRecord where
  "demo_record =
     \<lparr>er_claim_id = ''names'', er_claim_digest = ''6e616d6573'', er_verifier_id = ''text-absent'',
      er_verifier_version = ''3'', er_result = Pass, er_commit = ''c0ffee'',
      er_scope_digest = scope_digest demo_verify_lib [\<lparr>se_path = ''docs/guide.md'', se_mode = ''100644'', se_blob = ''b2''\<rparr>],
      er_verified_at = 1000, er_os = ''linux'', er_arch = ''x86_64'', er_detail = ''1 pattern(s) absent across 1 file(s)''\<rparr>"


lemma demo_head: "head_commit demo_git = Inr ''c0ffee''"
  by code_simp

lemma demo_verified: "fst demo_run = Inr demo_record"
  by code_simp

lemma demo_verify:
  "verify demo_verify_lib demo_tree demo_env demo_git demo_git (\<lambda>_ _. None) 1000 ''/r'' demo_text_claim demo_fs =
     Some (Inr demo_record, snd demo_run)"
proof -
  let ?run = "verify demo_verify_lib demo_tree demo_env demo_git demo_git (\<lambda>_ _. None) 1000 ''/r'' demo_text_claim demo_fs"
  have "?run \<noteq> None" by code_simp
  then have "?run = Some demo_run" unfolding demo_run_def by auto
  with demo_verified show ?thesis by (metis prod.collapse)
qed


definition demo_opener :: "string \<Rightarrow> opened option" where
  "demo_opener p = (case cf_entries (snd demo_run) p of Some (RegularFile i b) \<Rightarrow> Some (True, i, b) | _ \<Rightarrow> None)"

lemma demo_evaluates:
  "\<exists>reports. evaluate demo_verify_lib demo_env demo_git demo_opener 2000 ''/r'' (snd demo_run)
     \<lparr>reg_claims = [demo_text_claim]\<rparr> = Inr reports"
proof -
  have "claim_verifier demo_text_claim = Inr \<lparr>vd_id = ''text-absent'', vd_version = ''3'', vd_kind = TextAbsent\<rparr>"
    "resolve_scope demo_git (cl_scope demo_text_claim) =
       Inr [\<lparr>se_path = ''docs/guide.md'', se_mode = ''100644'', se_blob = ''b2''\<rparr>]"
    by code_simp+
  then show ?thesis by (simp add: evaluate_def demo_head report_claim_def Let_def)
qed


theorem passed_claim_is_verified_witness:
  "\<exists>reports. evaluate demo_verify_lib demo_env demo_git demo_opener 2000 ''/r'' (snd demo_run)
     \<lparr>reg_claims = [demo_text_claim]\<rparr> = Inr reports \<and>
   (\<exists>rep\<in>set reports. cr_claim_id rep = ''names'' \<and> cr_state rep = Verified \<and> cr_satisfied rep)"
proof -
  obtain reports where eval: "evaluate demo_verify_lib demo_env demo_git demo_opener 2000 ''/r'' (snd demo_run)
     \<lparr>reg_claims = [demo_text_claim]\<rparr> = Inr reports" using demo_evaluates by blast
  have head: "head_commit demo_git = Inr (er_commit demo_record)" by (simp add: demo_head demo_record_def)
  have "\<exists>rep\<in>set reports. cr_claim_id rep = cl_claim_id demo_text_claim \<and> cr_state rep = Verified \<and> cr_satisfied rep"
    by (rule passed_claim_is_verified [OF demo_evidence.evidence_codec_axioms demo_verify _ _ _ _ head _ _ _ _ eval])
      (auto simp: demo_record_def demo_text_claim_def i64_range_def demo_git_def demo_env_def demo_opener_def)
  with eval show ?thesis by (auto simp: demo_text_claim_def)
qed

lemma demo_link_refused:
  "\<exists>e f'. store_evidence demo_verify_lib demo_env ''/r'' demo_record
     (demo_fs\<lparr>cf_entries := [''/r/claims'' \<mapsto> SymbolicLink ''/etc'']\<rparr>) = (Inl e, f')"
  by (simp add: store_evidence_def path_for_def demo_record_def validate_claim_id_def is_ascii_alphanumeric_def
      evidence_dirs_def path_join_def ensure_dir_def inspect_dir_def demo_env_def)

theorem store_is_atomic_witness:
  "\<exists>e f'. store_evidence demo_verify_lib demo_env ''/r'' demo_record
     (demo_fs\<lparr>cf_entries := [''/r/claims'' \<mapsto> SymbolicLink ''/etc'']\<rparr>) = (Inl e, f') \<and>
     cf_entries f' ''/r/claims'' = Some (SymbolicLink ''/etc'')"
proof -
  obtain e f' where run: "store_evidence demo_verify_lib demo_env ''/r'' demo_record
     (demo_fs\<lparr>cf_entries := [''/r/claims'' \<mapsto> SymbolicLink ''/etc'']\<rparr>) = (Inl e, f')"
    using demo_link_refused by blast
  have "path_for ''/r'' (er_claim_id demo_record) = Inr ''/r/claims/evidence/names.json''" by code_simp
  from store_is_atomic [OF this run] have "cf_entries f' ''/r/claims'' = Some (SymbolicLink ''/etc'')"
    by (auto simp: path_join_def)
  with run show ?thesis by blast
qed

theorem text_verifiers_decide_witness:
  "\<exists>detail. run_verifier demo_git (\<lambda>_ _. None) \<lparr>vd_id = ''text-absent'', vd_version = ''3'', vd_kind = TextAbsent\<rparr>
     (cl_params demo_text_claim) [\<lparr>se_path = ''docs/guide.md'', se_mode = ''100644'', se_blob = ''b2''\<rparr>] =
     Inr (if \<forall>p\<in>set [''old'']. \<forall>t\<in>set [''new names only'']. \<not> sublist p t then Pass else Fail, detail)"
proof -
  have "read_text demo_git \<lparr>se_path = ''docs/guide.md'', se_mode = ''100644'', se_blob = ''b2''\<rparr> =
      Inr ''new names only''" by code_simp
  then show ?thesis
    using text_verifiers_decide [of "[\<lparr>se_path = ''docs/guide.md'', se_mode = ''100644'', se_blob = ''b2''\<rparr>]"
        demo_git "\<lambda>_. ''new names only''" "cl_params demo_text_claim"
        "\<lparr>vd_id = ''text-absent'', vd_version = ''3'', vd_kind = TextAbsent\<rparr>" "\<lambda>_ _. None"]
    by (simp add: demo_text_claim_def)
qed

end
