(* ===== verification/Workspace.thy ===== *)
theory Workspace
  imports Work Utf8
begin

text \<open>
  The workspace coordinator, \<open>crates/heiwa_workspace\<close>: the one git boundary and its guard (\<open>git.rs\<close>),
  scope resolution (\<open>scope.rs\<close>), isolated worktrees (\<open>worktree.rs\<close>), repository snapshots
  (\<open>repository.rs\<close>), bounded projections (\<open>projection.rs\<close>) and workspace events (\<open>events.rs\<close>). The
  writer lease is in the theory \<open>Evidence\<close>.

  Running a process is the parameter \<open>run\<close>: what a command with a directory and arguments prints, in a
  state of some type that it may change. A path that is resolved is the list of its components, as
  \<open>Path::components\<close> gives them; \<open>canonicalize\<close> is a parameter. The derived codecs of the payloads are
  the parameter \<open>workspace_codec\<close>.
\<close>

section \<open>The git boundary\<close>

record proc_output =
  po_success :: bool
  po_code :: "int option"
  po_stdout :: string
  po_stderr :: string

type_synonym 's process = "string \<Rightarrow> string \<Rightarrow> string list \<Rightarrow> 's \<Rightarrow> proc_output option \<times> 's"

datatype GitError = GitUnavailable string | GitFailed string string string | GitRefused string string

datatype WorkspaceError =
    NotARepository string | GitProblem GitError | PathEscape | WorktreeExists string | InvalidWorkId string
  | CommandUnavailable string

definition discards_uncommitted_work :: "string list \<Rightarrow> bool" where
  "discards_uncommitted_work args =
     (case args of
        [] \<Rightarrow> False
      | command # rest \<Rightarrow>
          if command = ''reset'' then ''--hard'' \<in> set rest
          else if command = ''checkout'' then ''-f'' \<in> set rest \<or> ''--force'' \<in> set rest
          else command = ''stash'' \<or> command = ''clean'' \<or> command = ''restore'')"

definition git :: "'s process \<Rightarrow> string \<Rightarrow> string list \<Rightarrow> 's \<Rightarrow> (GitError + string) \<times> 's" where
  "git run dir args s =
     (if discards_uncommitted_work args then (Inl (GitRefused dir (join_with '' '' args)), s)
      else (case run ''git'' dir args s of
        (None, s') \<Rightarrow> (Inl (GitUnavailable dir), s')
      | (Some out, s') \<Rightarrow>
          if \<not> po_success out
          then (Inl (GitFailed dir (join_with '' '' args) (trim (from_utf8_lossy (po_stderr out)))), s')
          else (Inr (trim (from_utf8_lossy (po_stdout out))), s')))"

section \<open>Scope resolution\<close>

datatype component = RootDir | CurDir | ParentDir | Normal string

type_synonym path = "component list"

text \<open>\<open>parent\<close> and \<open>file_name\<close> of a path given by its components.\<close>

definition path_parent :: "path \<Rightarrow> path option" where
  "path_parent p = (if p = [] \<or> p = [RootDir] then None else Some (butlast p))"

definition path_file_name :: "path \<Rightarrow> string option" where
  "path_file_name p = (if p = [] then None else (case last p of Normal n \<Rightarrow> Some n | _ \<Rightarrow> None))"

text \<open>The loop over the ancestors, with the names that were taken off, outermost first.\<close>

function resolve_ancestor :: "(path \<Rightarrow> path option) \<Rightarrow> path \<Rightarrow> string list \<Rightarrow> path option" where
  "resolve_ancestor canonicalize cursor trailing =
     (case path_parent cursor of
        None \<Rightarrow> None
      | Some parent \<Rightarrow>
          (case path_file_name cursor of
             None \<Rightarrow> None
           | Some name \<Rightarrow>
               (case canonicalize parent of
                  Some resolved \<Rightarrow> Some (resolved @ map Normal (name # trailing))
                | None \<Rightarrow> resolve_ancestor canonicalize parent (name # trailing))))"
  by pat_completeness auto
termination
  by (relation "measure (\<lambda>(c, p, t). length p)") (auto simp: path_parent_def split: if_splits)

declare resolve_ancestor.simps [simp del]

definition canonicalize_existing_prefix :: "(path \<Rightarrow> path option) \<Rightarrow> path \<Rightarrow> path option" where
  "canonicalize_existing_prefix canonicalize path =
     (case canonicalize path of
        Some resolved \<Rightarrow> Some resolved
      | None \<Rightarrow> resolve_ancestor canonicalize path [])"

definition resolve_in_scope :: "(path \<Rightarrow> path option) \<Rightarrow> path \<Rightarrow> path \<Rightarrow> WorkspaceError + path" where
  "resolve_in_scope canonicalize root candidate =
     (case canonicalize root of
        None \<Rightarrow> Inl PathEscape
      | Some canonical_root \<Rightarrow>
          (case canonicalize_existing_prefix canonicalize candidate of
             None \<Rightarrow> Inl PathEscape
           | Some resolved \<Rightarrow> if prefix canonical_root resolved then Inr resolved else Inl PathEscape))"

text \<open>\<open>to_string_lossy\<close> of a path.\<close>

fun component_str :: "component \<Rightarrow> string" where
  "component_str RootDir = ''/''"
| "component_str CurDir = ''.''"
| "component_str ParentDir = ''..''"
| "component_str (Normal n) = n"

definition path_str :: "path \<Rightarrow> string" where
  "path_str p =
     from_utf8_lossy (case p of
         RootDir # rest \<Rightarrow> ''/'' @ join_with ''/'' (map component_str rest)
       | _ \<Rightarrow> join_with ''/'' (map component_str p))"

section \<open>Worktrees\<close>

definition BRANCH_PREFIX :: string where "BRANCH_PREFIX = ''heiwa/''"

record WorktreeHandle =
  wh_work_id :: string
  wh_path :: string
  wh_branch :: string
  wh_base_commit :: string

record ListedWorktree =
  lw_path :: string
  lw_head :: string
  lw_branch :: "string option"
  lw_work_id :: "string option"

definition branch_for :: "string \<Rightarrow> string" where
  "branch_for work_id = BRANCH_PREFIX @ work_id"

text \<open>The state of the parser: the entries, and the path, head and branch of the open one.\<close>

record list_state =
  ls_out :: "ListedWorktree list"
  ls_path :: "string option"
  ls_head :: string
  ls_branch :: "string option"

definition work_id_of_branch :: "string \<Rightarrow> string option" where
  "work_id_of_branch reference =
     (if contains reference BRANCH_PREFIX then Some (last (split_on (\<lambda>c. c = CHR ''/'') reference)) else None)"

definition flush :: "list_state \<Rightarrow> list_state" where
  "flush st =
     (case ls_path st of
        None \<Rightarrow> st
      | Some p \<Rightarrow>
          \<lparr>ls_out = ls_out st @ [\<lparr>lw_path = p, lw_head = ls_head st, lw_branch = ls_branch st,
             lw_work_id = Option.bind (ls_branch st) work_id_of_branch\<rparr>],
           ls_path = None, ls_head = [], ls_branch = None\<rparr>)"

definition list_line :: "list_state \<Rightarrow> string \<Rightarrow> list_state" where
  "list_line st line =
     (if line = [] then flush st
      else (case strip_prefix ''worktree '' line of
        Some rest \<Rightarrow> (flush st)\<lparr>ls_path := Some rest\<rparr>
      | None \<Rightarrow>
          (case strip_prefix ''HEAD '' line of
             Some rest \<Rightarrow> st\<lparr>ls_head := rest\<rparr>
           | None \<Rightarrow>
               (case strip_prefix ''branch '' line of
                  Some rest \<Rightarrow> st\<lparr>ls_branch := Some rest\<rparr>
                | None \<Rightarrow> st))))"

definition parse_worktree_list :: "string \<Rightarrow> ListedWorktree list" where
  "parse_worktree_list raw =
     ls_out (flush (foldl list_line \<lparr>ls_out = [], ls_path = None, ls_head = [], ls_branch = None\<rparr> (lines_of raw)))"

definition list_worktrees_in ::
    "'s process \<Rightarrow> string \<Rightarrow> 's \<Rightarrow> (WorkspaceError + ListedWorktree list) \<times> 's" where
  "list_worktrees_in run repo_root s =
     (case git run repo_root [''worktree'', ''list'', ''--porcelain''] s of
        (Inl e, s') \<Rightarrow> (Inl (GitProblem e), s')
      | (Inr raw, s') \<Rightarrow> (Inr (parse_worktree_list raw), s'))"

definition create_worktree_in ::
    "'s process \<Rightarrow> (path \<Rightarrow> path option) \<Rightarrow> string \<Rightarrow> path \<Rightarrow> string \<Rightarrow> 's \<Rightarrow> (WorkspaceError + WorktreeHandle) \<times> 's" where
  "create_worktree_in run canonicalize repo_root holding_dir work_id s =
     (if WorkId_parse work_id = None then (Inl (InvalidWorkId work_id), s)
      else (case list_worktrees_in run repo_root s of
        (Inl e, s1) \<Rightarrow> (Inl e, s1)
      | (Inr listed, s1) \<Rightarrow>
          if list_ex (\<lambda>l. lw_work_id l = Some work_id) listed then (Inl (WorktreeExists work_id), s1)
          else (case resolve_in_scope canonicalize holding_dir (holding_dir @ [Normal work_id]) of
            Inl e \<Rightarrow> (Inl e, s1)
          | Inr target \<Rightarrow>
              (case git run repo_root [''rev-parse'', ''HEAD''] s1 of
                 (Inl e, s2) \<Rightarrow> (Inl (GitProblem e), s2)
               | (Inr base_commit, s2) \<Rightarrow>
                   (case git run repo_root [''worktree'', ''add'', ''-q'', ''-b'', branch_for work_id,
                       path_str target, base_commit] s2 of
                      (Inl e, s3) \<Rightarrow> (Inl (GitProblem e), s3)
                    | (Inr _, s3) \<Rightarrow>
                        (Inr \<lparr>wh_work_id = work_id, wh_path = path_str target, wh_branch = branch_for work_id,
                              wh_base_commit = base_commit\<rparr>, s3))))))"

definition remove_worktree_in ::
    "'s process \<Rightarrow> string \<Rightarrow> WorktreeHandle \<Rightarrow> 's \<Rightarrow> (WorkspaceError + unit) \<times> 's" where
  "remove_worktree_in run repo_root handle s =
     (case git run repo_root [''worktree'', ''remove'', ''--force'', wh_path handle] s of
        (Inl e, s1) \<Rightarrow> (Inl (GitProblem e), s1)
      | (Inr _, s1) \<Rightarrow>
          (case git run repo_root [''branch'', ''-D'', wh_branch handle] s1 of
             (Inl e, s2) \<Rightarrow> (Inl (GitProblem e), s2)
           | (Inr _, s2) \<Rightarrow> (Inr (), s2)))"

section \<open>Repository snapshots\<close>

definition REPOSITORY_SNAPSHOT_VERSION :: u32 where "REPOSITORY_SNAPSHOT_VERSION = 1"

record RepositorySnapshotV1 =
  rs_version :: u32
  rs_root :: string
  rs_branch :: "string option"
  rs_head :: string
  rs_remote :: "string option"
  rs_dirty :: bool
  rs_dirty_paths :: "string list"

definition status_path :: "string \<Rightarrow> string option" where
  "status_path line =
     (case split_once_whitespace (trim_start line) of
        None \<Rightarrow> None
      | Some (_, rest) \<Rightarrow>
          let path = trim rest in
          if path = [] then None
          else Some (case split_once_str '' -> '' path of Some (_, new) \<Rightarrow> new | None \<Rightarrow> path))"

definition parse_status_paths :: "string \<Rightarrow> string list" where
  "parse_status_paths status = List.map_filter status_path (lines_of status)"

definition snapshot_in :: "'s process \<Rightarrow> string \<Rightarrow> 's \<Rightarrow> (WorkspaceError + RepositorySnapshotV1) \<times> 's" where
  "snapshot_in run root s =
     (case git run root [''rev-parse'', ''--show-toplevel''] s of
        (Inl (GitFailed _ _ _), s1) \<Rightarrow> (Inl (NotARepository root), s1)
      | (Inl e, s1) \<Rightarrow> (Inl (GitProblem e), s1)
      | (Inr canonical, s1) \<Rightarrow>
     (case git run root [''rev-parse'', ''HEAD''] s1 of
        (Inl e, s2) \<Rightarrow> (Inl (GitProblem e), s2)
      | (Inr head, s2) \<Rightarrow>
     (case git run root [''branch'', ''--show-current''] s2 of
        (Inl e, s3) \<Rightarrow> (Inl (GitProblem e), s3)
      | (Inr branch, s3) \<Rightarrow>
     (case git run root [''remote'', ''get-url'', ''origin''] s3 of (remote, s4) \<Rightarrow>
     (case git run root [''status'', ''--porcelain=v1''] s4 of
        (Inl e, s5) \<Rightarrow> (Inl (GitProblem e), s5)
      | (Inr status, s5) \<Rightarrow>
          let dirty_paths = parse_status_paths status in
          (Inr \<lparr>rs_version = REPOSITORY_SNAPSHOT_VERSION, rs_root = canonical,
                rs_branch = (if branch = [] then None else Some branch), rs_head = head,
                rs_remote = (case remote of Inr url \<Rightarrow> if url = [] then None else Some url | Inl _ \<Rightarrow> None),
                rs_dirty = (dirty_paths \<noteq> []), rs_dirty_paths = dirty_paths\<rparr>, s5))))))"

section \<open>Bounded projections\<close>

record ChangedFile =
  cg_path :: string
  cg_added :: nat
  cg_removed :: nat

record DiffProjectionV1 =
  dp_files :: "ChangedFile list"
  dp_total_files :: nat
  dp_truncated :: bool

text \<open>\<open>splitn(3, '\t')\<close>: the third part keeps its tabs. The counts are below \<open>2 ^ 64\<close>.\<close>

definition parse_numstat_line :: "string \<Rightarrow> ChangedFile option" where
  "parse_numstat_line line =
     (case split_once (\<lambda>c. c = TAB) line of
        None \<Rightarrow> None
      | Some (added, rest) \<Rightarrow>
          (case split_once (\<lambda>c. c = TAB) rest of
             None \<Rightarrow> None
           | Some (removed, raw) \<Rightarrow>
               let path = trim raw in
               if path = [] then None
               else Some \<lparr>cg_path = path, cg_added = unwrap_or (parse_unsigned 64 added) 0,
                          cg_removed = unwrap_or (parse_unsigned 64 removed) 0\<rparr>))"

definition untracked_file :: "(string \<Rightarrow> string option) \<Rightarrow> string \<Rightarrow> ChangedFile" where
  "untracked_file read_to_string path =
     \<lparr>cg_path = path,
      cg_added = (case read_to_string path of None \<Rightarrow> 0 | Some body \<Rightarrow> length (lines_of body)),
      cg_removed = 0\<rparr>"

text \<open>The part after the two commands.\<close>

definition project_diff :: "(string \<Rightarrow> string option) \<Rightarrow> nat \<Rightarrow> string \<Rightarrow> string \<Rightarrow> DiffProjectionV1" where
  "project_diff read_to_string limit numstat untracked =
     (let files = sort_key cg_path (List.map_filter parse_numstat_line (lines_of numstat) @
            map (untracked_file read_to_string) (filter (\<lambda>l. trim l \<noteq> []) (lines_of untracked))) in
      \<lparr>dp_files = take limit files, dp_total_files = length files, dp_truncated = (length files > limit)\<rparr>)"

definition diff_projection_in ::
    "'s process \<Rightarrow> (string \<Rightarrow> string option) \<Rightarrow> string \<Rightarrow> nat \<Rightarrow> 's \<Rightarrow> (WorkspaceError + DiffProjectionV1) \<times> 's" where
  "diff_projection_in run read_to_string worktree limit s =
     (case git run worktree [''diff'', ''--numstat'', ''HEAD''] s of
        (Inl e, s1) \<Rightarrow> (Inl (GitProblem e), s1)
      | (Inr numstat, s1) \<Rightarrow>
          (case git run worktree [''ls-files'', ''--others'', ''--exclude-standard''] s1 of
             (Inl e, s2) \<Rightarrow> (Inl (GitProblem e), s2)
           | (Inr untracked, s2) \<Rightarrow> (Inr (project_diff read_to_string limit numstat untracked), s2)))"

record TestProjectionV1 =
  tp_command :: string
  tp_passed :: bool
  tp_exit_code :: "int option"
  tp_output :: string
  tp_truncated :: bool

definition output_tail :: "string \<Rightarrow> nat \<Rightarrow> string" where
  "output_tail combined output_limit =
     (if length combined > output_limit
      then drop (unwrap_or (find (is_char_boundary combined) [length combined - output_limit..<length combined])
                  (length combined)) combined
      else combined)"

definition test_projection_in ::
    "'s process \<Rightarrow> string \<Rightarrow> string \<Rightarrow> string list \<Rightarrow> nat \<Rightarrow> 's \<Rightarrow> (WorkspaceError + TestProjectionV1) \<times> 's" where
  "test_projection_in run worktree command args output_limit s =
     (case run command worktree args s of
        (None, s') \<Rightarrow> (Inl (CommandUnavailable command), s')
      | (Some out, s') \<Rightarrow>
          let combined = trim (from_utf8_lossy (po_stdout out) @ from_utf8_lossy (po_stderr out)) in
          (Inr \<lparr>tp_command = join_with '' '' (command # args), tp_passed = po_success out,
                tp_exit_code = po_code out, tp_output = output_tail combined output_limit,
                tp_truncated = (length combined > output_limit)\<rparr>, s'))"

section \<open>Workspace events\<close>

record WorkspacePreparedPayload =
  wp_repo_root :: string
  wp_worktree_path :: string
  wp_branch :: string
  wp_base_commit :: string
  wp_worker_id :: "string option"
  wp_lease_id :: "string option"

record WorkspaceReleasedPayload = wr_repo_root :: string

record workspace_codec =
  prepared_of_value :: "json \<Rightarrow> WorkspacePreparedPayload option"
  released_of_value :: "json \<Rightarrow> WorkspaceReleasedPayload option"

definition WorkspacePreparedPayload_from_event ::
    "workspace_codec \<Rightarrow> OperatorEvent \<Rightarrow> WorkspacePreparedPayload option" where
  "WorkspacePreparedPayload_from_event C event =
     (if ev_event_type event \<noteq> WorkspacePrepared then None else prepared_of_value C (ev_payload event))"

definition WorkspaceReleasedPayload_from_event ::
    "workspace_codec \<Rightarrow> OperatorEvent \<Rightarrow> WorkspaceReleasedPayload option" where
  "WorkspaceReleasedPayload_from_event C event =
     (if ev_event_type event \<noteq> WorkspaceReleased then None else released_of_value C (ev_payload event))"

definition workspace_scoped ::
    "string \<Rightarrow> string \<Rightarrow> OperatorEventType \<Rightarrow> string \<Rightarrow> json \<Rightarrow> string \<Rightarrow> OperatorEvent" where
  "workspace_scoped work_id thread_id event_type occurred_at payload new_event_id =
     \<lparr>ev_schema_version = OPERATOR_EVENT_SCHEMA_VERSION, ev_event_id = new_event_id, ev_thread_id = thread_id,
      ev_turn_id = None, ev_run_id = None, ev_call_id = None, ev_work_id = Some work_id,
      ev_event_type = event_type, ev_occurred_at = occurred_at,
      ev_actor = \<lparr>actor_kind = ''user'', actor_id = ''local''\<rparr>,
      ev_risk_class = RiskLow, ev_sensitivity = LocalPrivate, ev_parent_event_id = None,
      ev_correlation_id = None, ev_source_refs = [], ev_evidence_refs = [], ev_payload = payload\<rparr>"

definition prepared_payload :: "string \<Rightarrow> WorktreeHandle \<Rightarrow> string \<Rightarrow> string \<Rightarrow> json" where
  "prepared_payload repo_root handle worker_id lease_id =
     JObject [(''base_commit'', JString (wh_base_commit handle)), (''branch'', JString (wh_branch handle)),
       (''lease_id'', JString lease_id), (''repo_root'', JString repo_root), (''worker_id'', JString worker_id),
       (''worktree_path'', JString (wh_path handle))]"

definition workspace_prepared_event ::
    "string \<Rightarrow> string \<Rightarrow> string \<Rightarrow> WorktreeHandle \<Rightarrow> string \<Rightarrow> string \<Rightarrow> string \<Rightarrow> string \<Rightarrow> OperatorEvent" where
  "workspace_prepared_event work_id thread_id repo_root handle worker_id lease_id occurred_at new_event_id =
     workspace_scoped work_id thread_id WorkspacePrepared occurred_at
       (prepared_payload repo_root handle worker_id lease_id) new_event_id"

definition workspace_released_event :: "string \<Rightarrow> string \<Rightarrow> string \<Rightarrow> string \<Rightarrow> string \<Rightarrow> OperatorEvent" where
  "workspace_released_event work_id thread_id repo_root occurred_at new_event_id =
     workspace_scoped work_id thread_id WorkspaceReleased occurred_at (JObject [(''repo_root'', JString repo_root)])
       new_event_id"


section \<open>The guard\<close>

text \<open>A state property that every command the guard lets through keeps is kept by every operation.\<close>

locale guarded_process =
  fixes run :: "'s process" and inv :: "'s \<Rightarrow> bool"
  assumes keeps: "inv s \<Longrightarrow> \<not> discards_uncommitted_work args \<Longrightarrow> inv (snd (run ''git'' dir args s))"
begin

lemma git_keeps: "git run dir args s = (r, s') \<Longrightarrow> inv s \<Longrightarrow> inv s'"
  using keeps [of s args dir] by (auto simp: git_def split: prod.splits option.splits if_splits)

lemma list_keeps: "list_worktrees_in run repo s = (r, s') \<Longrightarrow> inv s \<Longrightarrow> inv s'"
  by (auto simp: list_worktrees_in_def split: prod.splits sum.splits dest: git_keeps)

lemma remove_keeps: "remove_worktree_in run repo h s = (r, s') \<Longrightarrow> inv s \<Longrightarrow> inv s'"
  by (auto simp: remove_worktree_in_def split: prod.splits sum.splits dest: git_keeps)

lemma diff_keeps: "diff_projection_in run rd w l s = (r, s') \<Longrightarrow> inv s \<Longrightarrow> inv s'"
  by (auto simp: diff_projection_in_def split: prod.splits sum.splits dest: git_keeps)

lemma create_keeps:
  assumes "create_worktree_in run canonicalize repo holding w s = (r, s')" "inv s"
  shows "inv s'"
proof -
  obtain r1 s1 where s1: "list_worktrees_in run repo s = (r1, s1)" by fastforce
  obtain r2 s2 where s2: "git run repo [''rev-parse'', ''HEAD''] s1 = (r2, s2)" by fastforce
  have i: "inv s1" "inv s2" using list_keeps [OF s1] git_keeps [OF s2] assms(2) by auto
  have add: "inv s3" if "git run repo args s2 = (r3, s3)" for args r3 s3 using git_keeps [OF that] i by simp
  show ?thesis
    using assms s1 s2 i unfolding create_worktree_in_def
    by (auto split: if_splits sum.splits prod.splits dest: add)
qed

lemma snapshot_keeps:
  assumes "snapshot_in run root s = (r, s')" "inv s"
  shows "inv s'"
proof -
  obtain r1 s1 where s1: "git run root [''rev-parse'', ''--show-toplevel''] s = (r1, s1)" by fastforce
  obtain r2 s2 where s2: "git run root [''rev-parse'', ''HEAD''] s1 = (r2, s2)" by fastforce
  obtain r3 s3 where s3: "git run root [''branch'', ''--show-current''] s2 = (r3, s3)" by fastforce
  obtain r4 s4 where s4: "git run root [''remote'', ''get-url'', ''origin''] s3 = (r4, s4)" by fastforce
  obtain r5 s5 where s5: "git run root [''status'', ''--porcelain=v1''] s4 = (r5, s5)" by fastforce
  have i: "inv s1" "inv s2" "inv s3" "inv s4" "inv s5"
    using git_keeps [OF s1] git_keeps [OF s2] git_keeps [OF s3] git_keeps [OF s4] git_keeps [OF s5] assms(2) by auto
  then have "s' \<in> {s1, s2, s3, s5}"
    using assms(1) unfolding snapshot_in_def s1 s2 s3 s4 s5 Let_def prod.case
    by (cases r1; cases r2; cases r3; cases r5) (auto simp: s2 s3 s4 s5 split: GitError.splits)
  with i show ?thesis by auto
qed

end

text \<open>A process that also keeps the list of the git commands it was asked to run, newest first.\<close>

definition logged :: "'s process \<Rightarrow> (string list list \<times> 's) process" where
  "logged run program dir args s =
     (case run program dir args (snd s) of (out, s') \<Rightarrow>
        (out, (if program = ''git'' then args # fst s else fst s, s')))"

interpretation command_log: guarded_process "logged run" "\<lambda>s. \<forall>args\<in>set (fst s). \<not> discards_uncommitted_work args" for run
  by unfold_locales (auto simp: logged_def split: prod.splits)

section \<open>Where a resolved path lies\<close>

text \<open>What \<open>canonicalize\<close> returns: an absolute path of plain names.\<close>

locale canonical_paths =
  fixes canonicalize :: "path \<Rightarrow> path option"
  assumes canonical: "canonicalize p = Some q \<Longrightarrow> \<exists>names. q = RootDir # map Normal names"

text \<open>Where a path lands: its longest existing prefix resolved, and the names that do not exist after it.\<close>

definition lands :: "(path \<Rightarrow> path option) \<Rightarrow> path \<Rightarrow> path \<Rightarrow> bool" where
  "lands canonicalize path r \<longleftrightarrow>
     (\<exists>pre q names. path = pre @ map Normal names \<and> canonicalize pre = Some q \<and> r = q @ map Normal names \<and>
        (\<forall>i. 0 < i \<and> i \<le> length names \<longrightarrow> canonicalize (pre @ map Normal (take i names)) = None))"

lemma path_ends [simp]: "path_parent (p @ [Normal n]) = Some p" "path_file_name (p @ [Normal n]) = Some n"
  by (auto simp: path_parent_def path_file_name_def)

lemma resolve_ancestor_lands:
  "resolve_ancestor canonicalize cursor trailing = Some r \<Longrightarrow>
   \<exists>pre q names. cursor = pre @ map Normal names \<and> canonicalize pre = Some q \<and> r = q @ map Normal (names @ trailing) \<and>
     (\<forall>i. 0 < i \<and> i < length names \<longrightarrow> canonicalize (pre @ map Normal (take i names)) = None)"
proof (induction canonicalize cursor trailing rule: resolve_ancestor.induct)
  case (1 canonicalize cursor trailing)
  from "1.prems" obtain parent name where step: "path_parent cursor = Some parent" "path_file_name cursor = Some name"
    by (subst (asm) resolve_ancestor.simps) (auto split: option.splits)
  then have cursor: "cursor = parent @ map Normal [name]"
    by (auto simp: path_parent_def path_file_name_def split: if_splits component.splits)
      (metis append_butlast_last_id)+
  show ?case
  proof (cases "canonicalize parent")
    case (Some q)
    with "1.prems" step have "r = q @ map Normal ([name] @ trailing)"
      by (subst (asm) resolve_ancestor.simps) simp
    moreover have "\<forall>i. 0 < i \<and> i < length [name] \<longrightarrow> canonicalize (parent @ map Normal (take i [name])) = None" by simp
    ultimately show ?thesis using cursor Some by blast
  next
    case None
    with "1.prems" step have "resolve_ancestor canonicalize parent (name # trailing) = Some r"
      by (subst (asm) resolve_ancestor.simps) simp
    from "1.IH" [OF step None this] obtain pre q names where
      up: "parent = pre @ map Normal names" "canonicalize pre = Some q" "r = q @ map Normal (names @ name # trailing)"
        "\<forall>i. 0 < i \<and> i < length names \<longrightarrow> canonicalize (pre @ map Normal (take i names)) = None" by blast
    have "canonicalize (pre @ map Normal (take i (names @ [name]))) = None" if "0 < i" "i < length (names @ [name])" for i
      using that None up(1,4) by (cases "i = length names") simp_all
    moreover have "cursor = pre @ map Normal (names @ [name])" "r = q @ map Normal ((names @ [name]) @ trailing)"
      using cursor up(1,3) by simp_all
    ultimately show ?thesis using up(2) by blast
  qed
qed

lemma lands_resolve_ancestor:
  assumes "canonicalize pre = Some q"
  shows "names \<noteq> [] \<Longrightarrow> \<forall>i. 0 < i \<and> i < length names \<longrightarrow> canonicalize (pre @ map Normal (take i names)) = None \<Longrightarrow>
    resolve_ancestor canonicalize (pre @ map Normal names) trailing = Some (q @ map Normal (names @ trailing))"
proof (induction names arbitrary: trailing rule: rev_induct)
  case (snoc n ns)
  note step = resolve_ancestor.simps [of canonicalize "(pre @ map Normal ns) @ [Normal n]" trailing, unfolded path_ends option.case]
  show ?case
  proof (cases "ns = []")
    case True
    then show ?thesis using step assms by simp
  next
    case False
    then have none: "canonicalize (pre @ map Normal ns) = None" using snoc.prems(2) [rule_format, of "length ns"] by simp
    have "canonicalize (pre @ map Normal (take i ns)) = None" if "0 < i" "i < length ns" for i
      using snoc.prems(2) [rule_format, of i] that by simp
    with snoc.IH [OF False, of "n # trailing"] none step show ?thesis by simp
  qed
qed simp

lemma landsI:
  assumes "path = pre @ map Normal names" "canonicalize pre = Some q" "r = q @ map Normal names"
    and "\<And>i. 0 < i \<Longrightarrow> i \<le> length names \<Longrightarrow> canonicalize (pre @ map Normal (take i names)) = None"
  shows "lands canonicalize path r"
  unfolding lands_def using assms by blast

lemma landsE:
  assumes "lands canonicalize path r"
  obtains pre q names where "path = pre @ map Normal names" "canonicalize pre = Some q" "r = q @ map Normal names"
    "\<And>i. 0 < i \<Longrightarrow> i \<le> length names \<Longrightarrow> canonicalize (pre @ map Normal (take i names)) = None"
  using assms unfolding lands_def by blast

lemma lands_existing:
  assumes "canonicalize path = Some q"
  shows "lands canonicalize path r \<longleftrightarrow> r = q"
proof
  assume "lands canonicalize path r"
  then show "r = q"
  proof (rule landsE)
    fix pre q' names
    assume p: "path = pre @ map Normal names" "canonicalize pre = Some q'" "r = q' @ map Normal names"
      and none: "\<And>i. 0 < i \<Longrightarrow> i \<le> length names \<Longrightarrow> canonicalize (pre @ map Normal (take i names)) = None"
    have "names = []" using none [of "length names"] assms p(1) by (cases names) simp_all
    then show "r = q" using p assms by simp
  qed
next
  assume "r = q"
  then show "lands canonicalize path r" using assms by (intro landsI [of path path "[]" canonicalize q]) simp_all
qed

lemma existing_prefix_lands: "canonicalize_existing_prefix canonicalize path = Some r \<longleftrightarrow> lands canonicalize path r"
proof (cases "canonicalize path")
  case None
  show ?thesis
  proof
    assume "canonicalize_existing_prefix canonicalize path = Some r"
    with None resolve_ancestor_lands [of canonicalize path "[]" r] obtain pre q names where
      up: "path = pre @ map Normal names" "canonicalize pre = Some q" "r = q @ map Normal names"
        "\<forall>i. 0 < i \<and> i < length names \<longrightarrow> canonicalize (pre @ map Normal (take i names)) = None"
      by (auto simp: canonicalize_existing_prefix_def)
    show "lands canonicalize path r"
    proof (rule landsI [of path pre names canonicalize q r, OF up(1-3)])
      show "canonicalize (pre @ map Normal (take i names)) = None" if "0 < i" "i \<le> length names" for i
        using that None up(1,4) by (cases "i = length names") simp_all
    qed
  next
    assume "lands canonicalize path r"
    then show "canonicalize_existing_prefix canonicalize path = Some r"
    proof (rule landsE)
      fix pre q names
      assume up: "path = pre @ map Normal names" "canonicalize pre = Some q" "r = q @ map Normal names"
        and none: "\<And>i. 0 < i \<Longrightarrow> i \<le> length names \<Longrightarrow> canonicalize (pre @ map Normal (take i names)) = None"
      have "names \<noteq> []" using None up(1,2) by auto
      from lands_resolve_ancestor [of canonicalize pre q names "[]", OF up(2) this] none None up(1,3) show ?thesis
        by (simp add: canonicalize_existing_prefix_def)
    qed
  qed
next
  case (Some q)
  then show ?thesis by (auto simp: canonicalize_existing_prefix_def lands_existing)
qed

text \<open>C36. A path is accepted as in scope, with the location that is returned, if and only if that location
  is where the candidate lands and is inside the root. A candidate that exists lands at its canonical path, so a
  link out of the root is refused; otherwise its longest prefix that exists is resolved and the remaining plain
  names, none of which exists, are appended. Inside the root means: the root's canonical path followed by plain names,
  never a parent component. A name that \<open>canonicalize\<close> cannot resolve, a dangling link among them, counts as
  one that does not exist. Of \<open>canonicalize\<close> it is used that it returns absolute paths of plain names.\<close>

theorem in_scope_path_lies_inside:
  assumes "canonical_paths canonicalize"
  shows "resolve_in_scope canonicalize root candidate = Inr resolved \<longleftrightarrow>
    lands canonicalize candidate resolved \<and>
    (\<exists>root_names names. canonicalize root = Some (RootDir # map Normal root_names) \<and>
       resolved = RootDir # map Normal (root_names @ names))"
proof -
  have plain: "\<exists>all. resolved = RootDir # map Normal all" if "lands canonicalize candidate resolved"
  proof -
    from that obtain pre q names where "canonicalize pre = Some q" "resolved = q @ map Normal names"
      unfolding lands_def by blast
    with canonical_paths.canonical [OF assms] show ?thesis by (metis append_Cons map_append)
  qed
  have inside: "prefix (RootDir # map Normal rn) resolved \<longleftrightarrow> (\<exists>names. resolved = RootDir # map Normal (rn @ names))"
    if "lands canonicalize candidate resolved" for rn
    using plain [OF that] by (auto simp: prefix_def map_eq_append_conv inj_map_eq_map inj_def)
  have "resolve_in_scope canonicalize root candidate = Inr resolved \<longleftrightarrow>
      lands canonicalize candidate resolved \<and> (\<exists>cr. canonicalize root = Some cr \<and> prefix cr resolved)"
    by (auto simp: resolve_in_scope_def existing_prefix_lands [symmetric] split: option.splits if_splits)
  also have "\<dots> \<longleftrightarrow> lands canonicalize candidate resolved \<and>
      (\<exists>rn. canonicalize root = Some (RootDir # map Normal rn) \<and> prefix (RootDir # map Normal rn) resolved)"
    using canonical_paths.canonical [OF assms, of root] by blast
  finally show ?thesis using inside by blast
qed

section \<open>Worktrees and their owners\<close>

text \<open>How \<open>git worktree list --porcelain\<close> prints one worktree.\<close>

definition block_lines :: "string \<times> string \<times> string option \<Rightarrow> string list" where
  "block_lines w = (case w of (path, head, branch) \<Rightarrow>
     [''worktree '' @ path, ''HEAD '' @ head, case branch of Some r \<Rightarrow> ''branch '' @ r | None \<Rightarrow> ''detached'', []])"

definition listed :: "string \<times> string \<times> string option \<Rightarrow> ListedWorktree" where
  "listed w = (case w of (path, head, branch) \<Rightarrow>
     \<lparr>lw_path = path, lw_head = head, lw_branch = branch, lw_work_id = Option.bind branch work_id_of_branch\<rparr>)"

abbreviation idle :: "ListedWorktree list \<Rightarrow> list_state" where
  "idle out \<equiv> \<lparr>ls_out = out, ls_path = None, ls_head = [], ls_branch = None\<rparr>"

lemma list_block: "foldl list_line (idle out) (block_lines w) = idle (out @ [listed w])"
  by (cases w) (auto simp: block_lines_def list_line_def flush_def listed_def strip_prefix_def split: option.splits)

lemma list_open_block: "flush (foldl list_line (idle out) (butlast (block_lines w))) = idle (out @ [listed w])"
  by (cases w) (auto simp: block_lines_def list_line_def flush_def listed_def strip_prefix_def split: option.splits)

lemma list_blocks: "foldl list_line (idle out) (concat (map block_lines ws)) = idle (out @ map listed ws)"
  by (induction ws arbitrary: out) (simp_all add: list_block)

lemma parse_printed_list:
  assumes "lines_of raw = concat (map block_lines ws) \<or> lines_of raw = butlast (concat (map block_lines ws))"
  shows "parse_worktree_list raw = map listed ws"
proof (cases "lines_of raw = concat (map block_lines ws)")
  case True
  then show ?thesis by (simp add: parse_worktree_list_def list_blocks flush_def)
next
  case False
  with assms have ne: "ws \<noteq> []" and raw: "lines_of raw = butlast (concat (map block_lines ws))" by auto
  then obtain ws' w where ws: "ws = ws' @ [w]" by (metis rev_exhaust)
  have "block_lines w \<noteq> []" by (cases w) (simp add: block_lines_def)
  with raw ws have "lines_of raw = concat (map block_lines ws') @ butlast (block_lines w)"
    by (simp add: butlast_append)
  then show ?thesis by (simp add: parse_worktree_list_def list_blocks list_open_block ws)
qed

lemma owner_of_branch:
  assumes "WorkId_parse w \<noteq> None"
  shows "work_id_of_branch (''refs/heads/'' @ branch_for w) = Some w"
proof -
  obtain wid where "WorkId_parse w = Some wid" using assms by auto
  from WorkId_parse_bytes [OF this] have no: "\<forall>c\<in>set w. \<not> c = CHR ''/''"
    by (auto simp: work_id_byte_def is_ascii_alphanumeric_def)
  have "contains (''refs/heads/'' @ branch_for w) BRANCH_PREFIX"
    unfolding contains_iff branch_for_def by (rule sublist_appendI)
  moreover have "split_on (\<lambda>c. c = CHR ''/'') (''refs/heads/'' @ branch_for w) = [''refs'', ''heads'', ''heiwa'', w]"
    using split_on_no_sep [OF no] by (simp add: branch_for_def BRANCH_PREFIX_def)
  ultimately show ?thesis by (simp add: work_id_of_branch_def)
qed

text \<open>One Work holds one worktree of a repository: when git's own listing, in its documented format, has a
  worktree on the branch of a valid Work, anywhere among others, creating another one for that Work is
  refused by name, and nothing but the listing has run.\<close>

theorem one_worktree_per_work:
  assumes "WorkId_parse w \<noteq> None"
    and "run ''git'' repo [''worktree'', ''list'', ''--porcelain''] s = (Some out, s')" "po_success out"
    and "lines_of (trim (from_utf8_lossy (po_stdout out))) = butlast (concat (map block_lines ws))"
    and "(path, head, Some (''refs/heads/'' @ branch_for w)) \<in> set ws"
  shows "create_worktree_in run canonicalize repo holding w s = (Inl (WorktreeExists w), s')"
proof -
  have "parse_worktree_list (trim (from_utf8_lossy (po_stdout out))) = map listed ws"
    using assms(4) by (intro parse_printed_list) simp
  then have "list_worktrees_in run repo s = (Inr (map listed ws), s')"
    using assms(2,3) by (simp add: list_worktrees_in_def git_def discards_uncommitted_work_def)
  moreover have "list_ex (\<lambda>l. lw_work_id l = Some w) (map listed ws)"
    using assms(5) owner_of_branch [OF assms(1)] by (force simp: list_ex_iff listed_def)
  ultimately show ?thesis using assms(1) by (simp add: create_worktree_in_def)
qed

section \<open>Projections\<close>

lemma output_tail_bounds:
  "length (output_tail c n) \<le> n \<and> suffix (output_tail c n) c \<and>
   (\<exists>i. is_char_boundary c i \<and> output_tail c n = drop i c)"
proof (cases "length c > n")
  case True
  let ?f = "find (is_char_boundary c) [length c - n..<length c]"
  show ?thesis
  proof (cases ?f)
    case None
    with True show ?thesis
      by (auto simp: output_tail_def is_char_boundary_def intro!: exI [of _ "length c"])
  next
    case (Some i)
    then have "is_char_boundary c i" "length c - n \<le> i" by (auto simp: find_Some_iff dest: nth_mem)
    with True Some show ?thesis by (auto simp: output_tail_def suffix_drop)
  qed
next
  case False
  then show ?thesis by (auto simp: output_tail_def is_char_boundary_def intro!: exI [of _ 0])
qed

text \<open>Projections are bounded and say so: a diff carries at most \<open>limit\<close> files, the first of all changed
  files in path order, with the true total and a truncation mark exactly when some are missing; a test
  run's output is at most the limit, a suffix of the whole that starts on a character boundary, marked
  exactly when it was cut, and a failing command is a result while a missing one is an error.\<close>

theorem projections_are_bounded:
  "(\<exists>files. sorted (map cg_path files) \<and>
      mset files = mset (List.map_filter parse_numstat_line (lines_of numstat) @
        map (untracked_file read) (filter (\<lambda>l. trim l \<noteq> []) (lines_of untracked))) \<and>
      project_diff read limit numstat untracked =
        \<lparr>dp_files = take limit files, dp_total_files = length files, dp_truncated = (length files > limit)\<rparr>) \<and>
   (case run command dir args s of
      (None, s') \<Rightarrow> test_projection_in run dir command args limit s = (Inl (CommandUnavailable command), s')
    | (Some out, s') \<Rightarrow>
        let whole = trim (from_utf8_lossy (po_stdout out) @ from_utf8_lossy (po_stderr out)) in
        \<exists>t. test_projection_in run dir command args limit s = (Inr t, s') \<and>
          tp_passed t = po_success out \<and> length (tp_output t) \<le> limit \<and> suffix (tp_output t) whole \<and>
          (\<exists>i. is_char_boundary whole i \<and> tp_output t = drop i whole) \<and>
          (tp_truncated t \<longleftrightarrow> tp_output t \<noteq> whole))"
proof -
  have "length (output_tail c n) < length c" if "length c > n" for c n
    using output_tail_bounds [of c n] that by linarith
  then have cut: "length c > n \<longleftrightarrow> output_tail c n \<noteq> c" for c n
    by (metis output_tail_def less_irrefl)
  show ?thesis
    using output_tail_bounds
    by (auto simp: project_diff_def test_projection_in_def Let_def cut [symmetric] simp del: mset_append
        intro!: exI [of _ "sort_key cg_path _"] split: prod.split option.split)
qed


section \<open>Payloads\<close>

text \<open>What the derived deserialisers promise on the payloads the constructors write.\<close>

locale workspace_codec_laws =
  fixes C :: workspace_codec
  assumes prepared_round_trip: "prepared_of_value C (prepared_payload repo h worker lease) =
      Some \<lparr>wp_repo_root = repo, wp_worktree_path = wh_path h, wp_branch = wh_branch h,
        wp_base_commit = wh_base_commit h, wp_worker_id = Some worker, wp_lease_id = Some lease\<rparr>"
    and released_round_trip:
      "released_of_value C (JObject [(''repo_root'', JString repo)]) = Some \<lparr>wr_repo_root = repo\<rparr>"
begin

lemma prepared_event_payload:
  "WorkspacePreparedPayload_from_event C (workspace_prepared_event w t repo h worker lease at i) =
     Some \<lparr>wp_repo_root = repo, wp_worktree_path = wh_path h, wp_branch = wh_branch h,
       wp_base_commit = wh_base_commit h, wp_worker_id = Some worker, wp_lease_id = Some lease\<rparr>"
  "WorkspaceReleasedPayload_from_event C (workspace_prepared_event w t repo h worker lease at i) = None"
  by (simp_all add: WorkspacePreparedPayload_from_event_def WorkspaceReleasedPayload_from_event_def
      workspace_prepared_event_def workspace_scoped_def prepared_round_trip)

lemma released_event_payload:
  "WorkspaceReleasedPayload_from_event C (workspace_released_event w t repo at i) = Some \<lparr>wr_repo_root = repo\<rparr>"
  "WorkspacePreparedPayload_from_event C (workspace_released_event w t repo at i) = None"
  by (simp_all add: WorkspacePreparedPayload_from_event_def WorkspaceReleasedPayload_from_event_def
      workspace_released_event_def workspace_scoped_def released_round_trip)

end

definition object_workspace_codec :: workspace_codec where
  "object_workspace_codec =
     \<lparr>prepared_of_value = (\<lambda>v.
        Option.bind (string_field v ''repo_root'') (\<lambda>r.
        Option.bind (string_field v ''worktree_path'') (\<lambda>p.
        Option.bind (string_field v ''branch'') (\<lambda>b.
        Option.bind (string_field v ''base_commit'') (\<lambda>c.
        Option.bind (optional_field as_str v ''worker_id'') (\<lambda>w.
        Option.bind (optional_field as_str v ''lease_id'') (\<lambda>l.
          Some \<lparr>wp_repo_root = r, wp_worktree_path = p, wp_branch = b, wp_base_commit = c,
                wp_worker_id = w, wp_lease_id = l\<rparr>))))))),
      released_of_value = (\<lambda>v. map_option (\<lambda>r. \<lparr>wr_repo_root = r\<rparr>) (string_field v ''repo_root''))\<rparr>"

interpretation object_workspace: workspace_codec_laws object_workspace_codec
  by unfold_locales
    (simp_all add: object_workspace_codec_def prepared_payload_def string_field_def optional_field_def json_get_def)

section \<open>A small file system\<close>

text \<open>A holding directory reached through a link.\<close>

definition demo_canonicalize :: "path \<Rightarrow> path option" where
  "demo_canonicalize = map_of
     [([RootDir], [RootDir]), ([RootDir, Normal ''link''], [RootDir, Normal ''srv'', Normal ''holding'']),
      ([RootDir, Normal ''srv''], [RootDir, Normal ''srv'']),
      ([RootDir, Normal ''srv'', Normal ''holding''], [RootDir, Normal ''srv'', Normal ''holding''])]"

interpretation demo_paths: canonical_paths demo_canonicalize
proof
  fix p q
  assume "demo_canonicalize p = Some q"
  then have "q \<in> {RootDir # map Normal [], RootDir # map Normal [''srv''], RootDir # map Normal [''srv'', ''holding'']}"
    by (auto simp: demo_canonicalize_def split: if_splits)
  then show "\<exists>names. q = RootDir # map Normal names" by blast
qed

lemma demo_in_scope:
  "resolve_in_scope demo_canonicalize [RootDir, Normal ''link''] [RootDir, Normal ''link'', Normal ''work-a''] =
     Inr [RootDir, Normal ''srv'', Normal ''holding'', Normal ''work-a'']"
  by (simp add: resolve_in_scope_def canonicalize_existing_prefix_def resolve_ancestor.simps path_parent_def
      path_file_name_def demo_canonicalize_def)

theorem in_scope_path_lies_inside_witness:
  "\<exists>root_names names. demo_canonicalize [RootDir, Normal ''link''] = Some (RootDir # map Normal root_names) \<and>
     [RootDir, Normal ''srv'', Normal ''holding'', Normal ''work-a''] = RootDir # map Normal (root_names @ names)"
  using demo_in_scope in_scope_path_lies_inside [OF demo_paths.canonical_paths_axioms] by blast

definition demo_listing :: string where
  "demo_listing = ''worktree /r'' @ [NL] @ ''HEAD c0'' @ [NL] @ ''branch refs/heads/main'' @ [NL, NL] @
     ''worktree /w'' @ [NL] @ ''HEAD c1'' @ [NL] @ ''branch refs/heads/heiwa/work-a'' @ [NL, NL]"

definition demo_process :: "nat process" where
  "demo_process program dir args s =
     (Some \<lparr>po_success = True, po_code = Some 0, po_stdout = demo_listing, po_stderr = []\<rparr>, s + 1)"

lemma demo_listing_lines:
  "lines_of (trim (from_utf8_lossy demo_listing)) =
     butlast (concat (map block_lines
       [(''/r'', ''c0'', Some ''refs/heads/main''), (''/w'', ''c1'', Some (''refs/heads/'' @ branch_for ''work-a''))]))"
  by code_simp

theorem one_worktree_per_work_witness:
  "create_worktree_in demo_process demo_canonicalize ''/r'' [RootDir, Normal ''link''] ''work-a'' 0 =
     (Inl (WorktreeExists ''work-a''), 1)"
proof -
  have "WorkId_parse ''work-a'' \<noteq> None" by (simp add: demo_parse)
  from one_worktree_per_work [OF this _ _ _, of demo_process "''/r''" 0
      "\<lparr>po_success = True, po_code = Some 0, po_stdout = demo_listing, po_stderr = []\<rparr>" 1
      "[(''/r'', ''c0'', Some ''refs/heads/main''), (''/w'', ''c1'', Some (''refs/heads/'' @ branch_for ''work-a''))]"
      "''/w''" "''c1''"]
  show ?thesis using demo_listing_lines by (simp add: demo_process_def)
qed

end
