(* ===== verification/Quota.thy ===== *)
theory Quota
  imports Json "HOL-Library.Product_Lexorder"
begin

text \<open>
  The quota ledger, \<open>crates/heiwa_quota/src/lib.rs\<close>: usage windows per provider and rate group, the
  remaining budget, and the run history. A database is its tables: \<open>quota_state\<close> by its primary key, in
  key order, and \<open>run_history\<close> as the rows in the order the engine scans them. The \<open>INSERT\<close> and
  \<open>SELECT\<close> statements are the operations on these tables. Parameters (\<open>quota_lib\<close>): printing and parsing
  of JSON, and what a \<open>REAL\<close> column gives back for a stored double. Failures of SQLite and the location
  of the file are not modelled; \<open>+\<close> on \<open>i64\<close> wraps, as in a release build.
\<close>

section \<open>The tables\<close>

definition QUOTA_SCHEMA_VERSION :: int where "QUOTA_SCHEMA_VERSION = 1"

record QuotaState =
  qs_provider :: string
  qs_rate_group :: string
  qs_window_start_unix :: int
  qs_window_seconds :: int
  qs_tokens_used :: int
  qs_requests :: int
  qs_updated_at_unix :: int

record RemainingBudget =
  rb_provider :: string
  rb_rate_group :: string
  rb_window_seconds :: int
  rb_token_limit :: int
  rb_tokens_used :: int
  rb_tokens_remaining :: int
  rb_requests :: int
  rb_window_resets_at_unix :: int
  rb_exhausted :: bool

record RunRecord =
  rr_id :: string
  rr_provider :: string
  rr_model_id :: string
  rr_started_at_unix :: int
  rr_ended_at_unix :: int
  rr_tokens_input :: int
  rr_tokens_output :: int
  rr_cost :: u64
  rr_status :: string
  rr_meta :: json

text \<open>A row of \<open>run_history\<close>: the record with its metadata as text.\<close>

type_synonym run_row = "RunRecord \<times> string"

record QuotaLedger =
  ql_version :: "int option"
  ql_quota :: "(string \<times> string, QuotaState) btree"
  ql_runs :: "run_row list"

datatype QuotaError = SchemaVersion int int

record quota_lib =
  qp_to_text :: "json \<Rightarrow> string"
  qp_of_text :: "string \<Rightarrow> json option"
  qp_real :: "u64 \<Rightarrow> u64"

definition new_database :: QuotaLedger where
  "new_database = \<lparr>ql_version = None, ql_quota = [], ql_runs = []\<rparr>"

definition migrate :: "QuotaLedger \<Rightarrow> QuotaError + QuotaLedger" where
  "migrate db =
     (case ql_version db of
        None \<Rightarrow> Inr (db\<lparr>ql_version := Some QUOTA_SCHEMA_VERSION\<rparr>)
      | Some v \<Rightarrow> if v = QUOTA_SCHEMA_VERSION then Inr db else Inl (SchemaVersion v QUOTA_SCHEMA_VERSION))"

section \<open>Usage windows\<close>

definition upsert_quota :: "QuotaState \<Rightarrow> QuotaLedger \<Rightarrow> QuotaLedger" where
  "upsert_quota s db = db\<lparr>ql_quota := bt_insert (qs_provider s, qs_rate_group s) s (ql_quota db)\<rparr>"

definition get_quota :: "QuotaLedger \<Rightarrow> string \<Rightarrow> string \<Rightarrow> QuotaState option" where
  "get_quota db provider rate_group = bt_get (ql_quota db) (provider, rate_group)"

definition record_use ::
    "string \<Rightarrow> string \<Rightarrow> int \<Rightarrow> int \<Rightarrow> int \<Rightarrow> int \<Rightarrow> QuotaLedger \<Rightarrow> QuotaState \<times> QuotaLedger" where
  "record_use provider rate_group window_seconds tokens requests now_unix db =
     (let (window_start, tokens_used, reqs) =
            (case get_quota db provider rate_group of
               Some s \<Rightarrow>
                 if now_unix < i64_saturating_add (qs_window_start_unix s) (qs_window_seconds s)
                 then (qs_window_start_unix s, i64_add (qs_tokens_used s) tokens, i64_add (qs_requests s) requests)
                 else (now_unix, tokens, requests)
             | None \<Rightarrow> (now_unix, tokens, requests));
          state = \<lparr>qs_provider = provider, qs_rate_group = rate_group, qs_window_start_unix = window_start,
                   qs_window_seconds = window_seconds, qs_tokens_used = tokens_used, qs_requests = reqs,
                   qs_updated_at_unix = now_unix\<rparr> in
      (state, upsert_quota state db))"

definition remaining_budget ::
    "QuotaLedger \<Rightarrow> string \<Rightarrow> string \<Rightarrow> int \<Rightarrow> int \<Rightarrow> int \<Rightarrow> RemainingBudget" where
  "remaining_budget db provider rate_group window_seconds token_limit now_unix =
     (let (tokens_used, requests, resets_at) =
            (case get_quota db provider rate_group of
               Some s \<Rightarrow>
                 if now_unix < i64_saturating_add (qs_window_start_unix s) (qs_window_seconds s)
                 then (max (qs_tokens_used s) 0, max (qs_requests s) 0,
                       i64_saturating_add (qs_window_start_unix s) (qs_window_seconds s))
                 else (0, 0, i64_saturating_add now_unix window_seconds)
             | None \<Rightarrow> (0, 0, i64_saturating_add now_unix window_seconds));
          tokens_remaining =
            (if token_limit \<le> 0 then 0 else max (i64_saturating_sub token_limit tokens_used) 0) in
      \<lparr>rb_provider = provider, rb_rate_group = rate_group, rb_window_seconds = window_seconds,
       rb_token_limit = token_limit, rb_tokens_used = tokens_used, rb_tokens_remaining = tokens_remaining,
       rb_requests = requests, rb_window_resets_at_unix = resets_at,
       rb_exhausted = (token_limit > 0 \<and> tokens_remaining = 0)\<rparr>)"

definition list_quotas :: "QuotaLedger \<Rightarrow> QuotaState list" where
  "list_quotas db = map snd (ql_quota db)"

section \<open>The run history\<close>

definition record_run :: "quota_lib \<Rightarrow> RunRecord \<Rightarrow> QuotaLedger \<Rightarrow> QuotaLedger" where
  "record_run L r db =
     db\<lparr>ql_runs := filter (\<lambda>row. rr_id (fst row) \<noteq> rr_id r) (ql_runs db) @
       [(r\<lparr>rr_cost := qp_real L (rr_cost r)\<rparr>, qp_to_text L (rr_meta r))]\<rparr>"

text \<open>A negative \<open>LIMIT\<close> is no limit; rows with the same start keep the engine's order.\<close>

definition recent_runs :: "quota_lib \<Rightarrow> int \<Rightarrow> QuotaLedger \<Rightarrow> RunRecord list" where
  "recent_runs L limit db =
     (let rows = sort_key (\<lambda>row. - rr_started_at_unix (fst row)) (ql_runs db) in
      map (\<lambda>(r, meta). r\<lparr>rr_meta := unwrap_or (qp_of_text L meta) JNull\<rparr>)
        (if limit < 0 then rows else take (nat limit) rows))"

section \<open>One window\<close>

text \<open>A run of uses, each with its tokens, requests and time.\<close>

definition record_uses :: "string \<Rightarrow> string \<Rightarrow> int \<Rightarrow> (int \<times> int \<times> int) list \<Rightarrow> QuotaLedger \<Rightarrow> QuotaLedger" where
  "record_uses p g w uses db = foldl (\<lambda>db (tokens, requests, now). snd (record_use p g w tokens requests now db)) db uses"

lemma get_after_use:
  "get_quota (snd (record_use p g w t r now db)) p' g' =
     (if p' = p \<and> g' = g then Some (fst (record_use p g w t r now db)) else get_quota db p' g')"
  by (auto simp: record_use_def upsert_quota_def get_quota_def Let_def split: prod.splits option.splits)

text \<open>A window that is open at the time of a use takes the use in.\<close>

lemma use_in_window:
  assumes "get_quota db p g = Some s" "qs_window_start_unix s = start" "qs_window_seconds s = w"
    and "now < start + w" "i64_range (start + w)"
    and "i64_range (qs_tokens_used s + t)" "i64_range (qs_requests s + r)"
  shows "fst (record_use p g w t r now db) =
    \<lparr>qs_provider = p, qs_rate_group = g, qs_window_start_unix = start, qs_window_seconds = w,
     qs_tokens_used = qs_tokens_used s + t, qs_requests = qs_requests s + r, qs_updated_at_unix = now\<rparr>"
  using assms by (simp add: record_use_def Let_def i64_add_exact i64_saturating_add_exact)

lemma use_opens_window:
  assumes "\<forall>s. get_quota db p g = Some s \<longrightarrow> i64_saturating_add (qs_window_start_unix s) (qs_window_seconds s) \<le> now"
  shows "fst (record_use p g w t r now db) =
    \<lparr>qs_provider = p, qs_rate_group = g, qs_window_start_unix = now, qs_window_seconds = w,
     qs_tokens_used = t, qs_requests = r, qs_updated_at_unix = now\<rparr>"
  using assms by (auto simp: record_use_def Let_def split: option.split)

lemma sums_nonneg:
  "\<forall>u\<in>set uses. (0 :: int) \<le> fst u \<and> (0 :: int) \<le> fst (snd u) \<Longrightarrow>
   0 \<le> sum_list (map fst uses) \<and> 0 \<le> sum_list (map (\<lambda>u. fst (snd u)) uses)"
  by (induction uses) auto

lemma uses_accumulate:
  assumes "get_quota db p g = Some s" "qs_window_start_unix s = start" "qs_window_seconds s = w"
    and "i64_range (start + w)" "\<forall>u\<in>set uses. 0 \<le> fst u \<and> 0 \<le> fst (snd u) \<and> snd (snd u) < start + w"
    and "0 \<le> qs_tokens_used s" "qs_tokens_used s + sum_list (map fst uses) < 2 ^ 63"
    and "0 \<le> qs_requests s" "qs_requests s + sum_list (map (\<lambda>u. fst (snd u)) uses) < 2 ^ 63"
  shows "\<exists>s'. get_quota (record_uses p g w uses db) p g = Some s' \<and> qs_window_start_unix s' = start \<and>
    qs_window_seconds s' = w \<and> qs_tokens_used s' = qs_tokens_used s + sum_list (map fst uses) \<and>
    qs_requests s' = qs_requests s + sum_list (map (\<lambda>u. fst (snd u)) uses)"
  using assms
proof (induction uses arbitrary: db s)
  case Nil
  then show ?case by (simp add: record_uses_def)
next
  case (Cons u uses)
  obtain t r now where u: "u = (t, r, now)" by (cases u)
  have nn: "0 \<le> sum_list (map fst uses) \<and> 0 \<le> sum_list (map (\<lambda>u. fst (snd u)) uses)"
    using Cons.prems(5) by (intro sums_nonneg) auto
  have "now < start + w" "i64_range (qs_tokens_used s + t)" "i64_range (qs_requests s + r)"
    using Cons.prems nn unfolding u i64_range_def by auto
  note step = use_in_window [OF Cons.prems(1-3) this(1) Cons.prems(4) this(2,3)]
  let ?db = "snd (record_use p g w t r now db)"
  have "get_quota ?db p g = Some (fst (record_use p g w t r now db))" by (simp add: get_after_use)
  from Cons.IH [OF this] Cons.prems show ?case
    by (auto simp: step u record_uses_def algebra_simps)
qed

text \<open>Recording the uses of one key leaves every other key alone.\<close>

lemma uses_other_key: "(p', g') \<noteq> (p, g) \<Longrightarrow> get_quota (record_uses p g w uses db) p' g' = get_quota db p' g'"
  by (induction uses arbitrary: db) (auto simp: record_uses_def get_after_use)

text \<open>C37. The budget accounts for every use: when a window opens at its first use and further uses follow
  before it ends, the recorded tokens and requests are exactly the sums of all of them, the remaining
  budget is the limit less that sum and never negative, it is reported exhausted exactly when the sum has
  reached a positive limit, and no other provider or rate group changes.\<close>

theorem budget_accounts_for_every_use:
  assumes fresh: "\<forall>s. get_quota db p g = Some s \<longrightarrow>
      i64_saturating_add (qs_window_start_unix s) (qs_window_seconds s) \<le> start"
    and window: "i64_range (start + w)" "now < start + w"
    and uses: "\<forall>u\<in>set ((t0, r0, start) # uses). 0 \<le> fst u \<and> 0 \<le> fst (snd u) \<and> snd (snd u) < start + w"
    and tokens: "used = t0 + sum_list (map fst uses)" "used < 2 ^ 63"
    and requests: "reqs = r0 + sum_list (map (\<lambda>u. fst (snd u)) uses)" "reqs < 2 ^ 63"
    and limit: "i64_range limit"
    and after: "db' = record_uses p g w ((t0, r0, start) # uses) db"
  shows "(let b = remaining_budget db' p g w limit now in
      rb_tokens_used b = used \<and> rb_requests b = reqs \<and> rb_window_resets_at_unix b = start + w \<and>
      rb_tokens_remaining b = max 0 (max 0 limit - used) \<and>
      (rb_exhausted b \<longleftrightarrow> 0 < limit \<and> limit \<le> used)) \<and>
    (\<forall>p' g'. (p', g') \<noteq> (p, g) \<longrightarrow> get_quota db' p' g' = get_quota db p' g')"
proof -
  let ?db = "snd (record_use p g w t0 r0 start db)"
  have db': "db' = record_uses p g w uses ?db" by (simp add: after record_uses_def)
  have first: "get_quota ?db p g = Some (fst (record_use p g w t0 r0 start db))" by (simp add: get_after_use)
  note opened = use_opens_window [OF fresh]
  have "\<exists>s'. get_quota db' p g = Some s' \<and> qs_window_start_unix s' = start \<and> qs_window_seconds s' = w \<and>
      qs_tokens_used s' = used \<and> qs_requests s' = reqs"
    using uses_accumulate [OF first, of start w uses] window uses tokens requests by (simp add: db' opened)
  then obtain s' where s': "get_quota db' p g = Some s'" "qs_window_start_unix s' = start" "qs_window_seconds s' = w"
      "qs_tokens_used s' = used" "qs_requests s' = reqs" by blast
  have "0 \<le> used" "0 \<le> reqs" using sums_nonneg [of "(t0, r0, start) # uses"] uses tokens requests by auto
  then have "max (i64_saturating_sub limit used) 0 = max 0 (limit - used)"
    using limit tokens by (simp add: i64_saturating_sub_def i64_range_def min_def max_def)
  with s' window \<open>0 \<le> used\<close> \<open>0 \<le> reqs\<close>
  have "let b = remaining_budget db' p g w limit now in
      rb_tokens_used b = used \<and> rb_requests b = reqs \<and> rb_window_resets_at_unix b = start + w \<and>
      rb_tokens_remaining b = max 0 (max 0 limit - used) \<and> (rb_exhausted b \<longleftrightarrow> 0 < limit \<and> limit \<le> used)"
    by (auto simp: remaining_budget_def i64_saturating_add_exact Let_def max_def split: if_splits)
  then show ?thesis using uses_other_key after by blast
qed

theorem budget_accounts_for_every_use_witness:
  "rb_tokens_remaining (remaining_budget
     (record_uses ''p'' ''g'' 60 [(5, 1, 100), (7, 1, 120)] new_database) ''p'' ''g'' 60 20 130) = 8"
proof -
  have "get_quota new_database ''p'' ''g'' = None" by (simp add: new_database_def get_quota_def)
  then have "let b = remaining_budget (record_uses ''p'' ''g'' 60 [(5, 1, 100), (7, 1, 120)] new_database) ''p'' ''g'' 60 20 130 in
      rb_tokens_used b = 12 \<and> rb_requests b = 2 \<and> rb_window_resets_at_unix b = 100 + 60 \<and>
      rb_tokens_remaining b = max 0 (max 0 20 - 12) \<and> (rb_exhausted b \<longleftrightarrow> 0 < (20 :: int) \<and> (20 :: int) \<le> 12)"
    by (intro conjunct1 [OF budget_accounts_for_every_use [OF _ _ _ _ _ _ _ _ _ refl]]) (auto simp: i64_range_def)
  then show ?thesis by (simp add: Let_def)
qed

section \<open>Tables\<close>

lemma list_quotas_after_use:
  "bt_inv (ql_quota db) \<Longrightarrow>
   sorted_wrt (<) (map fst (ql_quota (snd (record_use p g w t r now db)))) \<and>
   fst (record_use p g w t r now db) \<in> set (list_quotas (snd (record_use p g w t r now db)))"
proof -
  assume inv: "bt_inv (ql_quota db)"
  let ?s = "fst (record_use p g w t r now db)"
  obtain s where s: "record_use p g w t r now db = (s, upsert_quota s db)"
    by (rule that [of ?s]) (simp add: record_use_def Let_def split: prod.split)
  have "bt_inv (bt_insert (qs_provider s, qs_rate_group s) s (ql_quota db))" using inv by blast
  moreover have "bt_get (bt_insert (qs_provider s, qs_rate_group s) s (ql_quota db)) (qs_provider s, qs_rate_group s) = Some s"
    by simp
  then have "((qs_provider s, qs_rate_group s), s) \<in> set (bt_insert (qs_provider s, qs_rate_group s) s (ql_quota db))"
    by (rule map_of_SomeD)
  then have "s \<in> snd ` set (bt_insert (qs_provider s, qs_rate_group s) s (ql_quota db))" by force
  ultimately show ?thesis by (simp add: s upsert_quota_def list_quotas_def bt_inv_def)
qed

lemma recorded_run_is_recent:
  assumes "qp_of_text L (qp_to_text L (rr_meta r)) = Some (rr_meta r)" "limit < 0"
  shows "r\<lparr>rr_cost := qp_real L (rr_cost r)\<rparr> \<in> set (recent_runs L limit (record_run L r db))"
  using assms by (auto simp: recent_runs_def record_run_def Let_def)

end
