(* ===== verification/Automations.thy ===== *)
theory Automations
  imports Json "HOL-Library.Option_ord"
begin

text \<open>
  The data and the durable store of automations, \<open>crates/heiwa_automations/src/types/mod.rs\<close> and
  \<open>storage/mod.rs\<close>. A world holds the two tables of the database as lists of rows in the order they were
  inserted, the receipt files, and how often the clock and the identifier generator have been read. The
  SQL statements are the operations on the lists; a store operation is a function of the world that returns
  a result or an error together with the world it leaves behind, so that what was written before an error
  stays written. Times are nanoseconds, a \<open>Uuid\<close> is its canonical text. Parameters (\<open>auto_lib\<close>): the
  readings of the clock and of the generator, the text of a time, the derived codecs of the two records,
  the order in which a query without \<open>ORDER BY\<close> returns its rows, the file system, and the cron and time
  zone crates. Failures of SQLite other than its constraints are not modelled.
\<close>

section \<open>Types\<close>

type_synonym Uuid = string

datatype FileWatchEvent = FwCreate | FwModify | FwDelete

record CronTriggerConfig =
  ct_schedule :: string
  ct_timezone :: "string option"

record FileWatchTriggerConfig =
  fw_paths :: "string list"
  fw_events :: "FileWatchEvent list"
  fw_pattern :: "string option"
  fw_debounce_ms :: "u64 option"

datatype TriggerConfig = TcCron CronTriggerConfig | TcFileWatch FileWatchTriggerConfig

datatype ExternalSource = ExtApi | ExtScript | ExtWebhook

record FileWatchEventData =
  fe_path :: string
  fe_event :: FileWatchEvent
  fe_size :: "u64 option"

datatype TriggerEventData =
    TeCron int int
  | TeFileWatch int FileWatchEventData
  | TeExternal int ExternalSource "json option"

datatype AutomationStatus = AutoActive | AutoPaused | AutoDisabled

record Automation =
  au_id :: Uuid
  au_name :: string
  au_description :: "string option"
  au_prompt :: string
  au_trigger_config :: "TriggerConfig option"
  au_status :: AutomationStatus
  au_max_iterations :: u32
  au_max_executions_per_day :: "u32 option"
  au_max_executions_per_hour :: "u32 option"
  au_last_executed_at :: "int option"
  au_next_scheduled_at :: "int option"
  au_created_at :: int
  au_updated_at :: int

datatype ExecutionStatus =
  ExPending | ExRunning | ExAwaitingConfirmation | ExCompleted | ExFailed | ExCancelled

record Execution =
  ex_id :: Uuid
  ex_automation_id :: Uuid
  ex_status :: ExecutionStatus
  ex_trigger_data :: "TriggerEventData option"
  ex_started_at :: "int option"
  ex_completed_at :: "int option"
  ex_error_message :: "string option"
  ex_retry_count :: u32
  ex_created_at :: int

section \<open>Rows, library and world\<close>

record automation_row =
  ar_id :: string
  ar_name :: string
  ar_status :: string
  ar_trigger_type :: "string option"
  ar_json :: string
  ar_created_at :: string
  ar_updated_at :: string
  ar_last_executed_at :: "string option"
  ar_next_scheduled_at :: "string option"

record execution_row =
  er_id :: string
  er_automation_id :: string
  er_status :: string
  er_json :: string
  er_created_at :: string
  er_started_at :: "string option"
  er_completed_at :: "string option"

record auto_lib =
  al_clock :: "nat \<Rightarrow> int"
  al_uuid :: "nat \<Rightarrow> Uuid"
  al_parse_uuid :: "string \<Rightarrow> Uuid option"
  al_rfc3339 :: "int \<Rightarrow> string"
  al_write_automation :: "Automation \<Rightarrow> string"
  al_read_automation :: "string \<Rightarrow> Automation option"
  al_write_execution :: "Execution \<Rightarrow> string"
  al_read_execution :: "string \<Rightarrow> Execution option"
  al_scan :: "automation_row list \<Rightarrow> automation_row list"
  al_state_dir :: string
  al_writable :: "string \<Rightarrow> bool"
  al_schedule_parses :: "string \<Rightarrow> bool"
  al_tz_parses :: "string \<Rightarrow> bool"
  al_next_after :: "string \<Rightarrow> string \<Rightarrow> int \<Rightarrow> int option"

record auto_world =
  aw_automations :: "automation_row list"
  aw_executions :: "execution_row list"
  aw_receipts :: "string \<Rightarrow> json option"
  aw_reads :: nat
  aw_minted :: nat

datatype AutomationError =
    ConstraintViolation string
  | DecodeAutomation
  | DecodeExecution
  | InvalidUuid string
  | ExecutionNotPending Uuid
  | ExecutionNotFound Uuid
  | AutomationNotFound Uuid
  | NotQueued Uuid string
  | ClaimedByAnotherRunner Uuid
  | CronFieldCount nat string
  | CronParse string
  | TimezoneParse "string option"
  | ReceiptIo string

text \<open>Sequencing: \<open>?\<close> returns the error at once and keeps the world.\<close>

type_synonym 'a auto_op = "auto_world \<Rightarrow> (AutomationError + 'a) \<times> auto_world"

definition ok_op :: "'a \<Rightarrow> 'a auto_op" where
  "ok_op x w = (Inr x, w)"

definition err_op :: "AutomationError \<Rightarrow> 'a auto_op" where
  "err_op e w = (Inl e, w)"

definition and_then :: "'a auto_op \<Rightarrow> ('a \<Rightarrow> 'b auto_op) \<Rightarrow> 'b auto_op" where
  "and_then m f w = (case m w of (Inl e, w') \<Rightarrow> (Inl e, w') | (Inr x, w') \<Rightarrow> f x w')"

definition lift_result :: "AutomationError + 'a \<Rightarrow> 'a auto_op" where
  "lift_result r w = (r, w)"

text \<open>A loop whose body pushes what it returns.\<close>

primrec for_collect :: "('a \<Rightarrow> 'b list auto_op) \<Rightarrow> 'a list \<Rightarrow> 'b list auto_op" where
  "for_collect body [] = ok_op []"
| "for_collect body (x # xs) =
     and_then (body x) (\<lambda>ys. and_then (for_collect body xs) (\<lambda>zs. ok_op (ys @ zs)))"

definition utc_now :: "auto_lib \<Rightarrow> int auto_op" where
  "utc_now L w = (Inr (al_clock L (aw_reads w)), w\<lparr>aw_reads := Suc (aw_reads w)\<rparr>)"

definition new_uuid :: "auto_lib \<Rightarrow> Uuid auto_op" where
  "new_uuid L w = (Inr (al_uuid L (aw_minted w)), w\<lparr>aw_minted := Suc (aw_minted w)\<rparr>)"

section \<open>Building automations\<close>

definition AutomationId_from_string :: "auto_lib \<Rightarrow> string \<Rightarrow> AutomationError + Uuid" where
  "AutomationId_from_string L s = (case al_parse_uuid L s of Some u \<Rightarrow> Inr u | None \<Rightarrow> Inl (InvalidUuid s))"

definition Automation_new :: "auto_lib \<Rightarrow> string \<Rightarrow> string \<Rightarrow> Automation auto_op" where
  "Automation_new L name prompt =
     and_then (utc_now L) (\<lambda>now.
     and_then (new_uuid L) (\<lambda>uuid.
     ok_op \<lparr>au_id = uuid, au_name = name, au_description = None, au_prompt = prompt,
       au_trigger_config = None, au_status = AutoDisabled, au_max_iterations = 0,
       au_max_executions_per_day = None, au_max_executions_per_hour = None,
       au_last_executed_at = None, au_next_scheduled_at = None, au_created_at = now, au_updated_at = now\<rparr>))"

definition with_cron_trigger :: "string \<Rightarrow> string option \<Rightarrow> Automation \<Rightarrow> Automation" where
  "with_cron_trigger schedule timezone a =
     a\<lparr>au_trigger_config := Some (TcCron \<lparr>ct_schedule = schedule, ct_timezone = timezone\<rparr>)\<rparr>"

definition with_file_watch_trigger :: "FileWatchTriggerConfig \<Rightarrow> Automation \<Rightarrow> Automation" where
  "with_file_watch_trigger config a = a\<lparr>au_trigger_config := Some (TcFileWatch config)\<rparr>"

definition activate :: "auto_lib \<Rightarrow> Automation \<Rightarrow> Automation auto_op" where
  "activate L a = and_then (utc_now L) (\<lambda>now. ok_op (a\<lparr>au_status := AutoActive, au_updated_at := now\<rparr>))"

definition FileWatchTriggerConfig_new :: "string list \<Rightarrow> FileWatchEvent list \<Rightarrow> FileWatchTriggerConfig" where
  "FileWatchTriggerConfig_new paths events =
     \<lparr>fw_paths = paths, fw_events = events, fw_pattern = None, fw_debounce_ms = Some 500\<rparr>"

definition FileWatchTriggerConfig_default :: FileWatchTriggerConfig where
  "FileWatchTriggerConfig_default = FileWatchTriggerConfig_new [] []"

section \<open>Columns\<close>

fun trigger_type_text :: "TriggerConfig option \<Rightarrow> string option" where
  "trigger_type_text (Some (TcCron _)) = Some ''cron''"
| "trigger_type_text (Some (TcFileWatch _)) = Some ''file_watch''"
| "trigger_type_text None = None"

fun status_text :: "AutomationStatus \<Rightarrow> string" where
  "status_text AutoActive = ''active''"
| "status_text AutoPaused = ''paused''"
| "status_text AutoDisabled = ''disabled''"

fun execution_status_text :: "ExecutionStatus \<Rightarrow> string" where
  "execution_status_text ExPending = ''pending''"
| "execution_status_text ExRunning = ''running''"
| "execution_status_text ExAwaitingConfirmation = ''awaiting_confirmation''"
| "execution_status_text ExCompleted = ''completed''"
| "execution_status_text ExFailed = ''failed''"
| "execution_status_text ExCancelled = ''cancelled''"

definition row_of_automation :: "auto_lib \<Rightarrow> Automation \<Rightarrow> automation_row" where
  "row_of_automation L a =
     \<lparr>ar_id = au_id a, ar_name = au_name a, ar_status = status_text (au_status a),
      ar_trigger_type = trigger_type_text (au_trigger_config a), ar_json = al_write_automation L a,
      ar_created_at = al_rfc3339 L (au_created_at a), ar_updated_at = al_rfc3339 L (au_updated_at a),
      ar_last_executed_at = map_option (al_rfc3339 L) (au_last_executed_at a),
      ar_next_scheduled_at = map_option (al_rfc3339 L) (au_next_scheduled_at a)\<rparr>"

definition row_of_execution :: "auto_lib \<Rightarrow> Execution \<Rightarrow> execution_row" where
  "row_of_execution L e =
     \<lparr>er_id = ex_id e, er_automation_id = ex_automation_id e,
      er_status = execution_status_text (ex_status e), er_json = al_write_execution L e,
      er_created_at = al_rfc3339 L (ex_created_at e),
      er_started_at = map_option (al_rfc3339 L) (ex_started_at e),
      er_completed_at = map_option (al_rfc3339 L) (ex_completed_at e)\<rparr>"

section \<open>The automations table\<close>

fun decode_all :: "('r \<Rightarrow> 'a option) \<Rightarrow> AutomationError \<Rightarrow> 'r list \<Rightarrow> AutomationError + 'a list" where
  "decode_all dec err [] = Inr []"
| "decode_all dec err (r # rs) =
     (case dec r of
        None \<Rightarrow> Inl err
      | Some x \<Rightarrow> (case decode_all dec err rs of Inl e \<Rightarrow> Inl e | Inr xs \<Rightarrow> Inr (x # xs)))"

definition decode_rows :: "auto_lib \<Rightarrow> automation_row list \<Rightarrow> AutomationError + Automation list" where
  "decode_rows L rows = decode_all (\<lambda>r. al_read_automation L (ar_json r)) DecodeAutomation rows"

definition decode_execution_rows :: "auto_lib \<Rightarrow> execution_row list \<Rightarrow> AutomationError + Execution list" where
  "decode_execution_rows L rows = decode_all (\<lambda>r. al_read_execution L (er_json r)) DecodeExecution rows"

text \<open>\<open>ON CONFLICT(id) DO UPDATE\<close> replaces every column but \<open>id\<close> and \<open>created_at\<close>.\<close>

definition upsert_automation :: "auto_lib \<Rightarrow> Automation \<Rightarrow> unit auto_op" where
  "upsert_automation L a w =
     (let row = row_of_automation L a; rows = aw_automations w in
      (Inr (), w\<lparr>aw_automations :=
         if \<exists>r\<in>set rows. ar_id r = ar_id row
         then map (\<lambda>r. if ar_id r = ar_id row then row\<lparr>ar_created_at := ar_created_at r\<rparr> else r) rows
         else rows @ [row]\<rparr>))"

definition get_automation :: "auto_lib \<Rightarrow> Uuid \<Rightarrow> Automation option auto_op" where
  "get_automation L uuid w =
     (case find (\<lambda>r. ar_id r = uuid) (aw_automations w) of
        None \<Rightarrow> (Inr None, w)
      | Some r \<Rightarrow>
          (case al_read_automation L (ar_json r) of
             None \<Rightarrow> (Inl DecodeAutomation, w)
           | Some a \<Rightarrow> (Inr (Some a), w)))"

text \<open>Rows with equal keys keep the order of insertion.\<close>

definition list_automations :: "auto_lib \<Rightarrow> Automation list auto_op" where
  "list_automations L w = (decode_rows L (sort_key ar_created_at (aw_automations w)), w)"

definition list_active_with_triggers :: "auto_lib \<Rightarrow> Automation list auto_op" where
  "list_active_with_triggers L w =
     (decode_rows L (al_scan L
        (filter (\<lambda>r. ar_status r = ''active'' \<and> ar_trigger_type r \<noteq> None) (aw_automations w))), w)"

text \<open>The foreign key of the executions cascades.\<close>

definition delete_automation :: "Uuid \<Rightarrow> bool auto_op" where
  "delete_automation uuid w =
     (Inr (\<exists>r\<in>set (aw_automations w). ar_id r = uuid),
      w\<lparr>aw_automations := filter (\<lambda>r. ar_id r \<noteq> uuid) (aw_automations w),
        aw_executions := filter (\<lambda>r. er_automation_id r \<noteq> uuid) (aw_executions w)\<rparr>)"

definition mark_next_scheduled :: "auto_lib \<Rightarrow> Uuid \<Rightarrow> int option \<Rightarrow> unit auto_op" where
  "mark_next_scheduled L uuid next_scheduled_at =
     and_then (get_automation L uuid) (\<lambda>found.
       case found of
         None \<Rightarrow> ok_op ()
       | Some a \<Rightarrow>
           and_then (utc_now L) (\<lambda>now.
             upsert_automation L (a\<lparr>au_next_scheduled_at := next_scheduled_at, au_updated_at := now\<rparr>)))"

definition mark_last_executed :: "auto_lib \<Rightarrow> Uuid \<Rightarrow> int \<Rightarrow> unit auto_op" where
  "mark_last_executed L uuid at =
     and_then (get_automation L uuid) (\<lambda>found.
       case found of
         None \<Rightarrow> ok_op ()
       | Some a \<Rightarrow>
           and_then (utc_now L) (\<lambda>now.
             upsert_automation L (a\<lparr>au_last_executed_at := Some at, au_updated_at := now\<rparr>)))"

section \<open>The executions table\<close>

text \<open>The primary key and the foreign key refuse a row.\<close>

definition insert_execution :: "auto_lib \<Rightarrow> Execution \<Rightarrow> unit auto_op" where
  "insert_execution L e w =
     (if \<exists>r\<in>set (aw_executions w). er_id r = ex_id e then (Inl (ConstraintViolation ''executions.id''), w)
      else if \<not> (\<exists>r\<in>set (aw_automations w). ar_id r = ex_automation_id e)
      then (Inl (ConstraintViolation ''FOREIGN KEY''), w)
      else (Inr (), w\<lparr>aw_executions := aw_executions w @ [row_of_execution L e]\<rparr>))"

definition set_columns :: "auto_lib \<Rightarrow> Execution \<Rightarrow> execution_row \<Rightarrow> execution_row" where
  "set_columns L e r =
     r\<lparr>er_status := execution_status_text (ex_status e), er_json := al_write_execution L e,
       er_started_at := map_option (al_rfc3339 L) (ex_started_at e),
       er_completed_at := map_option (al_rfc3339 L) (ex_completed_at e)\<rparr>"

definition update_execution :: "auto_lib \<Rightarrow> Execution \<Rightarrow> unit auto_op" where
  "update_execution L e w =
     (Inr (), w\<lparr>aw_executions :=
        map (\<lambda>r. if er_id r = ex_id e then set_columns L e r else r) (aw_executions w)\<rparr>)"

definition get_execution :: "auto_lib \<Rightarrow> Uuid \<Rightarrow> Execution option auto_op" where
  "get_execution L uuid w =
     (case find (\<lambda>r. er_id r = uuid) (aw_executions w) of
        None \<Rightarrow> (Inr None, w)
      | Some r \<Rightarrow>
          (case al_read_execution L (er_json r) of
             None \<Rightarrow> (Inl DecodeExecution, w)
           | Some e \<Rightarrow> (Inr (Some e), w)))"

definition list_executions :: "auto_lib \<Rightarrow> Uuid \<Rightarrow> Execution list auto_op" where
  "list_executions L uuid w =
     (decode_execution_rows L
        (sort_key er_created_at (filter (\<lambda>r. er_automation_id r = uuid) (aw_executions w))), w)"

definition list_pending_executions :: "auto_lib \<Rightarrow> nat \<Rightarrow> Execution list auto_op" where
  "list_pending_executions L limit w =
     (decode_execution_rows L
        (take (max limit 1) (sort_key er_created_at (filter (\<lambda>r. er_status r = ''pending'') (aw_executions w)))), w)"

definition count_executions_since :: "auto_lib \<Rightarrow> Uuid \<Rightarrow> int \<Rightarrow> u32 auto_op" where
  "count_executions_since L uuid since w =
     (Inr (word_of_nat (length (filter
        (\<lambda>r. er_automation_id r = uuid \<and> al_rfc3339 L since \<le> er_created_at r) (aw_executions w)))), w)"

subsection \<open>Claims\<close>

text \<open>
  The claim is two statements: a query that decodes the row, and an update guarded by the status column.
  Another process may write between them.
\<close>

definition claim_guard :: "Uuid \<Rightarrow> execution_row \<Rightarrow> bool" where
  "claim_guard uuid r \<longleftrightarrow> er_id r = uuid \<and> er_status r = ''pending''"

definition claim_columns :: "auto_lib \<Rightarrow> Execution \<Rightarrow> execution_row \<Rightarrow> execution_row" where
  "claim_columns L e r =
     r\<lparr>er_status := ''running'', er_json := al_write_execution L e,
       er_started_at := map_option (al_rfc3339 L) (ex_started_at e)\<rparr>"

definition claim_update :: "auto_lib \<Rightarrow> Uuid \<Rightarrow> Execution \<Rightarrow> execution_row list \<Rightarrow> nat \<times> execution_row list" where
  "claim_update L uuid e rows =
     (length (filter (claim_guard uuid) rows),
      map (\<lambda>r. if claim_guard uuid r then claim_columns L e r else r) rows)"

definition claim_pending_execution :: "auto_lib \<Rightarrow> Uuid \<Rightarrow> Execution option auto_op" where
  "claim_pending_execution L uuid =
     and_then (get_execution L uuid) (\<lambda>found.
       case found of
         None \<Rightarrow> ok_op None
       | Some e \<Rightarrow>
           if ex_status e \<noteq> ExPending then ok_op None
           else and_then (utc_now L) (\<lambda>now. \<lambda>w.
             let e' = e\<lparr>ex_status := ExRunning, ex_started_at := Some now\<rparr>;
                 (changed, rows) = claim_update L uuid e' (aw_executions w) in
             (Inr (if changed = 1 then Some e' else None), w\<lparr>aw_executions := rows\<rparr>)))"

subsection \<open>Expired leases\<close>

definition recover_guard :: "Uuid \<Rightarrow> string option \<Rightarrow> execution_row \<Rightarrow> bool" where
  "recover_guard uuid started r \<longleftrightarrow> er_id r = uuid \<and> er_status r = ''running'' \<and> er_started_at r = started"

definition recover_update ::
    "auto_lib \<Rightarrow> string option \<Rightarrow> Execution \<Rightarrow> execution_row list \<Rightarrow> nat \<times> execution_row list" where
  "recover_update L started e rows =
     (length (filter (recover_guard (ex_id e) started) rows),
      map (\<lambda>r. if recover_guard (ex_id e) started r then set_columns L e r else r) rows)"

definition failed_lease :: "int \<Rightarrow> Execution \<Rightarrow> Execution" where
  "failed_lease now e =
     e\<lparr>ex_status := ExFailed, ex_completed_at := Some now,
       ex_error_message := Some ''execution_lease_retry_limit_exceeded''\<rparr>"

definition requeued_lease :: "Execution \<Rightarrow> Execution" where
  "requeued_lease e =
     e\<lparr>ex_status := ExPending, ex_started_at := None, ex_retry_count := saturating_add (ex_retry_count e) 1,
       ex_error_message := Some ''requeued_after_expired_lease''\<rparr>"

definition recover_commit :: "auto_lib \<Rightarrow> string option \<Rightarrow> Execution \<Rightarrow> Execution list auto_op" where
  "recover_commit L started e w =
     (let (changed, rows) = recover_update L started e (aw_executions w) in
      (Inr (if changed = 1 then [e] else []), w\<lparr>aw_executions := rows\<rparr>))"

definition recover_one :: "auto_lib \<Rightarrow> int \<Rightarrow> u32 \<Rightarrow> Execution \<Rightarrow> Execution list auto_op" where
  "recover_one L stale_before max_recoveries e =
     (if (case ex_started_at e of Some t \<Rightarrow> t > stale_before | None \<Rightarrow> False) then ok_op []
      else and_then
        (if ex_retry_count e \<ge> max_recoveries
         then and_then (utc_now L) (\<lambda>now. ok_op (failed_lease now e))
         else ok_op (requeued_lease e))
        (recover_commit L (map_option (al_rfc3339 L) (ex_started_at e))))"

definition recover_stale_running_executions :: "auto_lib \<Rightarrow> int \<Rightarrow> u32 \<Rightarrow> Execution list auto_op" where
  "recover_stale_running_executions L stale_before max_recoveries =
     and_then
       (\<lambda>w. (decode_execution_rows L
               (sort_key er_started_at (filter (\<lambda>r. er_status r = ''running'') (aw_executions w))), w))
       (for_collect (recover_one L stale_before max_recoveries))"

section \<open>Reasoning about operations\<close>

text \<open>
  A triple: from a world with \<open>P\<close>, a result \<open>x\<close> leaves a world with \<open>Q x\<close> and an error one with \<open>E\<close>.
\<close>

definition triple ::
    "(auto_world \<Rightarrow> bool) \<Rightarrow> 'a auto_op \<Rightarrow> ('a \<Rightarrow> auto_world \<Rightarrow> bool) \<Rightarrow> (auto_world \<Rightarrow> bool) \<Rightarrow> bool" where
  "triple P m Q E \<longleftrightarrow>
     (\<forall>w. P w \<longrightarrow> (case m w of (Inl _, w') \<Rightarrow> E w' | (Inr x, w') \<Rightarrow> Q x w'))"

named_theorems triple_rules \<open>rules for triples\<close>

lemma triple_and_then [triple_rules]:
  assumes "triple P m R E" "\<And>x. triple (R x) (f x) Q E"
  shows "triple P (and_then m f) Q E"
  using assms unfolding triple_def and_then_def by (fastforce split: prod.splits sum.splits)

lemma triple_ok [triple_rules]: "(\<And>w. P w \<Longrightarrow> Q x w) \<Longrightarrow> triple P (ok_op x) Q E"
  by (simp add: triple_def ok_op_def)

lemma triple_err [triple_rules]: "(\<And>w. P w \<Longrightarrow> E w) \<Longrightarrow> triple P (err_op e) Q E"
  by (simp add: triple_def err_op_def)

lemma triple_weaken:
  "triple P m Q E \<Longrightarrow> (\<And>w. P' w \<Longrightarrow> P w) \<Longrightarrow> (\<And>x w. Q x w \<Longrightarrow> Q' x w) \<Longrightarrow> triple P' m Q' E"
  unfolding triple_def by (fastforce split: prod.splits sum.splits)

lemma triple_pure: "(\<phi> \<Longrightarrow> triple P m Q E) \<Longrightarrow> triple (\<lambda>w. P w \<and> \<phi>) m Q E"
  by (simp add: triple_def)

text \<open>An operation that keeps a predicate, whatever it returns.\<close>

abbreviation keeps :: "(auto_world \<Rightarrow> bool) \<Rightarrow> 'a auto_op \<Rightarrow> bool" where
  "keeps I m \<equiv> triple I m (\<lambda>_. I) I"

lemma keepsI: "(\<And>w. I w \<Longrightarrow> I (snd (m w))) \<Longrightarrow> keeps I m"
  unfolding triple_def by (fastforce split: prod.splits sum.splits)

lemma keepsD: "keeps I m \<Longrightarrow> I w \<Longrightarrow> I (snd (m w))"
  unfolding triple_def by (fastforce split: prod.splits sum.splits)

lemma triple_keepsD: "triple P m (\<lambda>_. I) I \<Longrightarrow> P w \<Longrightarrow> I (snd (m w))"
  unfolding triple_def by (fastforce split: prod.splits sum.splits)

named_theorems keeps_rules \<open>rules for kept predicates\<close>

lemma keeps_and_then [keeps_rules]:
  "keeps I m \<Longrightarrow> (\<And>x. keeps I (f x)) \<Longrightarrow> keeps I (and_then m f)"
  by (rule triple_and_then)

lemma keeps_ok [keeps_rules]: "keeps I (ok_op x)" "keeps I (err_op e)"
  by (simp_all add: triple_ok triple_err)

lemma keeps_for_collect [keeps_rules]:
  "(\<And>x. x \<in> set xs \<Longrightarrow> keeps I (body x)) \<Longrightarrow> keeps I (for_collect body xs)"
proof (induction xs)
  case (Cons x xs)
  then have "keeps I (body x)" "keeps I (for_collect body xs)" by auto
  then show ?case by (auto intro!: keeps_rules)
qed (simp add: keeps_rules)

lemma keeps_lift [keeps_rules]: "keeps I (lift_result r)"
  by (rule keepsI) (simp add: lift_result_def)

text \<open>Readings of the clock and the generator change neither table.\<close>

definition blind :: "(auto_world \<Rightarrow> bool) \<Rightarrow> bool" where
  "blind I \<longleftrightarrow> (\<forall>w n. I w \<longrightarrow> I (w\<lparr>aw_reads := n\<rparr>) \<and> I (w\<lparr>aw_minted := n\<rparr>)) \<and>
     (\<forall>w f. I w \<longrightarrow> I (w\<lparr>aw_receipts := f\<rparr>))"

lemma keeps_now [keeps_rules]: "blind I \<Longrightarrow> keeps I (utc_now L)"
  by (rule keepsI) (simp add: utc_now_def blind_def)

lemma keeps_uuid [keeps_rules]: "blind I \<Longrightarrow> keeps I (new_uuid L)"
  by (rule keepsI) (simp add: new_uuid_def blind_def)

lemma keeps_queries [keeps_rules]:
  "keeps I (get_automation L u)" "keeps I (get_execution L u)" "keeps I (list_active_with_triggers L)"
  "keeps I (list_pending_executions L n)" "keeps I (count_executions_since L u t)"
  by (auto intro!: keepsI simp: get_automation_def get_execution_def list_active_with_triggers_def
      list_pending_executions_def count_executions_since_def split: option.splits)

section \<open>Columns and records agree\<close>

text \<open>What the derived codecs promise: reading back what was written.\<close>

definition codec_ok :: "auto_lib \<Rightarrow> bool" where
  "codec_ok L \<longleftrightarrow> (\<forall>a. al_read_automation L (al_write_automation L a) = Some a) \<and>
     (\<forall>e. al_read_execution L (al_write_execution L e) = Some e)"

lemma codec_okD [simp]:
  "codec_ok L \<Longrightarrow> al_read_automation L (al_write_automation L a) = Some a"
  "codec_ok L \<Longrightarrow> al_read_execution L (al_write_execution L e) = Some e"
  by (simp_all add: codec_ok_def)

text \<open>A row is well typed when its record decodes and every other column agrees with the record.\<close>

definition automation_row_ok :: "auto_lib \<Rightarrow> automation_row \<Rightarrow> bool" where
  "automation_row_ok L r \<longleftrightarrow>
     (case al_read_automation L (ar_json r) of
        None \<Rightarrow> False
      | Some a \<Rightarrow> r = (row_of_automation L a)\<lparr>ar_created_at := ar_created_at r\<rparr>)"

definition execution_row_ok :: "auto_lib \<Rightarrow> execution_row \<Rightarrow> bool" where
  "execution_row_ok L r \<longleftrightarrow>
     (case al_read_execution L (er_json r) of None \<Rightarrow> False | Some e \<Rightarrow> r = row_of_execution L e)"

definition store_ok :: "auto_lib \<Rightarrow> auto_world \<Rightarrow> bool" where
  "store_ok L w \<longleftrightarrow>
     distinct (map ar_id (aw_automations w)) \<and> distinct (map er_id (aw_executions w)) \<and>
     list_all (automation_row_ok L) (aw_automations w) \<and> list_all (execution_row_ok L) (aw_executions w) \<and>
     er_automation_id ` set (aw_executions w) \<subseteq> ar_id ` set (aw_automations w)"

lemma blind_store_ok [simp, intro]: "blind (store_ok L)"
  by (simp add: blind_def store_ok_def)

lemma row_of_automation_ok: "codec_ok L \<Longrightarrow> automation_row_ok L (row_of_automation L a)"
  by (simp add: automation_row_ok_def row_of_automation_def)

lemma row_of_execution_ok: "codec_ok L \<Longrightarrow> execution_row_ok L (row_of_execution L e)"
  by (simp add: execution_row_ok_def row_of_execution_def)

lemma map_same_ids:
  assumes "\<And>r. er_id (f r) = er_id r" "\<And>r. er_automation_id (f r) = er_automation_id r"
  shows "map er_id (map f rows) = map er_id rows" "er_automation_id ` set (map f rows) = er_automation_id ` set rows"
  using assms by (auto simp: image_iff)

text \<open>Any update of execution rows in place that leaves well-typed rows and both identifiers.\<close>

lemma store_ok_map_executions:
  assumes "store_ok L w" "\<And>r. er_id (f r) = er_id r" "\<And>r. er_automation_id (f r) = er_automation_id r"
    and "\<And>r. r \<in> set (aw_executions w) \<Longrightarrow> execution_row_ok L (f r)"
  shows "store_ok L (w\<lparr>aw_executions := map f (aw_executions w)\<rparr>)"
  using assms map_same_ids [of f "aw_executions w", OF assms(2,3)]
  by (auto simp: store_ok_def list_all_iff simp del: map_map)

lemma store_ok_upsert:
  assumes "codec_ok L" shows "keeps (store_ok L) (upsert_automation L a)"
proof (rule keepsI)
  fix w assume ok: "store_ok L w"
  let ?row = "row_of_automation L a"
  let ?f = "\<lambda>r. if ar_id r = ar_id ?row then ?row\<lparr>ar_created_at := ar_created_at r\<rparr> else r"
  have keepid: "ar_id (?f r) = ar_id r" for r by simp
  have new: "automation_row_ok L (?row\<lparr>ar_created_at := c\<rparr>)" for c
    using assms by (simp add: automation_row_ok_def row_of_automation_def)
  have ids: "map ar_id (map ?f rows) = map ar_id rows" for rows by (induction rows) auto
  have same: "ar_id ` set (map ?f rows) = ar_id ` set rows" for rows
    using ids [of rows] by (metis list.set_map)
  show "store_ok L (snd (upsert_automation L a w))"
  proof (cases "\<exists>r\<in>set (aw_automations w). ar_id r = ar_id ?row")
    case True
    then have "snd (upsert_automation L a w) = w\<lparr>aw_automations := map ?f (aw_automations w)\<rparr>"
      by (simp add: upsert_automation_def Let_def)
    then show ?thesis using ok ids same new by (auto simp: store_ok_def list_all_iff simp del: map_map)
  next
    case False
    then have "snd (upsert_automation L a w) = w\<lparr>aw_automations := aw_automations w @ [?row]\<rparr>"
      by (simp add: upsert_automation_def Let_def)
    then show ?thesis using ok False row_of_automation_ok [OF assms] by (auto simp: store_ok_def)
  qed
qed

lemma store_ok_delete: "keeps (store_ok L) (delete_automation u)"
  by (rule keepsI) (auto simp: delete_automation_def store_ok_def list_all_iff distinct_map_filter)

lemma store_ok_insert: "codec_ok L \<Longrightarrow> keeps (store_ok L) (insert_execution L e)"
  by (rule keepsI) (auto simp: insert_execution_def store_ok_def row_of_execution_ok,
    auto simp: row_of_execution_def image_iff dest: sym)

lemma store_ok_mark:
  assumes "codec_ok L"
  shows "keeps (store_ok L) (mark_next_scheduled L u t)" "keeps (store_ok L) (mark_last_executed L u t')"
  unfolding mark_next_scheduled_def mark_last_executed_def
  using store_ok_upsert [OF assms]
  by (auto intro!: keeps_rules split: option.split)

text \<open>
  A record read from the store, possibly some time ago, fits the store while no row with its identifier
  belongs to another automation or creation time.
\<close>

definition fits :: "auto_lib \<Rightarrow> Execution \<Rightarrow> auto_world \<Rightarrow> bool" where
  "fits L e w \<longleftrightarrow> (\<forall>r\<in>set (aw_executions w). er_id r = ex_id e \<longrightarrow>
     er_automation_id r = ex_automation_id e \<and> er_created_at r = al_rfc3339 L (ex_created_at e))"

lemma blind_fits [simp, intro]: "blind (fits L e)"
  by (simp add: blind_def fits_def)

lemma blind_conj [intro]: "blind I \<Longrightarrow> blind J \<Longrightarrow> blind (\<lambda>w. I w \<and> J w)"
  by (simp add: blind_def)

lemma blind_ball [intro]: "(\<And>e. blind (I e)) \<Longrightarrow> blind (\<lambda>w. \<forall>e\<in>S. I e w)"
  by (simp add: blind_def)

definition same_identity :: "Execution \<Rightarrow> Execution \<Rightarrow> bool" where
  "same_identity e e' \<longleftrightarrow>
     ex_id e' = ex_id e \<and> ex_automation_id e' = ex_automation_id e \<and> ex_created_at e' = ex_created_at e"

lemma fits_same_identity: "same_identity e e' \<Longrightarrow> fits L e' w = fits L e w"
  by (simp add: fits_def same_identity_def)

lemma set_columns_is_row:
  "er_id r = ex_id e \<Longrightarrow> er_automation_id r = ex_automation_id e \<Longrightarrow>
   er_created_at r = al_rfc3339 L (ex_created_at e) \<Longrightarrow> set_columns L e r = row_of_execution L e"
  by (cases r) (simp add: set_columns_def row_of_execution_def)

lemma set_columns_keeps_ids [simp]:
  "er_id (set_columns L e r) = er_id r" "er_automation_id (set_columns L e r) = er_automation_id r"
  "er_created_at (set_columns L e r) = er_created_at r"
  by (simp_all add: set_columns_def)

lemma claim_columns_keeps_ids [simp]:
  "er_id (claim_columns L e r) = er_id r" "er_automation_id (claim_columns L e r) = er_automation_id r"
  "er_created_at (claim_columns L e r) = er_created_at r" "er_status (claim_columns L e r) = ''running''"
  by (simp_all add: claim_columns_def)

text \<open>An update in place of rows with one identifier by a record that fits.\<close>

lemma store_ok_set_columns:
  assumes "codec_ok L" "store_ok L w" "fits L e w" "\<And>r. P r \<Longrightarrow> er_id r = ex_id e"
  shows "store_ok L (w\<lparr>aw_executions := map (\<lambda>r. if P r then set_columns L e r else r) (aw_executions w)\<rparr>)"
proof (rule store_ok_map_executions [OF assms(2)])
  fix r assume "r \<in> set (aw_executions w)"
  moreover have "list_all (execution_row_ok L) (aw_executions w)" using assms(2) by (simp add: store_ok_def)
  ultimately show "execution_row_ok L (if P r then set_columns L e r else r)"
    using assms(1,3,4) by (auto simp: list_all_iff fits_def set_columns_is_row row_of_execution_ok)
qed auto

lemma fits_map_executions:
  assumes "fits L e w" "\<And>r. er_id (f r) = er_id r" "\<And>r. er_automation_id (f r) = er_automation_id r"
    "\<And>r. er_created_at (f r) = er_created_at r"
  shows "fits L e (w\<lparr>aw_executions := map f (aw_executions w)\<rparr>)"
  using assms by (auto simp: fits_def)

lemma store_ok_update:
  assumes "codec_ok L" shows "triple (\<lambda>w. store_ok L w \<and> fits L e w) (update_execution L e) (\<lambda>_. store_ok L) (store_ok L)"
  using store_ok_set_columns [OF assms, of _ e "\<lambda>r. er_id r = ex_id e"]
  by (simp add: triple_def update_execution_def)

lemma row_in_store:
  assumes "store_ok L w" "r \<in> set (aw_executions w)" "al_read_execution L (er_json r) = Some e"
  shows "r = row_of_execution L e"
  using assms by (auto simp: store_ok_def list_all_iff execution_row_ok_def split: option.splits)

lemma rows_unique:
  assumes "store_ok L w" "r \<in> set (aw_executions w)" "r' \<in> set (aw_executions w)" "er_id r = er_id r'"
  shows "r = r'"
  using assms by (auto simp: store_ok_def distinct_map inj_on_def)

lemma row_fits:
  assumes "store_ok L w" "row_of_execution L e \<in> set (aw_executions w)"
  shows "fits L e w"
  using rows_unique [OF assms(1) _ assms(2)] by (force simp: fits_def row_of_execution_def)

lemma get_execution_Some:
  assumes "store_ok L w" "get_execution L u w = (Inr (Some e), w')"
  shows "w' = w" "ex_id e = u" "row_of_execution L e \<in> set (aw_executions w)"
proof -
  obtain r where r: "find (\<lambda>r. er_id r = u) (aw_executions w) = Some r" "al_read_execution L (er_json r) = Some e"
    using assms(2) by (auto simp: get_execution_def split: option.splits)
  then have mem: "r \<in> set (aw_executions w)" "er_id r = u" by (auto simp: find_Some_iff)
  have eq: "r = row_of_execution L e" using row_in_store [OF assms(1) mem(1) r(2)] .
  show "row_of_execution L e \<in> set (aw_executions w)" using mem eq by simp
  show "ex_id e = u" using mem eq by (simp add: row_of_execution_def)
  show "w' = w" using assms(2) by (auto simp: get_execution_def split: option.splits)
qed

lemma get_execution_total:
  assumes "store_ok L w" "row_of_execution L e \<in> set (aw_executions w)" "codec_ok L"
  shows "get_execution L (ex_id e) w = (Inr (Some e), w)"
proof -
  have "find (\<lambda>r. er_id r = ex_id e) (aw_executions w) \<noteq> None"
    using assms(2) by (auto simp: find_None_iff row_of_execution_def)
  then obtain r where r: "find (\<lambda>r. er_id r = ex_id e) (aw_executions w) = Some r" by auto
  then have "r \<in> set (aw_executions w)" "er_id r = ex_id e" by (auto simp: find_Some_iff)
  then have "r = row_of_execution L e"
    using rows_unique [OF assms(1) _ assms(2)] by (simp add: row_of_execution_def)
  then show ?thesis using r assms(3) by (simp add: get_execution_def row_of_execution_def)
qed

lemma get_execution_fits:
  "triple (store_ok L) (get_execution L u)
     (\<lambda>x w. store_ok L w \<and> (\<forall>e. x = Some e \<longrightarrow> ex_id e = u \<and> fits L e w)) (store_ok L)"
  unfolding triple_def
proof (intro allI impI)
  fix w assume ok: "store_ok L w"
  obtain x w' where get: "get_execution L u w = (x, w')" by fastforce
  have "w' = w" using get by (auto simp: get_execution_def split: option.splits)
  with get show "case get_execution L u w of (Inl _, w') \<Rightarrow> store_ok L w'
      | (Inr x, w') \<Rightarrow> store_ok L w' \<and> (\<forall>e. x = Some e \<longrightarrow> ex_id e = u \<and> fits L e w')"
    using ok get_execution_Some [OF ok] row_fits [OF ok] by (auto split: sum.split)
qed

subsection \<open>The claim\<close>

text \<open>The claim of a pending row: its columns become those of the running record, nothing else changes.\<close>

lemma claim_columns_is_row:
  "claim_columns L (e\<lparr>ex_status := ExRunning, ex_started_at := Some now\<rparr>) (row_of_execution L e) =
   row_of_execution L (e\<lparr>ex_status := ExRunning, ex_started_at := Some now\<rparr>)"
  by (simp add: claim_columns_def row_of_execution_def)

lemma execution_status_text_inj [simp]: "execution_status_text s = execution_status_text s' \<longleftrightarrow> s = s'"
  by (cases s; cases s') simp_all

lemma status_text_eqs [simp]:
  "execution_status_text s = ''pending'' \<longleftrightarrow> s = ExPending"
  "execution_status_text s = ''running'' \<longleftrightarrow> s = ExRunning"
  by (cases s; simp)+

lemma length_filter_one:
  assumes "distinct (map f xs)" "x \<in> set xs" "P x" "\<And>y. y \<in> set xs \<Longrightarrow> P y \<Longrightarrow> f y = f x"
  shows "length (filter P xs) = 1"
proof -
  have "set (filter P xs) = {x}" using assms by (auto simp: distinct_map inj_on_def)
  moreover have "distinct (filter P xs)" using assms(1) by (simp add: distinct_map)
  ultimately show ?thesis by (metis card.empty card.insert distinct_card empty_iff finite.emptyI One_nat_def)
qed

lemma claim_pending_execution_Some:
  assumes "codec_ok L" "store_ok L w" "row_of_execution L e \<in> set (aw_executions w)" "ex_status e = ExPending"
  defines "e' \<equiv> e\<lparr>ex_status := ExRunning, ex_started_at := Some (al_clock L (aw_reads w))\<rparr>"
  shows "claim_pending_execution L (ex_id e) w =
    (Inr (Some e'), w\<lparr>aw_reads := Suc (aw_reads w),
       aw_executions := map (\<lambda>r. if er_id r = ex_id e then row_of_execution L e' else r) (aw_executions w)\<rparr>)"
proof -
  have guard: "claim_guard (ex_id e) r \<longleftrightarrow> er_id r = ex_id e" if "r \<in> set (aw_executions w)" for r
    using rows_unique [OF assms(2) that assms(3)] assms(4) by (auto simp: claim_guard_def row_of_execution_def)
  have "r = row_of_execution L e" if "r \<in> set (aw_executions w)" "er_id r = ex_id e" for r
    using rows_unique [OF assms(2) that(1) assms(3)] that(2) by (simp add: row_of_execution_def)
  then have rows: "map (\<lambda>r. if claim_guard (ex_id e) r then claim_columns L e' r else r) (aw_executions w) =
      map (\<lambda>r. if er_id r = ex_id e then row_of_execution L e' else r) (aw_executions w)"
    using guard claim_columns_is_row [where e = e and L = L] by (auto simp: e'_def)
  have "length (filter (claim_guard (ex_id e)) (aw_executions w)) = 1"
  proof (rule length_filter_one [where f = er_id, OF _ assms(3)])
    show "distinct (map er_id (aw_executions w))" using assms(2) by (simp add: store_ok_def)
  qed (use guard assms(3) in \<open>auto simp: row_of_execution_def\<close>)
  then have "claim_update L (ex_id e) e' (aw_executions w) =
      (1, map (\<lambda>r. if er_id r = ex_id e then row_of_execution L e' else r) (aw_executions w))"
    by (simp only: claim_update_def rows)
  then show ?thesis
    using assms(4) get_execution_total [OF assms(2,3,1)]
    by (simp add: claim_pending_execution_def and_then_def utc_now_def e'_def Let_def)
qed

text \<open>Otherwise the claim changes no row.\<close>

lemma claim_pending_execution_None:
  assumes "codec_ok L" "store_ok L w"
    and "\<And>e. row_of_execution L e \<in> set (aw_executions w) \<Longrightarrow> ex_id e = u \<Longrightarrow> ex_status e \<noteq> ExPending"
  shows "claim_pending_execution L u w = (Inr None, w)"
proof (cases "find (\<lambda>r. er_id r = u) (aw_executions w)")
  case None
  then show ?thesis by (simp add: claim_pending_execution_def and_then_def get_execution_def ok_op_def)
next
  case (Some r)
  then have mem: "r \<in> set (aw_executions w)" "er_id r = u" by (auto simp: find_Some_iff)
  then obtain e where e: "al_read_execution L (er_json r) = Some e"
    using assms(2) by (auto simp: store_ok_def list_all_iff execution_row_ok_def split: option.splits)
  have "r = row_of_execution L e" by (rule row_in_store [OF assms(2) mem(1) e])
  then have "ex_status e \<noteq> ExPending" using assms(3) [of e] mem by (auto simp: row_of_execution_def)
  then show ?thesis using Some e
    by (simp add: claim_pending_execution_def and_then_def get_execution_def ok_op_def)
qed

lemma store_ok_replace:
  assumes "codec_ok L" "store_ok L w" "row_of_execution L e \<in> set (aw_executions w)" "same_identity e e'"
  shows "store_ok L (w\<lparr>aw_reads := n, aw_executions :=
    map (\<lambda>r. if er_id r = ex_id e then row_of_execution L e' else r) (aw_executions w)\<rparr>)"
proof -
  have "(if er_id r = ex_id e then row_of_execution L e' else r) = (if er_id r = ex_id e then set_columns L e' r else r)"
    if "r \<in> set (aw_executions w)" for r
    using rows_unique [OF assms(2) that assms(3)] assms(4)
    by (auto simp: set_columns_def row_of_execution_def same_identity_def)
  then have eq: "map (\<lambda>r. if er_id r = ex_id e then row_of_execution L e' else r) (aw_executions w) =
      map (\<lambda>r. if er_id r = ex_id e then set_columns L e' r else r) (aw_executions w)" by simp
  have "fits L e' w" using row_fits [OF assms(2,3)] fits_same_identity [OF assms(4)] by simp
  then have "store_ok L (w\<lparr>aw_executions := map (\<lambda>r. if er_id r = ex_id e then set_columns L e' r else r) (aw_executions w)\<rparr>)"
    using assms(4) by (intro store_ok_set_columns [OF assms(1,2)]) (simp_all add: same_identity_def)
  then show ?thesis unfolding eq by (simp add: store_ok_def)
qed

lemma store_ok_claim:
  assumes "codec_ok L" shows "keeps (store_ok L) (claim_pending_execution L u)"
proof (rule keepsI)
  fix w assume ok: "store_ok L w"
  show "store_ok L (snd (claim_pending_execution L u w))"
  proof (cases "\<exists>e. row_of_execution L e \<in> set (aw_executions w) \<and> ex_id e = u \<and> ex_status e = ExPending")
    case True
    then obtain e where e: "row_of_execution L e \<in> set (aw_executions w)" "ex_id e = u" "ex_status e = ExPending"
      by blast
    show ?thesis
      using claim_pending_execution_Some [OF assms ok e(1,3)] e(2)
        store_ok_replace [OF assms ok e(1), of "e\<lparr>ex_status := ExRunning, ex_started_at := Some (al_clock L (aw_reads w))\<rparr>"]
      by (simp add: same_identity_def)
  next
    case False
    then have "claim_pending_execution L u w = (Inr None, w)"
      by (intro claim_pending_execution_None [OF assms ok]) blast
    then show ?thesis using ok by simp
  qed
qed

subsection \<open>Recovery of expired leases\<close>

lemma recovered_identity: "same_identity e (requeued_lease e)" "same_identity e (failed_lease now e)"
  by (simp_all add: same_identity_def requeued_lease_def failed_lease_def)

lemma recovered_fields [simp]:
  "ex_id (requeued_lease e) = ex_id e" "ex_id (failed_lease now e) = ex_id e"
  "ex_status (requeued_lease e) = ExPending" "ex_status (failed_lease now e) = ExFailed"
  by (simp_all add: requeued_lease_def failed_lease_def)

lemma decode_all_set:
  "decode_all dec err rs = Inr xs \<Longrightarrow> x \<in> set xs \<Longrightarrow> \<exists>r\<in>set rs. dec r = Some x"
  by (induction rs arbitrary: xs) (auto split: option.splits sum.splits)

lemma recover_update_keeps:
  assumes "codec_ok L" "e \<in> C" "same_identity e e'"
  defines "I \<equiv> \<lambda>w. store_ok L w \<and> (\<forall>e\<in>C. fits L e w)"
  shows "keeps I (recover_commit L started e')"
proof (rule keepsI)
  fix w assume I: "I w"
  let ?f = "\<lambda>r. if recover_guard (ex_id e') started r then set_columns L e' r else r"
  have fits: "fits L e' w" using I assms(2) fits_same_identity [OF assms(3)] by (auto simp: I_def)
  have "store_ok L (w\<lparr>aw_executions := map ?f (aw_executions w)\<rparr>)"
    using I by (intro store_ok_set_columns [OF assms(1) _ fits]) (auto simp: I_def recover_guard_def)
  moreover have "fits L x (w\<lparr>aw_executions := map ?f (aw_executions w)\<rparr>)" if "x \<in> C" for x
    using I that by (intro fits_map_executions) (auto simp: I_def)
  ultimately show "I (snd (recover_commit L started e' w))"
    by (simp add: I_def recover_commit_def recover_update_def)
qed

lemma recover_one_keeps:
  assumes "codec_ok L" "e \<in> C"
  shows "keeps (\<lambda>w. store_ok L w \<and> (\<forall>e\<in>C. fits L e w)) (recover_one L t m e)"
proof -
  have blind: "blind (\<lambda>w. store_ok L w \<and> (\<forall>e\<in>C. fits L e w))"
    by (intro blind_conj blind_ball blind_fits blind_store_ok)
  have "triple (\<lambda>w. store_ok L w \<and> (\<forall>e\<in>C. fits L e w))
     (if ex_retry_count e \<ge> m then and_then (utc_now L) (\<lambda>now. ok_op (failed_lease now e)) else ok_op (requeued_lease e))
     (\<lambda>e' w. (store_ok L w \<and> (\<forall>e\<in>C. fits L e w)) \<and> same_identity e e') (\<lambda>w. store_ok L w \<and> (\<forall>e\<in>C. fits L e w))"
    using recovered_identity [of e]
    by (auto intro!: triple_ok triple_and_then [OF keeps_now [OF blind]])
  then have "keeps (\<lambda>w. store_ok L w \<and> (\<forall>e\<in>C. fits L e w))
      (and_then (if ex_retry_count e \<ge> m then and_then (utc_now L) (\<lambda>now. ok_op (failed_lease now e)) else ok_op (requeued_lease e))
        (recover_commit L started))" for started
    by (rule triple_and_then) (rule triple_pure, rule recover_update_keeps [OF assms])
  then show ?thesis by (simp add: recover_one_def keeps_ok)
qed

lemma store_ok_recover:
  assumes "codec_ok L" shows "keeps (store_ok L) (recover_stale_running_executions L t m)"
proof (rule keepsI)
  fix w assume ok: "store_ok L w"
  let ?rows = "sort_key er_started_at (filter (\<lambda>r. er_status r = ''running'') (aw_executions w))"
  show "store_ok L (snd (recover_stale_running_executions L t m w))"
  proof (cases "decode_execution_rows L ?rows")
    case (Inl e)
    then show ?thesis using ok by (simp add: recover_stale_running_executions_def and_then_def)
  next
    case (Inr xs)
    have "fits L x w" if mem: "x \<in> set xs" for x
    proof -
      obtain r where r: "r \<in> set ?rows" "al_read_execution L (er_json r) = Some x"
        using decode_all_set [OF Inr [unfolded decode_execution_rows_def] mem] by blast
      then have "row_of_execution L x \<in> set (aw_executions w)" using row_in_store [OF ok _ r(2)] by auto
      then show ?thesis by (rule row_fits [OF ok])
    qed
    with ok have "store_ok L w \<and> (\<forall>x\<in>set xs. fits L x w)" by blast
    moreover have "keeps (\<lambda>w. store_ok L w \<and> (\<forall>x\<in>set xs. fits L x w)) (for_collect (recover_one L t m) xs)"
      by (rule keeps_for_collect, rule recover_one_keeps [OF assms])
    ultimately have "store_ok L (snd (for_collect (recover_one L t m) xs w))" by (blast dest: keepsD)
    then show ?thesis using Inr by (simp add: recover_stale_running_executions_def and_then_def)
  qed
qed

end
