(* ===== verification/Automation_Run.thy ===== *)
theory Automation_Run
  imports Automations
begin

text \<open>
  The executor and the scheduler of automations, \<open>crates/heiwa_automations/src/executor/mod.rs\<close> and
  \<open>scheduler/mod.rs\<close>, over the store of \<open>Automations\<close>: queueing with rate limits, claims, completion,
  cancellation, draining with recovery of expired leases, scheduler ticks and cron expressions. The runner
  that does the work is a parameter; it may change the world, which stands for whatever happens to the store
  while it runs. The lifecycle of one execution is a step relation whose steps are the store's statements.
\<close>

section \<open>Executor\<close>

definition EXECUTION_LEASE_TIMEOUT_MINUTES :: int where "EXECUTION_LEASE_TIMEOUT_MINUTES = 60"
definition MAX_EXECUTION_LEASE_RECOVERIES :: u32 where "MAX_EXECUTION_LEASE_RECOVERIES = 3"

text \<open>\<open>chrono::Duration\<close> in nanoseconds.\<close>

definition minutes :: "int \<Rightarrow> int" where "minutes n = n * 60 * 10 ^ 9"
definition hours :: "int \<Rightarrow> int" where "hours n = n * 3600 * 10 ^ 9"
definition days :: "int \<Rightarrow> int" where "days n = n * 86400 * 10 ^ 9"

record QueueResult =
  qr_queued :: bool
  qr_execution_id :: "Uuid option"
  qr_automation_id :: Uuid
  qr_reason :: "string option"

datatype ExecutionOutcome =
    OutCompleted string "json option"
  | OutAwaitingConfirmation string string
  | OutFailed string

text \<open>What \<open>serde_json::to_value\<close> makes of an outcome, by its serde attributes.\<close>

fun outcome_json :: "ExecutionOutcome \<Rightarrow> json" where
  "outcome_json (OutCompleted summary output) =
     JObject [(''output'', case output of None \<Rightarrow> JNull | Some v \<Rightarrow> v), (''status'', JString ''completed''),
       (''summary'', JString summary)]"
| "outcome_json (OutAwaitingConfirmation request_id summary) =
     JObject [(''request_id'', JString request_id), (''status'', JString ''awaiting_confirmation''),
       (''summary'', JString summary)]"
| "outcome_json (OutFailed message) =
     JObject [(''message'', JString message), (''status'', JString ''failed'')]"

definition receipts_dir :: "auto_lib \<Rightarrow> string" where
  "receipts_dir L = al_state_dir L @ ''/automations/receipts''"

definition receipt_path :: "auto_lib \<Rightarrow> Uuid \<Rightarrow> string \<Rightarrow> string" where
  "receipt_path L uuid event = receipts_dir L @ ''/rcpt-'' @ uuid @ ''-'' @ event @ ''.json''"

definition write_receipt :: "auto_lib \<Rightarrow> Execution \<Rightarrow> string \<Rightarrow> json \<Rightarrow> unit auto_op" where
  "write_receipt L e event payload =
     (if \<not> al_writable L (receipts_dir L) then err_op (ReceiptIo (receipts_dir L))
      else and_then (utc_now L) (\<lambda>now. \<lambda>w.
        let path = receipt_path L (ex_id e) event;
            receipt = JObject
              [(''automation_id'', JString (ex_automation_id e)), (''created_at'', JString (al_rfc3339 L now)),
               (''event'', JString event), (''execution_id'', JString (ex_id e)),
               (''kind'', JString ''automation_execution_event''), (''payload'', payload),
               (''status'', JString (execution_status_text (ex_status e)))] in
        if \<not> al_writable L path then (Inl (ReceiptIo path), w)
        else (Inr (), w\<lparr>aw_receipts := (aw_receipts w)(path \<mapsto> receipt)\<rparr>)))"

definition below_limit :: "auto_lib \<Rightarrow> Uuid \<Rightarrow> u32 option \<Rightarrow> int \<Rightarrow> bool auto_op" where
  "below_limit L uuid limit span =
     (case limit of
        None \<Rightarrow> ok_op True
      | Some n \<Rightarrow>
          and_then (utc_now L) (\<lambda>now.
          and_then (count_executions_since L uuid (now - span)) (\<lambda>c. ok_op (\<not> c \<ge> n))))"

definition within_rate_limits :: "auto_lib \<Rightarrow> Automation \<Rightarrow> bool auto_op" where
  "within_rate_limits L a =
     and_then (below_limit L (au_id a) (au_max_executions_per_hour a) (hours 1)) (\<lambda>hour.
       if \<not> hour then ok_op False
       else and_then (below_limit L (au_id a) (au_max_executions_per_day a) (days 1)) (\<lambda>day.
         ok_op day))"

definition not_queued :: "Uuid \<Rightarrow> string \<Rightarrow> QueueResult" where
  "not_queued uuid reason =
     \<lparr>qr_queued = False, qr_execution_id = None, qr_automation_id = uuid, qr_reason = Some reason\<rparr>"

definition queue_execution :: "auto_lib \<Rightarrow> Uuid \<Rightarrow> TriggerEventData \<Rightarrow> QueueResult auto_op" where
  "queue_execution L uuid trigger_data =
     and_then (get_automation L uuid) (\<lambda>found.
       case found of
         None \<Rightarrow> ok_op (not_queued uuid ''automation_not_found'')
       | Some a \<Rightarrow>
           if au_status a \<noteq> AutoActive then ok_op (not_queued uuid ''automation_not_active'')
           else and_then (within_rate_limits L a) (\<lambda>within.
             if \<not> within then ok_op (not_queued uuid ''rate_limited'')
             else
               and_then (utc_now L) (\<lambda>now.
               and_then (new_uuid L) (\<lambda>fresh.
               let e = \<lparr>ex_id = fresh, ex_automation_id = uuid, ex_status = ExPending,
                        ex_trigger_data = Some trigger_data, ex_started_at = None, ex_completed_at = None,
                        ex_error_message = None, ex_retry_count = 0, ex_created_at = now\<rparr> in
               and_then (insert_execution L e) (\<lambda>_.
               and_then (write_receipt L e ''queued'' (JObject [(''reason'', JString ''triggered'')])) (\<lambda>_.
               ok_op \<lparr>qr_queued = True, qr_execution_id = Some fresh, qr_automation_id = uuid,
                      qr_reason = None\<rparr>))))))"

definition claim_execution :: "auto_lib \<Rightarrow> Uuid \<Rightarrow> Execution option auto_op" where
  "claim_execution L uuid =
     and_then (claim_pending_execution L uuid) (\<lambda>claimed.
       case claimed of
         None \<Rightarrow> ok_op None
       | Some e \<Rightarrow> and_then (write_receipt L e ''started'' (JObject [])) (\<lambda>_. ok_op (Some e)))"

definition start_execution :: "auto_lib \<Rightarrow> Uuid \<Rightarrow> Execution auto_op" where
  "start_execution L uuid =
     and_then (claim_execution L uuid) (\<lambda>claimed.
       case claimed of None \<Rightarrow> err_op (ExecutionNotPending uuid) | Some e \<Rightarrow> ok_op e)"

fun outcome_status :: "ExecutionOutcome \<Rightarrow> ExecutionStatus" where
  "outcome_status (OutCompleted _ _) = ExCompleted"
| "outcome_status (OutAwaitingConfirmation _ _) = ExAwaitingConfirmation"
| "outcome_status (OutFailed _) = ExFailed"

definition completed_execution :: "int \<Rightarrow> ExecutionOutcome \<Rightarrow> Execution \<Rightarrow> Execution" where
  "completed_execution now outcome e =
     e\<lparr>ex_completed_at := Some now, ex_status := outcome_status outcome,
       ex_error_message := (case outcome of OutFailed message \<Rightarrow> Some message | _ \<Rightarrow> ex_error_message e)\<rparr>"

definition complete_execution :: "auto_lib \<Rightarrow> Uuid \<Rightarrow> ExecutionOutcome \<Rightarrow> Execution auto_op" where
  "complete_execution L uuid outcome =
     and_then (get_execution L uuid) (\<lambda>found.
       case found of
         None \<Rightarrow> err_op (ExecutionNotFound uuid)
       | Some e \<Rightarrow>
           and_then (utc_now L) (\<lambda>now.
           let e' = completed_execution now outcome e in
           and_then (update_execution L e') (\<lambda>_.
           and_then (mark_last_executed L (ex_automation_id e') now) (\<lambda>_.
           and_then (write_receipt L e' ''completed'' (outcome_json outcome)) (\<lambda>_.
           ok_op e')))))"

definition cancelled_execution :: "int \<Rightarrow> string \<Rightarrow> Execution \<Rightarrow> Execution" where
  "cancelled_execution now reason e =
     e\<lparr>ex_status := ExCancelled, ex_error_message := Some reason, ex_completed_at := Some now\<rparr>"

definition cancel_execution :: "auto_lib \<Rightarrow> Uuid \<Rightarrow> string \<Rightarrow> Execution auto_op" where
  "cancel_execution L uuid reason =
     and_then (get_execution L uuid) (\<lambda>found.
       case found of
         None \<Rightarrow> err_op (ExecutionNotFound uuid)
       | Some e \<Rightarrow>
           and_then (utc_now L) (\<lambda>now.
           let e' = cancelled_execution now reason e in
           and_then (update_execution L e') (\<lambda>_.
           and_then (write_receipt L e' ''cancelled'' (JObject [(''reason'', JString reason)])) (\<lambda>_.
           ok_op e'))))"

text \<open>A runner's error becomes a failed outcome with its text.\<close>

type_synonym runner = "Automation \<Rightarrow> Execution \<Rightarrow> auto_world \<Rightarrow> (string + ExecutionOutcome) \<times> auto_world"

definition run_and_complete :: "auto_lib \<Rightarrow> runner \<Rightarrow> Execution \<Rightarrow> Uuid \<Rightarrow> Execution auto_op" where
  "run_and_complete L runner e uuid =
     and_then (get_automation L (ex_automation_id e)) (\<lambda>found.
       case found of
         None \<Rightarrow> err_op (AutomationNotFound (ex_automation_id e))
       | Some a \<Rightarrow> (\<lambda>w.
           let (r, w') = runner a e w;
               outcome = (case r of Inl err \<Rightarrow> OutFailed err | Inr out \<Rightarrow> out) in
           complete_execution L uuid outcome w'))"

definition run_now :: "auto_lib \<Rightarrow> runner \<Rightarrow> Uuid \<Rightarrow> TriggerEventData \<Rightarrow> Execution auto_op" where
  "run_now L runner uuid trigger_data =
     and_then (queue_execution L uuid trigger_data) (\<lambda>queue.
       case qr_execution_id queue of
         None \<Rightarrow> err_op (NotQueued (qr_automation_id queue) (unwrap_or (qr_reason queue) ''unknown''))
       | Some execution_id \<Rightarrow>
           and_then (claim_execution L execution_id) (\<lambda>claimed.
             case claimed of
               None \<Rightarrow> err_op (ClaimedByAnotherRunner execution_id)
             | Some e \<Rightarrow> run_and_complete L runner e execution_id))"

definition recovery_receipt :: "auto_lib \<Rightarrow> Execution \<Rightarrow> unit list auto_op" where
  "recovery_receipt L e =
     (case ex_status e of
        ExPending \<Rightarrow>
          and_then (write_receipt L e ''requeued'' (JObject [(''reason'', JString ''execution_lease_expired'')]))
            (\<lambda>_. ok_op [])
      | ExFailed \<Rightarrow>
          and_then (write_receipt L e ''failed''
              (JObject [(''reason'', JString ''execution_lease_retry_limit_exceeded'')]))
            (\<lambda>_. ok_op [])
      | _ \<Rightarrow> ok_op [])"

definition run_row :: "auto_lib \<Rightarrow> runner \<Rightarrow> Execution \<Rightarrow> Execution list auto_op" where
  "run_row L runner row =
     and_then (claim_execution L (ex_id row)) (\<lambda>claimed.
       case claimed of
         None \<Rightarrow> ok_op []
       | Some e \<Rightarrow> and_then (run_and_complete L runner e (ex_id e)) (\<lambda>finished. ok_op [finished]))"

definition run_pending :: "auto_lib \<Rightarrow> runner \<Rightarrow> nat \<Rightarrow> Execution list auto_op" where
  "run_pending L runner limit =
     and_then (utc_now L) (\<lambda>now.
     and_then (recover_stale_running_executions L (now - minutes EXECUTION_LEASE_TIMEOUT_MINUTES)
                 MAX_EXECUTION_LEASE_RECOVERIES) (\<lambda>recovered.
     and_then (for_collect (recovery_receipt L) recovered) (\<lambda>_.
     and_then (list_pending_executions L limit) (\<lambda>pending.
     for_collect (run_row L runner) pending))))"

section \<open>Scheduler\<close>

datatype SchedulerEvent =
    SchedQueued Uuid QueueResult int "int option"
  | SchedRescheduled Uuid int
  | SchedSkipped Uuid string

record SchedulerStatus =
  ss_active_cron :: nat
  ss_active_file_watch :: nat
  ss_next_scheduled_at :: "int option"

definition normalize_cron_expression :: "string \<Rightarrow> AutomationError + string" where
  "normalize_cron_expression expr =
     (let parts = split_whitespace expr; n = length parts in
      if n = 5 then Inr (''0 '' @ join_with '' '' parts @ '' *'')
      else if n = 6 then Inr (join_with '' '' parts @ '' *'')
      else if n = 7 then Inr (join_with '' '' parts)
      else Inl (CronFieldCount n expr))"

definition next_run_after :: "auto_lib \<Rightarrow> CronTriggerConfig \<Rightarrow> int \<Rightarrow> AutomationError + int option" where
  "next_run_after L config after =
     (case normalize_cron_expression (ct_schedule config) of
        Inl e \<Rightarrow> Inl e
      | Inr expr \<Rightarrow>
          if \<not> al_schedule_parses L expr then Inl (CronParse (ct_schedule config))
          else
            let tz = unwrap_or (ct_timezone config) ''UTC'' in
            if \<not> al_tz_parses L tz then Inl (TimezoneParse (ct_timezone config))
            else Inr (al_next_after L expr tz after))"

text \<open>The text of an error, \<open>{err:#}\<close>, is a parameter.\<close>

definition initialize_one ::
    "auto_lib \<Rightarrow> (AutomationError \<Rightarrow> string) \<Rightarrow> int \<Rightarrow> Automation \<Rightarrow> SchedulerEvent list auto_op" where
  "initialize_one L err_text now a =
     (case au_trigger_config a of
        Some (TcCron config) \<Rightarrow>
          (if au_next_scheduled_at a \<noteq> None then ok_op []
           else
             (case next_run_after L config now of
                Inr (Some nxt) \<Rightarrow>
                  and_then (mark_next_scheduled L (au_id a) (Some nxt))
                    (\<lambda>_. ok_op [SchedRescheduled (au_id a) nxt])
              | Inr None \<Rightarrow> ok_op [SchedSkipped (au_id a) ''no_future_run'']
              | Inl err \<Rightarrow> ok_op [SchedSkipped (au_id a) (''invalid_cron: '' @ err_text err)]))
      | _ \<Rightarrow> ok_op [])"

definition initialize_schedule_state ::
    "auto_lib \<Rightarrow> (AutomationError \<Rightarrow> string) \<Rightarrow> int \<Rightarrow> SchedulerEvent list auto_op" where
  "initialize_schedule_state L err_text now =
     and_then (list_active_with_triggers L) (for_collect (initialize_one L err_text now))"

definition due_time :: "auto_lib \<Rightarrow> CronTriggerConfig \<Rightarrow> int \<Rightarrow> Automation \<Rightarrow> int option" where
  "due_time L config now a =
     (case au_next_scheduled_at a of
        Some t \<Rightarrow> Some t
      | None \<Rightarrow> (case next_run_after L config now of Inr t \<Rightarrow> t | Inl _ \<Rightarrow> None))"

definition tick_one :: "auto_lib \<Rightarrow> int \<Rightarrow> Automation \<Rightarrow> SchedulerEvent list auto_op" where
  "tick_one L now a =
     (case au_trigger_config a of
        Some (TcCron config) \<Rightarrow>
          (case due_time L config now a of
             None \<Rightarrow> ok_op [SchedSkipped (au_id a) ''no_future_run'']
           | Some due_at \<Rightarrow>
               if due_at > now then
                 and_then (mark_next_scheduled L (au_id a) (Some due_at))
                   (\<lambda>_. ok_op [SchedRescheduled (au_id a) due_at])
               else
                 and_then (queue_execution L (au_id a) (TeCron now due_at)) (\<lambda>queue_result.
                 and_then (lift_result (next_run_after L config now)) (\<lambda>nxt.
                 and_then (mark_next_scheduled L (au_id a) nxt) (\<lambda>_.
                 ok_op [SchedQueued (au_id a) queue_result due_at nxt]))))
      | Some (TcFileWatch _) \<Rightarrow> ok_op []
      | None \<Rightarrow> ok_op [])"

definition tick :: "auto_lib \<Rightarrow> int \<Rightarrow> SchedulerEvent list auto_op" where
  "tick L now = and_then (list_active_with_triggers L) (for_collect (tick_one L now))"

definition queue_file_event :: "auto_lib \<Rightarrow> Uuid \<Rightarrow> FileWatchEventData \<Rightarrow> int \<Rightarrow> QueueResult auto_op" where
  "queue_file_event L uuid fe now = queue_execution L uuid (TeFileWatch now fe)"

definition status_one :: "SchedulerStatus \<Rightarrow> Automation \<Rightarrow> SchedulerStatus" where
  "status_one s a =
     (case au_trigger_config a of
        Some (TcCron _) \<Rightarrow>
          s\<lparr>ss_active_cron := Suc (ss_active_cron s),
            ss_next_scheduled_at :=
              (case au_next_scheduled_at a of
                 None \<Rightarrow> ss_next_scheduled_at s
               | Some nxt \<Rightarrow>
                   if (case ss_next_scheduled_at s of Some existing \<Rightarrow> nxt < existing | None \<Rightarrow> True)
                   then Some nxt else ss_next_scheduled_at s)\<rparr>
      | Some (TcFileWatch _) \<Rightarrow> s\<lparr>ss_active_file_watch := Suc (ss_active_file_watch s)\<rparr>
      | None \<Rightarrow> s)"

definition scheduler_status :: "auto_lib \<Rightarrow> SchedulerStatus auto_op" where
  "scheduler_status L =
     and_then (list_active_with_triggers L) (\<lambda>automations.
       ok_op (foldl status_one
         \<lparr>ss_active_cron = 0, ss_active_file_watch = 0, ss_next_scheduled_at = None\<rparr> automations))"

subsection \<open>File events\<close>

text \<open>The kinds of the \<open>notify\<close> crate's events that the mapping distinguishes.\<close>

datatype create_kind = CkAny | CkFile | CkFolder | CkOther
datatype modify_kind = MkAny | MkData | MkMetadata | MkName | MkOther
datatype remove_kind = RkAny | RkFile | RkFolder | RkOther
datatype event_kind =
  EkAny | EkAccess | EkCreate create_kind | EkModify modify_kind | EkRemove remove_kind | EkOther

definition map_notify_event :: "event_kind \<Rightarrow> string list \<Rightarrow> (FileWatchEvent \<times> string list) option" where
  "map_notify_event kind paths =
     (case kind of
        EkCreate c \<Rightarrow> if c \<in> {CkAny, CkFile, CkFolder} then Some (FwCreate, paths) else None
      | EkModify m \<Rightarrow> if m \<in> {MkAny, MkData, MkMetadata} then Some (FwModify, paths) else None
      | EkRemove r \<Rightarrow> if r \<in> {RkAny, RkFile, RkFolder} then Some (FwDelete, paths) else None
      | _ \<Rightarrow> None)"

section \<open>Every operation keeps the columns true to the records\<close>

lemma keeps_receipt [keeps_rules]: "blind I \<Longrightarrow> keeps I (write_receipt L e event payload)"
proof (rule keepsI)
  fix w assume "blind I" "I w"
  then have "I (w\<lparr>aw_reads := n\<rparr>)" "I (w\<lparr>aw_reads := n, aw_receipts := f\<rparr>)" for n f
    unfolding blind_def by blast+
  then show "I (snd (write_receipt L e event payload w))"
    using \<open>I w\<close> by (simp add: write_receipt_def err_op_def and_then_def utc_now_def Let_def)
qed

lemma keeps_limits [keeps_rules]: "blind I \<Longrightarrow> keeps I (within_rate_limits L a)"
  unfolding within_rate_limits_def below_limit_def by (auto intro!: keeps_rules split: option.split)

lemma keeps_recovery_receipt [keeps_rules]: "blind I \<Longrightarrow> keeps I (recovery_receipt L e)"
  unfolding recovery_receipt_def by (auto intro!: keeps_rules split: ExecutionStatus.split)

lemma store_ok_queue: "codec_ok L \<Longrightarrow> keeps (store_ok L) (queue_execution L u t)"
  unfolding queue_execution_def Let_def
  by (auto intro!: keeps_rules store_ok_insert split: option.split)

lemma store_ok_claim_execution: "codec_ok L \<Longrightarrow> keeps (store_ok L) (claim_execution L u)"
  unfolding claim_execution_def
  by (auto intro!: keeps_rules store_ok_claim split: option.split)

text \<open>Read a record, change it without its identity, write it back.\<close>

lemma store_ok_read_write:
  assumes "codec_ok L" "\<And>now e. same_identity e (g now e)" "\<And>now e. keeps (store_ok L) (rest now (g now e))"
  shows "keeps (store_ok L) (and_then (get_execution L u) (\<lambda>found.
    case found of None \<Rightarrow> err_op err
    | Some e \<Rightarrow> and_then (utc_now L) (\<lambda>now. and_then (update_execution L (g now e)) (\<lambda>_. rest now (g now e)))))"
proof (rule triple_and_then [OF get_execution_fits])
  fix found
  show "triple (\<lambda>w. store_ok L w \<and> (\<forall>e. found = Some e \<longrightarrow> ex_id e = u \<and> fits L e w))
    (case found of None \<Rightarrow> err_op err
     | Some e \<Rightarrow> and_then (utc_now L) (\<lambda>now. and_then (update_execution L (g now e)) (\<lambda>_. rest now (g now e))))
    (\<lambda>_. store_ok L) (store_ok L)"
  proof (cases found)
    case None
    then show ?thesis by (auto intro: triple_err)
  next
    case (Some e)
    have "triple (\<lambda>w. store_ok L w \<and> fits L e w) (utc_now L) (\<lambda>now w. store_ok L w \<and> fits L (g now e) w) (store_ok L)"
      using fits_same_identity [OF assms(2)] by (auto simp: triple_def utc_now_def store_ok_def fits_def)
    then have "triple (\<lambda>w. store_ok L w \<and> fits L e w)
        (and_then (utc_now L) (\<lambda>now. and_then (update_execution L (g now e)) (\<lambda>_. rest now (g now e))))
        (\<lambda>_. store_ok L) (store_ok L)"
      by (rule triple_and_then) (rule triple_and_then [OF store_ok_update [OF assms(1)] assms(3)])
    then show ?thesis using Some by (auto elim: triple_weaken)
  qed
qed

lemma store_ok_complete: "codec_ok L \<Longrightarrow> keeps (store_ok L) (complete_execution L u out)"
  unfolding complete_execution_def Let_def
  by (rule store_ok_read_write)
    (auto intro!: keeps_rules store_ok_mark simp: same_identity_def completed_execution_def)

lemma store_ok_cancel: "codec_ok L \<Longrightarrow> keeps (store_ok L) (cancel_execution L u reason)"
  unfolding cancel_execution_def Let_def
  by (rule store_ok_read_write) (auto intro!: keeps_rules simp: same_identity_def cancelled_execution_def)

lemma store_ok_run_and_complete:
  assumes "codec_ok L" "\<And>a e w. store_ok L w \<Longrightarrow> store_ok L (snd (runner a e w))"
  shows "keeps (store_ok L) (run_and_complete L runner e u)"
proof -
  have "keeps (store_ok L) (\<lambda>w. let (r, w') = runner a e w;
      outcome = (case r of Inl err \<Rightarrow> OutFailed err | Inr out \<Rightarrow> out) in complete_execution L u outcome w')" for a
  proof (rule keepsI)
    fix w assume "store_ok L w"
    then have "store_ok L (snd (runner a e w))" by (rule assms(2))
    then show "store_ok L (snd (let (r, w') = runner a e w;
        outcome = (case r of Inl err \<Rightarrow> OutFailed err | Inr out \<Rightarrow> out) in complete_execution L u outcome w'))"
      using keepsD [OF store_ok_complete [OF assms(1)]] by (cases "runner a e w") simp
  qed
  then show ?thesis unfolding run_and_complete_def by (auto intro!: keeps_rules split: option.split)
qed

lemmas store_ok_ops = store_ok_queue store_ok_claim_execution store_ok_complete store_ok_cancel
  store_ok_recover store_ok_mark store_ok_upsert

lemma store_ok_tick: "codec_ok L \<Longrightarrow> keeps (store_ok L) (tick L now)"
  unfolding tick_def tick_one_def
  by (auto intro!: keeps_rules store_ok_ops split: option.split TriggerConfig.split)

lemma store_ok_initialize: "codec_ok L \<Longrightarrow> keeps (store_ok L) (initialize_schedule_state L txt now)"
  unfolding initialize_schedule_state_def initialize_one_def
  by (auto intro!: keeps_rules store_ok_ops split: option.split TriggerConfig.split sum.split)

lemma store_ok_run_pending:
  assumes "codec_ok L" "\<And>a e w. store_ok L w \<Longrightarrow> store_ok L (snd (runner a e w))"
  shows "keeps (store_ok L) (run_pending L runner limit)"
  unfolding run_pending_def run_row_def
  using store_ok_run_and_complete [OF assms]
  by (auto intro!: keeps_rules store_ok_ops [OF assms(1)] split: option.split)

lemma store_ok_run_now:
  assumes "codec_ok L" "\<And>a e w. store_ok L w \<Longrightarrow> store_ok L (snd (runner a e w))"
  shows "keeps (store_ok L) (run_now L runner u t)"
  unfolding run_now_def
  using store_ok_run_and_complete [OF assms]
  by (auto intro!: keeps_rules store_ok_ops [OF assms(1)] split: option.split)

end
