(* ===== verification/Automation_Codec.thy ===== *)
theory Automation_Codec
  imports Automations Operator_Codec
begin

text \<open>
  A concrete codec for automations and executions. The program derives its codec with \<open>serde\<close>; this one
  is an instance the laws on that codec are checked on. Records are arrays of their fields, optional values
  arrays of at most one element, and a time is its sign and magnitude.
\<close>

section \<open>Values\<close>

definition write_time :: "int \<Rightarrow> json" where
  "write_time t = JArray (JBool (t < 0) # replicate (nat \<bar>t\<bar>) JNull)"

definition read_time :: "json \<Rightarrow> int option" where
  "read_time v =
     (case v of
        JArray (JBool b # vs) \<Rightarrow> Some (if b then - int (length vs) else int (length vs))
      | _ \<Rightarrow> None)"

definition write_opt :: "('a \<Rightarrow> json) \<Rightarrow> 'a option \<Rightarrow> json" where
  "write_opt f x = JArray (case x of None \<Rightarrow> [] | Some y \<Rightarrow> [f y])"

definition read_opt :: "(json \<Rightarrow> 'a option) \<Rightarrow> json \<Rightarrow> 'a option option" where
  "read_opt g v =
     (case v of
        JArray [] \<Rightarrow> Some None
      | JArray [x] \<Rightarrow> map_option Some (g x)
      | _ \<Rightarrow> None)"

fun read_all :: "(json \<Rightarrow> 'a option) \<Rightarrow> json list \<Rightarrow> 'a list option" where
  "read_all g [] = Some []"
| "read_all g (v # vs) = Option.bind (g v) (\<lambda>x. map_option ((#) x) (read_all g vs))"

definition read_array :: "(json \<Rightarrow> 'a option) \<Rightarrow> json \<Rightarrow> 'a list option" where
  "read_array g v = (case v of JArray vs \<Rightarrow> read_all g vs | _ \<Rightarrow> None)"

definition write_u64 :: "u64 \<Rightarrow> json" where
  "write_u64 n = JNumber (PosInt n)"

lemma read_write_u64 [simp]: "as_u64 (write_u64 n) = Some n"
  by (simp add: write_u64_def)

lemma read_write_time [simp]: "read_time (write_time t) = Some t"
  by (simp add: read_time_def write_time_def)

lemma read_write_opt [simp]: "(\<And>y. g (f y) = Some y) \<Longrightarrow> read_opt g (write_opt f x) = Some x"
  by (cases x) (simp_all add: read_opt_def write_opt_def)

lemma read_write_all [simp]: "(\<And>y. g (f y) = Some y) \<Longrightarrow> read_all g (map f xs) = Some xs"
  by (induction xs) simp_all

lemma read_write_array [simp]: "(\<And>y. g (f y) = Some y) \<Longrightarrow> read_array g (JArray (map f xs)) = Some xs"
  by (simp add: read_array_def)

section \<open>Enums\<close>

definition watch_tags :: "(FileWatchEvent \<times> string) list" where
  "watch_tags = [(FwCreate, ''create''), (FwModify, ''modify''), (FwDelete, ''delete'')]"

definition source_tags :: "(ExternalSource \<times> string) list" where
  "source_tags = [(ExtApi, ''api''), (ExtScript, ''script''), (ExtWebhook, ''webhook'')]"

definition automation_status_tags :: "(AutomationStatus \<times> string) list" where
  "automation_status_tags = [(AutoActive, ''active''), (AutoPaused, ''paused''), (AutoDisabled, ''disabled'')]"

definition execution_status_tags :: "(ExecutionStatus \<times> string) list" where
  "execution_status_tags = [(ExPending, ''pending''), (ExRunning, ''running''),
     (ExAwaitingConfirmation, ''awaiting_confirmation''), (ExCompleted, ''completed''), (ExFailed, ''failed''),
     (ExCancelled, ''cancelled'')]"

lemmas tag_defs = read_tag_def write_tag_def unwrap_or_def
  watch_tags_def source_tags_def automation_status_tags_def execution_status_tags_def

lemma automation_tags_round_trip [simp]:
  "read_tag watch_tags (write_tag watch_tags a) = Some a"
  "read_tag source_tags (write_tag source_tags b) = Some b"
  "read_tag automation_status_tags (write_tag automation_status_tags c) = Some c"
  "read_tag execution_status_tags (write_tag execution_status_tags d) = Some d"
proof -
  show "read_tag watch_tags (write_tag watch_tags a) = Some a" by (cases a) (simp_all add: tag_defs)
  show "read_tag source_tags (write_tag source_tags b) = Some b" by (cases b) (simp_all add: tag_defs)
  show "read_tag automation_status_tags (write_tag automation_status_tags c) = Some c"
    by (cases c) (simp_all add: tag_defs)
  show "read_tag execution_status_tags (write_tag execution_status_tags d) = Some d"
    by (cases d) (simp_all add: tag_defs)
qed

section \<open>Triggers\<close>

definition write_trigger :: "TriggerConfig \<Rightarrow> json" where
  "write_trigger c =
     (case c of
        TcCron x \<Rightarrow> JArray [JString (ct_schedule x), write_opt JString (ct_timezone x)]
      | TcFileWatch x \<Rightarrow> JArray [JArray (map JString (fw_paths x)), JArray (map (write_tag watch_tags) (fw_events x)),
          write_opt JString (fw_pattern x), write_opt write_u64 (fw_debounce_ms x)])"

definition read_trigger :: "json \<Rightarrow> TriggerConfig option" where
  "read_trigger v =
     (case v of
        JArray [s, z] \<Rightarrow>
          Option.bind (as_str s) (\<lambda>s. Option.bind (read_opt as_str z) (\<lambda>z.
          Some (TcCron \<lparr>ct_schedule = s, ct_timezone = z\<rparr>)))
      | JArray [p, e, f, d] \<Rightarrow>
          Option.bind (read_array as_str p) (\<lambda>p. Option.bind (read_array (read_tag watch_tags) e) (\<lambda>e.
          Option.bind (read_opt as_str f) (\<lambda>f. Option.bind (read_opt as_u64 d) (\<lambda>d.
          Some (TcFileWatch \<lparr>fw_paths = p, fw_events = e, fw_pattern = f, fw_debounce_ms = d\<rparr>)))))
      | _ \<Rightarrow> None)"

lemma read_write_trigger [simp]: "read_trigger (write_trigger c) = Some c"
  by (cases c) (simp_all add: read_trigger_def write_trigger_def)

definition write_trigger_event :: "TriggerEventData \<Rightarrow> json" where
  "write_trigger_event c =
     (case c of
        TeCron t s \<Rightarrow> JArray [JString ''cron'', write_time t, write_time s]
      | TeFileWatch t f \<Rightarrow> JArray [JString ''file_watch'', write_time t, JString (fe_path f),
          write_tag watch_tags (fe_event f), write_opt write_u64 (fe_size f)]
      | TeExternal t s m \<Rightarrow> JArray [JString ''external'', write_time t, write_tag source_tags s, write_opt id m])"

definition read_trigger_event :: "json \<Rightarrow> TriggerEventData option" where
  "read_trigger_event v =
     (case v of
        JArray [_, t, s] \<Rightarrow>
          Option.bind (read_time t) (\<lambda>t. Option.bind (read_time s) (\<lambda>s. Some (TeCron t s)))
      | JArray [_, t, p, e, z] \<Rightarrow>
          Option.bind (read_time t) (\<lambda>t. Option.bind (as_str p) (\<lambda>p.
          Option.bind (read_tag watch_tags e) (\<lambda>e. Option.bind (read_opt as_u64 z) (\<lambda>z.
          Some (TeFileWatch t \<lparr>fe_path = p, fe_event = e, fe_size = z\<rparr>)))))
      | JArray [_, t, s, m] \<Rightarrow>
          Option.bind (read_time t) (\<lambda>t. Option.bind (read_tag source_tags s) (\<lambda>s.
          Option.bind (read_opt Some m) (\<lambda>m. Some (TeExternal t s m))))
      | _ \<Rightarrow> None)"

lemma read_write_trigger_event [simp]: "read_trigger_event (write_trigger_event c) = Some c"
  by (cases c) (simp_all add: read_trigger_event_def write_trigger_event_def)

section \<open>Records\<close>

definition write_execution :: "Execution \<Rightarrow> json" where
  "write_execution e = JArray [JString (ex_id e), JString (ex_automation_id e),
     write_tag execution_status_tags (ex_status e), write_opt write_trigger_event (ex_trigger_data e),
     write_opt write_time (ex_started_at e), write_opt write_time (ex_completed_at e),
     write_opt JString (ex_error_message e), write_u32 (ex_retry_count e), write_time (ex_created_at e)]"

definition read_execution :: "json \<Rightarrow> Execution option" where
  "read_execution v =
     (case v of
        JArray [i, a, s, t, b, c, m, n, k] \<Rightarrow>
          Option.bind (as_str i) (\<lambda>i. Option.bind (as_str a) (\<lambda>a.
          Option.bind (read_tag execution_status_tags s) (\<lambda>s. Option.bind (read_opt read_trigger_event t) (\<lambda>t.
          Option.bind (read_opt read_time b) (\<lambda>b. Option.bind (read_opt read_time c) (\<lambda>c.
          Option.bind (read_opt as_str m) (\<lambda>m. Option.bind (read_u32 n) (\<lambda>n.
          Option.bind (read_time k) (\<lambda>k.
            Some \<lparr>ex_id = i, ex_automation_id = a, ex_status = s, ex_trigger_data = t, ex_started_at = b,
                  ex_completed_at = c, ex_error_message = m, ex_retry_count = n, ex_created_at = k\<rparr>)))))))))
      | _ \<Rightarrow> None)"

lemma read_write_execution: "read_execution (write_execution e) = Some e"
  by (simp add: read_execution_def write_execution_def)

definition write_automation :: "Automation \<Rightarrow> json" where
  "write_automation a = JArray [JString (au_id a), JString (au_name a), write_opt JString (au_description a),
     JString (au_prompt a), write_opt write_trigger (au_trigger_config a),
     write_tag automation_status_tags (au_status a), write_u32 (au_max_iterations a),
     write_opt write_u32 (au_max_executions_per_day a), write_opt write_u32 (au_max_executions_per_hour a),
     write_opt write_time (au_last_executed_at a), write_opt write_time (au_next_scheduled_at a),
     write_time (au_created_at a), write_time (au_updated_at a)]"

definition read_automation :: "json \<Rightarrow> Automation option" where
  "read_automation v =
     (case v of
        JArray [i, n, d, p, t, s, m, x, y, l, z, c, u] \<Rightarrow>
          Option.bind (as_str i) (\<lambda>i. Option.bind (as_str n) (\<lambda>n.
          Option.bind (read_opt as_str d) (\<lambda>d. Option.bind (as_str p) (\<lambda>p.
          Option.bind (read_opt read_trigger t) (\<lambda>t. Option.bind (read_tag automation_status_tags s) (\<lambda>s.
          Option.bind (read_u32 m) (\<lambda>m. Option.bind (read_opt read_u32 x) (\<lambda>x.
          Option.bind (read_opt read_u32 y) (\<lambda>y. Option.bind (read_opt read_time l) (\<lambda>l.
          Option.bind (read_opt read_time z) (\<lambda>z. Option.bind (read_time c) (\<lambda>c.
          Option.bind (read_time u) (\<lambda>u.
            Some \<lparr>au_id = i, au_name = n, au_description = d, au_prompt = p, au_trigger_config = t,
                  au_status = s, au_max_iterations = m, au_max_executions_per_day = x,
                  au_max_executions_per_hour = y, au_last_executed_at = l, au_next_scheduled_at = z,
                  au_created_at = c, au_updated_at = u\<rparr>)))))))))))))
      | _ \<Rightarrow> None)"

lemma read_write_automation: "read_automation (write_automation a) = Some a"
  by (simp add: read_automation_def write_automation_def)

section \<open>A library\<close>

text \<open>
  A clock that counts to a thousand, identifiers by their number, times as unary text, cron expressions that are due one
  unit later, and a file system that takes every write.
\<close>

definition sample_lib :: auto_lib where
  "sample_lib =
     \<lparr>al_clock = (\<lambda>n. 10 ^ 15 + int (min n 1000)), al_uuid = (\<lambda>n. replicate (Suc n) CHR ''u''), al_parse_uuid = Some,
      al_rfc3339 = (\<lambda>t. replicate (nat t) CHR ''t''),
      al_write_automation = (\<lambda>a. wire (write_automation a)),
      al_read_automation = (\<lambda>s. Option.bind (unwire s) read_automation),
      al_write_execution = (\<lambda>e. wire (write_execution e)),
      al_read_execution = (\<lambda>s. Option.bind (unwire s) read_execution),
      al_scan = (\<lambda>rows. rows), al_state_dir = ''s'', al_writable = (\<lambda>_. True),
      al_schedule_parses = (\<lambda>e. e \<noteq> ''0 x x x x x *''), al_tz_parses = (\<lambda>_. True),
      al_next_after = (\<lambda>e z t. Some (t + 1))\<rparr>"

lemma sample_codec: "codec_ok sample_lib"
  unfolding codec_ok_def sample_lib_def
  by (simp add: wire_text.of_to_text read_write_automation read_write_execution del: wire.simps)

end
