(* ===== verification/Automation_Life.thy ===== *)
theory Automation_Life
  imports Automation_Run Automation_Codec
begin

text \<open>
  What holds of automations over time: the store stays well typed, a pending execution is claimed by one
  claimant only and started a bounded number of times, the rate limits bound what is queued, and a due
  automation is queued once.
\<close>

section \<open>The store stays well typed\<close>

definition empty_world :: auto_world where
  "empty_world = \<lparr>aw_automations = [], aw_executions = [], aw_receipts = (\<lambda>_. None), aw_reads = 0, aw_minted = 0\<rparr>"

lemma store_ok_empty [simp]: "store_ok L empty_world"
  by (simp add: store_ok_def empty_world_def)

lemma decode_rows_of:
  "codec_ok L \<Longrightarrow> decode_execution_rows L (map (row_of_execution L) es) = Inr es"
  unfolding decode_execution_rows_def by (induction es) (simp_all add: row_of_execution_def)

text \<open>In a well-typed store a query by column is the query by record.\<close>

definition executions_of :: "auto_lib \<Rightarrow> auto_world \<Rightarrow> Execution list" where
  "executions_of L w = map (\<lambda>r. the (al_read_execution L (er_json r))) (aw_executions w)"

lemma store_ok_rows:
  assumes "store_ok L w" shows "aw_executions w = map (row_of_execution L) (executions_of L w)"
proof -
  have "row_of_execution L (the (al_read_execution L (er_json r))) = r" if "r \<in> set (aw_executions w)" for r
    using assms that by (auto simp: store_ok_def list_all_iff execution_row_ok_def split: option.splits)
  then show ?thesis by (simp add: executions_of_def comp_def map_idI)
qed

lemma pending_query:
  assumes "codec_ok L" "store_ok L w"
  shows "list_pending_executions L limit w =
    (Inr (take (max limit 1) (sort_key (\<lambda>e. al_rfc3339 L (ex_created_at e))
       (filter (\<lambda>e. ex_status e = ExPending) (executions_of L w)))), w)"
proof -
  let ?es = "executions_of L w"
  have "filter (\<lambda>r. er_status r = ''pending'') (aw_executions w) =
      map (row_of_execution L) (filter (\<lambda>e. ex_status e = ExPending) ?es)"
    by (subst store_ok_rows [OF assms(2)]) (simp add: filter_map comp_def row_of_execution_def)
  moreover have "sort_key er_created_at (map (row_of_execution L) es) =
      map (row_of_execution L) (sort_key (\<lambda>e. al_rfc3339 L (ex_created_at e)) es)" for es
    by (rule sort_key_map) (simp add: row_of_execution_def)
  ultimately show ?thesis
    using assms(1) by (simp add: list_pending_executions_def take_map decode_rows_of)
qed

text \<open>C33. The denormalised columns follow the records. Call a store well typed when each JSON record decodes,
  every column is the one its record gives (except an automation's creation time, which the upsert writes
  only once), identifiers are unique, and every execution belongs to a stored automation. Each of these
  operations, whether it succeeds or returns an error halfway, leaves a well-typed store well typed:
  upserting, deleting and marking an automation, inserting, queueing, claiming, completing and cancelling an
  execution, running one now or the pending ones (given a runner that keeps the store well typed), initialising
  the schedule, and a tick; updating an execution does so when the record has the automation and the creation
  time of its row. In a well-typed store the query by the status column returns exactly the pending records, up
  to the limit, ordered by the RFC 3339 text of their creation times.\<close>

theorem automation_store_well_typed:
  assumes codec: "codec_ok L" and runner: "\<And>a e w. store_ok L w \<Longrightarrow> store_ok L (snd (runner a e w))"
    and ok: "store_ok L w"
  shows "store_ok L (snd (upsert_automation L a w)) \<and> store_ok L (snd (delete_automation u w)) \<and>
    store_ok L (snd (queue_execution L u trigger w)) \<and> store_ok L (snd (claim_execution L u w)) \<and>
    store_ok L (snd (complete_execution L u out w)) \<and> store_ok L (snd (cancel_execution L u reason w)) \<and>
    store_ok L (snd (run_now L runner u trigger w)) \<and> store_ok L (snd (run_pending L runner limit w)) \<and>
    store_ok L (snd (initialize_schedule_state L err_text now w)) \<and> store_ok L (snd (tick L now w)) \<and>
    store_ok L (snd (insert_execution L e w)) \<and> store_ok L (snd (claim_pending_execution L u w)) \<and>
    store_ok L (snd (mark_next_scheduled L u nxt w)) \<and> store_ok L (snd (mark_last_executed L u at w)) \<and>
    (fits L e w \<longrightarrow> store_ok L (snd (update_execution L e w))) \<and>
    list_pending_executions L limit w =
      (Inr (take (max limit 1) (sort_key (\<lambda>e. al_rfc3339 L (ex_created_at e))
         (filter (\<lambda>e. ex_status e = ExPending) (executions_of L w)))), w)"
proof -
  have "keeps (store_ok L) (run_now L runner u trigger)"
    by (rule store_ok_run_now [OF codec]) (rule runner)
  moreover have "keeps (store_ok L) (run_pending L runner limit)"
    by (rule store_ok_run_pending [OF codec]) (rule runner)
  moreover have "fits L e w \<longrightarrow> store_ok L (snd (update_execution L e w))"
    using store_ok_update [OF codec, of e] ok by (simp add: triple_def update_execution_def)
  ultimately show ?thesis
    by (intro conjI pending_query [OF codec ok] keepsD [where I = "store_ok L" and w = w] store_ok_insert [OF codec]
        store_ok_claim [OF codec] store_ok_ops [OF codec] store_ok_delete store_ok_initialize [OF codec]
        store_ok_tick [OF codec] ok)
qed

definition sample_automation :: Automation where
  "sample_automation =
     \<lparr>au_id = ''a'', au_name = ''brief'', au_description = None, au_prompt = ''go'',
      au_trigger_config = Some (TcCron \<lparr>ct_schedule = ''0 9 * * *'', ct_timezone = None\<rparr>),
      au_status = AutoActive, au_max_iterations = 0, au_max_executions_per_day = None,
      au_max_executions_per_hour = Some 2, au_last_executed_at = None, au_next_scheduled_at = Some 5,
      au_created_at = 1, au_updated_at = 1\<rparr>"

definition sample_world :: auto_world where
  "sample_world = snd (upsert_automation sample_lib sample_automation empty_world)"

lemma sample_world_ok: "store_ok sample_lib sample_world"
  unfolding sample_world_def by (rule keepsD [OF store_ok_upsert [OF sample_codec] store_ok_empty])

theorem automation_store_well_typed_witness:
  "store_ok sample_lib (snd (run_now sample_lib (\<lambda>_ _ w. (Inr (OutFailed ''x''), w)) ''a'' (TeCron 5 5) sample_world))"
  using automation_store_well_typed [OF sample_codec _ sample_world_ok,
      of "\<lambda>_ _ w. (Inr (OutFailed ''x''), w)" sample_automation "''a''" "TeCron 5 5" "OutFailed ''x''" "''r''" 1 "\<lambda>_. ''e''" 7]
  by simp

section \<open>One claimant\<close>

text \<open>
  The statements that write the executions table, each as one atomic step. The records they write may have
  been read at any earlier time and by any process.
\<close>

datatype exec_label =
    LQueued Uuid
  | LClaimed Uuid
  | LRequeued Uuid
  | LLeaseFailed Uuid
  | LFinished Uuid
  | LDeleted Uuid

inductive stmt :: "auto_lib \<Rightarrow> exec_label \<Rightarrow> execution_row list \<Rightarrow> execution_row list \<Rightarrow> bool" for L where
  queued: "ex_status e = ExPending \<Longrightarrow> \<forall>r\<in>set rows. er_id r \<noteq> ex_id e \<Longrightarrow>
     stmt L (LQueued (ex_id e)) rows (rows @ [row_of_execution L e])"
| claimed: "claim_update L u e rows = (1, rows') \<Longrightarrow> stmt L (LClaimed u) rows rows'"
| requeued: "recover_update L started (requeued_lease e) rows = (1, rows') \<Longrightarrow>
     stmt L (LRequeued (ex_id e)) rows rows'"
| lease_failed: "recover_update L started (failed_lease now e) rows = (1, rows') \<Longrightarrow>
     stmt L (LLeaseFailed (ex_id e)) rows rows'"
| finished: "ex_status e \<noteq> ExPending \<Longrightarrow> ex_status e \<noteq> ExRunning \<Longrightarrow>
     stmt L (LFinished (ex_id e)) rows (map (\<lambda>r. if er_id r = ex_id e then set_columns L e r else r) rows)"
| deleted: "stmt L (LDeleted a) rows (filter (\<lambda>r. er_automation_id r \<noteq> a) rows)"

inductive_cases stmt_claimedE: "stmt L (LClaimed u) rows rows'"

inductive history :: "auto_lib \<Rightarrow> exec_label list \<Rightarrow> execution_row list \<Rightarrow> execution_row list \<Rightarrow> bool" for L where
  history_Nil: "history L [] rows rows"
| history_Cons: "stmt L l rows rows1 \<Longrightarrow> history L ls rows1 rows2 \<Longrightarrow> history L (l # ls) rows rows2"

inductive_cases history_NilE: "history L [] rows rows'"
inductive_cases history_ConsE: "history L (l # ls) rows rows'"

definition pending_row :: "Uuid \<Rightarrow> execution_row list \<Rightarrow> bool" where
  "pending_row u rows \<longleftrightarrow> (\<exists>r\<in>set rows. claim_guard u r)"

lemma claim_needs_pending: "stmt L (LClaimed u) rows rows' \<Longrightarrow> pending_row u rows"
proof -
  assume "stmt L (LClaimed u) rows rows'"
  then obtain e where "claim_update L u e rows = (1, rows')" by (auto elim: stmt_claimedE)
  then have "filter (claim_guard u) rows \<noteq> []" by (auto simp: claim_update_def)
  then show ?thesis by (auto simp: pending_row_def filter_empty_conv)
qed

lemma claim_takes_pending: "stmt L (LClaimed u) rows rows' \<Longrightarrow> \<not> pending_row u rows'"
proof -
  assume "stmt L (LClaimed u) rows rows'"
  then obtain e where "claim_update L u e rows = (1, rows')" by (auto elim: stmt_claimedE)
  then have "rows' = map (\<lambda>r. if claim_guard u r then claim_columns L e r else r) rows"
    by (simp add: claim_update_def)
  moreover have "\<not> claim_guard u (if claim_guard u r then claim_columns L e r else r)" for r
    by (simp add: claim_guard_def)
  ultimately show ?thesis unfolding pending_row_def by (simp only: list.set_map) blast
qed

lemma not_pending_map:
  "(\<And>r. claim_guard u (f r) \<Longrightarrow> claim_guard u r) \<Longrightarrow> \<not> pending_row u rows \<Longrightarrow> \<not> pending_row u (map f rows)"
  by (auto simp: pending_row_def)

text \<open>Only queueing and requeueing make a row pending.\<close>

lemma pending_only_by_queueing:
  "stmt L l rows rows' \<Longrightarrow> l \<noteq> LQueued u \<Longrightarrow> l \<noteq> LRequeued u \<Longrightarrow> \<not> pending_row u rows \<Longrightarrow> \<not> pending_row u rows'"
proof (induction rule: stmt.induct)
  case (claimed v e rows rows')
  then have "rows' = map (\<lambda>r. if claim_guard v r then claim_columns L e r else r) rows"
    by (simp add: claim_update_def)
  then show ?case using claimed.prems
    by (simp, intro not_pending_map) (auto simp: claim_guard_def split: if_splits)
next
  case (requeued started e rows rows')
  then have "rows' = map (\<lambda>r. if recover_guard (ex_id e) started r then set_columns L (requeued_lease e) r else r) rows"
    by (simp add: recover_update_def)
  then show ?case using requeued.prems
    by (simp, intro not_pending_map) (auto simp: claim_guard_def recover_guard_def split: if_splits)
next
  case (lease_failed started now e rows rows')
  then have "rows' = map (\<lambda>r. if recover_guard (ex_id e) started r then set_columns L (failed_lease now e) r else r) rows"
    by (simp add: recover_update_def)
  then show ?case using lease_failed.prems
    by (simp, intro not_pending_map) (auto simp: claim_guard_def set_columns_def failed_lease_def split: if_splits)
next
  case (finished e rows)
  then show ?case
    by (intro not_pending_map) (auto simp: claim_guard_def set_columns_def split: if_splits)
qed (auto simp: pending_row_def claim_guard_def row_of_execution_def)

lemma history_append:
  "history L (as @ bs) rows rows' \<longleftrightarrow> (\<exists>mid. history L as rows mid \<and> history L bs mid rows')"
  by (induction as arbitrary: rows) (auto elim!: history_NilE history_ConsE intro: history.intros, blast intro: history.intros)

lemma history_not_pending:
  "history L ls rows rows' \<Longrightarrow> LQueued u \<notin> set ls \<Longrightarrow> LRequeued u \<notin> set ls \<Longrightarrow> \<not> pending_row u rows \<Longrightarrow>
   \<not> pending_row u rows'"
  by (induction rule: history.induct) (simp, metis pending_only_by_queueing list.set_intros)

text \<open>Every operation writes the executions table by these statements only.\<close>

definition reaches :: "auto_lib \<Rightarrow> execution_row list \<Rightarrow> auto_world \<Rightarrow> bool" where
  "reaches L rows0 w \<longleftrightarrow> distinct (map er_id (aw_executions w)) \<and> (\<exists>ls. history L ls rows0 (aw_executions w))"

lemma blind_reaches [simp, intro]: "blind (reaches L rows0)"
  by (simp add: blind_def reaches_def)

lemma reaches_stmt:
  assumes "reaches L rows0 w" "stmt L l (aw_executions w) (aw_executions w')"
    "distinct (map er_id (aw_executions w'))"
  shows "reaches L rows0 w'"
proof -
  obtain ls where "history L ls rows0 (aw_executions w)" using assms(1) by (auto simp: reaches_def)
  moreover have "history L [l] (aw_executions w) (aw_executions w')"
    using assms(2) by (blast intro: history.intros)
  ultimately have "history L (ls @ [l]) rows0 (aw_executions w')" by (auto simp: history_append)
  then show ?thesis using assms(3) by (auto simp: reaches_def)
qed

lemma reaches_same: "reaches L rows0 w \<Longrightarrow> aw_executions w' = aw_executions w \<Longrightarrow> reaches L rows0 w'"
  by (simp add: reaches_def)

text \<open>An update guarded by an identifier changes one row or none.\<close>

lemma guarded_update:
  assumes "distinct (map er_id rows)" "\<And>r. G r \<Longrightarrow> er_id r = u" "length (filter G rows) \<noteq> 1"
  shows "map (\<lambda>r. if G r then f r else r) rows = rows"
proof (rule map_idI)
  fix r assume r: "r \<in> set rows"
  have False if "G r"
    using length_filter_one [where f = er_id and P = G, OF assms(1) r that] assms(2,3) that by simp
  then show "(if G r then f r else r) = r" by auto
qed

lemma reaches_guarded:
  assumes "reaches L rows0 w" "\<And>r. G r \<Longrightarrow> er_id r = u" "\<And>r. er_id (f r) = er_id r"
    and "length (filter G (aw_executions w)) = 1 \<Longrightarrow>
      \<exists>l. stmt L l (aw_executions w) (map (\<lambda>r. if G r then f r else r) (aw_executions w))"
  shows "reaches L rows0 (w\<lparr>aw_executions := map (\<lambda>r. if G r then f r else r) (aw_executions w)\<rparr>)"
proof (cases "length (filter G (aw_executions w)) = 1")
  case True
  have "map er_id (map (\<lambda>r. if G r then f r else r) (aw_executions w)) = map er_id (aw_executions w)"
    using assms(3) by simp
  moreover obtain l where "stmt L l (aw_executions w) (map (\<lambda>r. if G r then f r else r) (aw_executions w))"
    using assms(4) [OF True] by blast
  ultimately show ?thesis using assms(1)
    by (intro reaches_stmt [OF assms(1)]) (auto simp: reaches_def simp del: map_map)
next
  case False
  then show ?thesis using guarded_update [where G = G and u = u] assms(1,2) by (simp add: reaches_def)
qed

lemma reaches_claim [keeps_rules]: "keeps (reaches L rows0) (claim_pending_execution L u)"
proof -
  have commit: "keeps (reaches L rows0) (\<lambda>w.
      let (changed, rows) = claim_update L u e (aw_executions w) in
      (Inr (if changed = 1 then Some e else None), w\<lparr>aw_executions := rows\<rparr>))" for e
  proof (rule keepsI)
    fix w assume "reaches L rows0 w"
    then have "reaches L rows0 (w\<lparr>aw_executions :=
        map (\<lambda>r. if claim_guard u r then claim_columns L e r else r) (aw_executions w)\<rparr>)"
    proof (rule reaches_guarded [where u = u])
      show "\<exists>l. stmt L l (aw_executions w) (map (\<lambda>r. if claim_guard u r then claim_columns L e r else r) (aw_executions w))"
        if "length (filter (claim_guard u) (aw_executions w)) = 1"
        using that stmt.claimed [of L u e "aw_executions w"] by (auto simp: claim_update_def)
    qed (simp_all add: claim_guard_def)
    then show "reaches L rows0 (snd (let (changed, rows) = claim_update L u e (aw_executions w) in
        (Inr (if changed = 1 then Some e else None), w\<lparr>aw_executions := rows\<rparr>)))"
      by (simp add: claim_update_def)
  qed
  show ?thesis unfolding claim_pending_execution_def Let_def
    using commit by (auto intro!: keeps_rules simp: Let_def split: option.split)
qed

lemma reaches_recover_commit:
  assumes "e' = requeued_lease e \<or> e' = failed_lease now e"
  shows "keeps (reaches L rows0) (recover_commit L started e')"
proof (rule keepsI)
  fix w assume "reaches L rows0 w"
  let ?f = "\<lambda>r. if recover_guard (ex_id e') started r then set_columns L e' r else r"
  have "\<exists>l. stmt L l (aw_executions w) (map ?f (aw_executions w))"
    if "length (filter (recover_guard (ex_id e') started) (aw_executions w)) = 1"
  proof -
    have "recover_update L started e' (aw_executions w) = (1, map ?f (aw_executions w))"
      using that by (simp add: recover_update_def)
    then show ?thesis using assms by (blast intro: stmt.intros)
  qed
  with \<open>reaches L rows0 w\<close> have "reaches L rows0 (w\<lparr>aw_executions := map ?f (aw_executions w)\<rparr>)"
    by (intro reaches_guarded [where u = "ex_id e'"]) (auto simp: recover_guard_def)
  then show "reaches L rows0 (snd (recover_commit L started e' w))"
    by (simp add: recover_commit_def recover_update_def)
qed

lemma reaches_recover_one: "keeps (reaches L rows0) (recover_one L t m e)"
proof -
  have "triple (reaches L rows0)
     (if ex_retry_count e \<ge> m then and_then (utc_now L) (\<lambda>now. ok_op (failed_lease now e)) else ok_op (requeued_lease e))
     (\<lambda>e' w. reaches L rows0 w \<and> (\<exists>now. e' = requeued_lease e \<or> e' = failed_lease now e)) (reaches L rows0)"
    by (auto intro!: triple_ok triple_and_then [OF keeps_now [OF blind_reaches]])
  then have "keeps (reaches L rows0) (and_then
      (if ex_retry_count e \<ge> m then and_then (utc_now L) (\<lambda>now. ok_op (failed_lease now e)) else ok_op (requeued_lease e))
      (recover_commit L started))" for started
    by (rule triple_and_then) (rule triple_pure, blast intro: reaches_recover_commit)
  then show ?thesis by (simp add: recover_one_def keeps_ok)
qed

lemma reaches_recover [keeps_rules]: "keeps (reaches L rows0) (recover_stale_running_executions L t m)"
  unfolding recover_stale_running_executions_def
  by (rule keeps_and_then, rule keepsI, simp, rule keeps_for_collect, rule reaches_recover_one)

lemma reaches_insert:
  "ex_status e = ExPending \<Longrightarrow> keeps (reaches L rows0) (insert_execution L e)"
proof (rule keepsI)
  fix w assume e: "ex_status e = ExPending" and w: "reaches L rows0 w"
  show "reaches L rows0 (snd (insert_execution L e w))"
  proof (cases "fst (insert_execution L e w)")
    case (Inl err)
    then have "snd (insert_execution L e w) = w" by (auto simp: insert_execution_def split: if_splits)
    then show ?thesis using w by simp
  next
    case (Inr x)
    then have eq: "aw_executions (snd (insert_execution L e w)) = aw_executions w @ [row_of_execution L e]"
        and fresh: "\<forall>r\<in>set (aw_executions w). er_id r \<noteq> ex_id e"
      by (auto simp: insert_execution_def split: if_splits)
    have "distinct (map er_id (aw_executions w @ [row_of_execution L e]))"
      using w fresh by (auto simp: reaches_def row_of_execution_def)
    then show ?thesis using stmt.queued [OF e fresh] by (intro reaches_stmt [OF w]) (simp_all only: eq)
  qed
qed

lemma reaches_update:
  "ex_status e \<noteq> ExPending \<Longrightarrow> ex_status e \<noteq> ExRunning \<Longrightarrow> keeps (reaches L rows0) (update_execution L e)"
proof (rule keepsI)
  fix w assume e: "ex_status e \<noteq> ExPending" "ex_status e \<noteq> ExRunning" and w: "reaches L rows0 w"
  let ?f = "\<lambda>r. if er_id r = ex_id e then set_columns L e r else r"
  have "map er_id (map ?f (aw_executions w)) = map er_id (aw_executions w)" by simp
  then have "distinct (map er_id (map ?f (aw_executions w)))" using w by (simp only: reaches_def)
  then show "reaches L rows0 (snd (update_execution L e w))"
    using stmt.finished [OF e] by (intro reaches_stmt [OF w]) (auto simp: update_execution_def simp del: map_map)
qed

lemma reaches_upsert [keeps_rules]: "keeps (reaches L rows0) (upsert_automation L a)"
  by (rule keepsI) (simp add: upsert_automation_def Let_def reaches_def)

lemma reaches_mark [keeps_rules]:
  "keeps (reaches L rows0) (mark_next_scheduled L u t)" "keeps (reaches L rows0) (mark_last_executed L u t')"
  unfolding mark_next_scheduled_def mark_last_executed_def by (auto intro!: keeps_rules split: option.split)

lemma reaches_delete: "keeps (reaches L rows0) (delete_automation a)"
  by (rule keepsI, rule reaches_stmt [where l = "LDeleted a"])
    (auto intro: stmt.deleted simp: delete_automation_def reaches_def distinct_map_filter)

lemma keeps_run_and_complete:
  assumes "\<And>a e w. reaches L rows0 w \<Longrightarrow> reaches L rows0 (snd (runner a e w))"
  shows "keeps (reaches L rows0) (complete_execution L u out)" "keeps (reaches L rows0) (cancel_execution L u reason)"
    "keeps (reaches L rows0) (run_and_complete L runner e u)"
proof -
  have finish: "keeps (reaches L rows0) (complete_execution L u out)" for out
    unfolding complete_execution_def Let_def
    by (cases out) (auto intro!: keeps_rules reaches_update simp: completed_execution_def split: option.split)
  then show "keeps (reaches L rows0) (complete_execution L u out)" .
  show "keeps (reaches L rows0) (cancel_execution L u reason)"
    unfolding cancel_execution_def Let_def
    by (auto intro!: keeps_rules reaches_update simp: cancelled_execution_def split: option.split)
  have "keeps (reaches L rows0) (\<lambda>w. let (r, w') = runner a e w;
      outcome = (case r of Inl err \<Rightarrow> OutFailed err | Inr out \<Rightarrow> out) in complete_execution L u outcome w')" for a
  proof (rule keepsI)
    fix w assume "reaches L rows0 w"
    then have "reaches L rows0 (snd (runner a e w))" by (rule assms)
    then show "reaches L rows0 (snd (let (r, w') = runner a e w;
        outcome = (case r of Inl err \<Rightarrow> OutFailed err | Inr out \<Rightarrow> out) in complete_execution L u outcome w'))"
      using keepsD [OF finish] by (cases "runner a e w") simp
  qed
  then show "keeps (reaches L rows0) (run_and_complete L runner e u)"
    unfolding run_and_complete_def by (auto intro!: keeps_rules split: option.split)
qed

lemma reaches_queue [keeps_rules]: "keeps (reaches L rows0) (queue_execution L u t)"
  unfolding queue_execution_def Let_def by (auto intro!: keeps_rules reaches_insert split: option.split)

lemma reaches_claim_execution [keeps_rules]: "keeps (reaches L rows0) (claim_execution L u)"
  unfolding claim_execution_def by (auto intro!: keeps_rules split: option.split)

lemma reaches_run:
  assumes "\<And>a e w. reaches L rows0 w \<Longrightarrow> reaches L rows0 (snd (runner a e w))"
  shows "keeps (reaches L rows0) (run_pending L runner limit)" "keeps (reaches L rows0) (run_now L runner u t)"
  unfolding run_pending_def run_row_def run_now_def
  using keeps_run_and_complete(3) [OF assms] by (auto intro!: keeps_rules split: option.split)

lemma reaches_tick: "keeps (reaches L rows0) (tick L now)"
  unfolding tick_def tick_one_def by (auto intro!: keeps_rules split: option.split TriggerConfig.split)

lemma claimed_is_stmt:
  assumes "claim_pending_execution L u w = (Inr (Some e), w')"
  shows "stmt L (LClaimed u) (aw_executions w) (aw_executions w')"
proof -
  obtain e0 where e0: "get_execution L u w = (Inr (Some e0), w)" "ex_status e0 = ExPending"
    using assms by (auto simp: claim_pending_execution_def and_then_def ok_op_def get_execution_def
        split: option.splits if_splits)
  let ?e = "e0\<lparr>ex_status := ExRunning, ex_started_at := Some (al_clock L (aw_reads w))\<rparr>"
  obtain n rows where upd: "claim_update L u ?e (aw_executions w) = (n, rows)" by fastforce
  then have "n = 1" "aw_executions w' = rows"
    using assms e0 by (auto simp: claim_pending_execution_def and_then_def utc_now_def Let_def split: if_splits)
  with upd show ?thesis by (blast intro: stmt.claimed)
qed

lemma claims_alternate:
  assumes "history L (ls1 @ LClaimed u # ls2 @ LClaimed u # ls3) rows rows'"
  shows "LQueued u \<in> set ls2 \<or> LRequeued u \<in> set ls2"
proof (rule ccontr)
  assume none: "\<not> ?thesis"
  obtain r1 r2 r3 r4 where "stmt L (LClaimed u) r1 r2" "history L ls2 r2 r3" "stmt L (LClaimed u) r3 r4"
    using assms by (auto simp: history_append elim!: history_ConsE)
  then show False
    using claim_takes_pending history_not_pending claim_needs_pending none by blast
qed

text \<open>C17. A pending execution has one claimant: every operation writes the executions table only by the
  guarded statements of the lifecycle, a claim that returns an execution is the claiming statement, and in
  any interleaving of these statements, by any processes and with records read at any earlier time, two
  claims of one execution have a statement between them that queues it or requeues its expired lease.\<close>

theorem claim_is_exclusive:
  assumes ids: "distinct (map er_id (aw_executions w))"
    and runner: "\<And>rows a e w. reaches L rows w \<Longrightarrow> reaches L rows (snd (runner a e w))"
    and op: "w' \<in> {snd (run_pending L runner limit w), snd (run_now L runner u trigger w), snd (tick L now w),
      snd (queue_execution L u trigger w), snd (claim_execution L u w), snd (complete_execution L u out w),
      snd (cancel_execution L u reason w), snd (delete_automation u w), snd (upsert_automation L a w)}"
  shows "(\<exists>ls. history L ls (aw_executions w) (aw_executions w')) \<and>
    (\<forall>e w1. claim_pending_execution L u w = (Inr (Some e), w1) \<longrightarrow>
       stmt L (LClaimed u) (aw_executions w) (aw_executions w1)) \<and>
    (\<forall>ls1 ls2 ls3 rows rows'. history L (ls1 @ LClaimed u # ls2 @ LClaimed u # ls3) rows rows' \<longrightarrow>
       LQueued u \<in> set ls2 \<or> LRequeued u \<in> set ls2)"
proof -
  let ?I = "reaches L (aw_executions w)"
  have I: "?I w" using ids by (auto simp: reaches_def intro: history_Nil)
  note run = reaches_run [OF runner] keeps_run_and_complete(1,2) [OF runner]
  have "?I w'" using op
    by (auto intro!: keepsD [of ?I, OF _ I] run reaches_tick reaches_queue reaches_claim_execution
        reaches_delete reaches_upsert)
  then show ?thesis using claimed_is_stmt claims_alternate by (auto simp: reaches_def)
qed

theorem claim_is_exclusive_witness:
  "\<exists>ls. history sample_lib ls (aw_executions sample_world)
     (aw_executions (snd (run_now sample_lib (\<lambda>_ _ w. (Inr (OutFailed ''x''), w)) ''a'' (TeCron 5 5) sample_world)))"
  by (rule conjunct1 [OF claim_is_exclusive [where runner = "\<lambda>_ _ w. (Inr (OutFailed ''x''), w)" and u = "''a''"
        and trigger = "TeCron 5 5" and out = "OutFailed ''x''" and reason = "''r''" and a = sample_automation
        and limit = 1 and now = 7]])
    (simp_all add: sample_world_def empty_world_def upsert_automation_def Let_def)

section \<open>Bounded starts\<close>

text \<open>
  The store methods as atomic steps: within one process the connection's mutex is held for a whole method.
  A step may also be anything that leaves the executions alone, and steps compose.
\<close>

inductive serial :: "auto_lib \<Rightarrow> exec_label list \<Rightarrow> auto_world \<Rightarrow> auto_world \<Rightarrow> bool" for L where
  serial_claim: "claim_pending_execution L u w = (Inr (Some e), w') \<Longrightarrow> serial L [LClaimed u] w w'"
| serial_recover: "serial L [] w (snd (recover_stale_running_executions L t MAX_EXECUTION_LEASE_RECOVERIES w))"
| serial_finish: "fits L e w \<Longrightarrow> ex_status e \<noteq> ExPending \<Longrightarrow> ex_status e \<noteq> ExRunning \<Longrightarrow>
    serial L [LFinished (ex_id e)] w (snd (update_execution L e w))"
| serial_queue: "insert_execution L e w = (Inr (), w') \<Longrightarrow> ex_status e = ExPending \<Longrightarrow> ex_retry_count e = 0 \<Longrightarrow>
    serial L [LQueued (ex_id e)] w w'"
| serial_delete: "serial L [LDeleted a] w (snd (delete_automation a w))"
| serial_other: "aw_executions w' = aw_executions w \<Longrightarrow> store_ok L w' \<Longrightarrow> serial L [] w w'"
| serial_trans: "serial L ls w w1 \<Longrightarrow> serial L ls' w1 w2 \<Longrightarrow> serial L (ls @ ls') w w2"

text \<open>The table as the list of its records, and how often a record may still be started.\<close>

definition replace :: "Execution \<Rightarrow> Execution list \<Rightarrow> Execution list" where
  "replace e es = map (\<lambda>x. if ex_id x = ex_id e then e else x) es"

definition allowance :: "Execution \<Rightarrow> nat" where
  "allowance e =
     (if ex_status e = ExPending then 4 - unat (ex_retry_count e)
      else if ex_status e = ExRunning then 3 - unat (ex_retry_count e)
      else 0)"

definition budget :: "Uuid \<Rightarrow> Execution list \<Rightarrow> nat" where
  "budget u es = (case find (\<lambda>e. ex_id e = u) es of None \<Rightarrow> 0 | Some e \<Rightarrow> allowance e)"

definition retries_ok :: "Execution list \<Rightarrow> bool" where
  "retries_ok es \<longleftrightarrow> (\<forall>e\<in>set es. ex_status e = ExPending \<longrightarrow> unat (ex_retry_count e) \<le> 3)"

lemma budget_Nil [simp]: "budget u [] = 0" by (simp add: budget_def)

lemma budget_Cons: "budget u (e # es) = (if ex_id e = u then allowance e else budget u es)"
  by (simp add: budget_def)

lemma budget_other: "u \<notin> ex_id ` set es \<Longrightarrow> budget u es = 0"
  by (induction es) (auto simp: budget_Cons)

lemma budget_append: "budget u (es @ [e]) \<le> budget u es + (if ex_id e = u then allowance e else 0)"
  by (induction es) (auto simp: budget_Cons)

lemma budget_replace:
  assumes "e \<in> set es" "distinct (map ex_id es)" "ex_id e' = ex_id e"
  shows "budget u (replace e' es) + (if ex_id e = u then allowance e else 0) =
    budget u es + (if ex_id e = u then allowance e' else 0)"
proof -
  have "replace e' xs = xs" if "ex_id e \<notin> ex_id ` set xs" for xs
    using that assms(3) unfolding replace_def by (intro map_idI) (auto simp: image_iff)
  then show ?thesis using assms
    by (induction es) (auto simp: budget_Cons replace_def)
qed

lemma budget_filter: "distinct (map ex_id es) \<Longrightarrow> budget u (filter P es) \<le> budget u es"
proof (induction es)
  case (Cons e es)
  moreover have "u \<notin> ex_id ` set (filter P es)" if "ex_id e = u"
    using Cons.prems that by auto
  ultimately show ?case using budget_other [of u "filter P es"] by (auto simp: budget_Cons)
qed simp

lemma executions_of_rows: "codec_ok L \<Longrightarrow> aw_executions w = map (row_of_execution L) es \<Longrightarrow> executions_of L w = es"
  by (simp add: executions_of_def row_of_execution_def comp_def)

lemma executions_same: "aw_executions w' = aw_executions w \<Longrightarrow> executions_of L w' = executions_of L w"
  by (simp add: executions_of_def)

lemma executions_ids: "store_ok L w \<Longrightarrow> map ex_id (executions_of L w) = map er_id (aw_executions w)"
proof -
  assume "store_ok L w"
  then have "map er_id (aw_executions w) = map er_id (map (row_of_execution L) (executions_of L w))"
    using store_ok_rows by metis
  then show ?thesis by (simp add: row_of_execution_def)
qed

lemma executions_distinct: "store_ok L w \<Longrightarrow> distinct (map ex_id (executions_of L w))"
  by (simp add: executions_ids) (simp add: store_ok_def)

lemma executions_mem: "codec_ok L \<Longrightarrow> store_ok L w \<Longrightarrow> row_of_execution L e \<in> set (aw_executions w) \<Longrightarrow> e \<in> set (executions_of L w)"
  by (force simp: executions_of_def row_of_execution_def)

lemma executions_mem_row: "store_ok L w \<Longrightarrow> e \<in> set (executions_of L w) \<Longrightarrow> row_of_execution L e \<in> set (aw_executions w)"
  using store_ok_rows [of L w] by (metis imageI list.set_map)

lemma executions_replace:
  assumes "codec_ok L" "store_ok L w" "ex_id e = ex_id e'"
    "aw_executions w' = map (\<lambda>r. if er_id r = ex_id e then row_of_execution L e' else r) (aw_executions w)"
  shows "executions_of L w' = replace e' (executions_of L w)"
proof (rule executions_of_rows [OF assms(1)])
  show "aw_executions w' = map (row_of_execution L) (replace e' (executions_of L w))"
    using assms(3) unfolding assms(4) by (subst store_ok_rows [OF assms(2)]) (simp add: replace_def row_of_execution_def)
qed

text \<open>The state of the recovery loop before the candidates \<open>cs\<close>.\<close>

definition recovering :: "auto_lib \<Rightarrow> Uuid \<Rightarrow> nat \<Rightarrow> Execution list \<Rightarrow> auto_world \<Rightarrow> bool" where
  "recovering L u b cs w \<longleftrightarrow> store_ok L w \<and> retries_ok (executions_of L w) \<and> budget u (executions_of L w) \<le> b \<and>
     set cs \<subseteq> set (executions_of L w) \<and> (\<forall>e\<in>set cs. ex_status e = ExRunning) \<and> distinct (map ex_id cs)"

lemma recovering_step:
  assumes codec: "codec_ok L" and rec: "recovering L u b (e # cs) w"
    and e': "same_identity e e'" "allowance e' \<le> allowance e" "ex_status e' = ExPending \<Longrightarrow> unat (ex_retry_count e') \<le> 3"
    and rows: "aw_executions w' = map (\<lambda>r. if er_id r = ex_id e then row_of_execution L e' else r) (aw_executions w)"
      "aw_automations w' = aw_automations w"
  shows "recovering L u b cs w'"
proof -
  have ok: "store_ok L w" and mem: "e \<in> set (executions_of L w)" using rec by (auto simp: recovering_def)
  have row: "row_of_execution L e \<in> set (aw_executions w)" by (rule executions_mem_row [OF ok mem])
  have es: "executions_of L w' = replace e' (executions_of L w)"
    using e'(1) by (intro executions_replace [OF codec ok _ rows(1)]) (simp add: same_identity_def)
  have "store_ok L w'"
    using store_ok_replace [OF codec ok row e'(1), of 0] rows by (simp add: store_ok_def)
  moreover have "budget u (executions_of L w') \<le> b"
  proof -
    have "ex_id e' = ex_id e" using e'(1) by (simp add: same_identity_def)
    from budget_replace [OF mem executions_distinct [OF ok] this, of u]
    have "budget u (replace e' (executions_of L w)) \<le> budget u (executions_of L w)"
      using e'(2) by (cases "ex_id e = u") simp_all
    then show ?thesis using rec unfolding es by (simp add: recovering_def)
  qed
  moreover have "retries_ok (executions_of L w')"
  proof -
    have "retries_ok (executions_of L w)" using rec by (simp add: recovering_def)
    then show ?thesis using e'(3) unfolding es replace_def retries_ok_def by auto
  qed
  moreover have "set cs \<subseteq> set (executions_of L w')"
  proof
    fix c assume c: "c \<in> set cs"
    have "ex_id e' \<notin> ex_id ` set cs" using rec e'(1) by (simp add: recovering_def same_identity_def)
    then have "c \<in> set (executions_of L w)" "ex_id c \<noteq> ex_id e'"
      using rec c by (auto simp: recovering_def) (metis imageI)
    then show "c \<in> set (executions_of L w')" unfolding es replace_def by (auto simp: image_iff intro!: bexI [of _ c])
  qed
  ultimately show ?thesis using rec by (simp add: recovering_def)
qed

lemma recovering_one:
  assumes codec: "codec_ok L" and rec: "recovering L u b (e # cs) w"
  shows "\<exists>ys w'. recover_one L t MAX_EXECUTION_LEASE_RECOVERIES e w = (Inr ys, w') \<and> recovering L u b cs w'"
proof (cases "case ex_started_at e of Some s \<Rightarrow> s > t | None \<Rightarrow> False")
  case True
  then show ?thesis using rec by (auto simp: recover_one_def ok_op_def recovering_def)
next
  case False
  have ok: "store_ok L w" and mem: "e \<in> set (executions_of L w)" and run: "ex_status e = ExRunning"
    using rec by (auto simp: recovering_def)
  have row: "row_of_execution L e \<in> set (aw_executions w)" by (rule executions_mem_row [OF ok mem])
  define stop where "stop \<longleftrightarrow> ex_retry_count e \<ge> MAX_EXECUTION_LEASE_RECOVERIES"
  define e' where "e' = (if stop then failed_lease (al_clock L (aw_reads w)) e else requeued_lease e)"
  have ident: "same_identity e e'" by (simp add: e'_def recovered_identity)
  have guard: "recover_guard (ex_id e') (map_option (al_rfc3339 L) (ex_started_at e)) r \<longleftrightarrow> er_id r = ex_id e"
      and col: "er_id r = ex_id e \<Longrightarrow> set_columns L e' r = row_of_execution L e'"
    if "r \<in> set (aw_executions w)" for r
    using rows_unique [OF ok that row] run ident
    by (auto simp: recover_guard_def row_of_execution_def same_identity_def set_columns_def)
  then have rows: "map (\<lambda>r. if recover_guard (ex_id e') (map_option (al_rfc3339 L) (ex_started_at e)) r
        then set_columns L e' r else r) (aw_executions w) =
      map (\<lambda>r. if er_id r = ex_id e then row_of_execution L e' else r) (aw_executions w)"
    by (intro map_cong) auto
  obtain ys w' where w': "recover_one L t MAX_EXECUTION_LEASE_RECOVERIES e w = (Inr ys, w')"
      "aw_executions w' = map (\<lambda>r. if er_id r = ex_id e then row_of_execution L e' else r) (aw_executions w)"
      "aw_automations w' = aw_automations w"
  proof -
    let ?w = "if stop then w\<lparr>aw_reads := Suc (aw_reads w)\<rparr> else w"
    have "recover_one L t MAX_EXECUTION_LEASE_RECOVERIES e w =
        recover_commit L (map_option (al_rfc3339 L) (ex_started_at e)) e' ?w"
      using False by (simp add: recover_one_def and_then_def ok_op_def utc_now_def e'_def stop_def)
    moreover have "\<exists>ys. recover_commit L (map_option (al_rfc3339 L) (ex_started_at e)) e' ?w =
        (Inr ys, ?w\<lparr>aw_executions := map (\<lambda>r. if er_id r = ex_id e then row_of_execution L e' else r) (aw_executions w)\<rparr>)"
      using rows by (cases stop) (simp_all add: recover_commit_def recover_update_def del: map_eq_conv)
    ultimately show thesis by (auto intro!: that)
  qed
  have "ex_retry_count e < 3 \<Longrightarrow> unat (ex_retry_count e) < 3" by (simp add: word_less_nat_alt)
  moreover have "\<not> stop \<Longrightarrow> ex_retry_count e < 3" by (simp add: stop_def MAX_EXECUTION_LEASE_RECOVERIES_def not_le)
  ultimately have small: "\<not> stop \<Longrightarrow> unat (ex_retry_count e) < 3" by blast
  have retry: "\<not> stop \<Longrightarrow> unat (ex_retry_count e') = Suc (unat (ex_retry_count e))"
    using small by (simp add: e'_def requeued_lease_def unat_saturating_add)
  have "recovering L u b cs w'"
    by (rule recovering_step [OF codec rec ident _ _ w'(2,3)])
      (use small retry run in \<open>auto simp: allowance_def e'_def split: if_splits\<close>)
  with w'(1) show ?thesis by blast
qed

lemma recovering_loop:
  "codec_ok L \<Longrightarrow> recovering L u b cs w \<Longrightarrow>
   \<exists>ys w'. for_collect (recover_one L t MAX_EXECUTION_LEASE_RECOVERIES) cs w = (Inr ys, w') \<and> recovering L u b [] w'"
proof (induction cs arbitrary: w)
  case Nil
  then show ?case by (simp add: ok_op_def)
next
  case (Cons e cs)
  from recovering_one [OF Cons.prems] obtain ys w1 where
    "recover_one L t MAX_EXECUTION_LEASE_RECOVERIES e w = (Inr ys, w1)" "recovering L u b cs w1" by blast
  with Cons.IH [OF Cons.prems(1)] show ?case by (fastforce simp: and_then_def ok_op_def)
qed

lemma recover_budget:
  assumes "codec_ok L" "store_ok L w" "retries_ok (executions_of L w)"
    and w'_def: "w' = snd (recover_stale_running_executions L t MAX_EXECUTION_LEASE_RECOVERIES w)"
  shows "store_ok L w' \<and> retries_ok (executions_of L w') \<and> budget u (executions_of L w') \<le> budget u (executions_of L w)"
proof -
  let ?run = "filter (\<lambda>e. ex_status e = ExRunning) (executions_of L w)"
  let ?cs = "sort_key (\<lambda>e. map_option (al_rfc3339 L) (ex_started_at e)) ?run"
  have "filter (\<lambda>r. er_status r = ''running'') (aw_executions w) = map (row_of_execution L) ?run"
    by (subst store_ok_rows [OF assms(2)]) (simp add: filter_map comp_def row_of_execution_def)
  then have rows: "sort_key er_started_at (filter (\<lambda>r. er_status r = ''running'') (aw_executions w)) =
      map (row_of_execution L) ?cs"
    by (simp only:) (rule sort_key_map, simp add: row_of_execution_def)
  have "distinct (map ex_id ?run)"
    using executions_distinct [OF assms(2)] by (simp add: distinct_map_filter)
  then have "distinct (map ex_id ?cs)" by (simp add: distinct_map)
  then have "recovering L u (budget u (executions_of L w)) ?cs w"
    using assms(2,3) by (auto simp: recovering_def)
  from recovering_loop [OF assms(1) this, of t] obtain ys w1 where
    "for_collect (recover_one L t MAX_EXECUTION_LEASE_RECOVERIES) ?cs w = (Inr ys, w1)"
    "recovering L u (budget u (executions_of L w)) [] w1" by blast
  moreover from this(1) have "w' = w1"
    by (simp add: w'_def recover_stale_running_executions_def and_then_def rows decode_rows_of [OF assms(1)])
  ultimately show ?thesis by (simp add: recovering_def)
qed

lemma claim_budget:
  assumes "codec_ok L" "store_ok L w" "retries_ok (executions_of L w)"
    and claim: "claim_pending_execution L v w = (Inr (Some e'), w')"
  shows "store_ok L w' \<and> retries_ok (executions_of L w') \<and>
    (if v = u then 1 else 0) + budget u (executions_of L w') \<le> budget u (executions_of L w)"
proof -
  obtain e where e: "row_of_execution L e \<in> set (aw_executions w)" "ex_id e = v" "ex_status e = ExPending"
    using claim_pending_execution_None [OF assms(1,2), of v] claim by auto
  note claimed = claim_pending_execution_Some [OF assms(1,2) e(1,3)]
  have e': "e' = e\<lparr>ex_status := ExRunning, ex_started_at := Some (al_clock L (aw_reads w))\<rparr>"
    and rows: "aw_executions w' = map (\<lambda>r. if er_id r = ex_id e then row_of_execution L e' else r) (aw_executions w)"
    using claim claimed e(2) by auto
  have mem: "e \<in> set (executions_of L w)" by (rule executions_mem [OF assms(1,2) e(1)])
  then have small: "unat (ex_retry_count e) \<le> 3" using assms(3) e(3) by (auto simp: retries_ok_def)
  have es: "executions_of L w' = replace e' (executions_of L w)"
    by (rule executions_replace [OF assms(1,2) _ rows]) (simp add: e')
  have "budget u (replace e' (executions_of L w)) + (if ex_id e = u then allowance e else 0) =
      budget u (executions_of L w) + (if ex_id e = u then allowance e' else 0)"
    by (rule budget_replace [OF mem executions_distinct [OF assms(2)]]) (simp add: e')
  moreover have "allowance e = Suc (allowance e')" using e(3) small by (simp add: allowance_def e')
  ultimately have "(if v = u then 1 else 0) + budget u (executions_of L w') \<le> budget u (executions_of L w)"
    using e(2) es by auto
  moreover have "retries_ok (executions_of L w')"
    using assms(3) unfolding es by (auto simp: retries_ok_def replace_def e')
  moreover have "store_ok L w'"
    using keepsD [OF store_ok_claim [OF assms(1)] assms(2), of v] claim by simp
  ultimately show ?thesis by blast
qed

lemma update_budget:
  assumes "codec_ok L" "store_ok L w" "retries_ok (executions_of L w)" "fits L e w"
    and final: "ex_status e \<noteq> ExPending" "ex_status e \<noteq> ExRunning"
    and w'_def: "w' = snd (update_execution L e w)"
  shows "store_ok L w' \<and> retries_ok (executions_of L w') \<and> budget u (executions_of L w') \<le> budget u (executions_of L w)"
proof -
  have "(if er_id r = ex_id e then set_columns L e r else r) = (if er_id r = ex_id e then row_of_execution L e else r)"
    if "r \<in> set (aw_executions w)" for r
    using that assms(4) by (auto simp: fits_def set_columns_is_row)
  then have rows: "aw_executions w' = map (\<lambda>r. if er_id r = ex_id e then row_of_execution L e else r) (aw_executions w)"
    by (simp add: w'_def update_execution_def)
  have es: "executions_of L w' = replace e (executions_of L w)"
    by (rule executions_replace [OF assms(1,2) refl rows])
  have "budget u (replace e xs) \<le> budget u xs" for xs
    using final by (induction xs) (auto simp: replace_def budget_Cons allowance_def)
  moreover have "retries_ok (executions_of L w')"
    using assms(3) final unfolding es by (auto simp: retries_ok_def replace_def)
  moreover have "store_ok L w'"
    using triple_keepsD [OF store_ok_update [OF assms(1)]] assms(2,4) by (simp add: w'_def)
  ultimately show ?thesis unfolding es by blast
qed

lemma serial_budget:
  assumes "serial L ls w w'" "codec_ok L" "store_ok L w" "retries_ok (executions_of L w)"
  shows "store_ok L w' \<and> retries_ok (executions_of L w') \<and>
    count_list ls (LClaimed u) + budget u (executions_of L w') \<le>
      budget u (executions_of L w) + 4 * count_list ls (LQueued u)"
  using assms
proof (induction rule: serial.induct)
  case (serial_claim v w e w')
  from claim_budget [OF serial_claim.prems serial_claim.hyps, of u] show ?case by (simp split: if_splits)
next
  case (serial_recover w t)
  from recover_budget [OF serial_recover.prems refl] show ?case by simp
next
  case (serial_finish e w)
  from update_budget [OF serial_finish.prems serial_finish.hyps refl] show ?case by simp
next
  case (serial_queue e w w')
  then have rows: "aw_executions w' = map (row_of_execution L) (executions_of L w @ [e])"
    using store_ok_rows [of L w] by (auto simp: insert_execution_def split: if_splits)
  have es: "executions_of L w' = executions_of L w @ [e]"
    by (rule executions_of_rows [OF serial_queue.prems(1) rows])
  have "store_ok L w'"
    using keepsD [OF store_ok_insert [OF serial_queue.prems(1)] serial_queue.prems(2), of e] serial_queue.hyps(1) by simp
  moreover have "retries_ok (executions_of L w')"
    using serial_queue unfolding es by (auto simp: retries_ok_def)
  moreover have "allowance e = 4" using serial_queue by (simp add: allowance_def)
  ultimately show ?case using budget_append [of u "executions_of L w" e] unfolding es by auto
next
  case (serial_delete a w)
  let ?w = "snd (delete_automation a w)"
  have "aw_executions ?w = map (row_of_execution L) (filter (\<lambda>e. ex_automation_id e \<noteq> a) (executions_of L w))"
    by (simp add: delete_automation_def, subst store_ok_rows [OF serial_delete.prems(2)])
      (simp add: filter_map comp_def row_of_execution_def)
  then have es: "executions_of L ?w = filter (\<lambda>e. ex_automation_id e \<noteq> a) (executions_of L w)"
    by (rule executions_of_rows [OF serial_delete.prems(1)])
  have "store_ok L ?w" by (rule keepsD [OF store_ok_delete serial_delete.prems(2)])
  moreover have "retries_ok (executions_of L ?w)"
    using serial_delete.prems(3) unfolding es by (auto simp: retries_ok_def)
  ultimately show ?case using budget_filter [OF executions_distinct [OF serial_delete.prems(2)]] unfolding es by auto
next
  case (serial_other w' w)
  then show ?case using executions_same [of w' w L] by simp
next
  case (serial_trans ls w w1 ls' w2)
  then show ?case by fastforce
qed

text \<open>The executor's operations are serial steps.\<close>

definition serial_from :: "auto_lib \<Rightarrow> auto_world \<Rightarrow> auto_world \<Rightarrow> bool" where
  "serial_from L w0 w \<longleftrightarrow> store_ok L w \<and> (\<exists>ls. serial L ls w0 w)"

lemma serial_from_step: "serial_from L w0 w \<Longrightarrow> serial L ls w w' \<Longrightarrow> store_ok L w' \<Longrightarrow> serial_from L w0 w'"
  by (auto simp: serial_from_def intro: serial_trans)

lemma serial_from_other:
  "serial_from L w0 w \<Longrightarrow> aw_executions w' = aw_executions w \<Longrightarrow> store_ok L w' \<Longrightarrow> serial_from L w0 w'"
  by (blast intro: serial_from_step serial_other)

lemma blind_serial_from [simp, intro]: "blind (serial_from L w0)"
proof -
  have same: "serial_from L w0 w'"
    if "serial_from L w0 w" "aw_executions w' = aw_executions w" "aw_automations w' = aw_automations w" for w w'
    by (rule serial_from_other [OF that(1,2)]) (use that in \<open>simp add: serial_from_def store_ok_def\<close>)
  show ?thesis unfolding blind_def by (auto intro: same)
qed

lemma serial_claim_step:
  assumes "codec_ok L" shows "keeps (serial_from L w0) (claim_pending_execution L u)"
proof (rule keepsI)
  fix w assume w: "serial_from L w0 w"
  have ok: "store_ok L w" using w by (simp add: serial_from_def)
  have ok': "store_ok L (snd (claim_pending_execution L u w))" by (rule keepsD [OF store_ok_claim [OF assms] ok])
  show "serial_from L w0 (snd (claim_pending_execution L u w))"
  proof (cases "\<exists>e. row_of_execution L e \<in> set (aw_executions w) \<and> ex_id e = u \<and> ex_status e = ExPending")
    case True
    then obtain e where e: "row_of_execution L e \<in> set (aw_executions w)" "ex_id e = u" "ex_status e = ExPending" by blast
    from claim_pending_execution_Some [OF assms ok e(1,3)] obtain e' w' where
      claim: "claim_pending_execution L u w = (Inr (Some e'), w')" using e(2) by blast
    show ?thesis using serial_from_step [OF w serial_claim [OF claim]] ok' claim by simp
  next
    case False
    then have "claim_pending_execution L u w = (Inr None, w)"
      by (intro claim_pending_execution_None [OF assms ok]) blast
    then show ?thesis using w by simp
  qed
qed

lemma serial_insert_step:
  assumes "codec_ok L" "ex_status e = ExPending" "ex_retry_count e = 0"
  shows "keeps (serial_from L w0) (insert_execution L e)"
proof (rule keepsI)
  fix w assume w: "serial_from L w0 w"
  then have ok': "store_ok L (snd (insert_execution L e w))"
    using keepsD [OF store_ok_insert [OF assms(1)]] by (simp add: serial_from_def)
  show "serial_from L w0 (snd (insert_execution L e w))"
  proof (cases "fst (insert_execution L e w)")
    case (Inl err)
    then have "snd (insert_execution L e w) = w" by (auto simp: insert_execution_def split: if_splits)
    then show ?thesis using w by simp
  next
    case (Inr x)
    then obtain w' where ins: "insert_execution L e w = (Inr (), w')"
      by (cases "insert_execution L e w") auto
    show ?thesis using serial_from_step [OF w serial_queue [OF ins assms(2,3)]] ok' ins by simp
  qed
qed

lemma serial_recover_step:
  assumes "codec_ok L"
  shows "keeps (serial_from L w0) (recover_stale_running_executions L t MAX_EXECUTION_LEASE_RECOVERIES)"
proof (rule keepsI)
  fix w assume w: "serial_from L w0 w"
  show "serial_from L w0 (snd (recover_stale_running_executions L t MAX_EXECUTION_LEASE_RECOVERIES w))"
    by (rule serial_from_step [OF w serial_recover], rule keepsD [OF store_ok_recover [OF assms]])
      (use w in \<open>simp add: serial_from_def\<close>)
qed

lemma serial_mark_step:
  assumes "codec_ok L"
  shows "keeps (serial_from L w0) (mark_next_scheduled L u t)" "keeps (serial_from L w0) (mark_last_executed L u t')"
proof -
  have "keeps (serial_from L w0) (upsert_automation L a)" for a
  proof (rule keepsI)
    fix w assume w: "serial_from L w0 w"
    then have "store_ok L (snd (upsert_automation L a w))"
      using keepsD [OF store_ok_upsert [OF assms]] by (simp add: serial_from_def)
    then show "serial_from L w0 (snd (upsert_automation L a w))"
      by (rule serial_from_other [OF w, rotated]) (simp add: upsert_automation_def Let_def)
  qed
  then show "keeps (serial_from L w0) (mark_next_scheduled L u t)" "keeps (serial_from L w0) (mark_last_executed L u t')"
    unfolding mark_next_scheduled_def mark_last_executed_def by (auto intro!: keeps_rules split: option.split)
qed

lemma serial_read_write:
  assumes codec: "codec_ok L" and ident: "\<And>now e. same_identity e (g now e)"
    and final: "\<And>now e. ex_status (g now e) \<noteq> ExPending \<and> ex_status (g now e) \<noteq> ExRunning"
    and rest: "\<And>now e. keeps (serial_from L w0) (rest now (g now e))"
  shows "keeps (serial_from L w0) (and_then (get_execution L u) (\<lambda>found.
    case found of None \<Rightarrow> err_op err
    | Some e \<Rightarrow> and_then (utc_now L) (\<lambda>now. and_then (update_execution L (g now e)) (\<lambda>_. rest now (g now e)))))"
proof (rule keepsI)
  fix w assume w: "serial_from L w0 w"
  then have ok: "store_ok L w" by (simp add: serial_from_def)
  obtain r w1 where get: "get_execution L u w = (r, w1)" by fastforce
  then have w1: "w1 = w" by (auto simp: get_execution_def split: option.splits)
  consider (err) x where "r = Inl x" | (none) "r = Inr None" | (some) e where "r = Inr (Some e)"
    by (cases r) auto
  then show "serial_from L w0 (snd (and_then (get_execution L u) (\<lambda>found.
    case found of None \<Rightarrow> err_op err
    | Some e \<Rightarrow> and_then (utc_now L) (\<lambda>now. and_then (update_execution L (g now e)) (\<lambda>_. rest now (g now e)))) w))"
  proof cases
    case some
    let ?now = "al_clock L (aw_reads w)" and ?w = "w\<lparr>aw_reads := Suc (aw_reads w)\<rparr>"
    let ?e = "g ?now e"
    have "fits L e w" by (rule row_fits [OF ok get_execution_Some(3) [OF ok]]) (use get some in auto)
    then have fits: "fits L ?e ?w" using fits_same_identity [OF ident] by (auto simp: fits_def)
    have now: "serial_from L w0 ?w"
      using w blind_serial_from [of L w0] by (auto simp: blind_def)
    have "store_ok L (snd (update_execution L ?e ?w))"
      using triple_keepsD [OF store_ok_update [OF codec]] fits now by (simp add: serial_from_def)
    then have "serial_from L w0 (snd (update_execution L ?e ?w))"
      using serial_from_step [OF now serial_finish [OF fits]] final by blast
    from keepsD [OF rest this] show ?thesis
      using get some w1 by (simp add: and_then_def utc_now_def update_execution_def)
  qed (use get w w1 in \<open>simp_all add: and_then_def err_op_def\<close>)
qed

lemma serial_complete_step:
  assumes "codec_ok L"
  shows "keeps (serial_from L w0) (complete_execution L u out)" "keeps (serial_from L w0) (cancel_execution L u reason)"
proof -
  show "keeps (serial_from L w0) (complete_execution L u out)"
    unfolding complete_execution_def Let_def
    by (rule serial_read_write [OF assms])
      (cases out; auto intro!: keeps_rules serial_mark_step [OF assms] simp: same_identity_def completed_execution_def)+
  show "keeps (serial_from L w0) (cancel_execution L u reason)"
    unfolding cancel_execution_def Let_def
    by (rule serial_read_write [OF assms]) (auto intro!: keeps_rules simp: same_identity_def cancelled_execution_def)
qed

lemma serial_run_step:
  assumes codec: "codec_ok L"
    and runner: "\<And>w0 a e w. serial_from L w0 w \<Longrightarrow> serial_from L w0 (snd (runner a e w))"
  shows "keeps (serial_from L w0) (queue_execution L u trigger)"
    "keeps (serial_from L w0) (run_pending L runner limit)" "keeps (serial_from L w0) (run_now L runner u trigger)"
    "keeps (serial_from L w0) (tick L now)"
proof -
  have queue: "keeps (serial_from L w0) (queue_execution L u trigger)" for u trigger
    unfolding queue_execution_def Let_def
    by (auto intro!: keeps_rules serial_insert_step [OF codec] split: option.split)
  have claim: "keeps (serial_from L w0) (claim_execution L u)" for u
    unfolding claim_execution_def by (auto intro!: keeps_rules serial_claim_step [OF codec] split: option.split)
  have "keeps (serial_from L w0) (\<lambda>w. let (r, w') = runner a e w;
      outcome = (case r of Inl err \<Rightarrow> OutFailed err | Inr out \<Rightarrow> out) in complete_execution L u outcome w')" for a e u
  proof (rule keepsI)
    fix w assume "serial_from L w0 w"
    then have "serial_from L w0 (snd (runner a e w))" by (rule runner)
    then show "serial_from L w0 (snd (let (r, w') = runner a e w;
        outcome = (case r of Inl err \<Rightarrow> OutFailed err | Inr out \<Rightarrow> out) in complete_execution L u outcome w'))"
      using keepsD [OF serial_complete_step(1) [OF codec]] by (cases "runner a e w") simp
  qed
  then have run: "keeps (serial_from L w0) (run_and_complete L runner e u)" for e u
    unfolding run_and_complete_def by (auto intro!: keeps_rules split: option.split)
  show "keeps (serial_from L w0) (queue_execution L u trigger)" by (rule queue)
  show "keeps (serial_from L w0) (run_pending L runner limit)"
    unfolding run_pending_def run_row_def
    by (auto intro!: keeps_rules serial_recover_step [OF codec] claim run split: option.split)
  show "keeps (serial_from L w0) (run_now L runner u trigger)"
    unfolding run_now_def by (auto intro!: keeps_rules queue claim run split: option.split)
  show "keeps (serial_from L w0) (tick L now)"
    unfolding tick_def tick_one_def
    by (auto intro!: keeps_rules queue serial_mark_step [OF codec] split: option.split TriggerConfig.split)
qed

text \<open>C18. An execution is started at most four times, once and after each of three recoveries of its lease:
  the operations of the executor and the scheduler are sequences of store methods, and in every such
  sequence, from a well-typed store without the execution, the claims that succeed are at most four for each
  time it was queued.\<close>

theorem execution_starts_bounded:
  assumes codec: "codec_ok L" and ok: "store_ok L w" "retries_ok (executions_of L w)"
    and runner: "\<And>w0 a e w. serial_from L w0 w \<Longrightarrow> serial_from L w0 (snd (runner a e w))"
    and fresh: "u \<notin> ex_id ` set (executions_of L w)"
  shows "(\<forall>ls w'. serial L ls w w' \<longrightarrow> count_list ls (LClaimed u) \<le> 4 * count_list ls (LQueued u)) \<and>
    (\<exists>ls. serial L ls w (snd (run_pending L runner limit w))) \<and>
    (\<exists>ls. serial L ls w (snd (run_now L runner a trigger w))) \<and> (\<exists>ls. serial L ls w (snd (tick L now w))) \<and>
    (\<exists>ls. serial L ls w (snd (complete_execution L v out w))) \<and>
    (\<exists>ls. serial L ls w (snd (cancel_execution L v reason w)))"
proof -
  have start: "serial_from L w w" using ok(1) by (auto simp: serial_from_def intro: serial_other)
  note run = serial_run_step [OF codec runner] serial_complete_step [OF codec]
  have "serial_from L w (snd (run_pending L runner limit w)) \<and> serial_from L w (snd (run_now L runner a trigger w)) \<and>
      serial_from L w (snd (tick L now w)) \<and> serial_from L w (snd (complete_execution L v out w)) \<and>
      serial_from L w (snd (cancel_execution L v reason w))"
    by (intro conjI keepsD [of "serial_from L w", OF _ start] run)
  moreover have "count_list ls (LClaimed u) \<le> 4 * count_list ls (LQueued u)" if "serial L ls w w'" for ls w'
    using serial_budget [OF that codec ok, of u] budget_other [OF fresh] by simp
  ultimately show ?thesis by (auto simp: serial_from_def)
qed

theorem execution_starts_bounded_witness:
  "count_list [LQueued ''x'', LClaimed ''x''] (LClaimed ''x'') \<le> 4 * count_list [LQueued ''x'', LClaimed ''x''] (LQueued ''x'')
   \<and> (\<exists>ls. serial sample_lib ls sample_world
        (snd (run_pending sample_lib (\<lambda>_ _ w. (Inr (OutFailed ''x''), w)) 3 sample_world)))"
proof -
  have "executions_of sample_lib sample_world = []"
    by (simp add: executions_of_def sample_world_def upsert_automation_def empty_world_def Let_def)
  then show ?thesis
    using execution_starts_bounded [OF sample_codec sample_world_ok, where u = "''x''" and limit = 3 and
        runner = "\<lambda>_ _ w. (Inr (OutFailed ''x''), w)"]
    by (simp add: retries_ok_def)
qed

end
