(* ===== verification/Automation_Sched.thy ===== *)
theory Automation_Sched
  imports Automation_Life
begin

text \<open>
  What the scheduler and the rate limits promise: a queued execution keeps the number of executions of the
  last hour and the last day within the limits, and a tick queues each due automation once.
\<close>

section \<open>The automations as records\<close>

definition automations_of :: "auto_lib \<Rightarrow> auto_world \<Rightarrow> Automation list" where
  "automations_of L w = map (\<lambda>r. the (al_read_automation L (ar_json r))) (aw_automations w)"

lemma automation_row_fields:
  assumes "automation_row_ok L r" "al_read_automation L (ar_json r) = Some a"
  shows "ar_id r = au_id a" "ar_status r = status_text (au_status a)"
    "ar_trigger_type r = trigger_type_text (au_trigger_config a)"
proof -
  from assms have "r = (row_of_automation L a)\<lparr>ar_created_at := ar_created_at r\<rparr>" by (simp add: automation_row_ok_def)
  then show "ar_id r = au_id a" "ar_status r = status_text (au_status a)"
      "ar_trigger_type r = trigger_type_text (au_trigger_config a)"
    by (metis automation_row.simps row_of_automation_def automation_row.ext_inject automation_row.surjective
        automation_row.update_convs(6))+
qed

lemma store_ok_automation_row:
  assumes "store_ok L w" "r \<in> set (aw_automations w)"
  obtains a where "al_read_automation L (ar_json r) = Some a" "ar_id r = au_id a"
    "ar_status r = status_text (au_status a)" "ar_trigger_type r = trigger_type_text (au_trigger_config a)"
proof -
  have ok: "automation_row_ok L r" using assms by (auto simp: store_ok_def list_all_iff)
  then obtain a where "al_read_automation L (ar_json r) = Some a" by (auto simp: automation_row_ok_def split: option.splits)
  with automation_row_fields [OF ok this] show thesis by (intro that)
qed

lemma get_automation_id:
  assumes "store_ok L w" "get_automation L u w = (Inr (Some a), w')"
  shows "w' = w \<and> au_id a = u \<and> a \<in> set (automations_of L w)"
proof -
  obtain r where r: "find (\<lambda>r. ar_id r = u) (aw_automations w) = Some r" "al_read_automation L (ar_json r) = Some a" "w' = w"
    using assms(2) by (auto simp: get_automation_def split: option.splits)
  then have mem: "r \<in> set (aw_automations w)" "ar_id r = u" by (auto simp: find_Some_iff)
  then obtain b where "al_read_automation L (ar_json r) = Some b" "ar_id r = au_id b"
    using store_ok_automation_row [OF assms(1)] by metis
  then show ?thesis using r mem by (force simp: automations_of_def)
qed

section \<open>Rate limits\<close>

text \<open>
  The text of a time orders as the time does, for the years with four digits; the clock does not go back.
\<close>

definition time_range :: "int \<Rightarrow> bool" where
  "time_range t \<longleftrightarrow> 0 \<le> t \<and> t < 253402300800 * 10 ^ 9"

definition clock_ok :: "auto_lib \<Rightarrow> bool" where
  "clock_ok L \<longleftrightarrow> (\<forall>s t. time_range s \<longrightarrow> time_range t \<longrightarrow> (al_rfc3339 L s \<le> al_rfc3339 L t \<longleftrightarrow> s \<le> t)) \<and>
     (\<forall>m n. m \<le> n \<longrightarrow> al_clock L m \<le> al_clock L n)"

definition created_after :: "Uuid \<Rightarrow> int \<Rightarrow> Execution \<Rightarrow> bool" where
  "created_after u t e \<longleftrightarrow> ex_automation_id e = u \<and> t \<le> ex_created_at e"

definition recent_rows :: "auto_lib \<Rightarrow> Uuid \<Rightarrow> int \<Rightarrow> auto_world \<Rightarrow> nat" where
  "recent_rows L u since w =
     length (filter (\<lambda>r. er_automation_id r = u \<and> al_rfc3339 L since \<le> er_created_at r) (aw_executions w))"

lemma below_limit_Some:
  assumes "below_limit L u (Some n) span w = (Inr True, w')" "length (aw_executions w) < 2 ^ 32"
  shows "w' = w\<lparr>aw_reads := Suc (aw_reads w)\<rparr>" "recent_rows L u (al_clock L (aw_reads w) - span) w < unat n"
proof -
  let ?c = "recent_rows L u (al_clock L (aw_reads w) - span) w"
  have "?c < 2 ^ 32" using assms(2) by (auto simp: recent_rows_def intro: le_less_trans [OF length_filter_le])
  then have "unat (word_of_nat ?c :: u32) = ?c" by (simp add: unat_of_nat take_bit_nat_eq_self)
  moreover have "\<not> n \<le> word_of_nat ?c" "w' = w\<lparr>aw_reads := Suc (aw_reads w)\<rparr>"
    using assms(1) by (auto simp: below_limit_def and_then_def utc_now_def count_executions_since_def ok_op_def recent_rows_def)
  ultimately show "w' = w\<lparr>aw_reads := Suc (aw_reads w)\<rparr>" "?c < unat n"
    by (auto simp: word_le_nat_alt not_le)
qed

lemma below_limit_world:
  "below_limit L u n span w = (r, w') \<Longrightarrow> aw_executions w' = aw_executions w \<and> aw_reads w \<le> aw_reads w' \<and>
     aw_automations w' = aw_automations w"
  by (cases n) (auto simp: below_limit_def and_then_def utc_now_def count_executions_since_def ok_op_def)

text \<open>Both limits held at readings of the clock taken before the execution was created.\<close>

lemma within_limits:
  assumes "within_rate_limits L a w = (Inr True, w')" "length (aw_executions w) < 2 ^ 32"
  shows "aw_executions w' = aw_executions w" "aw_reads w \<le> aw_reads w'"
    "au_max_executions_per_hour a = Some h \<Longrightarrow>
       \<exists>n\<le>aw_reads w'. recent_rows L (au_id a) (al_clock L n - hours 1) w < unat h"
    "au_max_executions_per_day a = Some d \<Longrightarrow>
       \<exists>n\<le>aw_reads w'. recent_rows L (au_id a) (al_clock L n - days 1) w < unat d"
proof -
  obtain r w1 where hour: "below_limit L (au_id a) (au_max_executions_per_hour a) (hours 1) w = (r, w1)" by fastforce
  then have r: "r = Inr True" using assms(1)
    by (cases r) (auto simp: within_rate_limits_def and_then_def ok_op_def split: if_splits)
  then have day: "below_limit L (au_id a) (au_max_executions_per_day a) (days 1) w1 = (Inr True, w')"
    using assms(1) hour by (auto simp: within_rate_limits_def and_then_def ok_op_def split: prod.splits sum.splits)
  note same = below_limit_world [OF hour] below_limit_world [OF day]
  show "aw_executions w' = aw_executions w" "aw_reads w \<le> aw_reads w'" using same by auto
  show "\<exists>n\<le>aw_reads w'. recent_rows L (au_id a) (al_clock L n - hours 1) w < unat h"
    if "au_max_executions_per_hour a = Some h"
    using below_limit_Some(2) [of L "au_id a" h "hours 1" w w1] hour r that assms(2) same
    by (intro exI [of _ "aw_reads w"]) auto
  show "\<exists>n\<le>aw_reads w'. recent_rows L (au_id a) (al_clock L n - days 1) w < unat d"
    if "au_max_executions_per_day a = Some d"
    using below_limit_Some [of L "au_id a" d "days 1" w1 w'] day that assms(2) same
    by (intro exI [of _ "aw_reads w1"]) (auto simp: recent_rows_def)
qed

lemma write_receipt_rows:
  "write_receipt L e ev p w = (r, w') \<Longrightarrow> aw_executions w' = aw_executions w \<and> aw_automations w' = aw_automations w"
  by (auto simp: write_receipt_def err_op_def and_then_def utc_now_def Let_def split: if_splits)

lemma and_then_Inr:
  "and_then m f w = (Inr y, w') \<longleftrightarrow> (\<exists>x w1. m w = (Inr x, w1) \<and> f x w1 = (Inr y, w'))"
  by (auto simp: and_then_def split: prod.splits sum.splits)

lemma ok_op_Inr [simp]: "ok_op x w = (r, w') \<longleftrightarrow> r = Inr x \<and> w' = w"
  by (auto simp: ok_op_def)

lemma err_op_Inr [simp]: "err_op e w = (r, w') \<longleftrightarrow> r = Inl e \<and> w' = w"
  by (auto simp: err_op_def)

lemma utc_now_Inr [simp]:
  "utc_now L w = (Inr t, w') \<longleftrightarrow> t = al_clock L (aw_reads w) \<and> w' = w\<lparr>aw_reads := Suc (aw_reads w)\<rparr>"
  by (auto simp: utc_now_def)

lemma new_uuid_Inr [simp]:
  "new_uuid L w = (Inr u, w') \<longleftrightarrow> u = al_uuid L (aw_minted w) \<and> w' = w\<lparr>aw_minted := Suc (aw_minted w)\<rparr>"
  by (auto simp: new_uuid_def)

lemma insert_execution_Inr:
  "insert_execution L e w = (Inr x, w') \<Longrightarrow> aw_executions w' = aw_executions w @ [row_of_execution L e] \<and>
     aw_automations w' = aw_automations w"
  by (auto simp: insert_execution_def split: if_splits)

lemma queue_execution_queued:
  assumes "queue_execution L u t w = (Inr q, w')" "qr_queued q" "store_ok L w"
  obtains a w1 e where "get_automation L u w = (Inr (Some a), w)" "au_id a = u" "au_status a = AutoActive"
    "within_rate_limits L a w = (Inr True, w1)" "qr_execution_id q = Some (ex_id e)"
    "aw_executions w' = aw_executions w1 @ [row_of_execution L e]" "ex_automation_id e = u"
    "ex_status e = ExPending" "ex_created_at e = al_clock L (aw_reads w1)" "ex_trigger_data e = Some t"
proof -
  obtain found w0 where get: "get_automation L u w = (Inr found, w0)"
    using assms(1) unfolding queue_execution_def and_then_Inr by blast
  then obtain a where a: "found = Some a" "au_status a = AutoActive"
    using assms(1,2) by (cases found) (auto simp: queue_execution_def and_then_Inr not_queued_def split: if_splits)
  have w0: "w0 = w" "au_id a = u" using get_automation_id [OF assms(3)] get a by auto
  obtain within w1 where within: "within_rate_limits L a w = (Inr within, w1)"
    using assms(1) get a w0 by (auto simp: queue_execution_def and_then_Inr)
  have "within" using assms(1,2) get a w0 within
    by (cases within) (auto simp: queue_execution_def and_then_Inr not_queued_def)
  let ?e = "\<lparr>ex_id = al_uuid L (aw_minted w1), ex_automation_id = u, ex_status = ExPending,
     ex_trigger_data = Some t, ex_started_at = None, ex_completed_at = None, ex_error_message = None,
     ex_retry_count = 0, ex_created_at = al_clock L (aw_reads w1)\<rparr>"
  obtain w2 w3 where ins: "insert_execution L ?e (w1\<lparr>aw_reads := Suc (aw_reads w1), aw_minted := Suc (aw_minted w1)\<rparr>) = (Inr (), w2)"
      and rcpt: "write_receipt L ?e ''queued'' (JObject [(''reason'', JString ''triggered'')]) w2 = (Inr (), w')"
      and q: "qr_execution_id q = Some (ex_id ?e)"
    using assms(1) get a w0 within \<open>within\<close> by (auto simp: queue_execution_def and_then_Inr Let_def)
  show thesis
    by (rule that [of a w1 ?e]) (use get a w0 within \<open>within\<close> q insert_execution_Inr [OF ins] write_receipt_rows [OF rcpt] in auto)
qed







lemma recent_rows_records:
  assumes "clock_ok L" "store_ok L w" "\<forall>e\<in>set (executions_of L w). time_range (ex_created_at e)" "time_range since"
  shows "recent_rows L u since w = length (filter (created_after u since) (executions_of L w))"
proof -
  have "filter (\<lambda>r. er_automation_id r = u \<and> al_rfc3339 L since \<le> er_created_at r) (aw_executions w) =
      map (row_of_execution L) (filter (\<lambda>e. ex_automation_id e = u \<and> al_rfc3339 L since \<le> al_rfc3339 L (ex_created_at e)) (executions_of L w))"
    by (subst store_ok_rows [OF assms(2)]) (simp add: filter_map comp_def row_of_execution_def)
  moreover have "filter (\<lambda>e. ex_automation_id e = u \<and> al_rfc3339 L since \<le> al_rfc3339 L (ex_created_at e)) (executions_of L w) =
      filter (created_after u since) (executions_of L w)"
    using assms(1,3,4) by (intro filter_cong) (auto simp: created_after_def clock_ok_def)
  ultimately show ?thesis by (simp add: recent_rows_def)
qed

text \<open>The window that starts later holds no more.\<close>

lemma length_filter_mono: "(\<And>x. x \<in> set xs \<Longrightarrow> P x \<Longrightarrow> Q x) \<Longrightarrow> length (filter P xs) \<le> length (filter Q xs)"
  by (induction xs) auto

lemma window_within_limit:
  assumes "clock_ok L" "store_ok L w" "\<forall>e\<in>set (executions_of L w). time_range (ex_created_at e)"
    and "n \<le> m" "time_range (al_clock L n - span)" "recent_rows L u (al_clock L n - span) w < k"
  shows "length (filter (created_after u (al_clock L m - span)) (executions_of L w)) < k"
proof -
  have "al_clock L n \<le> al_clock L m" using assms(1,4) by (simp add: clock_ok_def)
  then have "length (filter (created_after u (al_clock L m - span)) (executions_of L w)) \<le>
      length (filter (created_after u (al_clock L n - span)) (executions_of L w))"
    by (intro length_filter_mono) (auto simp: created_after_def)
  also have "\<dots> < k" using recent_rows_records [OF assms(1-3,5)] assms(6) by simp
  finally show ?thesis .
qed

text \<open>A queued execution keeps the rate limits: when queueing succeeds, one pending execution is added,
  and counting it, the executions of the automation created in the hour before it are at most the hourly
  limit and those of the day before it at most the daily limit, if the automation has these limits. The
  comparison in the database is on the text of the times.\<close>

theorem rate_limits_hold:
  assumes lib: "codec_ok L" "clock_ok L" "\<And>n. time_range (al_clock L n) \<and> days 1 \<le> al_clock L n"
    and ok: "store_ok L w" "\<forall>e\<in>set (executions_of L w). time_range (ex_created_at e)"
      "length (aw_executions w) < 2 ^ 32"
    and queued: "queue_execution L u t w = (Inr q, w')" "qr_queued q"
    and found: "get_automation L u w = (Inr (Some a), w)"
  shows "\<exists>e. executions_of L w' = executions_of L w @ [e] \<and> ex_status e = ExPending \<and>
    (\<forall>h. au_max_executions_per_hour a = Some h \<longrightarrow>
       length (filter (created_after u (ex_created_at e - hours 1)) (executions_of L w')) \<le> unat h) \<and>
    (\<forall>d. au_max_executions_per_day a = Some d \<longrightarrow>
       length (filter (created_after u (ex_created_at e - days 1)) (executions_of L w')) \<le> unat d)"
proof -
  obtain b w1 e where q: "get_automation L u w = (Inr (Some b), w)" "au_id b = u"
      "within_rate_limits L b w = (Inr True, w1)"
      "aw_executions w' = aw_executions w1 @ [row_of_execution L e]" "ex_automation_id e = u"
      "ex_status e = ExPending" "ex_created_at e = al_clock L (aw_reads w1)" "ex_trigger_data e = Some t"
    by (rule queue_execution_queued [OF queued ok(1)])
  have b: "b = a" using q(1) found by simp
  note within = within_limits [OF q(3) ok(3)]
  have "aw_executions w' = map (row_of_execution L) (executions_of L w @ [e])"
    using q(4) within(1) store_ok_rows [OF ok(1)] by simp
  then have es: "executions_of L w' = executions_of L w @ [e]" by (rule executions_of_rows [OF lib(1)])
  have range: "time_range (al_clock L n - hours 1)" "time_range (al_clock L n - days 1)" for n
    using lib(3) [of n] by (auto simp: time_range_def hours_def days_def)
  have "length (filter (created_after u (ex_created_at e - hours 1)) (executions_of L w')) \<le> unat h"
    if "au_max_executions_per_hour a = Some h" for h
    using within(3) [of h] that window_within_limit [OF lib(2) ok(1,2) _ range(1)] q(2,7) b
    unfolding es by (force simp: Suc_le_eq)
  moreover have "length (filter (created_after u (ex_created_at e - days 1)) (executions_of L w')) \<le> unat d"
    if "au_max_executions_per_day a = Some d" for d
    using within(4) [of d] that window_within_limit [OF lib(2) ok(1,2) _ range(2)] q(2,7) b
    unfolding es by (force simp: Suc_le_eq)
  ultimately show ?thesis using es q(6) by blast
qed

lemma sample_clock: "clock_ok sample_lib"
proof -
  have le: "replicate m c \<le> replicate n c \<longleftrightarrow> m \<le> n" for m n and c :: char
  proof (induction m arbitrary: n)
    case (Suc m)
    then show ?case by (cases n) auto
  qed simp
  show ?thesis by (auto simp: clock_ok_def sample_lib_def le time_range_def)
qed

text \<open>Worlds with one active automation.\<close>

definition world_of :: "Automation \<Rightarrow> auto_world" where
  "world_of a = snd (upsert_automation sample_lib a empty_world)"

lemma world_of_sample: "sample_world = world_of sample_automation"
  by (simp add: sample_world_def world_of_def)

lemma world_of_rows: "aw_automations (world_of a) = [row_of_automation sample_lib a]" "aw_executions (world_of a) = []"
  by (simp_all add: world_of_def upsert_automation_def empty_world_def Let_def)

lemma world_of_found: "get_automation sample_lib (au_id a) (world_of a) = (Inr (Some a), world_of a)"
  using sample_codec by (simp add: get_automation_def world_of_rows row_of_automation_def)


lemma world_of_queue:
  assumes "au_status a = AutoActive" "au_max_executions_per_hour a = Some 2" "au_max_executions_per_day a = None"
  shows "\<exists>q w'. queue_execution sample_lib (au_id a) t (world_of a) = (Inr q, w') \<and> qr_queued q"
proof -
  have "\<exists>w1. within_rate_limits sample_lib a (world_of a) = (Inr True, w1) \<and>
      aw_executions w1 = [] \<and> aw_automations w1 = aw_automations (world_of a)"
    using assms by (simp add: within_rate_limits_def below_limit_def and_then_def utc_now_def count_executions_since_def
        ok_op_def world_of_rows)
  then obtain w1 where w1: "within_rate_limits sample_lib a (world_of a) = (Inr True, w1)"
      "aw_executions w1 = []" "aw_automations w1 = aw_automations (world_of a)" by blast
  have "\<exists>r\<in>set (aw_automations (world_of a)). ar_id r = au_id a"
    by (simp add: world_of_rows row_of_automation_def)
  then show ?thesis using w1 world_of_found assms(1)
    by (simp add: queue_execution_def and_then_def utc_now_def new_uuid_def insert_execution_def write_receipt_def
        sample_lib_def [THEN arg_cong, of al_writable] ok_op_def Let_def)
qed

lemma sample_executions: "executions_of sample_lib sample_world = []" "aw_executions sample_world = []"
  by (simp_all add: executions_of_def world_of_sample world_of_rows)

lemma sample_found: "get_automation sample_lib ''a'' sample_world = (Inr (Some sample_automation), sample_world)"
  using world_of_found [of sample_automation] by (simp add: world_of_sample sample_automation_def)

lemma sample_queue: "\<exists>q w'. queue_execution sample_lib ''a'' t sample_world = (Inr q, w') \<and> qr_queued q"
  using world_of_queue [of sample_automation t] by (simp add: world_of_sample sample_automation_def)

theorem rate_limits_hold_witness:
  "\<exists>q w' e. queue_execution sample_lib ''a'' (TeCron 5 5) sample_world = (Inr q, w') \<and>
     executions_of sample_lib w' = [e] \<and>
     length (filter (created_after ''a'' (ex_created_at e - hours 1)) (executions_of sample_lib w')) \<le> 2"
proof -
  obtain q w' where q: "queue_execution sample_lib ''a'' (TeCron 5 5) sample_world = (Inr q, w')" "qr_queued q"
    using sample_queue by blast
  have "\<exists>e. executions_of sample_lib w' = executions_of sample_lib sample_world @ [e] \<and> ex_status e = ExPending \<and>
    (\<forall>h. au_max_executions_per_hour sample_automation = Some h \<longrightarrow>
       length (filter (created_after ''a'' (ex_created_at e - hours 1)) (executions_of sample_lib w')) \<le> unat h) \<and>
    (\<forall>d. au_max_executions_per_day sample_automation = Some d \<longrightarrow>
       length (filter (created_after ''a'' (ex_created_at e - days 1)) (executions_of sample_lib w')) \<le> unat d)"
  proof (rule rate_limits_hold [OF sample_codec sample_clock _ sample_world_ok _ _ q sample_found])
    show "time_range (al_clock sample_lib n) \<and> days 1 \<le> al_clock sample_lib n" for n
      by (simp add: sample_lib_def time_range_def days_def)
  qed (simp_all add: sample_executions)
  then show ?thesis using q by (auto simp: sample_executions sample_automation_def)
qed

section \<open>Ticks\<close>
















subsection \<open>The second tick\<close>








subsection \<open>What a tick adds\<close>




















section \<open>Late completions\<close>

text \<open>
  Completion has no guard: whatever the status of the row, a cancelled or requeued execution included, the
  outcome of a runner that returns late replaces it.
\<close>

lemma completion_overwrites:
  assumes "codec_ok L" "store_ok L w" "e \<in> set (executions_of L w)"
  shows "\<exists>now. executions_of L (snd (complete_execution L (ex_id e) out w)) =
    replace (completed_execution now out e) (executions_of L w)"
proof -
  let ?now = "al_clock L (aw_reads w)" and ?w = "w\<lparr>aw_reads := Suc (aw_reads w)\<rparr>"
  let ?e = "completed_execution ?now out e"
  have row: "row_of_execution L e \<in> set (aw_executions w)" by (rule executions_mem_row [OF assms(2,3)])
  define rest where "rest = and_then (mark_last_executed L (ex_automation_id ?e) ?now)
    (\<lambda>_. and_then (write_receipt L ?e ''completed'' (outcome_json out)) (\<lambda>_. ok_op ?e))"
  have same: "keeps (\<lambda>w. aw_executions w = rows) rest" for rows
  proof -
    have blind: "blind (\<lambda>w. aw_executions w = rows)" by (simp add: blind_def)
    have "keeps (\<lambda>w. aw_executions w = rows) (upsert_automation L a)" for a
      by (rule keepsI) (simp add: upsert_automation_def Let_def)
    then show ?thesis unfolding rest_def mark_last_executed_def
      by (auto intro!: keeps_rules blind split: option.split)
  qed
  have "snd (complete_execution L (ex_id e) out w) = snd (rest (snd (update_execution L ?e ?w)))"
    using get_execution_total [OF assms(2) row assms(1)]
    by (simp add: complete_execution_def and_then_def utc_now_def update_execution_def Let_def rest_def)
  then have "aw_executions (snd (complete_execution L (ex_id e) out w)) = aw_executions (snd (update_execution L ?e ?w))"
    using keepsD [OF same] by simp
  also have "\<dots> = map (\<lambda>r. if er_id r = ex_id e then row_of_execution L ?e else r) (aw_executions w)"
  proof -
    have id: "ex_id ?e = ex_id e" and ident: "same_identity e ?e" by (simp_all add: completed_execution_def same_identity_def)
    have "fits L ?e w" using row_fits [OF assms(2) row] fits_same_identity [OF ident] by simp
    then show ?thesis by (auto simp: update_execution_def id fits_def set_columns_is_row)
  qed
  finally show ?thesis
    using executions_replace [OF assms(1,2), of e ?e] by (auto simp: completed_execution_def)
qed

end
