(* ===== verification/Provider_Executions.thy ===== *)
theory Provider_Executions
  imports Operator_Journal "HOL-Library.Product_Lexorder" "HOL-Library.Option_ord"
begin

text \<open>
  \<open>crates/heiwa_session/src/provider_executions.rs\<close>: which providers answered or failed, folded from
  the route events of the operator journal. The parser of RFC 3339 times (the \<open>time\<close> crate) is the
  parameter \<open>rfc3339\<close>. Counters that count events are natural numbers.
\<close>

section \<open>Identifiers\<close>

definition KNOWN_CHANNEL_KINDS :: "string list" where
  "KNOWN_CHANNEL_KINDS = [''api_key'', ''oauth'', ''oauth_cli'', ''local_runtime'']"

definition KNOWN_FAILURE_CLASSES :: "string list" where
  "KNOWN_FAILURE_CLASSES =
     [''cancelled'', ''rate_limited'', ''authentication'', ''quota_exhausted'', ''timeout'',
      ''availability'', ''invalid_usage'', ''provider'']"

definition MAX_IDENTIFIER_LEN :: nat where "MAX_IDENTIFIER_LEN = 128"

definition MAX_PENDING_ATTEMPTS :: nat where "MAX_PENDING_ATTEMPTS = 64"

definition is_ascii_lowercase :: "char \<Rightarrow> bool" where
  "is_ascii_lowercase c \<longleftrightarrow> 97 \<le> byte c \<and> byte c \<le> 122"

definition is_ascii_digit :: "char \<Rightarrow> bool" where
  "is_ascii_digit c \<longleftrightarrow> 48 \<le> byte c \<and> byte c \<le> 57"

definition provider_name :: "string \<Rightarrow> string option" where
  "provider_name raw =
     (if raw \<noteq> [] \<and> length raw \<le> 64 \<and>
         list_all (\<lambda>c. is_ascii_lowercase c \<or> is_ascii_digit c \<or> c \<in> set ''._-'') raw
      then Some raw else None)"

definition account_identifier :: "string \<Rightarrow> string option" where
  "account_identifier raw =
     (if raw \<noteq> [] \<and> length raw \<le> MAX_IDENTIFIER_LEN \<and>
         list_all (\<lambda>c. is_ascii_alphanumeric c \<or> c \<in> set ''._-'') raw
      then Some raw else None)"

definition binary_identifier :: "string \<Rightarrow> string option" where
  "binary_identifier raw =
     (let allowed = (\<lambda>c. is_ascii_alphanumeric c \<or> c \<in> set ''._+-'');
          valid = (raw \<noteq> [] \<and> length raw \<le> MAX_IDENTIFIER_LEN \<and>
            (case strip_prefix ''/'' raw of
               Some path \<Rightarrow> path \<noteq> [] \<and>
                 list_all (\<lambda>part. part \<noteq> [] \<and> list_all allowed part) (split_on (\<lambda>c. c = CHR ''/'') path)
             | None \<Rightarrow> list_all allowed raw))
      in if valid then Some raw else None)"

definition model_identifier :: "string \<Rightarrow> string option" where
  "model_identifier raw =
     (let charset = list_all (\<lambda>c. is_ascii_alphanumeric c \<or> c \<in> set ''._:/@+-'') raw;
          url_like = (contains raw ''://'' \<or> prefix ''//'' raw \<or>
            (case split_once (\<lambda>c. c = CHR ''@'') raw of
               Some (before, _) \<Rightarrow> CHR '':'' \<in> set before \<or> CHR ''/'' \<in> set before
             | None \<Rightarrow> False))
      in if raw \<noteq> [] \<and> length raw \<le> MAX_IDENTIFIER_LEN \<and> charset \<and> \<not> url_like then Some raw else None)"

definition timestamp :: "(string \<Rightarrow> bool) \<Rightarrow> string \<Rightarrow> string option" where
  "timestamp rfc3339 raw = (if rfc3339 raw then Some raw else None)"

text \<open>\<open>value["key"]\<close>: the entry of an object, and null where there is none.\<close>

definition json_index :: "json \<Rightarrow> string \<Rightarrow> json" where
  "json_index v k = unwrap_or (json_get v k) JNull"

section \<open>Channels\<close>

datatype ObservedChannel =
  ObservedChannel (ch_kind: string) (ch_account_id: "string option") (ch_binary: "string option")

text \<open>The derived order compares the fields in turn.\<close>

definition channel_key :: "ObservedChannel \<Rightarrow> string \<times> string option \<times> string option" where
  "channel_key c = (ch_kind c, ch_account_id c, ch_binary c)"

lemma channel_key_inject: "channel_key c = channel_key d \<longleftrightarrow> c = d"
  by (cases c; cases d) (simp add: channel_key_def)

instantiation ObservedChannel :: linorder
begin

definition less_eq_ObservedChannel :: "ObservedChannel \<Rightarrow> ObservedChannel \<Rightarrow> bool" where
  "c \<le> d \<longleftrightarrow> channel_key c \<le> channel_key d"

definition less_ObservedChannel :: "ObservedChannel \<Rightarrow> ObservedChannel \<Rightarrow> bool" where
  "c < d \<longleftrightarrow> channel_key c < channel_key d"

instance
  by intro_classes
    (auto simp: less_eq_ObservedChannel_def less_ObservedChannel_def simp flip: channel_key_inject)

end

definition ObservedChannel_unknown :: ObservedChannel where
  "ObservedChannel_unknown = ObservedChannel ''unknown'' None None"

definition ObservedChannel_from_payload :: "json \<Rightarrow> ObservedChannel \<times> bool" where
  "ObservedChannel_from_payload v =
     (case as_str (json_index v ''kind'') of
        None \<Rightarrow> (ObservedChannel_unknown, False)
      | Some kind \<Rightarrow>
          if kind \<notin> set KNOWN_CHANNEL_KINDS then (ObservedChannel_unknown, False)
          else
            let checked_account = map_option account_identifier (as_str (json_index v ''account_id''));
                checked_binary = map_option binary_identifier (as_str (json_index v ''binary''))
            in if checked_account = Some None \<or> checked_binary = Some None
               then (ObservedChannel_unknown, True)
               else (ObservedChannel kind (Option.bind checked_account id) (Option.bind checked_binary id), False))"

section \<open>Observations\<close>

record SuccessObservation =
  so_at :: string
  so_model :: string

record FailureObservation =
  fo_at :: string
  fo_model :: string
  fo_class :: string
  fo_origin :: string

datatype LatestOutcome = LatestSuccess | LatestFailure

record ProviderExecution =
  px_provider :: string
  px_channel :: ObservedChannel
  px_last_success :: "SuccessObservation option"
  px_last_failure :: "FailureObservation option"
  px_latest :: LatestOutcome
  px_successes :: nat
  px_failures :: nat

record OpenAttempt =
  oa_provider :: string
  oa_model :: string
  oa_at :: string

record ExcludedOutcomes =
  ex_not_invoked :: nat
  ex_accounting :: nat
  ex_cancelled :: nat
  ex_malformed :: nat
  ex_pending_overflow :: nat

datatype EvidenceState = EvComplete | EvPartial | EvEmpty | EvUnavailable

record ExecutionEvidence =
  xe_state :: EvidenceState
  xe_source :: string
  xe_window_from :: "string option"
  xe_events_inspected :: nat
  xe_skipped_lines :: nat
  xe_starts_mid_stream :: bool
  xe_dropped_events :: nat
  xe_unsupported_schema_events :: nat
  xe_rejected_facts :: nat
  xe_error :: "string option"

record ProviderExecutionView =
  pv_evidence :: ExecutionEvidence
  pv_observations :: "ProviderExecution list"
  pv_open_attempts :: "OpenAttempt list"
  pv_excluded :: ExcludedOutcomes

record Row =
  rw_last_success :: "(nat \<times> SuccessObservation) option"
  rw_last_failure :: "(nat \<times> FailureObservation) option"
  rw_successes :: nat
  rw_failures :: nat

record ProviderExecutionFold =
  pf_rows :: "(string \<times> ObservedChannel, Row) btree"
  pf_pending :: "(string \<times> OpenAttempt) list"
  pf_excluded :: ExcludedOutcomes
  pf_order :: nat
  pf_first_seen_at :: "string option"
  pf_events_inspected :: nat
  pf_unsupported_schema_events :: nat
  pf_rejected_facts :: nat

definition no_exclusions :: ExcludedOutcomes where
  "no_exclusions = \<lparr>ex_not_invoked = 0, ex_accounting = 0, ex_cancelled = 0, ex_malformed = 0, ex_pending_overflow = 0\<rparr>"

definition Row_default :: Row where
  "Row_default = \<lparr>rw_last_success = None, rw_last_failure = None, rw_successes = 0, rw_failures = 0\<rparr>"

definition ProviderExecutionFold_default :: ProviderExecutionFold where
  "ProviderExecutionFold_default = \<lparr>pf_rows = [], pf_pending = [], pf_excluded = no_exclusions, pf_order = 0,
     pf_first_seen_at = None, pf_events_inspected = 0, pf_unsupported_schema_events = 0, pf_rejected_facts = 0\<rparr>"

section \<open>The fold\<close>

text \<open>\<open>pending.remove(position)\<close>: the first attempt with the key is forgotten.\<close>

fun remove_first :: "('a \<Rightarrow> bool) \<Rightarrow> 'a list \<Rightarrow> 'a list" where
  "remove_first P [] = []"
| "remove_first P (x # xs) = (if P x then xs else x # remove_first P xs)"

definition fold_close :: "string \<Rightarrow> ProviderExecutionFold \<Rightarrow> ProviderExecutionFold" where
  "fold_close attempt_key f = f\<lparr>pf_pending := remove_first (\<lambda>p. fst p = attempt_key) (pf_pending f)\<rparr>"

definition fold_channel :: "json \<Rightarrow> ProviderExecutionFold \<Rightarrow> ObservedChannel \<times> ProviderExecutionFold" where
  "fold_channel v f =
     (let (channel, rejected) = ObservedChannel_from_payload v in
      (channel, if rejected then f\<lparr>pf_rejected_facts := pf_rejected_facts f + 1\<rparr> else f))"

definition fold_success ::
    "string \<Rightarrow> ObservedChannel \<Rightarrow> string \<Rightarrow> string \<Rightarrow> nat \<Rightarrow> ProviderExecutionFold \<Rightarrow> ProviderExecutionFold" where
  "fold_success provider channel model at order f =
     (let row = unwrap_or (bt_get (pf_rows f) (provider, channel)) Row_default in
      f\<lparr>pf_rows := bt_insert (provider, channel)
         (row\<lparr>rw_successes := rw_successes row + 1,
              rw_last_success := Some (order, \<lparr>so_at = at, so_model = model\<rparr>)\<rparr>) (pf_rows f)\<rparr>)"

definition fold_failure ::
    "string \<Rightarrow> ObservedChannel \<Rightarrow> nat \<Rightarrow> FailureObservation \<Rightarrow> ProviderExecutionFold \<Rightarrow> ProviderExecutionFold" where
  "fold_failure provider channel order failure f =
     (let row = unwrap_or (bt_get (pf_rows f) (provider, channel)) Row_default in
      f\<lparr>pf_rows := bt_insert (provider, channel)
         (row\<lparr>rw_failures := rw_failures row + 1, rw_last_failure := Some (order, failure)\<rparr>) (pf_rows f)\<rparr>)"

definition exclude :: "(ExcludedOutcomes \<Rightarrow> ExcludedOutcomes) \<Rightarrow> ProviderExecutionFold \<Rightarrow> ProviderExecutionFold" where
  "exclude u f = f\<lparr>pf_excluded := u (pf_excluded f)\<rparr>"

definition attempt_key :: "OperatorEvent \<Rightarrow> string" where
  "attempt_key event = unwrap_or (ev_call_id event) [] @ ''#'' @
     decimal (unat (unwrap_or (as_u64 (json_index (ev_payload event) ''attempt'')) 0))"

definition observe_attempted :: "string \<Rightarrow> OpenAttempt \<Rightarrow> ProviderExecutionFold \<Rightarrow> ProviderExecutionFold" where
  "observe_attempted key attempt f =
     (let f1 = (if length (pf_pending f) = MAX_PENDING_ATTEMPTS
                then exclude (\<lambda>x. x\<lparr>ex_pending_overflow := ex_pending_overflow x + 1\<rparr>)
                       (f\<lparr>pf_pending := tl (pf_pending f)\<rparr>)
                else f)
      in f1\<lparr>pf_pending := pf_pending f1 @ [(key, attempt)]\<rparr>)"

definition observe_completed ::
    "string \<Rightarrow> json \<Rightarrow> string \<Rightarrow> string \<Rightarrow> string \<Rightarrow> nat \<Rightarrow> ProviderExecutionFold \<Rightarrow> ProviderExecutionFold" where
  "observe_completed key payload provider model at order f =
     (let (channel, f1) = fold_channel (json_index payload ''channel'') (fold_close key f)
      in fold_success provider channel model at order f1)"

definition failure_class_of :: "json \<Rightarrow> string" where
  "failure_class_of payload = (case as_str (json_index payload ''failure_class'') of
      Some class \<Rightarrow> if class \<in> set KNOWN_FAILURE_CLASSES then class else ''unclassified''
    | None \<Rightarrow> ''unclassified'')"

definition observe_failed ::
    "string \<Rightarrow> json \<Rightarrow> string \<Rightarrow> string \<Rightarrow> string \<Rightarrow> nat \<Rightarrow> ProviderExecutionFold \<Rightarrow> ProviderExecutionFold" where
  "observe_failed key payload provider model at order f =
     (let (channel, f1) = fold_channel (json_index payload ''channel'') (fold_close key f);
          class = failure_class_of payload;
          origin = as_str (json_index payload ''failure_origin'');
          failed = (\<lambda>origin. fold_failure provider channel order
            \<lparr>fo_at = at, fo_model = model, fo_class = class, fo_origin = origin\<rparr> f1)
      in if class = ''cancelled'' then exclude (\<lambda>x. x\<lparr>ex_cancelled := ex_cancelled x + 1\<rparr>) f1
         else if json_index payload ''provider_invoked'' = JBool False
         then exclude (\<lambda>x. x\<lparr>ex_not_invoked := ex_not_invoked x + 1\<rparr>) f1
         else if origin = Some ''provider'' then failed ''provider''
         else if origin = Some ''accounting''
         then fold_success provider channel model at order
                (exclude (\<lambda>x. x\<lparr>ex_accounting := ex_accounting x + 1\<rparr>) f1)
         else if origin = Some ''resolver'' then exclude (\<lambda>x. x\<lparr>ex_not_invoked := ex_not_invoked x + 1\<rparr>) f1
         else failed ''unverified'')"

definition is_route :: "OperatorEventType \<Rightarrow> bool" where
  "is_route t \<longleftrightarrow> t = RouteAttempted \<or> t = RouteCompleted \<or> t = RouteFailed"

text \<open>The counters every event moves, before its type is looked at.\<close>

definition observe_any :: "(string \<Rightarrow> bool) \<Rightarrow> OperatorEvent \<Rightarrow> ProviderExecutionFold \<Rightarrow> ProviderExecutionFold" where
  "observe_any rfc3339 event f =
     f\<lparr>pf_events_inspected := pf_events_inspected f + 1,
       pf_first_seen_at := (if pf_first_seen_at f = None \<and> timestamp rfc3339 (ev_occurred_at event) \<noteq> None
                            then Some (ev_occurred_at event) else pf_first_seen_at f)\<rparr>"

definition observe :: "(string \<Rightarrow> bool) \<Rightarrow> ProviderExecutionFold \<Rightarrow> OperatorEvent \<Rightarrow> ProviderExecutionFold" where
  "observe rfc3339 f0 event =
     (let f = observe_any rfc3339 event f0; payload = ev_payload event in
      if \<not> is_route (ev_event_type event) then f
      else
        (case (Option.bind (as_str (json_index payload ''provider'')) provider_name,
               timestamp rfc3339 (ev_occurred_at event)) of
           (Some provider, Some at) \<Rightarrow>
             (let raw = as_str (json_index payload ''model'');
                  model = unwrap_or (Option.bind raw model_identifier) ''unknown'';
                  rejected = (raw \<noteq> None \<and> Option.bind raw model_identifier = None);
                  f1 = (if rejected then f\<lparr>pf_rejected_facts := pf_rejected_facts f + 1\<rparr> else f);
                  order = pf_order f1 + 1;
                  f2 = f1\<lparr>pf_order := order\<rparr>;
                  key = attempt_key event
              in case ev_event_type event of
                   RouteAttempted \<Rightarrow>
                     observe_attempted key \<lparr>oa_provider = provider, oa_model = model, oa_at = at\<rparr> f2
                 | RouteCompleted \<Rightarrow> observe_completed key payload provider model at order f2
                 | _ \<Rightarrow> observe_failed key payload provider model at order f2)
         | _ \<Rightarrow> (exclude (\<lambda>x. x\<lparr>ex_malformed := ex_malformed x + 1\<rparr>) f)
                  \<lparr>pf_rejected_facts := pf_rejected_facts f + 1\<rparr>))"

definition note_unsupported_schema :: "ProviderExecutionFold \<Rightarrow> ProviderExecutionFold" where
  "note_unsupported_schema f = f\<lparr>pf_unsupported_schema_events := pf_unsupported_schema_events f + 1\<rparr>"

section \<open>The view\<close>

text \<open>\<open>Option<u64>\<close> orders \<open>None\<close> first.\<close>

definition row_view :: "(string \<times> ObservedChannel) \<times> Row \<Rightarrow> ProviderExecution" where
  "row_view e = (case e of ((provider, channel), row) \<Rightarrow>
     \<lparr>px_provider = provider, px_channel = channel,
      px_last_success = map_option snd (rw_last_success row),
      px_last_failure = map_option snd (rw_last_failure row),
      px_latest = (if map_option fst (rw_last_failure row) > map_option fst (rw_last_success row)
                   then LatestFailure else LatestSuccess),
      px_successes = rw_successes row, px_failures = rw_failures row\<rparr>)"

definition fold_view :: "ProviderExecutionFold \<Rightarrow> ExecutionEvidence \<Rightarrow> ProviderExecutionView" where
  "fold_view f evidence =
     (let uninterpreted = (pf_unsupported_schema_events f + pf_rejected_facts f > 0);
          state = (if (xe_state evidence = EvComplete \<or> xe_state evidence = EvEmpty) \<and> uninterpreted
                   then EvPartial else xe_state evidence)
      in \<lparr>pv_evidence = evidence\<lparr>xe_state := state, xe_window_from := pf_first_seen_at f,
            xe_events_inspected := pf_events_inspected f,
            xe_unsupported_schema_events := pf_unsupported_schema_events f,
            xe_rejected_facts := pf_rejected_facts f\<rparr>,
          pv_observations = map row_view (pf_rows f),
          pv_open_attempts = map snd (pf_pending f),
          pv_excluded = pf_excluded f\<rparr>)"

section \<open>Reading a tail\<close>

definition blank_evidence :: "EvidenceState \<Rightarrow> string \<Rightarrow> ExecutionEvidence" where
  "blank_evidence state source = \<lparr>xe_state = state, xe_source = source, xe_window_from = None,
     xe_events_inspected = 0, xe_skipped_lines = 0, xe_starts_mid_stream = False, xe_dropped_events = 0,
     xe_unsupported_schema_events = 0, xe_rejected_facts = 0, xe_error = None\<rparr>"

definition unavailable :: "string \<Rightarrow> ProviderExecutionView" where
  "unavailable err = fold_view ProviderExecutionFold_default
     ((blank_evidence EvUnavailable ''journal_tail'')\<lparr>xe_error := Some err\<rparr>)"

definition observe_row ::
    "(string \<Rightarrow> bool) \<Rightarrow> string set \<times> ProviderExecutionFold \<Rightarrow> CursorEvent \<Rightarrow> string set \<times> ProviderExecutionFold" where
  "observe_row rfc3339 s row = (case s of (seen, f) \<Rightarrow>
     (let event = ce_event row in
      if ev_event_id event \<in> seen then (seen, f)
      else (insert (ev_event_id event) seen,
            if ev_schema_version event \<noteq> OPERATOR_EVENT_SCHEMA_VERSION then note_unsupported_schema f
            else observe rfc3339 f event)))"

definition observe_tail :: "(string \<Rightarrow> bool) \<Rightarrow> OperatorTail \<Rightarrow> ProviderExecutionView" where
  "observe_tail rfc3339 tail =
     (let (_, f) = foldl (observe_row rfc3339) ({}, ProviderExecutionFold_default) (tl_events tail);
          state = (if \<not> tl_stream_present tail then EvEmpty
                   else if OperatorTail_is_complete tail then EvComplete else EvPartial)
      in fold_view f ((blank_evidence state ''journal_tail'')
           \<lparr>xe_skipped_lines := tl_skipped_lines tail, xe_starts_mid_stream := tl_starts_mid_stream tail,
            xe_dropped_events := tl_dropped_events tail\<rparr>))"

definition observe_journal_tail ::
    "(string \<Rightarrow> bool) \<Rightarrow> operator_lib \<Rightarrow> (string \<Rightarrow> string list) \<Rightarrow> (nat \<Rightarrow> attempt_view) \<Rightarrow> nat \<Rightarrow> nat \<Rightarrow>
      ProviderExecutionView" where
  "observe_journal_tail rfc3339 L bufs views max_bytes max_events =
     (case read_tail L bufs views max_bytes max_events of
        Inr tail \<Rightarrow> observe_tail rfc3339 tail
      | Inl err \<Rightarrow> unavailable (case err of
            UnstableLineage _ \<Rightarrow> ''unstable_lineage''
          | InvalidCursor _ \<Rightarrow> ''invalid_cursor''
          | Storage _ \<Rightarrow> ''storage''))"

text \<open>What opening the root and looking at the stream's directory entry can say.\<close>

datatype path_look = LookOk | LookNotFound | LookNotADirectory | LookDenied

definition observe_root_tail ::
    "(string \<Rightarrow> bool) \<Rightarrow> operator_lib \<Rightarrow> (string \<Rightarrow> string list) \<Rightarrow> path_look \<Rightarrow> path_look \<Rightarrow>
      (nat \<Rightarrow> attempt_view) \<Rightarrow> nat \<Rightarrow> nat \<Rightarrow> ProviderExecutionView" where
  "observe_root_tail rfc3339 L bufs root stream views max_bytes max_events =
     (case root of
        LookNotFound \<Rightarrow> observe_tail rfc3339 absent_tail
      | LookNotADirectory \<Rightarrow> unavailable ''invalid_path''
      | LookDenied \<Rightarrow> unavailable ''inaccessible''
      | LookOk \<Rightarrow>
          (case stream of
             LookNotFound \<Rightarrow> observe_tail rfc3339 absent_tail
           | LookOk \<Rightarrow> observe_journal_tail rfc3339 L bufs views max_bytes max_events
           | _ \<Rightarrow> unavailable ''inaccessible''))"


section \<open>What one event says\<close>

text \<open>
  The specification of the fold: every route event says exactly one thing, and a row of the view
  counts what was said about its provider and channel.
\<close>

datatype verdict =
    Malformed
  | Attempted
  | Outcome "string \<times> ObservedChannel" LatestOutcome
  | CancelledAttempt
  | NotInvoked

definition failure_verdict :: "string \<times> ObservedChannel \<Rightarrow> json \<Rightarrow> verdict" where
  "failure_verdict key payload =
     (let origin = as_str (json_index payload ''failure_origin'') in
      if failure_class_of payload = ''cancelled'' then CancelledAttempt
      else if json_index payload ''provider_invoked'' = JBool False \<or> origin = Some ''resolver'' then NotInvoked
      else if origin = Some ''accounting'' then Outcome key LatestSuccess
      else Outcome key LatestFailure)"

definition classify :: "(string \<Rightarrow> bool) \<Rightarrow> OperatorEvent \<Rightarrow> verdict option" where
  "classify rfc3339 event =
     (if \<not> is_route (ev_event_type event) then None
      else
        (case Option.bind (as_str (json_index (ev_payload event) ''provider'')) provider_name of
           Some provider \<Rightarrow>
             (let key = (provider, fst (ObservedChannel_from_payload (json_index (ev_payload event) ''channel''))) in
              if \<not> rfc3339 (ev_occurred_at event) then Some Malformed
              else if ev_event_type event = RouteAttempted then Some Attempted
              else if ev_event_type event = RouteCompleted then Some (Outcome key LatestSuccess)
              else Some (failure_verdict key (ev_payload event)))
         | None \<Rightarrow> Some Malformed))"

text \<open>The events a window counts: the first with each id, in the schema this build reads.\<close>

fun first_copies :: "string set \<Rightarrow> CursorEvent list \<Rightarrow> OperatorEvent list" where
  "first_copies seen [] = []"
| "first_copies seen (row # rows) =
     (if ev_event_id (ce_event row) \<in> seen then first_copies seen rows
      else ce_event row # first_copies (insert (ev_event_id (ce_event row)) seen) rows)"

definition current_schema :: "OperatorEvent \<Rightarrow> bool" where
  "current_schema event \<longleftrightarrow> ev_schema_version event = OPERATOR_EVENT_SCHEMA_VERSION"

definition verdicts :: "(string \<Rightarrow> bool) \<Rightarrow> CursorEvent list \<Rightarrow> verdict list" where
  "verdicts rfc3339 rows = List.map_filter (classify rfc3339) (filter current_schema (first_copies {} rows))"

definition outcomes :: "verdict list \<Rightarrow> string \<times> ObservedChannel \<Rightarrow> LatestOutcome list" where
  "outcomes vs key = List.map_filter (\<lambda>v. case v of Outcome k o' \<Rightarrow> if k = key then Some o' else None | _ \<Rightarrow> None) vs"

lemma outcomes_append [simp]: "outcomes (vs @ ws) key = outcomes vs key @ outcomes ws key"
  by (simp add: outcomes_def map_filter_append)

lemma outcomes_single [simp]:
  "outcomes [v] key = (case v of Outcome k o' \<Rightarrow> if k = key then [o'] else [] | _ \<Rightarrow> [])"
  by (simp add: outcomes_def List.map_filter_def split: verdict.split)

section \<open>The fold against its specification\<close>

definition latest_of :: "Row \<Rightarrow> LatestOutcome" where
  "latest_of row = (if map_option fst (rw_last_failure row) > map_option fst (rw_last_success row)
     then LatestFailure else LatestSuccess)"

definition row_tells :: "nat \<Rightarrow> LatestOutcome list \<Rightarrow> Row option \<Rightarrow> bool" where
  "row_tells n os entry \<longleftrightarrow>
     (case entry of
        None \<Rightarrow> os = []
      | Some row \<Rightarrow> os \<noteq> [] \<and> rw_successes row = count_list os LatestSuccess \<and>
          rw_failures row = count_list os LatestFailure \<and> latest_of row = last os \<and>
          map_option fst (rw_last_success row) \<le> Some n \<and> map_option fst (rw_last_failure row) \<le> Some n)"

definition tells :: "verdict list \<Rightarrow> ProviderExecutionFold \<Rightarrow> bool" where
  "tells vs f \<longleftrightarrow>
     bt_inv (pf_rows f) \<and> (\<forall>key. row_tells (pf_order f) (outcomes vs key) (bt_get (pf_rows f) key)) \<and>
     ex_malformed (pf_excluded f) = count_list vs Malformed \<and>
     ex_cancelled (pf_excluded f) = count_list vs CancelledAttempt \<and>
     ex_not_invoked (pf_excluded f) = count_list vs NotInvoked"

lemma option_le_Some: "x \<le> Some n \<Longrightarrow> x < Some (Suc n)" "x \<le> Some n \<Longrightarrow> x \<le> Some (Suc n)"
  for x :: "nat option"
  by (cases x; simp)+

lemma row_tells_success:
  assumes "row_tells n os entry"
  shows "row_tells (Suc n) (os @ [LatestSuccess])
    (Some ((unwrap_or entry Row_default)\<lparr>rw_successes := rw_successes (unwrap_or entry Row_default) + 1,
       rw_last_success := Some (Suc n, x)\<rparr>))"
  using assms
  by (auto simp: row_tells_def Row_default_def latest_of_def option_le_Some dest: option_le_Some(1) split: option.splits)

lemma row_tells_failure:
  assumes "row_tells n os entry"
  shows "row_tells (Suc n) (os @ [LatestFailure])
    (Some ((unwrap_or entry Row_default)\<lparr>rw_failures := rw_failures (unwrap_or entry Row_default) + 1,
       rw_last_failure := Some (Suc n, x)\<rparr>))"
  using assms
  by (auto simp: row_tells_def Row_default_def latest_of_def option_le_Some split: option.splits)

lemma row_tells_mono: "row_tells n os entry \<Longrightarrow> n \<le> n' \<Longrightarrow> row_tells n' os entry"
  by (auto simp: row_tells_def split: option.splits elim: order_trans)

text \<open>Two folds with the same rows and the same counts of excluded events.\<close>

definition same_counts :: "ProviderExecutionFold \<Rightarrow> ProviderExecutionFold \<Rightarrow> bool" where
  "same_counts f g \<longleftrightarrow> pf_rows g = pf_rows f \<and>
     ex_malformed (pf_excluded g) = ex_malformed (pf_excluded f) \<and>
     ex_cancelled (pf_excluded g) = ex_cancelled (pf_excluded f) \<and>
     ex_not_invoked (pf_excluded g) = ex_not_invoked (pf_excluded f)"

lemma tells_same:
  assumes "tells vs f" and "same_counts f g" and "pf_order f \<le> pf_order g"
  shows "tells vs g"
  using assms by (auto simp: tells_def same_counts_def intro: row_tells_mono)

lemma tells_outcome:
  assumes "tells vs f" and "same_counts f g" and "pf_order f \<le> pf_order g"
    and "row_tells (pf_order g) (outcomes vs key @ [out]) (Some row)"
  shows "tells (vs @ [Outcome key out]) (g\<lparr>pf_rows := bt_insert key row (pf_rows g)\<rparr>)"
  using assms by (auto simp: tells_def same_counts_def intro: row_tells_mono)

lemma fold_success_tells:
  assumes "tells vs f" and "same_counts f g" and "pf_order g = Suc (pf_order f)"
  shows "tells (vs @ [Outcome (p, c) LatestSuccess]) (fold_success p c m at (pf_order g) g)"
proof -
  have "row_tells (pf_order f) (outcomes vs (p, c)) (bt_get (pf_rows g) (p, c))"
    using assms(1,2) by (simp add: tells_def same_counts_def)
  from row_tells_success [OF this] show ?thesis
    unfolding fold_success_def Let_def using assms(3) by (intro tells_outcome [OF assms(1,2)]) simp_all
qed

lemma fold_failure_tells:
  assumes "tells vs f" and "same_counts f g" and "pf_order g = Suc (pf_order f)"
  shows "tells (vs @ [Outcome (p, c) LatestFailure]) (fold_failure p c (pf_order g) x g)"
proof -
  have "row_tells (pf_order f) (outcomes vs (p, c)) (bt_get (pf_rows g) (p, c))"
    using assms(1,2) by (simp add: tells_def same_counts_def)
  from row_tells_failure [OF this] show ?thesis
    unfolding fold_failure_def Let_def using assms(3) by (intro tells_outcome [OF assms(1,2)]) simp_all
qed

lemma tells_excluded:
  assumes "tells vs f" and "pf_rows g = pf_rows f" and "pf_order f \<le> pf_order g"
    and "ex_malformed (pf_excluded g) = ex_malformed (pf_excluded f) + count_list [v] Malformed"
    and "ex_cancelled (pf_excluded g) = ex_cancelled (pf_excluded f) + count_list [v] CancelledAttempt"
    and "ex_not_invoked (pf_excluded g) = ex_not_invoked (pf_excluded f) + count_list [v] NotInvoked"
    and "\<And>key out. v \<noteq> Outcome key out"
  shows "tells (vs @ [v]) g"
proof -
  have "outcomes [v] key = []" for key using assms(7) by (cases v) auto
  moreover have "row_tells (pf_order g) (outcomes vs key) (bt_get (pf_rows g) key)" for key
    using assms(1-3) by (auto simp: tells_def simp del: split_paired_All intro: row_tells_mono)
  ultimately show ?thesis using assms
    by (simp add: tells_def del: outcomes_single count_list.simps)
qed

lemma fold_close_fields [simp]:
  "pf_rows (fold_close k f) = pf_rows f" "pf_excluded (fold_close k f) = pf_excluded f"
  "pf_order (fold_close k f) = pf_order f"
  by (simp_all add: fold_close_def)

lemma fold_channel_fields:
  "fst (fold_channel v f) = fst (ObservedChannel_from_payload v)"
  "pf_rows (snd (fold_channel v f)) = pf_rows f" "pf_excluded (snd (fold_channel v f)) = pf_excluded f"
  "pf_order (snd (fold_channel v f)) = pf_order f" "pf_pending (snd (fold_channel v f)) = pf_pending f"
  by (simp_all add: fold_channel_def split_beta)

lemma observe_completed_tells:
  assumes "tells vs f" and "same_counts f g" and "pf_order g = Suc (pf_order f)"
  shows "tells (vs @ [Outcome (p, fst (ObservedChannel_from_payload (json_index payload ''channel''))) LatestSuccess])
    (observe_completed key payload p m at (pf_order g) g)"
proof -
  let ?g = "snd (fold_channel (json_index payload ''channel'') (fold_close key g))"
  have "same_counts f ?g" "pf_order ?g = pf_order g"
    using assms(2) by (simp_all add: same_counts_def fold_channel_fields)
  with fold_success_tells [OF assms(1), of ?g] assms(3) show ?thesis
    by (simp add: observe_completed_def split_beta fold_channel_fields)
qed

lemma observe_failed_tells:
  assumes "tells vs f" and "same_counts f g" and "pf_order g = Suc (pf_order f)"
  shows "tells (vs @ [failure_verdict (p, fst (ObservedChannel_from_payload (json_index payload ''channel''))) payload])
    (observe_failed key payload p m at (pf_order g) g)"
proof -
  let ?g = "snd (fold_channel (json_index payload ''channel'') (fold_close key g))"
  let ?a = "exclude (\<lambda>x. x\<lparr>ex_accounting := ex_accounting x + 1\<rparr>) ?g"
  have g: "same_counts f ?g" "pf_order ?g = pf_order g" and a: "same_counts f ?a" "pf_order ?a = pf_order g"
    using assms(2) by (simp_all add: same_counts_def fold_channel_fields exclude_def)
  have excluded: "tells (vs @ [CancelledAttempt]) (exclude (\<lambda>x. x\<lparr>ex_cancelled := ex_cancelled x + 1\<rparr>) ?g)"
    "tells (vs @ [NotInvoked]) (exclude (\<lambda>x. x\<lparr>ex_not_invoked := ex_not_invoked x + 1\<rparr>) ?g)"
    using g assms(3) by (intro tells_excluded [OF assms(1)]; simp add: exclude_def same_counts_def)+
  note counted = fold_success_tells [OF assms(1) a(1), unfolded a(2), OF assms(3)]
    fold_failure_tells [OF assms(1) g(1), unfolded g(2), OF assms(3)]
  show ?thesis unfolding observe_failed_def failure_verdict_def Let_def split_beta fold_channel_fields(1)
    using excluded counted by auto
qed

definition model_ok :: "string \<Rightarrow> bool" where
  "model_ok m \<longleftrightarrow> m = ''unknown'' \<or> model_identifier m = Some m"

lemma checked_names:
  "provider_name x = Some y \<Longrightarrow> provider_name y = Some y" "account_identifier x = Some y \<Longrightarrow> account_identifier y = Some y"
  "binary_identifier x = Some y \<Longrightarrow> binary_identifier y = Some y" "model_identifier x = Some y \<Longrightarrow> model_identifier y = Some y"
  by (auto simp: provider_name_def account_identifier_def binary_identifier_def model_identifier_def Let_def
      split: if_splits)

text \<open>The cases of one step. \<open>g\<close> is the fold when the type of a well-formed route event is looked at.\<close>

lemma observe_cases:
  obtains (skipped) "classify rfc3339 e = None" "observe rfc3339 f e = observe_any rfc3339 e f"
  | (malformed) "classify rfc3339 e = Some Malformed"
      "observe rfc3339 f e = (exclude (\<lambda>x. x\<lparr>ex_malformed := ex_malformed x + 1\<rparr>) (observe_any rfc3339 e f))
         \<lparr>pf_rejected_facts := pf_rejected_facts f + 1\<rparr>"
  | (route) p m g where "provider_name p = Some p" "model_ok m" "rfc3339 (ev_occurred_at e)"
      "pf_rows g = pf_rows f" "pf_pending g = pf_pending f" "pf_excluded g = pf_excluded f"
      "pf_order g = Suc (pf_order f)"
      "(classify rfc3339 e, observe rfc3339 f e) \<in>
        {(Some Attempted, observe_attempted (attempt_key e) \<lparr>oa_provider = p, oa_model = m, oa_at = ev_occurred_at e\<rparr> g),
         (Some (Outcome (p, fst (ObservedChannel_from_payload (json_index (ev_payload e) ''channel''))) LatestSuccess),
          observe_completed (attempt_key e) (ev_payload e) p m (ev_occurred_at e) (pf_order g) g),
         (Some (failure_verdict (p, fst (ObservedChannel_from_payload (json_index (ev_payload e) ''channel''))) (ev_payload e)),
          observe_failed (attempt_key e) (ev_payload e) p m (ev_occurred_at e) (pf_order g) g)}"
proof -
  let ?f = "observe_any rfc3339 e f" and ?payload = "ev_payload e"
  let ?p = "Option.bind (as_str (json_index ?payload ''provider'')) provider_name"
  have rejected: "pf_rejected_facts ?f = pf_rejected_facts f" by (simp add: observe_any_def)
  consider "\<not> is_route (ev_event_type e)" | "is_route (ev_event_type e)" "?p = None \<or> \<not> rfc3339 (ev_occurred_at e)"
    | p where "is_route (ev_event_type e)" "?p = Some p" "rfc3339 (ev_occurred_at e)"
    by fastforce
  then show thesis
  proof cases
    case 1
    then show thesis by (intro skipped) (simp_all add: observe_def classify_def Let_def)
  next
    case 2
    then show thesis using rejected
      by (intro malformed) (auto simp: observe_def classify_def Let_def timestamp_def split: option.splits)
  next
    case 3
    let ?raw = "as_str (json_index ?payload ''model'')"
    let ?m = "unwrap_or (Option.bind ?raw model_identifier) ''unknown''"
    define f1 where "f1 = (if ?raw \<noteq> None \<and> Option.bind ?raw model_identifier = None
      then ?f\<lparr>pf_rejected_facts := pf_rejected_facts ?f + 1\<rparr> else ?f)"
    define g where "g = f1\<lparr>pf_order := pf_order f1 + 1\<rparr>"
    have name: "provider_name p = Some p" using 3(2) by (auto simp: bind_eq_Some_conv dest: checked_names)
    have m: "model_ok ?m" by (cases "Option.bind ?raw model_identifier")
        (auto simp: model_ok_def bind_eq_Some_conv dest: checked_names)
    have g: "pf_rows g = pf_rows f" "pf_pending g = pf_pending f" "pf_excluded g = pf_excluded f"
      "pf_order g = Suc (pf_order f)"
      by (simp_all add: g_def f1_def observe_any_def)
    have order: "pf_order f1 + 1 = pf_order g" "f1\<lparr>pf_order := pf_order g\<rparr> = g" by (simp_all add: g_def)
    have obs: "observe rfc3339 f e = (case ev_event_type e of
         RouteAttempted \<Rightarrow> observe_attempted (attempt_key e) \<lparr>oa_provider = p, oa_model = ?m, oa_at = ev_occurred_at e\<rparr> g
       | RouteCompleted \<Rightarrow> observe_completed (attempt_key e) ?payload p ?m (ev_occurred_at e) (pf_order g) g
       | _ \<Rightarrow> observe_failed (attempt_key e) ?payload p ?m (ev_occurred_at e) (pf_order g) g)"
      unfolding observe_def Let_def 3(2) timestamp_def f1_def [symmetric] order
      using 3(1,3) by simp
    show thesis
      by (rule route [OF name m 3(3) g])
        (use 3 in \<open>auto simp: obs classify_def is_route_def\<close>)
  qed
qed

lemma observe_tells:
  assumes "tells vs f"
  shows "tells (vs @ (case classify rfc3339 e of Some v \<Rightarrow> [v] | None \<Rightarrow> [])) (observe rfc3339 f e)"
proof (cases rule: observe_cases [of rfc3339 e f])
  case skipped
  then show ?thesis using assms by (simp add: tells_same [OF assms] same_counts_def observe_any_def)
next
  case malformed
  show ?thesis unfolding malformed option.case
    by (rule tells_excluded [OF assms]) (simp_all add: exclude_def observe_any_def)
next
  case (route p m g)
  have g: "same_counts f g" using route(4,6) by (simp add: same_counts_def)
  have "tells (vs @ [Attempted]) (observe_attempted k a g)" for k a
    using route(4,6,7) by (intro tells_excluded [OF assms]) (simp_all add: observe_attempted_def exclude_def Let_def)
  then show ?thesis
    using route(8) observe_completed_tells [OF assms g route(7)] observe_failed_tells [OF assms g route(7)] by auto
qed

lemma observe_rows_tell:
  assumes "tells vs f"
  shows "tells (vs @ List.map_filter (classify rfc3339) (filter current_schema (first_copies seen rows)))
    (snd (foldl (observe_row rfc3339) (seen, f) rows))"
  using assms
proof (induction rows arbitrary: vs f seen)
  case (Cons row rows)
  let ?e = "ce_event row"
  consider (copy) "ev_event_id ?e \<in> seen" | (future) "ev_event_id ?e \<notin> seen" "\<not> current_schema ?e"
    | (current) "ev_event_id ?e \<notin> seen" "current_schema ?e" by blast
  then show ?case
  proof cases
    case copy
    then show ?thesis using Cons by (simp add: observe_row_def)
  next
    case future
    have "tells vs (note_unsupported_schema f)"
      by (rule tells_same [OF Cons.prems]) (simp_all add: note_unsupported_schema_def same_counts_def)
    from Cons.IH [OF this] future show ?thesis by (simp add: observe_row_def current_schema_def Let_def)
  next
    case current
    let ?v = "case classify rfc3339 ?e of Some v \<Rightarrow> [v] | None \<Rightarrow> []"
    have "observe_row rfc3339 (seen, f) row = (insert (ev_event_id ?e) seen, observe rfc3339 f ?e)"
      using current by (simp add: observe_row_def current_schema_def Let_def)
    moreover have "List.map_filter (classify rfc3339) (filter current_schema (first_copies seen (row # rows))) =
        ?v @ List.map_filter (classify rfc3339) (filter current_schema (first_copies (insert (ev_event_id ?e) seen) rows))"
      using current by (simp add: List.map_filter_def split: option.split)
    ultimately show ?thesis using Cons.IH [OF observe_tells [OF Cons.prems, of rfc3339 ?e], of "insert (ev_event_id ?e) seen"]
      by simp
  qed
qed (simp add: List.map_filter_def)

lemma tells_default: "tells [] ProviderExecutionFold_default"
  by (simp add: tells_def ProviderExecutionFold_default_def no_exclusions_def row_tells_def outcomes_def List.map_filter_def)

lemma observe_tail_tells:
  "\<exists>f. tells (verdicts rfc3339 (tl_events tail)) f \<and>
     pv_observations (observe_tail rfc3339 tail) = map row_view (pf_rows f) \<and>
     pv_excluded (observe_tail rfc3339 tail) = pf_excluded f"
  using observe_rows_tell [OF tells_default, of rfc3339 "{}" "tl_events tail"]
  by (auto simp: observe_tail_def verdicts_def fold_view_def split_beta Let_def)

text \<open>C31. A provider's row says exactly what the route events say. Each provider and channel with a
  recorded outcome has one observation, which counts the successes and failures of the events of the
  window (the first copy of each event id, in the schema this build reads), and names the outcome of
  the newest of them; attempts that were cancelled, that reached no provider or that did not validate
  are counted apart, one by one, and no provider failure is made of them.\<close>

theorem executions_are_counted:
  fixes tail :: OperatorTail and rfc3339 :: "string \<Rightarrow> bool"
  defines "vs \<equiv> verdicts rfc3339 (tl_events tail)" and "view \<equiv> observe_tail rfc3339 tail"
  shows "(\<forall>px \<in> set (pv_observations view).
      let os = outcomes vs (px_provider px, px_channel px) in
      os \<noteq> [] \<and> px_successes px = count_list os LatestSuccess \<and> px_failures px = count_list os LatestFailure \<and>
      px_latest px = last os) \<and>
    (\<forall>p c. outcomes vs (p, c) \<noteq> [] \<longrightarrow>
      (\<exists>px \<in> set (pv_observations view). px_provider px = p \<and> px_channel px = c)) \<and>
    distinct (map (\<lambda>px. (px_provider px, px_channel px)) (pv_observations view)) \<and>
    ex_malformed (pv_excluded view) = count_list vs Malformed \<and>
    ex_cancelled (pv_excluded view) = count_list vs CancelledAttempt \<and>
    ex_not_invoked (pv_excluded view) = count_list vs NotInvoked"
proof -
  obtain f where f: "tells vs f" "pv_observations view = map row_view (pf_rows f)" "pv_excluded view = pf_excluded f"
    using observe_tail_tells unfolding vs_def view_def by blast
  have keys: "map (\<lambda>px. (px_provider px, px_channel px)) (map row_view es) = map fst es" for es
    by (auto simp: row_view_def)
  have inv: "bt_inv (pf_rows f)" and row: "\<And>key. row_tells (pf_order f) (outcomes vs key) (bt_get (pf_rows f) key)"
    using f(1) by (simp_all add: tells_def del: split_paired_All)
  have "\<forall>px \<in> set (pv_observations view).
      let os = outcomes vs (px_provider px, px_channel px) in
      os \<noteq> [] \<and> px_successes px = count_list os LatestSuccess \<and> px_failures px = count_list os LatestFailure \<and>
      px_latest px = last os"
  proof
    fix px assume "px \<in> set (pv_observations view)"
    then obtain p c r where px: "px = row_view ((p, c), r)" "((p, c), r) \<in> set (pf_rows f)" using f(2) by auto
    then have "bt_get (pf_rows f) (p, c) = Some r" using bt_inv_distinct [OF inv] by simp
    then show "let os = outcomes vs (px_provider px, px_channel px) in
      os \<noteq> [] \<and> px_successes px = count_list os LatestSuccess \<and> px_failures px = count_list os LatestFailure \<and>
      px_latest px = last os" using row [of "(p, c)"] px(1)
      by (simp add: row_tells_def row_view_def Let_def latest_of_def)
  qed
  moreover have "\<exists>px \<in> set (pv_observations view). px_provider px = p \<and> px_channel px = c"
    if said: "outcomes vs (p, c) \<noteq> []" for p c
  proof -
    obtain r where "bt_get (pf_rows f) (p, c) = Some r" using row [of "(p, c)"] said by (auto simp: row_tells_def split: option.splits)
    then have "((p, c), r) \<in> set (pf_rows f)" by (rule map_of_SomeD)
    then have "row_view ((p, c), r) \<in> set (pv_observations view)" using f(2) by simp
    then show ?thesis by (rule bexI [rotated]) (simp add: row_view_def)
  qed
  moreover have "distinct (map (\<lambda>px. (px_provider px, px_channel px)) (pv_observations view))"
    unfolding f(2) keys by (rule bt_inv_distinct [OF inv])
  ultimately show ?thesis using f(1,3) by (simp add: tells_def)
qed


section \<open>Only validated identities leave the fold\<close>

definition channel_ok :: "ObservedChannel \<Rightarrow> bool" where
  "channel_ok c \<longleftrightarrow> c = ObservedChannel_unknown \<or>
     ch_kind c \<in> set KNOWN_CHANNEL_KINDS \<and>
     (\<forall>a. ch_account_id c = Some a \<longrightarrow> account_identifier a = Some a) \<and>
     (\<forall>b. ch_binary c = Some b \<longrightarrow> binary_identifier b = Some b)"

definition row_ok :: "(string \<Rightarrow> bool) \<Rightarrow> Row \<Rightarrow> bool" where
  "row_ok rfc3339 row \<longleftrightarrow>
     (\<forall>n x. rw_last_success row = Some (n, x) \<longrightarrow> rfc3339 (so_at x) \<and> model_ok (so_model x)) \<and>
     (\<forall>n x. rw_last_failure row = Some (n, x) \<longrightarrow> rfc3339 (fo_at x) \<and> model_ok (fo_model x) \<and>
        fo_class x \<in> set (''unclassified'' # KNOWN_FAILURE_CLASSES) \<and> fo_origin x \<in> {''provider'', ''unverified''})"

definition attempt_ok :: "(string \<Rightarrow> bool) \<Rightarrow> OpenAttempt \<Rightarrow> bool" where
  "attempt_ok rfc3339 a \<longleftrightarrow> provider_name (oa_provider a) = Some (oa_provider a) \<and> model_ok (oa_model a) \<and> rfc3339 (oa_at a)"

definition fold_ok :: "(string \<Rightarrow> bool) \<Rightarrow> ProviderExecutionFold \<Rightarrow> bool" where
  "fold_ok rfc3339 f \<longleftrightarrow>
     (\<forall>((p, c), row) \<in> set (pf_rows f). provider_name p = Some p \<and> channel_ok c \<and> row_ok rfc3339 row) \<and>
     (\<forall>(k, a) \<in> set (pf_pending f). attempt_ok rfc3339 a) \<and> length (pf_pending f) \<le> MAX_PENDING_ATTEMPTS"

lemma from_payload_ok: "channel_ok (fst (ObservedChannel_from_payload v))"
  by (auto simp: ObservedChannel_from_payload_def channel_ok_def Let_def bind_eq_Some_conv dest: checked_names
      split: option.split)

lemma bt_insert_set: "set (bt_insert k v m) \<subseteq> insert (k, v) (set m)"
  by (induction m) auto

lemma row_ok_get:
  assumes "fold_ok rfc3339 f"
  shows "row_ok rfc3339 (unwrap_or (bt_get (pf_rows f) (p, c)) Row_default)"
proof (cases "bt_get (pf_rows f) (p, c)")
  case None
  then show ?thesis by (simp add: row_ok_def Row_default_def)
next
  case (Some row)
  then have "((p, c), row) \<in> set (pf_rows f)" by (rule map_of_SomeD)
  then show ?thesis using assms Some by (auto simp: fold_ok_def)
qed

lemma fold_ok_insert:
  assumes "fold_ok rfc3339 f" and "provider_name p = Some p" and "channel_ok c" and "row_ok rfc3339 row"
  shows "fold_ok rfc3339 (f\<lparr>pf_rows := bt_insert (p, c) row (pf_rows f)\<rparr>)"
  using assms bt_insert_set [of "(p, c)" row "pf_rows f"] unfolding fold_ok_def by auto

lemma fold_ok_success:
  assumes "fold_ok rfc3339 f" and "provider_name p = Some p" and "channel_ok c" and "model_ok m" and "rfc3339 at"
  shows "fold_ok rfc3339 (fold_success p c m at n f)"
  unfolding fold_success_def Let_def using row_ok_get [OF assms(1), of p c] assms
  by (intro fold_ok_insert) (simp_all add: row_ok_def)

lemma fold_ok_failure:
  assumes "fold_ok rfc3339 f" and "provider_name p = Some p" and "channel_ok c"
    and "rfc3339 (fo_at x)" and "model_ok (fo_model x)"
    and "fo_class x \<in> set (''unclassified'' # KNOWN_FAILURE_CLASSES)" and "fo_origin x \<in> {''provider'', ''unverified''}"
  shows "fold_ok rfc3339 (fold_failure p c n x f)"
  unfolding fold_failure_def Let_def using row_ok_get [OF assms(1), of p c] assms
  by (intro fold_ok_insert) (simp_all add: row_ok_def)

lemma fold_ok_fields:
  "pf_rows g = pf_rows f \<Longrightarrow> pf_pending g = pf_pending f \<Longrightarrow> fold_ok rfc3339 g = fold_ok rfc3339 f"
  by (simp add: fold_ok_def)

lemma remove_first_sub: "set (remove_first P xs) \<subseteq> set xs" "length (remove_first P xs) \<le> length xs"
  by (induction xs) auto

lemma fold_ok_close: "fold_ok rfc3339 f \<Longrightarrow> fold_ok rfc3339 (fold_close k f)"
  using remove_first_sub [of "\<lambda>p. fst p = k" "pf_pending f"]
  unfolding fold_ok_def fold_close_def by (auto split: prod.splits)

lemma failure_class_of_known: "failure_class_of payload \<in> set (''unclassified'' # KNOWN_FAILURE_CLASSES)"
  by (simp add: failure_class_of_def split: option.split)

lemma fold_ok_attempted:
  assumes "fold_ok rfc3339 f" and "attempt_ok rfc3339 a"
  shows "fold_ok rfc3339 (observe_attempted k a f)"
proof -
  have "set (tl (pf_pending f)) \<subseteq> set (pf_pending f)" by (rule list.set_sel(2) [THEN subsetI]) auto
  then show ?thesis using assms
    by (auto simp: fold_ok_def observe_attempted_def exclude_def Let_def MAX_PENDING_ATTEMPTS_def)
qed

lemma fold_ok_channel: "fold_ok rfc3339 g \<Longrightarrow> fold_ok rfc3339 (snd (fold_channel v (fold_close k g)))"
  using fold_ok_close [of rfc3339 g k] by (simp add: fold_ok_fields [OF fold_channel_fields(2,5)])

lemma fold_ok_exclude: "fold_ok rfc3339 g \<Longrightarrow> fold_ok rfc3339 (exclude u g)"
  by (simp add: fold_ok_def exclude_def)

lemma fold_ok_completed:
  assumes "fold_ok rfc3339 g" and "provider_name p = Some p" and "model_ok m" and "rfc3339 at"
  shows "fold_ok rfc3339 (observe_completed k payload p m at n g)"
  unfolding observe_completed_def split_beta Let_def fold_channel_fields(1)
  by (intro fold_ok_success fold_ok_channel from_payload_ok assms)

lemma fold_ok_failed:
  assumes "fold_ok rfc3339 g" and "provider_name p = Some p" and "model_ok m" and "rfc3339 at"
  shows "fold_ok rfc3339 (observe_failed k payload p m at n g)"
proof -
  let ?g = "snd (fold_channel (json_index payload ''channel'') (fold_close k g))"
  let ?c = "fst (ObservedChannel_from_payload (json_index payload ''channel''))"
  have g: "fold_ok rfc3339 ?g" by (rule fold_ok_channel [OF assms(1)])
  have failure: "fold_ok rfc3339 (fold_failure p ?c n
      \<lparr>fo_at = at, fo_model = m, fo_class = failure_class_of payload, fo_origin = origin\<rparr> ?g)"
    if "origin \<in> {''provider'', ''unverified''}" for origin
    by (rule fold_ok_failure [OF g assms(2) from_payload_ok]) (use assms that failure_class_of_known in auto)
  have success: "fold_ok rfc3339 (fold_success p ?c m at n (exclude u ?g))" for u
    by (rule fold_ok_success [OF fold_ok_exclude [OF g] assms(2) from_payload_ok assms(3,4)])
  show ?thesis unfolding observe_failed_def split_beta Let_def fold_channel_fields(1)
    using failure success fold_ok_exclude [OF g] by (simp split: if_split)
qed

lemma fold_ok_observe:
  assumes "fold_ok rfc3339 f"
  shows "fold_ok rfc3339 (observe rfc3339 f e)"
proof (cases rule: observe_cases [of rfc3339 e f])
  case skipped
  then show ?thesis using assms by (simp add: fold_ok_def observe_any_def)
next
  case malformed
  then show ?thesis using assms by (simp add: fold_ok_def observe_any_def exclude_def)
next
  case (route p m g)
  have g: "fold_ok rfc3339 g" using assms route(4,5) by (simp add: fold_ok_def)
  have "fold_ok rfc3339 (observe_attempted k \<lparr>oa_provider = p, oa_model = m, oa_at = ev_occurred_at e\<rparr> g)" for k
    by (rule fold_ok_attempted [OF g]) (simp add: attempt_ok_def route(1-3))
  then show ?thesis
    using route(8) fold_ok_completed [OF g route(1-3)] fold_ok_failed [OF g route(1-3)] by auto
qed

interpretation execution_fold: event_fold "observe_row rfc3339" "\<lambda>(seen :: string set, f). fold_ok rfc3339 f" for rfc3339
proof
  fix s :: "string set \<times> ProviderExecutionFold" and row
  assume "case s of (seen, f) \<Rightarrow> fold_ok rfc3339 f"
  moreover obtain seen f where s: "s = (seen, f)" by fastforce
  moreover have "fold_ok rfc3339 (note_unsupported_schema f) = fold_ok rfc3339 f"
    by (rule fold_ok_fields) (simp_all add: note_unsupported_schema_def)
  ultimately show "case observe_row rfc3339 s row of (seen, f) \<Rightarrow> fold_ok rfc3339 f"
    by (simp add: observe_row_def Let_def fold_ok_observe)
qed

lemma observe_tail_ok:
  "\<exists>f. fold_ok rfc3339 f \<and> (\<exists>ev. observe_tail rfc3339 tail = fold_view f ev \<and>
     (xe_state ev = EvComplete \<longrightarrow> tl_stream_present tail \<and> OperatorTail_is_complete tail))"
proof -
  have "fold_ok rfc3339 ProviderExecutionFold_default"
    by (simp add: fold_ok_def ProviderExecutionFold_default_def)
  then have "fold_ok rfc3339 (snd (foldl (observe_row rfc3339) ({}, ProviderExecutionFold_default) (tl_events tail)))"
    using execution_fold.fold_inv [of rfc3339 "({}, ProviderExecutionFold_default)" "tl_events tail"]
    by (simp add: split_beta)
  then show ?thesis by (force simp: observe_tail_def split_beta Let_def blank_evidence_def)
qed

lemma split_on_chars: "c \<in> set s \<Longrightarrow> p c \<or> (\<exists>part \<in> set (split_on p s). c \<in> set part)"
  by (induction s) (auto split: list.splits)

lemma identifier_chars:
  "provider_name a = Some a \<Longrightarrow> c \<in> set a \<Longrightarrow> is_ascii_alphanumeric c \<or> c \<in> set ''._-''"
  "account_identifier a = Some a \<Longrightarrow> c \<in> set a \<Longrightarrow> is_ascii_alphanumeric c \<or> c \<in> set ''._-''"
  "binary_identifier a = Some a \<Longrightarrow> c \<in> set a \<Longrightarrow> is_ascii_alphanumeric c \<or> c \<in> set ''._+-/''"
proof -
  show "provider_name a = Some a \<Longrightarrow> c \<in> set a \<Longrightarrow> is_ascii_alphanumeric c \<or> c \<in> set ''._-''"
    by (auto simp: provider_name_def list_all_iff is_ascii_alphanumeric_def is_ascii_lowercase_def is_ascii_digit_def
        split: if_splits)
  show "account_identifier a = Some a \<Longrightarrow> c \<in> set a \<Longrightarrow> is_ascii_alphanumeric c \<or> c \<in> set ''._-''"
    by (auto simp: account_identifier_def list_all_iff split: if_splits)
  assume valid: "binary_identifier a = Some a" and c: "c \<in> set a"
  show "is_ascii_alphanumeric c \<or> c \<in> set ''._+-/''"
  proof (cases "strip_prefix ''/'' a")
    case None
    then show ?thesis using valid c by (auto simp: binary_identifier_def list_all_iff Let_def split: if_splits)
  next
    case (Some path)
    then have "a = ''/'' @ path" by (auto simp: strip_prefix_def prefix_def split: if_splits)
    moreover have "\<forall>part \<in> set (split_on (\<lambda>c. c = CHR ''/'') path). \<forall>c \<in> set part. is_ascii_alphanumeric c \<or> c \<in> set ''._+-''"
      using valid Some by (auto simp: binary_identifier_def list_all_iff Let_def split: if_splits)
    ultimately show ?thesis using c split_on_chars [of c path "\<lambda>c. c = CHR ''/''"] by fastforce
  qed
qed

lemma model_ok_clean: "model_ok m \<Longrightarrow> \<not> contains m ''://'' \<and> \<not> prefix ''//'' m \<and> length m \<le> 128"
proof -
  have "\<not> contains ''unknown'' ''://''" by code_simp
  then show "model_ok m \<Longrightarrow> \<not> contains m ''://'' \<and> \<not> prefix ''//'' m \<and> length m \<le> 128"
    by (auto simp: model_ok_def model_identifier_def MAX_IDENTIFIER_LEN_def Let_def split: if_splits)
qed

definition plain_identifier :: "string \<Rightarrow> bool" where
  "plain_identifier s \<longleftrightarrow> (\<forall>c \<in> set s. is_ascii_alphanumeric c \<or> c \<in> set ''._+-/'')"

definition safe_execution :: "(string \<Rightarrow> bool) \<Rightarrow> ProviderExecution \<Rightarrow> bool" where
  "safe_execution rfc3339 px \<longleftrightarrow>
     provider_name (px_provider px) = Some (px_provider px) \<and> channel_ok (px_channel px) \<and>
     list_all plain_identifier (px_provider px # map the (filter (\<lambda>x. x \<noteq> None)
       [ch_account_id (px_channel px), ch_binary (px_channel px)])) \<and>
     (\<forall>x. px_last_success px = Some x \<longrightarrow> rfc3339 (so_at x) \<and> \<not> contains (so_model x) ''://'') \<and>
     (\<forall>x. px_last_failure px = Some x \<longrightarrow> rfc3339 (fo_at x) \<and> \<not> contains (fo_model x) ''://'' \<and>
        fo_class x \<in> set (''unclassified'' # KNOWN_FAILURE_CLASSES))"

lemma safe_row_view:
  assumes "provider_name p = Some p" and "channel_ok c" and "row_ok rfc3339 row"
  shows "safe_execution rfc3339 (row_view ((p, c), row))"
proof -
  have "plain_identifier p" using identifier_chars(1) [OF assms(1)] by (auto simp: plain_identifier_def)
  moreover have "plain_identifier a" if "ch_account_id c = Some a" for a
    using that assms(2) identifier_chars(2) [of a] by (auto simp: plain_identifier_def channel_ok_def ObservedChannel_unknown_def)
  moreover have "plain_identifier b" if "ch_binary c = Some b" for b
    using that assms(2) identifier_chars(3) [of b] by (auto simp: plain_identifier_def channel_ok_def ObservedChannel_unknown_def)
  ultimately show ?thesis using assms model_ok_clean
    by (auto simp: safe_execution_def row_view_def row_ok_def)
qed

text \<open>Nothing unchecked leaves the fold. Whatever a tail holds, every observation names a
  provider, a channel and a model that passed their checks: names are plain identifiers, so neither an
  endpoint nor the user info of one is ever shown, no model is a URL, times are RFC 3339, failure
  classes are known ones. At most 64 attempts are open. A view calls itself complete only if the whole
  stream was read undamaged and every event in it was understood.\<close>

theorem observations_are_validated:
  fixes tail :: OperatorTail and rfc3339 :: "string \<Rightarrow> bool"
  defines "view \<equiv> observe_tail rfc3339 tail"
  shows "(\<forall>px \<in> set (pv_observations view). safe_execution rfc3339 px) \<and>
    length (pv_open_attempts view) \<le> 64 \<and>
    (\<forall>a \<in> set (pv_open_attempts view). provider_name (oa_provider a) = Some (oa_provider a) \<and>
       \<not> contains (oa_model a) ''://'' \<and> rfc3339 (oa_at a)) \<and>
    (xe_state (pv_evidence view) = EvComplete \<longrightarrow>
       tl_stream_present tail \<and> OperatorTail_is_complete tail \<and>
       xe_unsupported_schema_events (pv_evidence view) = 0 \<and> xe_rejected_facts (pv_evidence view) = 0)"
proof -
  obtain f ev where f: "fold_ok rfc3339 f" "view = fold_view f ev"
    and whole: "xe_state ev = EvComplete \<longrightarrow> tl_stream_present tail \<and> OperatorTail_is_complete tail"
    using observe_tail_ok unfolding view_def by blast
  have "safe_execution rfc3339 px" if "px \<in> set (pv_observations view)" for px
    using that f safe_row_view by (fastforce simp: fold_view_def Let_def fold_ok_def)
  moreover have "attempt_ok rfc3339 a" if "a \<in> set (pv_open_attempts view)" for a
    using that f by (auto simp: fold_view_def Let_def fold_ok_def)
  ultimately show ?thesis using f(1) whole model_ok_clean
    by (auto simp: attempt_ok_def f(2) fold_view_def Let_def fold_ok_def MAX_PENDING_ATTEMPTS_def split: if_splits)
qed


section \<open>A concrete window\<close>

definition sample_route :: "string \<Rightarrow> OperatorEventType \<Rightarrow> (string \<times> json) list \<Rightarrow> CursorEvent" where
  "sample_route event_id event_type kvs =
     \<lparr>ce_cursor = event_id, ce_event = demo_event\<lparr>ev_event_id := event_id, ev_event_type := event_type,
        ev_occurred_at := ''noon'', ev_call_id := Some ''c1'',
        ev_payload := JObject ((''provider'', JString ''p1'') # kvs)\<rparr>\<rparr>"

definition sample_tail :: OperatorTail where
  "sample_tail = \<lparr>tl_events =
      [sample_route ''e1'' RouteAttempted [], sample_route ''e2'' RouteCompleted [(''model'', JString ''m'')],
       sample_route ''e3'' RouteFailed [(''failure_class'', JString ''timeout''), (''failure_origin'', JString ''provider'')],
       sample_route ''e3'' RouteFailed [], sample_route ''e4'' RouteFailed [(''failure_class'', JString ''cancelled'')]],
     tl_stream_present = True, tl_starts_mid_stream = False, tl_dropped_events = 0, tl_skipped_lines = 0,
     tl_window_bytes = 100\<rparr>"

definition at_noon :: "string \<Rightarrow> bool" where "at_noon s \<longleftrightarrow> s = ''noon''"

lemma sample_verdicts:
  "verdicts at_noon (tl_events sample_tail) =
     [Attempted, Outcome (''p1'', ObservedChannel_unknown) LatestSuccess,
      Outcome (''p1'', ObservedChannel_unknown) LatestFailure, CancelledAttempt]"
  by code_simp

theorem executions_are_counted_witness:
  "(\<exists>px \<in> set (pv_observations (observe_tail at_noon sample_tail)).
      px_provider px = ''p1'' \<and> px_successes px = 1 \<and> px_failures px = 1 \<and> px_latest px = LatestFailure) \<and>
    ex_cancelled (pv_excluded (observe_tail at_noon sample_tail)) = 1"
proof -
  let ?os = "outcomes (verdicts at_noon (tl_events sample_tail)) (''p1'', ObservedChannel_unknown)"
  have os: "?os = [LatestSuccess, LatestFailure]"
    by (simp add: sample_verdicts outcomes_def List.map_filter_def)
  note counted = executions_are_counted [of at_noon sample_tail]
  then have "?os \<noteq> [] \<longrightarrow> (\<exists>px \<in> set (pv_observations (observe_tail at_noon sample_tail)).
      px_provider px = ''p1'' \<and> px_channel px = ObservedChannel_unknown)" by blast
  with os obtain px where px: "px \<in> set (pv_observations (observe_tail at_noon sample_tail))"
    "px_provider px = ''p1''" "px_channel px = ObservedChannel_unknown" by auto
  with counted os have "px_successes px = 1 \<and> px_failures px = 1 \<and> px_latest px = LatestFailure"
    by (auto simp: Let_def)
  with px counted show ?thesis by (auto simp: sample_verdicts)
qed

theorem observations_are_validated_witness:
  "safe_execution at_noon (hd (pv_observations (observe_tail at_noon sample_tail))) \<and>
   xe_state (pv_evidence (observe_tail at_noon sample_tail)) = EvComplete \<and>
   xe_rejected_facts (pv_evidence (observe_tail at_noon sample_tail)) = 0"
proof -
  have "length (pv_observations (observe_tail at_noon sample_tail)) = 1"
    "xe_state (pv_evidence (observe_tail at_noon sample_tail)) = EvComplete" by code_simp+
  with observations_are_validated [of at_noon sample_tail] show ?thesis by (auto simp: length_Suc_conv)
qed

end
