(* ===== verification/Float64.thy ===== *)
theory Float64
  imports Prelude
begin

text \<open>
  The \<open>f64\<close> of the language as its 64 bits: comparisons, \<open>total_cmp\<close>, \<open>min\<close>, \<open>max\<close>, \<open>clamp\<close>, and the
  arithmetic operations with rounding to the nearest value, ties to even. A result that is not a
  number has the canonical bits.
\<close>

section \<open>The bits of a number\<close>

type_synonym f64 = u64

definition f64_mag :: "f64 \<Rightarrow> int" where "f64_mag b = uint b mod 2 ^ 63"
definition f64_neg :: "f64 \<Rightarrow> bool" where "f64_neg b \<longleftrightarrow> 2 ^ 63 \<le> uint b"

definition INF_MAG :: int where "INF_MAG = 2047 * 2 ^ 52"

definition f64_finite :: "f64 \<Rightarrow> bool" where "f64_finite b \<longleftrightarrow> f64_mag b < INF_MAG"
definition f64_nan :: "f64 \<Rightarrow> bool" where "f64_nan b \<longleftrightarrow> INF_MAG < f64_mag b"

definition f64_make :: "bool \<Rightarrow> int \<Rightarrow> f64" where
  "f64_make neg mag = word_of_int (if neg then 2 ^ 63 + mag else mag)"

definition NAN :: f64 where "NAN = 0x7FF8000000000000"
definition F64_MAX :: f64 where "F64_MAX = 0x7FEFFFFFFFFFFFFF"

text \<open>A finite number is its mantissa times two to its exponent.\<close>

definition f64_man :: "f64 \<Rightarrow> int" where
  "f64_man b = (let E = f64_mag b div 2 ^ 52; F = f64_mag b mod 2 ^ 52 in if E = 0 then F else 2 ^ 52 + F)"

definition f64_exp :: "f64 \<Rightarrow> int" where
  "f64_exp b = (let E = f64_mag b div 2 ^ 52 in if E = 0 then - 1074 else E - 1075)"

section \<open>Comparison\<close>

definition f64_key :: "f64 \<Rightarrow> int" where
  "f64_key b = (if f64_neg b then - f64_mag b else f64_mag b)"

definition f64_lt :: "f64 \<Rightarrow> f64 \<Rightarrow> bool" where
  "f64_lt a b \<longleftrightarrow> \<not> f64_nan a \<and> \<not> f64_nan b \<and> f64_key a < f64_key b"

definition f64_le :: "f64 \<Rightarrow> f64 \<Rightarrow> bool" where
  "f64_le a b \<longleftrightarrow> \<not> f64_nan a \<and> \<not> f64_nan b \<and> f64_key a \<le> f64_key b"

definition f64_eq :: "f64 \<Rightarrow> f64 \<Rightarrow> bool" where
  "f64_eq a b \<longleftrightarrow> \<not> f64_nan a \<and> \<not> f64_nan b \<and> f64_key a = f64_key b"

text \<open>\<open>total_cmp\<close> compares these keys.\<close>

definition total_key :: "f64 \<Rightarrow> int" where
  "total_key b = (if f64_neg b then - f64_mag b - 1 else f64_mag b)"

definition f64_min :: "f64 \<Rightarrow> f64 \<Rightarrow> f64" where
  "f64_min a b = (if f64_nan a then b else if f64_nan b then a else if f64_lt b a then b else a)"

definition f64_max :: "f64 \<Rightarrow> f64 \<Rightarrow> f64" where
  "f64_max a b = (if f64_nan a then b else if f64_nan b then a else if f64_lt a b then b else a)"

definition f64_clamp :: "f64 \<Rightarrow> f64 \<Rightarrow> f64 \<Rightarrow> f64" where
  "f64_clamp x lo hi = (let y = if f64_lt x lo then lo else x in if f64_lt hi y then hi else y)"

section \<open>Arithmetic\<close>

function bit_length :: "int \<Rightarrow> int" where
  "bit_length n = (if n \<le> 0 then 0 else 1 + bit_length (n div 2))"
  by auto
termination by (relation "measure nat") auto

declare bit_length.simps [simp del]

text \<open>The integer nearest to \<open>m / 2 ^ k\<close>, ties to even.\<close>

definition round_shift :: "int \<Rightarrow> nat \<Rightarrow> int" where
  "round_shift m k =
     (let q = m div 2 ^ k; r = m mod 2 ^ k in
      if 2 * r > 2 ^ k \<or> (2 * r = 2 ^ k \<and> odd q) then q + 1 else q)"

text \<open>The magnitude of the number nearest to \<open>m * 2 ^ e\<close>: the shift leaves 53 bits, or fewer for a
  subnormal result; a carry out of the mantissa falls into the exponent.\<close>

definition round_mag :: "int \<Rightarrow> int \<Rightarrow> int" where
  "round_mag m e =
     (if m = 0 then 0
      else
        let k = max (bit_length m - 53) (- 1074 - e);
            q = if k \<le> 0 then m * 2 ^ nat (- k) else round_shift m (nat k)
        in min INF_MAG ((e + k + 1074) * 2 ^ 52 + q))"

definition f64_minus :: "f64 \<Rightarrow> f64" where "f64_minus b = b + 2 ^ 63"

definition f64_signed :: "f64 \<Rightarrow> int" where
  "f64_signed b = (if f64_neg b then - f64_man b else f64_man b)"

definition f64_add :: "f64 \<Rightarrow> f64 \<Rightarrow> f64" where
  "f64_add a b =
     (if f64_nan a \<or> f64_nan b then NAN
      else if \<not> f64_finite a then (if \<not> f64_finite b \<and> f64_neg a \<noteq> f64_neg b then NAN else a)
      else if \<not> f64_finite b then b
      else
        let e = min (f64_exp a) (f64_exp b);
            s = f64_signed a * 2 ^ nat (f64_exp a - e) + f64_signed b * 2 ^ nat (f64_exp b - e)
        in if s = 0 then f64_make (f64_neg a \<and> f64_neg b) 0
           else f64_make (s < 0) (round_mag \<bar>s\<bar> e))"

definition f64_sub :: "f64 \<Rightarrow> f64 \<Rightarrow> f64" where "f64_sub a b = f64_add a (f64_minus b)"

definition f64_mul :: "f64 \<Rightarrow> f64 \<Rightarrow> f64" where
  "f64_mul a b =
     (let neg = (f64_neg a \<noteq> f64_neg b) in
      if f64_nan a \<or> f64_nan b then NAN
      else if \<not> f64_finite a \<or> \<not> f64_finite b then (if f64_mag a = 0 \<or> f64_mag b = 0 then NAN else f64_make neg INF_MAG)
      else f64_make neg (round_mag (f64_man a * f64_man b) (f64_exp a + f64_exp b)))"

text \<open>A quotient is taken to 117 bits, with one more bit that says whether anything is left.\<close>

definition ratio_mag :: "int \<Rightarrow> int \<Rightarrow> int \<Rightarrow> int" where
  "ratio_mag n d e =
     (let q = n * 2 ^ 117 div d; sticky = if n * 2 ^ 117 mod d = 0 then 0 else 1 in round_mag (2 * q + sticky) (e - 118))"

definition f64_div :: "f64 \<Rightarrow> f64 \<Rightarrow> f64" where
  "f64_div a b =
     (let neg = (f64_neg a \<noteq> f64_neg b) in
      if f64_nan a \<or> f64_nan b \<or> (\<not> f64_finite a \<and> \<not> f64_finite b) \<or> (f64_mag a = 0 \<and> f64_mag b = 0) then NAN
      else if \<not> f64_finite a \<or> f64_mag b = 0 then f64_make neg INF_MAG
      else if \<not> f64_finite b then f64_make neg 0
      else f64_make neg (ratio_mag (f64_man a) (f64_man b) (f64_exp a - f64_exp b)))"

text \<open>The literal for \<open>n / d\<close>.\<close>

definition f64_lit :: "int \<Rightarrow> int \<Rightarrow> f64" where
  "f64_lit n d = f64_make (n < 0) (ratio_mag \<bar>n\<bar> d 0)"

lemma literals:
  "f64_lit 0 1 = 0" "f64_lit 1 1 = 0x3FF0000000000000" "f64_lit 3 4 = 0x3FE8000000000000"
  "f64_lit 1 10 = 0x3FB999999999999A" "f64_lit (- 3) 10 = 0xBFD3333333333333"
  by code_simp+

lemma sums_round:
  "f64_add (f64_lit 1 10) (f64_lit 2 10) = 0x3FD3333333333334"
  "f64_sub (f64_lit 3 10) (f64_lit 1 10) = 0x3FC9999999999999"
  "f64_mul (f64_lit 1 10) (f64_lit 3 1) = 0x3FD3333333333334"
  "f64_div (f64_lit 1 1) (f64_lit 3 1) = 0x3FD5555555555555"
  "f64_add F64_MAX F64_MAX = 0x7FF0000000000000" "f64_mul 1 (f64_lit 1 2) = 0" "f64_mul 3 (f64_lit 1 2) = 2"
  by code_simp+

section \<open>Order\<close>

lemma f64_mag_bounds: "0 \<le> f64_mag b" "f64_mag b < 2 ^ 63"
  by (simp_all add: f64_mag_def)

lemma f64_uint: "uint b = (if f64_neg b then 2 ^ 63 + f64_mag b else f64_mag b)"
proof -
  have "0 \<le> uint b" "uint b < 2 ^ 64" using unsigned_less [of b, where ?'a = int] by simp_all
  then have "uint b mod 2 ^ 63 = uint b - 2 ^ 63" if "f64_neg b"
    using that mod_add_self1 [of "2 ^ 63" "uint b - 2 ^ 63"] mod_pos_pos_trivial [of "uint b - 2 ^ 63" "2 ^ 63"]
    by (simp add: f64_neg_def)
  with \<open>0 \<le> uint b\<close> show ?thesis by (cases "f64_neg b") (simp_all add: f64_neg_def f64_mag_def)
qed

lemma f64_eqI: "f64_neg a = f64_neg b \<Longrightarrow> f64_mag a = f64_mag b \<Longrightarrow> a = b"
  by (metis f64_uint word_uint_eqI)

lemma f64_make_parts:
  assumes "0 \<le> mag" "mag < 2 ^ 63"
  shows "f64_mag (f64_make neg mag) = mag" "f64_neg (f64_make neg mag) = neg"
proof -
  have "uint (f64_make neg mag) = (if neg then 2 ^ 63 + mag else mag)"
    using assms by (simp add: f64_make_def unsigned_of_int take_bit_int_eq_self)
  then show "f64_mag (f64_make neg mag) = mag" "f64_neg (f64_make neg mag) = neg"
    using assms by (simp_all add: f64_mag_def f64_neg_def)
qed

text \<open>\<open>total_cmp\<close> is a total order: different bits have different keys.\<close>

lemma total_key_inject: "total_key a = total_key b \<longleftrightarrow> a = b"
proof
  assume "total_key a = total_key b"
  then have "f64_neg a = f64_neg b \<and> f64_mag a = f64_mag b"
    using f64_mag_bounds(1) [of a] f64_mag_bounds(1) [of b] by (auto simp: total_key_def split: if_splits)
  then show "a = b" by (simp add: f64_eqI)
qed simp

text \<open>On numbers it refines \<open>\<le>\<close>.\<close>

lemma total_key_less_le: "\<not> f64_nan a \<Longrightarrow> \<not> f64_nan b \<Longrightarrow> total_key a \<le> total_key b \<Longrightarrow> f64_le a b"
  using f64_mag_bounds(1) [of a] f64_mag_bounds(1) [of b] by (auto simp: total_key_def f64_le_def f64_key_def split: if_splits)

lemma finite_not_nan: "f64_finite b \<Longrightarrow> \<not> f64_nan b"
  by (simp add: f64_finite_def f64_nan_def)

lemma zero_parts [simp]: "f64_mag 0 = 0" "\<not> f64_neg 0" "\<not> f64_nan 0" "f64_finite 0" "f64_key 0 = 0"
  by (simp_all add: f64_mag_def f64_neg_def f64_nan_def f64_finite_def f64_key_def INF_MAG_def)

end
