(* ===== verification/Session_Fold.thy ===== *)
theory Session_Fold
  imports Provider_Executions Float64
begin

text \<open>
  The state of the operator session service, \<open>crates/heiwa_session/src/operator.rs\<close>: routing policies
  and turn requests, the threads and turns folded from the operator journal (\<open>apply_event\<close>), the
  views of them, and the checks an event passes before it is written (\<open>validate_event\<close>). A hash map is
  a key-sorted association list, a hash set a set; whatever depends on the iteration order of a map
  takes that order as a parameter. A method that mutates its argument and returns whether it did is a
  function to an option: the changed value, or nothing where the source returns false and changes
  nothing. SHA-256, version 5 UUIDs and the derived codec of a routing policy are fields of
  \<open>session_lib\<close>. Floats are those of \<open>Float64\<close>.
\<close>

section \<open>Routing policies and requests\<close>

datatype RouteMode = RouteAuto | LocalOnly | RemoteOnly | ExplicitRoute

record TurnRoutePolicy =
  trp_mode :: RouteMode
  trp_preferred_provider :: "string option"
  trp_preferred_model :: "string option"
  trp_allowed_models :: "string list"
  trp_excluded_models :: "string list"
  trp_minimum_quality_class :: u8
  trp_maximum_marginal_cost_usd :: "f64 option"
  trp_turn_budget_usd :: "f64 option"
  trp_privacy :: string

definition normalized_optional :: "string option \<Rightarrow> string option" where
  "normalized_optional v = (case map_option trim v of Some t \<Rightarrow> if t = [] then None else Some t | None \<Rightarrow> None)"

definition normalized_models :: "string list \<Rightarrow> string list" where
  "normalized_models vs = remdups_adj (sort (filter (\<lambda>v. v \<noteq> []) (map trim vs)))"

definition normalized_zero :: "f64 \<Rightarrow> f64" where
  "normalized_zero x = (if f64_eq x 0 then 0 else x)"

definition TurnRoutePolicy_normalized :: "TurnRoutePolicy \<Rightarrow> TurnRoutePolicy" where
  "TurnRoutePolicy_normalized p =
     \<lparr>trp_mode = trp_mode p,
      trp_preferred_provider = normalized_optional (trp_preferred_provider p),
      trp_preferred_model = normalized_optional (trp_preferred_model p),
      trp_allowed_models = normalized_models (trp_allowed_models p),
      trp_excluded_models = normalized_models (trp_excluded_models p),
      trp_minimum_quality_class = trp_minimum_quality_class p,
      trp_maximum_marginal_cost_usd = map_option normalized_zero (trp_maximum_marginal_cost_usd p),
      trp_turn_budget_usd = map_option normalized_zero (trp_turn_budget_usd p),
      trp_privacy = to_ascii_lowercase (trim (trp_privacy p))\<rparr>"

text \<open>The derived \<open>PartialEq\<close>.\<close>

definition policy_eq :: "TurnRoutePolicy \<Rightarrow> TurnRoutePolicy \<Rightarrow> bool" where
  "policy_eq p q \<longleftrightarrow>
     trp_mode p = trp_mode q \<and> trp_preferred_provider p = trp_preferred_provider q \<and>
     trp_preferred_model p = trp_preferred_model q \<and> trp_allowed_models p = trp_allowed_models q \<and>
     trp_excluded_models p = trp_excluded_models q \<and> trp_minimum_quality_class p = trp_minimum_quality_class q \<and>
     rel_option f64_eq (trp_maximum_marginal_cost_usd p) (trp_maximum_marginal_cost_usd q) \<and>
     rel_option f64_eq (trp_turn_budget_usd p) (trp_turn_budget_usd q) \<and> trp_privacy p = trp_privacy q"

record StartTurnRequest =
  sq_client_request_id :: string
  sq_prompt :: string
  sq_route_policy :: TurnRoutePolicy
  sq_work_id :: "string option"

definition StartTurnRequest_auto :: "string \<Rightarrow> string \<Rightarrow> StartTurnRequest" where
  "StartTurnRequest_auto client_request_id prompt =
     \<lparr>sq_client_request_id = client_request_id, sq_prompt = prompt,
      sq_route_policy = \<lparr>trp_mode = RouteAuto, trp_preferred_provider = None, trp_preferred_model = None,
        trp_allowed_models = [], trp_excluded_models = [], trp_minimum_quality_class = 1,
        trp_maximum_marginal_cost_usd = None, trp_turn_budget_usd = None, trp_privacy = ''standard''\<rparr>,
      sq_work_id = None\<rparr>"

record session_lib =
  sl_sha256 :: "string \<Rightarrow> string"
  sl_uuid_v5 :: "string \<Rightarrow> string \<Rightarrow> string"
  sl_policy_to_value :: "TurnRoutePolicy \<Rightarrow> json"
  sl_policy_of_value :: "json \<Rightarrow> TurnRoutePolicy option"
  sl_rfc3339 :: "string \<Rightarrow> bool"

definition operator_turn_namespace :: "session_lib \<Rightarrow> string" where
  "operator_turn_namespace S = take 16 (sl_sha256 S ''heiwa.operator.turn.v1'')"

definition deterministic_turn_id :: "session_lib \<Rightarrow> string \<Rightarrow> string \<Rightarrow> string" where
  "deterministic_turn_id S thread_id client_request_id =
     sl_uuid_v5 S (operator_turn_namespace S) (thread_id @ [CHR 0x1F] @ client_request_id)"

definition prompt_fingerprint :: "session_lib \<Rightarrow> string \<Rightarrow> string" where
  "prompt_fingerprint S prompt = concat (map hex_byte (sl_sha256 S prompt))"

definition project_subject :: "string \<Rightarrow> string" where
  "project_subject project_id = ''project:'' @ project_id"

section \<open>Metadata checks\<close>

datatype metadata_error = InvalidMetadata | InvalidMetadataIdentifier

definition validate_metadata_text :: "string \<Rightarrow> metadata_error + unit" where
  "validate_metadata_text v =
     (if trim v = [] \<or> length v > 256 \<or> find_sensitive (JString v) \<noteq> None then Inl InvalidMetadata else Inr ())"

text \<open>\<open>char::is_control\<close> on UTF-8: U+0000 to U+001F, U+007F, and U+0080 to U+009F.\<close>

fun has_control :: "string \<Rightarrow> bool" where
  "has_control [] = False"
| "has_control (c # s) =
     (byte c < 32 \<or> byte c = 127 \<or> (byte c = 0xC2 \<and> s \<noteq> [] \<and> 128 \<le> byte (hd s) \<and> byte (hd s) \<le> 159) \<or> has_control s)"

definition validate_metadata_identifier :: "string \<Rightarrow> metadata_error + unit" where
  "validate_metadata_identifier v =
     (if trim v = [] \<or> length v > 128 \<or> contains v ''..'' \<or> CHR ''/'' \<in> set v \<or> CHR 0x5C \<in> set v \<or>
         has_control v \<or> find_sensitive (JString v) \<noteq> None
      then Inl InvalidMetadataIdentifier else Inr ())"

definition optionally :: "('a \<Rightarrow> 'e + unit) \<Rightarrow> 'a option \<Rightarrow> 'e + unit" where
  "optionally check v = (case v of Some x \<Rightarrow> check x | None \<Rightarrow> Inr ())"

definition validate_thread_metadata :: "string \<Rightarrow> string option \<Rightarrow> string option \<Rightarrow> metadata_error + unit" where
  "validate_thread_metadata thread_id title project_id =
     (case validate_metadata_identifier thread_id of
        Inl err \<Rightarrow> Inl err
      | Inr _ \<Rightarrow>
          (case optionally validate_metadata_text title of
             Inl err \<Rightarrow> Inl err
           | Inr _ \<Rightarrow> optionally validate_metadata_identifier project_id))"

definition validate_project_metadata :: "string \<Rightarrow> string option \<Rightarrow> metadata_error + unit" where
  "validate_project_metadata project_id title =
     (case validate_metadata_identifier project_id of
        Inl err \<Rightarrow> Inl err
      | Inr _ \<Rightarrow> optionally validate_metadata_text title)"

section \<open>Folded state\<close>

datatype EventAdmission = Admitted | Duplicate | UnsupportedSchema | Rejected

record ApprovalKey =
  ak_call_id :: string
  ak_request_id :: string
  ak_tool :: string

record ToolKey =
  tk_call_id :: string
  tk_name :: string

record FoldedTurn =
  ft_turn_id :: string
  ft_client_request_id :: "string option"
  ft_work_id :: "string option"
  ft_prompt_fingerprint :: "string option"
  ft_status :: string
  ft_cancel_requested :: bool
  ft_prompt :: "string option"
  ft_user_message_cursor :: "string option"
  ft_started_at :: string
  ft_route_policy :: "TurnRoutePolicy option"
  ft_pending_approvals :: "ApprovalKey set"
  ft_pending_tools :: "ToolKey set"

record FoldedThread =
  fth_thread_id :: string
  fth_turns :: "FoldedTurn list"
  fth_skipped_events :: nat
  fth_last_order :: nat
  fth_title :: "string option"
  fth_project_id :: "string option"
  fth_archived :: bool

definition FoldedThread_new :: "string \<Rightarrow> FoldedThread" where
  "FoldedThread_new thread_id = \<lparr>fth_thread_id = thread_id, fth_turns = [], fth_skipped_events = 0,
     fth_last_order = 0, fth_title = None, fth_project_id = None, fth_archived = False\<rparr>"

record FoldedProject =
  fp_project_id :: string
  fp_title :: string
  fp_archived :: bool
  fp_last_order :: nat

record MaterializedJournal =
  mj_threads :: "(string, FoldedThread) btree"
  mj_projects :: "(string, FoldedProject) btree"
  mj_work_threads :: "(string, string set) btree"
  mj_unsupported_schema_events :: "(string, nat) btree"
  mj_rejected_current_schema_events :: "(string, nat) btree"
  mj_seen_event_ids :: "string set"
  mj_cursor :: "string option"
  mj_order :: nat
  mj_committed_skipped_lines :: nat
  mj_tail_skipped_lines :: nat
  mj_applied_event_rows :: nat
  mj_provider_executions :: ProviderExecutionFold

definition MaterializedJournal_default :: MaterializedJournal where
  "MaterializedJournal_default = \<lparr>mj_threads = [], mj_projects = [], mj_work_threads = [],
     mj_unsupported_schema_events = [], mj_rejected_current_schema_events = [], mj_seen_event_ids = {},
     mj_cursor = None, mj_order = 0, mj_committed_skipped_lines = 0, mj_tail_skipped_lines = 0,
     mj_applied_event_rows = 0, mj_provider_executions = ProviderExecutionFold_default\<rparr>"

definition total_skipped_lines :: "MaterializedJournal \<Rightarrow> nat" where
  "total_skipped_lines m = mj_committed_skipped_lines m + mj_tail_skipped_lines m"

section \<open>Views\<close>

record OperatorTurnView =
  otv_turn_id :: string
  otv_client_request_id :: "string option"
  otv_work_id :: "string option"
  otv_status :: string
  otv_prompt :: "string option"
  otv_user_message_cursor :: "string option"
  otv_started_at :: string
  otv_route_policy :: "TurnRoutePolicy option"

record OperatorThreadView =
  ov_thread_id :: string
  ov_title :: "string option"
  ov_project_id :: "string option"
  ov_archived :: bool
  ov_work_ids :: "string list"
  ov_turns :: "OperatorTurnView list"
  ov_skipped_events :: nat
  ov_skipped_lines :: nat

record OperatorThreadSummary =
  os_thread_id :: string
  os_turn_count :: nat
  os_latest_turn_id :: "string option"
  os_latest_status :: "string option"
  os_title :: "string option"
  os_project_id :: "string option"
  os_archived :: bool

record OperatorProjectSummary =
  ops_project_id :: string
  ops_title :: string
  ops_archived :: bool

text \<open>The characters of a UTF-8 string.\<close>

fun utf8_chars :: "string \<Rightarrow> string list" where
  "utf8_chars [] = []"
| "utf8_chars (c # s) =
     (case utf8_chars s of
        [] \<Rightarrow> [[c]]
      | x # xs \<Rightarrow> if x \<noteq> [] \<and> is_continuation (hd x) then (c # x) # xs else [c] # x # xs)"

text \<open>At most 120 characters and, where some were cut, a horizontal ellipsis.\<close>

definition fallback_thread_title :: "string \<Rightarrow> string" where
  "fallback_thread_title prompt =
     (let limit = 120; cs = utf8_chars (trim prompt) in
      concat (take limit cs) @ (if length cs > limit then [CHR 0xE2, CHR 0x80, CHR 0xA6] else []))"

fun find_map :: "('a \<Rightarrow> 'b option) \<Rightarrow> 'a list \<Rightarrow> 'b option" where
  "find_map f [] = None"
| "find_map f (x # xs) = (case f x of Some y \<Rightarrow> Some y | None \<Rightarrow> find_map f xs)"

definition shown_title :: "FoldedThread \<Rightarrow> string option" where
  "shown_title th = (case fth_title th of
      Some t \<Rightarrow> Some t
    | None \<Rightarrow> find_map (\<lambda>turn. map_option fallback_thread_title (ft_prompt turn)) (fth_turns th))"

definition turn_view :: "FoldedTurn \<Rightarrow> OperatorTurnView" where
  "turn_view t = \<lparr>otv_turn_id = ft_turn_id t, otv_client_request_id = ft_client_request_id t,
     otv_work_id = ft_work_id t, otv_status = ft_status t, otv_prompt = ft_prompt t,
     otv_user_message_cursor = ft_user_message_cursor t, otv_started_at = ft_started_at t,
     otv_route_policy = ft_route_policy t\<rparr>"

definition FoldedThread_to_view :: "FoldedThread \<Rightarrow> nat \<Rightarrow> nat \<Rightarrow> OperatorThreadView" where
  "FoldedThread_to_view th skipped_lines unsupported_schema_events =
     \<lparr>ov_thread_id = fth_thread_id th, ov_title = shown_title th, ov_project_id = fth_project_id th,
      ov_archived = fth_archived th, ov_work_ids = [], ov_turns = map turn_view (fth_turns th),
      ov_skipped_events = fth_skipped_events th + unsupported_schema_events, ov_skipped_lines = skipped_lines\<rparr>"

definition last_option :: "'a list \<Rightarrow> 'a option" where
  "last_option xs = (if xs = [] then None else Some (last xs))"

definition FoldedThread_to_summary :: "FoldedThread \<Rightarrow> OperatorThreadSummary" where
  "FoldedThread_to_summary th =
     \<lparr>os_thread_id = fth_thread_id th, os_turn_count = length (fth_turns th),
      os_latest_turn_id = map_option ft_turn_id (last_option (fth_turns th)),
      os_latest_status = map_option ft_status (last_option (fth_turns th)),
      os_title = shown_title th, os_project_id = fth_project_id th, os_archived = fth_archived th\<rparr>"

definition FoldedProject_to_summary :: "FoldedProject \<Rightarrow> OperatorProjectSummary" where
  "FoldedProject_to_summary p =
     \<lparr>ops_project_id = fp_project_id p, ops_title = fp_title p, ops_archived = fp_archived p\<rparr>"


section \<open>Reading an event\<close>

fun as_bool :: "json \<Rightarrow> bool option" where
  "as_bool (JBool b) = Some b"
| "as_bool _ = None"

definition payload_str :: "OperatorEvent \<Rightarrow> string \<Rightarrow> string option" where
  "payload_str event k = Option.bind (json_get (ev_payload event) k) as_str"

definition payload_bool :: "OperatorEvent \<Rightarrow> string \<Rightarrow> bool option" where
  "payload_bool event k = Option.bind (json_get (ev_payload event) k) as_bool"

definition requires_turn_id :: "OperatorEventType \<Rightarrow> bool" where
  "requires_turn_id t \<longleftrightarrow> t \<in> {TurnStarted, TurnCompleted, TurnCancelRequested, TurnInterrupted, UserMessage,
     RoutePlanned, RouteAttempted, RouteCompleted, RouteFailed, AssistantStarted, AssistantCompleted,
     ToolCallStarted, ToolCallCompleted}"

definition requires_work_id :: "OperatorEventType \<Rightarrow> bool" where
  "requires_work_id t \<longleftrightarrow> t \<in> {WorkCreated, WorkLinked, WorkspacePrepared, WorkspaceReleased}"

definition requires_call_id :: "OperatorEventType \<Rightarrow> bool" where
  "requires_call_id t \<longleftrightarrow>
     t \<in> {RoutePlanned, RouteAttempted, RouteCompleted, RouteFailed, ToolCallStarted, ToolCallCompleted}"

definition is_turn_terminal :: "string \<Rightarrow> bool" where
  "is_turn_terminal status \<longleftrightarrow> status \<in> {''completed'', ''interrupted'', ''blocked''}"

definition interruption_reason :: "OperatorEvent \<Rightarrow> string option" where
  "interruption_reason event = payload_str event ''reason''"

definition approval_key :: "OperatorEvent \<Rightarrow> ApprovalKey option" where
  "approval_key event =
     (case ev_call_id event of
        None \<Rightarrow> None
      | Some call_id \<Rightarrow>
          (case payload_str event ''call_id'' of
             None \<Rightarrow> None
           | Some stated \<Rightarrow>
               if stated \<noteq> call_id then None
               else
                 (case (payload_str event ''request_id'', payload_str event ''tool'') of
                    (Some request_id, Some tool) \<Rightarrow>
                      Some \<lparr>ak_call_id = call_id, ak_request_id = request_id, ak_tool = tool\<rparr>
                  | _ \<Rightarrow> None)))"

definition tool_key :: "OperatorEvent \<Rightarrow> ToolKey option" where
  "tool_key event =
     (case (ev_call_id event, payload_str event ''name'') of
        (Some call_id, Some name) \<Rightarrow> Some \<lparr>tk_call_id = call_id, tk_name = name\<rparr>
      | _ \<Rightarrow> None)"

definition is_cancellation_approval_audit :: "FoldedTurn \<Rightarrow> OperatorEvent \<Rightarrow> bool" where
  "is_cancellation_approval_audit turn event \<longleftrightarrow>
     ev_event_type event = ApprovalDecided \<and> payload_str event ''outcome'' = Some ''cancelled'' \<and>
     payload_str event ''reason'' = Some ''OPERATOR_CANCELLED'' \<and>
     (case approval_key event of
        Some key \<Rightarrow> ak_request_id key \<noteq> [] \<and> ak_tool key \<noteq> [] \<and>
          payload_str event ''call_id'' = Some (ak_call_id key) \<and> key \<in> ft_pending_approvals turn
      | None \<Rightarrow> False)"

definition is_cancellation_tool_audit :: "FoldedTurn \<Rightarrow> OperatorEvent \<Rightarrow> bool" where
  "is_cancellation_tool_audit turn event \<longleftrightarrow>
     ev_event_type event = ToolCallCompleted \<and> payload_str event ''status'' = Some ''uncertain'' \<and>
     payload_str event ''reason'' = Some ''OPERATOR_CANCELLED'' \<and>
     (case tool_key event of Some key \<Rightarrow> key \<in> ft_pending_tools turn | None \<Rightarrow> False)"

section \<open>Checks before a write\<close>

datatype event_error =
    UnsupportedSchemaVersion
  | RequiresTurnId
  | RequiresCallId
  | RequiresWorkId
  | WorkScopeUnlinked
  | TurnAlreadyExists
  | ClientRequestTaken
  | NoSuchTurn
  | WorkScopeMismatch
  | TurnAlreadyTerminal
  | NoPendingApproval
  | NoPendingTool
  | CancellationPending
  | NoCancellationRequested
  | CancellationAlreadyPending

definition find_turn :: "string \<Rightarrow> FoldedThread \<Rightarrow> FoldedTurn option" where
  "find_turn turn_id th = find (\<lambda>turn. ft_turn_id turn = turn_id) (fth_turns th)"

definition work_linked :: "(string, string set) btree \<Rightarrow> string \<Rightarrow> string \<Rightarrow> bool" where
  "work_linked work_threads work_id thread_id =
     (case bt_get work_threads work_id of Some linked \<Rightarrow> thread_id \<in> linked | None \<Rightarrow> False)"

text \<open>The turn id is present: \<open>requires_turn_id\<close> was checked before the call.\<close>

definition validate_turn_started :: "(string, FoldedThread) btree \<Rightarrow> OperatorEvent \<Rightarrow> event_error + unit" where
  "validate_turn_started threads event =
     (case bt_get threads (ev_thread_id event) of
        None \<Rightarrow> Inr ()
      | Some th \<Rightarrow>
          if list_ex (\<lambda>turn. Some (ft_turn_id turn) = ev_turn_id event) (fth_turns th) then Inl TurnAlreadyExists
          else
            (case payload_str event ''client_request_id'' of
               Some client_request_id \<Rightarrow>
                 if list_ex (\<lambda>turn. ft_client_request_id turn = Some client_request_id) (fth_turns th)
                 then Inl ClientRequestTaken else Inr ()
             | None \<Rightarrow> Inr ()))"

definition validate_cancellation :: "FoldedTurn \<Rightarrow> OperatorEvent \<Rightarrow> event_error + unit" where
  "validate_cancellation turn event =
     (if ft_cancel_requested turn then
        (if \<not> is_cancellation_approval_audit turn event \<and> \<not> is_cancellation_tool_audit turn event \<and>
            (ev_event_type event \<noteq> TurnInterrupted \<or> interruption_reason event \<noteq> Some ''OPERATOR_CANCELLED'')
         then Inl CancellationPending else Inr ())
      else if ev_event_type event = TurnInterrupted \<and> interruption_reason event = Some ''OPERATOR_CANCELLED''
      then Inl NoCancellationRequested
      else if ev_event_type event = TurnCancelRequested \<and> ft_cancel_requested turn
      then Inl CancellationAlreadyPending
      else Inr ())"

definition validate_turn_event :: "FoldedTurn \<Rightarrow> OperatorEvent \<Rightarrow> event_error + unit" where
  "validate_turn_event turn event =
     (if ev_work_id event \<noteq> ft_work_id turn then Inl WorkScopeMismatch
      else if is_turn_terminal (ft_status turn) then Inl TurnAlreadyTerminal
      else if ev_event_type event = ApprovalDecided \<and>
        (case approval_key event of
           Some key \<Rightarrow> key \<notin> ft_pending_approvals turn
         | None \<Rightarrow> payload_str event ''outcome'' \<noteq> Some ''auto_approved'')
      then Inl NoPendingApproval
      else if ev_event_type event = ToolCallCompleted \<and>
        \<not> (case tool_key event of Some key \<Rightarrow> key \<in> ft_pending_tools turn | None \<Rightarrow> False)
      then Inl NoPendingTool
      else validate_cancellation turn event)"

definition validate_event ::
    "(string, FoldedThread) btree \<Rightarrow> (string, string set) btree \<Rightarrow> OperatorEvent \<Rightarrow> event_error + unit" where
  "validate_event threads work_threads event =
     (if ev_schema_version event \<noteq> OPERATOR_EVENT_SCHEMA_VERSION then Inl UnsupportedSchemaVersion
      else if requires_turn_id (ev_event_type event) \<and> ev_turn_id event = None then Inl RequiresTurnId
      else if requires_call_id (ev_event_type event) \<and> ev_call_id event = None then Inl RequiresCallId
      else if requires_work_id (ev_event_type event) \<and> ev_work_id event = None then Inl RequiresWorkId
      else if ev_event_type event = TurnStarted then
        (case ev_work_id event of
           Some work_id \<Rightarrow>
             if \<not> work_linked work_threads work_id (ev_thread_id event) then Inl WorkScopeUnlinked
             else validate_turn_started threads event
         | None \<Rightarrow> validate_turn_started threads event)
      else
        (case ev_turn_id event of
           None \<Rightarrow> Inr ()
         | Some turn_id \<Rightarrow>
             (case Option.bind (bt_get threads (ev_thread_id event)) (find_turn turn_id) of
                None \<Rightarrow> Inl NoSuchTurn
              | Some turn \<Rightarrow> validate_turn_event turn event)))"

section \<open>Applying an event\<close>

fun update_first :: "('a \<Rightarrow> bool) \<Rightarrow> 'a \<Rightarrow> 'a list \<Rightarrow> 'a list" where
  "update_first P y [] = []"
| "update_first P y (x # xs) = (if P x then y # xs else x # update_first P y xs)"

text \<open>
  The shape of every handler of an event on a turn: find the turn the event names and change it, or
  say that the event does not apply.
\<close>

definition on_turn :: "(FoldedTurn \<Rightarrow> FoldedTurn option) \<Rightarrow> FoldedThread \<Rightarrow> OperatorEvent \<Rightarrow> FoldedThread option" where
  "on_turn change entry event =
     (case ev_turn_id event of
        None \<Rightarrow> None
      | Some turn_id \<Rightarrow>
          (case find_turn turn_id entry of
             None \<Rightarrow> None
           | Some turn \<Rightarrow>
               map_option (\<lambda>turn'. entry\<lparr>fth_turns :=
                   update_first (\<lambda>t. ft_turn_id t = turn_id) turn' (fth_turns entry)\<rparr>) (change turn)))"

definition opened_turn :: "session_lib \<Rightarrow> string \<Rightarrow> OperatorEvent \<Rightarrow> FoldedTurn" where
  "opened_turn S turn_id event =
     \<lparr>ft_turn_id = turn_id, ft_client_request_id = payload_str event ''client_request_id'',
      ft_work_id = ev_work_id event, ft_prompt_fingerprint = payload_str event ''prompt_fingerprint'',
      ft_status = ''open'', ft_cancel_requested = False, ft_prompt = None, ft_user_message_cursor = None,
      ft_started_at = ev_occurred_at event,
      ft_route_policy = Option.bind (json_get (ev_payload event) ''route_policy'') (sl_policy_of_value S),
      ft_pending_approvals = {}, ft_pending_tools = {}\<rparr>"

definition apply_turn_started :: "session_lib \<Rightarrow> FoldedThread \<Rightarrow> OperatorEvent \<Rightarrow> FoldedThread option" where
  "apply_turn_started S entry event =
     (case ev_turn_id event of
        None \<Rightarrow> None
      | Some turn_id \<Rightarrow>
          if list_ex (\<lambda>turn. ft_turn_id turn = turn_id) (fth_turns entry) \<or>
             (case payload_str event ''client_request_id'' of
                Some c \<Rightarrow> list_ex (\<lambda>turn. ft_client_request_id turn = Some c) (fth_turns entry)
              | None \<Rightarrow> False)
          then None
          else Some (entry\<lparr>fth_turns := fth_turns entry @ [opened_turn S turn_id event]\<rparr>))"

definition apply_user_message :: "FoldedThread \<Rightarrow> OperatorEvent \<Rightarrow> string \<Rightarrow> FoldedThread option" where
  "apply_user_message entry event cursor = on_turn (\<lambda>turn.
     if is_turn_terminal (ft_status turn) \<or> ft_cancel_requested turn then None
     else Some (turn\<lparr>ft_prompt := payload_str event ''text'', ft_user_message_cursor := Some cursor\<rparr>)) entry event"

definition close_turn :: "OperatorEvent \<Rightarrow> string \<Rightarrow> FoldedTurn \<Rightarrow> FoldedTurn option" where
  "close_turn event status turn =
     (if is_turn_terminal (ft_status turn) then None
      else if ft_cancel_requested turn \<and>
        (status \<noteq> ''interrupted'' \<or> interruption_reason event \<noteq> Some ''OPERATOR_CANCELLED'') then None
      else if \<not> ft_cancel_requested turn \<and> ev_event_type event = TurnInterrupted \<and>
        interruption_reason event = Some ''OPERATOR_CANCELLED'' then None
      else Some (turn\<lparr>ft_status := status\<rparr>))"

definition apply_terminal :: "FoldedThread \<Rightarrow> OperatorEvent \<Rightarrow> string \<Rightarrow> FoldedThread option" where
  "apply_terminal entry event status =
     (if ev_turn_id event = None then (if ev_event_type event = Blocker then Some entry else None)
      else on_turn (close_turn event status) entry event)"

definition apply_turn_cancel_requested :: "FoldedThread \<Rightarrow> OperatorEvent \<Rightarrow> FoldedThread option" where
  "apply_turn_cancel_requested entry event = on_turn (\<lambda>turn.
     if is_turn_terminal (ft_status turn) \<or> ft_cancel_requested turn then None
     else Some (turn\<lparr>ft_cancel_requested := True\<rparr>)) entry event"

definition apply_tool_started :: "FoldedThread \<Rightarrow> OperatorEvent \<Rightarrow> FoldedThread option" where
  "apply_tool_started entry event = on_turn (\<lambda>turn.
     if is_turn_terminal (ft_status turn) \<or> ft_cancel_requested turn then None
     else (case tool_key event of
             Some key \<Rightarrow> if key \<in> ft_pending_tools turn then None
                         else Some (turn\<lparr>ft_pending_tools := insert key (ft_pending_tools turn)\<rparr>)
           | None \<Rightarrow> None)) entry event"

definition apply_tool_completed :: "FoldedThread \<Rightarrow> OperatorEvent \<Rightarrow> FoldedThread option" where
  "apply_tool_completed entry event = on_turn (\<lambda>turn.
     if is_turn_terminal (ft_status turn) \<or> (ft_cancel_requested turn \<and> \<not> is_cancellation_tool_audit turn event) then None
     else (case tool_key event of
             Some key \<Rightarrow> if key \<in> ft_pending_tools turn
                         then Some (turn\<lparr>ft_pending_tools := ft_pending_tools turn - {key}\<rparr>) else None
           | None \<Rightarrow> None)) entry event"

definition apply_approval_requested :: "FoldedThread \<Rightarrow> OperatorEvent \<Rightarrow> FoldedThread option" where
  "apply_approval_requested entry event = on_turn (\<lambda>turn.
     if is_turn_terminal (ft_status turn) \<or> ft_cancel_requested turn then None
     else (case approval_key event of
             Some key \<Rightarrow> if key \<in> ft_pending_approvals turn then None
                         else Some (turn\<lparr>ft_pending_approvals := insert key (ft_pending_approvals turn)\<rparr>)
           | None \<Rightarrow> Some turn)) entry event"

definition apply_approval_decided :: "FoldedThread \<Rightarrow> OperatorEvent \<Rightarrow> FoldedThread option" where
  "apply_approval_decided entry event = on_turn (\<lambda>turn.
     if is_turn_terminal (ft_status turn) then None
     else if ft_cancel_requested turn \<and> \<not> is_cancellation_approval_audit turn event then None
     else (case approval_key event of
             Some key \<Rightarrow> if key \<in> ft_pending_approvals turn
                         then Some (turn\<lparr>ft_pending_approvals := ft_pending_approvals turn - {key}\<rparr>) else None
           | None \<Rightarrow> if payload_str event ''outcome'' = Some ''auto_approved'' then Some turn else None)) entry event"

definition apply_nonterminal_touch :: "FoldedThread \<Rightarrow> OperatorEvent \<Rightarrow> FoldedThread option" where
  "apply_nonterminal_touch entry event =
     (if ev_turn_id event = None then Some entry
      else on_turn (\<lambda>turn.
        if is_turn_terminal (ft_status turn) \<or>
           (ft_cancel_requested turn \<and> \<not> is_cancellation_approval_audit turn event)
        then None else Some turn) entry event)"

definition apply_thread_metadata :: "FoldedThread \<Rightarrow> OperatorEvent \<Rightarrow> FoldedThread" where
  "apply_thread_metadata entry event =
     entry\<lparr>fth_title := (case payload_str event ''title'' of Some t \<Rightarrow> Some t | None \<Rightarrow> fth_title entry),
           fth_project_id := (case json_get (ev_payload event) ''project_id'' of
              Some v \<Rightarrow> as_str v | None \<Rightarrow> fth_project_id entry),
           fth_archived := unwrap_or (payload_bool event ''archived'') (fth_archived entry)\<rparr>"

definition apply_to_existing_thread ::
    "session_lib \<Rightarrow> FoldedThread \<Rightarrow> OperatorEvent \<Rightarrow> string \<Rightarrow> FoldedThread option" where
  "apply_to_existing_thread S entry event cursor =
     (case ev_event_type event of
        ThreadCreated \<Rightarrow> None
      | ThreadMetadataUpdated \<Rightarrow> Some (apply_thread_metadata entry event)
      | TurnStarted \<Rightarrow> apply_turn_started S entry event
      | UserMessage \<Rightarrow> apply_user_message entry event cursor
      | TurnCompleted \<Rightarrow> apply_terminal entry event ''completed''
      | TurnInterrupted \<Rightarrow> apply_terminal entry event ''interrupted''
      | Blocker \<Rightarrow> apply_terminal entry event ''blocked''
      | TurnCancelRequested \<Rightarrow> apply_turn_cancel_requested entry event
      | ToolCallStarted \<Rightarrow> apply_tool_started entry event
      | ToolCallCompleted \<Rightarrow> apply_tool_completed entry event
      | ApprovalRequested \<Rightarrow> apply_approval_requested entry event
      | ApprovalDecided \<Rightarrow> apply_approval_decided entry event
      | ProjectCreated \<Rightarrow> None
      | ProjectMetadataUpdated \<Rightarrow> None
      | _ \<Rightarrow> apply_nonterminal_touch entry event)"

definition apply_work_membership :: "(string, string set) btree \<Rightarrow> OperatorEvent \<Rightarrow> (string, string set) btree" where
  "apply_work_membership work_threads event =
     (case ev_work_id event of
        None \<Rightarrow> work_threads
      | Some work_id \<Rightarrow>
          (case (ev_event_type event, bt_get work_threads work_id) of
             (WorkCreated, None) \<Rightarrow>
               if payload_str event ''primary_thread_id'' = Some (ev_thread_id event)
               then bt_insert work_id {ev_thread_id event} work_threads else work_threads
           | (WorkLinked, Some linked) \<Rightarrow>
               if payload_str event ''thread_id'' = Some (ev_thread_id event)
               then bt_insert work_id (insert (ev_thread_id event) linked) work_threads else work_threads
           | _ \<Rightarrow> work_threads))"

definition bump :: "string \<Rightarrow> (string, nat) btree \<Rightarrow> (string, nat) btree" where
  "bump k counts = bt_insert k (unwrap_or (bt_get counts k) 0 + 1) counts"

definition apply_project_created ::
    "MaterializedJournal \<Rightarrow> OperatorEvent \<Rightarrow> nat \<Rightarrow> MaterializedJournal \<times> EventAdmission" where
  "apply_project_created m event order =
     (case (payload_str event ''project_id'', payload_str event ''title'') of
        (Some project_id, Some title) \<Rightarrow>
          if ev_thread_id event \<noteq> project_subject project_id \<or> bt_get (mj_projects m) project_id \<noteq> None
          then (m, Rejected)
          else (m\<lparr>mj_projects := bt_insert project_id
                  \<lparr>fp_project_id = project_id, fp_title = title, fp_archived = False, fp_last_order = order\<rparr>
                  (mj_projects m)\<rparr>, Admitted)
      | _ \<Rightarrow> (m, Rejected))"

definition apply_project_updated ::
    "MaterializedJournal \<Rightarrow> OperatorEvent \<Rightarrow> nat \<Rightarrow> MaterializedJournal \<times> EventAdmission" where
  "apply_project_updated m event order =
     (case payload_str event ''project_id'' of
        None \<Rightarrow> (m, Rejected)
      | Some project_id \<Rightarrow>
          (case bt_get (mj_projects m) project_id of
             None \<Rightarrow> (m, Rejected)
           | Some project \<Rightarrow>
               if ev_thread_id event \<noteq> project_subject project_id then (m, Rejected)
               else (m\<lparr>mj_projects := bt_insert project_id
                       (project\<lparr>fp_title := unwrap_or (payload_str event ''title'') (fp_title project),
                                fp_archived := unwrap_or (payload_bool event ''archived'') (fp_archived project),
                                fp_last_order := order\<rparr>) (mj_projects m)\<rparr>, Admitted)))"

text \<open>Only the creation of a thread and the start of a turn establish a thread.\<close>

definition new_thread :: "session_lib \<Rightarrow> OperatorEvent \<Rightarrow> FoldedThread option" where
  "new_thread S event =
     (let candidate = FoldedThread_new (ev_thread_id event) in
      case ev_event_type event of
        ThreadCreated \<Rightarrow>
          Some (candidate\<lparr>fth_title := payload_str event ''title'', fth_project_id := payload_str event ''project_id'',
                          fth_archived := unwrap_or (payload_bool event ''archived'') False\<rparr>)
      | TurnStarted \<Rightarrow> apply_turn_started S candidate event
      | _ \<Rightarrow> None)"

definition apply_thread_event ::
    "session_lib \<Rightarrow> MaterializedJournal \<Rightarrow> CursorEvent \<Rightarrow> nat \<Rightarrow> MaterializedJournal \<times> EventAdmission" where
  "apply_thread_event S m row order =
     (let event = ce_event row; thread_id = ev_thread_id event in
      case bt_get (mj_threads m) thread_id of
        Some entry \<Rightarrow>
          (case apply_to_existing_thread S entry event (ce_cursor row) of
             Some entry' \<Rightarrow>
               (m\<lparr>mj_threads := bt_insert thread_id (entry'\<lparr>fth_last_order := order\<rparr>) (mj_threads m),
                  mj_work_threads := apply_work_membership (mj_work_threads m) event\<rparr>, Admitted)
           | None \<Rightarrow>
               (m\<lparr>mj_threads := bt_insert thread_id
                    (entry\<lparr>fth_skipped_events := fth_skipped_events entry + 1\<rparr>) (mj_threads m)\<rparr>, Rejected))
      | None \<Rightarrow>
          (case new_thread S event of
             Some candidate \<Rightarrow>
               (m\<lparr>mj_threads := bt_insert thread_id (candidate\<lparr>fth_last_order := order\<rparr>) (mj_threads m),
                  mj_work_threads := apply_work_membership (mj_work_threads m) event\<rparr>, Admitted)
           | None \<Rightarrow>
               (m\<lparr>mj_rejected_current_schema_events := bump thread_id (mj_rejected_current_schema_events m)\<rparr>,
                Rejected)))"

definition apply_event ::
    "session_lib \<Rightarrow> MaterializedJournal \<Rightarrow> CursorEvent \<Rightarrow> nat \<Rightarrow> MaterializedJournal \<times> EventAdmission" where
  "apply_event S m0 row order =
     (let event = ce_event row in
      if ev_event_id event \<in> mj_seen_event_ids m0 then (m0, Duplicate)
      else
        let m = m0\<lparr>mj_seen_event_ids := insert (ev_event_id event) (mj_seen_event_ids m0)\<rparr> in
        if ev_schema_version event \<noteq> OPERATOR_EVENT_SCHEMA_VERSION
        then (m\<lparr>mj_unsupported_schema_events := bump (ev_thread_id event) (mj_unsupported_schema_events m)\<rparr>,
              UnsupportedSchema)
        else
          (case ev_event_type event of
             ProjectCreated \<Rightarrow> apply_project_created m event order
           | ProjectMetadataUpdated \<Rightarrow> apply_project_updated m event order
           | _ \<Rightarrow> apply_thread_event S m row order))"

text \<open>The body of the page loop of \<open>sync_materialized_observing\<close>, for one row.\<close>

definition sync_row ::
    "session_lib \<Rightarrow> MaterializedJournal \<Rightarrow> CursorEvent \<Rightarrow> MaterializedJournal \<times> EventAdmission" where
  "sync_row S m0 row =
     (let order = mj_order m0 + 1;
          m1 = m0\<lparr>mj_order := order, mj_applied_event_rows := mj_applied_event_rows m0 + 1\<rparr>;
          (m, admission) = apply_event S m1 row order
      in ((case admission of
             Admitted \<Rightarrow> m\<lparr>mj_provider_executions := observe (sl_rfc3339 S) (mj_provider_executions m) (ce_event row)\<rparr>
           | Rejected \<Rightarrow> m\<lparr>mj_provider_executions := observe (sl_rfc3339 S) (mj_provider_executions m) (ce_event row)\<rparr>
           | UnsupportedSchema \<Rightarrow> m\<lparr>mj_provider_executions := note_unsupported_schema (mj_provider_executions m)\<rparr>
           | Duplicate \<Rightarrow> m), admission))"

end
