(* ===== verification/Session_Life.thy ===== *)
theory Session_Life
  imports Session_Fold
begin

text \<open>
  What the fold of \<open>Session_Fold\<close> promises: the contract of a turn as a step relation on phases, the
  well-formedness of threads, and how far the checks before a write agree with replay.
\<close>

section \<open>The life of a turn\<close>

text \<open>
  The contract of a turn: it is open until it completes, is interrupted or is blocked; a turn whose
  cancellation was requested can only end interrupted; an ended turn never changes.
\<close>

datatype turn_phase = PhaseOpen | PhaseCancelling | PhaseCompleted | PhaseInterrupted | PhaseBlocked

definition phase_of :: "FoldedTurn \<Rightarrow> turn_phase" where
  "phase_of t = (if ft_status t = ''completed'' then PhaseCompleted
     else if ft_status t = ''interrupted'' then PhaseInterrupted
     else if ft_status t = ''blocked'' then PhaseBlocked
     else if ft_cancel_requested t then PhaseCancelling else PhaseOpen)"

inductive phase_step :: "turn_phase \<Rightarrow> turn_phase \<Rightarrow> bool" where
  cancel: "phase_step PhaseOpen PhaseCancelling"
| complete: "phase_step PhaseOpen PhaseCompleted"
| interrupt: "phase_step PhaseOpen PhaseInterrupted"
| block: "phase_step PhaseOpen PhaseBlocked"
| cancelled: "phase_step PhaseCancelling PhaseInterrupted"

inductive_cases phase_step_openE: "phase_step PhaseOpen p"
inductive_simps phase_step_ended:
  "phase_step PhaseCancelling p" "phase_step PhaseCompleted p" "phase_step PhaseInterrupted p" "phase_step PhaseBlocked p"

code_pred phase_step .

definition same_turn :: "FoldedTurn \<Rightarrow> FoldedTurn \<Rightarrow> bool" where
  "same_turn t t' \<longleftrightarrow> ft_turn_id t' = ft_turn_id t \<and> ft_client_request_id t' = ft_client_request_id t \<and>
     ft_work_id t' = ft_work_id t \<and> ft_prompt_fingerprint t' = ft_prompt_fingerprint t \<and>
     ft_started_at t' = ft_started_at t \<and> ft_route_policy t' = ft_route_policy t"

definition turn_evolves :: "FoldedTurn \<Rightarrow> FoldedTurn \<Rightarrow> bool" where
  "turn_evolves t t' \<longleftrightarrow> same_turn t t' \<and> phase_step\<^sup>*\<^sup>* (phase_of t) (phase_of t') \<and>
     (is_turn_terminal (ft_status t) \<longrightarrow> t' = t) \<and>
     (ft_status t' = ft_status t \<or> is_turn_terminal (ft_status t'))"

lemma turn_evolves_refl [simp]: "turn_evolves t t"
  by (simp add: turn_evolves_def same_turn_def)

lemma turn_evolves_trans: "turn_evolves t u \<Longrightarrow> turn_evolves u v \<Longrightarrow> turn_evolves t v"
  by (auto simp: turn_evolves_def same_turn_def)

text \<open>The same turns, each further on; and the same turns with new ones behind them.\<close>

definition thread_keeps :: "FoldedThread \<Rightarrow> FoldedThread \<Rightarrow> bool" where
  "thread_keeps th th' \<longleftrightarrow> list_all2 turn_evolves (fth_turns th) (fth_turns th') \<and> fth_thread_id th' = fth_thread_id th"

definition thread_evolves :: "FoldedThread \<Rightarrow> FoldedThread \<Rightarrow> bool" where
  "thread_evolves th th' \<longleftrightarrow>
     (\<exists>ts new. fth_turns th' = ts @ new \<and> list_all2 turn_evolves (fth_turns th) ts) \<and>
     fth_thread_id th' = fth_thread_id th"

lemma keeps_refl: "fth_turns th' = fth_turns th \<Longrightarrow> fth_thread_id th' = fth_thread_id th \<Longrightarrow> thread_keeps th th'"
  by (simp add: thread_keeps_def list_all2_same)

lemma keeps_evolves: "thread_keeps th th' \<Longrightarrow> thread_evolves th th'"
  unfolding thread_keeps_def thread_evolves_def by (metis append_Nil2)

lemma extends_evolves:
  "fth_turns th' = fth_turns th @ new \<Longrightarrow> fth_thread_id th' = fth_thread_id th \<Longrightarrow> thread_evolves th th'"
  unfolding thread_evolves_def by (metis list_all2_same turn_evolves_refl)

lemma thread_evolves_trans:
  assumes "thread_evolves a b" and "thread_evolves b c"
  shows "thread_evolves a c"
proof -
  obtain ts new us more where b: "fth_turns b = ts @ new" "list_all2 turn_evolves (fth_turns a) ts"
    and c: "fth_turns c = us @ more" "list_all2 turn_evolves (ts @ new) us"
    using assms by (auto simp: thread_evolves_def)
  from c(2) obtain us1 us2 where u: "us = us1 @ us2" "list_all2 turn_evolves ts us1"
    by (auto simp: list_all2_append1)
  have "list_all2 turn_evolves (fth_turns a) us1"
    by (rule list_all2_trans [OF _ b(2) u(2)]) (rule turn_evolves_trans)
  with c(1) u(1) assms show ?thesis by (auto simp: thread_evolves_def)
qed

lemma update_first_evolves:
  "find P ts = Some t \<Longrightarrow> turn_evolves t t' \<Longrightarrow> list_all2 turn_evolves ts (update_first P t' ts)"
  by (induction ts) (auto simp: list_all2_same split: if_splits)

lemma on_turn_keeps:
  assumes "on_turn change entry event = Some entry'"
    and "\<And>t t'. change t = Some t' \<Longrightarrow> turn_evolves t t'"
  shows "thread_keeps entry entry'"
proof -
  obtain turn_id t t' where "find_turn turn_id entry = Some t" "change t = Some t'"
    and e: "entry' = entry\<lparr>fth_turns := update_first (\<lambda>t. ft_turn_id t = turn_id) t' (fth_turns entry)\<rparr>"
    using assms(1) by (auto simp: on_turn_def split: option.splits)
  with assms(2) show ?thesis
    by (auto simp: thread_keeps_def find_turn_def intro: update_first_evolves)
qed

lemma phase_of_open: "\<not> is_turn_terminal (ft_status t) \<Longrightarrow>
    phase_of t = (if ft_cancel_requested t then PhaseCancelling else PhaseOpen)"
  by (auto simp: phase_of_def is_turn_terminal_def)

text \<open>A change that leaves the identity and the phase of a live turn alone.\<close>

lemma keeps_phase_evolves:
  assumes "\<not> is_turn_terminal (ft_status t)" and "same_turn t t'" and "ft_status t' = ft_status t"
    and "ft_cancel_requested t' = ft_cancel_requested t"
  shows "turn_evolves t t'"
  using assms by (simp add: turn_evolves_def phase_of_def)

lemma close_turn_evolves:
  assumes "close_turn event status t = Some t'" and "is_turn_terminal status"
  shows "turn_evolves t t'"
proof -
  from assms(1) have live: "\<not> is_turn_terminal (ft_status t)" and t': "t' = t\<lparr>ft_status := status\<rparr>"
    and cancel: "ft_cancel_requested t \<Longrightarrow> status = ''interrupted''"
    by (auto simp: close_turn_def split: if_splits)
  have "phase_step (phase_of t) (phase_of t')"
    using assms(2) cancel unfolding phase_of_open [OF live]
    by (auto simp: t' phase_of_def is_turn_terminal_def intro: phase_step.intros)
  with live assms(2) show ?thesis by (auto simp: turn_evolves_def same_turn_def t')
qed

lemma cancel_evolves:
  assumes "\<not> is_turn_terminal (ft_status t)" and "\<not> ft_cancel_requested t"
  shows "turn_evolves t (t\<lparr>ft_cancel_requested := True\<rparr>)"
proof -
  have "phase_step (phase_of t) (phase_of (t\<lparr>ft_cancel_requested := True\<rparr>))"
    using assms by (simp add: phase_of_open phase_step.cancel)
  with assms show ?thesis by (auto simp: turn_evolves_def same_turn_def)
qed

lemma apply_terminal_keeps:
  assumes "apply_terminal entry event status = Some entry'" and "is_turn_terminal status"
  shows "thread_keeps entry entry'"
proof (cases "ev_turn_id event")
  case None
  with assms show ?thesis by (auto simp: apply_terminal_def keeps_refl split: if_splits)
next
  case (Some turn_id)
  with assms(1) have "on_turn (close_turn event status) entry event = Some entry'" by (simp add: apply_terminal_def)
  then show ?thesis by (rule on_turn_keeps) (rule close_turn_evolves [OF _ assms(2)])
qed

lemma apply_nonterminal_touch_keeps:
  assumes "apply_nonterminal_touch entry event = Some entry'"
  shows "thread_keeps entry entry'"
proof (cases "ev_turn_id event")
  case None
  with assms show ?thesis by (simp add: apply_nonterminal_touch_def keeps_refl)
next
  case (Some turn_id)
  with assms show ?thesis by (auto simp: apply_nonterminal_touch_def split: if_splits elim!: on_turn_keeps)
qed

lemma apply_on_turn_keeps:
  "apply_user_message entry event cursor = Some entry' \<Longrightarrow> thread_keeps entry entry'"
  "apply_turn_cancel_requested entry event = Some entry' \<Longrightarrow> thread_keeps entry entry'"
  "apply_tool_started entry event = Some entry' \<Longrightarrow> thread_keeps entry entry'"
  "apply_tool_completed entry event = Some entry' \<Longrightarrow> thread_keeps entry entry'"
  "apply_approval_requested entry event = Some entry' \<Longrightarrow> thread_keeps entry entry'"
  "apply_approval_decided entry event = Some entry' \<Longrightarrow> thread_keeps entry entry'"
  unfolding apply_user_message_def apply_turn_cancel_requested_def apply_tool_started_def
    apply_tool_completed_def apply_approval_requested_def apply_approval_decided_def
  by (erule on_turn_keeps;
      auto intro: keeps_phase_evolves cancel_evolves simp: same_turn_def split: if_splits option.splits)+

lemma terminal_statuses: "is_turn_terminal ''completed''" "is_turn_terminal ''interrupted''" "is_turn_terminal ''blocked''"
  by (simp_all add: is_turn_terminal_def)

lemma apply_existing_keeps:
  assumes "apply_to_existing_thread S entry event cursor = Some entry'" and "ev_event_type event \<noteq> TurnStarted"
  shows "thread_keeps entry entry'"
proof -
  have meta: "thread_keeps entry (apply_thread_metadata entry event)"
    by (simp add: apply_thread_metadata_def keeps_refl)
  show ?thesis
    using assms unfolding apply_to_existing_thread_def
    by (cases "ev_event_type event")
      (simp_all, auto simp: meta terminal_statuses
        dest: apply_on_turn_keeps apply_nonterminal_touch_keeps apply_terminal_keeps)
qed

section \<open>Well-formed threads\<close>

definition thread_wf :: "FoldedThread \<Rightarrow> bool" where
  "thread_wf th \<longleftrightarrow> distinct (map ft_turn_id (fth_turns th)) \<and>
     distinct (List.map_filter ft_client_request_id (fth_turns th)) \<and>
     list_all (\<lambda>t. ft_status t = ''open'' \<or> is_turn_terminal (ft_status t)) (fth_turns th)"

lemma keeps_fields:
  assumes "list_all2 turn_evolves ts us"
  shows "map ft_turn_id us = map ft_turn_id ts" "map ft_client_request_id us = map ft_client_request_id ts"
    "List.map_filter ft_client_request_id us = List.map_filter ft_client_request_id ts"
  using assms
  by (induction rule: list_all2_induct) (auto simp: turn_evolves_def same_turn_def List.map_filter_def)

lemma keeps_status:
  assumes "list_all2 turn_evolves ts us" and "list_all (\<lambda>t. ft_status t = ''open'' \<or> is_turn_terminal (ft_status t)) ts"
  shows "list_all (\<lambda>t. ft_status t = ''open'' \<or> is_turn_terminal (ft_status t)) us"
  using assms by (induction rule: list_all2_induct) (auto simp: turn_evolves_def)

lemma keeps_wf: "thread_keeps th th' \<Longrightarrow> thread_wf th \<Longrightarrow> thread_wf th'"
  unfolding thread_keeps_def thread_wf_def
  using keeps_fields [of "fth_turns th" "fth_turns th'"] keeps_status [of "fth_turns th" "fth_turns th'"] by simp

lemma map_filter_members: "c \<in> set (List.map_filter f xs) \<longleftrightarrow> (\<exists>x \<in> set xs. f x = Some c)"
  by (induction xs) (auto simp: map_filter_simps split: option.split)

lemma apply_turn_started_wf:
  assumes "apply_turn_started S entry event = Some entry'"
  shows "thread_evolves entry entry'" and "thread_wf entry \<Longrightarrow> thread_wf entry'"
proof -
  obtain turn_id where id: "ev_turn_id event = Some turn_id"
    and new: "entry' = entry\<lparr>fth_turns := fth_turns entry @ [opened_turn S turn_id event]\<rparr>"
    and fresh: "\<not> list_ex (\<lambda>turn. ft_turn_id turn = turn_id) (fth_turns entry)"
      "\<And>c. payload_str event ''client_request_id'' = Some c \<Longrightarrow>
        \<not> list_ex (\<lambda>turn. ft_client_request_id turn = Some c) (fth_turns entry)"
    using assms unfolding apply_turn_started_def by (auto split: option.splits if_splits)
  define t where "t = opened_turn S turn_id event"
  have t: "entry' = entry\<lparr>fth_turns := fth_turns entry @ [t]\<rparr>" "ft_status t = ''open''"
    "\<forall>u \<in> set (fth_turns entry). ft_turn_id u \<noteq> ft_turn_id t"
    "\<forall>c. ft_client_request_id t = Some c \<longrightarrow> (\<forall>u \<in> set (fth_turns entry). ft_client_request_id u \<noteq> Some c)"
    using new fresh by (simp_all add: t_def opened_turn_def list_ex_iff)
  then show "thread_evolves entry entry'" by (intro extends_evolves) auto
  have ids: "distinct (map ft_turn_id (fth_turns entry @ [t])) = distinct (map ft_turn_id (fth_turns entry))"
    using t(3) by auto
  have "distinct (List.map_filter ft_client_request_id (fth_turns entry @ [t])) =
      distinct (List.map_filter ft_client_request_id (fth_turns entry))"
  proof (cases "ft_client_request_id t")
    case None
    then show ?thesis by (simp add: map_filter_append map_filter_simps)
  next
    case (Some c)
    then have "c \<notin> set (List.map_filter ft_client_request_id (fth_turns entry))"
      using t(4) by (simp add: map_filter_members)
    with Some show ?thesis by (simp add: map_filter_append map_filter_simps)
  qed
  with ids t(1,2) show "thread_wf entry \<Longrightarrow> thread_wf entry'" by (simp add: thread_wf_def)
qed

lemma apply_existing_wf:
  assumes "apply_to_existing_thread S entry event cursor = Some entry'"
  shows "thread_evolves entry entry'" and "thread_wf entry \<Longrightarrow> thread_wf entry'"
proof -
  consider "ev_event_type event = TurnStarted" "apply_turn_started S entry event = Some entry'"
    | "thread_keeps entry entry'"
    using assms apply_existing_keeps by (cases "ev_event_type event = TurnStarted") (auto simp: apply_to_existing_thread_def)
  then show "thread_evolves entry entry'" "thread_wf entry \<Longrightarrow> thread_wf entry'"
    by (cases; auto dest: apply_turn_started_wf keeps_evolves keeps_wf)+
qed

lemma new_thread_wf:
  assumes "new_thread S event = Some th"
  shows "thread_wf th" and "fth_thread_id th = ev_thread_id event"
proof -
  let ?c = "FoldedThread_new (ev_thread_id event)"
  have "thread_wf ?c" "fth_thread_id ?c = ev_thread_id event"
    by (simp_all add: thread_wf_def FoldedThread_new_def map_filter_simps)
  moreover have "thread_keeps ?c th \<or> apply_turn_started S ?c event = Some th"
  proof (cases "ev_event_type event = ThreadCreated")
    case True
    then have "fth_turns th = fth_turns ?c" "fth_thread_id th = fth_thread_id ?c"
      using assms by (auto simp: new_thread_def)
    then show ?thesis by (simp add: keeps_refl)
  next
    case False
    then show ?thesis using assms by (auto simp: new_thread_def Let_def split: OperatorEventType.splits)
  qed
  ultimately show "thread_wf th" "fth_thread_id th = ev_thread_id event"
    using keeps_wf [of ?c th] apply_turn_started_wf [of S ?c event th]
    unfolding thread_keeps_def thread_evolves_def by metis+
qed


section \<open>The state of a session\<close>

text \<open>
  Every row leaves the threads it does not name alone, and a thread it names either further on or with
  one more skipped event. \<open>thread_after\<close> is what becomes of the entry of one thread.
\<close>

definition session_ok :: "MaterializedJournal \<Rightarrow> bool" where
  "session_ok m \<longleftrightarrow> bt_inv (mj_threads m) \<and>
     (\<forall>k th. bt_get (mj_threads m) k = Some th \<longrightarrow>
        fth_thread_id th = k \<and> thread_wf th \<and> fth_last_order th \<le> mj_order m) \<and>
     (\<forall>k th k' th'. bt_get (mj_threads m) k = Some th \<longrightarrow> bt_get (mj_threads m) k' = Some th' \<longrightarrow>
        fth_last_order th = fth_last_order th' \<longrightarrow> k = k')"

definition threads_evolve :: "MaterializedJournal \<Rightarrow> MaterializedJournal \<Rightarrow> bool" where
  "threads_evolve m m' \<longleftrightarrow>
     (\<forall>k th. bt_get (mj_threads m) k = Some th \<longrightarrow> (\<exists>th'. bt_get (mj_threads m') k = Some th' \<and> thread_evolves th th'))"

lemma threads_evolve_refl: "mj_threads m' = mj_threads m \<Longrightarrow> threads_evolve m m'"
  by (auto simp: threads_evolve_def intro: keeps_evolves keeps_refl)

lemma threads_evolve_trans: "threads_evolve a b \<Longrightarrow> threads_evolve b c \<Longrightarrow> threads_evolve a c"
  unfolding threads_evolve_def by (meson thread_evolves_trans)

text \<open>What one row does to the threads.\<close>

inductive threads_step :: "(string, FoldedThread) btree \<Rightarrow> nat \<Rightarrow> (string, FoldedThread) btree \<Rightarrow> bool" where
  unchanged: "threads_step ths n ths"
| established: "bt_get ths k = None \<Longrightarrow> thread_wf th \<Longrightarrow> fth_thread_id th = k \<Longrightarrow> fth_last_order th = n \<Longrightarrow>
    threads_step ths n (bt_insert k th ths)"
| touched: "bt_get ths k = Some th \<Longrightarrow> thread_evolves th th' \<Longrightarrow> (thread_wf th \<Longrightarrow> thread_wf th') \<Longrightarrow>
    fth_last_order th' = n \<or> fth_last_order th' = fth_last_order th \<Longrightarrow> threads_step ths n (bt_insert k th' ths)"

lemma thread_evolves_fields:
  "thread_evolves th (th'\<lparr>fth_last_order := n\<rparr>) = thread_evolves th th'"
  "thread_wf (th'\<lparr>fth_last_order := n\<rparr>) = thread_wf th'"
  "thread_wf (th'\<lparr>fth_skipped_events := n\<rparr>) = thread_wf th'"
  by (simp_all add: thread_evolves_def thread_wf_def)

lemma apply_thread_event_step:
  "threads_step (mj_threads m) n (mj_threads (fst (apply_thread_event S m row n)))"
proof (cases "bt_get (mj_threads m) (ev_thread_id (ce_event row))")
  case None
  show ?thesis
  proof (cases "new_thread S (ce_event row)")
    case (Some th)
    have "threads_step (mj_threads m) n (bt_insert (ev_thread_id (ce_event row)) (th\<lparr>fth_last_order := n\<rparr>) (mj_threads m))"
      using None new_thread_wf [OF Some] by (intro established) (simp_all add: thread_evolves_fields)
    with None Some show ?thesis by (simp add: apply_thread_event_def Let_def)
  qed (simp add: None apply_thread_event_def Let_def unchanged)
next
  case entry: (Some entry)
  show ?thesis
  proof (cases "apply_to_existing_thread S entry (ce_event row) (ce_cursor row)")
    case None
    have "threads_step (mj_threads m) n (bt_insert (ev_thread_id (ce_event row))
        (entry\<lparr>fth_skipped_events := fth_skipped_events entry + 1\<rparr>) (mj_threads m))"
    proof (rule touched [OF entry])
      show "thread_evolves entry (entry\<lparr>fth_skipped_events := fth_skipped_events entry + 1\<rparr>)"
        by (rule keeps_evolves, rule keeps_refl) simp_all
    qed (simp_all add: thread_evolves_fields)
    with entry None show ?thesis by (simp add: apply_thread_event_def Let_def)
  next
    case (Some entry')
    have "threads_step (mj_threads m) n (bt_insert (ev_thread_id (ce_event row)) (entry'\<lparr>fth_last_order := n\<rparr>) (mj_threads m))"
      by (rule touched [OF entry]) (use apply_existing_wf [OF Some] in \<open>simp_all add: thread_evolves_fields\<close>)
    with entry Some show ?thesis by (simp add: apply_thread_event_def Let_def)
  qed
qed

lemma apply_project_threads:
  "mj_threads (fst (apply_project_created m event n)) = mj_threads m"
  "mj_threads (fst (apply_project_updated m event n)) = mj_threads m"
  by (simp_all add: apply_project_created_def apply_project_updated_def split: option.split)

lemma apply_event_step: "threads_step (mj_threads m) n (mj_threads (fst (apply_event S m row n)))"
proof -
  let ?m = "m\<lparr>mj_seen_event_ids := insert (ev_event_id (ce_event row)) (mj_seen_event_ids m)\<rparr>"
  show ?thesis using apply_thread_event_step [of ?m n S row] apply_project_threads [of ?m "ce_event row" n] unchanged [of "mj_threads m" n]
    unfolding apply_event_def Let_def by (simp split: OperatorEventType.split)
qed

lemma sync_row_threads: "mj_threads (fst (sync_row S m row)) =
    mj_threads (fst (apply_event S (m\<lparr>mj_order := mj_order m + 1, mj_applied_event_rows := mj_applied_event_rows m + 1\<rparr>)
      row (mj_order m + 1)))"
  by (simp add: sync_row_def Let_def split_beta split: EventAdmission.split)

lemma mj_order_keeps: "mj_order (fst (apply_event S m row n)) = mj_order m"
  by (simp add: apply_event_def apply_thread_event_def apply_project_created_def apply_project_updated_def Let_def
      split: option.split OperatorEventType.split)

lemma sync_row_order: "mj_order (fst (sync_row S m row)) = mj_order m + 1"
  by (simp add: sync_row_def Let_def split_beta mj_order_keeps split: EventAdmission.split)

lemma sync_row_step: "threads_step (mj_threads m) (mj_order m + 1) (mj_threads (fst (sync_row S m row)))"
  unfolding sync_row_threads
  using apply_event_step [of "m\<lparr>mj_order := mj_order m + 1, mj_applied_event_rows := mj_applied_event_rows m + 1\<rparr>"] by simp

lemma step_evolves: "threads_step ths n ths' \<Longrightarrow> bt_get ths k = Some th \<Longrightarrow> \<exists>th'. bt_get ths' k = Some th' \<and> thread_evolves th th'"
  by (induction rule: threads_step.induct) (auto intro: keeps_evolves keeps_refl)

lemma sync_row_evolves: "threads_evolve m (fst (sync_row S m row))"
  using step_evolves [OF sync_row_step] by (simp add: threads_evolve_def)

lemma session_ok_insert:
  assumes "session_ok m" and "mj_threads m' = bt_insert k th (mj_threads m)" and "mj_order m' = mj_order m + 1"
    and "fth_thread_id th = k" and "thread_wf th" and "fth_last_order th \<le> mj_order m + 1"
    and recent: "\<And>k' u. k' \<noteq> k \<Longrightarrow> bt_get (mj_threads m) k' = Some u \<Longrightarrow> fth_last_order u \<noteq> fth_last_order th"
  shows "session_ok m'"
  unfolding session_ok_def assms(2,3)
proof (intro conjI allI impI)
  show "bt_inv (bt_insert k th (mj_threads m))" using assms(1) by (auto simp: session_ok_def)
  fix k' u assume "bt_get (bt_insert k th (mj_threads m)) k' = Some u"
  then show "fth_thread_id u = k'" "thread_wf u" "fth_last_order u \<le> mj_order m + 1"
    using assms(1,4-6) by (auto simp: session_ok_def le_SucI split: if_splits)
next
  fix a u b v
  assume "bt_get (bt_insert k th (mj_threads m)) a = Some u" "bt_get (bt_insert k th (mj_threads m)) b = Some v"
    "fth_last_order u = fth_last_order v"
  then show "a = b" using assms(1) recent [of a u] recent [of b v]
    by (cases "a = k"; cases "b = k") (auto simp: session_ok_def)
qed

lemma sync_row_ok:
  assumes "session_ok m"
  shows "session_ok (fst (sync_row S m row))"
proof -
  have old: "\<And>k th. bt_get (mj_threads m) k = Some th \<Longrightarrow> fth_thread_id th = k \<and> thread_wf th \<and> fth_last_order th \<le> mj_order m"
    "\<And>k th k' th'. bt_get (mj_threads m) k = Some th \<Longrightarrow> bt_get (mj_threads m) k' = Some th' \<Longrightarrow>
      fth_last_order th = fth_last_order th' \<Longrightarrow> k = k'"
    using assms by (auto simp: session_ok_def)
  from sync_row_step [of m S row] show ?thesis
  proof (cases rule: threads_step.cases)
    case unchanged
    then show ?thesis using assms by (auto simp: session_ok_def sync_row_order intro: le_SucI)
  next
    case (established k th)
    show ?thesis
      by (rule session_ok_insert [OF assms established(1) sync_row_order]) (use established old(1) in \<open>fastforce+\<close>)
  next
    case (touched k th th')
    show ?thesis
    proof (rule session_ok_insert [OF assms touched(1) sync_row_order])
      show "fth_thread_id th' = k" "thread_wf th'" "fth_last_order th' \<le> mj_order m + 1"
        using old(1) [OF touched(2)] touched by (auto simp: thread_evolves_def)
      fix k' u assume "k' \<noteq> k" "bt_get (mj_threads m) k' = Some u"
      then show "fth_last_order u \<noteq> fth_last_order th'"
        using old(1) [of k' u] old(2) [OF touched(2), of k' u] touched(5) by auto
    qed
  qed
qed

interpretation session_state: event_fold "\<lambda>m row. fst (sync_row S m row)" session_ok for S
  by unfold_locales (rule sync_row_ok)

lemma session_ok_default: "session_ok MaterializedJournal_default"
  by (simp add: session_ok_def MaterializedJournal_default_def)

definition replay :: "session_lib \<Rightarrow> MaterializedJournal \<Rightarrow> CursorEvent list \<Rightarrow> MaterializedJournal" where
  "replay S m rows = foldl (\<lambda>m row. fst (sync_row S m row)) m rows"

lemma replay_ok: "session_ok m \<Longrightarrow> session_ok (replay S m rows)"
  unfolding replay_def by (rule session_state.fold_inv)

lemma replay_evolves: "threads_evolve m (replay S m rows)"
  unfolding replay_def
  by (induction rows rule: rev_induct) (auto intro: threads_evolve_refl threads_evolve_trans sync_row_evolves)


section \<open>What is written and what is replayed\<close>

text \<open>
  What replay asks of an event beyond what is checked before it is written: its thread exists (or the
  event establishes it), a tool call has a name and is not pending, an approval names its turn and is
  not requested twice, and the events of a project carry the project's subject.
\<close>

definition on_pending :: "MaterializedJournal \<Rightarrow> OperatorEvent \<Rightarrow> (FoldedTurn \<Rightarrow> bool) \<Rightarrow> bool" where
  "on_pending m event ok =
     (case Option.bind (ev_turn_id event)
        (\<lambda>turn_id. Option.bind (bt_get (mj_threads m) (ev_thread_id event)) (find_turn turn_id)) of
        Some turn \<Rightarrow> ok turn
      | None \<Rightarrow> False)"

definition replayable :: "MaterializedJournal \<Rightarrow> OperatorEvent \<Rightarrow> bool" where
  "replayable m event =
     (case ev_event_type event of
        ProjectCreated \<Rightarrow>
          (case (payload_str event ''project_id'', payload_str event ''title'') of
             (Some p, Some t) \<Rightarrow> ev_thread_id event = project_subject p \<and> bt_get (mj_projects m) p = None
           | _ \<Rightarrow> False)
      | ProjectMetadataUpdated \<Rightarrow>
          (case payload_str event ''project_id'' of
             Some p \<Rightarrow> ev_thread_id event = project_subject p \<and> bt_get (mj_projects m) p \<noteq> None
           | None \<Rightarrow> False)
      | ThreadCreated \<Rightarrow> bt_get (mj_threads m) (ev_thread_id event) = None
      | TurnStarted \<Rightarrow> True
      | ToolCallStarted \<Rightarrow>
          (case tool_key event of
             Some key \<Rightarrow> on_pending m event (\<lambda>turn. key \<notin> ft_pending_tools turn)
           | None \<Rightarrow> False)
      | ApprovalRequested \<Rightarrow>
          on_pending m event (\<lambda>turn. case approval_key event of
             Some key \<Rightarrow> key \<notin> ft_pending_approvals turn | None \<Rightarrow> True)
      | ApprovalDecided \<Rightarrow> ev_turn_id event \<noteq> None
      | _ \<Rightarrow> bt_get (mj_threads m) (ev_thread_id event) \<noteq> None)"

text \<open>Whether replay admits an event depends on the entry of its thread alone.\<close>

lemma apply_thread_event_admits:
  "snd (apply_thread_event S m row n) = Admitted \<longleftrightarrow>
     (case bt_get (mj_threads m) (ev_thread_id (ce_event row)) of
        Some entry \<Rightarrow> apply_to_existing_thread S entry (ce_event row) (ce_cursor row) \<noteq> None
      | None \<Rightarrow> new_thread S (ce_event row) \<noteq> None)"
  by (simp add: apply_thread_event_def Let_def split: option.split)

lemma validate_turn_startedD:
  assumes "validate_turn_started threads event = Inr ()" and "ev_turn_id event = Some turn_id"
    and "entry = unwrap_or (bt_get threads (ev_thread_id event)) (FoldedThread_new (ev_thread_id event))"
  shows "apply_turn_started S entry event \<noteq> None"
  using assms
  by (auto simp: validate_turn_started_def apply_turn_started_def FoldedThread_new_def list_ex_iff
      split: option.splits if_splits)

lemma on_turn_admits:
  assumes "ev_turn_id event = Some turn_id" and "find_turn turn_id entry = Some turn"
  shows "on_turn change entry event \<noteq> None \<longleftrightarrow> change turn \<noteq> None"
  using assms by (simp add: on_turn_def)

lemma on_turn_None: "ev_turn_id event = None \<Longrightarrow> on_turn change entry event = None"
  by (simp add: on_turn_def)

lemmas validate_turn_defs = validate_turn_event_def validate_cancellation_def is_cancellation_approval_audit_def
  is_cancellation_tool_audit_def

lemma existing_turn_admits:
  assumes turn: "ev_turn_id event = Some turn_id" "find_turn turn_id entry = Some turn"
    and valid: "validate_turn_event turn event = Inr ()"
    and kind: "ev_event_type event \<notin> {ProjectCreated, ProjectMetadataUpdated, ThreadCreated, TurnStarted}"
  shows "apply_to_existing_thread S entry event cursor \<noteq> None \<longleftrightarrow>
    (ev_event_type event = ToolCallStarted \<longrightarrow> (\<exists>key. tool_key event = Some key \<and> key \<notin> ft_pending_tools turn)) \<and>
    (ev_event_type event = ApprovalRequested \<longrightarrow> (\<forall>key. approval_key event = Some key \<longrightarrow> key \<notin> ft_pending_approvals turn))"
  using valid kind
  by (cases "ev_event_type event")
    (simp_all add: apply_to_existing_thread_def apply_user_message_def apply_terminal_def
      apply_turn_cancel_requested_def apply_tool_started_def apply_tool_completed_def apply_approval_requested_def
      apply_approval_decided_def apply_nonterminal_touch_def turn(1) on_turn_admits [OF turn, simplified] close_turn_def,
     auto simp: validate_turn_defs split: if_splits option.splits)


lemma no_turn_admits:
  assumes "ev_turn_id event = None" and "\<not> requires_turn_id (ev_event_type event)"
    and "ev_event_type event \<notin> {ProjectCreated, ProjectMetadataUpdated, ThreadCreated}"
  shows "apply_to_existing_thread S entry event cursor \<noteq> None \<longleftrightarrow>
    ev_event_type event \<noteq> ApprovalRequested \<and> ev_event_type event \<noteq> ApprovalDecided"
  using assms
  by (cases "ev_event_type event")
    (simp_all add: apply_to_existing_thread_def apply_terminal_def apply_approval_requested_def
      apply_approval_decided_def apply_nonterminal_touch_def on_turn_None requires_turn_id_def)

lemma validate_eventD:
  assumes "validate_event threads work_threads event = Inr ()"
  shows "ev_schema_version event = OPERATOR_EVENT_SCHEMA_VERSION"
    and "requires_turn_id (ev_event_type event) \<Longrightarrow> ev_turn_id event \<noteq> None"
    and "ev_event_type event = TurnStarted \<Longrightarrow> validate_turn_started threads event = Inr ()"
    and "ev_event_type event \<noteq> TurnStarted \<Longrightarrow> ev_turn_id event = Some turn_id \<Longrightarrow>
      \<exists>entry turn. bt_get threads (ev_thread_id event) = Some entry \<and> find_turn turn_id entry = Some turn \<and>
        validate_turn_event turn event = Inr ()"
  using assms by (auto simp: validate_event_def bind_eq_Some_conv split: if_splits option.splits)

lemma thread_event_replays:
  assumes valid: "validate_event (mj_threads m) work_threads (ce_event row) = Inr ()"
    and kind: "ev_event_type (ce_event row) \<notin> {ProjectCreated, ProjectMetadataUpdated}"
  shows "snd (apply_thread_event S m row n) = Admitted \<longleftrightarrow> replayable m (ce_event row)"
proof -
  let ?e = "ce_event row" and ?t = "bt_get (mj_threads m) (ev_thread_id (ce_event row))"
  note D = validate_eventD [OF valid]
  consider (created) "ev_event_type ?e = ThreadCreated" | (started) "ev_event_type ?e = TurnStarted"
    | (absent) "ev_event_type ?e \<notin> {ThreadCreated, TurnStarted}" "?t = None"
    | (noturn) entry where "ev_event_type ?e \<notin> {ThreadCreated, TurnStarted}" "?t = Some entry" "ev_turn_id ?e = None"
    | (turn) entry turn_id turn where "ev_event_type ?e \<notin> {ThreadCreated, TurnStarted}" "?t = Some entry"
        "ev_turn_id ?e = Some turn_id" "find_turn turn_id entry = Some turn" "validate_turn_event turn ?e = Inr ()"
    using D(4) by fastforce
  then show ?thesis
  proof cases
    case created
    then show ?thesis
      by (simp add: apply_thread_event_admits replayable_def apply_to_existing_thread_def new_thread_def Let_def split: option.split)
  next
    case started
    then obtain turn_id where "ev_turn_id ?e = Some turn_id" using D(2) by (auto simp: requires_turn_id_def)
    with D(3) started have "apply_turn_started S (unwrap_or ?t (FoldedThread_new (ev_thread_id ?e))) ?e \<noteq> None"
      by (intro validate_turn_startedD) simp_all
    with started show ?thesis
      by (cases ?t) (simp_all add: apply_thread_event_admits replayable_def apply_to_existing_thread_def new_thread_def Let_def)
  next
    case absent
    then have "ev_turn_id ?e = None" using D(4) by fastforce
    with absent kind show ?thesis
      by (cases "ev_event_type ?e") (simp_all add: apply_thread_event_admits replayable_def new_thread_def on_pending_def split: option.split)
  next
    case noturn
    then have "\<not> requires_turn_id (ev_event_type ?e)" using D(2) by blast
    with noturn kind show ?thesis
      using no_turn_admits [OF noturn(3), of S entry "ce_cursor row"]
      by (cases "ev_event_type ?e") (simp_all add: apply_thread_event_admits replayable_def on_pending_def requires_turn_id_def)
  next
    case turn
    then show ?thesis using kind existing_turn_admits [OF turn(3-5), of S "ce_cursor row"]
      by (cases "ev_event_type ?e") (simp_all add: apply_thread_event_admits replayable_def on_pending_def split: option.split)
  qed
qed

lemma project_event_replays:
  assumes "ev_event_type event \<in> {ProjectCreated, ProjectMetadataUpdated}"
  shows "snd (if ev_event_type event = ProjectCreated then apply_project_created m event n
    else apply_project_updated m event n) = Admitted \<longleftrightarrow> replayable m event"
  using assms by (auto simp: apply_project_created_def apply_project_updated_def replayable_def split: option.splits)

text \<open>C29. What the write side accepts and replay keeps. An event that passes \<open>validate_event\<close> under a
  new id is admitted by replay exactly if it is \<open>replayable\<close>: for every other event type, and for
  turns in particular, the strict check before a write implies that replay keeps what was written. The
  exceptions are the ones \<open>replayable\<close> lists, which the write side does not check.\<close>

theorem validated_events_replay:
  assumes "validate_event (mj_threads m) (mj_work_threads m) (ce_event row) = Inr ()"
    and "ev_event_id (ce_event row) \<notin> mj_seen_event_ids m"
  shows "snd (apply_event S m row order) = Admitted \<longleftrightarrow> replayable m (ce_event row)"
proof -
  let ?m = "m\<lparr>mj_seen_event_ids := insert (ev_event_id (ce_event row)) (mj_seen_event_ids m)\<rparr>"
  have "validate_event (mj_threads ?m) (mj_work_threads m) (ce_event row) = Inr ()" using assms(1) by simp
  note replays = thread_event_replays [OF this, of S order] project_event_replays [of "ce_event row" ?m order]
  have "on_pending ?m = on_pending m" by (intro ext) (simp add: on_pending_def)
  then have "replayable ?m (ce_event row) = replayable m (ce_event row)"
    by (cases "ev_event_type (ce_event row)") (simp_all add: replayable_def split: option.split)
  moreover have "ev_schema_version (ce_event row) = OPERATOR_EVENT_SCHEMA_VERSION"
    by (rule validate_eventD(1) [OF assms(1)])
  ultimately show ?thesis using replays assms(2)
    unfolding apply_event_def Let_def by (cases "ev_event_type (ce_event row)") simp_all
qed


text \<open>C16. A turn keeps its contract, whatever rows follow. Every turn of a thread stays in its place
  with its id, its request id, its Work, its prompt fingerprint and its policy; it moves only along
  the phases open, cancelling and ended, where a cancelled turn can only end interrupted; and once
  ended it never changes again.\<close>

theorem turns_keep_their_contract:
  assumes "bt_get (mj_threads m) thread_id = Some th"
  shows "\<exists>th' ts new. bt_get (mj_threads (replay S m rows)) thread_id = Some th' \<and> fth_turns th' = ts @ new \<and>
    list_all2 (\<lambda>t t'. same_turn t t' \<and> phase_step\<^sup>*\<^sup>* (phase_of t) (phase_of t') \<and>
      (is_turn_terminal (ft_status t) \<longrightarrow> t' = t)) (fth_turns th) ts"
proof -
  obtain th' where "bt_get (mj_threads (replay S m rows)) thread_id = Some th'" "thread_evolves th th'"
    using replay_evolves [of m S rows] assms unfolding threads_evolve_def by blast
  moreover from this(2) obtain ts new where "fth_turns th' = ts @ new"
    and evolve: "list_all2 turn_evolves (fth_turns th) ts" by (auto simp: thread_evolves_def)
  moreover have "list_all2 (\<lambda>t t'. same_turn t t' \<and> phase_step\<^sup>*\<^sup>* (phase_of t) (phase_of t') \<and>
      (is_turn_terminal (ft_status t) \<longrightarrow> t' = t)) (fth_turns th) ts"
    using evolve by (rule list_all2_mono) (simp add: turn_evolves_def)
  ultimately show ?thesis by blast
qed

text \<open>C30. The state folded from a journal is well formed, whatever the journal holds: a thread is
  filed under its own id, its turns have distinct ids and distinct request ids, every status is one of
  the four, and no two threads were last touched by the same row, so that the order by recency is
  unique.\<close>

theorem replayed_sessions_are_well_formed:
  assumes "m = replay S MaterializedJournal_default rows"
  shows "bt_inv (mj_threads m) \<and>
    (\<forall>k th. bt_get (mj_threads m) k = Some th \<longrightarrow>
       fth_thread_id th = k \<and> distinct (map ft_turn_id (fth_turns th)) \<and>
       distinct (List.map_filter ft_client_request_id (fth_turns th)) \<and>
       (\<forall>t \<in> set (fth_turns th). ft_status t \<in> {''open'', ''completed'', ''interrupted'', ''blocked''})) \<and>
    (\<forall>k th k' th'. bt_get (mj_threads m) k = Some th \<longrightarrow> bt_get (mj_threads m) k' = Some th' \<longrightarrow>
       fth_last_order th = fth_last_order th' \<longrightarrow> k = k')"
proof -
  have "session_ok m" unfolding assms by (rule replay_ok [OF session_ok_default])
  then show ?thesis by (auto simp: session_ok_def thread_wf_def list_all_iff is_turn_terminal_def)
qed

section \<open>Concrete sessions\<close>

definition plain_lib :: session_lib where
  "plain_lib = \<lparr>sl_sha256 = (\<lambda>s. s), sl_uuid_v5 = (\<lambda>_ name. name), sl_policy_to_value = (\<lambda>_. JNull),
     sl_policy_of_value = (\<lambda>_. None), sl_rfc3339 = (\<lambda>_. True)\<rparr>"

definition sample_event :: "string \<Rightarrow> OperatorEventType \<Rightarrow> string option \<Rightarrow> (string \<times> json) list \<Rightarrow> OperatorEvent" where
  "sample_event event_id event_type turn_id payload =
     demo_event\<lparr>ev_event_id := event_id, ev_thread_id := ''t'', ev_event_type := event_type, ev_turn_id := turn_id,
       ev_call_id := Some ''c1'', ev_payload := JObject payload\<rparr>"

definition sample_row :: "OperatorEvent \<Rightarrow> CursorEvent" where
  "sample_row event = \<lparr>ce_cursor = ev_event_id event, ce_event = event\<rparr>"

definition sample_session :: MaterializedJournal where
  "sample_session = replay plain_lib MaterializedJournal_default
     [sample_row (sample_event ''e1'' TurnStarted (Some ''turn-1'') [(''client_request_id'', JString ''r1'')])]"

definition later_rows :: "CursorEvent list" where
  "later_rows = map sample_row
     [sample_event ''e2'' UserMessage (Some ''turn-1'') [(''text'', JString ''hi'')],
      sample_event ''e3'' TurnCancelRequested (Some ''turn-1'') [],
      sample_event ''e4'' TurnCompleted (Some ''turn-1'') [],
      sample_event ''e5'' TurnInterrupted (Some ''turn-1'') [(''reason'', JString ''OPERATOR_CANCELLED'')],
      sample_event ''e6'' TurnStarted (Some ''turn-2'') []]"

lemma sample_open:
  obtains th where "bt_get (mj_threads sample_session) ''t'' = Some th" "map phase_of (fth_turns th) = [PhaseOpen]"
proof -
  have "map_option (\<lambda>th. map phase_of (fth_turns th)) (bt_get (mj_threads sample_session) ''t'') = Some [PhaseOpen]"
    by code_simp
  then show thesis unfolding map_option_eq_Some using that by (elim exE conjE) iprover
qed

theorem turns_keep_their_contract_witness:
  "\<exists>th' ts new. bt_get (mj_threads (replay plain_lib sample_session later_rows)) ''t'' = Some th' \<and>
     fth_turns th' = ts @ new \<and> length ts = 1"
proof -
  obtain th where th: "bt_get (mj_threads sample_session) ''t'' = Some th" "map phase_of (fth_turns th) = [PhaseOpen]"
    by (rule sample_open)
  from turns_keep_their_contract [OF th(1), of plain_lib later_rows]
  obtain th' ts new where "bt_get (mj_threads (replay plain_lib sample_session later_rows)) ''t'' = Some th'"
    "fth_turns th' = ts @ new" and "length (fth_turns th) = length ts" by (blast dest: list_all2_lengthD)
  moreover have "length (fth_turns th) = 1" using th(2) length_map [of phase_of "fth_turns th"] by simp
  ultimately show ?thesis by auto
qed

theorem replayed_sessions_are_well_formed_witness:
  "bt_inv (mj_threads sample_session)"
  using replayed_sessions_are_well_formed [OF sample_session_def] by blast

theorem validated_events_replay_witness:
  "snd (apply_event plain_lib sample_session (hd later_rows) 2) = Admitted"
proof -
  have "validate_event (mj_threads sample_session) (mj_work_threads sample_session) (ce_event (hd later_rows)) = Inr ()"
    "ev_event_id (ce_event (hd later_rows)) \<notin> mj_seen_event_ids sample_session"
    "replayable sample_session (ce_event (hd later_rows))" by code_simp+
  with validated_events_replay show ?thesis by blast
qed

text \<open>A started tool call whose payload has no name passes the strict check, is written, and is not
  replayed; its completion is then refused for want of a pending call.\<close>

lemma accepted_but_not_replayed:
  "let e = sample_event ''e7'' ToolCallStarted (Some ''turn-1'') [];
       m = fst (sync_row plain_lib sample_session (sample_row e));
       finish = sample_event ''e8'' ToolCallCompleted (Some ''turn-1'') [(''name'', JString ''grep'')]
   in validate_event (mj_threads sample_session) (mj_work_threads sample_session) e = Inr () \<and>
      snd (sync_row plain_lib sample_session (sample_row e)) = Rejected \<and>
      validate_event (mj_threads m) (mj_work_threads m) finish = Inl NoPendingTool"
  by code_simp

end
