(* ===== verification/Session_Service.thy ===== *)
theory Session_Service
  imports Session_Life
begin

text \<open>
  The operations of \<open>OperatorSessionService\<close> (\<open>crates/heiwa_session/src/operator.rs\<close>) over a journal and a
  projection that is caught up before every operation. The journal is a record of its two operations;
  \<open>Session_Journal\<close> puts the operator journal of \<open>Operator_Journal\<close> there. An operation runs under the
  locks the source takes and is one step; whether the file lock it asks for is granted, the UUIDs and
  the clock readings it draws are its environment. The loops that read pages have no bound of their
  own: they are partial functions, \<open>None\<close> where they would not end.
\<close>

section \<open>Journal, environment and state\<close>

record 'j journal_ops =
  jo_append :: "u64 \<Rightarrow> OperatorEvent \<Rightarrow> 'j \<Rightarrow> (journal_error + CursorEvent) \<times> 'j"
  jo_read_after :: "'j \<Rightarrow> string option \<Rightarrow> nat \<Rightarrow> CursorError + OperatorPage"

record session_env =
  se_uuid :: "nat \<Rightarrow> string"
  se_now :: "nat \<Rightarrow> string"
  se_ms :: "nat \<Rightarrow> u64"
  se_lock_granted :: bool

record 'j service =
  sv_journal :: 'j
  sv_projection :: MaterializedJournal

datatype session_error =
    ActivityAlreadyHeld
  | MetadataRefused metadata_error
  | EmptyMetadataUpdate
  | UnknownProjectId
  | UnknownThreadId
  | UnknownTurnId
  | EventRefused event_error
  | AppendFailed journal_error
  | ReadFailed CursorError
  | ReplayLineageChanged

definition OperatorSessionService_new :: "'j \<Rightarrow> 'j service" where
  "OperatorSessionService_new j = \<lparr>sv_journal = j, sv_projection = MaterializedJournal_default\<rparr>"

section \<open>Catching the projection up\<close>

definition PAGE_SIZE :: nat where "PAGE_SIZE = 256"

fun is_invalid_cursor :: "CursorError \<Rightarrow> bool" where
  "is_invalid_cursor (InvalidCursor _) = True"
| "is_invalid_cursor _ = False"

text \<open>The rows of a page, in append order, each shown to the observer with its admission.\<close>

fun sync_rows ::
    "session_lib \<Rightarrow> ('s \<Rightarrow> CursorEvent \<Rightarrow> EventAdmission \<Rightarrow> 's) \<Rightarrow> MaterializedJournal \<Rightarrow> 's \<Rightarrow> CursorEvent list \<Rightarrow>
      MaterializedJournal \<times> 's" where
  "sync_rows S obs m s [] = (m, s)"
| "sync_rows S obs m s (row # rows) =
     (let (m', admission) = sync_row S m row in sync_rows S obs m' (obs s row admission) rows)"

definition sync_page ::
    "session_lib \<Rightarrow> ('s \<Rightarrow> CursorEvent \<Rightarrow> EventAdmission \<Rightarrow> 's) \<Rightarrow> MaterializedJournal \<Rightarrow> 's \<Rightarrow> OperatorPage \<Rightarrow>
      nat option \<Rightarrow> MaterializedJournal \<times> 's" where
  "sync_page S obs m s page stable_tail =
     (let trailing = unwrap_or stable_tail 0;
          m1 = m\<lparr>mj_committed_skipped_lines := mj_committed_skipped_lines m + (pg_skipped_lines page - trailing),
                 mj_tail_skipped_lines := trailing\<rparr>;
          (m2, s') = sync_rows S obs m1 s (pg_events page)
      in (m2\<lparr>mj_cursor := pg_next_cursor page\<rparr>, s'))"

definition probe_tail :: "'j journal_ops \<Rightarrow> 'j \<Rightarrow> OperatorPage \<Rightarrow> CursorError + nat option" where
  "probe_tail J j page =
     (if length (pg_events page) < PAGE_SIZE then
        (case jo_read_after J j (pg_next_cursor page) 1 of
           Inl err \<Rightarrow> Inl err
         | Inr probe \<Rightarrow> Inr (if pg_events probe = [] then Some (pg_skipped_lines probe) else None))
      else Inr None)"

partial_function (option) sync_materialized_observing ::
    "session_lib \<Rightarrow> 'j journal_ops \<Rightarrow> 'j \<Rightarrow> bool \<Rightarrow> ('s \<Rightarrow> CursorEvent \<Rightarrow> EventAdmission \<Rightarrow> 's) \<Rightarrow>
      MaterializedJournal \<Rightarrow> 's \<Rightarrow> ((session_error + unit) \<times> MaterializedJournal \<times> 's) option" where
  "sync_materialized_observing S J j rebuild_on_reset obs m s =
     (case jo_read_after J j (mj_cursor m) PAGE_SIZE of
        Inl err \<Rightarrow>
          if is_invalid_cursor err \<and> mj_cursor m \<noteq> None then
            if \<not> rebuild_on_reset then Some (Inl ReplayLineageChanged, m, s)
            else sync_materialized_observing S J j rebuild_on_reset obs MaterializedJournal_default s
          else Some (Inl (ReadFailed err), m, s)
      | Inr page \<Rightarrow>
          if pg_events page = [] then Some (Inr (), m\<lparr>mj_tail_skipped_lines := pg_skipped_lines page\<rparr>, s)
          else
            (case probe_tail J j page of
               Inl err \<Rightarrow> Some (Inl (ReadFailed err), m, s)
             | Inr stable_tail \<Rightarrow>
                 if stable_tail \<noteq> None
                 then Some (Inr (), fst (sync_page S obs m s page stable_tail), snd (sync_page S obs m s page stable_tail))
                 else sync_materialized_observing S J j rebuild_on_reset obs
                        (fst (sync_page S obs m s page stable_tail)) (snd (sync_page S obs m s page stable_tail))))"

declare sync_materialized_observing.simps [code]

definition sync_materialized ::
    "session_lib \<Rightarrow> 'j journal_ops \<Rightarrow> 'j \<Rightarrow> MaterializedJournal \<Rightarrow> ((session_error + unit) \<times> MaterializedJournal) option" where
  "sync_materialized S J j m =
     map_option (\<lambda>(res, m', _). (res, m')) (sync_materialized_observing S J j True (\<lambda>_ _ _. ()) m ())"

text \<open>An operation on the caught-up projection; a read that fails ends it.\<close>

definition materialized ::
    "session_lib \<Rightarrow> 'j journal_ops \<Rightarrow> (session_error \<Rightarrow> 'e) \<Rightarrow>
      (MaterializedJournal \<Rightarrow> 'j service \<Rightarrow> ('e + 'a) \<times> 'j service) \<Rightarrow> 'j service \<Rightarrow> (('e + 'a) \<times> 'j service) option" where
  "materialized S J wrap operation sv =
     (case sync_materialized S J (sv_journal sv) (sv_projection sv) of
        None \<Rightarrow> None
      | Some (res, m) \<Rightarrow>
          Some (case res of
                  Inl err \<Rightarrow> (Inl (wrap err), sv\<lparr>sv_projection := m\<rparr>)
                | Inr _ \<Rightarrow> operation m (sv\<lparr>sv_projection := m\<rparr>)))"

text \<open>\<open>lock_writer_transaction\<close>: the shared activity lease, then the transaction lock.\<close>

definition lock_writer_transaction ::
    "session_env \<Rightarrow> (session_error \<Rightarrow> 'e) \<Rightarrow> ('j service \<Rightarrow> (('e + 'a) \<times> 'j service) option) \<Rightarrow> 'j service \<Rightarrow>
      (('e + 'a) \<times> 'j service) option" where
  "lock_writer_transaction E wrap transaction sv =
     (if \<not> se_lock_granted E then Some (Inl (wrap ActivityAlreadyHeld), sv) else transaction sv)"

section \<open>Making events\<close>

definition operator_actor :: OperatorActor where
  "operator_actor = \<lparr>actor_kind = ''operator'', actor_id = ''local-operator''\<rparr>"

definition new_event ::
    "string \<Rightarrow> string \<Rightarrow> string option \<Rightarrow> string option \<Rightarrow> OperatorEventType \<Rightarrow> string \<Rightarrow> OperatorActor \<Rightarrow> json \<Rightarrow>
      OperatorEvent" where
  "new_event uuid thread_id turn_id call_id event_type occurred_at actor payload =
     \<lparr>ev_schema_version = OPERATOR_EVENT_SCHEMA_VERSION, ev_event_id = uuid, ev_thread_id = thread_id,
      ev_turn_id = turn_id, ev_run_id = None, ev_call_id = call_id, ev_work_id = None,
      ev_event_type = event_type, ev_occurred_at = occurred_at, ev_actor = actor, ev_risk_class = RiskLow,
      ev_sensitivity = LocalPrivate, ev_parent_event_id = None, ev_correlation_id = None,
      ev_source_refs = [], ev_evidence_refs = [], ev_payload = payload\<rparr>"

text \<open>The \<open>i\<close>-th append of an operation.\<close>

definition journal_append ::
    "'j journal_ops \<Rightarrow> session_env \<Rightarrow> nat \<Rightarrow> OperatorEvent \<Rightarrow> 'j service \<Rightarrow> (session_error + CursorEvent) \<times> 'j service" where
  "journal_append J E i event sv =
     (case jo_append J (se_ms E i) event (sv_journal sv) of
        (Inl err, j) \<Rightarrow> (Inl (AppendFailed err), sv\<lparr>sv_journal := j\<rparr>)
      | (Inr row, j) \<Rightarrow> (Inr row, sv\<lparr>sv_journal := j\<rparr>))"

section \<open>Threads and projects\<close>

definition create_thread ::
    "session_lib \<Rightarrow> 'j journal_ops \<Rightarrow> session_env \<Rightarrow> string \<Rightarrow> string option \<Rightarrow> string option \<Rightarrow> 'j service \<Rightarrow>
      ((session_error + bool) \<times> 'j service) option" where
  "create_thread S J E thread_id title project_id sv =
     (case validate_thread_metadata thread_id title project_id of
        Inl err \<Rightarrow> Some (Inl (MetadataRefused err), sv)
      | Inr _ \<Rightarrow>
          lock_writer_transaction E id (materialized S J id (\<lambda>m sv.
            if bt_get (mj_threads m) thread_id \<noteq> None then (Inr False, sv)
            else if (case project_id of Some p \<Rightarrow> bt_get (mj_projects m) p = None | None \<Rightarrow> False)
            then (Inl UnknownProjectId, sv)
            else
              (case journal_append J E 0 (new_event (se_uuid E 0) thread_id None None ThreadCreated (se_now E 0)
                 operator_actor (JObject [(''project_id'', opt_str project_id), (''title'', opt_str title)])) sv of
                 (Inl err, sv') \<Rightarrow> (Inl err, sv')
               | (Inr _, sv') \<Rightarrow> (Inr True, sv')))) sv)"

definition ensure_thread ::
    "session_lib \<Rightarrow> 'j journal_ops \<Rightarrow> session_env \<Rightarrow> string \<Rightarrow> 'j service \<Rightarrow> ((session_error + bool) \<times> 'j service) option" where
  "ensure_thread S J E thread_id = create_thread S J E thread_id None None"

definition create_project ::
    "session_lib \<Rightarrow> 'j journal_ops \<Rightarrow> session_env \<Rightarrow> string \<Rightarrow> string \<Rightarrow> 'j service \<Rightarrow>
      ((session_error + OperatorProjectSummary) \<times> 'j service) option" where
  "create_project S J E project_id title sv =
     (case validate_project_metadata project_id (Some title) of
        Inl err \<Rightarrow> Some (Inl (MetadataRefused err), sv)
      | Inr _ \<Rightarrow>
          lock_writer_transaction E id (materialized S J id (\<lambda>m sv.
            case bt_get (mj_projects m) project_id of
              Some project \<Rightarrow> (Inr (FoldedProject_to_summary project), sv)
            | None \<Rightarrow>
                (case journal_append J E 0 (new_event (se_uuid E 0) (project_subject project_id) None None ProjectCreated
                   (se_now E 0) operator_actor (JObject [(''project_id'', JString project_id), (''title'', JString title)])) sv of
                   (Inl err, sv') \<Rightarrow> (Inl err, sv')
                 | (Inr _, sv') \<Rightarrow>
                     (Inr \<lparr>ops_project_id = project_id, ops_title = title, ops_archived = False\<rparr>, sv')))) sv)"

definition opt_bool :: "bool option \<Rightarrow> json" where
  "opt_bool b = (case b of Some x \<Rightarrow> JBool x | None \<Rightarrow> JNull)"

record ProjectMetadataUpdate =
  pu_title :: "string option"
  pu_archived :: "bool option"

definition update_project_metadata ::
    "session_lib \<Rightarrow> 'j journal_ops \<Rightarrow> session_env \<Rightarrow> string \<Rightarrow> ProjectMetadataUpdate \<Rightarrow> 'j service \<Rightarrow>
      ((session_error + OperatorProjectSummary) \<times> 'j service) option" where
  "update_project_metadata S J E project_id update sv =
     (if pu_title update = None \<and> pu_archived update = None then Some (Inl EmptyMetadataUpdate, sv)
      else
        (case validate_project_metadata project_id (pu_title update) of
           Inl err \<Rightarrow> Some (Inl (MetadataRefused err), sv)
         | Inr _ \<Rightarrow>
             lock_writer_transaction E id (materialized S J id (\<lambda>m sv.
               case bt_get (mj_projects m) project_id of
                 None \<Rightarrow> (Inl UnknownProjectId, sv)
               | Some current \<Rightarrow>
                   (case journal_append J E 0 (new_event (se_uuid E 0) (project_subject project_id) None None
                      ProjectMetadataUpdated (se_now E 0) operator_actor
                      (JObject [(''archived'', opt_bool (pu_archived update)), (''project_id'', JString project_id),
                                (''title'', opt_str (pu_title update))])) sv of
                      (Inl err, sv') \<Rightarrow> (Inl err, sv')
                    | (Inr _, sv') \<Rightarrow>
                        (Inr \<lparr>ops_project_id = project_id, ops_title = unwrap_or (pu_title update) (fp_title current),
                              ops_archived = unwrap_or (pu_archived update) (fp_archived current)\<rparr>, sv')))) sv))"

record ThreadMetadataUpdate =
  tu_title :: "string option"
  tu_project_id :: "string option option"
  tu_archived :: "bool option"

definition thread_update_payload :: "ThreadMetadataUpdate \<Rightarrow> json" where
  "thread_update_payload update = json_object
     [(''archived'', map_option JBool (tu_archived update)), (''project_id'', map_option opt_str (tu_project_id update)),
      (''title'', map_option JString (tu_title update))]"

definition update_thread_metadata ::
    "session_lib \<Rightarrow> 'j journal_ops \<Rightarrow> session_env \<Rightarrow> string \<Rightarrow> ThreadMetadataUpdate \<Rightarrow> 'j service \<Rightarrow>
      ((session_error + OperatorThreadSummary) \<times> 'j service) option" where
  "update_thread_metadata S J E thread_id update sv =
     (if tu_title update = None \<and> tu_project_id update = None \<and> tu_archived update = None
      then Some (Inl EmptyMetadataUpdate, sv)
      else
        (case validate_thread_metadata thread_id (tu_title update) (Option.bind (tu_project_id update) id) of
           Inl err \<Rightarrow> Some (Inl (MetadataRefused err), sv)
         | Inr _ \<Rightarrow>
             lock_writer_transaction E id (materialized S J id (\<lambda>m sv.
               case bt_get (mj_threads m) thread_id of
                 None \<Rightarrow> (Inl UnknownThreadId, sv)
               | Some current \<Rightarrow>
                   if (case Option.bind (tu_project_id update) id of
                         Some p \<Rightarrow> bt_get (mj_projects m) p = None | None \<Rightarrow> False)
                   then (Inl UnknownProjectId, sv)
                   else
                     (case journal_append J E 0 (new_event (se_uuid E 0) thread_id None None ThreadMetadataUpdated
                        (se_now E 0) operator_actor (thread_update_payload update)) sv of
                        (Inl err, sv') \<Rightarrow> (Inl err, sv')
                      | (Inr _, sv') \<Rightarrow>
                          (let summary = FoldedThread_to_summary current in
                           (Inr (summary\<lparr>os_title := (case tu_title update of Some t \<Rightarrow> Some t | None \<Rightarrow> os_title summary),
                                  os_project_id := unwrap_or (tu_project_id update) (os_project_id summary),
                                  os_archived := unwrap_or (tu_archived update) (os_archived summary)\<rparr>), sv'))))) sv))"


section \<open>Starting a turn\<close>

datatype conflict_reason =
    ClosedToRecovery
  | NoPromptBinding
  | DifferentPrompt
  | NoPolicyBinding
  | DifferentPolicy
  | DifferentWork

datatype TurnSubmissionError =
    IdempotencyConflict string conflict_reason
  | SensitivePayload string
  | InvalidWorkScope string string
  | RuntimeFailure session_error

record TurnSubmission =
  tsb_thread_id :: string
  tsb_turn_id :: string
  tsb_work_id :: "string option"
  tsb_cursor :: string
  tsb_duplicate :: bool

definition stored_fingerprint :: "session_lib \<Rightarrow> FoldedTurn \<Rightarrow> string option" where
  "stored_fingerprint S turn = (case ft_prompt_fingerprint turn of
      Some f \<Rightarrow> Some f
    | None \<Rightarrow> map_option (prompt_fingerprint S) (ft_prompt turn))"

definition validate_retry_binding ::
    "session_lib \<Rightarrow> FoldedTurn \<Rightarrow> string \<Rightarrow> TurnRoutePolicy \<Rightarrow> string option \<Rightarrow> TurnSubmissionError + unit" where
  "validate_retry_binding S turn retry_fingerprint retry_route_policy retry_work_id =
     (let conflict = (\<lambda>reason. Inl (IdempotencyConflict (ft_turn_id turn) reason)) in
      case stored_fingerprint S turn of
        None \<Rightarrow> conflict NoPromptBinding
      | Some fingerprint \<Rightarrow>
          if fingerprint \<noteq> retry_fingerprint then conflict DifferentPrompt
          else
            (case ft_route_policy turn of
               None \<Rightarrow> conflict NoPolicyBinding
             | Some policy \<Rightarrow>
                 if \<not> policy_eq (TurnRoutePolicy_normalized policy) retry_route_policy then conflict DifferentPolicy
                 else if ft_work_id turn \<noteq> retry_work_id then conflict DifferentWork
                 else Inr ()))"

definition user_message_payload :: "StartTurnRequest \<Rightarrow> json" where
  "user_message_payload request = JObject [(''text'', JString (sq_prompt request))]"

definition turn_started_payload :: "session_lib \<Rightarrow> StartTurnRequest \<Rightarrow> json" where
  "turn_started_payload S request = JObject
     [(''client_request_id'', JString (sq_client_request_id request)),
      (''prompt_fingerprint'', JString (prompt_fingerprint S (sq_prompt request))),
      (''route_policy'', sl_policy_to_value S (TurnRoutePolicy_normalized (sq_route_policy request)))]"

text \<open>The first of the prospective payloads that the gate finds sensitive.\<close>

definition screen_payloads :: "session_lib \<Rightarrow> StartTurnRequest \<Rightarrow> string option" where
  "screen_payloads S request = find_map (\<lambda>(event_type, payload).
       if find_sensitive payload \<noteq> None then Some event_type else None)
     [(''thread_created'', JObject []), (''turn_started'', turn_started_payload S request),
      (''user_message'', user_message_payload request)]"

definition message_event ::
    "session_env \<Rightarrow> nat \<Rightarrow> string \<Rightarrow> string \<Rightarrow> string \<Rightarrow> string option \<Rightarrow> StartTurnRequest \<Rightarrow> OperatorEvent" where
  "message_event E i thread_id turn_id now work_id request =
     (new_event (se_uuid E i) thread_id (Some turn_id) None UserMessage now operator_actor (user_message_payload request))
       \<lparr>ev_work_id := work_id\<rparr>"

definition submission ::
    "string \<Rightarrow> string \<Rightarrow> string option \<Rightarrow> bool \<Rightarrow> (session_error + CursorEvent) \<times> 'j service \<Rightarrow>
      (TurnSubmissionError + TurnSubmission) \<times> 'j service" where
  "submission thread_id turn_id work_id duplicate appended =
     (case appended of
        (Inl err, sv) \<Rightarrow> (Inl (RuntimeFailure err), sv)
      | (Inr row, sv) \<Rightarrow>
          (Inr \<lparr>tsb_thread_id = thread_id, tsb_turn_id = turn_id, tsb_work_id = work_id,
                tsb_cursor = ce_cursor row, tsb_duplicate = duplicate\<rparr>, sv))"

text \<open>A request whose id already belongs to a turn: answered from the journal, or completed after a
  crash between the turn's start and its message.\<close>

definition resubmit_turn ::
    "session_lib \<Rightarrow> 'j journal_ops \<Rightarrow> session_env \<Rightarrow> string \<Rightarrow> StartTurnRequest \<Rightarrow> FoldedTurn \<Rightarrow> 'j service \<Rightarrow>
      (TurnSubmissionError + TurnSubmission) \<times> 'j service" where
  "resubmit_turn S J E thread_id request turn sv =
     (case validate_retry_binding S turn (prompt_fingerprint S (sq_prompt request))
             (TurnRoutePolicy_normalized (sq_route_policy request)) (sq_work_id request) of
        Inl err \<Rightarrow> (Inl err, sv)
      | Inr _ \<Rightarrow>
          (case ft_user_message_cursor turn of
             Some cursor \<Rightarrow>
               (Inr \<lparr>tsb_thread_id = thread_id, tsb_turn_id = ft_turn_id turn, tsb_work_id = ft_work_id turn,
                     tsb_cursor = cursor, tsb_duplicate = True\<rparr>, sv)
           | None \<Rightarrow>
               if ft_status turn \<noteq> ''open'' \<or> ft_cancel_requested turn
               then (Inl (IdempotencyConflict (ft_turn_id turn) ClosedToRecovery), sv)
               else submission thread_id (ft_turn_id turn) (ft_work_id turn) True
                      (journal_append J E 0 (message_event E 0 thread_id (ft_turn_id turn) (se_now E 0)
                         (ft_work_id turn) request) sv)))"

definition thread_created_event :: "session_env \<Rightarrow> string \<Rightarrow> OperatorEvent" where
  "thread_created_event E thread_id =
     new_event (se_uuid E 0) thread_id None None ThreadCreated (se_now E 0) operator_actor (JObject [])"

definition turn_started_event :: "session_lib \<Rightarrow> session_env \<Rightarrow> string \<Rightarrow> StartTurnRequest \<Rightarrow> OperatorEvent" where
  "turn_started_event S E thread_id request =
     (new_event (se_uuid E 1) thread_id (Some (deterministic_turn_id S thread_id (sq_client_request_id request))) None
        TurnStarted (se_now E 0) operator_actor (turn_started_payload S request))\<lparr>ev_work_id := sq_work_id request\<rparr>"

definition open_turn ::
    "session_lib \<Rightarrow> 'j journal_ops \<Rightarrow> session_env \<Rightarrow> string \<Rightarrow> StartTurnRequest \<Rightarrow> bool \<Rightarrow> 'j service \<Rightarrow>
      (TurnSubmissionError + TurnSubmission) \<times> 'j service" where
  "open_turn S J E thread_id request thread_exists sv =
     (let turn_id = deterministic_turn_id S thread_id (sq_client_request_id request);
          created = (if thread_exists then (Inr (), sv)
            else (case journal_append J E 0 (thread_created_event E thread_id) sv of
                    (Inl err, sv') \<Rightarrow> (Inl err, sv') | (Inr _, sv') \<Rightarrow> (Inr (), sv')))
      in case created of
           (Inl err, sv1) \<Rightarrow> (Inl (RuntimeFailure err), sv1)
         | (Inr _, sv1) \<Rightarrow>
             (case journal_append J E 1 (turn_started_event S E thread_id request) sv1 of
                (Inl err, sv2) \<Rightarrow> (Inl (RuntimeFailure err), sv2)
              | (Inr _, sv2) \<Rightarrow>
                  submission thread_id turn_id (sq_work_id request) False
                    (journal_append J E 2 (message_event E 2 thread_id turn_id (se_now E 0) (sq_work_id request) request) sv2)))"

definition turn_of_request :: "MaterializedJournal \<Rightarrow> string \<Rightarrow> string \<Rightarrow> FoldedTurn option" where
  "turn_of_request m thread_id client_request_id =
     Option.bind (bt_get (mj_threads m) thread_id)
       (\<lambda>th. find (\<lambda>turn. ft_client_request_id turn = Some client_request_id) (fth_turns th))"

definition start_turn ::
    "session_lib \<Rightarrow> 'j journal_ops \<Rightarrow> session_env \<Rightarrow> string \<Rightarrow> StartTurnRequest \<Rightarrow> 'j service \<Rightarrow>
      ((TurnSubmissionError + TurnSubmission) \<times> 'j service) option" where
  "start_turn S J E thread_id request sv =
     (case screen_payloads S request of
        Some context \<Rightarrow> Some (Inl (SensitivePayload context), sv)
      | None \<Rightarrow>
          lock_writer_transaction E RuntimeFailure (materialized S J RuntimeFailure (\<lambda>m sv.
            case turn_of_request m thread_id (sq_client_request_id request) of
              Some turn \<Rightarrow> resubmit_turn S J E thread_id request turn sv
            | None \<Rightarrow>
                (case sq_work_id request of
                   Some work_id \<Rightarrow>
                     if \<not> work_linked (mj_work_threads m) work_id thread_id
                     then (Inl (InvalidWorkScope work_id thread_id), sv)
                     else open_turn S J E thread_id request (bt_get (mj_threads m) thread_id \<noteq> None) sv
                 | None \<Rightarrow> open_turn S J E thread_id request (bt_get (mj_threads m) thread_id \<noteq> None) sv))) sv)"

definition service_append_event ::
    "session_lib \<Rightarrow> 'j journal_ops \<Rightarrow> session_env \<Rightarrow> OperatorEvent \<Rightarrow> 'j service \<Rightarrow>
      ((session_error + CursorEvent) \<times> 'j service) option" where
  "service_append_event S J E event =
     lock_writer_transaction E id (materialized S J id (\<lambda>m sv.
       case validate_event (mj_threads m) (mj_work_threads m) event of
         Inl err \<Rightarrow> (Inl (EventRefused err), sv)
       | Inr _ \<Rightarrow> journal_append J E 0 event sv))"

section \<open>Reading\<close>

text \<open>One page: the matching rows collected, and where the limit was reached.\<close>

fun scan_page ::
    "string \<Rightarrow> nat \<Rightarrow> nat \<Rightarrow> CursorEvent list \<Rightarrow> CursorEvent list \<Rightarrow> CursorEvent list \<times> nat option" where
  "scan_page thread_id limit index [] collected = (collected, None)"
| "scan_page thread_id limit index (row # rows) collected =
     (if ev_thread_id (ce_event row) = thread_id then
        let collected' = collected @ [row] in
        if length collected' = limit then (collected', Some index)
        else scan_page thread_id limit (index + 1) rows collected'
      else scan_page thread_id limit (index + 1) rows collected)"

partial_function (option) events_loop ::
    "'j journal_ops \<Rightarrow> 'j \<Rightarrow> string \<Rightarrow> nat \<Rightarrow> string option \<Rightarrow> CursorEvent list \<Rightarrow> nat \<Rightarrow> (CursorError + OperatorPage) option" where
  "events_loop J j thread_id limit raw_cursor collected skipped =
     (case jo_read_after J j raw_cursor PAGE_SIZE of
        Inl err \<Rightarrow> Some (Inl err)
      | Inr page \<Rightarrow>
          if pg_events page = [] then
            Some (Inr \<lparr>pg_events = collected, pg_next_cursor = pg_next_cursor page,
                       pg_skipped_lines = skipped + pg_skipped_lines page\<rparr>)
          else
            (case scan_page thread_id limit 0 (pg_events page) collected of
               (collected', Some index) \<Rightarrow>
                 Some (Inr \<lparr>pg_events = collected', pg_next_cursor = Some (ce_cursor (pg_events page ! index)),
                            pg_skipped_lines = (if index = length (pg_events page) - 1
                              then skipped + pg_skipped_lines page else skipped)\<rparr>)
             | (collected', None) \<Rightarrow>
                 events_loop J j thread_id limit (pg_next_cursor page) collected' (skipped + pg_skipped_lines page)))"

declare events_loop.simps [code]

definition events_after ::
    "'j journal_ops \<Rightarrow> 'j \<Rightarrow> string \<Rightarrow> string option \<Rightarrow> nat \<Rightarrow> (CursorError + OperatorPage) option" where
  "events_after J j thread_id cursor limit =
     (if limit = 0 then Some (Inr \<lparr>pg_events = [], pg_next_cursor = cursor, pg_skipped_lines = 0\<rparr>)
      else events_loop J j thread_id limit cursor [] 0)"

definition journal_page_after :: "'j journal_ops \<Rightarrow> 'j \<Rightarrow> string option \<Rightarrow> nat \<Rightarrow> CursorError + OperatorPage" where
  "journal_page_after J j cursor limit = jo_read_after J j cursor limit"

definition artifact_link :: "CursorEvent \<Rightarrow> (string \<times> string) option" where
  "artifact_link row =
     (if ev_event_type (ce_event row) \<noteq> ArtifactCreated then None
      else map_option (\<lambda>artifact_id. (ev_thread_id (ce_event row), artifact_id)) (payload_str (ce_event row) ''artifact_id''))"

partial_function (option) links_loop ::
    "'j journal_ops \<Rightarrow> 'j \<Rightarrow> string option \<Rightarrow> (string \<times> string) set \<Rightarrow> (session_error + (string \<times> string) set) option" where
  "links_loop J j cursor links =
     (case jo_read_after J j cursor PAGE_SIZE of
        Inl err \<Rightarrow> Some (Inl (ReadFailed err))
      | Inr page \<Rightarrow>
          let links' = links \<union> set (List.map_filter artifact_link (pg_events page)) in
          (case pg_next_cursor page of
             None \<Rightarrow> Some (Inr links')
           | Some next_cursor \<Rightarrow>
               if pg_events page = [] \<or> cursor = Some next_cursor then Some (Inr links')
               else links_loop J j (Some next_cursor) links'))"

declare links_loop.simps [code]

definition artifact_links :: "'j journal_ops \<Rightarrow> 'j \<Rightarrow> (session_error + (string \<times> string) set) option" where
  "artifact_links J j = links_loop J j None {}"

definition has_artifact_link :: "'j journal_ops \<Rightarrow> 'j \<Rightarrow> string \<Rightarrow> string \<Rightarrow> (session_error + bool) option" where
  "has_artifact_link J j thread_id artifact_id =
     map_option (map_sum id (\<lambda>links. (thread_id, artifact_id) \<in> links)) (artifact_links J j)"

definition thread_diagnostics :: "MaterializedJournal \<Rightarrow> string \<Rightarrow> nat" where
  "thread_diagnostics m thread_id =
     unwrap_or (bt_get (mj_unsupported_schema_events m) thread_id) 0 +
     unwrap_or (bt_get (mj_rejected_current_schema_events m) thread_id) 0"

definition view_thread :: "MaterializedJournal \<Rightarrow> string \<Rightarrow> OperatorThreadView" where
  "view_thread m thread_id =
     (let view = (case bt_get (mj_threads m) thread_id of
            Some folded \<Rightarrow> FoldedThread_to_view folded (total_skipped_lines m) (thread_diagnostics m thread_id)
          | None \<Rightarrow> \<lparr>ov_thread_id = thread_id, ov_title = None, ov_project_id = None, ov_archived = False,
              ov_work_ids = [], ov_turns = [], ov_skipped_events = thread_diagnostics m thread_id,
              ov_skipped_lines = total_skipped_lines m\<rparr>)
      in view\<lparr>ov_work_ids := sort (map fst (filter (\<lambda>(_, threads). thread_id \<in> threads) (mj_work_threads m)))\<rparr>)"

definition service_thread ::
    "session_lib \<Rightarrow> 'j journal_ops \<Rightarrow> string \<Rightarrow> 'j service \<Rightarrow> ((session_error + OperatorThreadView) \<times> 'j service) option" where
  "service_thread S J thread_id = materialized S J id (\<lambda>m sv. (Inr (view_thread m thread_id), sv))"

text \<open>\<open>sort_by_key(Reverse(last_order))\<close>, a stable sort; \<open>iter\<close> is the iteration order of the map.\<close>

definition by_recency :: "('a \<Rightarrow> nat) \<Rightarrow> 'a list \<Rightarrow> 'a list" where
  "by_recency order_of xs = sort_key (\<lambda>x. - int (order_of x)) xs"

type_synonym ('k, 'v) iteration = "('k, 'v) btree \<Rightarrow> ('k \<times> 'v) list"

definition recent_threads :: "(string, FoldedThread) iteration \<Rightarrow> nat \<Rightarrow> MaterializedJournal \<Rightarrow> OperatorThreadSummary list" where
  "recent_threads iter limit m =
     map FoldedThread_to_summary (take limit (by_recency fth_last_order (map snd (iter (mj_threads m)))))"

definition list_threads ::
    "session_lib \<Rightarrow> 'j journal_ops \<Rightarrow> (string, FoldedThread) iteration \<Rightarrow> nat \<Rightarrow> 'j service \<Rightarrow>
      ((session_error + OperatorThreadSummary list) \<times> 'j service) option" where
  "list_threads S J iter limit = materialized S J id (\<lambda>m sv. (Inr (recent_threads iter limit m), sv))"

record OperatorCatalog =
  cat_threads :: "OperatorThreadSummary list"
  cat_projects :: "OperatorProjectSummary list"
  cat_truncated :: bool

definition catalog ::
    "session_lib \<Rightarrow> 'j journal_ops \<Rightarrow> (string, FoldedThread) iteration \<Rightarrow> (string, FoldedProject) iteration \<Rightarrow> nat \<Rightarrow>
      'j service \<Rightarrow> ((session_error + OperatorCatalog) \<times> 'j service) option" where
  "catalog S J iter piter limit = materialized S J id (\<lambda>m sv.
     (Inr \<lparr>cat_threads = recent_threads iter limit m,
           cat_projects = map FoldedProject_to_summary
             (take limit (by_recency fp_last_order (map snd (piter (mj_projects m))))),
           cat_truncated = (length (mj_threads m) > limit \<or> length (mj_projects m) > limit)\<rparr>, sv))"

definition provider_executions ::
    "session_lib \<Rightarrow> 'j journal_ops \<Rightarrow> 'j service \<Rightarrow> ((session_error + ProviderExecutionView) \<times> 'j service) option" where
  "provider_executions S J = materialized S J id (\<lambda>m sv.
     let f = mj_provider_executions m;
         state = (if total_skipped_lines m > 0 then EvPartial
                  else if pf_events_inspected f = 0 \<and> pf_unsupported_schema_events f = 0 then EvEmpty
                  else EvComplete)
     in (Inr (fold_view f ((blank_evidence state ''runtime_projection'')\<lparr>xe_skipped_lines := total_skipped_lines m\<rparr>)), sv))"

section \<open>Recovery\<close>

definition restart_reason :: "FoldedTurn \<Rightarrow> json" where
  "restart_reason turn = JObject [(''reason'',
     JString (if ft_cancel_requested turn then ''OPERATOR_CANCELLED'' else ''RUNTIME_RESTART''))]"

definition interruption ::
    "session_env \<Rightarrow> nat \<Rightarrow> string \<Rightarrow> string \<Rightarrow> FoldedTurn \<Rightarrow> OperatorEvent" where
  "interruption E i actor thread_id turn =
     new_event (se_uuid E i) thread_id (Some (ft_turn_id turn)) None TurnInterrupted (se_now E i)
       \<lparr>actor_kind = ''runtime'', actor_id = actor\<rparr> (restart_reason turn)"

text \<open>The turns recovery closes: those of every thread, in iteration order, that have not ended.\<close>

definition open_turns :: "(string, FoldedThread) iteration \<Rightarrow> MaterializedJournal \<Rightarrow> (string \<times> FoldedTurn) list" where
  "open_turns iter m = concat (map (\<lambda>(thread_id, folded).
     map (Pair thread_id) (filter (\<lambda>turn. \<not> is_turn_terminal (ft_status turn)) (fth_turns folded))) (iter (mj_threads m)))"

text \<open>Append a list of events, stopping at the first refusal; \<open>i\<close> is the number already appended.\<close>

fun append_all ::
    "'j journal_ops \<Rightarrow> session_env \<Rightarrow> nat \<Rightarrow> OperatorEvent list \<Rightarrow> 'j service \<Rightarrow> (session_error + nat) \<times> 'j service" where
  "append_all J E i [] sv = (Inr i, sv)"
| "append_all J E i (event # events) sv =
     (case journal_append J E i event sv of
        (Inl err, sv') \<Rightarrow> (Inl err, sv')
      | (Inr _, sv') \<Rightarrow> append_all J E (i + 1) events sv')"

fun close_turns ::
    "'j journal_ops \<Rightarrow> session_env \<Rightarrow> nat \<Rightarrow> (string \<times> FoldedTurn) list \<Rightarrow> 'j service \<Rightarrow> (session_error + nat) \<times> 'j service" where
  "close_turns J E closed [] sv = (Inr closed, sv)"
| "close_turns J E closed ((thread_id, turn) # turns) sv =
     (case journal_append J E closed (interruption E closed ''heiwa-core'' thread_id turn) sv of
        (Inl err, sv') \<Rightarrow> (Inl err, sv')
      | (Inr _, sv') \<Rightarrow> close_turns J E (closed + 1) turns sv')"

text \<open>A planner: what it does with a row, and the events it asks for.\<close>

record ('s, 'r) recovery_planner =
  rp_observe :: "'s \<Rightarrow> OperatorEvent \<Rightarrow> EventAdmission \<Rightarrow> 's"
  rp_plan :: "'s \<Rightarrow> nat \<Rightarrow> session_error + (OperatorEvent list \<times> 'r)"

definition NoFurtherRecovery :: "(unit, unit) recovery_planner" where
  "NoFurtherRecovery = \<lparr>rp_observe = (\<lambda>_ _ _. ()), rp_plan = (\<lambda>_ _. Inr ([], ()))\<rparr>"

record 'r RecoveryOutcome =
  ro_interrupted_turns :: nat
  ro_appended :: "OperatorEvent list"
  ro_report :: 'r

definition recover_planned ::
    "session_lib \<Rightarrow> 'j journal_ops \<Rightarrow> session_env \<Rightarrow> ('s, 'r) recovery_planner \<Rightarrow> 's \<Rightarrow> nat \<Rightarrow> 'j service \<Rightarrow>
      ((session_error + 'r RecoveryOutcome) \<times> 'j service) option" where
  "recover_planned S J E planner s closed sv =
     (case sync_materialized_observing S J (sv_journal sv) False (\<lambda>s row admission. rp_observe planner s (ce_event row) admission)
             MaterializedJournal_default s of
        None \<Rightarrow> None
      | Some (Inl err, _, _) \<Rightarrow> Some (Inl err, sv)
      | Some (Inr _, replayed, s') \<Rightarrow>
          Some (case rp_plan planner s' (total_skipped_lines replayed) of
                  Inl err \<Rightarrow> (Inl err, sv)
                | Inr (appended, report) \<Rightarrow>
                    (case append_all J E closed appended sv of
                       (Inl err, sv') \<Rightarrow> (Inl err, sv')
                     | (Inr _, sv') \<Rightarrow>
                         (Inr \<lparr>ro_interrupted_turns = closed, ro_appended = appended, ro_report = report\<rparr>, sv'))))"

text \<open>Recovery needs the exclusive lease; without it nothing is read or written.\<close>

definition recover_interrupted_with ::
    "session_lib \<Rightarrow> 'j journal_ops \<Rightarrow> session_env \<Rightarrow> (string, FoldedThread) iteration \<Rightarrow> ('s, 'r) recovery_planner \<Rightarrow> 's \<Rightarrow>
      'j service \<Rightarrow> ((session_error + 'r RecoveryOutcome) \<times> 'j service) option" where
  "recover_interrupted_with S J E iter planner s sv =
     (if \<not> se_lock_granted E then Some (Inl ActivityAlreadyHeld, sv)
      else
        (case materialized S J id (\<lambda>m sv. close_turns J E 0 (open_turns iter m) sv) sv of
           None \<Rightarrow> None
         | Some (Inl err, sv') \<Rightarrow> Some (Inl err, sv')
         | Some (Inr closed, sv') \<Rightarrow> recover_planned S J E planner s closed sv'))"

definition recover_interrupted ::
    "session_lib \<Rightarrow> 'j journal_ops \<Rightarrow> session_env \<Rightarrow> (string, FoldedThread) iteration \<Rightarrow> 'j service \<Rightarrow>
      ((session_error + nat) \<times> 'j service) option" where
  "recover_interrupted S J E iter sv =
     map_option (\<lambda>(res, sv'). (map_sum id ro_interrupted_turns res, sv'))
       (recover_interrupted_with S J E iter NoFurtherRecovery () sv)"

definition recover_proven_orphan ::
    "session_lib \<Rightarrow> 'j journal_ops \<Rightarrow> session_env \<Rightarrow> string \<Rightarrow> string \<Rightarrow> 'j service \<Rightarrow>
      ((session_error + CursorEvent option) \<times> 'j service) option" where
  "recover_proven_orphan S J E thread_id turn_id =
     lock_writer_transaction E id (materialized S J id (\<lambda>m sv.
       case Option.bind (bt_get (mj_threads m) thread_id) (find_turn turn_id) of
         None \<Rightarrow> (Inl UnknownTurnId, sv)
       | Some turn \<Rightarrow>
           if is_turn_terminal (ft_status turn) then (Inr None, sv)
           else
             (case journal_append J E 0 (interruption E 0 ''operator-session-recovery'' thread_id turn) sv of
                (Inl err, sv') \<Rightarrow> (Inl err, sv')
              | (Inr row, sv') \<Rightarrow> (Inr (Some row), sv'))))"

end
