(* ===== verification/Session_Journal.thy ===== *)
theory Session_Journal
  imports Session_Service
begin

text \<open>
  The session service over an event log. The locale \<open>event_log\<close> states what the service relies on: a
  page read at a position is the next rows of the log, and an append adds one row. Inside it, catching
  up ends and equals a replay of the whole log, a submission is idempotent, and recovery closes every
  open turn. It is interpreted on the operator journal.
\<close>

section \<open>Replay up to the bookkeeping of pages\<close>

text \<open>The projection without its cursor and without the counters of damaged lines.\<close>

definition core :: "MaterializedJournal \<Rightarrow> MaterializedJournal" where
  "core m = m\<lparr>mj_cursor := None, mj_committed_skipped_lines := 0, mj_tail_skipped_lines := 0\<rparr>"

lemma core_core [simp]: "core (core m) = core m"
  by (simp add: core_def)

lemma core_fields [simp]:
  "core (m\<lparr>mj_cursor := c\<rparr>) = core m" "core (m\<lparr>mj_tail_skipped_lines := n\<rparr>) = core m"
  "core (m\<lparr>mj_committed_skipped_lines := n\<rparr>) = core m"
  "mj_threads (core m) = mj_threads m" "mj_work_threads (core m) = mj_work_threads m"
  "mj_seen_event_ids (core m) = mj_seen_event_ids m" "mj_projects (core m) = mj_projects m"
  "mj_provider_executions (core m) = mj_provider_executions m" "mj_order (core m) = mj_order m"
  by (simp_all add: core_def)

lemma apply_thread_event_core:
  "apply_thread_event S (core m) row n = apfst core (apply_thread_event S m row n)"
  by (simp add: apply_thread_event_def core_def Let_def split: option.split)

lemma apply_project_core:
  "apply_project_created (core m) event n = apfst core (apply_project_created m event n)"
  "apply_project_updated (core m) event n = apfst core (apply_project_updated m event n)"
  by (simp_all add: apply_project_created_def apply_project_updated_def core_def split: option.split)

lemma core_update_seen:
  "(core m)\<lparr>mj_seen_event_ids := x\<rparr> = core (m\<lparr>mj_seen_event_ids := x\<rparr>)"
  "(core m)\<lparr>mj_unsupported_schema_events := y\<rparr> = core (m\<lparr>mj_unsupported_schema_events := y\<rparr>)"
  "(core m)\<lparr>mj_order := n, mj_applied_event_rows := k\<rparr> = core (m\<lparr>mj_order := n, mj_applied_event_rows := k\<rparr>)"
  "(core m)\<lparr>mj_provider_executions := f\<rparr> = core (m\<lparr>mj_provider_executions := f\<rparr>)"
  "mj_unsupported_schema_events (core m) = mj_unsupported_schema_events m"
  "mj_applied_event_rows (core m) = mj_applied_event_rows m"
  by (simp_all add: core_def)

lemma apply_event_core: "apply_event S (core m) row n = apfst core (apply_event S m row n)"
  by (simp add: apply_event_def Let_def core_update_seen apply_thread_event_core apply_project_core
      split: OperatorEventType.split)

lemma sync_row_core: "sync_row S (core m) row = apfst core (sync_row S m row)"
  by (simp add: sync_row_def Let_def core_update_seen apply_event_core split_beta split: EventAdmission.split)

lemma sync_rows_core:
  "core (fst (sync_rows S obs m s rows)) = replay S (core m) rows"
proof (induction rows arbitrary: m s)
  case (Cons row rows)
  then show ?case by (simp add: replay_def Let_def split_beta sync_row_core)
qed (simp add: replay_def)

lemma replay_append [simp]: "replay S m (rows @ later) = replay S (replay S m rows) later"
  by (simp add: replay_def)

lemma replay_simps [simp]: "replay S m [] = m" "replay S m (row # rows) = replay S (fst (sync_row S m row)) rows"
  by (simp_all add: replay_def)

lemma replay_core: "core (replay S m rows) = replay S (core m) rows"
  by (induction rows arbitrary: m) (simp_all add: sync_row_core)

lemma core_default [simp]: "core MaterializedJournal_default = MaterializedJournal_default"
  by (simp add: core_def MaterializedJournal_default_def)

lemma materialized_step:
  "sync_materialized S J (sv_journal sv) (sv_projection sv) = Some (Inr (), m) \<Longrightarrow>
    materialized S J wrap operation sv = Some (operation m (sv\<lparr>sv_projection := m\<rparr>))"
  by (simp add: materialized_def)

section \<open>The log the service relies on\<close>

text \<open>A projection that has folded the first \<open>i\<close> rows, and a service with such a projection.\<close>

definition caught :: "session_lib \<Rightarrow> CursorEvent list \<Rightarrow> nat \<Rightarrow> MaterializedJournal \<Rightarrow> bool" where
  "caught S log i m \<longleftrightarrow> i \<le> length log \<and> mj_cursor m = position_cursor log i \<and>
     core m = replay S MaterializedJournal_default (take i log)"

definition service_at ::
    "('j \<Rightarrow> CursorEvent list) \<Rightarrow> ('j \<Rightarrow> bool) \<Rightarrow> session_lib \<Rightarrow> 'j service \<Rightarrow> bool" where
  "service_at rows ok S sv \<longleftrightarrow> ok (sv_journal sv) \<and> (\<exists>i. caught S (rows (sv_journal sv)) i (sv_projection sv))"

lemma caught_default: "caught S log 0 MaterializedJournal_default"
  by (simp add: caught_def position_cursor_def MaterializedJournal_default_def replay_def core_def)

locale event_log =
  fixes J :: "'j journal_ops" and rows :: "'j \<Rightarrow> CursorEvent list"
    and ok :: "'j \<Rightarrow> bool" and room :: "'j \<Rightarrow> bool" and good :: "OperatorEvent \<Rightarrow> bool"
  assumes read_page: "ok j \<Longrightarrow> room j \<Longrightarrow> i \<le> length (rows j) \<Longrightarrow>
      \<exists>skipped. jo_read_after J j (position_cursor (rows j) i) n =
        Inr \<lparr>pg_events = take n (drop i (rows j)),
             pg_next_cursor = position_cursor (rows j) (i + length (take n (drop i (rows j)))),
             pg_skipped_lines = skipped\<rparr>"
    and append_row: "ok j \<Longrightarrow> good event \<Longrightarrow> jo_append J now event j = (Inr row, j') \<Longrightarrow>
      ok j' \<and> rows j' = rows j @ [row] \<and> ce_event row = event \<and> (room j' \<longrightarrow> room j)"
begin

lemma caught_page:
  assumes "caught S (rows j) i m" and page: "pg_events page = take n (drop i (rows j))"
    "pg_next_cursor page = position_cursor (rows j) (i + length (pg_events page))"
  shows "caught S (rows j) (i + length (pg_events page)) (fst (sync_page S obs m s page tail_lines))"
proof -
  have "take (i + length (pg_events page)) (rows j) = take i (rows j) @ pg_events page"
    by (simp add: page(1) take_add min_def)
  moreover have "i + length (pg_events page) \<le> length (rows j)"
    using assms(1) page(1) by (auto simp: caught_def min_def)
  ultimately show ?thesis using assms
    by (simp add: caught_def sync_page_def Let_def split_beta sync_rows_core)
qed

lemma catch_up:
  assumes "ok j" and "room j" and "caught S (rows j) i m"
  shows "\<exists>m' s'. sync_materialized_observing S J j rebuild obs m s = Some (Inr (), m', s') \<and>
    caught S (rows j) (length (rows j)) m'"
  using assms(3)
proof (induction "length (rows j) - i" arbitrary: i m s rule: less_induct)
  case less
  have i: "i \<le> length (rows j)" and cursor: "mj_cursor m = position_cursor (rows j) i"
    using less.prems by (simp_all add: caught_def)
  define w where "w = take PAGE_SIZE (drop i (rows j))"
  obtain skipped where read: "jo_read_after J j (mj_cursor m) PAGE_SIZE =
      Inr \<lparr>pg_events = w, pg_next_cursor = position_cursor (rows j) (i + length w), pg_skipped_lines = skipped\<rparr>"
    using read_page [OF assms(1,2) i] unfolding cursor w_def by blast
  let ?page = "\<lparr>pg_events = w, pg_next_cursor = position_cursor (rows j) (i + length w), pg_skipped_lines = skipped\<rparr>"
  have page: "caught S (rows j) (i + length w) (fst (sync_page S obs m s ?page stable_tail))" for stable_tail
    using caught_page [OF less.prems, of ?page PAGE_SIZE obs s stable_tail] unfolding OperatorPage.simps
    by (simp only: w_def)
  have iw: "i + length w \<le> length (rows j)" using i by (simp add: w_def)
  show ?case
  proof (cases "w = []")
    case True
    then have "i = length (rows j)" using i by (auto simp: w_def PAGE_SIZE_def)
    with True read less.prems show ?thesis
      by (subst sync_materialized_observing.simps) (simp add: caught_def)
  next
    case False
    obtain k where probe: "jo_read_after J j (position_cursor (rows j) (i + length w)) 1 =
        Inr \<lparr>pg_events = take 1 (drop (i + length w) (rows j)),
          pg_next_cursor = position_cursor (rows j) (i + length w + length (take 1 (drop (i + length w) (rows j)))),
          pg_skipped_lines = k\<rparr>"
      using read_page [OF assms(1,2) iw] by blast
    show ?thesis
    proof (cases "length w < PAGE_SIZE")
      case short: True
      then have "i + length w = length (rows j)" using i by (auto simp: w_def)
      moreover from this have "probe_tail J j ?page = Inr (Some k)"
        using short probe by (simp add: probe_tail_def)
      ultimately show ?thesis using False read page [of "Some k"]
        by (subst sync_materialized_observing.simps) (simp, metis prod.collapse)
    next
      case long: False
      then have "probe_tail J j ?page = Inr None" by (simp add: probe_tail_def)
      moreover have "length (rows j) - (i + length w) < length (rows j) - i"
        using False iw by (cases w) auto
      ultimately show ?thesis using False read less.hyps [OF _ page [of None]]
        by (subst sync_materialized_observing.simps) simp
    qed
  qed
qed


abbreviation service_ok :: "session_lib \<Rightarrow> 'j service \<Rightarrow> bool" where
  "service_ok \<equiv> service_at rows ok"

lemma service_ok_new: "ok j \<Longrightarrow> service_ok S (OperatorSessionService_new j)"
  using caught_default by (auto simp: service_at_def OperatorSessionService_new_def)

abbreviation state :: "session_lib \<Rightarrow> 'j \<Rightarrow> MaterializedJournal" where
  "state S j \<equiv> replay S MaterializedJournal_default (rows j)"

lemma materialized_ok:
  assumes "service_ok S sv" and "room (sv_journal sv)"
  obtains m where "core m = state S (sv_journal sv)" "service_ok S (sv\<lparr>sv_projection := m\<rparr>)"
    "sync_materialized S J (sv_journal sv) (sv_projection sv) = Some (Inr (), m)"
proof -
  obtain i where "ok (sv_journal sv)" "caught S (rows (sv_journal sv)) i (sv_projection sv)"
    using assms(1) by (auto simp: service_at_def)
  from catch_up [OF this(1) assms(2) this(2), of True "\<lambda>_ _ _. ()" "()"]
  obtain m where "sync_materialized S J (sv_journal sv) (sv_projection sv) = Some (Inr (), m)"
    "caught S (rows (sv_journal sv)) (length (rows (sv_journal sv))) m"
    by (auto simp: sync_materialized_def)
  with \<open>ok (sv_journal sv)\<close> show thesis
    by (intro that [of m]) (auto simp: service_at_def caught_def)
qed

lemma journal_append_ok:
  assumes "service_ok S sv" and "good event" and "journal_append J E i event sv = (Inr row, sv')"
  shows "service_ok S sv'" and "rows (sv_journal sv') = rows (sv_journal sv) @ [row]" and "ce_event row = event"
    and "room (sv_journal sv') \<Longrightarrow> room (sv_journal sv)"
proof -
  obtain j' where append: "jo_append J (se_ms E i) event (sv_journal sv) = (Inr row, j')" and sv': "sv' = sv\<lparr>sv_journal := j'\<rparr>"
    using assms(3) by (auto simp: journal_append_def split: prod.splits sum.splits)
  from append_row [OF _ assms(2) append] assms(1)
  have added: "ok j'" "rows j' = rows (sv_journal sv) @ [row]" "ce_event row = event" "room j' \<Longrightarrow> room (sv_journal sv)"
    by (auto simp: service_at_def)
  then show "rows (sv_journal sv') = rows (sv_journal sv) @ [row]" "ce_event row = event"
    "room (sv_journal sv') \<Longrightarrow> room (sv_journal sv)" by (simp_all add: sv')
  have "caught S (rows j') i m" if "caught S (rows (sv_journal sv)) i m" for i m
    using that by (auto simp: caught_def added(2) position_cursor_def nth_append)
  then show "service_ok S sv'" using assms(1) added(1) by (auto simp: service_at_def sv')
qed

end

section \<open>What a row of the service does\<close>

lemma apply_event_seen: "mj_seen_event_ids (fst (apply_event S m row n)) = insert (ev_event_id (ce_event row)) (mj_seen_event_ids m)"
proof -
  have "mj_seen_event_ids (fst (apply_thread_event S m row n)) = mj_seen_event_ids m"
    "mj_seen_event_ids (fst (apply_project_created m event n)) = mj_seen_event_ids m"
    "mj_seen_event_ids (fst (apply_project_updated m event n)) = mj_seen_event_ids m" for m event
    by (simp_all add: apply_thread_event_def apply_project_created_def apply_project_updated_def Let_def split: option.split)
  then show ?thesis by (auto simp: apply_event_def Let_def split: OperatorEventType.split)
qed

lemma sync_row_seen: "mj_seen_event_ids (fst (sync_row S m row)) = insert (ev_event_id (ce_event row)) (mj_seen_event_ids m)"
  by (simp add: sync_row_def Let_def split_beta apply_event_seen split: EventAdmission.split)

lemma replay_seen: "mj_seen_event_ids (replay S m rows) = mj_seen_event_ids m \<union> (\<lambda>row. ev_event_id (ce_event row)) ` set rows"
  by (induction rows arbitrary: m) (simp_all add: sync_row_seen)

definition thread_kind :: "OperatorEvent \<Rightarrow> bool" where
  "thread_kind event \<longleftrightarrow> ev_schema_version event = OPERATOR_EVENT_SCHEMA_VERSION \<and>
     ev_event_type event \<notin> {ProjectCreated, ProjectMetadataUpdated}"

lemma sync_row_thread:
  assumes "thread_kind (ce_event row)" and "ev_event_id (ce_event row) \<notin> mj_seen_event_ids m"
  shows "mj_threads (fst (sync_row S m row)) = mj_threads (fst (apply_thread_event S m row (mj_order m + 1)))"
  using assms unfolding sync_row_threads apply_event_def thread_kind_def
  by (cases "ev_event_type (ce_event row)")
    (simp_all add: Let_def apply_thread_event_def split: option.split)

lemma sync_row_existing:
  assumes "thread_kind (ce_event row)" and "ev_event_id (ce_event row) \<notin> mj_seen_event_ids m"
    and "bt_get (mj_threads m) (ev_thread_id (ce_event row)) = Some entry"
    and "apply_to_existing_thread S entry (ce_event row) (ce_cursor row) = Some entry'"
  shows "bt_get (mj_threads (fst (sync_row S m row))) (ev_thread_id (ce_event row)) = Some (entry'\<lparr>fth_last_order := mj_order m + 1\<rparr>)"
    and "k \<noteq> ev_thread_id (ce_event row) \<Longrightarrow> bt_get (mj_threads (fst (sync_row S m row))) k = bt_get (mj_threads m) k"
  unfolding sync_row_thread [OF assms(1,2)] using assms(3,4) by (simp_all add: apply_thread_event_def Let_def)

lemma sync_row_new:
  assumes "thread_kind (ce_event row)" and "ev_event_id (ce_event row) \<notin> mj_seen_event_ids m"
    and "bt_get (mj_threads m) (ev_thread_id (ce_event row)) = None" and "new_thread S (ce_event row) = Some entry"
  shows "bt_get (mj_threads (fst (sync_row S m row))) (ev_thread_id (ce_event row)) = Some (entry\<lparr>fth_last_order := mj_order m + 1\<rparr>)"
  unfolding sync_row_thread [OF assms(1,2)] using assms(3,4) by (simp add: apply_thread_event_def Let_def)

lemma find_update_first:
  assumes "find P ts = Some t" and "distinct (map ft_turn_id ts)" and "P t'" and "ft_turn_id t' = ft_turn_id t"
  shows "find P (update_first (\<lambda>u. ft_turn_id u = ft_turn_id t) t' ts) = Some t'"
  using assms
proof (induction ts)
  case (Cons u ts)
  show ?case
  proof (cases "P u")
    case False
    with Cons.prems have found: "find P ts = Some t" by simp
    then have "t \<in> set ts" by (auto simp: find_Some_iff)
    with Cons.prems have "ft_turn_id u \<noteq> ft_turn_id t" by auto
    with False Cons found show ?thesis by simp
  qed (use Cons.prems in auto)
qed simp

lemma find_turn_unique:
  assumes "t \<in> set (fth_turns th)" and "thread_wf th"
  shows "find_turn (ft_turn_id t) th = Some t"
proof -
  have "find (\<lambda>u. ft_turn_id u = ft_turn_id t) ts = Some t" if "t \<in> set ts" "distinct (map ft_turn_id ts)" for ts
    using that by (induction ts) auto
  with assms show ?thesis by (simp add: find_turn_def thread_wf_def)
qed


section \<open>Normalised policies\<close>

lemma normalized_models_idem: "normalized_models (normalized_models vs) = normalized_models vs"
proof -
  let ?ws = "filter (\<lambda>v. v \<noteq> []) (map trim vs)"
  have "map trim (normalized_models vs) = normalized_models vs"
    by (rule map_idI) (auto simp: normalized_models_def trim_trimmed trimmed_trim)
  moreover have "filter (\<lambda>v. v \<noteq> []) (normalized_models vs) = normalized_models vs"
    by (simp add: normalized_models_def filter_id_conv)
  moreover have "sorted (normalized_models vs)" by (simp add: normalized_models_def)
  moreover have "remdups_adj (normalized_models vs) = normalized_models vs"
    by (simp add: normalized_models_def flip: distinct_adj_altdef)
  ultimately show ?thesis
    by (simp add: normalized_models_def [of "normalized_models vs"] sorted_sort_id)
qed

lemma normalized_idem: "TurnRoutePolicy_normalized (TurnRoutePolicy_normalized p) = TurnRoutePolicy_normalized p"
proof -
  have opt: "normalized_optional (normalized_optional v) = normalized_optional v" for v
    by (cases v) (simp_all add: normalized_optional_def trim_trimmed trimmed_trim)
  have zero: "map_option normalized_zero (map_option normalized_zero v) = map_option normalized_zero v" for v
    by (cases v) (simp_all add: normalized_zero_def)
  have lower: "to_ascii_lowercase (trim (to_ascii_lowercase (trim s))) = to_ascii_lowercase (trim s)" for s
    by (simp add: trimmed_trim trimmed_lower trim_trimmed) (simp add: to_ascii_lowercase_def ascii_lower_idem)
  show ?thesis
    by (simp add: TurnRoutePolicy_normalized_def opt zero lower normalized_models_idem)
qed


definition comparable :: "TurnRoutePolicy \<Rightarrow> bool" where
  "comparable p \<longleftrightarrow> (\<forall>x \<in> set_option (trp_maximum_marginal_cost_usd p) \<union> set_option (trp_turn_budget_usd p). \<not> f64_nan x)"

lemma normalized_policy_eq: "comparable p \<Longrightarrow> policy_eq (TurnRoutePolicy_normalized p) (TurnRoutePolicy_normalized p)"
proof -
  assume "comparable p"
  moreover have "f64_eq x x" if "\<not> f64_nan x" for x using that by (simp add: f64_eq_def)
  ultimately show ?thesis
    by (auto simp: comparable_def policy_eq_def TurnRoutePolicy_normalized_def normalized_zero_def
        option.rel_map intro: option.rel_refl_strong)
qed

section \<open>Submitting a turn\<close>

text \<open>The turn a submission returned, as later submissions of the same request find it.\<close>

definition answers :: "session_lib \<Rightarrow> MaterializedJournal \<Rightarrow> string \<Rightarrow> StartTurnRequest \<Rightarrow> TurnSubmission \<Rightarrow> bool" where
  "answers S m thread_id request sub \<longleftrightarrow>
     tsb_thread_id sub = thread_id \<and>
     (\<exists>turn. turn_of_request m thread_id (sq_client_request_id request) = Some turn \<and>
        validate_retry_binding S turn (prompt_fingerprint S (sq_prompt request))
          (TurnRoutePolicy_normalized (sq_route_policy request)) (sq_work_id request) = Inr () \<and>
        ft_user_message_cursor turn = Some (tsb_cursor sub) \<and> ft_turn_id turn = tsb_turn_id sub \<and>
        ft_work_id turn = tsb_work_id sub)"

lemma resubmit_answers:
  assumes "answers S m thread_id request sub"
  shows "\<exists>turn. turn_of_request m thread_id (sq_client_request_id request) = Some turn \<and>
    resubmit_turn S J E thread_id request turn sv = (Inr (sub\<lparr>tsb_duplicate := True\<rparr>), sv)"
  using assms by (fastforce simp: answers_def resubmit_turn_def)

lemma turn_of_request_core [simp]: "turn_of_request (core m) = turn_of_request m"
  by (intro ext) (simp add: turn_of_request_def)

lemma message_recorded:
  assumes "session_ok m" and "turn_of_request m k c = Some turn" and "ft_status turn = ''open''"
    and "\<not> ft_cancel_requested turn" and row: "ce_event row = message_event E i k (ft_turn_id turn) now w request"
    and "se_uuid E i \<notin> mj_seen_event_ids m"
  shows "turn_of_request (fst (sync_row S m row)) k c =
    Some (turn\<lparr>ft_prompt := Some (sq_prompt request), ft_user_message_cursor := Some (ce_cursor row)\<rparr>)"
proof -
  let ?turn = "turn\<lparr>ft_prompt := Some (sq_prompt request), ft_user_message_cursor := Some (ce_cursor row)\<rparr>"
  obtain th where th: "bt_get (mj_threads m) k = Some th"
    and turn: "find (\<lambda>t. ft_client_request_id t = Some c) (fth_turns th) = Some turn"
    using assms(2) by (auto simp: turn_of_request_def bind_eq_Some_conv)
  have wf: "thread_wf th" using assms(1) th by (auto simp: session_ok_def)
  have "turn \<in> set (fth_turns th)" "ft_client_request_id turn = Some c" using turn by (auto simp: find_Some_iff)
  note mine = find_turn_unique [OF this(1) wf] this(2)
  let ?th = "th\<lparr>fth_turns := update_first (\<lambda>t. ft_turn_id t = ft_turn_id turn) ?turn (fth_turns th)\<rparr>"
  have applied: "apply_to_existing_thread S th (ce_event row) (ce_cursor row) = Some ?th"
    using mine(1) assms(3,4)
    by (simp add: row message_event_def new_event_def apply_to_existing_thread_def apply_user_message_def on_turn_def
        is_turn_terminal_def payload_str_def json_get_def user_message_payload_def)
  have "bt_get (mj_threads (fst (sync_row S m row))) k = Some (?th\<lparr>fth_last_order := mj_order m + 1\<rparr>)"
    using sync_row_existing(1) [OF _ _ _ applied, of m] th assms(6)
    by (simp add: row message_event_def new_event_def thread_kind_def)
  moreover have "find (\<lambda>t. ft_client_request_id t = Some c)
      (update_first (\<lambda>t. ft_turn_id t = ft_turn_id turn) ?turn (fth_turns th)) = Some ?turn"
    by (rule find_update_first [OF turn]) (use wf mine in \<open>simp_all add: thread_wf_def\<close>)
  ultimately show ?thesis by (simp add: turn_of_request_def)
qed

text \<open>What later rows leave of the turn: all that a repeated submission looks at. Only another message of
  the same turn changes it.\<close>

definition same_binding :: "FoldedTurn \<Rightarrow> FoldedTurn \<Rightarrow> bool" where
  "same_binding t t' \<longleftrightarrow> ft_turn_id t' = ft_turn_id t \<and> ft_client_request_id t' = ft_client_request_id t \<and>
     ft_work_id t' = ft_work_id t \<and> ft_prompt_fingerprint t' = ft_prompt_fingerprint t \<and> ft_prompt t' = ft_prompt t \<and>
     ft_route_policy t' = ft_route_policy t \<and> ft_user_message_cursor t' = ft_user_message_cursor t"

definition message_of :: "string \<Rightarrow> string \<Rightarrow> OperatorEvent \<Rightarrow> bool" where
  "message_of thread_id turn_id event \<longleftrightarrow>
     ev_event_type event = UserMessage \<and> ev_thread_id event = thread_id \<and> ev_turn_id event = Some turn_id"

lemma same_binding_refl [simp]: "same_binding t t"
  by (simp add: same_binding_def)

lemma update_first_binding:
  assumes "find (\<lambda>t. ft_turn_id t = turn_id) ts = Some u" and "same_binding u u'"
  shows "list_all2 same_binding ts (update_first (\<lambda>t. ft_turn_id t = turn_id) u' ts)"
  using assms by (induction ts) (auto simp: list_all2_same split: if_splits)

lemma on_turn_binding:
  assumes "on_turn change entry event = Some entry'" and "\<And>t t'. change t = Some t' \<Longrightarrow> same_binding t t'"
  shows "list_all2 same_binding (fth_turns entry) (fth_turns entry')"
proof -
  obtain turn_id u u' where "find_turn turn_id entry = Some u" "change u = Some u'"
    and "entry' = entry\<lparr>fth_turns := update_first (\<lambda>t. ft_turn_id t = turn_id) u' (fth_turns entry)\<rparr>"
    using assms(1) by (auto simp: on_turn_def split: option.splits)
  then show ?thesis using assms(2) by (auto simp: find_turn_def intro: update_first_binding)
qed

lemma handlers_binding:
  "apply_turn_cancel_requested entry event = Some entry' \<Longrightarrow> list_all2 same_binding (fth_turns entry) (fth_turns entry')"
  "apply_tool_started entry event = Some entry' \<Longrightarrow> list_all2 same_binding (fth_turns entry) (fth_turns entry')"
  "apply_tool_completed entry event = Some entry' \<Longrightarrow> list_all2 same_binding (fth_turns entry) (fth_turns entry')"
  "apply_approval_requested entry event = Some entry' \<Longrightarrow> list_all2 same_binding (fth_turns entry) (fth_turns entry')"
  "apply_approval_decided entry event = Some entry' \<Longrightarrow> list_all2 same_binding (fth_turns entry) (fth_turns entry')"
  unfolding apply_turn_cancel_requested_def apply_tool_started_def apply_tool_completed_def apply_approval_requested_def
    apply_approval_decided_def
  by (erule on_turn_binding; auto simp: same_binding_def split: if_splits option.splits)+

lemma closing_binding:
  "apply_terminal entry event status = Some entry' \<Longrightarrow> list_all2 same_binding (fth_turns entry) (fth_turns entry')"
  "apply_nonterminal_touch entry event = Some entry' \<Longrightarrow> list_all2 same_binding (fth_turns entry) (fth_turns entry')"
proof -
  show "list_all2 same_binding (fth_turns entry) (fth_turns entry')" if "apply_terminal entry event status = Some entry'"
  proof (cases "ev_turn_id event = None")
    case False
    with that have "on_turn (close_turn event status) entry event = Some entry'" by (simp add: apply_terminal_def)
    then show ?thesis by (rule on_turn_binding) (auto simp: close_turn_def same_binding_def split: if_splits)
  qed (use that in \<open>auto simp: apply_terminal_def list_all2_same split: if_splits\<close>)
  show "list_all2 same_binding (fth_turns entry) (fth_turns entry')" if "apply_nonterminal_touch entry event = Some entry'"
  proof (cases "ev_turn_id event = None")
    case False
    with that show ?thesis unfolding apply_nonterminal_touch_def
      by (simp, elim on_turn_binding) (auto split: if_splits)
  qed (use that in \<open>auto simp: apply_nonterminal_touch_def list_all2_same\<close>)
qed

lemma find_binding:
  "list_all2 same_binding ts us \<Longrightarrow> find (\<lambda>t. ft_client_request_id t = Some c) ts = Some t \<Longrightarrow>
     \<exists>u. find (\<lambda>t. ft_client_request_id t = Some c) us = Some u \<and> same_binding t u"
  by (induction rule: list_all2_induct) (auto simp: same_binding_def split: if_splits)

lemma find_update_other:
  assumes "find P ts = Some t" and "ft_turn_id t \<noteq> i" and "find (\<lambda>u. ft_turn_id u = i) ts = Some u" and "P u' = P u"
  shows "find P (update_first (\<lambda>u. ft_turn_id u = i) u' ts) = Some t"
  using assms by (induction ts) (auto split: if_splits)

lemma existing_turn_binding:
  assumes "apply_to_existing_thread S entry event cursor = Some entry'"
    and found: "find (\<lambda>t. ft_client_request_id t = Some c) (fth_turns entry) = Some t"
    and other: "ev_event_type event = UserMessage \<Longrightarrow> ev_turn_id event \<noteq> Some (ft_turn_id t)"
  shows "\<exists>u. find (\<lambda>t. ft_client_request_id t = Some c) (fth_turns entry') = Some u \<and> same_binding t u"
proof -
  consider (message) "ev_event_type event = UserMessage" | (started) "ev_event_type event = TurnStarted"
    | (rest) "ev_event_type event \<notin> {UserMessage, TurnStarted}" by blast
  then show ?thesis
  proof cases
    case message
    then obtain i u where i: "ev_turn_id event = Some i" "find_turn i entry = Some u"
      and entry': "fth_turns entry' = update_first (\<lambda>t. ft_turn_id t = i)
        (u\<lparr>ft_prompt := payload_str event ''text'', ft_user_message_cursor := Some cursor\<rparr>) (fth_turns entry)"
      using assms(1) by (auto simp: apply_to_existing_thread_def apply_user_message_def on_turn_def split: option.splits if_splits)
    have "find (\<lambda>t. ft_client_request_id t = Some c) (fth_turns entry') = Some t"
      unfolding entry' by (rule find_update_other [OF found]) (use i other [OF message] in \<open>auto simp: find_turn_def\<close>)
    then show ?thesis by auto
  next
    case started
    then obtain new where "fth_turns entry' = fth_turns entry @ [new]"
      using assms(1) by (auto simp: apply_to_existing_thread_def apply_turn_started_def split: option.splits if_splits)
    moreover have "find P (xs @ ys) = Some t" if "find P xs = Some t" for P and xs ys :: "FoldedTurn list"
      using that by (induction xs) auto
    ultimately show ?thesis using found by auto
  next
    case rest
    have "list_all2 same_binding (fth_turns entry) (fth_turns entry')"
      using assms(1) rest unfolding apply_to_existing_thread_def
      by (cases "ev_event_type event")
        (simp_all, auto simp: apply_thread_metadata_def list_all2_same dest: handlers_binding closing_binding)
    then show ?thesis using found by (rule find_binding)
  qed
qed

lemma sync_row_binding:
  assumes "turn_of_request m k c = Some t" and "\<not> message_of k (ft_turn_id t) (ce_event row)"
  shows "\<exists>u. turn_of_request (fst (sync_row S m row)) k c = Some u \<and> same_binding t u"
proof -
  let ?e = "ce_event row"
  obtain th where th: "bt_get (mj_threads m) k = Some th" "find (\<lambda>t. ft_client_request_id t = Some c) (fth_turns th) = Some t"
    using assms(1) by (auto simp: turn_of_request_def bind_eq_Some_conv)
  show ?thesis
  proof (cases "thread_kind ?e \<and> ev_event_id ?e \<notin> mj_seen_event_ids m")
    case False
    then have "mj_threads (fst (sync_row S m row)) = mj_threads m"
      unfolding sync_row_threads apply_event_def thread_kind_def
      by (cases "ev_event_type ?e") (auto simp: Let_def apply_project_threads)
    then show ?thesis using assms(1) by (simp add: turn_of_request_def)
  next
    case True
    then have threads: "mj_threads (fst (sync_row S m row)) = mj_threads (fst (apply_thread_event S m row (mj_order m + 1)))"
      by (simp add: sync_row_thread)
    show ?thesis
    proof (cases "ev_thread_id ?e = k")
      case False
      then have "bt_get (mj_threads (fst (sync_row S m row))) k = bt_get (mj_threads m) k"
        unfolding threads by (auto simp: apply_thread_event_def Let_def split: option.split)
      then show ?thesis using assms(1) by (simp add: turn_of_request_def)
    next
      case mine: True
      show ?thesis
      proof (cases "apply_to_existing_thread S th ?e (ce_cursor row)")
        case None
        then have "bt_get (mj_threads (fst (sync_row S m row))) k = Some (th\<lparr>fth_skipped_events := fth_skipped_events th + 1\<rparr>)"
          unfolding threads using th(1) mine by (simp add: apply_thread_event_def Let_def)
        then show ?thesis using th(2) by (simp add: turn_of_request_def)
      next
        case (Some th')
        then have "bt_get (mj_threads (fst (sync_row S m row))) k = Some (th'\<lparr>fth_last_order := mj_order m + 1\<rparr>)"
          unfolding threads using th(1) mine by (simp add: apply_thread_event_def Let_def)
        then show ?thesis
          using existing_turn_binding [OF Some th(2)] assms(2) mine by (auto simp: turn_of_request_def message_of_def)
      qed
    qed
  qed
qed

lemma answers_stay:
  assumes "answers S m k request sub" and "\<forall>row\<in>set rows. \<not> message_of k (tsb_turn_id sub) (ce_event row)"
  shows "answers S (replay S m rows) k request sub"
  using assms
proof (induction rows arbitrary: m)
  case Nil
  then show ?case by (simp add: replay_def)
next
  case (Cons row rows)
  obtain t where t: "turn_of_request m k (sq_client_request_id request) = Some t" "ft_turn_id t = tsb_turn_id sub"
    using Cons.prems(1) by (auto simp: answers_def)
  obtain u where u: "turn_of_request (fst (sync_row S m row)) k (sq_client_request_id request) = Some u" "same_binding t u"
    using sync_row_binding [OF t(1), of row S] Cons.prems(2) t(2) by auto
  have fields: "ft_turn_id u = ft_turn_id t" "ft_prompt_fingerprint u = ft_prompt_fingerprint t" "ft_prompt u = ft_prompt t"
    "ft_route_policy u = ft_route_policy t" "ft_work_id u = ft_work_id t" using u(2) by (simp_all add: same_binding_def)
  have "validate_retry_binding S u = validate_retry_binding S t"
    by (intro ext) (unfold validate_retry_binding_def stored_fingerprint_def fields, rule refl)
  then have "answers S (fst (sync_row S m row)) k request sub"
    using Cons.prems(1) t(1) u by (simp add: answers_def same_binding_def)
  then show ?case using Cons.IH Cons.prems(2) by (simp add: replay_def)
qed

lemma started_payload [simp]:
  "payload_str (turn_started_event S E k request) ''client_request_id'' = Some (sq_client_request_id request)"
  "payload_str (turn_started_event S E k request) ''prompt_fingerprint'' = Some (prompt_fingerprint S (sq_prompt request))"
  "json_get (ev_payload (turn_started_event S E k request)) ''route_policy'' =
     Some (sl_policy_to_value S (TurnRoutePolicy_normalized (sq_route_policy request)))"
  by (simp_all add: turn_started_event_def turn_started_payload_def new_event_def payload_str_def json_get_def)

lemma started_fields [simp]:
  "ev_turn_id (turn_started_event S E k request) = Some (deterministic_turn_id S k (sq_client_request_id request))"
  "ev_work_id (turn_started_event S E k request) = sq_work_id request"
  "ev_thread_id (turn_started_event S E k request) = k" "ev_event_id (turn_started_event S E k request) = se_uuid E 1"
  "ev_event_type (turn_started_event S E k request) = TurnStarted" "thread_kind (turn_started_event S E k request)"
  by (simp_all add: turn_started_event_def new_event_def thread_kind_def)

lemma turn_recorded:
  assumes "bt_get (mj_threads m) k = Some th"
    and "turn_of_request m k (sq_client_request_id request) = None"
    and "deterministic_turn_id S k (sq_client_request_id request) \<notin> ft_turn_id ` set (fth_turns th)"
    and row: "ce_event row = turn_started_event S E k request" and "se_uuid E 1 \<notin> mj_seen_event_ids m"
  shows "turn_of_request (fst (sync_row S m row)) k (sq_client_request_id request) =
    Some (opened_turn S (deterministic_turn_id S k (sq_client_request_id request)) (ce_event row))"
proof -
  let ?c = "sq_client_request_id request"
  let ?turn = "opened_turn S (deterministic_turn_id S k ?c) (ce_event row)"
  have fresh: "find (\<lambda>t. ft_client_request_id t = Some ?c) (fth_turns th) = None"
    using assms(1,2) by (simp add: turn_of_request_def)
  then have "\<not> list_ex (\<lambda>t. ft_client_request_id t = Some ?c) (fth_turns th)"
    "\<not> list_ex (\<lambda>t. ft_turn_id t = deterministic_turn_id S k ?c) (fth_turns th)"
    using assms(3) by (force simp: list_ex_iff find_None_iff)+
  then have "apply_turn_started S th (ce_event row) = Some (th\<lparr>fth_turns := fth_turns th @ [?turn]\<rparr>)"
    by (simp add: apply_turn_started_def row)
  then have applied: "apply_to_existing_thread S th (ce_event row) (ce_cursor row) = Some (th\<lparr>fth_turns := fth_turns th @ [?turn]\<rparr>)"
    by (simp add: row apply_to_existing_thread_def)
  have "bt_get (mj_threads (fst (sync_row S m row))) k = Some (th\<lparr>fth_turns := fth_turns th @ [?turn], fth_last_order := mj_order m + 1\<rparr>)"
    using sync_row_existing(1) [OF _ _ _ applied, of m] assms(1,5) by (simp add: row)
  moreover have "find P (xs @ [x]) = Some x" if "find P xs = None" "P x" for P xs and x :: FoldedTurn
    using that by (induction xs) (auto split: if_splits)
  ultimately show ?thesis using fresh by (simp add: turn_of_request_def opened_turn_def row)
qed


lemma thread_recorded:
  assumes "bt_get (mj_threads m) k = None" and row: "ce_event row = thread_created_event E k"
    and "se_uuid E 0 \<notin> mj_seen_event_ids m"
  shows "\<exists>th. bt_get (mj_threads (fst (sync_row S m row))) k = Some th \<and> fth_turns th = []"
proof -
  obtain th where "new_thread S (ce_event row) = Some th" "fth_turns th = []"
    by (simp add: row thread_created_event_def new_event_def new_thread_def FoldedThread_new_def Let_def)
  then show ?thesis using sync_row_new [of row m S th] assms(1,3)
    by (simp add: row thread_created_event_def new_event_def thread_kind_def)
qed

lemma submission_SomeD:
  assumes "submission k t w d appended = (Inr sub, sv')"
  obtains row where "appended = (Inr row, sv')"
    "sub = \<lparr>tsb_thread_id = k, tsb_turn_id = t, tsb_work_id = w, tsb_cursor = ce_cursor row, tsb_duplicate = d\<rparr>"
  using assms by (auto simp: submission_def split: prod.splits sum.splits)

text \<open>What the caller of a submission provides: events of its payloads can be read back, its UUIDs
  are new, the version 5 id is not the id of another request's turn, and the policy can be read back
  and compared.\<close>

definition submission_payloads :: "session_lib \<Rightarrow> StartTurnRequest \<Rightarrow> json set" where
  "submission_payloads S request = {JObject [], turn_started_payload S request, user_message_payload request}"

definition fresh_uuids :: "session_env \<Rightarrow> CursorEvent list \<Rightarrow> bool" where
  "fresh_uuids E rows \<longleftrightarrow> distinct [se_uuid E 0, se_uuid E 1, se_uuid E 2] \<and>
     set [se_uuid E 0, se_uuid E 1, se_uuid E 2] \<inter> (\<lambda>row. ev_event_id (ce_event row)) ` set rows = {}"

definition own_turn_id :: "session_lib \<Rightarrow> MaterializedJournal \<Rightarrow> string \<Rightarrow> string \<Rightarrow> bool" where
  "own_turn_id S m k c \<longleftrightarrow> (\<forall>th. bt_get (mj_threads m) k = Some th \<longrightarrow>
     (\<forall>t \<in> set (fth_turns th). ft_turn_id t = deterministic_turn_id S k c \<longrightarrow> ft_client_request_id t = Some c))"

definition policy_reads_back :: "session_lib \<Rightarrow> TurnRoutePolicy \<Rightarrow> bool" where
  "policy_reads_back S p \<longleftrightarrow> comparable p \<and>
     sl_policy_of_value S (sl_policy_to_value S (TurnRoutePolicy_normalized p)) = Some (TurnRoutePolicy_normalized p)"

lemma opened_turn_bound:
  assumes "policy_reads_back S (sq_route_policy request)" and "ce_event row = turn_started_event S E k request"
  shows "validate_retry_binding S ((opened_turn S t (ce_event row))\<lparr>ft_prompt := p, ft_user_message_cursor := c\<rparr>)
    (prompt_fingerprint S (sq_prompt request)) (TurnRoutePolicy_normalized (sq_route_policy request)) (sq_work_id request) = Inr ()"
  using assms normalized_policy_eq [of "sq_route_policy request"]
  by (simp add: validate_retry_binding_def stored_fingerprint_def opened_turn_def policy_reads_back_def normalized_idem Let_def)

context event_log
begin

lemma open_turn_answers:
  assumes sv: "service_ok S sv" "core m = state S (sv_journal sv)"
    and fresh: "fresh_uuids E (rows (sv_journal sv))" and own: "own_turn_id S m k (sq_client_request_id request)"
    and policy: "policy_reads_back S (sq_route_policy request)"
    and good: "\<And>event. ev_payload event \<in> submission_payloads S request \<Longrightarrow> good event"
    and new: "turn_of_request m k (sq_client_request_id request) = None"
    and ran: "open_turn S J E k request (bt_get (mj_threads m) k \<noteq> None) sv = (Inr sub, sv')"
  shows "service_ok S sv'" and "answers S (state S (sv_journal sv')) k request sub"
    and "room (sv_journal sv') \<Longrightarrow> room (sv_journal sv)"
proof -
  let ?c = "sq_client_request_id request" and ?m0 = "state S (sv_journal sv)"
  let ?tid = "deterministic_turn_id S k ?c"
  have good_events: "good (thread_created_event E k)" "good (turn_started_event S E k request)"
    "good (message_event E i k t now w request)" for i t now w
    by (rule good, simp add: submission_payloads_def thread_created_event_def turn_started_event_def message_event_def new_event_def)+
  have m0: "mj_threads ?m0 = mj_threads m" "turn_of_request ?m0 k ?c = None"
    using sv(2) new by (metis core_fields(4), metis turn_of_request_core)
  have seen0: "mj_seen_event_ids ?m0 = (\<lambda>row. ev_event_id (ce_event row)) ` set (rows (sv_journal sv))"
    by (simp add: replay_seen MaterializedJournal_default_def)
  have ok0: "session_ok ?m0" by (rule replay_ok [OF session_ok_default])
  obtain sv1 rs1 th where sv1: "service_ok S sv1" "rows (sv_journal sv1) = rows (sv_journal sv) @ rs1"
      "room (sv_journal sv1) \<Longrightarrow> room (sv_journal sv)"
    and th: "bt_get (mj_threads (state S (sv_journal sv1))) k = Some th" "?tid \<notin> ft_turn_id ` set (fth_turns th)"
      "turn_of_request (state S (sv_journal sv1)) k ?c = None"
    and seen1: "mj_seen_event_ids (state S (sv_journal sv1)) \<subseteq> insert (se_uuid E 0) (mj_seen_event_ids ?m0)"
    and rest: "(case journal_append J E 1 (turn_started_event S E k request) sv1 of
        (Inl err, sv2) \<Rightarrow> (Inl (RuntimeFailure err), sv2)
      | (Inr _, sv2) \<Rightarrow> submission k ?tid (sq_work_id request) False
          (journal_append J E 2 (message_event E 2 k ?tid (se_now E 0) (sq_work_id request) request) sv2)) = (Inr sub, sv')"
  proof (cases "bt_get (mj_threads m) k")
    case (Some th)
    then have "?tid \<notin> ft_turn_id ` set (fth_turns th)"
      using own new by (auto simp: own_turn_id_def turn_of_request_def find_None_iff)
    with Some ran m0 sv show thesis
      by (intro that [of sv "[]" th]) (auto simp: open_turn_def Let_def)
  next
    case None
    from ran None obtain row sv1 where row: "journal_append J E 0 (thread_created_event E k) sv = (Inr row, sv1)"
      by (cases "journal_append J E 0 (thread_created_event E k) sv")
        (auto simp: open_turn_def Let_def split: sum.splits prod.splits)
    note added = journal_append_ok [OF sv(1) good_events(1) row]
    have "se_uuid E 0 \<notin> mj_seen_event_ids ?m0" using fresh unfolding seen0 fresh_uuids_def by auto
    with thread_recorded [of ?m0 k row E S] None m0(1) added(3)
    obtain th where "bt_get (mj_threads (fst (sync_row S ?m0 row))) k = Some th" "fth_turns th = []" by auto
    moreover have "ev_event_id (ce_event row) = se_uuid E 0" by (simp add: added(3) thread_created_event_def new_event_def)
    ultimately show thesis using None ran row added(1,2,4)
      by (intro that [of sv1 "[row]" th]) (auto simp: open_turn_def Let_def turn_of_request_def sync_row_seen)
  qed
  from rest obtain row2 sv2 where row2: "journal_append J E 1 (turn_started_event S E k request) sv1 = (Inr row2, sv2)"
    and last: "submission k ?tid (sq_work_id request) False
      (journal_append J E 2 (message_event E 2 k ?tid (se_now E 0) (sq_work_id request) request) sv2) = (Inr sub, sv')"
    by (auto split: sum.splits prod.splits)
  note added2 = journal_append_ok [OF sv1(1) good_events(2) row2]
  from last obtain row3 where row3: "journal_append J E 2 (message_event E 2 k ?tid (se_now E 0) (sq_work_id request) request) sv2 = (Inr row3, sv')"
    and sub: "sub = \<lparr>tsb_thread_id = k, tsb_turn_id = ?tid, tsb_work_id = sq_work_id request,
      tsb_cursor = ce_cursor row3, tsb_duplicate = False\<rparr>" by (rule submission_SomeD)
  note added3 = journal_append_ok [OF added2(1) good_events(3) row3]
  let ?m1 = "state S (sv_journal sv1)" and ?m2 = "state S (sv_journal sv2)"
  have ids: "se_uuid E 1 \<notin> mj_seen_event_ids ?m1" using fresh seen1 unfolding seen0 fresh_uuids_def by auto
  let ?turn = "opened_turn S ?tid (ce_event row2)"
  have m2: "?m2 = fst (sync_row S ?m1 row2)" by (simp add: added2(2))
  have turn2: "turn_of_request ?m2 k ?c = Some ?turn"
    unfolding m2 by (rule turn_recorded [OF th(1,3,2) added2(3) ids])
  have "mj_seen_event_ids ?m2 \<subseteq> {se_uuid E 0, se_uuid E 1} \<union> mj_seen_event_ids ?m0"
    using seen1 unfolding m2 sync_row_seen by (auto simp: added2(3))
  then have id2: "se_uuid E 2 \<notin> mj_seen_event_ids ?m2" using fresh unfolding seen0 fresh_uuids_def by auto
  have "ft_turn_id ?turn = ?tid" "ft_status ?turn = ''open''" "\<not> ft_cancel_requested ?turn"
    by (simp_all add: opened_turn_def)
  then have turn3: "turn_of_request (state S (sv_journal sv')) k ?c =
      Some (?turn\<lparr>ft_prompt := Some (sq_prompt request), ft_user_message_cursor := Some (ce_cursor row3)\<rparr>)"
    using message_recorded [OF replay_ok [OF session_ok_default] turn2 _ _ _ id2, of row3] added3(2,3) by simp
  show "answers S (state S (sv_journal sv')) k request sub"
    using turn3 opened_turn_bound [OF policy added2(3)]
    by (simp add: answers_def sub added2(3)) (simp add: opened_turn_def)
  show "service_ok S sv'" by (rule added3(1))
  show "room (sv_journal sv') \<Longrightarrow> room (sv_journal sv)" using added2(4) added3(4) sv1(3) by blast
qed


lemma resubmit_turn_answers:
  assumes sv: "service_ok S sv" "core m = state S (sv_journal sv)"
    and fresh: "fresh_uuids E (rows (sv_journal sv))"
    and good: "\<And>event. ev_payload event \<in> submission_payloads S request \<Longrightarrow> good event"
    and turn: "turn_of_request m k (sq_client_request_id request) = Some turn"
    and ran: "resubmit_turn S J E k request turn sv = (Inr sub, sv')"
  shows "service_ok S sv' \<and> answers S (state S (sv_journal sv')) k request sub"
proof -
  let ?c = "sq_client_request_id request" and ?m0 = "state S (sv_journal sv)"
  have turn0: "turn_of_request ?m0 k ?c = Some turn" using turn sv(2) by (metis turn_of_request_core)
  have bound: "validate_retry_binding S turn (prompt_fingerprint S (sq_prompt request))
      (TurnRoutePolicy_normalized (sq_route_policy request)) (sq_work_id request) = Inr ()"
    using ran by (auto simp: resubmit_turn_def split: sum.splits)
  show ?thesis
  proof (cases "ft_user_message_cursor turn")
    case (Some cursor)
    then have "sv' = sv" "sub = \<lparr>tsb_thread_id = k, tsb_turn_id = ft_turn_id turn, tsb_work_id = ft_work_id turn,
        tsb_cursor = cursor, tsb_duplicate = True\<rparr>"
      using ran bound by (simp_all add: resubmit_turn_def)
    with sv(1) turn0 bound Some show ?thesis by (simp add: answers_def)
  next
    case None
    then have live: "ft_status turn = ''open''" "\<not> ft_cancel_requested turn"
      and last: "submission k (ft_turn_id turn) (ft_work_id turn) True (journal_append J E 0
        (message_event E 0 k (ft_turn_id turn) (se_now E 0) (ft_work_id turn) request) sv) = (Inr sub, sv')"
      using ran bound by (auto simp: resubmit_turn_def split: if_splits)
    from last obtain row where row: "journal_append J E 0
        (message_event E 0 k (ft_turn_id turn) (se_now E 0) (ft_work_id turn) request) sv = (Inr row, sv')"
      and sub: "sub = \<lparr>tsb_thread_id = k, tsb_turn_id = ft_turn_id turn, tsb_work_id = ft_work_id turn,
        tsb_cursor = ce_cursor row, tsb_duplicate = True\<rparr>" by (rule submission_SomeD)
    have "good (message_event E 0 k (ft_turn_id turn) (se_now E 0) (ft_work_id turn) request)"
      by (rule good) (simp add: submission_payloads_def message_event_def new_event_def)
    note added = journal_append_ok [OF sv(1) this row]
    let ?turn = "turn\<lparr>ft_prompt := Some (sq_prompt request), ft_user_message_cursor := Some (ce_cursor row)\<rparr>"
    have "se_uuid E 0 \<notin> mj_seen_event_ids ?m0"
      using fresh by (auto simp: replay_seen MaterializedJournal_default_def fresh_uuids_def)
    from message_recorded [OF replay_ok [OF session_ok_default] turn0 live added(3) this]
    have turn1: "turn_of_request (state S (sv_journal sv')) k ?c = Some ?turn" by (simp add: added(2))
    have "validate_retry_binding S ?turn (prompt_fingerprint S (sq_prompt request))
      (TurnRoutePolicy_normalized (sq_route_policy request)) (sq_work_id request) = Inr ()"
      using bound by (auto simp: validate_retry_binding_def stored_fingerprint_def Let_def split: option.splits if_splits)
    with turn1 added(1) show ?thesis by (simp add: answers_def sub)
  qed
qed

lemma start_turn_answers:
  assumes "service_ok S sv" and "room (sv_journal sv)"
    and "fresh_uuids E (rows (sv_journal sv))" and own: "own_turn_id S (state S (sv_journal sv)) k (sq_client_request_id request)"
    and "policy_reads_back S (sq_route_policy request)"
    and good: "\<And>event. ev_payload event \<in> submission_payloads S request \<Longrightarrow> good event"
    and ran: "start_turn S J E k request sv = Some (Inr sub, sv')"
  shows "screen_payloads S request = None \<and> service_ok S sv' \<and> answers S (state S (sv_journal sv')) k request sub"
proof -
  have gate: "screen_payloads S request = None" "se_lock_granted E"
    using ran by (auto simp: start_turn_def lock_writer_transaction_def split: option.splits if_splits)
  obtain m where m: "core m = state S (sv_journal sv)" "service_ok S (sv\<lparr>sv_projection := m\<rparr>)"
    and sync: "sync_materialized S J (sv_journal sv) (sv_projection sv) = Some (Inr (), m)"
    by (rule materialized_ok [OF assms(1,2)])
  note step = materialized_step [OF sync]
  let ?sv = "sv\<lparr>sv_projection := m\<rparr>"
  have own': "own_turn_id S m k (sq_client_request_id request)"
    using own unfolding m(1) [symmetric] by (simp add: own_turn_id_def)
  have m': "core m = state S (sv_journal ?sv)" and fresh': "fresh_uuids E (rows (sv_journal ?sv))"
    using m(1) assms(3) by simp_all
  show ?thesis
  proof (cases "turn_of_request m k (sq_client_request_id request)")
    case (Some turn)
    then have "resubmit_turn S J E k request turn ?sv = (Inr sub, sv')"
      using ran gate by (simp add: start_turn_def lock_writer_transaction_def step)
    from resubmit_turn_answers [OF m(2) m' fresh' good Some this] gate(1) show ?thesis by blast
  next
    case None
    then have "open_turn S J E k request (bt_get (mj_threads m) k \<noteq> None) ?sv = (Inr sub, sv')"
      using ran gate by (simp add: start_turn_def lock_writer_transaction_def step split: option.splits if_splits)
    from open_turn_answers [OF m(2) m' fresh' own' assms(5) good None this] gate(1) show ?thesis by blast
  qed
qed

lemma start_turn_again:
  assumes "service_ok S sv" and "room (sv_journal sv)" and "answers S (state S (sv_journal sv)) k request sub"
    and "screen_payloads S request = None" and "se_lock_granted E"
  shows "\<exists>m. start_turn S J E k request sv = Some (Inr (sub\<lparr>tsb_duplicate := True\<rparr>), sv\<lparr>sv_projection := m\<rparr>)"
proof -
  obtain m where m: "core m = state S (sv_journal sv)" "service_ok S (sv\<lparr>sv_projection := m\<rparr>)"
    and sync: "sync_materialized S J (sv_journal sv) (sv_projection sv) = Some (Inr (), m)"
    by (rule materialized_ok [OF assms(1,2)])
  note step = materialized_step [OF sync]
  from assms(3) have "answers S m k request sub" unfolding m(1) [symmetric] by (simp add: answers_def)
  from resubmit_answers [OF this, of J E "sv\<lparr>sv_projection := m\<rparr>"] assms(4,5) show ?thesis
    by (auto simp: start_turn_def lock_writer_transaction_def step)
qed

end


section \<open>Recovering from a restart\<close>

text \<open>The turns that have not ended, with their threads.\<close>

definition open_set :: "MaterializedJournal \<Rightarrow> (string \<times> FoldedTurn) set" where
  "open_set m = {(k, t). \<exists>th. bt_get (mj_threads m) k = Some th \<and> t \<in> set (fth_turns th) \<and> \<not> is_turn_terminal (ft_status t)}"

lemma open_set_core [simp]: "open_set (core m) = open_set m"
  by (simp add: open_set_def)

text \<open>An iteration order lists every entry of a map once.\<close>

definition iterates :: "('k, 'v) iteration \<Rightarrow> bool" where
  "iterates iter \<longleftrightarrow> (\<forall>m. mset (iter m) = mset m)"

lemma distinct_tagged:
  assumes "distinct (map fst xs)" and "\<And>k v. (k, v) \<in> set xs \<Longrightarrow> distinct (f v)"
  shows "distinct (concat (map (\<lambda>(k, v). map (Pair k) (f v)) xs))"
  using assms
proof (induction xs)
  case (Cons x xs)
  have "distinct (concat (map (\<lambda>(k, v). map (Pair k) (f v)) xs))"
    by (rule Cons.IH) (use Cons.prems in \<open>auto\<close>)
  moreover have "distinct (f (snd x))" using Cons.prems(2) [of "fst x" "snd x"] by simp
  moreover have "fst x \<notin> fst ` set xs" using Cons.prems(1) by simp
  moreover have "k \<in> fst ` set xs" if "(k, u) \<in> set (concat (map (\<lambda>(k, v). map (Pair k) (f v)) xs))" for k u
    using that by (auto intro: rev_image_eqI)
  ultimately have "set (map (Pair (fst x)) (f (snd x))) \<inter> set (concat (map (\<lambda>(k, v). map (Pair k) (f v)) xs)) = {}"
    "distinct (map (Pair (fst x)) (f (snd x)))" "distinct (concat (map (\<lambda>(k, v). map (Pair k) (f v)) xs))"
    by (force, simp add: distinct_map inj_on_def, simp)
  then show ?case by (cases x) simp
qed simp

lemma open_turns_spec:
  assumes "session_ok m" and "iterates iter"
  shows "set (open_turns iter m) = open_set m" and "distinct (open_turns iter m)"
proof -
  let ?es = "iter (mj_threads m)"
  have perm: "mset ?es = mset (mj_threads m)" using assms(2) by (simp add: iterates_def)
  then have same: "set ?es = set (mj_threads m)" by (rule mset_eq_setD)
  have keys: "distinct (map fst (mj_threads m))"
    using assms(1) by (intro bt_inv_distinct) (simp add: session_ok_def)
  have get: "(bt_get (mj_threads m) k = Some th) = ((k, th) \<in> set ?es)" for k th
    unfolding same using keys by simp
  have "(k, t) \<in> set (open_turns iter m) \<longleftrightarrow>
      (\<exists>th. (k, th) \<in> set ?es \<and> t \<in> set (fth_turns th) \<and> \<not> is_turn_terminal (ft_status t))" for k t
    unfolding open_turns_def by auto
  then show "set (open_turns iter m) = open_set m" unfolding open_set_def get by auto
  have "mset (map fst ?es) = mset (map fst (mj_threads m))" using perm by simp
  then have "distinct (map fst ?es)" using keys mset_eq_imp_distinct_iff by blast
  moreover have "distinct (fth_turns th)" if entry: "(k, th) \<in> set ?es" for k th
    using entry [folded get] assms(1) by (auto simp: session_ok_def thread_wf_def distinct_map)
  ultimately show "distinct (open_turns iter m)"
    unfolding open_turns_def by (intro distinct_tagged) (auto intro: distinct_filter)
qed

lemma set_update_first:
  assumes "t \<in> set ts" and "distinct (map ft_turn_id ts)"
  shows "set (update_first (\<lambda>u. ft_turn_id u = ft_turn_id t) t' ts) = insert t' (set ts - {t})"
  using assms
proof (induction ts)
  case (Cons u ts)
  show ?case
  proof (cases "u = t")
    case True
    then have "t \<notin> set ts" using Cons.prems(2) by force
    with True show ?thesis by auto
  next
    case False
    then have "t \<in> set ts" using Cons.prems(1) by simp
    moreover from this have "ft_turn_id u \<noteq> ft_turn_id t" using Cons.prems(2) by force
    ultimately show ?thesis using Cons False by auto
  qed
qed simp

lemma interruption_fields [simp]:
  "ev_thread_id (interruption E i actor k t) = k" "ev_event_id (interruption E i actor k t) = se_uuid E i"
  "ev_event_type (interruption E i actor k t) = TurnInterrupted" "ev_turn_id (interruption E i actor k t) = Some (ft_turn_id t)"
  "thread_kind (interruption E i actor k t)" "ev_payload (interruption E i actor k t) = restart_reason t"
  by (simp_all add: interruption_def new_event_def thread_kind_def)

lemma interruption_recorded:
  assumes "session_ok m" and "(k, t) \<in> open_set m" and row: "ce_event row = interruption E i actor k t"
    and "se_uuid E i \<notin> mj_seen_event_ids m"
  shows "open_set (fst (sync_row S m row)) = open_set m - {(k, t)}"
proof -
  obtain th where th: "bt_get (mj_threads m) k = Some th" "t \<in> set (fth_turns th)" "\<not> is_turn_terminal (ft_status t)"
    using assms(2) by (auto simp: open_set_def)
  have wf: "thread_wf th" using assms(1) th by (auto simp: session_ok_def)
  let ?t = "t\<lparr>ft_status := ''interrupted''\<rparr>"
  let ?th = "th\<lparr>fth_turns := update_first (\<lambda>u. ft_turn_id u = ft_turn_id t) ?t (fth_turns th)\<rparr>"
  have "close_turn (ce_event row) ''interrupted'' t = Some ?t"
    using th(3) by (simp add: close_turn_def interruption_reason_def row payload_str_def restart_reason_def json_get_def)
  then have applied: "apply_to_existing_thread S th (ce_event row) (ce_cursor row) = Some ?th"
    using find_turn_unique [OF th(2) wf]
    by (simp add: row apply_to_existing_thread_def apply_terminal_def on_turn_def)
  note after = sync_row_existing [OF _ _ _ applied, of m] 
  have mine: "bt_get (mj_threads (fst (sync_row S m row))) k = Some (?th\<lparr>fth_last_order := mj_order m + 1\<rparr>)"
    and others: "\<And>k'. k' \<noteq> k \<Longrightarrow> bt_get (mj_threads (fst (sync_row S m row))) k' = bt_get (mj_threads m) k'"
    using after th(1) assms(4) by (simp_all add: row)
  have turns: "set (update_first (\<lambda>u. ft_turn_id u = ft_turn_id t) ?t (fth_turns th)) = insert ?t (set (fth_turns th) - {t})"
    by (rule set_update_first [OF th(2)]) (use wf in \<open>simp add: thread_wf_def\<close>)
  have "ft_status ?t \<noteq> ft_status t" using th(3) terminal_statuses(2) by auto
  then have changed: "?t \<noteq> t" by metis
  show ?thesis
  proof (intro set_eqI, clarify)
    fix k' u
    show "(k', u) \<in> open_set (fst (sync_row S m row)) \<longleftrightarrow> (k', u) \<in> open_set m - {(k, t)}"
    proof (cases "k' = k")
      case True
      then show ?thesis using mine turns th(1,3) terminal_statuses changed by (auto simp: open_set_def)
    qed (simp add: open_set_def others)
  qed
qed


text \<open>UUIDs an operation may draw in any number: all different, none in the journal.\<close>

definition unused_uuids :: "session_env \<Rightarrow> CursorEvent list \<Rightarrow> bool" where
  "unused_uuids E rows \<longleftrightarrow> inj (se_uuid E) \<and> range (se_uuid E) \<inter> (\<lambda>row. ev_event_id (ce_event row)) ` set rows = {}"

context event_log
begin

lemma close_turns_closes:
  assumes "service_ok S sv" and "set turns \<subseteq> open_set (state S (sv_journal sv))" and "distinct turns"
    and "inj (se_uuid E)" and "\<And>i. i \<ge> closed \<Longrightarrow> se_uuid E i \<notin> mj_seen_event_ids (state S (sv_journal sv))"
    and good: "\<And>event turn. ev_payload event = restart_reason turn \<Longrightarrow> good event"
    and "close_turns J E closed turns sv = (Inr n, sv')"
  shows "service_ok S sv' \<and> n = closed + length turns \<and>
    open_set (state S (sv_journal sv')) = open_set (state S (sv_journal sv)) - set turns"
  using assms(1-3,5,7)
proof (induction turns arbitrary: sv closed)
  case (Cons kt turns)
  obtain k t where kt: "kt = (k, t)" by fastforce
  let ?m = "state S (sv_journal sv)" and ?event = "interruption E closed ''heiwa-core'' k t"
  obtain row sv1 where row: "journal_append J E closed ?event sv = (Inr row, sv1)"
    and rest: "close_turns J E (closed + 1) turns sv1 = (Inr n, sv')"
    using Cons.prems(5) by (auto simp: kt split: prod.splits sum.splits)
  have "good ?event" by (rule good) simp
  note added = journal_append_ok [OF Cons.prems(1) this row]
  have m1: "state S (sv_journal sv1) = fst (sync_row S ?m row)" by (simp add: added(2))
  have opened: "open_set (state S (sv_journal sv1)) = open_set ?m - {(k, t)}"
    unfolding m1 by (rule interruption_recorded [OF replay_ok [OF session_ok_default] _ added(3)])
      (use Cons.prems(2,4) kt in auto)
  have seen: "mj_seen_event_ids (state S (sv_journal sv1)) = insert (se_uuid E closed) (mj_seen_event_ids ?m)"
    unfolding m1 sync_row_seen by (simp add: added(3))
  have "service_ok S sv' \<and> n = (closed + 1) + length turns \<and>
      open_set (state S (sv_journal sv')) = open_set (state S (sv_journal sv1)) - set turns"
  proof (rule Cons.IH [OF added(1) _ _ _ rest])
    show "set turns \<subseteq> open_set (state S (sv_journal sv1))" "distinct turns"
      using Cons.prems(2,3) by (auto simp: opened kt)
    fix i assume "i \<ge> closed + 1"
    then show "se_uuid E i \<notin> mj_seen_event_ids (state S (sv_journal sv1))"
      using Cons.prems(4) [of i] assms(4) by (auto simp: seen inj_eq)
  qed
  then show ?case by (auto simp: opened kt)
qed simp

lemma recover_closes:
  assumes "service_ok S sv" and "room (sv_journal sv)" and "iterates iter" and "unused_uuids E (rows (sv_journal sv))"
    and good: "\<And>event turn. ev_payload event = restart_reason turn \<Longrightarrow> good event"
    and ran: "recover_interrupted S J E iter sv = Some (Inr n, sv')"
  shows "service_ok S sv'" and "open_set (state S (sv_journal sv')) = {}"
    and "n = card (open_set (state S (sv_journal sv)))"
proof -
  have granted: "se_lock_granted E"
    using ran by (auto simp: recover_interrupted_def recover_interrupted_with_def split: if_splits)
  obtain m where m: "core m = state S (sv_journal sv)" "service_ok S (sv\<lparr>sv_projection := m\<rparr>)"
    and sync: "sync_materialized S J (sv_journal sv) (sv_projection sv) = Some (Inr (), m)"
    by (rule materialized_ok [OF assms(1,2)])
  let ?sv = "sv\<lparr>sv_projection := m\<rparr>"
  obtain res sv1 where close: "close_turns J E 0 (open_turns iter m) ?sv = (res, sv1)" by fastforce
  have step: "recover_interrupted S J E iter sv = map_option (\<lambda>(res, sv'). (map_sum id ro_interrupted_turns res, sv'))
      (case res of Inl err \<Rightarrow> Some (Inl err, sv1) | Inr closed \<Rightarrow> recover_planned S J E NoFurtherRecovery () closed sv1)"
    using granted close
    by (simp add: recover_interrupted_def recover_interrupted_with_def materialized_step [OF sync] split: sum.split)
  then obtain closed where res: "res = Inr closed" using ran by (cases res) auto
  with step ran have planned: "closed = n" "sv' = sv1"
    by (auto simp: recover_planned_def NoFurtherRecovery_def split: sum.splits option.splits prod.splits)
  note closed = close [unfolded res]
  have mok: "session_ok m"
  proof -
    have "session_ok (core m)" unfolding m(1) by (rule replay_ok [OF session_ok_default])
    then show ?thesis by (simp add: session_ok_def)
  qed
  note turns = open_turns_spec [OF mok assms(3)]
  have open_m: "open_set m = open_set (state S (sv_journal ?sv))" using open_set_core [of m] m(1) by simp
  have "service_ok S sv1 \<and> closed = 0 + length (open_turns iter m) \<and>
      open_set (state S (sv_journal sv1)) = open_set (state S (sv_journal ?sv)) - set (open_turns iter m)"
  proof (rule close_turns_closes [OF m(2) _ turns(2) _ _ good closed])
    show "set (open_turns iter m) \<subseteq> open_set (state S (sv_journal ?sv))" using turns(1) open_m by simp
    show "inj (se_uuid E)" using assms(4) by (simp add: unused_uuids_def)
    show "se_uuid E i \<notin> mj_seen_event_ids (state S (sv_journal ?sv))" for i
      using assms(4) by (auto simp: unused_uuids_def replay_seen MaterializedJournal_default_def)
  qed
  moreover have "length (open_turns iter m) = card (open_set (state S (sv_journal sv)))"
    using distinct_card [OF turns(2)] turns(1) open_m by simp
  ultimately show "service_ok S sv'" "open_set (state S (sv_journal sv')) = {}"
    "n = card (open_set (state S (sv_journal sv)))"
    using planned turns(1) open_m by auto
qed

lemma recover_again:
  assumes "service_ok S sv" and "room (sv_journal sv)" and "iterates iter" and "open_set (state S (sv_journal sv)) = {}"
    and "se_lock_granted E"
  shows "\<exists>m. recover_interrupted S J E iter sv = Some (Inr 0, sv\<lparr>sv_projection := m\<rparr>)"
proof -
  obtain m where m: "core m = state S (sv_journal sv)" "service_ok S (sv\<lparr>sv_projection := m\<rparr>)"
    and sync: "sync_materialized S J (sv_journal sv) (sv_projection sv) = Some (Inr (), m)"
    by (rule materialized_ok [OF assms(1,2)])
  have "session_ok (core m)" unfolding m(1) by (rule replay_ok [OF session_ok_default])
  then have "session_ok m" by (simp add: session_ok_def)
  then have "set (open_turns iter m) = {}" using open_turns_spec(1) [OF _ assms(3)] open_set_core [of m] m(1) assms(4) by simp
  then have none: "open_turns iter m = []" by simp
  have "ok (sv_journal sv)" using assms(1) by (simp add: service_at_def)
  from catch_up [OF this assms(2) caught_default, where S = S and rebuild = False and s = "()" and
      obs = "\<lambda>s row admission. rp_observe NoFurtherRecovery s (ce_event row) admission"]
  obtain m' where "sync_materialized_observing S J (sv_journal sv) False
      (\<lambda>s row admission. rp_observe NoFurtherRecovery s (ce_event row) admission) MaterializedJournal_default () = Some (Inr (), m', ())"
    by auto
  then have "recover_planned S J E NoFurtherRecovery () 0 (sv\<lparr>sv_projection := m\<rparr>) =
      Some (Inr \<lparr>ro_interrupted_turns = 0, ro_appended = [], ro_report = ()\<rparr>, sv\<lparr>sv_projection := m\<rparr>)"
    by (simp add: recover_planned_def) (simp add: NoFurtherRecovery_def)
  then show ?thesis using assms(5)
    by (auto simp: recover_interrupted_def recover_interrupted_with_def materialized_step [OF sync] none)
qed

end


section \<open>Polling one thread\<close>

definition of_thread :: "string \<Rightarrow> CursorEvent \<Rightarrow> bool" where
  "of_thread thread_id row \<longleftrightarrow> ev_thread_id (ce_event row) = thread_id"

lemma scan_page_Cons:
  "scan_page thread_id limit index (row # rows) collected =
     (if of_thread thread_id row then
        if Suc (length collected) = limit then (collected @ [row], Some index)
        else scan_page thread_id limit (Suc index) rows (collected @ [row])
      else scan_page thread_id limit (Suc index) rows collected)"
  by (simp add: of_thread_def)

lemma scan_page_spec:
  assumes "length collected < limit"
  shows "if length collected + length (filter (of_thread thread_id) rows) < limit
    then scan_page thread_id limit index rows collected = (collected @ filter (of_thread thread_id) rows, None)
    else \<exists>k < length rows. scan_page thread_id limit index rows collected =
        (collected @ filter (of_thread thread_id) (take (Suc k) rows), Some (index + k)) \<and>
      length collected + length (filter (of_thread thread_id) (take (Suc k) rows)) = limit"
  using assms
proof (induction rows arbitrary: index collected)
  case (Cons row rows)
  consider (other) "\<not> of_thread thread_id row" | (last) "of_thread thread_id row" "Suc (length collected) = limit"
    | (more) "of_thread thread_id row" "Suc (length collected) < limit" using Cons.prems by linarith
  then show ?case
  proof cases
    case other
    show ?thesis
    proof (cases "length collected + length (filter (of_thread thread_id) rows) < limit")
      case True
      then show ?thesis using Cons.IH [OF Cons.prems, of "Suc index"] other by (simp add: scan_page_Cons del: scan_page.simps(2))
    next
      case False
      with Cons.IH [OF Cons.prems, of "Suc index"] obtain k where
        "k < length rows" "scan_page thread_id limit (Suc index) rows collected =
          (collected @ filter (of_thread thread_id) (take (Suc k) rows), Some (Suc index + k))"
        "length collected + length (filter (of_thread thread_id) (take (Suc k) rows)) = limit" by auto
      with other False show ?thesis by (auto simp: scan_page_Cons simp del: scan_page.simps(2) intro!: exI [of _ "Suc k"])
    qed
  next
    case last
    then show ?thesis by (auto simp: scan_page_Cons simp del: scan_page.simps(2) intro!: exI [of _ 0])
  next
    case more
    then have short: "length (collected @ [row]) < limit" by simp
    show ?thesis
    proof (cases "length (collected @ [row]) + length (filter (of_thread thread_id) rows) < limit")
      case True
      then show ?thesis using Cons.IH [OF short, of "Suc index"] more by (simp add: scan_page_Cons del: scan_page.simps(2))
    next
      case False
      with Cons.IH [OF short, of "Suc index"] obtain k where
        "k < length rows" "scan_page thread_id limit (Suc index) rows (collected @ [row]) =
          ((collected @ [row]) @ filter (of_thread thread_id) (take (Suc k) rows), Some (Suc index + k))"
        "length (collected @ [row]) + length (filter (of_thread thread_id) (take (Suc k) rows)) = limit" by auto
      with more False show ?thesis by (auto simp: scan_page_Cons simp del: scan_page.simps(2) intro!: exI [of _ "Suc k"])
    qed
  qed
qed simp

text \<open>A page of one thread: its next events, and a cursor behind which nothing of the thread was left out.\<close>

definition thread_page :: "CursorEvent list \<Rightarrow> string \<Rightarrow> nat \<Rightarrow> nat \<Rightarrow> OperatorPage \<Rightarrow> bool" where
  "thread_page log thread_id i limit page \<longleftrightarrow>
     (\<exists>k. i \<le> k \<and> k \<le> length log \<and> pg_next_cursor page = position_cursor log k \<and>
        pg_events page = filter (of_thread thread_id) (drop i (take k log)) \<and>
        pg_events page = take limit (filter (of_thread thread_id) (drop i log)))"

context event_log
begin

lemma events_loop_page:
  assumes "ok j" and "room j" and "i \<le> i0" and "i0 \<le> length (rows j)"
    and "collected = filter (of_thread thread_id) (drop i (take i0 (rows j)))" and "length collected < limit"
  shows "\<exists>page. events_loop J j thread_id limit (position_cursor (rows j) i0) collected skipped = Some (Inr page) \<and>
    thread_page (rows j) thread_id i limit page"
  using assms(3-6)
proof (induction "length (rows j) - i0" arbitrary: i0 collected skipped rule: less_induct)
  case less
  define w where "w = take PAGE_SIZE (drop i0 (rows j))"
  have iw: "i0 + length w \<le> length (rows j)" using less.prems(2) by (simp add: w_def)
  obtain sk where read: "jo_read_after J j (position_cursor (rows j) i0) PAGE_SIZE =
      Inr \<lparr>pg_events = w, pg_next_cursor = position_cursor (rows j) (i0 + length w), pg_skipped_lines = sk\<rparr>"
    using read_page [OF assms(1,2) less.prems(2)] unfolding w_def by blast
  have upto: "drop i (take (i0 + k) (rows j)) = drop i (take i0 (rows j)) @ take k w" if "k \<le> length w" for k
  proof -
    have "k \<le> PAGE_SIZE" using that by (simp add: w_def)
    then have "take (i0 + k) (rows j) = take i0 (rows j) @ take k w"
      by (simp add: take_add w_def min_absorb1)
    then show ?thesis using less.prems(1,2) by simp
  qed
  have all: "drop i (rows j) = drop i (take i0 (rows j)) @ drop i0 (rows j)"
    using less.prems(1,2) by (metis append_take_drop_id drop_append length_take min.absorb2 diff_is_0_eq drop_0)
  show ?case
  proof (cases "w = []")
    case True
    then have "i0 = length (rows j)" using less.prems(2) by (auto simp: w_def PAGE_SIZE_def)
    with True read less.prems show ?thesis
      by (subst events_loop.simps) (auto simp: thread_page_def intro!: exI [of _ "length (rows j)"])
  next
    case False
    note scan = scan_page_spec [OF less.prems(4), of thread_id w 0]
    show ?thesis
    proof (cases "length collected + length (filter (of_thread thread_id) w) < limit")
      case True
      with scan have none: "scan_page thread_id limit 0 w collected = (collected @ filter (of_thread thread_id) w, None)" by simp
      have short: "length (collected @ filter (of_thread thread_id) w) < limit" using True by simp
      have "collected @ filter (of_thread thread_id) w = filter (of_thread thread_id) (drop i (take (i0 + length w) (rows j)))"
        using upto [of "length w"] less.prems(3) by simp
      moreover have "length (rows j) - (i0 + length w) < length (rows j) - i0" using False iw by (cases w) auto
      ultimately have "\<exists>page. events_loop J j thread_id limit (position_cursor (rows j) (i0 + length w))
          (collected @ filter (of_thread thread_id) w) (skipped + sk) = Some (Inr page) \<and> thread_page (rows j) thread_id i limit page"
        using less.prems(1) iw by (intro less.hyps [OF _ _ _ _ short]) auto
      then show ?thesis using False read none by (subst events_loop.simps) simp
    next
      case full: False
      with scan obtain k where k: "k < length w"
        "scan_page thread_id limit 0 w collected = (collected @ filter (of_thread thread_id) (take (Suc k) w), Some k)"
        "length collected + length (filter (of_thread thread_id) (take (Suc k) w)) = limit" by auto
      let ?got = "collected @ filter (of_thread thread_id) (take (Suc k) w)"
      have got: "?got = filter (of_thread thread_id) (drop i (take (i0 + Suc k) (rows j)))"
        using upto [of "Suc k"] k(1) less.prems(3) by simp
      have "?got = take limit (filter (of_thread thread_id) (drop i (rows j)))"
      proof -
        have "filter (of_thread thread_id) (drop i (rows j)) = ?got @ filter (of_thread thread_id) (drop (i0 + Suc k) (rows j))"
        proof -
          have "drop i0 (rows j) = take (Suc k) w @ drop (i0 + Suc k) (rows j)"
            using k(1) append_take_drop_id [of "Suc k" "drop i0 (rows j)"]
            by (simp add: w_def min_absorb1 add.commute)
          then show ?thesis using all less.prems(3) by simp
        qed
        then show ?thesis using k(3) by simp
      qed
      moreover have "ce_cursor (w ! k) = ce_cursor (rows j ! (i0 + k))" using k(1) less.prems(2) by (simp add: w_def)
      ultimately show ?thesis using got k(1,2) False read iw less.prems(1)
        by (subst events_loop.simps)
          (auto simp: thread_page_def position_cursor_def intro!: exI [of _ "i0 + Suc k"])
    qed
  qed
qed

lemma events_after_page:
  assumes "ok j" and "room j" and "i \<le> length (rows j)" and "0 < limit"
  shows "\<exists>page. events_after J j thread_id (position_cursor (rows j) i) limit = Some (Inr page) \<and>
    thread_page (rows j) thread_id i limit page"
  using events_loop_page [OF assms(1,2) order.refl assms(3), of "[]" thread_id limit 0] assms(4)
  by (simp add: events_after_def)

end

section \<open>The operator journal as the log\<close>

text \<open>The journal handle of a service (\<open>EvidenceJournal\<close> over one operator stream, which no other
  writer touches during a call): the state is the stream file, absent before the first append.\<close>

definition still :: "string option \<Rightarrow> nat \<Rightarrow> attempt_view" where
  "still j _ = \<lparr>at_len = j, at_first = j, at_boundary = j, at_read = j, at_last = j\<rparr>"

definition operator_ops :: "operator_lib \<Rightarrow> (string \<Rightarrow> string list) \<Rightarrow> string option journal_ops" where
  "operator_ops L bufs = \<lparr>jo_append = append_event L bufs, jo_read_after = (\<lambda>j. read_after L bufs (still j))\<rparr>"

function complete_lines :: "string \<Rightarrow> string list" where
  "complete_lines f = (case position_nl f of None \<Rightarrow> [] | Some p \<Rightarrow> take (Suc p) f # complete_lines (drop (Suc p) f))"
  by pat_completeness auto
termination by (relation "measure length") (auto dest: position_nl_Some)

declare complete_lines.simps [simp del]

definition journal_rows :: "operator_lib \<Rightarrow> string option \<Rightarrow> CursorEvent list" where
  "journal_rows L j = (let ls = complete_lines (unwrap_or j []) in stream_rows L (anchor L ls) 0 ls)"

definition journal_ok :: "operator_lib \<Rightarrow> string option \<Rightarrow> bool" where
  "journal_ok L j \<longleftrightarrow> (\<exists>ls t. unwrap_or j [] = concat ls @ t \<and> list_all framed ls \<and> torn_ok t \<and>
     fits L empty_budget ls t \<and> length t < MAX_OPERATOR_ENVELOPE_BYTES)"

definition journal_room :: "string option \<Rightarrow> bool" where
  "journal_room j \<longleftrightarrow> length (complete_prefix (unwrap_or j [])) + MAX_OPERATOR_ENVELOPE_BYTES \<le> 2 ^ 64"

definition reads_back :: "operator_lib \<Rightarrow> OperatorEvent \<Rightarrow> bool" where
  "reads_back L event \<longleftrightarrow> (\<forall>now. parse_operator_line L (operator_line L now event) = Some event)"

lemma complete_lines_framed:
  "list_all framed ls \<Longrightarrow> NL \<notin> set t \<Longrightarrow> complete_lines (concat ls @ t) = ls"
proof (induction ls)
  case Nil
  then have "position_nl t = None" by (simp add: position_nl_None)
  then show ?case by (simp add: complete_lines.simps [of t])
next
  case (Cons l ls)
  then obtain b where b: "l = b @ [NL]" "NL \<notin> set b" by (auto elim: framedE)
  then have "position_nl (concat (l # ls) @ t) = Some (length b)" by (simp add: position_nl_framed)
  then show ?case using Cons b(1) by (simp add: complete_lines.simps [of "b @ NL # _"])
qed

lemma journal_rows_framed:
  "unwrap_or j [] = concat ls @ t \<Longrightarrow> list_all framed ls \<Longrightarrow> torn_ok t \<Longrightarrow>
    journal_rows L j = stream_rows L (anchor L ls) 0 ls"
  by (simp add: journal_rows_def complete_lines_framed torn_ok_def)

lemma journal_ok_empty: "journal_ok L None"
  by (auto simp: journal_ok_def unwrap_or_def torn_ok_def fits_def empty_budget_def MAX_OPERATOR_ENVELOPE_BYTES_def
      intro!: exI [of _ "[]"])

lemma corrupt_rows: "list_all (corrupt_line L) ls \<Longrightarrow> stream_rows L fp offset ls = []"
  by (induction ls arbitrary: offset) (simp_all add: corrupt_line_def)

context operator_laws
begin

lemma anchor_empty: "anchor L ls = ''empty'' \<Longrightarrow> list_all (corrupt_line L) ls"
  using sha256_hex_not_empty by (auto simp: anchor_def list_all_iff find_None_iff split: option.splits)

lemma rows_stay:
  "stream_rows L (anchor L (ls @ [l])) 0 ls = stream_rows L (anchor L ls) 0 ls"
  using anchor_append [OF sha256_hex_not_empty, of ls l] anchor_empty [of ls]
  by (cases "anchor L ls = ''empty''") (simp_all add: corrupt_rows)

lemma journal_page:
  assumes "journal_ok L j" and "journal_room j" and "i \<le> length (journal_rows L j)"
  shows "\<exists>skipped. read_after L bufs (still j) (position_cursor (journal_rows L j) i) n =
      Inr \<lparr>pg_events = take n (drop i (journal_rows L j)),
           pg_next_cursor = position_cursor (journal_rows L j) (i + length (take n (drop i (journal_rows L j)))),
           pg_skipped_lines = skipped\<rparr>"
proof (cases j)
  case None
  then have "journal_rows L j = []" by (simp add: journal_rows_def unwrap_or_def complete_lines.simps [of "[]"] position_nl_def)
  then show ?thesis using assms(3) None
    by (simp add: read_after_def position_cursor_def MAX_OPERATOR_LINEAGE_READ_ATTEMPTS_def upt_rec numeral_eq_Suc
        still_def first_line_fingerprint_def attempt_page_def start_offset_def)
next
  case (Some f)
  obtain ls t where f: "f = concat ls @ t" and ls: "list_all framed ls" "torn_ok t" "fits L empty_budget ls t"
    and t: "length t < MAX_OPERATOR_ENVELOPE_BYTES"
    using assms(1) Some by (auto simp: journal_ok_def unwrap_or_def)
  have rows: "journal_rows L j = stream_rows L (anchor L ls) 0 ls"
    using f ls(1,2) Some by (intro journal_rows_framed) (simp_all add: unwrap_or_def)
  have "complete_prefix f = concat ls"
    using ls(1,2) framed_concat_prefix by (simp add: f complete_prefix_append torn_ok_def)
  then have small: "length (concat ls @ t) < 2 ^ 64" using assms(2) t Some by (simp add: journal_room_def unwrap_or_def)
  have "still j = quiet (concat ls @ t)" by (simp add: fun_eq_iff still_def quiet_def Some f)
  then show ?thesis using read_after_position [OF ls rows _ small] assms(3) by simp
qed

lemma journal_grows:
  assumes "journal_ok L j" and "reads_back L event" and "append_event L bufs now event j = (Inr row, j')"
  shows "journal_ok L j' \<and> journal_rows L j' = journal_rows L j @ [row] \<and> ce_event row = event \<and>
    (journal_room j' \<longrightarrow> journal_room j)"
proof -
  obtain ls t where j: "unwrap_or j [] = concat ls @ t" "list_all framed ls" "torn_ok t" "fits L empty_budget ls t"
    "length t < MAX_OPERATOR_ENVELOPE_BYTES"
    using assms(1) by (auto simp: journal_ok_def)
  let ?l = "operator_line L now event @ [NL]"
  have parse: "parse_operator_line L (operator_line L now event) = Some event" using assms(2) by (simp add: reads_back_def)
  have clean: "find_sensitive (ol_event_to_value L event) = None" and short: "length (operator_line L now event) < MAX_OPERATOR_ENVELOPE_BYTES"
    using assms(3) by (auto simp: append_event_def Let_def split: if_splits)
  from append_framed [OF j clean short parse refl] assms(3)
  have row: "row = cursor_row L (anchor L (ls @ [?l])) (length (concat (ls @ [?l]))) event"
    and j': "j' = Some (concat (ls @ [?l]))" by simp_all
  have framed: "list_all framed (ls @ [?l])" using j(2) new_line_framed [OF short] by simp
  have fits: "fits L empty_budget (ls @ [?l]) []" using fits_repaired [OF j(4)] parse by (simp add: corrupt_line_def)
  have content: "unwrap_or j' [] = concat (ls @ [?l]) @ []" "torn_ok []" by (simp_all add: j' unwrap_or_def torn_ok_def)
  have "journal_ok L j'"
    unfolding journal_ok_def using content framed fits
    by (intro exI [of _ "ls @ [?l]"] exI [of _ "[]"]) (simp add: MAX_OPERATOR_ENVELOPE_BYTES_def)
  moreover have "journal_rows L j' = journal_rows L j @ [row]"
    using journal_rows_framed [OF content(1) framed content(2), of L] journal_rows_framed [OF j(1-3), of L]
      rows_stay [of ls ?l] parse by (simp add: stream_rows_append row)
  moreover have "journal_room j" if "journal_room j'"
    using that framed_concat_prefix [OF framed] framed_concat_prefix [OF j(2)] j(1,3)
    by (simp add: journal_room_def j' unwrap_or_def complete_prefix_append torn_ok_def split: if_splits)
  ultimately show ?thesis by (simp add: row cursor_row_def)
qed

end

sublocale operator_laws \<subseteq> session_log: event_log "operator_ops L bufs" "journal_rows L" "journal_ok L" journal_room "reads_back L"
  unfolding event_log_def operator_ops_def journal_ops.simps using journal_page journal_grows by blast

context operator_laws
begin

lemma journal_is_event_log:
  "event_log (operator_ops L bufs) (journal_rows L) (journal_ok L) journal_room (reads_back L)"
  by (rule session_log.event_log_axioms)

end

lemmas on_journal = operator_laws.journal_is_event_log

interpretation demo_journal: event_log "operator_ops demo_operator buffers" "journal_rows demo_operator"
  "journal_ok demo_operator" journal_room "reads_back demo_operator"
  by (rule demo_operator.session_log.event_log_axioms)

section \<open>The session service over the operator journal\<close>

text \<open>C14. Catching up ends and refines a replay of the whole stream: from a projection that has folded
  any prefix of the journal, whatever its corrupt lines and torn tail within the scan budget, the page
  loop ends, and what it leaves is the fold of every event of the stream, with the cursor after the
  last one.\<close>

theorem catching_up_replays_the_journal:
  assumes "operator_laws L bufs" and "journal_ok L j" and "journal_room j" and "caught S (journal_rows L j) i m"
  shows "\<exists>m'. sync_materialized S (operator_ops L bufs) j m = Some (Inr (), m') \<and>
    core m' = replay S MaterializedJournal_default (journal_rows L j) \<and>
    mj_cursor m' = position_cursor (journal_rows L j) (length (journal_rows L j))"
  using event_log.catch_up [OF on_journal [OF assms(1)] assms(2-4), of True "\<lambda>_ _ _. ()" "()"]
  by (auto simp: sync_materialized_def caught_def)

text \<open>C13. A submission is idempotent. When \<open>start_turn\<close> has answered a request, on any journal and
  whether it opened the turn or completed one after a crash, a later submission of the same request, by a
  service that has folded any part of the journal, returns the same thread, turn, Work and cursor, marked
  as a duplicate, and appends nothing. Events may have been appended in between, of this thread and others,
  also that the turn was cancelled or ended, only not another message of the same turn: that one would
  become the message the answer points to. (The request's turn id is not that of another request of the
  thread, its policy has no NaN limit and survives serialisation, the events it writes read back, the drawn
  UUIDs are fresh, the writer's lock is granted, and the journal stays within its size and scan budget.)\<close>

theorem submissions_are_idempotent:
  assumes "operator_laws L bufs" and "service_at (journal_rows L) (journal_ok L) S sv" and "journal_room (sv_journal sv)"
    and "fresh_uuids E (journal_rows L (sv_journal sv))"
    and "own_turn_id S (replay S MaterializedJournal_default (journal_rows L (sv_journal sv))) k (sq_client_request_id request)"
    and "policy_reads_back S (sq_route_policy request)"
    and "\<And>event. ev_payload event \<in> submission_payloads S request \<Longrightarrow> reads_back L event"
    and "start_turn S (operator_ops L bufs) E k request sv = Some (Inr sub, sv')"
    and "service_at (journal_rows L) (journal_ok L) S again" and "journal_room (sv_journal again)" and "se_lock_granted E'"
    and "journal_rows L (sv_journal again) = journal_rows L (sv_journal sv') @ later"
    and "\<forall>row\<in>set later. \<not> message_of k (tsb_turn_id sub) (ce_event row)"
  shows "\<exists>m. start_turn S (operator_ops L bufs) E' k request again =
    Some (Inr (sub\<lparr>tsb_duplicate := True\<rparr>), again\<lparr>sv_projection := m\<rparr>)"
proof -
  note log = on_journal [OF assms(1)]
  from event_log.start_turn_answers [OF log assms(2-8)]
  have answered: "screen_payloads S request = None"
    "answers S (replay S MaterializedJournal_default (journal_rows L (sv_journal sv'))) k request sub" by simp_all
  have "answers S (replay S MaterializedJournal_default (journal_rows L (sv_journal again))) k request sub"
    using answers_stay [OF answered(2) assms(13)] by (simp add: assms(12) replay_def)
  then show ?thesis using event_log.start_turn_again [OF log assms(9,10)] answered(1) assms(11) by blast
qed

text \<open>C15. Recovery after a restart closes every open turn and is idempotent: the count it reports is the
  number of turns that were open, no turn of any thread is open in the journal it leaves, and running it
  again, also in a new process, reports none and appends nothing. The order in which the map of threads
  is visited does not matter.\<close>

theorem recovery_closes_every_open_turn:
  assumes "operator_laws L bufs" and "service_at (journal_rows L) (journal_ok L) S sv" and "journal_room (sv_journal sv)"
    and "iterates iter" and "unused_uuids E (journal_rows L (sv_journal sv))"
    and "\<And>event turn. ev_payload event = restart_reason turn \<Longrightarrow> reads_back L event"
    and "recover_interrupted S (operator_ops L bufs) E iter sv = Some (Inr n, sv')"
    and "journal_room (sv_journal sv')" and "se_lock_granted E'"
    and "again = sv' \<or> again = OperatorSessionService_new (sv_journal sv')"
  shows "n = card (open_set (replay S MaterializedJournal_default (journal_rows L (sv_journal sv)))) \<and>
    open_set (replay S MaterializedJournal_default (journal_rows L (sv_journal sv'))) = {} \<and>
    (\<exists>m. recover_interrupted S (operator_ops L bufs) E' iter again = Some (Inr 0, again\<lparr>sv_projection := m\<rparr>))"
proof -
  note log = on_journal [OF assms(1)]
  have closed: "service_at (journal_rows L) (journal_ok L) S sv'"
    "open_set (replay S MaterializedJournal_default (journal_rows L (sv_journal sv'))) = {}"
    "n = card (open_set (replay S MaterializedJournal_default (journal_rows L (sv_journal sv))))"
    using event_log.recover_closes [OF log assms(2-5) _ assms(7)] assms(6) by blast+
  have "service_at (journal_rows L) (journal_ok L) S again" "sv_journal again = sv_journal sv'"
    using assms(10) closed(1) event_log.service_ok_new [OF log] by (auto simp: service_at_def OperatorSessionService_new_def)
  then have "\<exists>m. recover_interrupted S (operator_ops L bufs) E' iter again = Some (Inr 0, again\<lparr>sv_projection := m\<rparr>)"
    using event_log.recover_again [OF log, of S again iter E'] closed(2) assms(4,8,9) by simp
  with closed(2,3) show ?thesis by blast
qed

text \<open>The events of one thread are paged without loss or repetition: a page read at any position of
  the journal returns the next \<open>limit\<close> events of that thread, however many events of other threads lie
  between, and its cursor is a position with no event of the thread skipped before it.\<close>

theorem thread_events_are_paged:
  assumes "operator_laws L bufs" and "journal_ok L j" and "journal_room j" and "i \<le> length (journal_rows L j)"
    and "0 < limit"
  shows "\<exists>page. events_after (operator_ops L bufs) j thread_id (position_cursor (journal_rows L j) i) limit = Some (Inr page) \<and>
    thread_page (journal_rows L j) thread_id i limit page"
  by (rule event_log.events_after_page [OF on_journal [OF assms(1)] assms(2-5)])

section \<open>A concrete service\<close>

lemma demo_journal_ok: "journal_ok demo_operator (Some (demo_line @ ''x''))"
  using demo_stream unfolding journal_ok_def
  by (intro exI [of _ "[demo_line]"] exI [of _ "''x''"]) (simp add: unwrap_or_def MAX_OPERATOR_ENVELOPE_BYTES_def)

lemma complete_prefix_short: "length (complete_prefix f) \<le> length f"
  using arg_cong [OF complete_prefix_take [of f], of length] by simp

lemma short_journal_room: "length (unwrap_or j []) \<le> 5 * MAX_OPERATOR_ENVELOPE_BYTES \<Longrightarrow> journal_room j"
  using complete_prefix_short [of "unwrap_or j []"] by (simp add: journal_room_def MAX_OPERATOR_ENVELOPE_BYTES_def)

lemma demo_reads_back: "reads_back demo_operator event"
  by (simp add: reads_back_def demo_operator_parse)

lemma demo_journal_room: "journal_room (Some (demo_line @ ''x''))"
  using demo_line_short by (intro short_journal_room) (simp add: unwrap_or_def demo_line_def MAX_OPERATOR_ENVELOPE_BYTES_def)

lemma demo_rows: "map ce_event (journal_rows demo_operator (Some (demo_line @ ''x''))) = [demo_event]"
  using journal_rows_framed [of "Some (demo_line @ ''x'')" "[demo_line]" "''x''" demo_operator] demo_stream
  by (simp add: unwrap_or_def demo_line_valid cursor_row_def)

theorem catching_up_replays_the_journal_witness:
  "\<exists>m'. sync_materialized plain_lib (operator_ops demo_operator buffers) (Some (demo_line @ ''x''))
      MaterializedJournal_default = Some (Inr (), m') \<and>
    mj_seen_event_ids m' = {''e1''}"
proof -
  let ?rows = "journal_rows demo_operator (Some (demo_line @ ''x''))"
  have "mj_seen_event_ids (replay plain_lib MaterializedJournal_default ?rows) = {''e1''}"
    using demo_rows by (auto simp: replay_seen MaterializedJournal_default_def demo_event_def map_eq_Cons_conv)
  then show ?thesis
    using catching_up_replays_the_journal [OF demo_operator.operator_laws_axioms demo_journal_ok demo_journal_room caught_default, of plain_lib]
    by (metis core_fields(6))
qed

theorem thread_events_are_paged_witness:
  "\<exists>page. events_after (operator_ops demo_operator buffers) (Some (demo_line @ ''x'')) [] None 3 = Some (Inr page) \<and>
     map ce_event (pg_events page) = [demo_event]"
proof -
  from thread_events_are_paged [OF demo_operator.operator_laws_axioms demo_journal_ok demo_journal_room, of 0 3 "[]"]
  show ?thesis using demo_rows
    by (auto simp: position_cursor_def thread_page_def of_thread_def demo_event_def map_eq_Cons_conv)
qed

definition demo_env :: session_env where
  "demo_env = \<lparr>se_uuid = (\<lambda>i. ''u-'' @ replicate i CHR ''u''), se_now = (\<lambda>_. ''now''), se_ms = (\<lambda>_. 7), se_lock_granted = True\<rparr>"

definition demo_request :: StartTurnRequest where
  "demo_request = StartTurnRequest_auto ''r1'' ''hello''"

text \<open>A codec that knows the default policy.\<close>

definition demo_session_lib :: session_lib where
  "demo_session_lib = plain_lib\<lparr>sl_policy_to_value := (\<lambda>p. JString (trp_privacy p)),
     sl_policy_of_value := (\<lambda>v. if v = JString ''standard'' then Some (TurnRoutePolicy_normalized (sq_route_policy demo_request)) else None)\<rparr>"

lemma demo_uuids: "inj (se_uuid demo_env)" "se_uuid demo_env i \<noteq> ''e1''"
  by (auto simp: demo_env_def inj_def)

lemma demo_rows_state: "mj_threads (replay S MaterializedJournal_default (journal_rows demo_operator (Some (demo_line @ ''x'')))) = []"
  using demo_rows
  by (auto simp: map_eq_Cons_conv demo_event_def sync_row_threads apply_event_def apply_thread_event_def Let_def new_thread_def
      MaterializedJournal_default_def)

theorem recovery_closes_every_open_turn_witness:
  "\<exists>m. recover_interrupted plain_lib (operator_ops demo_operator buffers) demo_env id
      (OperatorSessionService_new (Some (demo_line @ ''x''))) =
     Some (Inr 0, (OperatorSessionService_new (Some (demo_line @ ''x'')))\<lparr>sv_projection := m\<rparr>)"
proof -
  let ?j = "Some (demo_line @ ''x'')" and ?sv = "OperatorSessionService_new (Some (demo_line @ ''x''))"
  have ok: "service_at (journal_rows demo_operator) (journal_ok demo_operator) plain_lib ?sv"
    by (rule demo_operator.session_log.service_ok_new [OF demo_journal_ok])
  have j: "sv_journal ?sv = ?j" by (simp add: OperatorSessionService_new_def)
  have none: "open_set (replay plain_lib MaterializedJournal_default (journal_rows demo_operator ?j)) = {}"
    by (simp add: open_set_def demo_rows_state)
  have iter: "iterates (id :: (string, FoldedThread) iteration)" by (simp add: iterates_def)
  have lock: "se_lock_granted demo_env" by (simp add: demo_env_def)
  obtain m where ran: "recover_interrupted plain_lib (operator_ops demo_operator buffers) demo_env id ?sv =
      Some (Inr 0, ?sv\<lparr>sv_projection := m\<rparr>)"
    using demo_operator.session_log.recover_again [OF ok _ iter _ lock] none demo_journal_room unfolding j by blast
  have "unused_uuids demo_env (journal_rows demo_operator ?j)"
    using demo_uuids demo_rows by (auto simp: unused_uuids_def map_eq_Cons_conv demo_event_def)
  then have "\<exists>m'. recover_interrupted plain_lib (operator_ops demo_operator buffers) demo_env id ?sv =
      Some (Inr 0, ?sv\<lparr>sv_projection := m'\<rparr>)"
    using recovery_closes_every_open_turn [OF demo_operator.operator_laws_axioms ok _ iter _ demo_reads_back ran _ lock, of ?sv]
      demo_journal_room by (simp add: OperatorSessionService_new_def)
  then show ?thesis .
qed

text \<open>A journal that holds a started turn and its message.\<close>

definition started :: OperatorEvent where
  "started = turn_started_event demo_session_lib demo_env ''t'' demo_request"

definition asked :: OperatorEvent where
  "asked = message_event demo_env 2 ''t'' (deterministic_turn_id demo_session_lib ''t'' ''r1'') ''now'' None demo_request"

definition asked_lines :: "string list" where
  "asked_lines = map (\<lambda>event. operator_line demo_operator 7 event @ [NL]) [started, asked]"

lemma standard_privacy: "to_ascii_lowercase (trim ''standard'') = ''standard''"
  by code_simp

lemma asked_lines_short:
  "length (operator_line demo_operator 7 started) < MAX_OPERATOR_ENVELOPE_BYTES"
  "length (operator_line demo_operator 7 asked) < MAX_OPERATOR_ENVELOPE_BYTES"
  by (simp_all add: started_def asked_def turn_started_event_def message_event_def new_event_def operator_actor_def
      demo_env_def demo_request_def StartTurnRequest_auto_def turn_started_payload_def user_message_payload_def
      demo_session_lib_def plain_lib_def deterministic_turn_id_def operator_turn_namespace_def prompt_fingerprint_def
      operator_line_def demo_operator_def event_to_value_def wire_string_length write_u32_def opt_str_def write_tag_def
      event_tags_def risk_tags_def sensitivity_tags_def actor_to_value_def word_bytes_length unwrap_or_def
      OPERATOR_STREAM_KIND_def MAX_OPERATOR_ENVELOPE_BYTES_def hex_byte_def TurnRoutePolicy_normalized_def
      standard_privacy del: wire_string.simps)

lemma asked_journal:
  "journal_ok demo_operator (Some (concat asked_lines))" "journal_room (Some (concat asked_lines))"
  "\<exists>c1 c2. journal_rows demo_operator (Some (concat asked_lines)) =
     [\<lparr>ce_cursor = c1, ce_event = started\<rparr>, \<lparr>ce_cursor = c2, ce_event = asked\<rparr>]"
proof -
  have framed: "list_all framed asked_lines"
    using demo_operator.new_line_framed asked_lines_short by (simp add: asked_lines_def)
  have fits: "fits demo_operator empty_budget asked_lines []"
    by (simp add: fits_def asked_lines_def corrupt_line_def demo_operator_parse empty_budget_def)
  show "journal_ok demo_operator (Some (concat asked_lines))"
    unfolding journal_ok_def using framed fits
    by (intro exI [of _ asked_lines] exI [of _ "[]"]) (simp add: unwrap_or_def torn_ok_def MAX_OPERATOR_ENVELOPE_BYTES_def)
  show "journal_room (Some (concat asked_lines))"
    using asked_lines_short by (intro short_journal_room) (simp add: unwrap_or_def asked_lines_def)
  have rows: "journal_rows demo_operator (Some (concat asked_lines)) =
      stream_rows demo_operator (anchor demo_operator asked_lines) 0 asked_lines"
    using framed by (intro journal_rows_framed [of _ _ "[]"]) (simp_all add: unwrap_or_def torn_ok_def)
  then show "\<exists>c1 c2. journal_rows demo_operator (Some (concat asked_lines)) =
      [\<lparr>ce_cursor = c1, ce_event = started\<rparr>, \<lparr>ce_cursor = c2, ce_event = asked\<rparr>]"
    unfolding rows by (simp add: asked_lines_def demo_operator_parse cursor_row_def)
qed

definition asked_answer :: "string \<Rightarrow> TurnSubmission" where
  "asked_answer c = \<lparr>tsb_thread_id = ''t'', tsb_turn_id = deterministic_turn_id demo_session_lib ''t'' ''r1'',
     tsb_work_id = None, tsb_cursor = c, tsb_duplicate = True\<rparr>"

lemma asked_state:
  assumes "m = replay demo_session_lib MaterializedJournal_default
    [\<lparr>ce_cursor = c1, ce_event = started\<rparr>, \<lparr>ce_cursor = c2, ce_event = asked\<rparr>]"
  shows "answers demo_session_lib m ''t'' demo_request (asked_answer c2)" "own_turn_id demo_session_lib m ''t'' ''r1''"
proof -
  have "case turn_of_request m ''t'' ''r1'' of None \<Rightarrow> False
    | Some turn \<Rightarrow>
        validate_retry_binding demo_session_lib turn (prompt_fingerprint demo_session_lib (sq_prompt demo_request))
          (TurnRoutePolicy_normalized (sq_route_policy demo_request)) None = Inr () \<and>
        ft_user_message_cursor turn = Some c2 \<and> ft_turn_id turn = deterministic_turn_id demo_session_lib ''t'' ''r1'' \<and>
        ft_work_id turn = None" unfolding assms by code_simp
  then show "answers demo_session_lib m ''t'' demo_request (asked_answer c2)"
    by (auto simp: answers_def asked_answer_def demo_request_def StartTurnRequest_auto_def split: option.splits)
  have "case bt_get (mj_threads m) ''t'' of None \<Rightarrow> False
    | Some th \<Rightarrow> list_all (\<lambda>t. ft_client_request_id t = Some ''r1'') (fth_turns th)" unfolding assms by code_simp
  then show "own_turn_id demo_session_lib m ''t'' ''r1''" by (auto simp: own_turn_id_def list_all_iff)
qed

theorem submissions_are_idempotent_witness:
  "\<exists>c m. start_turn demo_session_lib (operator_ops demo_operator buffers) demo_env ''t'' demo_request
      (OperatorSessionService_new (Some (concat asked_lines))) =
     Some (Inr (asked_answer c), (OperatorSessionService_new (Some (concat asked_lines)))\<lparr>sv_projection := m\<rparr>)"
proof -
  let ?sv = "OperatorSessionService_new (Some (concat asked_lines))" and ?env = "demo_env\<lparr>se_uuid := \<lambda>i. CHR ''w'' # se_uuid demo_env i\<rparr>"
  obtain c1 c2 where rows: "journal_rows demo_operator (Some (concat asked_lines)) =
      [\<lparr>ce_cursor = c1, ce_event = started\<rparr>, \<lparr>ce_cursor = c2, ce_event = asked\<rparr>]"
    using asked_journal(3) by blast
  note state = asked_state [OF refl, of c1 c2]
  have ok: "service_at (journal_rows demo_operator) (journal_ok demo_operator) demo_session_lib ?sv"
    by (rule demo_operator.session_log.service_ok_new [OF asked_journal(1)])
  have j: "sv_journal ?sv = Some (concat asked_lines)" by (simp add: OperatorSessionService_new_def)
  have lock: "se_lock_granted demo_env" "se_lock_granted ?env" by (simp_all add: demo_env_def)
  have clean: "screen_payloads demo_session_lib demo_request = None" by code_simp
  obtain m where ran: "start_turn demo_session_lib (operator_ops demo_operator buffers) ?env ''t'' demo_request ?sv =
      Some (Inr ((asked_answer c2)\<lparr>tsb_duplicate := True\<rparr>), ?sv\<lparr>sv_projection := m\<rparr>)"
    using demo_operator.session_log.start_turn_again [OF ok _ _ clean lock(2), of "''t''" "asked_answer c2"]
      state(1) asked_journal(2) unfolding j rows by blast
  have fresh: "fresh_uuids ?env (journal_rows demo_operator (sv_journal ?sv))"
    unfolding j rows by code_simp
  have policy: "policy_reads_back demo_session_lib (sq_route_policy demo_request)" by code_simp
  have own: "own_turn_id demo_session_lib (replay demo_session_lib MaterializedJournal_default
      (journal_rows demo_operator (sv_journal ?sv))) ''t'' (sq_client_request_id demo_request)"
    unfolding j rows using state(2) by (simp add: demo_request_def StartTurnRequest_auto_def)
  have room: "journal_room (sv_journal ?sv)" using asked_journal(2) by (simp add: OperatorSessionService_new_def)
  have same: "journal_rows demo_operator (sv_journal ?sv) = journal_rows demo_operator (sv_journal (?sv\<lparr>sv_projection := m\<rparr>)) @ []"
    by simp
  from submissions_are_idempotent [OF demo_operator.operator_laws_axioms ok room fresh own policy demo_reads_back ran ok room lock(1) same]
  have "\<exists>m. start_turn demo_session_lib (operator_ops demo_operator buffers) demo_env ''t'' demo_request ?sv =
      Some (Inr (asked_answer c2), ?sv\<lparr>sv_projection := m\<rparr>)" by (simp add: asked_answer_def)
  then show ?thesis by blast
qed

end
