(* ===== verification/Sha256.thy ===== *)
theory Sha256
  imports Prelude
begin

text \<open>
  SHA-256 and HMAC as \<open>apps/heiwa_core/src/auth.rs\<close> implements them, loop by loop on 32-bit words,
  the comparison that does not stop early, and the agreement of the loops with the recursive
  definitions of FIPS 180-4 and RFC 2104.
\<close>

unbundle bit_operations_syntax

section \<open>The implementation\<close>

definition SHA256_K :: "u32 list" where
  "SHA256_K =
     concat [
      [0x428a2f98, 0x71374491, 0xb5c0fbcf, 0xe9b5dba5, 0x3956c25b, 0x59f111f1, 0x923f82a4],
      [0xab1c5ed5, 0xd807aa98, 0x12835b01, 0x243185be, 0x550c7dc3, 0x72be5d74, 0x80deb1fe],
      [0x9bdc06a7, 0xc19bf174, 0xe49b69c1, 0xefbe4786, 0x0fc19dc6, 0x240ca1cc, 0x2de92c6f],
      [0x4a7484aa, 0x5cb0a9dc, 0x76f988da, 0x983e5152, 0xa831c66d, 0xb00327c8, 0xbf597fc7],
      [0xc6e00bf3, 0xd5a79147, 0x06ca6351, 0x14292967, 0x27b70a85, 0x2e1b2138, 0x4d2c6dfc],
      [0x53380d13, 0x650a7354, 0x766a0abb, 0x81c2c92e, 0x92722c85, 0xa2bfe8a1, 0xa81a664b],
      [0xc24b8b70, 0xc76c51a3, 0xd192e819, 0xd6990624, 0xf40e3585, 0x106aa070, 0x19a4c116],
      [0x1e376c08, 0x2748774c, 0x34b0bcb5, 0x391c0cb3, 0x4ed8aa4a, 0x5b9cca4f, 0x682e6ff3],
      [0x748f82ee, 0x78a5636f, 0x84c87814, 0x8cc70208, 0x90befffa, 0xa4506ceb, 0xbef9a3f7],
      [0xc67178f2]]"

definition SHA256_H :: "u32 list" where
  "SHA256_H = [0x6a09e667, 0xbb67ae85, 0x3c6ef372, 0xa54ff53a, 0x510e527f, 0x9b05688c, 0x1f83d9ab, 0x5be0cd19]"

text \<open>\<open>to_be_bytes\<close> of an integer of \<open>n\<close> bytes, and \<open>u32::from_be_bytes\<close>.\<close>

fun be_bytes :: "nat \<Rightarrow> 'a::len word \<Rightarrow> string" where
  "be_bytes 0 x = []"
| "be_bytes (Suc n) x = be_bytes n (drop_bit 8 x) @ [char_of (unat (take_bit 8 x))]"

definition u32_from_be_bytes :: "string \<Rightarrow> u32" where
  "u32_from_be_bytes bytes = foldl (\<lambda>n c. 256 * n + of_char c) 0 bytes"

text \<open>The padding loop: zeros until eight bytes are missing to a block.\<close>

function push_zeros :: "string \<Rightarrow> string" where
  "push_zeros padded = (if length padded mod 64 = 56 then padded else push_zeros (padded @ [CHR 0x00]))"
  by pat_completeness auto
termination
proof (relation "measure (\<lambda>p. if length p mod 64 \<le> 56 then 56 - length p mod 64 else 120 - length p mod 64)")
  fix p :: string
  assume open_: "length p mod 64 \<noteq> 56"
  define m where "m = length p mod 64"
  have m: "m < 64" "m \<noteq> 56" using open_ by (simp_all add: m_def)
  have next_: "length (p @ [CHR 0x00]) mod 64 = (if m = 63 then 0 else m + 1)"
    by (simp add: m_def mod_Suc)
  show "(p @ [CHR 0x00], p) \<in> measure (\<lambda>p. if length p mod 64 \<le> 56 then 56 - length p mod 64 else 120 - length p mod 64)"
    unfolding in_measure next_ m_def [symmetric] using m by (cases "m = 63") auto
qed simp

declare push_zeros.simps [simp del]

definition sha256_padded :: "string \<Rightarrow> string" where
  "sha256_padded input =
     (let bit_len = of_nat (length input) * 8 :: u64
      in push_zeros (input @ [CHR 0x80]) @ be_bytes 8 bit_len)"

function chunks_exact :: "nat \<Rightarrow> 'a list \<Rightarrow> 'a list list" where
  "chunks_exact n xs = (if n = 0 \<or> length xs < n then [] else take n xs # chunks_exact n (drop n xs))"
  by pat_completeness auto
termination by (relation "measure (\<lambda>(n, xs). length xs)") auto

declare chunks_exact.simps [simp del]

text \<open>The message schedule is an array that every chunk overwrites.\<close>

definition load_words :: "string \<Rightarrow> u32 list \<Rightarrow> u32 list" where
  "load_words chunk w =
     fold (\<lambda>(index, word) w. w[index := u32_from_be_bytes word]) (take 16 (enumerate 0 (chunks_exact 4 chunk))) w"

definition schedule_step :: "nat \<Rightarrow> u32 list \<Rightarrow> u32 list" where
  "schedule_step index w =
     (let s0 = word_rotr 7 (w ! (index - 15)) XOR word_rotr 18 (w ! (index - 15)) XOR drop_bit 3 (w ! (index - 15));
          s1 = word_rotr 17 (w ! (index - 2)) XOR word_rotr 19 (w ! (index - 2)) XOR drop_bit 10 (w ! (index - 2))
      in w[index := w ! (index - 16) + s0 + w ! (index - 7) + s1])"

type_synonym sha_state = "u32 \<times> u32 \<times> u32 \<times> u32 \<times> u32 \<times> u32 \<times> u32 \<times> u32"

fun sha_round :: "u32 list \<Rightarrow> nat \<Rightarrow> sha_state \<Rightarrow> sha_state" where
  "sha_round w index (a, b, c, d, e, f, g, hh) =
     (let s1 = word_rotr 6 e XOR word_rotr 11 e XOR word_rotr 25 e;
          ch = (e AND f) XOR ((NOT e) AND g);
          temp1 = hh + s1 + ch + SHA256_K ! index + w ! index;
          s0 = word_rotr 2 a XOR word_rotr 13 a XOR word_rotr 22 a;
          maj = (a AND b) XOR (a AND c) XOR (b AND c);
          temp2 = s0 + maj
      in (temp1 + temp2, a, b, c, d + temp1, e, f, g))"

fun sha_state_of :: "u32 list \<Rightarrow> sha_state" where
  "sha_state_of h = (h ! 0, h ! 1, h ! 2, h ! 3, h ! 4, h ! 5, h ! 6, h ! 7)"

fun sha_words_of :: "sha_state \<Rightarrow> u32 list" where
  "sha_words_of (a, b, c, d, e, f, g, hh) = [a, b, c, d, e, f, g, hh]"

definition sha_chunk :: "string \<Rightarrow> u32 list \<times> u32 list \<Rightarrow> u32 list \<times> u32 list" where
  "sha_chunk chunk st =
     (let (h, w) = st;
          w1 = fold schedule_step [16..<64] (load_words chunk w);
          state = fold (sha_round w1) [0..<64] (sha_state_of h)
      in (map2 (+) h (sha_words_of state), w1))"

definition sha256 :: "string \<Rightarrow> string" where
  "sha256 input =
     (let (h, w) = fold sha_chunk (chunks_exact 64 (sha256_padded input)) (SHA256_H, replicate 64 0)
      in concat (map (\<lambda>word. be_bytes 4 word) h))"

definition xor_byte :: "nat \<Rightarrow> char \<Rightarrow> char" where
  "xor_byte k c = char_of (of_char c XOR k)"

definition hmac_sha256 :: "string \<Rightarrow> string \<Rightarrow> string" where
  "hmac_sha256 key message =
     (let working_key = (if length key > 64 then sha256 key @ replicate 32 (CHR 0x00)
                         else key @ replicate (64 - length key) (CHR 0x00));
          inner_pad = map (xor_byte 0x36) working_key;
          outer_pad = map (xor_byte 0x5c) working_key;
          inner_hash = sha256 (inner_pad @ message)
      in sha256 (outer_pad @ inner_hash))"

text \<open>The comparison looks at every byte: a missing one counts as zero.\<close>

definition byte_or_zero :: "string \<Rightarrow> nat \<Rightarrow> nat" where
  "byte_or_zero s index = (if index < length s then of_char (s ! index) else 0)"

definition constant_time_eq :: "string \<Rightarrow> string \<Rightarrow> bool" where
  "constant_time_eq expected actual =
     (fold (\<lambda>index difference. difference OR (byte_or_zero expected index XOR byte_or_zero actual index))
        [0..<max (length expected) (length actual)] (length expected XOR length actual) = 0)"


section \<open>The comparison\<close>

lemma fold_or_zero:
  "fold (\<lambda>i d. d OR f i) xs (a :: nat) = 0 \<longleftrightarrow> a = 0 \<and> (\<forall>i \<in> set xs. f i = 0)"
  by (induction xs arbitrary: a) (auto simp: or_eq_0_iff)

lemma xor_zero_nat: "(a :: nat) XOR b = 0 \<longleftrightarrow> a = b"
  by (metis xor.left_neutral xor_self_eq xor.assoc xor.right_neutral)

text \<open>The comparison of secrets that reads every byte decides equality, also for texts of different
  lengths, where a missing byte counts as a zero.\<close>

lemma constant_time_eq_is_equality: "constant_time_eq expected actual \<longleftrightarrow> expected = actual"
proof -
  have "constant_time_eq expected actual \<longleftrightarrow> length expected = length actual \<and>
      (\<forall>i < length expected. byte_or_zero expected i = byte_or_zero actual i)"
    by (auto simp: constant_time_eq_def fold_or_zero xor_zero_nat)
  also have "\<dots> \<longleftrightarrow> expected = actual"
    by (auto simp: list_eq_iff_nth_eq byte_or_zero_def)
  finally show ?thesis .
qed

section \<open>The standard\<close>

text \<open>FIPS 180-4: the functions of section 4.1.2, the padding of 5.1.1, the schedule and the working
  variables of 6.2.2, as recursive definitions.\<close>

definition fips_Ch :: "u32 \<Rightarrow> u32 \<Rightarrow> u32 \<Rightarrow> u32" where "fips_Ch x y z = (x AND y) XOR (NOT x AND z)"
definition fips_Maj :: "u32 \<Rightarrow> u32 \<Rightarrow> u32 \<Rightarrow> u32" where "fips_Maj x y z = (x AND y) XOR (x AND z) XOR (y AND z)"
definition fips_Sigma0 :: "u32 \<Rightarrow> u32" where "fips_Sigma0 x = word_rotr 2 x XOR word_rotr 13 x XOR word_rotr 22 x"
definition fips_Sigma1 :: "u32 \<Rightarrow> u32" where "fips_Sigma1 x = word_rotr 6 x XOR word_rotr 11 x XOR word_rotr 25 x"
definition fips_sigma0 :: "u32 \<Rightarrow> u32" where "fips_sigma0 x = word_rotr 7 x XOR word_rotr 18 x XOR drop_bit 3 x"
definition fips_sigma1 :: "u32 \<Rightarrow> u32" where "fips_sigma1 x = word_rotr 17 x XOR word_rotr 19 x XOR drop_bit 10 x"

text \<open>The constants of the standard: the first 32 bits of the fractional parts of the cube roots of the first
  64 primes, and of the square roots of the first eight. \<open>2 ^ 32\<close> times the root lies between \<open>n\<close> and
  \<open>n + 1\<close> exactly when its power lies between theirs.\<close>

definition fips_primes :: "int list" where
  "fips_primes = [2, 3, 5, 7, 11, 13, 17, 19, 23, 29, 31, 37, 41, 43, 47, 53,
     59, 61, 67, 71, 73, 79, 83, 89, 97, 101, 103, 107, 109, 113, 127, 131,
     137, 139, 149, 151, 157, 163, 167, 173, 179, 181, 191, 193, 197, 199, 211, 223,
     227, 229, 233, 239, 241, 251, 257, 263, 269, 271, 277, 281, 283, 293, 307, 311]"

definition fips_root_fraction :: "nat \<Rightarrow> int \<Rightarrow> u32 \<Rightarrow> bool" where
  "fips_root_fraction e p k \<longleftrightarrow>
     list_ex (\<lambda>i. let n = i * 2 ^ 32 + uint k in n ^ e \<le> p * 2 ^ (32 * e) \<and> p * 2 ^ (32 * e) < (n + 1) ^ e) [1..6]"

definition fips_constants :: "u32 list \<Rightarrow> u32 list \<Rightarrow> bool" where
  "fips_constants K H \<longleftrightarrow>
     list_all2 (fips_root_fraction 3) fips_primes K \<and> list_all2 (fips_root_fraction 2) (take 8 fips_primes) H"

lemma constants_are_fips: "fips_constants SHA256_K SHA256_H"
  by code_simp

definition fips_padded :: "string \<Rightarrow> string" where
  "fips_padded m = m @ [CHR 0x80] @ replicate (nat ((55 - int (length m)) mod 64)) (CHR 0x00) @
     be_bytes 8 (of_nat (8 * length m) :: u64)"

text \<open>Word \<open>t\<close> of block \<open>i\<close> of a padded message.\<close>

definition fips_word :: "string \<Rightarrow> nat \<Rightarrow> nat \<Rightarrow> u32" where
  "fips_word p i t = u32_from_be_bytes (take 4 (drop (64 * i + 4 * t) p))"

fun fips_W :: "(nat \<Rightarrow> u32) \<Rightarrow> nat \<Rightarrow> u32" where
  "fips_W M t = (if t < 16 then M t
     else fips_sigma1 (fips_W M (t - 2)) + fips_W M (t - 7) + fips_sigma0 (fips_W M (t - 15)) + fips_W M (t - 16))"

declare fips_W.simps [simp del]

fun fips_vars :: "(nat \<Rightarrow> u32) \<Rightarrow> sha_state \<Rightarrow> nat \<Rightarrow> sha_state" where
  "fips_vars W st 0 = st"
| "fips_vars W st (Suc t) =
     (let (a, b, c, d, e, f, g, h) = fips_vars W st t;
          T1 = h + fips_Sigma1 e + fips_Ch e f g + SHA256_K ! t + W t;
          T2 = fips_Sigma0 a + fips_Maj a b c
      in (T1 + T2, a, b, c, d + T1, e, f, g))"

fun fips_H :: "string \<Rightarrow> nat \<Rightarrow> u32 list" where
  "fips_H p 0 = SHA256_H"
| "fips_H p (Suc i) =
     map2 (+) (fips_H p i) (sha_words_of (fips_vars (fips_W (fips_word p i)) (sha_state_of (fips_H p i)) 64))"

definition fips_sha256 :: "string \<Rightarrow> string" where
  "fips_sha256 m = concat (map (be_bytes 4) (fips_H (fips_padded m) (length (fips_padded m) div 64)))"

section \<open>The loops compute the standard\<close>

lemma pad_value: "(56 - int n) mod 64 = (if n mod 64 \<le> 56 then 56 - int (n mod 64) else 120 - int (n mod 64))"
proof -
  define r where "r = n mod 64"
  have "int n = int r + 64 * int (n div 64)" unfolding r_def by (metis mod_mult_div_eq of_nat_add of_nat_mult of_nat_numeral)
  then have n: "(56 - int n) mod 64 = (56 - int r) mod 64"
    using mod_mult_self2 [of "56 - int r" 64 "- int (n div 64)"] by (simp add: algebra_simps)
  have r: "r < 64" by (simp add: r_def)
  show ?thesis
  proof (cases "r \<le> 56")
    case True
    then have "(56 - int r) mod 64 = 56 - int r" by (intro mod_pos_pos_trivial) simp_all
    with True n show ?thesis by (simp add: r_def)
  next
    case False
    have "(56 - int r) mod 64 = (120 - int r) mod 64"
      using mod_add_self2 [of "56 - int r" 64] by (simp add: algebra_simps)
    also have "\<dots> = 120 - int r" using False r by (intro mod_pos_pos_trivial) simp_all
    finally show ?thesis using False n by (simp add: r_def)
  qed
qed

lemma pad_counter:
  "(56 - int n) mod 64 = 0 \<longleftrightarrow> n mod 64 = 56"
  "n mod 64 \<noteq> 56 \<Longrightarrow> (56 - int n) mod 64 = (56 - int (Suc n)) mod 64 + 1"
  unfolding pad_value by (auto simp: mod_Suc)

lemma push_zeros_replicate: "push_zeros p = p @ replicate (nat ((56 - int (length p)) mod 64)) (CHR 0x00)"
proof (induction p rule: push_zeros.induct)
  case (1 p)
  show ?case
  proof (cases "length p mod 64 = 56")
    case True
    then show ?thesis using pad_counter(1) [of "length p"] by (simp add: push_zeros.simps [of p])
  next
    case False
    have "nat ((56 - int (length p)) mod 64) = Suc (nat ((56 - int (length (p @ [CHR 0x00]))) mod 64))"
      using pad_counter(2) [OF False] by (simp add: nat_add_distrib)
    then show ?thesis using "1.IH" [OF False] False by (simp add: push_zeros.simps [of p])
  qed
qed

lemma padded_is_fips: "sha256_padded m = fips_padded m"
  by (simp add: sha256_padded_def fips_padded_def push_zeros_replicate Let_def algebra_simps)

lemma be_bytes_length [simp]: "length (be_bytes n x) = n"
  by (induction n arbitrary: x) simp_all

lemma padded_length: "length (fips_padded m) mod 64 = 0"
proof -
  define r where "r = length m mod 64"
  have "nat ((55 - int (length m)) mod 64) = (if r \<le> 55 then 55 - r else 119 - r)"
    using pad_value [of "Suc (length m)"] by (auto simp: r_def mod_Suc nat_diff_distrib)
  moreover have "(length m + k) mod 64 = (r + k) mod 64" for k by (simp add: r_def mod_add_left_eq)
  moreover have "r < 64" by (simp add: r_def)
  ultimately show ?thesis by (auto simp: fips_padded_def)
qed

lemma chunks_exact_nth:
  assumes "0 < n"
  shows "length (chunks_exact n xs) = length xs div n \<and>
    (\<forall>i < length xs div n. chunks_exact n xs ! i = take n (drop (n * i) xs))"
  using assms
proof (induction n xs rule: chunks_exact.induct)
  case (1 n xs)
  show ?case
  proof (cases "length xs < n")
    case True
    then show ?thesis by (simp add: chunks_exact.simps [of n xs])
  next
    case False
    then have "length xs div n = Suc ((length xs - n) div n)" using "1.prems" by (simp add: le_div_geq)
    moreover have "(take n xs # zs) ! i = take n (drop (n * i) xs)"
      if "length zs = (length xs - n) div n" "\<forall>i < (length xs - n) div n. zs ! i = take n (drop (n * i) (drop n xs))"
        "i < Suc ((length xs - n) div n)" for i zs
      using that by (cases i) (simp_all add: add.commute)
    ultimately show ?thesis using "1.IH" False "1.prems" by (simp add: chunks_exact.simps [of n xs])
  qed
qed

lemma load_words_spec:
  assumes "length chunk = 64" and "length w = 64"
  shows "length (load_words chunk w) = 64"
    and "t < 16 \<Longrightarrow> load_words chunk w ! t = u32_from_be_bytes (take 4 (drop (4 * t) chunk))"
proof -
  have loop: "length (fold (\<lambda>(i, x) w. w[i := f x]) (enumerate k xs) w) = length w \<and>
      (\<forall>t. t < length w \<longrightarrow> fold (\<lambda>(i, x) w. w[i := f x]) (enumerate k xs) w ! t =
        (if k \<le> t \<and> t < k + length xs then f (xs ! (t - k)) else w ! t))" for f :: "string \<Rightarrow> u32" and k xs w
    by (induction xs arbitrary: k w) (auto simp: nth_Cons' nth_list_update)
  have all: "take 16 (enumerate 0 (chunks_exact 4 chunk)) = enumerate 0 (chunks_exact 4 chunk)"
    using chunks_exact_nth [of 4 chunk] assms(1) by simp
  show "length (load_words chunk w) = 64" unfolding load_words_def all using loop assms(2) by simp
  show "load_words chunk w ! t = u32_from_be_bytes (take 4 (drop (4 * t) chunk))" if "t < 16"
    unfolding load_words_def all using loop assms that chunks_exact_nth [of 4 chunk] by simp
qed

lemma schedule_spec:
  assumes "length w = 64" and "\<forall>t < 16. w ! t = M t" and "16 \<le> n" and "n \<le> 64"
  shows "length (fold schedule_step [16..<n] w) = 64 \<and> (\<forall>t < n. fold schedule_step [16..<n] w ! t = fips_W M t)"
  using assms(3,4)
proof (induction n rule: dec_induct)
  case base
  then show ?case using assms(1,2) by (simp add: fips_W.simps)
next
  case (step n)
  let ?w = "fold schedule_step [16..<n] w"
  have IH: "length ?w = 64" "\<And>t. t < n \<Longrightarrow> ?w ! t = fips_W M t" using step by simp_all
  have "schedule_step n ?w = ?w[n := fips_W M n]"
    using IH step.hyps by (simp add: schedule_step_def Let_def fips_W.simps [of M n] fips_sigma0_def fips_sigma1_def algebra_simps)
  then show ?case using IH step by (auto simp: less_Suc_eq nth_list_update)
qed

lemma rounds_spec:
  assumes "\<forall>t < n. w ! t = W t"
  shows "fold (sha_round w) [0..<n] st = fips_vars W st n"
  using assms
proof (induction n)
  case (Suc n)
  then show ?case
    by (simp add: Let_def fips_Sigma0_def fips_Sigma1_def fips_Ch_def fips_Maj_def split: prod.split)
qed simp

lemma sha_chunk_spec:
  assumes "length chunk = 64" and "length w = 64"
    and "\<And>t. t < 16 \<Longrightarrow> u32_from_be_bytes (take 4 (drop (4 * t) chunk)) = M t"
  shows "fst (sha_chunk chunk (h, w)) = map2 (+) h (sha_words_of (fips_vars (fips_W M) (sha_state_of h) 64))"
    and "length (snd (sha_chunk chunk (h, w))) = 64"
proof -
  note load = load_words_spec [OF assms(1,2)]
  have w1: "length (fold schedule_step [16..<64] (load_words chunk w)) = 64"
    "\<forall>t < 64. fold schedule_step [16..<64] (load_words chunk w) ! t = fips_W M t"
    using schedule_spec [OF load(1), of M 64] load(2) assms(3) by simp_all
  show "fst (sha_chunk chunk (h, w)) = map2 (+) h (sha_words_of (fips_vars (fips_W M) (sha_state_of h) 64))"
    using rounds_spec [OF w1(2), of "sha_state_of h"] by (simp add: sha_chunk_def Let_def)
  show "length (snd (sha_chunk chunk (h, w))) = 64" using w1(1) by (simp add: sha_chunk_def Let_def)
qed

lemma chunk_loop_spec:
  assumes "i \<le> length p div 64"
  shows "fst (fold sha_chunk (take i (chunks_exact 64 p)) (SHA256_H, replicate 64 0)) = fips_H p i \<and>
    length (snd (fold sha_chunk (take i (chunks_exact 64 p)) (SHA256_H, replicate 64 0))) = 64"
  using assms
proof (induction i)
  case (Suc i)
  obtain h w where hw: "fold sha_chunk (take i (chunks_exact 64 p)) (SHA256_H, replicate 64 0) = (h, w)" by fastforce
  have h: "h = fips_H p i" "length w = 64" using Suc hw by simp_all
  have i: "i < length (chunks_exact 64 p)" using Suc.prems chunks_exact_nth [of 64 p] by simp
  let ?c = "chunks_exact 64 p ! i"
  have c: "?c = take 64 (drop (64 * i) p)" using Suc.prems chunks_exact_nth [of 64 p] by simp
  have "64 * Suc i \<le> length p" using Suc.prems by (metis div_times_less_eq_dividend mult.commute mult_le_mono2 order.trans)
  then have len: "length ?c = 64" using c by simp
  have M: "u32_from_be_bytes (take 4 (drop (4 * t) ?c)) = fips_word p i t" if "t < 16" for t
  proof -
    have "take 4 (drop (4 * t) ?c) = take 4 (drop (64 * i + 4 * t) p)"
      using that by (simp add: c drop_take min_def add.commute)
    then show ?thesis by (simp add: fips_word_def)
  qed
  show ?case
    using sha_chunk_spec [OF len h(2) M, of h] i hw h(1) by (simp add: take_Suc_conv_app_nth)
qed simp

lemma sha256_fips: "sha256 input = fips_sha256 input"
proof -
  let ?p = "fips_padded input"
  have "take (length ?p div 64) (chunks_exact 64 ?p) = chunks_exact 64 ?p"
    using chunks_exact_nth [of 64 ?p] by simp
  then show ?thesis
    using chunk_loop_spec [of "length ?p div 64" ?p]
    by (simp add: sha256_def fips_sha256_def padded_is_fips split_beta)
qed

text \<open>C10. The hand-written SHA-256 is the standard's: for every input, the loops over the padded message,
  the schedule array that is reused from chunk to chunk and the eight working variables compute the
  recursive definition of FIPS 180-4, and the tables hold the constants the standard derives from primes.\<close>

theorem sha256_is_fips: "sha256 input = fips_sha256 input \<and> fips_constants SHA256_K SHA256_H"
  using sha256_fips constants_are_fips by blast

section \<open>A test vector\<close>

definition abc_schedule :: "u32 list" where
  "abc_schedule =
     [0x61626380, 0x00000000, 0x00000000, 0x00000000, 0x00000000, 0x00000000, 0x00000000, 0x00000000,
      0x00000000, 0x00000000, 0x00000000, 0x00000000, 0x00000000, 0x00000000, 0x00000000, 0x00000018,
      0x61626380, 0x000f0000, 0x7da86405, 0x600003c6, 0x3e9d7b78, 0x0183fc00, 0x12dcbfdb, 0xe2e2c38e,
      0xc8215c1a, 0xb73679a2, 0xe5bc3909, 0x32663c5b, 0x9d209d67, 0xec8726cb, 0x702138a4, 0xd3b7973b,
      0x93f5997f, 0x3b68ba73, 0xaff4ffc1, 0xf10a5c62, 0x0a8b3996, 0x72af830a, 0x9409e33e, 0x24641522,
      0x9f47bf94, 0xf0a64f5a, 0x3e246a79, 0x27333ba3, 0x0c4763f2, 0x840abf27, 0x7a290d5d, 0x065c43da,
      0xfb3e89cb, 0xcc7617db, 0xb9e66c34, 0xa9993667, 0x84badedd, 0xc21462bc, 0x1487472c, 0xb20f7a99,
      0xef57b9cd, 0xebe6b238, 0x9fe3095e, 0x78bc8d4b, 0xa43fcf15, 0x668b2ff8, 0xeeaba2cc, 0x12b1edeb]"

lemma abc_schedule: "fold schedule_step [16..<64] (load_words (sha256_padded ''abc'') (replicate 64 0)) = abc_schedule"
  by code_simp

lemma abc_state: "fold (sha_round abc_schedule) [0..<64] (sha_state_of SHA256_H) =
    (0x506e3058, 0xd39a2165, 0x04d24d6c, 0xb85e2ce9,
      0x5ef50f24, 0xfb121210, 0x948d25b6, 0x961f4894)"
  by code_simp

lemma abc_chunk: "chunks_exact 64 (sha256_padded ''abc'') = [sha256_padded ''abc'']"
  by code_simp

lemma sha256_abc: "sha256 ''abc'' = map char_of
    [0xba, 0x78, 0x16, 0xbf, 0x8f, 0x01, 0xcf, 0xea, 0x41, 0x41, 0x40, 0xde, 0x5d, 0xae, 0x22, 0x23, 0xb0, 0x03, 0x61, 0xa3, 0x96, 0x17, 0x7a, 0x9c, 0xb4, 0x10, 0xff, 0x61, 0xf2, 0x00, 0x15, 0xad :: nat]"
  unfolding sha256_def abc_chunk by (simp add: sha_chunk_def abc_schedule abc_state) code_simp

end
