(* ===== verification/Auth.thy ===== *)
theory Auth
  imports Sha256 Wire
begin

text \<open>
  Authentication, \<open>apps/heiwa_core/src/auth.rs\<close>: the signature of a local request, JSON web tokens,
  and who a pair of headers authenticates. SHA-256 and HMAC are those of \<open>Sha256\<close>; base64 and
  \<open>serde\<close>'s codecs are parameters.
\<close>

section \<open>Data\<close>

type_synonym u16 = "16 word"

record AuthClaims =
  ac_sub :: string
  ac_owner_id :: string
  ac_principal_id :: string
  ac_username :: "string option"
  ac_discord_user_id :: "string option"
  ac_iat :: int
  ac_exp :: int
  ac_iss :: string
  ac_aud :: string

datatype AuthSubject = Operator | User AuthClaims

record auth_lib =
  al_base64 :: "string \<Rightarrow> string"
  al_unbase64 :: "string \<Rightarrow> string option"
  al_to_text :: "json \<Rightarrow> string"
  al_claims_to_text :: "AuthClaims \<Rightarrow> string"
  al_claims_of_text :: "string \<Rightarrow> AuthClaims option"

datatype auth_error =
    BadMethod | BadPort | BadTarget | BodyTooLarge | BadRequestSecret | BadTimestamp | BadNonce | BadVersion | SkewExceeded
  | BadSignatureEncoding | BadSignature | InvalidSecret | MissingPayload | MissingSignature | TooManySegments
  | BadPayloadEncoding | BadClaims | TokenExpired | InvalidIssuer | InvalidAudience | AuthRefused

section \<open>Signed local requests\<close>

definition LOCAL_REQUEST_AUTH_VERSION :: string where "LOCAL_REQUEST_AUTH_VERSION = ''1''"
definition LOCAL_REQUEST_MAX_TARGET_BYTES :: nat where "LOCAL_REQUEST_MAX_TARGET_BYTES = 8 * 1024"
definition LOCAL_REQUEST_MAX_BODY_BYTES :: nat where "LOCAL_REQUEST_MAX_BODY_BYTES = 10 * 1024 * 1024"
definition LOCAL_REQUEST_MAX_SKEW_SECONDS :: nat where "LOCAL_REQUEST_MAX_SKEW_SECONDS = 30"

record LocalRequestParts =
  lp_method :: string
  lp_port :: u16
  lp_target :: string
  lp_body :: string

record LocalRequestSignature =
  ls_version :: string
  ls_timestamp :: string
  ls_nonce :: string
  ls_signature :: string

record VerifiedLocalRequest =
  vr_timestamp :: int
  vr_nonce :: string

text \<open>\<open>to_string\<close> of an \<open>i64\<close>, and \<open>abs_diff\<close>.\<close>

definition i64_text :: "int \<Rightarrow> string" where
  "i64_text v = (if v < 0 then CHR ''-'' # decimal (nat (- v)) else decimal (nat v))"

definition abs_diff :: "int \<Rightarrow> int \<Rightarrow> nat" where
  "abs_diff a b = nat \<bar>a - b\<bar>"

definition digit :: "char \<Rightarrow> bool" where "digit c \<longleftrightarrow> 48 \<le> byte c \<and> byte c \<le> 57"

definition sha256_hex :: "string \<Rightarrow> string" where
  "sha256_hex input = concat (map hex_byte (sha256 input))"

definition sign_bytes :: "string \<Rightarrow> string \<Rightarrow> auth_error + string" where
  "sign_bytes input secret = (if secret = [] then Inl InvalidSecret else Inr (hmac_sha256 secret input))"

definition canonical_local_request :: "LocalRequestParts \<Rightarrow> int \<Rightarrow> string \<Rightarrow> string" where
  "canonical_local_request parts timestamp nonce =
     ''heiwa-local-request-v1'' @ [NL] @ lp_method parts @ [NL] @ decimal (unat (lp_port parts)) @ [NL] @
     lp_target parts @ [NL] @ sha256_hex (lp_body parts) @ [NL] @ i64_text timestamp @ [NL] @ nonce"

definition validate_local_request_parts :: "LocalRequestParts \<Rightarrow> auth_error option" where
  "validate_local_request_parts parts =
     (if lp_method parts = [] \<or> length (lp_method parts) > 16 \<or>
        \<not> list_all (\<lambda>c. 65 \<le> byte c \<and> byte c \<le> 90) (lp_method parts) then Some BadMethod
      else if lp_port parts = 0 then Some BadPort
      else if lp_target parts = [] \<or> length (lp_target parts) > LOCAL_REQUEST_MAX_TARGET_BYTES \<or>
        hd (lp_target parts) \<noteq> CHR ''/'' \<or>
        \<not> list_all (\<lambda>c. byte c < 128 \<and> \<not> (byte c < 32 \<or> byte c = 127) \<and> c \<noteq> CHR '' '') (lp_target parts) then Some BadTarget
      else if length (lp_body parts) > LOCAL_REQUEST_MAX_BODY_BYTES then Some BodyTooLarge
      else None)"

definition validate_local_request_secret :: "string \<Rightarrow> auth_error option" where
  "validate_local_request_secret secret =
     (if trim secret = [] \<or> length secret > 4 * 1024 then Some BadRequestSecret else None)"

definition validate_local_request_timestamp :: "int \<Rightarrow> auth_error option" where
  "validate_local_request_timestamp timestamp =
     (if timestamp < 0 \<or> length (i64_text timestamp) > 20 then Some BadTimestamp else None)"

definition parse_local_request_timestamp :: "string \<Rightarrow> auth_error + int" where
  "parse_local_request_timestamp raw =
     (if raw = [] \<or> length raw > 20 \<or> \<not> list_all digit raw then Inl BadTimestamp
      else (case digits_value 0 raw of
              None \<Rightarrow> Inl BadTimestamp
            | Some n \<Rightarrow>
                if n \<ge> 2 ^ 63 then Inl BadTimestamp
                else (case validate_local_request_timestamp (int n) of
                        Some err \<Rightarrow> Inl err
                      | None \<Rightarrow> if raw \<noteq> i64_text (int n) then Inl BadTimestamp else Inr (int n))))"

definition validate_local_request_nonce :: "string \<Rightarrow> auth_error option" where
  "validate_local_request_nonce nonce =
     (if length nonce \<noteq> 32 \<or> \<not> list_all (\<lambda>c. digit c \<or> (97 \<le> byte c \<and> byte c \<le> 102)) nonce
      then Some BadNonce else None)"

text \<open>The \<open>?\<close> of a check that returns nothing.\<close>

definition checked :: "auth_error option \<Rightarrow> (auth_error + 'a) \<Rightarrow> auth_error + 'a" where
  "checked c k = (case c of Some err \<Rightarrow> Inl err | None \<Rightarrow> k)"

definition sign_local_request ::
    "auth_lib \<Rightarrow> LocalRequestParts \<Rightarrow> int \<Rightarrow> string \<Rightarrow> string \<Rightarrow> auth_error + LocalRequestSignature" where
  "sign_local_request A parts timestamp nonce secret =
     checked (validate_local_request_parts parts) (
     checked (validate_local_request_secret secret) (
     checked (validate_local_request_timestamp timestamp) (
     checked (validate_local_request_nonce nonce) (
     (case sign_bytes (canonical_local_request parts timestamp nonce) secret of
        Inl err \<Rightarrow> Inl err
      | Inr mac \<Rightarrow>
          Inr \<lparr>ls_version = LOCAL_REQUEST_AUTH_VERSION, ls_timestamp = i64_text timestamp, ls_nonce = nonce,
               ls_signature = al_base64 A mac\<rparr>)))))"

definition signature_shape :: "string \<Rightarrow> bool" where
  "signature_shape s \<longleftrightarrow> length s = 43 \<and> list_all (\<lambda>c. is_ascii_alphanumeric c \<or> c = CHR ''-'' \<or> c = CHR ''_'') s"

definition verify_local_request ::
    "auth_lib \<Rightarrow> LocalRequestParts \<Rightarrow> LocalRequestSignature \<Rightarrow> string \<Rightarrow> int \<Rightarrow> auth_error + VerifiedLocalRequest" where
  "verify_local_request A parts sig secret now =
     checked (validate_local_request_parts parts) (
     checked (validate_local_request_secret secret) (
     if ls_version sig \<noteq> LOCAL_REQUEST_AUTH_VERSION then Inl BadVersion
     else (case parse_local_request_timestamp (ls_timestamp sig) of
             Inl err \<Rightarrow> Inl err
           | Inr timestamp \<Rightarrow>
               if abs_diff timestamp now > LOCAL_REQUEST_MAX_SKEW_SECONDS then Inl SkewExceeded
               else checked (validate_local_request_nonce (ls_nonce sig)) (
                 if \<not> signature_shape (ls_signature sig) then Inl BadSignatureEncoding
                 else (case al_unbase64 A (ls_signature sig) of
                         None \<Rightarrow> Inl BadSignatureEncoding
                       | Some actual \<Rightarrow>
                           (case sign_bytes (canonical_local_request parts timestamp (ls_nonce sig)) secret of
                              Inl err \<Rightarrow> Inl err
                            | Inr expected \<Rightarrow>
                                if \<not> constant_time_eq expected actual then Inl BadSignature
                                else Inr \<lparr>vr_timestamp = timestamp, vr_nonce = ls_nonce sig\<rparr>))))))"

section \<open>JSON web tokens\<close>

definition jwt_header :: json where
  "jwt_header = JObject [(''alg'', JString ''HS256''), (''typ'', JString ''JWT'')]"

definition sign_jwt :: "auth_lib \<Rightarrow> AuthClaims \<Rightarrow> string \<Rightarrow> auth_error + string" where
  "sign_jwt A claims secret =
     (let header = al_base64 A (al_to_text A jwt_header);
          payload = al_base64 A (al_claims_to_text A claims);
          signing_input = header @ ''.'' @ payload
      in case sign_bytes signing_input secret of
           Inl err \<Rightarrow> Inl err
         | Inr mac \<Rightarrow> Inr (signing_input @ ''.'' @ al_base64 A mac))"

definition verify_jwt :: "auth_lib \<Rightarrow> int \<Rightarrow> string \<Rightarrow> string \<Rightarrow> auth_error + AuthClaims" where
  "verify_jwt A now token secret =
     (case split_on (\<lambda>c. c = CHR ''.'') token of
        header # payload # encoded # rest \<Rightarrow>
          if rest \<noteq> [] then Inl TooManySegments
          else (case sign_bytes (header @ ''.'' @ payload) secret of
                  Inl err \<Rightarrow> Inl err
                | Inr expected \<Rightarrow>
                    (case al_unbase64 A encoded of
                       None \<Rightarrow> Inl BadSignatureEncoding
                     | Some actual \<Rightarrow>
                         if expected \<noteq> actual then Inl BadSignature
                         else (case al_unbase64 A payload of
                                 None \<Rightarrow> Inl BadPayloadEncoding
                               | Some raw \<Rightarrow>
                                   (case al_claims_of_text A raw of
                                      None \<Rightarrow> Inl BadClaims
                                    | Some claims \<Rightarrow>
                                        if ac_exp claims < now then Inl TokenExpired
                                        else if ac_iss claims \<noteq> ''heiwa-core'' then Inl InvalidIssuer
                                        else if ac_aud claims \<noteq> ''heiwa'' then Inl InvalidAudience
                                        else Inr claims))))
      | [_, _] \<Rightarrow> Inl MissingSignature
      | _ \<Rightarrow> Inl MissingPayload)"

section \<open>Whom the headers authenticate\<close>

record auth_config =
  cf_machine_auth_token :: string
  cf_jwt_signing_secret :: string

definition parse_bearer_token :: "string \<Rightarrow> string option" where
  "parse_bearer_token header =
     (let trimmed = trim header in
      if trimmed = [] then None
      else (case strip_prefix ''Bearer '' trimmed of
              Some token \<Rightarrow> let token = trim token in if token = [] then None else Some token
            | None \<Rightarrow> Some trimmed))"

definition parse_session_cookie :: "string \<Rightarrow> string option" where
  "parse_session_cookie cookie_header =
     (case List.map_filter (strip_prefix ''heiwa_session='') (map trim (split_on (\<lambda>c. c = CHR '';'') cookie_header)) of
        [] \<Rightarrow> None
      | value # _ \<Rightarrow> if value = [] then None else Some value)"

definition jwt_subject :: "auth_lib \<Rightarrow> int \<Rightarrow> auth_config \<Rightarrow> string \<Rightarrow> AuthSubject option" where
  "jwt_subject A now cfg token =
     (if cf_jwt_signing_secret cfg = [] then None
      else (case verify_jwt A now token (cf_jwt_signing_secret cfg) of Inr claims \<Rightarrow> Some (User claims) | Inl _ \<Rightarrow> None))"

definition extract_auth_subject ::
    "auth_lib \<Rightarrow> int \<Rightarrow> string option \<Rightarrow> string option \<Rightarrow> auth_config \<Rightarrow> auth_error + AuthSubject" where
  "extract_auth_subject A now cookie_header authorization_header cfg =
     (case (case Option.bind authorization_header parse_bearer_token of
              None \<Rightarrow> None
            | Some token \<Rightarrow>
                if token = cf_machine_auth_token cfg then Some Operator else jwt_subject A now cfg token) of
        Some subject \<Rightarrow> Inr subject
      | None \<Rightarrow>
          (case Option.bind (Option.bind cookie_header parse_session_cookie) (jwt_subject A now cfg) of
             Some subject \<Rightarrow> Inr subject
           | None \<Rightarrow> Inl AuthRefused))"

definition auth_me_payload :: "AuthSubject \<Rightarrow> json" where
  "auth_me_payload subject = JObject [(''authenticated'', JBool True), (''subject'',
     (case subject of
        Operator \<Rightarrow> JObject [(''kind'', JString ''operator''), (''owner_id'', JString ''local-operator''),
          (''principal_id'', JString ''local-operator'')]
      | User claims \<Rightarrow> JObject [(''discord_user_id'', opt_str (ac_discord_user_id claims)), (''kind'', JString ''user''),
          (''owner_id'', JString (ac_owner_id claims)), (''principal_id'', JString (ac_principal_id claims)),
          (''sub'', JString (ac_sub claims)), (''username'', opt_str (ac_username claims))]))]"

definition auth_me_from_headers ::
    "auth_lib \<Rightarrow> int \<Rightarrow> string option \<Rightarrow> string option \<Rightarrow> auth_config \<Rightarrow> nat \<times> json" where
  "auth_me_from_headers A now cookie_header authorization_header cfg =
     (case extract_auth_subject A now cookie_header authorization_header cfg of
        Inr subject \<Rightarrow> (200, auth_me_payload subject)
      | Inl _ \<Rightarrow> (401, JObject [(''authenticated'', JBool False), (''error'', JString ''unauthorized'')]))"

section \<open>Decimal numbers\<close>

lemma digits_value_snoc:
  "digits_value n (s @ [c]) =
     (case digits_value n s of None \<Rightarrow> None | Some m \<Rightarrow> if digit c then Some (m * 10 + (byte c - 48)) else None)"
  by (induction s arbitrary: n) (simp_all add: digit_def)

lemma decimal_digits: "list_all digit (decimal n)" "decimal n \<noteq> []"
proof (induction n rule: decimal.induct)
  case (1 n)
  have "n mod 10 \<le> 9" using mod_less_divisor [of 10 n] by linarith
  { case 1 show ?case using "1.IH" \<open>n mod 10 \<le> 9\<close> by (cases "n < 10") (simp_all add: decimal.simps [of n] digit_def) }
  { case 2 show ?case by (simp add: decimal.simps [of n]) }
qed

lemma digits_value_decimal: "digits_value 0 (decimal n) = Some n"
proof (induction n rule: decimal.induct)
  case (1 n)
  show ?case
  proof (cases "n < 10")
    case True
    then show ?thesis by (simp add: decimal.simps [of n])
  next
    case False
    with 1 have "digits_value 0 (decimal (n div 10)) = Some (n div 10)" by simp
    with False show ?thesis by (simp add: decimal.simps [of n] digits_value_snoc digit_def)
  qed
qed

lemma decimal_inject: "decimal m = decimal n \<longleftrightarrow> m = n"
  using digits_value_decimal by (metis option.inject)

lemma digit_not_NL: "list_all digit s \<Longrightarrow> NL \<notin> set s"
  by (auto simp: list_all_iff digit_def)

lemma i64_text_inject: "i64_text a = i64_text b \<longleftrightarrow> a = b"
proof -
  have "CHR ''-'' # s \<noteq> decimal n" for s n
  proof
    assume "CHR ''-'' # s = decimal n"
    then have "list_all digit (CHR ''-'' # s)" using decimal_digits(1) [of n] by simp
    then show False by (simp add: digit_def)
  qed
  then show ?thesis by (auto simp: i64_text_def decimal_inject dest: sym)
qed

section \<open>The signed text\<close>

text \<open>Lines without a line feed of their own determine, and are determined by, the text they are joined to.\<close>

definition frame :: "string list \<Rightarrow> string \<Rightarrow> string" where
  "frame ls rest = foldr (\<lambda>l r. l @ NL # r) ls rest"

lemma line_inject: "NL \<notin> set a \<Longrightarrow> NL \<notin> set b \<Longrightarrow> a @ NL # r = b @ NL # r' \<longleftrightarrow> a = b \<and> r = r'"
proof (induction a arbitrary: b)
  case Nil
  then show ?case by (cases b) auto
next
  case (Cons c a)
  then show ?case by (cases b) auto
qed

lemma frame_inject:
  assumes "length ls = length ms" and "\<forall>l \<in> set ls \<union> set ms. NL \<notin> set l" and "frame ls r = frame ms r'"
  shows "ls = ms \<and> r = r'"
  using assms
proof (induction ls ms rule: list_induct2)
  case (Cons l ls m ms)
  then show ?case using line_inject [of l m "frame ls r" "frame ms r'"] by (simp add: frame_def)
qed (simp add: frame_def)

lemma hex_byte_shape: "NL \<notin> set (hex_byte c)" "hex_byte c = hex_byte d \<longleftrightarrow> c = d"
proof -
  have small: "byte x div 16 < 16" "byte x mod 16 < 16" for x by (simp_all add: div_less_iff_less_mult)
  have "hex_digit k \<noteq> NL" if "k < 16" for k using hex_digit_cases [OF that] by force
  then have "hex_digit (byte c div 16) \<noteq> NL" "hex_digit (byte c mod 16) \<noteq> NL" using small by blast+
  then show "NL \<notin> set (hex_byte c)" by (simp add: hex_byte_def eq_commute [of NL])
  have "c = d" if "hex_byte c = hex_byte d"
  proof -
    have "hex_digit (byte c div 16) = hex_digit (byte d div 16)" "hex_digit (byte c mod 16) = hex_digit (byte d mod 16)"
      using that by (simp_all add: hex_byte_def)
    then have "Some (byte c div 16) = Some (byte d div 16)" "Some (byte c mod 16) = Some (byte d mod 16)"
      using hex_val_digit small by metis+
    then have "byte c div 16 * 16 + byte c mod 16 = byte d div 16 * 16 + byte d mod 16" by (simp only: option.inject)
    then have "byte c = byte d" unfolding div_mult_mod_eq .
    then show ?thesis by (simp only: of_char_eq_iff)
  qed
  then show "hex_byte c = hex_byte d \<longleftrightarrow> c = d" by auto
qed

lemma hex_inject: "concat (map hex_byte s) = concat (map hex_byte t) \<longleftrightarrow> s = t"
proof (induction s arbitrary: t)
  case Nil
  then show ?case by (cases t) (simp_all add: hex_byte_def)
next
  case (Cons c s)
  show ?case
  proof (cases t)
    case (Cons d u)
    have "hex_byte c @ x = hex_byte d @ y \<longleftrightarrow> c = d \<and> x = y" for x y
      using hex_byte_shape(2) [of c d] by (auto simp: hex_byte_def)
    then show ?thesis using Cons Cons.IH by simp
  qed (simp add: hex_byte_def)
qed

lemma canonical_inject:
  assumes "validate_local_request_parts p = None" and "validate_local_request_parts q = None"
    and "canonical_local_request p t n = canonical_local_request q u m"
  shows "lp_method p = lp_method q \<and> lp_port p = lp_port q \<and> lp_target p = lp_target q \<and>
    sha256 (lp_body p) = sha256 (lp_body q) \<and> t = u \<and> n = m"
proof -
  have lines: "NL \<notin> set (lp_method r)" "NL \<notin> set (lp_target r)" if "validate_local_request_parts r = None" for r
  proof -
    have "list_all (\<lambda>c. 65 \<le> byte c \<and> byte c \<le> 90) (lp_method r)"
      "list_all (\<lambda>c. byte c < 128 \<and> \<not> (byte c < 32 \<or> byte c = 127) \<and> c \<noteq> CHR '' '') (lp_target r)"
      using that unfolding validate_local_request_parts_def by (simp_all split: if_splits)
    then show "NL \<notin> set (lp_method r)" "NL \<notin> set (lp_target r)" by (fastforce simp: list_all_iff)+
  qed
  have texts: "NL \<notin> set (decimal k)" "NL \<notin> set (sha256_hex b)" "NL \<notin> set (i64_text v)" for k b v
    using digit_not_NL [OF decimal_digits(1)] hex_byte_shape(1) by (auto simp: sha256_hex_def i64_text_def)
  let ?lines = "\<lambda>r v. [''heiwa-local-request-v1'', lp_method r, decimal (unat (lp_port r)), lp_target r, sha256_hex (lp_body r), i64_text v]"
  have "canonical_local_request r v k = frame (?lines r v) k" for r v k
    by (simp add: canonical_local_request_def frame_def)
  then have "frame (?lines p t) n = frame (?lines q u) m" using assms(3) by simp
  moreover have "\<forall>l \<in> set (?lines p t) \<union> set (?lines q u). NL \<notin> set l"
    using lines [OF assms(1)] lines [OF assms(2)] texts by simp
  ultimately have "?lines p t = ?lines q u \<and> n = m" by (intro frame_inject) simp_all
  then show ?thesis by (auto simp: decimal_inject i64_text_inject sha256_hex_def hex_inject word_unat_eq_iff)
qed

section \<open>What a signature proves\<close>

text \<open>URL-safe base64 without padding: it reads back, it uses its alphabet, and 32 bytes are 43 letters.\<close>

locale url_base64 =
  fixes A :: auth_lib
  assumes base64_reads_back: "al_unbase64 A (al_base64 A s) = Some s"
    and base64_alphabet: "list_all (\<lambda>c. is_ascii_alphanumeric c \<or> c = CHR ''-'' \<or> c = CHR ''_'') (al_base64 A s)"
    and base64_digest: "length s = 32 \<Longrightarrow> length (al_base64 A s) = 43"

lemma sha256_length: "length (sha256 m) = 32"
proof -
  have H: "length (fips_H p i) = 8" for p i
  proof (induction i)
    case (Suc i)
    have "length (sha_words_of st) = 8" for st by (cases st rule: sha_words_of.cases) simp
    with Suc show ?case by simp
  qed (simp add: SHA256_H_def)
  have "length (concat (map (be_bytes 4) (ws :: u32 list))) = 4 * length ws" for ws by (induction ws) simp_all
  then show ?thesis by (simp add: sha256_fips fips_sha256_def H)
qed

lemma hmac_length: "length (hmac_sha256 k m) = 32"
  by (simp add: hmac_sha256_def sha256_length Let_def)

lemmas request_checks = sign_local_request_def verify_local_request_def checked_def sign_bytes_def

lemma signed_request:
  "sign_local_request A parts t n secret = Inr sig \<longleftrightarrow>
     validate_local_request_parts parts = None \<and> validate_local_request_secret secret = None \<and>
     validate_local_request_timestamp t = None \<and> validate_local_request_nonce n = None \<and> secret \<noteq> [] \<and>
     sig = \<lparr>ls_version = LOCAL_REQUEST_AUTH_VERSION, ls_timestamp = i64_text t, ls_nonce = n,
       ls_signature = al_base64 A (hmac_sha256 secret (canonical_local_request parts t n))\<rparr>"
  by (auto simp: request_checks split: option.splits)

lemma verified_request:
  "verify_local_request A parts sig secret now = Inr v \<longleftrightarrow>
     validate_local_request_parts parts = None \<and> validate_local_request_secret secret = None \<and> secret \<noteq> [] \<and>
     ls_version sig = LOCAL_REQUEST_AUTH_VERSION \<and> parse_local_request_timestamp (ls_timestamp sig) = Inr (vr_timestamp v) \<and>
     abs_diff (vr_timestamp v) now \<le> LOCAL_REQUEST_MAX_SKEW_SECONDS \<and> validate_local_request_nonce (ls_nonce sig) = None \<and>
     signature_shape (ls_signature sig) \<and> vr_nonce v = ls_nonce sig \<and>
     al_unbase64 A (ls_signature sig) = Some (hmac_sha256 secret (canonical_local_request parts (vr_timestamp v) (ls_nonce sig)))"
  by (auto simp: request_checks constant_time_eq_is_equality split: option.splits sum.splits if_splits)

lemma parse_timestamp_text:
  assumes "validate_local_request_timestamp t = None" and "t < 2 ^ 63"
  shows "parse_local_request_timestamp (i64_text t) = Inr t"
proof -
  have t: "0 \<le> t" "i64_text t = decimal (nat t)" "length (i64_text t) \<le> 20"
    using assms(1) by (auto simp: validate_local_request_timestamp_def i64_text_def split: if_splits)
  then have "nat t < 2 ^ 63" using assms(2) by (simp add: nat_less_iff)
  then show ?thesis using t assms(1) decimal_digits [of "nat t"]
    by (simp add: parse_local_request_timestamp_def digits_value_decimal not_le)
qed

lemma parsed_timestamp: "parse_local_request_timestamp raw = Inr t \<Longrightarrow> raw = i64_text t"
  by (auto simp: parse_local_request_timestamp_def split: if_splits option.splits)

text \<open>A request the runtime's client signs is accepted by the server within thirty seconds of either
  side of its time stamp, and what the server learns is the time stamp and the nonce that were signed.\<close>

theorem signed_requests_verify:
  assumes "url_base64 A" and "sign_local_request A parts timestamp nonce secret = Inr sig"
    and "timestamp < 2 ^ 63" and "abs_diff timestamp now \<le> 30"
  shows "verify_local_request A parts sig secret now = Inr \<lparr>vr_timestamp = timestamp, vr_nonce = nonce\<rparr>"
proof -
  let ?mac = "hmac_sha256 secret (canonical_local_request parts timestamp nonce)"
  have "al_unbase64 A (al_base64 A ?mac) = Some ?mac" "signature_shape (al_base64 A ?mac)"
    using url_base64.base64_reads_back [OF assms(1)] url_base64.base64_alphabet [OF assms(1)]
      url_base64.base64_digest [OF assms(1) hmac_length] by (simp_all add: signature_shape_def)
  then show ?thesis using assms(2-4) parse_timestamp_text
    by (auto simp: verified_request signed_request LOCAL_REQUEST_MAX_SKEW_SECONDS_def)
qed

text \<open>C23. A signature authorises nothing but the request it was made for. When a request is accepted with
  the signature of another, then, unless the two signed texts collide under HMAC or the two bodies under
  SHA-256, they have the same method, port, target and body, and the time stamp and nonce are those
  signed: the framing of the signed text is unambiguous.\<close>

theorem signature_binds_request:
  assumes "url_base64 A" and "sign_local_request A parts timestamp nonce secret = Inr sig"
    and "verify_local_request A parts' sig' secret now = Inr v" and "ls_signature sig' = ls_signature sig"
    and "hmac_sha256 secret (canonical_local_request parts timestamp nonce) =
        hmac_sha256 secret (canonical_local_request parts' (vr_timestamp v) (ls_nonce sig')) \<Longrightarrow>
      canonical_local_request parts timestamp nonce = canonical_local_request parts' (vr_timestamp v) (ls_nonce sig')"
    and "sha256 (lp_body parts) = sha256 (lp_body parts') \<Longrightarrow> lp_body parts = lp_body parts'"
  shows "parts' = parts \<and> sig' = sig \<and> v = \<lparr>vr_timestamp = timestamp, vr_nonce = nonce\<rparr>"
proof -
  note s = assms(2) [unfolded signed_request] and v = assms(3) [unfolded verified_request]
  have "canonical_local_request parts timestamp nonce = canonical_local_request parts' (vr_timestamp v) (ls_nonce sig')"
    using s v assms(4,5) url_base64.base64_reads_back [OF assms(1)] by auto
  with canonical_inject s v have same: "lp_method parts = lp_method parts'" "lp_port parts = lp_port parts'" "lp_target parts = lp_target parts'"
    "sha256 (lp_body parts) = sha256 (lp_body parts')" "timestamp = vr_timestamp v" "nonce = ls_nonce sig'" by blast+
  then have "parts' = parts" "v = \<lparr>vr_timestamp = timestamp, vr_nonce = nonce\<rparr>"
    using assms(6) v by (cases parts; cases parts'; cases v; simp)+
  moreover have "sig' = sig" using s v same assms(4) parsed_timestamp [of "ls_timestamp sig'"] by (cases sig') simp
  ultimately show ?thesis by simp
qed

section \<open>What a token proves\<close>

locale auth_codec = url_base64 +
  assumes claims_read_back: "al_claims_of_text A (al_claims_to_text A claims) = Some claims"

lemma split_on_plain: "\<forall>c \<in> set s. \<not> p c \<Longrightarrow> split_on p s = [s]"
  by (induction s) simp_all

lemma split_on_step: "\<forall>c \<in> set s. \<not> p c \<Longrightarrow> p d \<Longrightarrow> split_on p (s @ d # r) = s # split_on p r"
  by (induction s) simp_all

lemma graph_trimmed:
  assumes "\<forall>c \<in> set s. 33 \<le> byte c \<and> byte c < 127"
  shows "trim s = s"
proof -
  have "\<not> (33 \<le> byte c \<and> byte c < 127)" if "w \<in> set white_space" "c \<in> set w" for w c
    using that by (auto simp: white_space_def)
  then have "\<not> prefix v t" if "set t = set s" "v \<noteq> []" "w \<in> set white_space" "set v = set w" for v w t
    using that assms set_mono_prefix [of v t] by (metis list.set_sel(1) subsetD)
  then have "trimmed s" unfolding trimmed_def no_leading_def by auto
  then show ?thesis by (rule trimmed_trim)
qed

context auth_codec
begin

lemma base64_no_dot: "\<forall>c \<in> set (al_base64 A s). c \<noteq> CHR ''.''"
  using base64_alphabet [of s] by (auto simp: list_all_iff is_ascii_alphanumeric_def)

lemma token_segments:
  "split_on (\<lambda>c. c = CHR ''.'') (al_base64 A x @ ''.'' @ al_base64 A y @ ''.'' @ al_base64 A z) =
     [al_base64 A x, al_base64 A y, al_base64 A z]"
  using base64_no_dot by (simp add: split_on_step split_on_plain)

lemma issued_token_graph:
  assumes "sign_jwt A claims secret = Inr token"
  shows "\<forall>c \<in> set token. 33 \<le> byte c \<and> byte c < 127" and "token \<noteq> []"
proof -
  have "33 \<le> byte c \<and> byte c < 127" if "c \<in> set (al_base64 A s)" for c s
    using that base64_alphabet [of s] by (auto simp: list_all_iff is_ascii_alphanumeric_def)
  then show "\<forall>c \<in> set token. 33 \<le> byte c \<and> byte c < 127" "token \<noteq> []"
    using assms by (auto simp: sign_jwt_def sign_bytes_def Let_def split: if_splits)
qed

lemma issued_token:
  assumes "sign_jwt A claims secret = Inr token" and "now \<le> ac_exp claims" and "ac_iss claims = ''heiwa-core''"
    and "ac_aud claims = ''heiwa''"
  shows "verify_jwt A now token secret = Inr claims"
  using assms token_segments base64_reads_back claims_read_back
  by (auto simp: sign_jwt_def verify_jwt_def sign_bytes_def Let_def split: if_splits)

end

text \<open>A token the runtime issues authenticates its user until it expires, whatever cookies come with it;
  and no pair of headers authenticates the operator without the machine's token, which an empty
  configuration value never is.\<close>

theorem issued_tokens_authenticate:
  assumes "auth_codec A" and "sign_jwt A claims (cf_jwt_signing_secret cfg) = Inr token"
    and "now \<le> ac_exp claims" and "ac_iss claims = ''heiwa-core''" and "ac_aud claims = ''heiwa''"
    and "token \<noteq> cf_machine_auth_token cfg"
  shows "extract_auth_subject A now cookie (Some token) cfg = Inr (User claims) \<and>
    (\<forall>cookie authorization. extract_auth_subject A now cookie authorization cfg = Inr Operator \<longrightarrow>
       cf_machine_auth_token cfg \<noteq> [] \<and> Option.bind authorization parse_bearer_token = Some (cf_machine_auth_token cfg))"
proof -
  have "verify_jwt A now token (cf_jwt_signing_secret cfg) = Inr claims"
    by (rule auth_codec.issued_token [OF assms(1-5)])
  moreover have "cf_jwt_signing_secret cfg \<noteq> []" using assms(2) by (auto simp: sign_jwt_def sign_bytes_def Let_def)
  moreover have "parse_bearer_token token = Some token"
  proof -
    note graph = auth_codec.issued_token_graph [OF assms(1,2)]
    have "CHR '' '' \<notin> set token" using graph(1) by fastforce
    then have "\<not> prefix ''Bearer '' token" by (auto simp: prefix_def)
    then show ?thesis using graph_trimmed [OF graph(1)] graph(2) by (simp add: parse_bearer_token_def strip_prefix_def Let_def)
  qed
  ultimately have "extract_auth_subject A now cookie (Some token) cfg = Inr (User claims)"
    using assms(6) by (simp add: extract_auth_subject_def jwt_subject_def)
  moreover have "cf_machine_auth_token cfg \<noteq> [] \<and> Option.bind authorization parse_bearer_token = Some (cf_machine_auth_token cfg)"
    if "extract_auth_subject A now cookie authorization cfg = Inr Operator" for cookie authorization
    using that by (auto simp: extract_auth_subject_def jwt_subject_def parse_bearer_token_def Let_def
        split: option.splits if_splits sum.splits bind_splits)
  ultimately show ?thesis by blast
qed

section \<open>A concrete base64\<close>

definition b64_alphabet :: string where
  "b64_alphabet = ''ABCDEFGHIJKLMNOPQRSTUVWXYZabcdefghijklmnopqrstuvwxyz0123456789-_''"

fun sextets :: "nat list \<Rightarrow> nat list" where
  "sextets [] = []"
| "sextets [a] = [a div 4, a mod 4 * 16]"
| "sextets [a, b] = [a div 4, a mod 4 * 16 + b div 16, b mod 16 * 4]"
| "sextets (a # b # c # r) = [a div 4, a mod 4 * 16 + b div 16, b mod 16 * 4 + c div 64, c mod 64] @ sextets r"

fun octets :: "nat list \<Rightarrow> nat list option" where
  "octets [] = Some []"
| "octets [x] = None"
| "octets [x, y] = (if y mod 16 = 0 then Some [x * 4 + y div 16] else None)"
| "octets [x, y, z] = (if z mod 4 = 0 then Some [x * 4 + y div 16, y mod 16 * 16 + z div 4] else None)"
| "octets (x # y # z # w # r) = map_option ((@) [x * 4 + y div 16, y mod 16 * 16 + z div 4, z mod 4 * 64 + w]) (octets r)"

definition b64_value :: "char \<Rightarrow> nat option" where
  "b64_value c = map_of (zip b64_alphabet [0..<64]) c"

definition b64_encode :: "string \<Rightarrow> string" where
  "b64_encode s = map (\<lambda>k. b64_alphabet ! k) (sextets (map byte s))"

definition b64_decode :: "string \<Rightarrow> string option" where
  "b64_decode s =
     (if list_all (\<lambda>c. b64_value c \<noteq> None) s
      then map_option (map char_of) (octets (map (\<lambda>c. the (b64_value c)) s)) else None)"

lemma octets_sextets: "list_all (\<lambda>n. n < 256) ns \<Longrightarrow> octets (sextets ns) = Some ns"
proof (induction ns rule: sextets.induct)
  case (4 a b c r)
  have "(a mod 4 * 16 + b div 16) div 16 = a mod 4" "(a mod 4 * 16 + b div 16) mod 16 = b div 16"
    "(b mod 16 * 4 + c div 64) div 4 = b mod 16" "(b mod 16 * 4 + c div 64) mod 4 = c div 64"
    using 4 by auto
  then show ?case using 4 by (simp add: mult.commute [of _ 4] mult.commute [of _ 16] mult.commute [of _ 64])
next
  case (3 a b)
  have "(a mod 4 * 16 + b div 16) div 16 = a mod 4" "(a mod 4 * 16 + b div 16) mod 16 = b div 16" using 3 by auto
  then show ?case by (simp add: mult.commute [of _ 4] mult.commute [of _ 16])
qed (simp_all add: mult.commute [of _ 4])

lemma sextets_small: "list_all (\<lambda>n. n < 256) ns \<Longrightarrow> list_all (\<lambda>k. k < 64) (sextets ns)"
proof (induction ns rule: sextets.induct)
  case (4 a b c r)
  have "a mod 4 * 16 + b div 16 < 64" "b mod 16 * 4 + c div 64 < 64" using 4 by auto
  then show ?case using 4 by auto
next
  case (3 a b)
  have "a mod 4 * 16 + b div 16 < 64" using 3 by auto
  then show ?case using 3 by auto
qed auto

lemma b64_letters: "k < 64 \<Longrightarrow> b64_value (b64_alphabet ! k) = Some k \<and>
  (is_ascii_alphanumeric (b64_alphabet ! k) \<or> b64_alphabet ! k = CHR ''-'' \<or> b64_alphabet ! k = CHR ''_'')"
proof -
  have "list_all (\<lambda>k. b64_value (b64_alphabet ! k) = Some k \<and>
    (is_ascii_alphanumeric (b64_alphabet ! k) \<or> b64_alphabet ! k = CHR ''-'' \<or> b64_alphabet ! k = CHR ''_'')) [0..<64]"
    by code_simp
  then show "k < 64 \<Longrightarrow> ?thesis" by (simp add: list_all_iff)
qed

lemma sextets_length: "length ns = 32 \<Longrightarrow> length (sextets ns) = 43"
proof -
  have "length (sextets ns) = 4 * (length ns div 3) + (if length ns mod 3 = 0 then 0 else length ns mod 3 + 1)"
  proof (induction ns rule: sextets.induct)
    case (4 a b c r)
    have "(3 + n) div 3 = Suc (n div 3)" for n :: nat by simp
    then show ?case using 4 by simp
  qed simp_all
  then show "length ns = 32 \<Longrightarrow> ?thesis" by simp
qed

text \<open>Claims as an object of strings.\<close>

definition int_of_text :: "string \<Rightarrow> int option" where
  "int_of_text s = (case s of
      [] \<Rightarrow> None
    | c # r \<Rightarrow> if c = CHR ''-'' then map_option (\<lambda>n. - int n) (digits_value 0 r) else map_option int (digits_value 0 s))"

definition claims_to_value :: "AuthClaims \<Rightarrow> json" where
  "claims_to_value c = JObject [(''sub'', JString (ac_sub c)), (''owner_id'', JString (ac_owner_id c)),
     (''principal_id'', JString (ac_principal_id c)), (''username'', opt_str (ac_username c)),
     (''discord_user_id'', opt_str (ac_discord_user_id c)), (''iat'', JString (i64_text (ac_iat c))),
     (''exp'', JString (i64_text (ac_exp c))), (''iss'', JString (ac_iss c)), (''aud'', JString (ac_aud c))]"

definition claims_of_value :: "json \<Rightarrow> AuthClaims option" where
  "claims_of_value v =
     (case (map (string_field v) [''sub'', ''owner_id'', ''principal_id'', ''iss'', ''aud''],
            map (optional_field as_str v) [''username'', ''discord_user_id''],
            map (\<lambda>k. Option.bind (string_field v k) int_of_text) [''iat'', ''exp'']) of
        ([Some s, Some ow, Some pr, Some is, Some au], [Some un, Some di], [Some ia, Some ex]) \<Rightarrow>
          Some \<lparr>ac_sub = s, ac_owner_id = ow, ac_principal_id = pr, ac_username = un, ac_discord_user_id = di,
            ac_iat = ia, ac_exp = ex, ac_iss = is, ac_aud = au\<rparr>
      | _ \<Rightarrow> None)"

lemma int_of_i64_text: "int_of_text (i64_text v) = Some v"
proof (cases "v < 0")
  case False
  have "hd (decimal n) \<noteq> CHR ''-''" for n
    using decimal_digits [of n] by (cases "decimal n") (auto simp: digit_def)
  then show ?thesis using False decimal_digits(2) [of "nat v"] digits_value_decimal [of "nat v"]
    by (cases "decimal (nat v)") (auto simp: i64_text_def int_of_text_def)
qed (simp add: i64_text_def int_of_text_def digits_value_decimal)

lemma claims_round_trip: "claims_of_value (claims_to_value c) = Some c"
proof -
  have "optional_field as_str (claims_to_value c) ''username'' = Some (ac_username c)"
    "optional_field as_str (claims_to_value c) ''discord_user_id'' = Some (ac_discord_user_id c)"
    by (cases "ac_username c"; cases "ac_discord_user_id c";
        simp add: claims_to_value_def optional_field_def json_get_def opt_str_def)+
  then show ?thesis
    by (simp add: claims_of_value_def string_field_def json_get_def claims_to_value_def int_of_i64_text)
qed

definition demo_auth :: auth_lib where
  "demo_auth = \<lparr>al_base64 = b64_encode, al_unbase64 = b64_decode, al_to_text = wire,
     al_claims_to_text = (\<lambda>c. wire (claims_to_value c)), al_claims_of_text = (\<lambda>t. Option.bind (unwire t) claims_of_value)\<rparr>"

interpretation demo_auth: auth_codec demo_auth
proof
  fix s claims
  show "al_claims_of_text demo_auth (al_claims_to_text demo_auth claims) = Some claims"
    by (simp add: demo_auth_def wire_text.of_to_text claims_round_trip)
  have small: "list_all (\<lambda>n. n < 256) (map byte s)" by (simp add: list_all_iff)
  have six: "\<forall>k \<in> set (sextets (map byte s)). k < 64" using sextets_small [OF small] by (simp add: list_all_iff)
  show "list_all (\<lambda>c. is_ascii_alphanumeric c \<or> c = CHR ''-'' \<or> c = CHR ''_'') (al_base64 demo_auth s)"
    using six b64_letters by (auto simp: demo_auth_def b64_encode_def list_all_iff)
  have "map (\<lambda>c. the (b64_value c)) (b64_encode s) = sextets (map byte s)"
    using six b64_letters by (auto simp: b64_encode_def intro!: map_idI)
  moreover have "list_all (\<lambda>c. b64_value c \<noteq> None) (b64_encode s)"
    using six b64_letters by (fastforce simp: b64_encode_def list_all_iff)
  ultimately show "al_unbase64 demo_auth (al_base64 demo_auth s) = Some s"
    using octets_sextets [OF small] by (simp add: demo_auth_def b64_decode_def comp_def)
  show "length (al_base64 demo_auth s) = 43" if "length s = 32"
    using sextets_length that by (simp add: demo_auth_def b64_encode_def)
qed

definition demo_parts :: LocalRequestParts where
  "demo_parts = \<lparr>lp_method = ''GET'', lp_port = 7777, lp_target = ''/api/v1/x'', lp_body = []\<rparr>"

definition demo_nonce :: string where "demo_nonce = replicate 32 (CHR ''a'')"

lemma demo_signed: "\<exists>sig. sign_local_request demo_auth demo_parts 100 demo_nonce ''k'' = Inr sig"
proof -
  have "validate_local_request_parts demo_parts = None"
    by (simp add: validate_local_request_parts_def demo_parts_def LOCAL_REQUEST_MAX_TARGET_BYTES_def LOCAL_REQUEST_MAX_BODY_BYTES_def)
  moreover have "validate_local_request_secret ''k'' = None"
    using graph_trimmed [of "''k''"] by (simp add: validate_local_request_secret_def)
  moreover have "length (i64_text 100) = 3" by code_simp
  moreover have "validate_local_request_nonce demo_nonce = None"
    by (simp add: validate_local_request_nonce_def demo_nonce_def list_all_iff)
  ultimately show ?thesis by (simp add: signed_request validate_local_request_timestamp_def)
qed

theorem signed_requests_verify_witness:
  "\<exists>sig. sign_local_request demo_auth demo_parts 100 demo_nonce ''k'' = Inr sig \<and>
     verify_local_request demo_auth demo_parts sig ''k'' 120 = Inr \<lparr>vr_timestamp = 100, vr_nonce = demo_nonce\<rparr>"
proof -
  obtain sig where sig: "sign_local_request demo_auth demo_parts 100 demo_nonce ''k'' = Inr sig" using demo_signed by blast
  from signed_requests_verify [OF demo_auth.url_base64_axioms this, of 120] sig show ?thesis by (auto simp: abs_diff_def)
qed

theorem signature_binds_request_witness:
  "\<exists>sig v. verify_local_request demo_auth demo_parts sig ''k'' 120 = Inr v \<and> v = \<lparr>vr_timestamp = 100, vr_nonce = demo_nonce\<rparr>"
proof -
  obtain sig where sig: "sign_local_request demo_auth demo_parts 100 demo_nonce ''k'' = Inr sig" using demo_signed by blast
  have ok: "verify_local_request demo_auth demo_parts sig ''k'' 120 = Inr \<lparr>vr_timestamp = 100, vr_nonce = demo_nonce\<rparr>"
    using sig [unfolded signed_request] parse_timestamp_text [of 100] demo_auth.base64_reads_back demo_auth.base64_alphabet demo_auth.base64_digest [OF hmac_length]
    by (auto simp: verified_request signature_shape_def abs_diff_def LOCAL_REQUEST_MAX_SKEW_SECONDS_def)
  from signature_binds_request [OF demo_auth.url_base64_axioms sig ok refl] ok show ?thesis
    using sig by (auto simp: signed_request)
qed

definition demo_claims :: AuthClaims where
  "demo_claims = \<lparr>ac_sub = ''u'', ac_owner_id = ''o'', ac_principal_id = ''p'', ac_username = None, ac_discord_user_id = None,
     ac_iat = 0, ac_exp = 50, ac_iss = ''heiwa-core'', ac_aud = ''heiwa''\<rparr>"

theorem issued_tokens_authenticate_witness:
  "\<exists>token. extract_auth_subject demo_auth 20 None (Some token) \<lparr>cf_machine_auth_token = [], cf_jwt_signing_secret = ''k''\<rparr> =
     Inr (User demo_claims)"
proof -
  let ?cfg = "\<lparr>cf_machine_auth_token = [], cf_jwt_signing_secret = ''k''\<rparr>"
  obtain token where token: "sign_jwt demo_auth demo_claims (cf_jwt_signing_secret ?cfg) = Inr token"
    by (simp add: sign_jwt_def sign_bytes_def Let_def)
  have "token \<noteq> cf_machine_auth_token ?cfg" using demo_auth.issued_token_graph(2) [OF token] by simp
  from issued_tokens_authenticate [OF demo_auth.auth_codec_axioms token _ _ _ this, of 20 None] show ?thesis
    by (auto simp: demo_claims_def)
qed

end
