(* ===== verification/Local_Auth.thy ===== *)
theory Local_Auth
  imports Auth
begin

text \<open>
  Who may call the local runtime, \<open>apps/heiwa_shell/src/cmd/app.rs\<close>: browser sessions, the cache of
  nonces, the header checks and \<open>operator_http_auth_subject\<close>, which composes them with the
  signatures and tokens of \<open>Auth\<close>. A request is the text of its header block; the two mutexes are
  the state that is passed, and every clock reading is part of the request's environment.
\<close>

section \<open>Browser sessions\<close>

definition BROWSER_BOOTSTRAP_TTL_SECONDS :: int where "BROWSER_BOOTSTRAP_TTL_SECONDS = 60"
definition BROWSER_SESSION_TTL_SECONDS :: int where "BROWSER_SESSION_TTL_SECONDS = 8 * 60 * 60"
definition BROWSER_SESSION_COOKIE_PREFIX :: string where "BROWSER_SESSION_COOKIE_PREFIX = ''heiwa_local_operator_''"

record BrowserSessionGrant =
  bg_expires_at :: int
  bg_origin :: string

record BrowserSessionStore =
  bs_bootstraps :: "(string, BrowserSessionGrant) btree"
  bs_sessions :: "(string, BrowserSessionGrant) btree"

definition BrowserSessionStore_default :: BrowserSessionStore where
  "BrowserSessionStore_default = \<lparr>bs_bootstraps = [], bs_sessions = []\<rparr>"

definition retain_fresh :: "int \<Rightarrow> BrowserSessionStore \<Rightarrow> BrowserSessionStore" where
  "retain_fresh now st =
     st\<lparr>bs_bootstraps := filter (\<lambda>(_, g). bg_expires_at g \<ge> now) (bs_bootstraps st),
        bs_sessions := filter (\<lambda>(_, g). bg_expires_at g \<ge> now) (bs_sessions st)\<rparr>"

text \<open>The loop that draws a name until the map had no entry of it; \<open>draw\<close> are the names
  \<open>Uuid::new_v4\<close> gives. A name that was taken is overwritten before the next is drawn.\<close>

partial_function (option) insert_new ::
    "(nat \<Rightarrow> string) \<Rightarrow> BrowserSessionGrant \<Rightarrow> nat \<Rightarrow> (string, BrowserSessionGrant) btree \<Rightarrow>
      (string \<times> (string, BrowserSessionGrant) btree) option" where
  "insert_new draw grant i m =
     (let m' = bt_insert (draw i) grant m in
      if bt_get m (draw i) = None then Some (draw i, m') else insert_new draw grant (i + 1) m')"

definition issue_bootstrap_at ::
    "(nat \<Rightarrow> string) \<Rightarrow> int \<Rightarrow> string \<Rightarrow> BrowserSessionStore \<Rightarrow> (string \<times> BrowserSessionStore) option" where
  "issue_bootstrap_at draw now origin st =
     (let st1 = retain_fresh now st;
          grant = \<lparr>bg_expires_at = i64_saturating_add now BROWSER_BOOTSTRAP_TTL_SECONDS, bg_origin = origin\<rparr>
      in map_option (\<lambda>(token, m). (token, st1\<lparr>bs_bootstraps := m\<rparr>)) (insert_new draw grant 0 (bs_bootstraps st1)))"

definition consume_bootstrap_at ::
    "(nat \<Rightarrow> string) \<Rightarrow> string \<Rightarrow> int \<Rightarrow> string \<Rightarrow> BrowserSessionStore \<Rightarrow> (string option \<times> BrowserSessionStore) option" where
  "consume_bootstrap_at draw bootstrap now origin st =
     (let st1 = retain_fresh now st in
      case bt_get (bs_bootstraps st1) bootstrap of
        None \<Rightarrow> Some (None, st1)
      | Some grant \<Rightarrow>
          let st2 = st1\<lparr>bs_bootstraps := bt_remove bootstrap (bs_bootstraps st1)\<rparr> in
          if bg_expires_at grant < now \<or> bg_origin grant \<noteq> origin then Some (None, st2)
          else map_option (\<lambda>(session, m). (Some session, st2\<lparr>bs_sessions := m\<rparr>))
                 (insert_new draw \<lparr>bg_expires_at = i64_saturating_add now BROWSER_SESSION_TTL_SECONDS, bg_origin = origin\<rparr> 0
                    (bs_sessions st2)))"

definition browser_session_cookie_name :: "u16 \<Rightarrow> string" where
  "browser_session_cookie_name port = BROWSER_SESSION_COOKIE_PREFIX @ decimal (unat port)"

definition authenticates_cookie_at ::
    "string \<Rightarrow> int \<Rightarrow> u16 \<Rightarrow> string \<Rightarrow> BrowserSessionStore \<Rightarrow> bool \<times> BrowserSessionStore" where
  "authenticates_cookie_at cookie_header now port origin st =
     (let st1 = retain_fresh now st in
      (list_ex (\<lambda>segment.
         case split_once (\<lambda>c. c = CHR ''='') segment of
           None \<Rightarrow> False
         | Some (name, value) \<Rightarrow>
             name = browser_session_cookie_name port \<and>
             (case bt_get (bs_sessions st1) value of
                None \<Rightarrow> False
              | Some grant \<Rightarrow> bg_expires_at grant \<ge> now \<and> bg_origin grant = origin))
         (map trim (split_on (\<lambda>c. c = CHR '';'') cookie_header)), st1))"

section \<open>The cache of nonces\<close>

definition MAX_LOCAL_REQUEST_NONCES :: nat where "MAX_LOCAL_REQUEST_NONCES = 4096"

type_synonym LocalRequestReplayCache = "(string, int) btree"

definition consume ::
    "VerifiedLocalRequest \<Rightarrow> int \<Rightarrow> LocalRequestReplayCache \<Rightarrow> bool \<times> LocalRequestReplayCache" where
  "consume verified now nonces =
     (let nonces1 = filter (\<lambda>(_, timestamp). abs_diff timestamp now \<le> LOCAL_REQUEST_MAX_SKEW_SECONDS) nonces in
      if bt_get nonces1 (vr_nonce verified) \<noteq> None \<or> length nonces1 \<ge> MAX_LOCAL_REQUEST_NONCES then (False, nonces1)
      else (True, bt_insert (vr_nonce verified) (vr_timestamp verified) nonces1))"

section \<open>Headers\<close>

definition eq_ignore_ascii_case :: "string \<Rightarrow> string \<Rightarrow> bool" where
  "eq_ignore_ascii_case a b \<longleftrightarrow> to_ascii_lowercase a = to_ascii_lowercase b"

definition header_line :: "string \<Rightarrow> string \<Rightarrow> string option" where
  "header_line name line =
     (case split_once (\<lambda>c. c = CHR '':'') line of
        None \<Rightarrow> None
      | Some (header_name, value) \<Rightarrow> if eq_ignore_ascii_case header_name name then Some (trim value) else None)"

text \<open>A header that occurs twice is an error, here \<open>None\<close>.\<close>

definition strict_header_value :: "string \<Rightarrow> string \<Rightarrow> string option option" where
  "strict_header_value request name =
     (case List.map_filter (header_line name) (lines_of request) of
        [] \<Rightarrow> Some None
      | [value] \<Rightarrow> Some (Some value)
      | _ \<Rightarrow> None)"

definition header_value :: "string \<Rightarrow> string \<Rightarrow> string option" where
  "header_value request name =
     (case List.map_filter (\<lambda>line. if prefix (name @ '':'') (to_ascii_lowercase line)
          then map_option (\<lambda>(_, value). trim value) (split_once (\<lambda>c. c = CHR '':'') line) else None) (lines_of request) of
        [] \<Rightarrow> None | value # _ \<Rightarrow> Some value)"

datatype OperatorAuthError = NotConfigured | Unauthorized | ForeignOrigin

definition operator_auth_response :: "OperatorAuthError \<Rightarrow> nat \<times> string" where
  "operator_auth_response err = (case err of
      NotConfigured \<Rightarrow> (500, ''auth_not_configured'')
    | Unauthorized \<Rightarrow> (401, ''unauthorized'')
    | ForeignOrigin \<Rightarrow> (403, ''foreign_origin''))"

definition is_operator_api_path :: "string \<Rightarrow> bool" where
  "is_operator_api_path path \<longleftrightarrow> path = ''/api/v1/operator'' \<or> prefix ''/api/v1/operator/'' path"

definition is_runtime_authenticated_request :: "string \<Rightarrow> bool" where
  "is_runtime_authenticated_request path \<longleftrightarrow> prefix ''/api/'' path \<or> prefix ''/ws/'' path"

definition exact_loopback_origin :: "string \<Rightarrow> u16 \<Rightarrow> string option" where
  "exact_loopback_origin request local_port =
     (case strict_header_value request ''host'' of
        Some (Some host) \<Rightarrow>
          (let expected_host = ''127.0.0.1:'' @ decimal (unat local_port) in
           if host \<noteq> expected_host then None else Some (''http://'' @ expected_host))
      | _ \<Rightarrow> None)"

definition bound_host_candidates :: "u16 \<Rightarrow> string list" where
  "bound_host_candidates local_port =
     [''127.0.0.1:'' @ decimal (unat local_port), ''localhost:'' @ decimal (unat local_port)]"

definition enforce_bound_host :: "string \<Rightarrow> u16 \<Rightarrow> bool" where
  "enforce_bound_host request local_port =
     (case strict_header_value request ''host'' of
        Some (Some host) \<Rightarrow> host \<in> set (bound_host_candidates local_port)
      | _ \<Rightarrow> False)"

definition local_request_headers :: "string list" where
  "local_request_headers = [''x-heiwa-local-auth-version'', ''x-heiwa-local-auth-timestamp'',
     ''x-heiwa-local-auth-nonce'', ''x-heiwa-local-auth-signature'']"

text \<open>All four signature headers, none of them, or an error (here \<open>None\<close>).\<close>

definition local_request_signature_headers :: "string \<Rightarrow> LocalRequestSignature option option" where
  "local_request_signature_headers request =
     (case map (strict_header_value request) local_request_headers of
        [Some None, Some None, Some None, Some None] \<Rightarrow> Some None
      | [Some (Some version), Some (Some timestamp), Some (Some nonce), Some (Some signature)] \<Rightarrow>
          Some (Some \<lparr>ls_version = version, ls_timestamp = timestamp, ls_nonce = nonce, ls_signature = signature\<rparr>)
      | _ \<Rightarrow> None)"

section \<open>The decision\<close>

text \<open>One call: the request, and what the environment holds at its time.\<close>

record operator_call =
  oc_request :: string
  oc_method :: string
  oc_call_target :: string
  oc_body :: string
  oc_local_port :: u16
  oc_config :: auth_config
  oc_cookie_now :: int
  oc_now :: int
  oc_token_now :: int

record runtime_state =
  rs_replays :: LocalRequestReplayCache
  rs_browser :: BrowserSessionStore

type_synonym auth_answer = "OperatorAuthError + AuthSubject"

definition is_safe_read :: "operator_call \<Rightarrow> bool" where
  "is_safe_read c \<longleftrightarrow> oc_method c = ''GET'' \<or> oc_method c = ''HEAD''"

definition call_parts :: "operator_call \<Rightarrow> LocalRequestParts" where
  "call_parts c = \<lparr>lp_method = oc_method c, lp_port = oc_local_port c, lp_target = oc_call_target c, lp_body = oc_body c\<rparr>"

definition foreign_origin :: "operator_call \<Rightarrow> string \<Rightarrow> OperatorAuthError option" where
  "foreign_origin c expected_origin =
     (case strict_header_value (oc_request c) ''origin'' of
        None \<Rightarrow> Some Unauthorized
      | Some None \<Rightarrow> None
      | Some (Some origin) \<Rightarrow>
          if origin \<noteq> expected_origin then Some (if is_safe_read c then ForeignOrigin else Unauthorized) else None)"

definition foreign_fetch_site :: "operator_call \<Rightarrow> bool" where
  "foreign_fetch_site c =
     (case strict_header_value (oc_request c) ''sec-fetch-site'' of
        None \<Rightarrow> True
      | Some None \<Rightarrow> False
      | Some (Some value) \<Rightarrow> \<not> eq_ignore_ascii_case value ''same-origin'' \<and> \<not> eq_ignore_ascii_case value ''none'')"

definition cookie_subject :: "operator_call \<Rightarrow> string \<Rightarrow> string option \<Rightarrow> BrowserSessionStore \<Rightarrow> bool \<times> BrowserSessionStore" where
  "cookie_subject c expected_origin cookie browser =
     (case cookie of
        Some value \<Rightarrow>
          if is_safe_read c \<or> strict_header_value (oc_request c) ''origin'' = Some (Some expected_origin)
          then authenticates_cookie_at value (oc_cookie_now c) (oc_local_port c) expected_origin browser
          else (False, browser)
      | None \<Rightarrow> (False, browser))"

definition signature_subject :: "auth_lib \<Rightarrow> operator_call \<Rightarrow> LocalRequestSignature \<Rightarrow> LocalRequestReplayCache \<Rightarrow> auth_answer \<times> LocalRequestReplayCache" where
  "signature_subject A c sig replays =
     (if trim (cf_machine_auth_token (oc_config c)) = [] then (Inl Unauthorized, replays)
      else (case verify_local_request A (call_parts c) sig (cf_machine_auth_token (oc_config c)) (oc_now c) of
              Inl _ \<Rightarrow> (Inl Unauthorized, replays)
            | Inr verified \<Rightarrow>
                (case consume verified (oc_now c) replays of
                   (True, replays') \<Rightarrow> (Inr Operator, replays')
                 | (False, replays') \<Rightarrow> (Inl Unauthorized, replays'))))"

definition operator_http_auth_subject :: "auth_lib \<Rightarrow> operator_call \<Rightarrow> runtime_state \<Rightarrow> auth_answer \<times> runtime_state" where
  "operator_http_auth_subject A c st =
     (if trim (cf_machine_auth_token (oc_config c)) = [] \<and> trim (cf_jwt_signing_secret (oc_config c)) = [] then (Inl NotConfigured, st)
      else (case exact_loopback_origin (oc_request c) (oc_local_port c) of
              None \<Rightarrow> (Inl Unauthorized, st)
            | Some expected_origin \<Rightarrow>
                (case foreign_origin c expected_origin of
                   Some err \<Rightarrow> (Inl err, st)
                 | None \<Rightarrow>
                     if foreign_fetch_site c then (Inl ForeignOrigin, st)
                     else (case strict_header_value (oc_request c) ''cookie'' of
                             None \<Rightarrow> (Inl Unauthorized, st)
                           | Some cookie \<Rightarrow>
                               (case cookie_subject c expected_origin cookie (rs_browser st) of
                                  (True, browser) \<Rightarrow> (Inr Operator, st\<lparr>rs_browser := browser\<rparr>)
                                | (False, browser) \<Rightarrow>
                                    let st1 = st\<lparr>rs_browser := browser\<rparr> in
                                    (case local_request_signature_headers (oc_request c) of
                                       None \<Rightarrow> (Inl Unauthorized, st1)
                                     | Some (Some sig) \<Rightarrow>
                                         (case signature_subject A c sig (rs_replays st1) of
                                            (answer, replays) \<Rightarrow> (answer, st1\<lparr>rs_replays := replays\<rparr>))
                                     | Some None \<Rightarrow>
                                         (case extract_auth_subject A (oc_token_now c) (header_value (oc_request c) ''cookie'')
                                                 (header_value (oc_request c) ''authorization'') (oc_config c) of
                                            Inl _ \<Rightarrow> (Inl Unauthorized, st1)
                                          | Inr subject \<Rightarrow> (Inr subject, st1))))))))"

section \<open>Replays\<close>

lemma map_of_filter_keeps: "map_of m k = Some v \<Longrightarrow> P (k, v) \<Longrightarrow> map_of (filter P m) k = Some v"
  by (induction m) auto

lemma abs_diff_between: "a \<le> b \<Longrightarrow> b \<le> c \<Longrightarrow> abs_diff t a \<le> n \<Longrightarrow> abs_diff t c \<le> n \<Longrightarrow> abs_diff t b \<le> n"
  by (simp add: abs_diff_def)

lemma consume_records:
  "consume v now nonces = (True, nonces') \<Longrightarrow> bt_get nonces' (vr_nonce v) = Some (vr_timestamp v)"
  by (auto simp: consume_def Let_def split: if_splits)

lemma consume_keeps:
  assumes "bt_get nonces n = Some t" and "abs_diff t now \<le> LOCAL_REQUEST_MAX_SKEW_SECONDS"
  shows "bt_get (snd (consume v now nonces)) n = Some t" and "vr_nonce v = n \<Longrightarrow> \<not> fst (consume v now nonces)"
  using map_of_filter_keeps [OF assms(1), of "\<lambda>(_, timestamp). abs_diff timestamp now \<le> LOCAL_REQUEST_MAX_SKEW_SECONDS"] assms(2)
  by (auto simp: consume_def Let_def)

lemma consume_bounded:
  assumes "length nonces \<le> MAX_LOCAL_REQUEST_NONCES"
  shows "length (snd (consume v now nonces)) \<le> MAX_LOCAL_REQUEST_NONCES"
proof -
  let ?kept = "filter (\<lambda>(_, timestamp). abs_diff timestamp now \<le> LOCAL_REQUEST_MAX_SKEW_SECONDS) nonces"
  have insert: "length (bt_insert k t m) \<le> Suc (length m)" for k :: string and t :: int and m by (induction m) auto
  have "length ?kept \<le> MAX_LOCAL_REQUEST_NONCES" using assms length_filter_le order.trans by blast
  then show ?thesis using order.trans [OF insert [of "vr_nonce v" "vr_timestamp v" ?kept]]
    by (simp add: consume_def Let_def not_le)
qed

text \<open>A call changes the cache of nonces by nothing, or by consuming the request it verified.\<close>

lemma signature_replays:
  "snd (signature_subject A c sig replays) = replays \<or> (\<exists>v. snd (signature_subject A c sig replays) = snd (consume v (oc_now c) replays))"
proof (cases "verify_local_request A (call_parts c) sig (cf_machine_auth_token (oc_config c)) (oc_now c)")
  case (Inr v)
  obtain b r where "consume v (oc_now c) replays = (b, r)" by fastforce
  with Inr show ?thesis by (cases b) (auto simp: signature_subject_def intro!: exI [of _ v])
qed (simp add: signature_subject_def)

lemma call_replays:
  "rs_replays (snd (operator_http_auth_subject A c st)) = rs_replays st \<or>
   (\<exists>v. rs_replays (snd (operator_http_auth_subject A c st)) = snd (consume v (oc_now c) (rs_replays st)))"
proof -
  have "rs_replays (snd (operator_http_auth_subject A c st)) = rs_replays st \<or>
      (\<exists>sig. rs_replays (snd (operator_http_auth_subject A c st)) = snd (signature_subject A c sig (rs_replays st)))"
    unfolding operator_http_auth_subject_def Let_def
    by (simp split: option.split prod.split sum.split bool.split, auto) (metis snd_conv)+
  then show ?thesis using signature_replays by metis
qed

text \<open>The state after a sequence of calls.\<close>

fun serve :: "auth_lib \<Rightarrow> operator_call list \<Rightarrow> runtime_state \<Rightarrow> runtime_state" where
  "serve A [] st = st"
| "serve A (c # cs) st = serve A cs (snd (operator_http_auth_subject A c st))"

lemma nonce_stays:
  assumes "bt_get (rs_replays st) n = Some t" and "\<forall>c \<in> set cs. abs_diff t (oc_now c) \<le> LOCAL_REQUEST_MAX_SKEW_SECONDS"
  shows "bt_get (rs_replays (serve A cs st)) n = Some t"
  using assms
proof (induction cs arbitrary: st)
  case (Cons c cs)
  have "bt_get (rs_replays (snd (operator_http_auth_subject A c st))) n = Some t"
    using call_replays [of A c st] Cons.prems consume_keeps(1) [of "rs_replays st" n t "oc_now c"] by auto
  with Cons show ?case by simp
qed simp

text \<open>Whether the cookie of a call decides it: the session must be live, of the runtime's own origin, and a
  call that changes state must name that origin.\<close>

definition by_cookie :: "operator_call \<Rightarrow> runtime_state \<Rightarrow> bool" where
  "by_cookie c st \<longleftrightarrow>
     (let origin = ''http://127.0.0.1:'' @ decimal (unat (oc_local_port c)) in
      (\<exists>cookie. strict_header_value (oc_request c) ''cookie'' = Some (Some cookie) \<and>
         fst (authenticates_cookie_at cookie (oc_cookie_now c) (oc_local_port c) origin (rs_browser st))) \<and>
      (is_safe_read c \<or> strict_header_value (oc_request c) ''origin'' = Some (Some origin)))"

lemma signed_call:
  assumes "\<not> by_cookie c st" and "local_request_signature_headers (oc_request c) = Some (Some sig)"
    and "operator_http_auth_subject A c st = (Inr subject, st')"
  shows "signature_subject A c sig (rs_replays st) = (Inr subject, rs_replays st')"
proof -
  obtain origin cookie where origin: "exact_loopback_origin (oc_request c) (oc_local_port c) = Some origin"
    and fo: "foreign_origin c origin = None" and ff: "\<not> foreign_fetch_site c"
    and cookie: "strict_header_value (oc_request c) ''cookie'' = Some cookie"
    using assms(3) by (auto simp: operator_http_auth_subject_def split: if_splits option.splits)
  have "origin = ''http://127.0.0.1:'' @ decimal (unat (oc_local_port c))"
    using origin by (auto simp: exact_loopback_origin_def Let_def split: option.splits if_splits)
  then have "\<not> fst (cookie_subject c origin cookie (rs_browser st))"
    using assms(1) cookie by (auto simp: by_cookie_def cookie_subject_def Let_def split: option.splits if_splits)
  then obtain browser where "cookie_subject c origin cookie (rs_browser st) = (False, browser)"
    by (cases "cookie_subject c origin cookie (rs_browser st)") auto
  then show ?thesis using assms(2,3) origin fo ff cookie
    by (auto simp: operator_http_auth_subject_def Let_def split: if_splits prod.splits)
qed

lemma signature_accepted:
  assumes "signature_subject A c sig replays = (Inr subject, replays')"
  obtains v where "verify_local_request A (call_parts c) sig (cf_machine_auth_token (oc_config c)) (oc_now c) = Inr v"
    and "consume v (oc_now c) replays = (True, replays')" and "subject = Operator"
  using assms by (auto simp: signature_subject_def split: if_splits sum.splits prod.splits bool.splits)

text \<open>C8. A signed request is accepted once on its signature. When a call was accepted and its cookie, if it has
  one, did not decide it, a second call with the same time stamp and nonce is refused, even while its signature
  is still valid, whatever calls the runtime serves in between; the one exception is a second call that
  carries the cookie of a live browser session, which is accepted on that cookie before the nonce is looked at.
  The calls are decided one after the other and the clock they read does not run backwards. The cache forgets a
  nonce only when its time stamp has left the window in which signatures verify.\<close>

theorem signed_requests_are_accepted_once:
  assumes "local_request_signature_headers (oc_request first_call) = Some (Some sig)"
    and "operator_http_auth_subject A first_call st = (Inr subject, st')" and "\<not> by_cookie first_call st"
    and "local_request_signature_headers (oc_request replay_call) = Some (Some sig')"
    and "ls_timestamp sig' = ls_timestamp sig" and "ls_nonce sig' = ls_nonce sig"
    and "\<forall>c \<in> set between. oc_now first_call \<le> oc_now c \<and> oc_now c \<le> oc_now replay_call"
    and "\<not> by_cookie replay_call (serve A between st')"
  shows "\<exists>err. fst (operator_http_auth_subject A replay_call (serve A between st')) = Inl err"
proof (rule ccontr)
  let ?st = "serve A between st'"
  assume "\<not> ?thesis"
  then obtain subject' st'' where ok: "operator_http_auth_subject A replay_call ?st = (Inr subject', st'')"
    by (cases "operator_http_auth_subject A replay_call ?st"; cases "fst (operator_http_auth_subject A replay_call ?st)") auto
  from signature_accepted [OF signed_call [OF assms(3,1,2)]] obtain v where v:
      "verify_local_request A (call_parts first_call) sig (cf_machine_auth_token (oc_config first_call)) (oc_now first_call) = Inr v"
      "bt_get (rs_replays st') (vr_nonce v) = Some (vr_timestamp v)"
    by (metis consume_records)
  note second = signed_call [OF assms(8,4) ok]
  from signature_accepted [OF second] obtain w where w:
      "verify_local_request A (call_parts replay_call) sig' (cf_machine_auth_token (oc_config replay_call)) (oc_now replay_call) = Inr w"
      "fst (consume w (oc_now replay_call) (rs_replays ?st))"
    by (metis fst_conv)
  have same: "vr_timestamp w = vr_timestamp v" "vr_nonce w = vr_nonce v"
    using v(1) w(1) assms(5,6) by (auto simp: verified_request)
  have near: "abs_diff (vr_timestamp v) (oc_now first_call) \<le> LOCAL_REQUEST_MAX_SKEW_SECONDS"
    "abs_diff (vr_timestamp v) (oc_now replay_call) \<le> LOCAL_REQUEST_MAX_SKEW_SECONDS"
    using v(1) w(1) same by (simp_all add: verified_request)
  then have "bt_get (rs_replays ?st) (vr_nonce v) = Some (vr_timestamp v)"
    using nonce_stays [OF v(2)] assms(7) abs_diff_between by blast
  from consume_keeps(2) [OF this near(2), of w] same(2) w(2) show False by simp
qed

section \<open>Who is let in\<close>

text \<open>C9. Nothing gets in from another site or without a credential. Whoever is accepted named exactly the
  loopback host and port the runtime listens on, sent no foreign \<open>Origin\<close> and no foreign
  \<open>Sec-Fetch-Site\<close>, each at most once, and showed one of three credentials: the cookie of an unexpired
  browser session of that origin, a fresh signed request, or a token; a state-changing request must send
  the origin itself for its cookie to count.\<close>

theorem accepted_calls_show_a_credential:
  assumes "operator_http_auth_subject A c st = (Inr subject, st')"
  shows "\<exists>origin. strict_header_value (oc_request c) ''host'' = Some (Some (''127.0.0.1:'' @ decimal (unat (oc_local_port c)))) \<and>
    origin = ''http://127.0.0.1:'' @ decimal (unat (oc_local_port c)) \<and>
    strict_header_value (oc_request c) ''origin'' \<in> {Some None, Some (Some origin)} \<and>
    (strict_header_value (oc_request c) ''sec-fetch-site'' = Some None \<or>
     (\<exists>site. strict_header_value (oc_request c) ''sec-fetch-site'' = Some (Some site) \<and>
        (eq_ignore_ascii_case site ''same-origin'' \<or> eq_ignore_ascii_case site ''none''))) \<and>
    ((\<exists>cookie. strict_header_value (oc_request c) ''cookie'' = Some (Some cookie) \<and>
        fst (authenticates_cookie_at cookie (oc_cookie_now c) (oc_local_port c) origin (rs_browser st)) \<and>
        (is_safe_read c \<or> strict_header_value (oc_request c) ''origin'' = Some (Some origin))) \<or>
     (\<exists>sig v. local_request_signature_headers (oc_request c) = Some (Some sig) \<and>
        verify_local_request A (call_parts c) sig (cf_machine_auth_token (oc_config c)) (oc_now c) = Inr v \<and>
        fst (consume v (oc_now c) (rs_replays st))) \<or>
     extract_auth_subject A (oc_token_now c) (header_value (oc_request c) ''cookie'')
       (header_value (oc_request c) ''authorization'') (oc_config c) = Inr subject)"
proof -
  obtain origin where origin: "exact_loopback_origin (oc_request c) (oc_local_port c) = Some origin"
    and fo: "foreign_origin c origin = None" and ff: "\<not> foreign_fetch_site c"
    using assms by (auto simp: operator_http_auth_subject_def split: if_splits option.splits)
  have host: "strict_header_value (oc_request c) ''host'' = Some (Some (''127.0.0.1:'' @ decimal (unat (oc_local_port c))))"
    "origin = ''http://127.0.0.1:'' @ decimal (unat (oc_local_port c))"
    using origin by (auto simp: exact_loopback_origin_def Let_def split: option.splits if_splits)
  have o: "strict_header_value (oc_request c) ''origin'' \<in> {Some None, Some (Some origin)}"
    using fo by (auto simp: foreign_origin_def split: option.splits if_splits)
  have site: "strict_header_value (oc_request c) ''sec-fetch-site'' = Some None \<or>
     (\<exists>site. strict_header_value (oc_request c) ''sec-fetch-site'' = Some (Some site) \<and>
        (eq_ignore_ascii_case site ''same-origin'' \<or> eq_ignore_ascii_case site ''none''))"
    using ff by (auto simp: foreign_fetch_site_def split: option.splits)
  obtain cookie where cookie: "strict_header_value (oc_request c) ''cookie'' = Some cookie"
    using assms origin fo ff by (auto simp: operator_http_auth_subject_def split: if_splits option.splits)
  show ?thesis
  proof (cases "fst (cookie_subject c origin cookie (rs_browser st))")
    case True
    then show ?thesis using host o site cookie
      by (auto simp: cookie_subject_def split: option.splits if_splits)
  next
    case False
    then obtain browser where b: "cookie_subject c origin cookie (rs_browser st) = (False, browser)"
      by (cases "cookie_subject c origin cookie (rs_browser st)") auto
    show ?thesis
    proof (cases "local_request_signature_headers (oc_request c)")
      case None
      then show ?thesis using assms origin fo ff cookie b
        by (auto simp: operator_http_auth_subject_def Let_def split: if_splits)
    next
      case (Some signature)
      show ?thesis
      proof (cases signature)
        case None
        with Some show ?thesis using assms origin fo ff cookie b host o site
          by (auto simp: operator_http_auth_subject_def Let_def split: if_splits sum.splits)
      next
        case sig: (Some sig)
        with Some have "signature_subject A c sig (rs_replays st) = (Inr subject, rs_replays st')"
          using assms origin fo ff cookie b
          by (auto simp: operator_http_auth_subject_def Let_def split: if_splits prod.splits)
        then obtain v where "verify_local_request A (call_parts c) sig (cf_machine_auth_token (oc_config c)) (oc_now c) = Inr v"
          "fst (consume v (oc_now c) (rs_replays st))"
          by (rule signature_accepted) auto
        with Some sig host o site show ?thesis by blast
      qed
    qed
  qed
qed

section \<open>Browser sessions\<close>

lemma insert_new_fresh: "bt_get m (draw 0) = None \<Longrightarrow> insert_new draw grant 0 m = Some (draw 0, bt_insert (draw 0) grant m)"
  by (subst insert_new.simps) (simp add: Let_def)

lemma bt_get_filter_None: "bt_get m k = None \<Longrightarrow> bt_get (filter P m) k = None"
  by (induction m) auto

text \<open>\<open>Uuid::simple\<close>: 32 hexadecimal digits.\<close>

definition simple_uuid :: "string \<Rightarrow> bool" where
  "simple_uuid s \<longleftrightarrow> length s = 32 \<and> list_all (\<lambda>c. digit c \<or> (97 \<le> byte c \<and> byte c \<le> 102)) s"

lemma split_once_at: "\<forall>c \<in> set a. \<not> p c \<Longrightarrow> p d \<Longrightarrow> split_once p (a @ d # b) = Some (a, b)"
  by (induction a) simp_all

lemma session_cookie:
  assumes "simple_uuid u"
  shows "map trim (split_on (\<lambda>c. c = CHR '';'') (browser_session_cookie_name port @ ''='' @ u)) = [browser_session_cookie_name port @ ''='' @ u]"
    and "split_once (\<lambda>c. c = CHR ''='') (browser_session_cookie_name port @ ''='' @ u) = Some (browser_session_cookie_name port, u)"
proof -
  let ?name = "browser_session_cookie_name port"
  have digits: "48 \<le> byte c \<and> byte c \<le> 57" if "c \<in> set (decimal n)" for c n
    using that decimal_digits(1) [of n] by (simp add: list_all_iff digit_def)
  have name: "(48 \<le> byte c \<and> byte c \<le> 57) \<or> (95 \<le> byte c \<and> byte c \<le> 122)" if "c \<in> set ?name" for c
    using that digits by (auto simp: browser_session_cookie_name_def BROWSER_SESSION_COOKIE_PREFIX_def)
  have uuid: "(48 \<le> byte c \<and> byte c \<le> 57) \<or> (97 \<le> byte c \<and> byte c \<le> 102)" if "c \<in> set u" for c
    using that assms by (auto simp: simple_uuid_def list_all_iff digit_def)
  have graph: "\<forall>c \<in> set (?name @ ''='' @ u). 33 \<le> byte c \<and> byte c < 127" using name uuid by fastforce
  have "\<forall>c \<in> set (?name @ ''='' @ u). c \<noteq> CHR '';''" using name uuid by fastforce
  then show "map trim (split_on (\<lambda>c. c = CHR '';'') (?name @ ''='' @ u)) = [?name @ ''='' @ u]"
    using graph_trimmed [OF graph] by (simp add: split_on_plain)
  have "\<forall>c \<in> set ?name. c \<noteq> CHR ''=''" using name by fastforce
  then show "split_once (\<lambda>c. c = CHR ''='') (?name @ ''='' @ u) = Some (?name, u)"
    using split_once_at [of ?name "\<lambda>c. c = CHR ''=''" "CHR ''=''" u] by simp
qed

text \<open>C28. A bootstrap token opens one browser session. Issued to an origin and consumed by it within a
  minute, it yields a session whose cookie authenticates that origin, and no other, for eight hours; it
  is gone afterwards, and another origin that presents it gets nothing and spends it. (The first names
  drawn are new; the loops draw again when one is not.)\<close>

theorem bootstrap_opens_one_session:
  assumes "bt_get (bs_bootstraps st) (draw 0) = None" and "bt_get (bs_sessions st) (draw' 0) = None" and "simple_uuid (draw' 0)"
    and "0 \<le> now" and "now \<le> later" and "later \<le> now + 60" and "later + 28800 < 2 ^ 63"
    and "later \<le> seen" and "seen \<le> later + 28800"
  shows "\<exists>st1 st2. issue_bootstrap_at draw now origin st = Some (draw 0, st1) \<and>
    consume_bootstrap_at draw' (draw 0) later origin st1 = Some (Some (draw' 0), st2) \<and>
    (\<forall>time who. \<exists>st3. consume_bootstrap_at draw' (draw 0) time who st2 = Some (None, st3)) \<and>
    (\<forall>who. who \<noteq> origin \<longrightarrow> (\<exists>st3. consume_bootstrap_at draw' (draw 0) later who st1 = Some (None, st3) \<and>
       bt_get (bs_bootstraps st3) (draw 0) = None)) \<and>
    (\<forall>who. fst (authenticates_cookie_at (browser_session_cookie_name port @ ''='' @ draw' 0) seen port who st2) \<longleftrightarrow> who = origin)"
proof -
  let ?g = "\<lparr>bg_expires_at = now + 60, bg_origin = origin\<rparr>" and ?h = "\<lparr>bg_expires_at = later + 28800, bg_origin = origin\<rparr>"
  let ?fresh = "\<lambda>t m. filter (\<lambda>(_, g). bg_expires_at g \<ge> t) m"
  have sums: "i64_saturating_add now BROWSER_BOOTSTRAP_TTL_SECONDS = now + 60"
    "i64_saturating_add later BROWSER_SESSION_TTL_SECONDS = later + 28800"
    using assms(4-7) by (simp_all add: i64_saturating_add_def BROWSER_BOOTSTRAP_TTL_SECONDS_def BROWSER_SESSION_TTL_SECONDS_def)
  define st1 where "st1 = (retain_fresh now st)\<lparr>bs_bootstraps := bt_insert (draw 0) ?g (?fresh now (bs_bootstraps st))\<rparr>"
  have issue: "issue_bootstrap_at draw now origin st = Some (draw 0, st1)"
    using insert_new_fresh bt_get_filter_None [OF assms(1)]
    by (simp add: issue_bootstrap_at_def Let_def sums retain_fresh_def st1_def)
  have boot: "bt_get (bs_bootstraps (retain_fresh later st1)) (draw 0) = Some ?g"
    using assms(6) by (simp add: retain_fresh_def st1_def map_of_filter_keeps)
  define st2 where "st2 = (retain_fresh later st1)\<lparr>bs_bootstraps := bt_remove (draw 0) (bs_bootstraps (retain_fresh later st1)),
    bs_sessions := bt_insert (draw' 0) ?h (bs_sessions (retain_fresh later st1))\<rparr>"
  have "bt_get (bs_sessions (retain_fresh later st1)) (draw' 0) = None"
    using bt_get_filter_None [OF bt_get_filter_None [OF assms(2)]] by (simp add: retain_fresh_def st1_def)
  then have consumed: "consume_bootstrap_at draw' (draw 0) later origin st1 = Some (Some (draw' 0), st2)"
    using boot assms(6) insert_new_fresh by (simp add: consume_bootstrap_at_def Let_def sums st2_def)
  have gone: "bt_get (bs_bootstraps st2) (draw 0) = None" by (simp add: st2_def)
  then have once: "\<exists>st3. consume_bootstrap_at draw' (draw 0) time who st2 = Some (None, st3)" for time who
    using bt_get_filter_None [OF gone] by (simp add: consume_bootstrap_at_def Let_def retain_fresh_def)
  have spent: "\<exists>st3. consume_bootstrap_at draw' (draw 0) later who st1 = Some (None, st3) \<and> bt_get (bs_bootstraps st3) (draw 0) = None"
    if "who \<noteq> origin" for who
    using boot that by (simp add: consume_bootstrap_at_def Let_def)
  have "bt_get (bs_sessions (retain_fresh seen st2)) (draw' 0) = Some ?h"
    using assms(9) by (simp add: retain_fresh_def st2_def map_of_filter_keeps)
  then have "fst (authenticates_cookie_at (browser_session_cookie_name port @ ''='' @ draw' 0) seen port who st2) \<longleftrightarrow> who = origin" for who
    using session_cookie [OF assms(3), of port] assms(9) unfolding authenticates_cookie_at_def Let_def by auto
  with issue consumed once spent show ?thesis by blast
qed

section \<open>A concrete call\<close>

definition demo_request_text :: string where
  "demo_request_text = concat (map (\<lambda>l. l @ [NL])
     [''GET /x'', ''Host: 127.0.0.1:7'', ''x-heiwa-local-auth-version: 1'', ''x-heiwa-local-auth-timestamp: 100'',
      ''x-heiwa-local-auth-nonce: '' @ replicate 32 (CHR ''a''), ''x-heiwa-local-auth-signature: '' @ replicate 43 (CHR ''A'')])"

definition demo_signature :: LocalRequestSignature where
  "demo_signature = \<lparr>ls_version = ''1'', ls_timestamp = ''100'', ls_nonce = demo_nonce, ls_signature = replicate 43 (CHR ''A'')\<rparr>"

definition demo_call :: operator_call where
  "demo_call = \<lparr>oc_request = demo_request_text, oc_method = ''GET'', oc_call_target = ''/x'', oc_body = [], oc_local_port = 7,
     oc_config = \<lparr>cf_machine_auth_token = ''k'', cf_jwt_signing_secret = []\<rparr>, oc_cookie_now = 100, oc_now = 100, oc_token_now = 100\<rparr>"

text \<open>A library in which the text of \<open>demo_signature\<close> decodes to the call's code.\<close>

definition demo_call_auth :: auth_lib where
  "demo_call_auth = demo_auth\<lparr>al_unbase64 := \<lambda>_. Some (hmac_sha256 ''k'' (canonical_local_request (call_parts demo_call) 100 demo_nonce))\<rparr>"

definition demo_runtime :: runtime_state where
  "demo_runtime = \<lparr>rs_replays = [], rs_browser = BrowserSessionStore_default\<rparr>"

lemma demo_header_cookie: "strict_header_value demo_request_text ''cookie'' = Some None" by code_simp
lemma demo_header_origin: "strict_header_value demo_request_text ''origin'' = Some None" by code_simp
lemma demo_header_site: "strict_header_value demo_request_text ''sec-fetch-site'' = Some None" by code_simp
lemma demo_header_host: "strict_header_value demo_request_text ''host'' = Some (Some ''127.0.0.1:7'')" by code_simp
lemma demo_header_signature: "local_request_signature_headers demo_request_text = Some (Some demo_signature)" by code_simp

lemmas demo_headers = demo_header_cookie demo_header_origin demo_header_site demo_header_host demo_header_signature

lemma demo_call_verified:
  "verify_local_request demo_call_auth (call_parts demo_call) demo_signature ''k'' 100 = Inr \<lparr>vr_timestamp = 100, vr_nonce = demo_nonce\<rparr>"
proof -
  have "validate_local_request_parts (call_parts demo_call) = None"
    by (simp add: validate_local_request_parts_def call_parts_def demo_call_def LOCAL_REQUEST_MAX_TARGET_BYTES_def LOCAL_REQUEST_MAX_BODY_BYTES_def)
  moreover have "validate_local_request_secret ''k'' = None"
    using graph_trimmed [of "''k''"] by (simp add: validate_local_request_secret_def)
  moreover have "parse_local_request_timestamp ''100'' = Inr 100"
  proof -
    have "i64_text 100 = ''100''" by code_simp
    then show ?thesis using parse_timestamp_text [of 100] by (simp add: validate_local_request_timestamp_def)
  qed
  moreover have "validate_local_request_nonce demo_nonce = None"
    by (simp add: validate_local_request_nonce_def demo_nonce_def list_all_iff)
  moreover have "signature_shape (replicate 43 (CHR ''A''))" by (simp add: signature_shape_def is_ascii_alphanumeric_def list_all_iff)
  ultimately show ?thesis
    by (simp add: verified_request demo_signature_def demo_call_auth_def abs_diff_def LOCAL_REQUEST_AUTH_VERSION_def)
qed

lemma demo_accepted:
  "operator_http_auth_subject demo_call_auth demo_call demo_runtime =
     (Inr Operator, demo_runtime\<lparr>rs_replays := [(demo_nonce, 100)]\<rparr>)"
proof -
  have "decimal 7 = ''7''" by code_simp
  then have "exact_loopback_origin demo_request_text 7 = Some ''http://127.0.0.1:7''"
    by (simp add: exact_loopback_origin_def demo_headers Let_def)
  moreover have "trim ''k'' \<noteq> []" using graph_trimmed [of "''k''"] by simp
  moreover have "foreign_origin demo_call origin = None" "\<not> foreign_fetch_site demo_call" for origin
    by (simp_all add: foreign_origin_def foreign_fetch_site_def demo_call_def demo_headers)
  moreover have "signature_subject demo_call_auth demo_call demo_signature [] = (Inr Operator, [(demo_nonce, 100)])"
    using demo_call_verified \<open>trim ''k'' \<noteq> []\<close> by (simp add: signature_subject_def demo_call_def consume_def MAX_LOCAL_REQUEST_NONCES_def)
  ultimately show ?thesis
    by (simp add: operator_http_auth_subject_def demo_call_def demo_headers cookie_subject_def demo_runtime_def)
qed

theorem signed_requests_are_accepted_once_witness:
  "\<exists>err. fst (operator_http_auth_subject demo_call_auth (demo_call\<lparr>oc_now := 110\<rparr>)
     (demo_runtime\<lparr>rs_replays := [(demo_nonce, 100)]\<rparr>)) = Inl err"
  using signed_requests_are_accepted_once [of demo_call demo_signature demo_call_auth demo_runtime Operator
      "demo_runtime\<lparr>rs_replays := [(demo_nonce, 100)]\<rparr>" "demo_call\<lparr>oc_now := 110\<rparr>" demo_signature "[]"] demo_headers demo_accepted
  by (simp add: demo_call_def by_cookie_def Let_def)

theorem accepted_calls_show_a_credential_witness:
  "\<exists>subject st'. operator_http_auth_subject demo_call_auth demo_call demo_runtime = (Inr subject, st') \<and>
     strict_header_value demo_request_text ''host'' = Some (Some (''127.0.0.1:'' @ decimal 7))"
  using accepted_calls_show_a_credential [OF demo_accepted] demo_accepted by (simp add: demo_call_def)

theorem bootstrap_opens_one_session_witness:
  "\<exists>st1 st2. issue_bootstrap_at (\<lambda>_. ''b'') 0 ''o'' BrowserSessionStore_default = Some (''b'', st1) \<and>
     consume_bootstrap_at (\<lambda>_. replicate 32 (CHR ''a'')) ''b'' 30 ''o'' st1 = Some (Some (replicate 32 (CHR ''a'')), st2)"
  using bootstrap_opens_one_session [of BrowserSessionStore_default "\<lambda>_. ''b''" "\<lambda>_. replicate 32 (CHR ''a'')" 0 30 30 "''o''" 7]
  by (auto simp: BrowserSessionStore_default_def simple_uuid_def list_all_iff)

end
