(* ===== verification/Decisions.thy ===== *)
theory Decisions
  imports Auth Mesh
begin

text \<open>
  Approval of risky actions: the tamper-evident records of \<open>apps/heiwa_core/src/integrity.rs\<close> and the
  gate of \<open>crates/heiwa_drex/src/drex_gate.rs\<close> that decides which actions wait for one and waits.
\<close>

section \<open>Canonical text and tags\<close>

record decision_lib =
  dl_base64 :: "string \<Rightarrow> string"
  dl_string_text :: "string \<Rightarrow> string"
  dl_number_text :: "json_number \<Rightarrow> string"
  dl_value_of_slice :: "string \<Rightarrow> json option"

definition DECISION_INTEGRITY_VERSION :: string where "DECISION_INTEGRITY_VERSION = ''1''"
definition DECISION_DOMAIN :: string where "DECISION_DOMAIN = ''heiwa-decision-v1'' @ [NL]"

text \<open>Keys are distinct, so sorting the entries by key is sorting the keys and looking each up.\<close>

fun write_canonical :: "decision_lib \<Rightarrow> json \<Rightarrow> string" where
  "write_canonical D (JObject kvs) =
     ''{'' @ join_comma (map (\<lambda>kv. dl_string_text D (fst kv) @ '':'' @ snd kv)
       (sort_key fst (map (\<lambda>(k, v). (k, write_canonical D v)) kvs))) @ ''}''"
| "write_canonical D (JArray items) = ''['' @ join_comma (map (write_canonical D) items) @ '']''"
| "write_canonical D JNull = ''null''"
| "write_canonical D (JBool b) = (if b then ''true'' else ''false'')"
| "write_canonical D (JNumber n) = dl_number_text D n"
| "write_canonical D (JString s) = dl_string_text D s"

definition decision_tag :: "decision_lib \<Rightarrow> string \<Rightarrow> json \<Rightarrow> string option" where
  "decision_tag D secret v =
     (if secret = [] then None else Some (dl_base64 D (hmac_sha256 secret (DECISION_DOMAIN @ write_canonical D v))))"

definition verify_decision_tag :: "decision_lib \<Rightarrow> string \<Rightarrow> json \<Rightarrow> string \<Rightarrow> bool" where
  "verify_decision_tag D secret v tag =
     (case decision_tag D secret v of None \<Rightarrow> False | Some expected \<Rightarrow> constant_time_eq expected tag)"

datatype DecisionIntegrity = Verified | Invalid string | Unverifiable

definition DecisionIntegrity_as_str :: "DecisionIntegrity \<Rightarrow> string" where
  "DecisionIntegrity_as_str i = (case i of Verified \<Rightarrow> ''verified'' | Invalid reason \<Rightarrow> reason | Unverifiable \<Rightarrow> ''unverifiable'')"

definition valid_decision_id :: "string \<Rightarrow> bool" where
  "valid_decision_id s \<longleftrightarrow> s \<noteq> [] \<and> length s \<le> 160 \<and> s \<notin> {''.'', ''..''} \<and>
     list_all (\<lambda>c. is_ascii_alphanumeric c \<or> c \<in> set ''-_.'') s"

text \<open>What opening a record without following links shows: a failure, or what kind of file it is, its
  length, and the bytes a bounded read then gives (\<open>None\<close> for a failed read).\<close>

record opened_decision =
  od_is_file :: bool
  od_len :: nat
  od_bytes :: "string option"

datatype decision_read_error = DecisionIo | InvalidDecisionFile | DecisionTooLong | MalformedDecision

definition read_decision_record :: "decision_lib \<Rightarrow> opened_decision option \<Rightarrow> decision_read_error + json" where
  "read_decision_record D opened =
     (let LIMIT = 16 * 1024 * 1024 in
      case opened of
        None \<Rightarrow> Inl DecisionIo
      | Some f \<Rightarrow>
          if \<not> od_is_file f \<or> od_len f = 0 \<or> od_len f > LIMIT then Inl InvalidDecisionFile
          else (case od_bytes f of
                  None \<Rightarrow> Inl DecisionIo
                | Some bytes \<Rightarrow>
                    let raw = take (LIMIT + 1) bytes in
                    if length raw > LIMIT then Inl DecisionTooLong
                    else (case dl_value_of_slice D raw of None \<Rightarrow> Inl MalformedDecision | Some v \<Rightarrow> Inr v)))"

definition decided_outcome :: "json \<Rightarrow> bool" where
  "decided_outcome v \<longleftrightarrow> string_field v ''outcome'' = Some ''approved'' \<or> string_field v ''outcome'' = Some ''denied''"

definition remove_key :: "string \<Rightarrow> json \<Rightarrow> json" where
  "remove_key k v = (case v of JObject kvs \<Rightarrow> JObject (bt_remove k kvs) | _ \<Rightarrow> v)"

definition classify_decision :: "decision_lib \<Rightarrow> string option \<Rightarrow> string \<Rightarrow> json \<Rightarrow> DecisionIntegrity" where
  "classify_decision D secret stem v =
     (if \<not> valid_decision_id stem \<or> string_field v ''id'' \<noteq> Some stem then Invalid ''id_mismatch''
      else if \<not> decided_outcome v then Invalid ''invalid_outcome''
      else (case json_get v ''integrity'' of
              None \<Rightarrow> Invalid ''untagged''
            | Some stamp \<Rightarrow>
                (case secret of
                   None \<Rightarrow> Unverifiable
                 | Some key \<Rightarrow>
                     if key = [] then Unverifiable
                     else if string_field stamp ''version'' \<noteq> Some DECISION_INTEGRITY_VERSION \<or>
                       string_field stamp ''alg'' \<noteq> Some ''hmac-sha256'' then Invalid ''invalid_stamp''
                     else if verify_decision_tag D key (remove_key ''integrity'' v) (unwrap_or (string_field stamp ''tag'') [])
                       then Verified else Invalid ''tag_mismatch'')))"

datatype seal_error = NotAnObject | InvalidDecision | EmptyCredential

definition seal_decision :: "decision_lib \<Rightarrow> string \<Rightarrow> json \<Rightarrow> seal_error + json" where
  "seal_decision D secret v =
     (case v of
        JObject kvs \<Rightarrow>
          if \<not> valid_decision_id (unwrap_or (string_field v ''id'') []) \<or> \<not> decided_outcome v then Inl InvalidDecision
          else
            let body = bt_remove ''integrity'' kvs in
            (case decision_tag D secret (JObject body) of
               None \<Rightarrow> Inl EmptyCredential
             | Some tag \<Rightarrow>
                 Inr (JObject (bt_insert ''integrity'' (JObject [(''alg'', JString ''hmac-sha256''), (''tag'', JString tag),
                   (''version'', JString DECISION_INTEGRITY_VERSION)]) body)))
      | _ \<Rightarrow> Inl NotAnObject)"

section \<open>The approval gate\<close>

datatype RiskLevel = RiskLow | RiskMedium | RiskHigh | RiskCritical

definition RiskLevel_as_str :: "RiskLevel \<Rightarrow> string" where
  "RiskLevel_as_str r = (case r of RiskLow \<Rightarrow> ''low'' | RiskMedium \<Rightarrow> ''medium'' | RiskHigh \<Rightarrow> ''high'' | RiskCritical \<Rightarrow> ''critical'')"

text \<open>The derived order is the order of the constructors.\<close>

definition risk_rank :: "RiskLevel \<Rightarrow> nat" where
  "risk_rank r = (case r of RiskLow \<Rightarrow> 0 | RiskMedium \<Rightarrow> 1 | RiskHigh \<Rightarrow> 2 | RiskCritical \<Rightarrow> 3)"

datatype ApprovalVerdict = AutoApproved | AwaitingApproval string string

definition requires_hold :: "RiskLevel \<Rightarrow> string \<Rightarrow> bool" where
  "requires_hold risk surface = (case risk of
      RiskLow \<Rightarrow> False
    | RiskMedium \<Rightarrow> surface = ''discord''
    | RiskHigh \<Rightarrow> surface \<noteq> ''cli''
    | RiskCritical \<Rightarrow> True)"

text \<open>\<open>auto_approve\<close> is \<open>HEIWA_AUTO_APPROVE\<close> when it is set, \<open>uuid\<close> the drawn identifier.\<close>

definition evaluate_approval_policy ::
    "string option \<Rightarrow> string \<Rightarrow> string \<Rightarrow> RiskLevel \<Rightarrow> string \<Rightarrow> ApprovalVerdict" where
  "evaluate_approval_policy auto_approve state_dir uuid risk surface =
     (let auto_approve_env = unwrap_or auto_approve ''cli'' in
      if auto_approve_env = ''all'' then AutoApproved
      else if auto_approve_env = ''cli'' \<and> surface = ''cli'' \<and> risk_rank risk < risk_rank RiskCritical then AutoApproved
      else if \<not> requires_hold risk surface then AutoApproved
      else AwaitingApproval (''req_'' @ uuid) (state_dir @ ''/dispatch/requests/'' @ (''req_'' @ uuid) @ ''.json''))"

text \<open>The record \<open>stage_approval_request\<close> writes.\<close>

definition staged_request ::
    "string \<Rightarrow> string \<Rightarrow> string \<Rightarrow> RiskLevel \<Rightarrow> string \<Rightarrow> string \<Rightarrow> json \<Rightarrow> json" where
  "staged_request request_id action target risk surface created_at payload =
     JObject [(''action'', JString action), (''created_at_utc'', JString created_at), (''id'', JString request_id),
       (''payload'', payload), (''risk'', JString (RiskLevel_as_str risk)), (''surface'', JString surface),
       (''target'', JString target)]"

text \<open>One round of the wait: whether it was cancelled, what \<open>symlink_metadata\<close> says of the decision's
  path, what opening it shows, and the key in the secrets directory.\<close>

datatype path_state = PathMissing | PathError | PathRegular | PathOther

record decision_poll =
  dp_cancelled :: bool
  dp_path :: path_state
  dp_opened :: "opened_decision option"
  dp_key :: "string option"

datatype wait_error =
    InvalidRequestId | NoRuntimeRoot | WaitCancelled | NonregularRecord | UnreadableRecord
  | IntegrityFailed DecisionIntegrity | WaitIo | WaitTimeout

fun poll_decision :: "decision_lib \<Rightarrow> string \<Rightarrow> decision_poll list \<Rightarrow> wait_error + string" where
  "poll_decision D request_id [] = Inl WaitTimeout"
| "poll_decision D request_id (p # polls) =
     (if dp_cancelled p then Inl WaitCancelled
      else (case dp_path p of
              PathOther \<Rightarrow> Inl NonregularRecord
            | PathRegular \<Rightarrow>
                (case read_decision_record D (dp_opened p) of
                   Inl _ \<Rightarrow> Inl UnreadableRecord
                 | Inr parsed \<Rightarrow>
                     let integrity = classify_decision D (dp_key p) request_id parsed in
                     if integrity \<noteq> Verified then Inl (IntegrityFailed integrity)
                     else Inr (the (string_field parsed ''outcome'')))
            | PathMissing \<Rightarrow> poll_decision D request_id polls
            | PathError \<Rightarrow> Inl WaitIo))"

text \<open>\<open>polls\<close> are the rounds that begin before the timeout.\<close>

definition wait_for_decision_cancellable ::
    "decision_lib \<Rightarrow> string option \<Rightarrow> string \<Rightarrow> decision_poll list \<Rightarrow> wait_error + string" where
  "wait_for_decision_cancellable D runtime_root request_id polls =
     (if \<not> valid_decision_id request_id then Inl InvalidRequestId
      else if runtime_root = None then Inl NoRuntimeRoot
      else poll_decision D request_id polls)"

definition wait_for_decision ::
    "decision_lib \<Rightarrow> string option \<Rightarrow> string \<Rightarrow> decision_poll list \<Rightarrow> wait_error + string" where
  "wait_for_decision D runtime_root request_id polls =
     wait_for_decision_cancellable D runtime_root request_id (map (dp_cancelled_update (\<lambda>_. False)) polls)"

section \<open>What a tag proves\<close>

text \<open>The canonical text is that of the mesh envelope's payload: the two crates print a value the same
  way, so the mesh's lemmas on it apply. The other fields of its library do not matter.\<close>

definition text_lib :: "decision_lib \<Rightarrow> mesh_lib" where
  "text_lib D = demo_mesh\<lparr>ml_string_text := dl_string_text D, ml_number_text := dl_number_text D\<rparr>"

lemma write_canonical_mesh: "write_canonical D v = canonical_json (text_lib D) v"
proof (induction v)
  case (JArray items)
  then have "map (write_canonical D) items = map (canonical_json (text_lib D)) items" by simp
  then show ?case by (simp only: write_canonical.simps canonical_json.simps append_Cons append_Nil)
next
  case (JObject kvs)
  have "map (\<lambda>(k, v). (k, write_canonical D v)) kvs = map (\<lambda>(k, v). (k, canonical_json (text_lib D) v)) kvs"
    using JObject by (fastforce intro: map_cong)
  then show ?case by (simp only: write_canonical.simps canonical_json.simps append_Cons append_Nil) (simp add: text_lib_def)
qed (simp_all add: text_lib_def)

text \<open>What is relied on: the printers of strings and numbers are self-delimiting, and base64 loses nothing.\<close>

locale decision_texts = texts: json_print "text_lib D" for D :: decision_lib +
  assumes base64_inject: "dl_base64 D s = dl_base64 D t \<Longrightarrow> s = t"
begin

lemma canonical_binds: "write_canonical D v = write_canonical D w \<longleftrightarrow> sorted_json v = sorted_json w"
  unfolding write_canonical_mesh by (rule texts.canonical_iff)

lemma tag_binds:
  assumes "decision_tag D secret v = Some tag" and "decision_tag D secret w = Some tag"
    and "hmac_sha256 secret (DECISION_DOMAIN @ write_canonical D v) =
      hmac_sha256 secret (DECISION_DOMAIN @ write_canonical D w) \<longrightarrow> write_canonical D v = write_canonical D w"
  shows "sorted_json v = sorted_json w"
proof -
  have "dl_base64 D (hmac_sha256 secret (DECISION_DOMAIN @ write_canonical D v)) =
      dl_base64 D (hmac_sha256 secret (DECISION_DOMAIN @ write_canonical D w))"
    using assms(1,2) by (simp add: decision_tag_def split: if_splits)
  from base64_inject [OF this] assms(3) show ?thesis by (simp add: canonical_binds)
qed

end

lemma remove_inserted: "bt_remove k (bt_insert k v (bt_remove k m)) = bt_remove k m"
proof -
  have "bt_remove k (bt_insert k v m) = bt_remove k m" for m by (induction m) (simp_all add: bt_remove_def)
  then show ?thesis by (simp add: bt_remove_def)
qed

lemma string_field_remove: "k \<noteq> key \<Longrightarrow> string_field (remove_key key v) k = string_field v k"
  by (cases v) (simp_all add: string_field_def json_get_def remove_key_def)

lemma map_of_filter_key: "map_of (filter (\<lambda>e. fst e = k) xs) k = map_of xs k"
  by (induction xs) auto

lemma map_of_sorted: "map_of (sort_key fst xs) k = map_of xs k"
  using map_of_filter_key [of k "sort_key fst xs"] map_of_filter_key [of k xs] by (simp add: sort_key_stable)

lemma sorted_string_field:
  assumes "sorted_json v = sorted_json w"
  shows "string_field v k = string_field w k"
proof -
  have get: "map_option sorted_json (json_get u k) = json_get (sorted_json u) k" for u
    by (cases u) (simp_all add: json_get_def map_of_sorted map_of_map)
  have str: "as_str (sorted_json u) = as_str u" for u by (cases u) simp_all
  have "string_field u k = Option.bind (map_option sorted_json (json_get u k)) as_str" for u
    by (cases "json_get u k") (simp_all add: string_field_def str)
  then show ?thesis using assms by (simp add: get)
qed

lemma classify_verified:
  "classify_decision D key i v = Verified \<longleftrightarrow>
     valid_decision_id i \<and> string_field v ''id'' = Some i \<and> decided_outcome v \<and>
     (\<exists>secret stamp tag. key = Some secret \<and> json_get v ''integrity'' = Some stamp \<and>
        string_field stamp ''version'' = Some DECISION_INTEGRITY_VERSION \<and> string_field stamp ''alg'' = Some ''hmac-sha256'' \<and>
        unwrap_or (string_field stamp ''tag'') [] = tag \<and>
        decision_tag D secret (remove_key ''integrity'' v) = Some tag)"
  by (auto simp: classify_decision_def verify_decision_tag_def decision_tag_def constant_time_eq_is_equality split: option.splits if_splits)

lemma sealed_graph:
  "seal_decision D secret v = Inr sealed \<longleftrightarrow>
     (\<exists>kvs tag. v = JObject kvs \<and> valid_decision_id (unwrap_or (string_field v ''id'') []) \<and> decided_outcome v \<and>
        decision_tag D secret (remove_key ''integrity'' v) = Some tag \<and>
        sealed = JObject (bt_insert ''integrity'' (JObject [(''alg'', JString ''hmac-sha256''), (''tag'', JString tag),
          (''version'', JString DECISION_INTEGRITY_VERSION)]) (bt_remove ''integrity'' kvs)))"
  by (auto simp: seal_decision_def remove_key_def Let_def split: json.splits option.splits if_splits)

text \<open>C27. What is sealed verifies: the sealed record keeps the id, the outcome and everything else of the
  record, the readers holding the same credential classify it as verified under its own id, readers
  under any other id and readers without the credential do not, and sealing it again changes nothing.\<close>

theorem sealed_decisions_verify:
  assumes "seal_decision D secret v = Inr sealed"
  shows "\<exists>i. string_field v ''id'' = Some i \<and> valid_decision_id i \<and>
      remove_key ''integrity'' sealed = remove_key ''integrity'' v \<and>
      classify_decision D (Some secret) i sealed = Verified \<and>
      (\<forall>j. j \<noteq> i \<longrightarrow> classify_decision D (Some secret) j sealed = Invalid ''id_mismatch'') \<and>
      classify_decision D None i sealed = Unverifiable \<and>
      seal_decision D secret sealed = Inr sealed"
proof -
  from assms obtain kvs tag where v: "v = JObject kvs" and id: "valid_decision_id (unwrap_or (string_field v ''id'') [])"
    and out: "decided_outcome v" and tag: "decision_tag D secret (remove_key ''integrity'' v) = Some tag"
    and sealed: "sealed = JObject (bt_insert ''integrity'' (JObject [(''alg'', JString ''hmac-sha256''), (''tag'', JString tag),
        (''version'', JString DECISION_INTEGRITY_VERSION)]) (bt_remove ''integrity'' kvs))"
    unfolding sealed_graph by blast
  from id obtain i where i: "string_field v ''id'' = Some i" "valid_decision_id i"
    by (cases "string_field v ''id''") (simp_all add: valid_decision_id_def)
  have body: "remove_key ''integrity'' sealed = remove_key ''integrity'' v"
    by (simp add: v sealed remove_key_def remove_inserted)
  have same: "string_field sealed k = string_field v k" if "k \<noteq> ''integrity''" for k
    using string_field_remove [OF that, of sealed] string_field_remove [OF that, of v] body by simp
  have kept: "string_field sealed ''id'' = Some i" "decided_outcome sealed"
    using same i(1) out by (simp_all add: decided_outcome_def)
  obtain kvs' where kvs': "sealed = JObject kvs'" and stamp: "json_get sealed ''integrity'' = Some (JObject [(''alg'', JString ''hmac-sha256''),
      (''tag'', JString tag), (''version'', JString DECISION_INTEGRITY_VERSION)])"
    by (simp add: sealed json_get_def)
  have verified: "classify_decision D (Some secret) i sealed = Verified"
    using i(2) kept stamp tag body by (auto simp: classify_verified string_field_def json_get_def)
  moreover have "classify_decision D (Some secret) j sealed = Invalid ''id_mismatch''" if "j \<noteq> i" for j
    using that kept(1) by (simp add: classify_decision_def)
  moreover have "classify_decision D None i sealed = Unverifiable" using i(2) kept stamp by (simp add: classify_decision_def)
  moreover have "seal_decision D secret sealed = Inr sealed"
  proof -
    have "bt_remove ''integrity'' kvs' = bt_remove ''integrity'' kvs" using body by (simp add: v kvs' remove_key_def)
    then show ?thesis unfolding sealed_graph using kvs' i(2) kept tag body sealed by auto
  qed
  ultimately show ?thesis using i body by blast
qed

text \<open>C24. A tag binds everything the decision says: two records that verify under one credential and carry
  the same tag have the same content, up to the order of object entries, and so the same id and the
  same outcome, unless their two messages are a collision of HMAC-SHA-256. A tag cannot be moved to
  another request, another outcome or another effect.\<close>

theorem decision_tag_binds_content:
  assumes "decision_texts D"
    and v: "classify_decision D (Some secret) i v = Verified" and w: "classify_decision D (Some secret) j w = Verified"
    and same: "Option.bind (json_get v ''integrity'') (\<lambda>s. string_field s ''tag'') =
      Option.bind (json_get w ''integrity'') (\<lambda>s. string_field s ''tag'')"
    and no_collision: "hmac_sha256 secret (DECISION_DOMAIN @ write_canonical D (remove_key ''integrity'' v)) =
      hmac_sha256 secret (DECISION_DOMAIN @ write_canonical D (remove_key ''integrity'' w)) \<longrightarrow>
      write_canonical D (remove_key ''integrity'' v) = write_canonical D (remove_key ''integrity'' w)"
  shows "i = j \<and> string_field v ''outcome'' = string_field w ''outcome'' \<and>
    sorted_json (remove_key ''integrity'' v) = sorted_json (remove_key ''integrity'' w)"
proof -
  from v w same obtain tag where "decision_tag D secret (remove_key ''integrity'' v) = Some tag"
    "decision_tag D secret (remove_key ''integrity'' w) = Some tag"
    unfolding classify_verified by auto
  then have eq: "sorted_json (remove_key ''integrity'' v) = sorted_json (remove_key ''integrity'' w)"
    using no_collision by (rule decision_texts.tag_binds [OF assms(1)])
  have "string_field v k = string_field w k" if "k \<noteq> ''integrity''" for k
    using sorted_string_field [OF eq, of k] string_field_remove [OF that] by simp
  then show ?thesis using eq v w by (simp add: classify_verified)
qed

section \<open>What the gate lets through\<close>

lemma polled:
  assumes "poll_decision D request_id polls = Inr outcome"
  shows "\<exists>n v. n < length polls \<and> list_all (\<lambda>p. \<not> dp_cancelled p \<and> dp_path p = PathMissing) (take n polls) \<and>
    \<not> dp_cancelled (polls ! n) \<and> dp_path (polls ! n) = PathRegular \<and>
    read_decision_record D (dp_opened (polls ! n)) = Inr v \<and>
    classify_decision D (dp_key (polls ! n)) request_id v = Verified \<and> string_field v ''outcome'' = Some outcome"
  using assms
proof (induction polls)
  case (Cons p polls)
  show ?case
  proof (cases "dp_path p")
    case PathMissing
    with Cons obtain n v where "n < length polls" "list_all (\<lambda>p. \<not> dp_cancelled p \<and> dp_path p = PathMissing) (take n polls)"
      "\<not> dp_cancelled (polls ! n)" "dp_path (polls ! n) = PathRegular" "read_decision_record D (dp_opened (polls ! n)) = Inr v"
      "classify_decision D (dp_key (polls ! n)) request_id v = Verified" "string_field v ''outcome'' = Some outcome"
      by (auto split: if_splits)
    moreover have "\<not> dp_cancelled p" using Cons.prems by (auto split: if_splits)
    ultimately show ?thesis using PathMissing by (intro exI [of _ "Suc n"] exI [of _ v]) simp
  next
    case PathRegular
    with Cons.prems obtain v where "\<not> dp_cancelled p" "read_decision_record D (dp_opened p) = Inr v"
      "classify_decision D (dp_key p) request_id v = Verified" "outcome = the (string_field v ''outcome'')"
      by (auto split: if_splits sum.splits simp: Let_def)
    then show ?thesis using PathRegular by (intro exI [of _ 0] exI [of _ v]) (auto simp: classify_verified decided_outcome_def)
  qed (use Cons.prems in \<open>auto split: if_splits\<close>)
qed simp

lemma read_graph:
  assumes "read_decision_record D opened = Inr v"
  shows "\<exists>f bytes. opened = Some f \<and> od_is_file f \<and> od_bytes f = Some bytes \<and> length bytes \<le> 16 * 1024 * 1024 \<and>
    dl_value_of_slice D bytes = Some v"
proof -
  have raw: "take (Suc LIMIT) bytes = bytes \<and> length bytes \<le> LIMIT" if "length (take (Suc LIMIT) bytes) \<le> LIMIT" for LIMIT :: nat and bytes :: string
    using that by (cases "length bytes \<le> LIMIT") simp_all
  show ?thesis
  proof (cases opened)
    case (Some f)
    with assms obtain bytes where "od_is_file f" "od_bytes f = Some bytes" "length (take (Suc (16 * 1024 * 1024)) bytes) \<le> 16 * 1024 * 1024"
      "dl_value_of_slice D (take (Suc (16 * 1024 * 1024)) bytes) = Some v"
      by (auto simp: read_decision_record_def Let_def not_less split: if_splits option.splits)
    with raw [of "16 * 1024 * 1024" bytes] Some show ?thesis by auto
  qed (use assms in \<open>simp add: read_decision_record_def Let_def\<close>)
qed

text \<open>C7. An effect waits for a verified decision: the wait returns an outcome only when, in a round before the
  timeout, after rounds that were not cancelled and found no record, a regular file of at most 16 MiB held a
  record for exactly this request, tagged with the installation's credential, whose outcome is the one
  returned, approved or denied. A record that is linked, malformed, untagged, moved from another request
  or tampered with ends the wait with an error.\<close>

theorem effects_wait_for_a_verified_decision:
  assumes "wait_for_decision_cancellable D runtime_root request_id polls = Inr outcome"
  shows "outcome \<in> {''approved'', ''denied''} \<and> valid_decision_id request_id \<and>
    (\<exists>n f bytes v secret. n < length polls \<and>
       list_all (\<lambda>p. \<not> dp_cancelled p \<and> dp_path p = PathMissing) (take n polls) \<and>
       \<not> dp_cancelled (polls ! n) \<and> dp_path (polls ! n) = PathRegular \<and> dp_opened (polls ! n) = Some f \<and>
       od_is_file f \<and> od_bytes f = Some bytes \<and> length bytes \<le> 16 * 1024 * 1024 \<and> dl_value_of_slice D bytes = Some v \<and>
       dp_key (polls ! n) = Some secret \<and> secret \<noteq> [] \<and>
       string_field v ''id'' = Some request_id \<and> string_field v ''outcome'' = Some outcome \<and>
       decision_tag D secret (remove_key ''integrity'' v) =
         Some (unwrap_or (Option.bind (json_get v ''integrity'') (\<lambda>s. string_field s ''tag'')) []))"
proof -
  from assms have id: "valid_decision_id request_id" and "poll_decision D request_id polls = Inr outcome"
    by (auto simp: wait_for_decision_cancellable_def split: if_splits)
  from polled [OF this(2)] obtain n v where n: "n < length polls"
      "list_all (\<lambda>p. \<not> dp_cancelled p \<and> dp_path p = PathMissing) (take n polls)" "\<not> dp_cancelled (polls ! n)"
      "dp_path (polls ! n) = PathRegular" and v: "read_decision_record D (dp_opened (polls ! n)) = Inr v"
      "classify_decision D (dp_key (polls ! n)) request_id v = Verified" "string_field v ''outcome'' = Some outcome"
    by blast
  from read_graph [OF v(1)] obtain f bytes where f: "dp_opened (polls ! n) = Some f" "od_is_file f" "od_bytes f = Some bytes"
    "length bytes \<le> 16 * 1024 * 1024" "dl_value_of_slice D bytes = Some v" by blast
  from v(2) obtain secret where secret: "dp_key (polls ! n) = Some secret" "string_field v ''id'' = Some request_id" "decided_outcome v"
    "decision_tag D secret (remove_key ''integrity'' v) =
       Some (unwrap_or (Option.bind (json_get v ''integrity'') (\<lambda>s. string_field s ''tag'')) [])"
    by (auto simp: classify_verified)
  then have "secret \<noteq> []" by (auto simp: decision_tag_def)
  moreover have "outcome \<in> {''approved'', ''denied''}" using secret(3) v(3) by (simp add: decided_outcome_def)
  ultimately show ?thesis using id n f v(3) secret by blast
qed

text \<open>The policy: more risk never passes where less is held, a critical action passes only under the override
  for everything, and what is held has a request of its own.\<close>

lemma approval_policy_hold:
  "evaluate_approval_policy env dir uuid risk surface =
     (if env = Some ''all'' \<or> ((env = None \<or> env = Some ''cli'') \<and> surface = ''cli'' \<and> risk \<noteq> RiskCritical) \<or> \<not> requires_hold risk surface
      then AutoApproved else AwaitingApproval (''req_'' @ uuid) (dir @ ''/dispatch/requests/'' @ (''req_'' @ uuid) @ ''.json''))"
proof -
  have rank: "risk_rank risk < risk_rank RiskCritical \<longleftrightarrow> risk \<noteq> RiskCritical" by (cases risk) (simp_all add: risk_rank_def)
  show ?thesis unfolding evaluate_approval_policy_def rank Let_def by (cases env) simp_all
qed

lemma approval_policy_critical:
  "evaluate_approval_policy env dir uuid RiskCritical surface = AutoApproved \<longleftrightarrow> env = Some ''all''"
  by (simp add: approval_policy_hold requires_hold_def)

lemma approval_policy_monotone:
  assumes "risk_rank r \<le> risk_rank risk" and "evaluate_approval_policy env dir uuid risk surface = AutoApproved"
  shows "evaluate_approval_policy env dir uuid r surface = AutoApproved"
proof -
  have "\<not> requires_hold r surface" if "\<not> requires_hold risk surface"
    using assms(1) that by (cases risk; cases r) (auto simp: risk_rank_def requires_hold_def)
  moreover have "r \<noteq> RiskCritical" if "risk \<noteq> RiskCritical"
    using assms(1) that by (cases risk; cases r) (simp_all add: risk_rank_def)
  ultimately show ?thesis using assms(2) by (auto simp: approval_policy_hold split: if_splits)
qed

section \<open>Witnesses\<close>

definition demo_decisions :: decision_lib where
  "demo_decisions = \<lparr>dl_base64 = b64_encode, dl_string_text = ml_string_text demo_mesh,
     dl_number_text = ml_number_text demo_mesh, dl_value_of_slice = unwire\<rparr>"

interpretation demo_decisions: decision_texts demo_decisions
proof -
  have "text_lib demo_decisions = demo_mesh" by (simp add: text_lib_def demo_decisions_def)
  then have printed: "json_print (text_lib demo_decisions)" using demo_mesh.json_print_axioms by simp
  have "s = t" if "dl_base64 demo_decisions s = dl_base64 demo_decisions t" for s t
    using that demo_auth.base64_reads_back [of s] demo_auth.base64_reads_back [of t]
    by (simp add: demo_decisions_def demo_auth_def)
  then show "decision_texts demo_decisions"
    by (intro decision_texts.intro printed decision_texts_axioms.intro)
qed

definition demo_decision :: json where
  "demo_decision = JObject [(''id'', JString ''req_a''), (''outcome'', JString ''approved'')]"

lemma demo_sealed: "\<exists>sealed. seal_decision demo_decisions ''k'' demo_decision = Inr sealed"
  by (auto simp: seal_decision_def demo_decision_def decided_outcome_def string_field_def json_get_def decision_tag_def
    valid_decision_id_def Let_def is_ascii_alphanumeric_def)

theorem sealed_decisions_verify_witness:
  "\<exists>sealed. seal_decision demo_decisions ''k'' demo_decision = Inr sealed \<and>
     classify_decision demo_decisions (Some ''k'') ''req_a'' sealed = Verified"
proof -
  obtain sealed where sealed: "seal_decision demo_decisions ''k'' demo_decision = Inr sealed" using demo_sealed by blast
  from sealed_decisions_verify [OF this] sealed show ?thesis
    by (auto simp: demo_decision_def string_field_def json_get_def)
qed

definition demo_tag :: string where
  "demo_tag = b64_encode (hmac_sha256 ''k'' (DECISION_DOMAIN @ write_canonical demo_decisions demo_decision))"

definition demo_stamp :: json where
  "demo_stamp = JObject [(''alg'', JString ''hmac-sha256''), (''tag'', JString demo_tag), (''version'', JString ''1'')]"

text \<open>The sealed record, and the same record parsed into another key order.\<close>

definition demo_record :: json where
  "demo_record = JObject [(''id'', JString ''req_a''), (''integrity'', demo_stamp), (''outcome'', JString ''approved'')]"

definition demo_reordered :: json where
  "demo_reordered = JObject [(''outcome'', JString ''approved''), (''integrity'', demo_stamp), (''id'', JString ''req_a'')]"

lemma demo_decision_verified:
  "classify_decision demo_decisions (Some ''k'') ''req_a'' demo_record = Verified"
  "classify_decision demo_decisions (Some ''k'') ''req_a'' demo_reordered = Verified"
proof -
  have "remove_key ''integrity'' demo_record = demo_decision" by (simp add: demo_record_def demo_decision_def remove_key_def bt_remove_def)
  moreover have "write_canonical demo_decisions (remove_key ''integrity'' demo_reordered) = write_canonical demo_decisions demo_decision"
    unfolding demo_decisions.canonical_binds
    by (simp add: demo_reordered_def demo_decision_def remove_key_def bt_remove_def)
  ultimately have tags: "decision_tag demo_decisions ''k'' (remove_key ''integrity'' demo_record) = Some demo_tag"
    "decision_tag demo_decisions ''k'' (remove_key ''integrity'' demo_reordered) = Some demo_tag"
    by (simp_all only: decision_tag_def) (simp_all add: demo_tag_def demo_decisions_def)
  have id: "valid_decision_id ''req_a''" by (simp add: valid_decision_id_def is_ascii_alphanumeric_def)
  note read = demo_record_def demo_reordered_def demo_stamp_def string_field_def json_get_def decided_outcome_def DECISION_INTEGRITY_VERSION_def
  show "classify_decision demo_decisions (Some ''k'') ''req_a'' demo_record = Verified"
    unfolding classify_verified using id tags(1) by (simp add: read)
  show "classify_decision demo_decisions (Some ''k'') ''req_a'' demo_reordered = Verified"
    unfolding classify_verified using id tags(2) by (simp add: read)
qed

theorem decision_tag_binds_content_witness:
  "classify_decision demo_decisions (Some ''k'') ''req_a'' demo_record = Verified \<and>
     classify_decision demo_decisions (Some ''k'') ''req_a'' demo_reordered = Verified \<and>
     sorted_json (remove_key ''integrity'' demo_record) = sorted_json (remove_key ''integrity'' demo_reordered)"
proof -
  have "write_canonical demo_decisions (remove_key ''integrity'' demo_record) =
      write_canonical demo_decisions (remove_key ''integrity'' demo_reordered)"
    unfolding demo_decisions.canonical_binds
    by (simp add: demo_record_def demo_reordered_def remove_key_def bt_remove_def)
  moreover have "json_get demo_record ''integrity'' = json_get demo_reordered ''integrity''"
    by (simp add: demo_record_def demo_reordered_def json_get_def)
  ultimately show ?thesis
    using decision_tag_binds_content [OF demo_decisions.decision_texts_axioms demo_decision_verified] demo_decision_verified by simp
qed

definition demo_poll :: decision_poll where
  "demo_poll = \<lparr>dp_cancelled = False, dp_path = PathRegular,
     dp_opened = Some \<lparr>od_is_file = True, od_len = 1, od_bytes = Some ''r''\<rparr>, dp_key = Some ''k''\<rparr>"

definition demo_files :: decision_lib where
  "demo_files = demo_decisions\<lparr>dl_value_of_slice := (\<lambda>s. if s = ''r'' then Some demo_record else None)\<rparr>"

lemma demo_files_verified: "classify_decision demo_files (Some ''k'') ''req_a'' demo_record = Verified"
proof -
  have "write_canonical demo_files v = write_canonical demo_decisions v" for v
    unfolding write_canonical_mesh by (simp add: text_lib_def demo_files_def)
  then have "decision_tag demo_files s v = decision_tag demo_decisions s v" for s v
    by (simp add: decision_tag_def demo_files_def)
  then show ?thesis using demo_decision_verified(1) by (simp add: classify_verified)
qed

theorem effects_wait_for_a_verified_decision_witness:
  "wait_for_decision_cancellable demo_files (Some ''/r'') ''req_a'' [demo_poll\<lparr>dp_path := PathMissing\<rparr>, demo_poll] = Inr ''approved'' \<and>
   (\<exists>secret v. decision_tag demo_files secret (remove_key ''integrity'' v) =
      Some (unwrap_or (Option.bind (json_get v ''integrity'') (\<lambda>s. string_field s ''tag'')) []))"
proof -
  have id: "valid_decision_id ''req_a''" by (simp add: valid_decision_id_def is_ascii_alphanumeric_def)
  have "read_decision_record demo_files (dp_opened demo_poll) = Inr demo_record"
    by (simp add: read_decision_record_def demo_poll_def demo_files_def)
  moreover have "string_field demo_record ''outcome'' = Some ''approved''"
    by (simp add: demo_record_def string_field_def json_get_def)
  ultimately have "wait_for_decision_cancellable demo_files (Some ''/r'') ''req_a'' [demo_poll\<lparr>dp_path := PathMissing\<rparr>, demo_poll] =
      Inr ''approved''"
    using id demo_files_verified by (simp add: wait_for_decision_cancellable_def demo_poll_def)
  with effects_wait_for_a_verified_decision [OF this] show ?thesis by blast
qed

end
