(* ===== verification/Float64_Round.thy ===== *)
theory Float64_Round
  imports Complex_Main Float64
begin

text \<open>
  Rounding of \<open>f64\<close> arithmetic on the reals: numbers are not rounded, rounding is monotone, and so what is
  left of a budget never exceeds it and a sum of amounts is at least each of them.
\<close>

section \<open>Rounding\<close>

lemma bit_length_bounds: "0 < m \<Longrightarrow> 0 < bit_length m \<and> 2 ^ nat (bit_length m - 1) \<le> m \<and> m < 2 ^ nat (bit_length m)"
proof (induction m rule: bit_length.induct)
  case (1 m)
  show ?case
  proof (cases "m div 2 \<le> 0")
    case True
    with 1 have "m = 1" by simp
    then show ?thesis by (simp add: bit_length.simps [of 1] bit_length.simps [of 0])
  next
    case False
    with 1 have IH: "0 < bit_length (m div 2)" "2 ^ nat (bit_length (m div 2) - 1) \<le> m div 2" "m div 2 < 2 ^ nat (bit_length (m div 2))"
      by auto
    obtain n where n: "bit_length (m div 2) = int (Suc n)"
      using IH(1) by (metis gr0_implies_Suc zero_less_imp_eq_int)
    have "bit_length m = int (Suc (Suc n))" using 1(2) n by (simp add: bit_length.simps [of m])
    moreover have "2 ^ n \<le> m div 2" "m div 2 < 2 ^ Suc n"
      using IH(2,3) unfolding n by (simp_all del: power_Suc add: nat_add_distrib)
    moreover have "nat (int (Suc (Suc n)) - 1) = Suc n" "nat (int (Suc (Suc n))) = Suc (Suc n)" by simp_all
    ultimately show ?thesis by (simp only: power_Suc) auto
  qed
qed

text \<open>Rounding to the nearest integer, ties to even, on the reals.\<close>

definition rne :: "real \<Rightarrow> int" where
  "rne t = (if 2 * frac t > 1 \<or> (2 * frac t = 1 \<and> odd \<lfloor>t\<rfloor>) then \<lfloor>t\<rfloor> + 1 else \<lfloor>t\<rfloor>)"

lemma rne_of_int [simp]: "rne (of_int m) = m"
  by (simp add: rne_def)

lemma rne_mono: "s \<le> t \<Longrightarrow> rne s \<le> rne t"
proof (cases "\<lfloor>s\<rfloor> = \<lfloor>t\<rfloor>")
  case True
  assume "s \<le> t"
  with True have "frac s \<le> frac t" by (simp add: frac_def)
  with True show ?thesis by (auto simp: rne_def)
next
  case False
  assume "s \<le> t"
  with False have "\<lfloor>s\<rfloor> < \<lfloor>t\<rfloor>" using floor_mono [of s t] by linarith
  then show ?thesis by (auto simp: rne_def)
qed

lemma round_shift_rne: "round_shift m k = rne (of_int m / 2 ^ k)"
proof -
  define d :: int where "d = 2 ^ k"
  have d: "0 < d" "(2 ^ k :: real) = of_int d" "(2 ^ k :: int) = d" by (simp_all add: d_def)
  have fl: "\<lfloor>of_int m / (of_int d :: real)\<rfloor> = m div d" by (rule floor_divide_of_int_eq)
  have "of_int m = (of_int (m div d * d + m mod d) :: real)" by (simp only: div_mult_mod_eq)
  then have "of_int m = (of_int (m div d) * of_int d + of_int (m mod d) :: real)" by (simp only: of_int_add of_int_mult)
  then have "of_int m / (of_int d :: real) = of_int (m div d) + of_int (m mod d) / of_int d"
    using d(1) by (simp add: add_divide_distrib)
  then have fr: "frac (of_int m / (of_int d :: real)) = of_int (m mod d) / of_int d" using fl by (simp add: frac_def)
  have "2 * (of_int r / (of_int d :: real)) > 1 \<longleftrightarrow> 2 * r > d" for r
    using d(1) by (simp add: less_divide_eq) linarith
  moreover have "2 * (of_int r / (of_int d :: real)) = 1 \<longleftrightarrow> 2 * r = d" for r
    using d(1) by (simp add: divide_eq_eq) linarith
  ultimately show ?thesis unfolding round_shift_def rne_def d(2,3) fl fr Let_def by simp
qed

definition round_real :: "int \<Rightarrow> real \<Rightarrow> int" where
  "round_real E x = (E + 1074) * 2 ^ 52 + rne (x / 2 powi E)"

text \<open>The exponent of the result: 53 bits are left, or the least exponent is reached.\<close>

definition fits_exponent :: "int \<Rightarrow> real \<Rightarrow> bool" where
  "fits_exponent E x \<longleftrightarrow> - 1074 \<le> E \<and> x < 2 powi (E + 53) \<and> (E = - 1074 \<or> 2 powi (E + 52) \<le> x)"

lemma round_mag_real:
  assumes "0 < m"
  obtains E where "fits_exponent E (of_int m * 2 powi e)" and "round_mag m e = min INF_MAG (round_real E (of_int m * 2 powi e))"
proof
  define k where "k = max (bit_length m - 53) (- 1074 - e)"
  let ?x = "of_int m * 2 powi e :: real"
  have b: "2 ^ nat (bit_length m - 1) \<le> m" "m < 2 ^ nat (bit_length m)" "0 < bit_length m"
    using bit_length_bounds [OF assms] by auto
  have low: "2 powi (bit_length m - 1) \<le> (of_int m :: real)" and high: "(of_int m :: real) < 2 powi bit_length m"
  proof -
    have "(of_int (2 ^ nat (bit_length m - 1)) :: real) \<le> of_int m" "(of_int m :: real) < of_int (2 ^ nat (bit_length m))"
      using b by (simp_all only: of_int_le_iff of_int_less_iff)
    then show "2 powi (bit_length m - 1) \<le> (of_int m :: real)" "(of_int m :: real) < 2 powi bit_length m"
      using b(3) by (simp_all add: power_int_def)
  qed
  have split: "2 powi (a + e) = 2 powi a * (2 powi e :: real)" for a by (simp add: power_int_add)
  have pos: "0 < (2 powi e :: real)" "\<not> 2 powi e \<le> (0 :: real)" by (simp_all add: not_le)
  show "fits_exponent (e + k) ?x"
  proof -
    have "2 powi bit_length m \<le> (2 powi (k + 53) :: real)" by (rule power_int_increasing) (simp_all add: k_def)
    with high have "?x < 2 powi (k + 53) * 2 powi e" using pos by (simp add: mult_less_cancel_right)
    then have "?x < 2 powi (e + k + 53)" using split [of "k + 53"] by (simp add: algebra_simps)
    moreover have "2 powi (e + k + 52) \<le> ?x" if "e + k \<noteq> - 1074"
    proof -
      have "k + 52 = bit_length m - 1" using that by (auto simp: k_def)
      then have "2 powi (bit_length m - 1 + e) = 2 powi (bit_length m - 1) * (2 powi e :: real)" "e + k + 52 = bit_length m - 1 + e"
        using split by simp_all
      then have "2 powi (e + k + 52) = 2 powi (bit_length m - 1) * (2 powi e :: real)" by (simp only:)
      then show ?thesis using low pos by simp
    qed
    moreover have "- 1074 \<le> e + k" by (simp add: k_def)
    ultimately show ?thesis unfolding fits_exponent_def by blast
  qed
  have "?x / 2 powi (e + k) = of_int m / 2 powi k" by (simp add: power_int_add field_simps)
  moreover have "rne (of_int m / 2 powi k) = (if k \<le> 0 then m * 2 ^ nat (- k) else round_shift m (nat k))"
  proof (cases "k \<le> 0")
    case True
    then have "of_int m / 2 powi k = (of_int (m * 2 ^ nat (- k)) :: real)"
      by (cases "k = 0") (simp_all add: power_int_def field_simps)
    then show ?thesis using True rne_of_int [of "m * 2 ^ nat (- k)"] by simp
  qed (simp add: round_shift_rne power_int_def)
  ultimately show "round_mag m e = min INF_MAG (round_real (e + k) ?x)"
    using assms by (simp add: round_mag_def round_real_def k_def Let_def)
qed

lemma rne_bounds: "of_int l \<le> t \<Longrightarrow> l \<le> rne t" "t \<le> of_int u \<Longrightarrow> rne t \<le> u"
  using rne_mono [of "of_int l" t] rne_mono [of t "of_int u"] by simp_all

lemma round_real_mono:
  assumes "fits_exponent E x" "fits_exponent F y" "0 \<le> x" "x \<le> y"
  shows "round_real E x \<le> round_real F y"
proof (cases "E = F")
  case True
  then show ?thesis using assms(4) rne_mono [of "x / 2 powi E" "y / 2 powi E"] by (simp add: round_real_def divide_right_mono)
next
  case False
  have "E < F"
  proof (rule ccontr)
    assume "\<not> E < F"
    with False have "F < E" by simp
    with assms(1,2) have "2 powi (E + 52) \<le> x" "y < 2 powi (F + 53)" by (auto simp: fits_exponent_def)
    moreover have "(2 powi (F + 53) :: real) \<le> 2 powi (E + 52)" using \<open>F < E\<close> by (intro power_int_increasing) simp_all
    ultimately show False using assms(4) by linarith
  qed
  have split: "2 powi (G + a) = 2 powi a * (2 powi G :: real)" for G a by (simp add: power_int_add)
  have "x / 2 powi E \<le> of_int (2 ^ 53)"
    using assms(1) split [of E 53] by (simp add: fits_exponent_def divide_le_eq)
  then have "rne (x / 2 powi E) \<le> 2 ^ 53" by (rule rne_bounds)
  moreover have "of_int (2 ^ 52) \<le> y / 2 powi F"
    using assms(2) \<open>E < F\<close> split [of F 52] assms(1) by (auto simp: fits_exponent_def le_divide_eq)
  then have "2 ^ 52 \<le> rne (y / 2 powi F)" by (rule rne_bounds)
  moreover have "(E + 1075) * 2 ^ 52 \<le> (F + 1074) * 2 ^ 52" using \<open>E < F\<close> by simp
  ultimately show ?thesis by (simp add: round_real_def)
qed

lemma round_mag_mono:
  assumes "0 \<le> m" "of_int m * 2 powi e \<le> (of_int n * 2 powi f :: real)"
  shows "round_mag m e \<le> round_mag n f"
proof -
  have pos: "0 \<le> round_mag n f" if n: "0 < n"
  proof -
    obtain F where F: "fits_exponent F (of_int n * 2 powi f)" "round_mag n f = min INF_MAG (round_real F (of_int n * 2 powi f))"
      using round_mag_real [OF n] by blast
    have "0 \<le> rne (of_int n * 2 powi f / 2 powi F)" using n by (intro rne_bounds) simp
    then show ?thesis using F by (simp add: round_real_def fits_exponent_def INF_MAG_def)
  qed
  show ?thesis
  proof (cases "m = 0")
    case True
    have "\<not> 2 powi f \<le> (0 :: real)" by (simp add: not_le)
    with True have "0 \<le> n" using assms(2) by (auto simp: zero_le_mult_iff)
    then show ?thesis using pos True by (cases "n = 0") (simp_all add: round_mag_def [of 0])
  next
    case False
    with assms have "0 < m" by simp
    then have "0 < (of_int m * 2 powi e :: real)" by simp
    with assms(2) have "0 < n" by (metis less_le_trans mult_pos_pos of_int_0_less_iff zero_less_mult_iff zero_less_power_int zero_less_numeral linorder_not_less order.asym)
    obtain E where E: "fits_exponent E (of_int m * 2 powi e)" "round_mag m e = min INF_MAG (round_real E (of_int m * 2 powi e))"
      using round_mag_real [OF \<open>0 < m\<close>] by blast
    obtain F where F: "fits_exponent F (of_int n * 2 powi f)" "round_mag n f = min INF_MAG (round_real F (of_int n * 2 powi f))"
      using round_mag_real [OF \<open>0 < n\<close>] by blast
    show ?thesis unfolding E(2) F(2)
      using round_real_mono [OF E(1) F(1)] \<open>0 < m\<close> assms(2) by simp
  qed
qed

lemma bit_length_le: "0 < m \<Longrightarrow> m < 2 ^ n \<Longrightarrow> bit_length m \<le> int n"
proof (rule ccontr)
  assume "0 < m" "m < 2 ^ n" "\<not> bit_length m \<le> int n"
  then have "(2 :: int) ^ n \<le> 2 ^ nat (bit_length m - 1)" by (intro power_increasing) simp_all
  then show False using bit_length_bounds [OF \<open>0 < m\<close>] \<open>m < 2 ^ n\<close> by linarith
qed

lemma bit_length_ge: "2 ^ n \<le> m \<Longrightarrow> int n < bit_length m"
proof (rule ccontr)
  assume "2 ^ n \<le> m" "\<not> int n < bit_length m"
  then have "(2 :: int) ^ nat (bit_length m) \<le> 2 ^ n" by (intro power_increasing) simp_all
  moreover have "0 < m" using \<open>2 ^ n \<le> m\<close> by (smt (verit) zero_less_power)
  ultimately show False using bit_length_bounds [of m] \<open>2 ^ n \<le> m\<close> by linarith
qed

text \<open>A number is not rounded.\<close>

lemma round_mag_exact: "f64_finite b \<Longrightarrow> round_mag (f64_man b) (f64_exp b) = f64_mag b"
proof -
  assume finite: "f64_finite b"
  define E where "E = f64_mag b div 2 ^ 52"
  define F where "F = f64_mag b mod 2 ^ 52"
  have mag: "f64_mag b = E * 2 ^ 52 + F" by (simp add: E_def F_def)
  have F: "0 \<le> F" "F < 2 ^ 52" and "0 \<le> E" using f64_mag_bounds [of b] by (simp_all add: E_def F_def pos_imp_zdiv_nonneg_iff)
  have small: "min INF_MAG (f64_mag b) = f64_mag b" using finite by (simp add: f64_finite_def)
  show ?thesis
  proof (cases "E = 0")
    case True
    then have parts: "f64_man b = F" "f64_exp b = - 1074" by (simp_all add: f64_man_def f64_exp_def E_def F_def)
    show ?thesis
    proof (cases "F = 0")
      case False
      with F bit_length_le [of F 52] have "bit_length F \<le> 52" by simp
      then show ?thesis using False True mag small by (simp add: parts round_mag_def)
    qed (use True mag in \<open>simp add: parts round_mag_def\<close>)
  next
    case False
    then have parts: "f64_man b = 2 ^ 52 + F" "f64_exp b = E - 1075" by (simp_all add: f64_man_def f64_exp_def E_def F_def)
    have "bit_length (2 ^ 52 + F) = 53" using bit_length_le [of "2 ^ 52 + F" 53] bit_length_ge [of 52 "2 ^ 52 + F"] F by simp
    then show ?thesis using False \<open>0 \<le> E\<close> F mag small by (simp add: parts round_mag_def)
  qed
qed

definition f64_value :: "f64 \<Rightarrow> real" where "f64_value b = of_int (f64_signed b) * 2 powi f64_exp b"

lemma f64_man_nonneg: "0 \<le> f64_man b" using f64_mag_bounds [of b] by (simp add: f64_man_def Let_def)

lemma f64_man_zero: "f64_mag b = 0 \<Longrightarrow> f64_man b = 0" by (simp add: f64_man_def)

lemma f64_minus_parts [simp]: "f64_mag (f64_minus b) = f64_mag b" "f64_neg (f64_minus b) \<longleftrightarrow> \<not> f64_neg b"
proof -
  have "0 \<le> f64_mag b" "f64_mag b < 2 ^ 63" by (rule f64_mag_bounds)+
  then have "uint (f64_minus b) = (if f64_neg b then f64_mag b else 2 ^ 63 + f64_mag b)"
    by (auto simp: f64_minus_def uint_word_ariths f64_uint [of b])
  then show "f64_mag (f64_minus b) = f64_mag b" "f64_neg (f64_minus b) \<longleftrightarrow> \<not> f64_neg b"
    using \<open>0 \<le> f64_mag b\<close> \<open>f64_mag b < 2 ^ 63\<close> by (auto simp: f64_mag_def [of "f64_minus b"] f64_neg_def [of "f64_minus b"])
qed

lemma f64_minus_value [simp]: "f64_finite (f64_minus b) = f64_finite b" "f64_nan (f64_minus b) = f64_nan b" "f64_value (f64_minus b) = - f64_value b"
  by (simp_all add: f64_finite_def f64_nan_def f64_value_def f64_signed_def f64_man_def f64_exp_def)

lemma round_mag_nonneg: "0 \<le> m \<Longrightarrow> 0 \<le> round_mag m e"
  using round_mag_mono [of 0 0 m e] by (simp add: round_mag_def [of 0])

lemma round_mag_inf: "round_mag m e \<le> INF_MAG"
  by (simp add: round_mag_def INF_MAG_def Let_def)

text \<open>The exact sum, and the bits of its rounding.\<close>

lemma f64_add_finite:
  assumes "f64_finite a" "f64_finite b"
  obtains s e where "of_int s * 2 powi e = f64_value a + f64_value b"
    and "f64_add a b = (if s = 0 then f64_make (f64_neg a \<and> f64_neg b) 0 else f64_make (s < 0) (round_mag \<bar>s\<bar> e))"
proof
  let ?e = "min (f64_exp a) (f64_exp b)"
  let ?s = "f64_signed a * 2 ^ nat (f64_exp a - ?e) + f64_signed b * 2 ^ nat (f64_exp b - ?e)"
  have "(of_int (v * 2 ^ nat (x - ?e)) :: real) * 2 powi ?e = of_int v * 2 powi x" if "?e \<le> x" for v x
  proof -
    have "(2 :: real) ^ nat (x - ?e) = 2 powi (x - ?e)" using that by (simp add: power_int_def)
    moreover have "(2 powi (x - ?e) * 2 powi ?e :: real) = 2 powi x" by (simp flip: power_int_add)
    ultimately show ?thesis by (simp add: mult.assoc)
  qed
  from this [of "f64_exp a" "f64_signed a"] this [of "f64_exp b" "f64_signed b"]
  show "of_int ?s * 2 powi ?e = f64_value a + f64_value b"
    by (simp only: of_int_add f64_value_def distrib_right)
  show "f64_add a b = (if ?s = 0 then f64_make (f64_neg a \<and> f64_neg b) 0 else f64_make (?s < 0) (round_mag \<bar>?s\<bar> ?e))"
    using assms by (simp add: f64_add_def finite_not_nan Let_def)
qed

section \<open>Amounts\<close>

text \<open>What the program checks of an amount: \<open>is_finite() && >= 0.0\<close>.\<close>

definition f64_amount :: "f64 \<Rightarrow> bool" where "f64_amount b \<longleftrightarrow> f64_finite b \<and> f64_le 0 b"

lemma amount_key: "f64_amount b \<longleftrightarrow> f64_finite b \<and> f64_key b = f64_mag b"
proof -
  have "0 \<le> f64_key b \<longleftrightarrow> f64_key b = f64_mag b" using f64_mag_bounds [of b] by (auto simp: f64_key_def)
  then show ?thesis by (auto simp: f64_amount_def f64_le_def finite_not_nan)
qed

lemma amount_value: "f64_amount b \<Longrightarrow> f64_value b = of_int (f64_man b) * 2 powi f64_exp b \<and> 0 \<le> f64_value b"
  using f64_mag_bounds [of b] f64_man_nonneg [of b] f64_man_zero [of b]
  by (auto simp: amount_key f64_value_def f64_signed_def f64_key_def split: if_splits)

lemma amount_zero [simp]: "f64_amount 0" by (simp add: f64_amount_def f64_le_def)

lemma amount_le: "f64_amount a \<Longrightarrow> f64_amount b \<Longrightarrow> f64_le a b \<longleftrightarrow> f64_mag a \<le> f64_mag b"
  by (simp add: f64_le_def finite_not_nan amount_key)

lemma made_amount:
  assumes "0 \<le> mag" "mag < INF_MAG"
  shows "f64_amount (f64_make False mag)" "f64_mag (f64_make False mag) = mag"
  using assms f64_make_parts [of mag False] by (simp_all add: amount_key f64_finite_def f64_key_def INF_MAG_def)

text \<open>What is left of a budget is an amount, and at most the budget.\<close>

lemma budget_left:
  assumes a: "f64_amount a" and b: "f64_amount b"
  shows "f64_amount (f64_max (f64_sub a b) 0) \<and> f64_le (f64_max (f64_sub a b) 0) a"
proof -
  have fin: "f64_finite a" "f64_finite b" using a b by (simp_all add: f64_amount_def)
  then obtain s e where s: "of_int s * 2 powi e = f64_value a - f64_value b"
    and r: "f64_sub a b = (if s = 0 then f64_make (f64_neg a \<and> f64_neg (f64_minus b)) 0 else f64_make (s < 0) (round_mag \<bar>s\<bar> e))"
    using f64_add_finite [of a "f64_minus b"] by (auto simp: f64_sub_def)
  have zero: "f64_le 0 a" using a by (simp add: f64_amount_def)
  show ?thesis
  proof (cases "0 < s")
    case True
    have "round_mag s e \<le> round_mag (f64_man a) (f64_exp a)"
      using True s amount_value [OF a] amount_value [OF b] by (intro round_mag_mono) simp_all
    then have le: "round_mag s e \<le> f64_mag a" using round_mag_exact [OF fin(1)] by simp
    then have "round_mag s e < INF_MAG" using fin(1) by (simp add: f64_finite_def)
    from made_amount [OF _ this] True have made: "f64_amount (f64_sub a b)" "f64_mag (f64_sub a b) = round_mag s e"
      by (simp_all add: r round_mag_nonneg)
    then have "f64_max (f64_sub a b) 0 = f64_sub a b"
      using f64_mag_bounds [of "f64_sub a b"] by (auto simp: f64_max_def f64_lt_def amount_key finite_not_nan)
    then show ?thesis using made le a by (simp add: amount_le)
  next
    case False
    have mag: "0 \<le> round_mag \<bar>s\<bar> e" "round_mag \<bar>s\<bar> e < 2 ^ 63"
      using round_mag_nonneg [of "\<bar>s\<bar>" e] round_mag_inf [of "\<bar>s\<bar>" e] by (simp_all add: INF_MAG_def)
    have key: "f64_key (f64_sub a b) \<le> 0"
      using False mag f64_make_parts [OF mag, of True] f64_make_parts [of 0 "f64_neg a \<and> f64_neg (f64_minus b)"]
      by (auto simp: r f64_key_def)
    show ?thesis
    proof (cases "f64_key (f64_sub a b) = 0 \<and> \<not> f64_nan (f64_sub a b)")
      case True
      then have "f64_max (f64_sub a b) 0 = f64_sub a b" by (simp add: f64_max_def f64_lt_def)
      moreover have "f64_mag (f64_sub a b) = 0" using True by (auto simp: f64_key_def split: if_splits)
      ultimately show ?thesis using True f64_mag_bounds [of a] a by (simp add: amount_key f64_finite_def f64_le_def finite_not_nan INF_MAG_def)
    next
      case False
      then have "f64_max (f64_sub a b) 0 = 0" using key by (auto simp: f64_max_def f64_lt_def)
      then show ?thesis using zero by simp
    qed
  qed
qed

text \<open>A sum of amounts is at least each of them; when it overflows it is not finite.\<close>

lemma amounts_add:
  assumes a: "f64_amount a" and b: "f64_amount b" and fin: "f64_finite (f64_add a b)"
  shows "f64_amount (f64_add a b) \<and> f64_le a (f64_add a b)"
proof -
  have fins: "f64_finite a" "f64_finite b" using a b by (simp_all add: f64_amount_def)
  then obtain s e where s: "of_int s * 2 powi e = f64_value a + f64_value b"
    and r: "f64_add a b = (if s = 0 then f64_make (f64_neg a \<and> f64_neg b) 0 else f64_make (s < 0) (round_mag \<bar>s\<bar> e))"
    using f64_add_finite by blast
  have va: "f64_value a = of_int (f64_man a) * 2 powi f64_exp a" "0 \<le> f64_value a" and vb: "0 \<le> f64_value b"
    using amount_value [OF a] amount_value [OF b] by auto
  have "\<not> 2 powi e \<le> (0 :: real)" by (simp add: not_le)
  moreover have "0 \<le> of_int s * (2 powi e :: real)" unfolding s using va(2) vb by simp
  ultimately have nonneg: "0 \<le> s" by (auto simp: zero_le_mult_iff)
  have "round_mag (f64_man a) (f64_exp a) \<le> round_mag s e"
    using f64_man_nonneg s va vb by (intro round_mag_mono) simp_all
  then have le: "f64_mag a \<le> round_mag s e" using round_mag_exact [OF fins(1)] by simp
  show ?thesis
  proof (cases "s = 0")
    case True
    then have zero: "f64_mag (f64_add a b) = 0" using f64_make_parts [of 0] r by simp
    then have "f64_amount (f64_add a b)" by (simp add: amount_key f64_finite_def f64_key_def INF_MAG_def)
    moreover have "f64_mag a \<le> 0" using le True by (simp add: round_mag_def)
    ultimately show ?thesis using zero a by (simp add: amount_le)
  next
    case False
    then have eq: "f64_add a b = f64_make False (round_mag s e)" using r nonneg by simp
    have "round_mag s e < 2 ^ 63" using round_mag_inf [of s e] by (simp add: INF_MAG_def)
    then have "f64_mag (f64_add a b) = round_mag s e" "\<not> f64_neg (f64_add a b)"
      using f64_make_parts [of "round_mag s e" False] round_mag_nonneg [OF nonneg] by (simp_all add: eq)
    then show ?thesis using fin le a by (simp add: amount_key amount_le f64_key_def)
  qed
qed

end
