(* ===== verification/Drex.thy ===== *)
theory Drex
  imports Json Float64 "HOL-Library.Product_Lexorder"
begin

text \<open>
  Routing of a model call, \<open>apps/heiwa_core/src/drex\<close>: the vector of a request and its score
  (\<open>vector.rs\<close>, \<open>policy.rs\<close>, \<open>scorer.rs\<close>), the plan that admits, rejects and orders candidate models
  (\<open>call.rs\<close>), and the legacy entry points (\<open>router.rs\<close>). Floating point is that of \<open>Float64\<close>.
\<close>

section \<open>Classes of calls\<close>

datatype PrivacyClass = Standard | LocalOnly | Sovereign

definition PrivacyClass_parse :: "string \<Rightarrow> string + PrivacyClass" where
  "PrivacyClass_parse v =
     (if v = ''standard'' then Inr Standard else if v = ''local_only'' then Inr LocalOnly
      else if v = ''sovereign'' then Inr Sovereign else Inl ''invalid_privacy_class'')"

fun PrivacyClass_as_str :: "PrivacyClass \<Rightarrow> string" where
  "PrivacyClass_as_str Standard = ''standard''"
| "PrivacyClass_as_str LocalOnly = ''local_only''"
| "PrivacyClass_as_str Sovereign = ''sovereign''"

datatype ExecutionLocality = OnDevice | SovereignEndpoint | Remote | Unverified

datatype CallRisk = CallLow | CallMedium | CallHigh | CallCritical

definition CallRisk_parse :: "string \<Rightarrow> string + CallRisk" where
  "CallRisk_parse v =
     (if v = ''low'' then Inr CallLow else if v = ''medium'' then Inr CallMedium
      else if v = ''high'' then Inr CallHigh else if v = ''critical'' then Inr CallCritical
      else Inl ''invalid_risk_class'')"

fun CallRisk_as_str :: "CallRisk \<Rightarrow> string" where
  "CallRisk_as_str CallLow = ''low''"
| "CallRisk_as_str CallMedium = ''medium''"
| "CallRisk_as_str CallHigh = ''high''"
| "CallRisk_as_str CallCritical = ''critical''"

datatype SafetyClass = SafetyApproved | SafetyUnapproved | SafetyBlocked

definition low_risk_auto_approval :: "CallRisk \<Rightarrow> SafetyClass" where
  "low_risk_auto_approval risk = (if risk = CallLow then SafetyApproved else SafetyUnapproved)"

datatype ModelCallStage =
  Classification | Planning | Compression | Drafting | Execution | Review | LoopIteration | LegacyRoute

text \<open>The names of the stages, as \<open>serde\<close> writes them and \<open>parse\<close> reads them.\<close>

fun ModelCallStage_str :: "ModelCallStage \<Rightarrow> string" where
  "ModelCallStage_str Classification = ''classification''"
| "ModelCallStage_str Planning = ''planning''"
| "ModelCallStage_str Compression = ''compression''"
| "ModelCallStage_str Drafting = ''drafting''"
| "ModelCallStage_str Execution = ''execution''"
| "ModelCallStage_str Review = ''review''"
| "ModelCallStage_str LoopIteration = ''loop_iteration''"
| "ModelCallStage_str LegacyRoute = ''legacy_route''"

definition ModelCallStage_parse :: "string \<Rightarrow> string + ModelCallStage" where
  "ModelCallStage_parse v =
     (case find (\<lambda>s. ModelCallStage_str s = v)
        [Classification, Planning, Compression, Drafting, Execution, Review, LoopIteration, LegacyRoute] of
        Some s \<Rightarrow> Inr s
      | None \<Rightarrow> Inl ''invalid_model_call_stage'')"

definition is_execution_bearing :: "ModelCallStage \<Rightarrow> bool" where
  "is_execution_bearing s \<longleftrightarrow> s \<in> {Compression, Drafting, Execution, LoopIteration}"

record ModelCallIdentity =
  ci_thread_id :: string
  ci_turn_id :: string
  ci_call_id :: string

definition legacy_uuid :: "string \<Rightarrow> ModelCallIdentity" where
  "legacy_uuid i = \<lparr>ci_thread_id = ''thread-'' @ i, ci_turn_id = ''turn-'' @ i, ci_call_id = ''call-'' @ i\<rparr>"

datatype CostTruth = LocalZeroCost | TargetOnly | ProxyEstimate | ExactProviderReport | CannotConfirm

fun CostTruth_str :: "CostTruth \<Rightarrow> string" where
  "CostTruth_str LocalZeroCost = ''local_zero_cost''"
| "CostTruth_str TargetOnly = ''target_only''"
| "CostTruth_str ProxyEstimate = ''proxy_estimate''"
| "CostTruth_str ExactProviderReport = ''exact_provider_report''"
| "CostTruth_str CannotConfirm = ''cannot_confirm''"

record ModelTier =
  mt_id :: u64
  mt_model_id :: string
  mt_provider_model_id :: string
  mt_provider :: string
  mt_rate_group :: string
  mt_capability_class :: u8
  mt_effort_knob :: string
  mt_effort_level :: u8
  mt_cost_per_turn :: f64
  mt_max_context_tokens :: u32
  mt_vram_requirement_mb :: u32
  mt_quantization_type :: string
  mt_kv_cache_strategy :: string
  mt_strengths_json :: string
  mt_enabled :: bool
  mt_last_success_rate :: f64
  mt_avg_latency_ms :: u64
  mt_latency_p_95_ms :: u64
  mt_updated_at :: string

record ModelCallRequest =
  rq_thread_id :: string
  rq_turn_id :: string
  rq_work_id :: "string option"
  rq_call_id :: string
  rq_intent :: string
  rq_stage :: ModelCallStage
  rq_raw_text :: string
  rq_privacy :: PrivacyClass
  rq_risk :: CallRisk
  rq_safety :: SafetyClass
  rq_required_capabilities :: "string list"
  rq_required_context_tokens :: u32
  rq_minimum_quality_class :: u8
  rq_minimum_success_rate :: f64
  rq_maximum_marginal_cost_usd :: "f64 option"
  rq_preferred_provider :: "string option"
  rq_preferred_model :: "string option"
  rq_allowed_models :: "string list"
  rq_excluded_models :: "string list"

record ModelCallCandidate =
  mc_tier :: ModelTier
  mc_locality :: ExecutionLocality
  mc_connected :: bool
  mc_adapter_capable :: bool
  mc_quota_available :: bool
  mc_marginal_cost_usd :: "f64 option"
  mc_cost_truth :: CostTruth

datatype CandidateRejectionReason =
    DuplicateCandidateId | DisabledModel | InvalidMarginalCostUsd | InvalidCostTruth | InvalidSuccessRate
  | Disconnected | AdapterIncapable | QuotaExhausted | ExcludedModel | NotAllowedModel
  | PreferredProviderMismatch | PreferredModelMismatch | LocalOnlyOnDeviceRequired
  | SovereignLocalityRequired | InsufficientContext | MissingRequiredCapability | MinimumQualityClass
  | MinimumSuccessRate | MaximumMarginalCostUsd | UnknownMarginalCostUsd | SafetyForbidsExecution
  | AuthorityApprovalRequired | InvalidRequestPolicy

text \<open>The derived order, and the names \<open>serde\<close> writes.\<close>

fun reason_rank :: "CandidateRejectionReason \<Rightarrow> nat" where
  "reason_rank DuplicateCandidateId = 0" | "reason_rank DisabledModel = 1" | "reason_rank InvalidMarginalCostUsd = 2"
| "reason_rank InvalidCostTruth = 3" | "reason_rank InvalidSuccessRate = 4" | "reason_rank Disconnected = 5"
| "reason_rank AdapterIncapable = 6" | "reason_rank QuotaExhausted = 7" | "reason_rank ExcludedModel = 8"
| "reason_rank NotAllowedModel = 9" | "reason_rank PreferredProviderMismatch = 10" | "reason_rank PreferredModelMismatch = 11"
| "reason_rank LocalOnlyOnDeviceRequired = 12" | "reason_rank SovereignLocalityRequired = 13" | "reason_rank InsufficientContext = 14"
| "reason_rank MissingRequiredCapability = 15" | "reason_rank MinimumQualityClass = 16" | "reason_rank MinimumSuccessRate = 17"
| "reason_rank MaximumMarginalCostUsd = 18" | "reason_rank UnknownMarginalCostUsd = 19" | "reason_rank SafetyForbidsExecution = 20"
| "reason_rank AuthorityApprovalRequired = 21" | "reason_rank InvalidRequestPolicy = 22"

fun reason_str :: "CandidateRejectionReason \<Rightarrow> string" where
  "reason_str DuplicateCandidateId = ''duplicate_candidate_id''" | "reason_str DisabledModel = ''disabled_model''"
| "reason_str InvalidMarginalCostUsd = ''invalid_marginal_cost_usd''" | "reason_str InvalidCostTruth = ''invalid_cost_truth''"
| "reason_str InvalidSuccessRate = ''invalid_success_rate''" | "reason_str Disconnected = ''disconnected''"
| "reason_str AdapterIncapable = ''adapter_incapable''" | "reason_str QuotaExhausted = ''quota_exhausted''"
| "reason_str ExcludedModel = ''excluded_model''" | "reason_str NotAllowedModel = ''not_allowed_model''"
| "reason_str PreferredProviderMismatch = ''preferred_provider_mismatch''" | "reason_str PreferredModelMismatch = ''preferred_model_mismatch''"
| "reason_str LocalOnlyOnDeviceRequired = ''local_only_on_device_required''" | "reason_str SovereignLocalityRequired = ''sovereign_locality_required''"
| "reason_str InsufficientContext = ''insufficient_context''" | "reason_str MissingRequiredCapability = ''missing_required_capability''"
| "reason_str MinimumQualityClass = ''minimum_quality_class''" | "reason_str MinimumSuccessRate = ''minimum_success_rate''"
| "reason_str MaximumMarginalCostUsd = ''maximum_marginal_cost_usd''" | "reason_str UnknownMarginalCostUsd = ''unknown_marginal_cost_usd''"
| "reason_str SafetyForbidsExecution = ''safety_forbids_execution''" | "reason_str AuthorityApprovalRequired = ''authority_approval_required''"
| "reason_str InvalidRequestPolicy = ''invalid_request_policy''"

record CandidateRejection =
  cr_candidate_id :: u64
  cr_reasons :: "CandidateRejectionReason list"

section \<open>Vector, policy and score\<close>

record DrexVector =
  dv_scope :: f64
  dv_abstraction :: f64
  dv_context_span :: f64
  dv_execution_proximity :: f64
  dv_blast_radius :: f64
  dv_coordination_load :: f64
  dv_latency_pressure :: f64

definition axes :: "DrexVector \<Rightarrow> f64 list" where
  "axes v = [dv_scope v, dv_abstraction v, dv_context_span v, dv_execution_proximity v, dv_blast_radius v,
     dv_coordination_load v, dv_latency_pressure v]"

definition DEFAULT_POLICY_VERSION :: string where "DEFAULT_POLICY_VERSION = ''2026-04-01''"

datatype ResolutionTier = Macro | Meso | Micro
datatype ExecutionMode = Deterministic | LocalModel | RemoteModel | Clarify

record DrexPolicy =
  po_macro_weights :: "f64 list"
  po_meso_weights :: "f64 list"
  po_micro_weights :: "f64 list"
  po_macro_bias :: f64
  po_meso_bias :: f64
  po_micro_bias :: f64
  po_observability_micro_multiplier :: f64
  po_runtime_fit_multiplier :: f64
  po_history_confidence_multiplier :: f64
  po_tie_margin :: f64

record DrexScoreCard =
  sc_macro_score :: f64
  sc_meso_score :: f64
  sc_micro_score :: f64
  sc_confidence :: f64

record DrexAuthorityGate =
  ag_authority_required :: string
  ag_requires_approval :: bool
  ag_reasons :: "string list"

record DrexDecision =
  de_vector :: DrexVector
  de_scorecard :: DrexScoreCard
  de_active_tier :: ResolutionTier
  de_gate :: DrexAuthorityGate

definition hundredths :: "int \<Rightarrow> f64" where "hundredths n = f64_lit n 100"

definition default_policy :: DrexPolicy where
  "default_policy = \<lparr>
     po_macro_weights = map hundredths [120, 110, 90, - 90, 80, 70, - 30],
     po_meso_weights = map hundredths [60, 50, 70, 10, 60, 100, 20],
     po_micro_weights = map hundredths [- 40, - 60, - 30, 130, 40, - 20, 110],
     po_macro_bias = hundredths 0, po_meso_bias = hundredths 5, po_micro_bias = hundredths 0,
     po_observability_micro_multiplier = hundredths 25, po_runtime_fit_multiplier = hundredths 20,
     po_history_confidence_multiplier = hundredths 15, po_tie_margin = hundredths 8\<rparr>"

text \<open>The sum of an iterator of \<open>f64\<close> starts from minus zero.\<close>

definition dot :: "f64 list \<Rightarrow> f64 list \<Rightarrow> f64" where
  "dot weights xs = foldl f64_add (f64_minus 0) (map (\<lambda>(weight, axis). f64_mul weight axis) (zip weights xs))"

definition authority_gate :: "DrexVector \<Rightarrow> DrexAuthorityGate" where
  "authority_gate v =
     (if f64_le (hundredths 75) (dv_blast_radius v) then
        \<lparr>ag_authority_required = ''approved_write'', ag_requires_approval = True, ag_reasons = [''blast_radius'']\<rparr>
      else if f64_le (hundredths 80) (dv_scope v) \<and> f64_le (hundredths 70) (dv_coordination_load v) then
        \<lparr>ag_authority_required = ''operator_review'', ag_requires_approval = True,
         ag_reasons = [''enterprise_scope'', ''coordination_load'']\<rparr>
      else \<lparr>ag_authority_required = ''none'', ag_requires_approval = False, ag_reasons = []\<rparr>)"

text \<open>\<open>slice::sort_by\<close>: a stable sort by a comparison.\<close>

datatype Ordering = Less | Equal | Greater

definition cmp_of :: "'a::linorder \<Rightarrow> 'a \<Rightarrow> Ordering" where
  "cmp_of a b = (if a < b then Less else if a = b then Equal else Greater)"

fun insert_by :: "('a \<Rightarrow> 'a \<Rightarrow> Ordering) \<Rightarrow> 'a \<Rightarrow> 'a list \<Rightarrow> 'a list" where
  "insert_by cmp x [] = [x]"
| "insert_by cmp x (y # ys) = (if cmp x y = Greater then y # insert_by cmp x ys else x # y # ys)"

definition sort_by :: "('a \<Rightarrow> 'a \<Rightarrow> Ordering) \<Rightarrow> 'a list \<Rightarrow> 'a list" where
  "sort_by cmp xs = foldr (insert_by cmp) xs []"

definition total_cmp :: "f64 \<Rightarrow> f64 \<Rightarrow> Ordering" where
  "total_cmp a b = cmp_of (total_key a) (total_key b)"

definition choose_tier :: "f64 \<Rightarrow> f64 \<Rightarrow> f64 \<Rightarrow> bool \<Rightarrow> f64 \<Rightarrow> ResolutionTier \<times> f64" where
  "choose_tier macro_score meso_score micro_score approval_required tie_margin =
     (let ranked = sort_by (\<lambda>a b. total_cmp (snd b) (snd a)) [(Macro, macro_score), (Meso, meso_score), (Micro, micro_score)];
          confidence = f64_sub (snd (ranked ! 0)) (snd (ranked ! 1))
      in if f64_lt confidence tie_margin then
           (if approval_required \<and> f64_le meso_score macro_score then (Macro, confidence) else (Meso, confidence))
         else (fst (ranked ! 0), confidence))"

definition evaluate_drex :: "DrexVector \<Rightarrow> DrexPolicy \<Rightarrow> f64 \<Rightarrow> f64 \<Rightarrow> f64 \<Rightarrow> DrexDecision" where
  "evaluate_drex vector policy observability runtime_fit history_confidence =
     (let two = hundredths 200;
          macro_score = f64_add (f64_add (dot (po_macro_weights policy) (axes vector)) (po_macro_bias policy))
            (f64_mul history_confidence (po_history_confidence_multiplier policy));
          meso_score = f64_add (f64_add (dot (po_meso_weights policy) (axes vector)) (po_meso_bias policy))
            (f64_mul (f64_div (f64_add runtime_fit history_confidence) two)
              (f64_div (po_history_confidence_multiplier policy) two));
          micro_score = f64_sub (f64_add (f64_add (f64_add (dot (po_micro_weights policy) (axes vector)) (po_micro_bias policy))
              (f64_mul runtime_fit (po_runtime_fit_multiplier policy)))
              (f64_mul history_confidence (f64_div (po_history_confidence_multiplier policy) two)))
            (f64_mul (f64_sub (hundredths 100) observability) (po_observability_micro_multiplier policy));
          gate = authority_gate vector;
          (active_tier, confidence) = choose_tier macro_score meso_score micro_score (ag_requires_approval gate) (po_tie_margin policy)
      in \<lparr>de_vector = vector,
          de_scorecard = \<lparr>sc_macro_score = macro_score, sc_meso_score = meso_score, sc_micro_score = micro_score,
            sc_confidence = confidence\<rparr>,
          de_active_tier = active_tier, de_gate = gate\<rparr>)"

section \<open>The vector of a request\<close>

definition clamp :: "f64 \<Rightarrow> f64" where "clamp x = f64_clamp x (hundredths 0) (hundredths 100)"

definition vector_of :: "int list \<Rightarrow> DrexVector" where
  "vector_of xs = \<lparr>dv_scope = hundredths (xs ! 0), dv_abstraction = hundredths (xs ! 1), dv_context_span = hundredths (xs ! 2),
     dv_execution_proximity = hundredths (xs ! 3), dv_blast_radius = hundredths (xs ! 4),
     dv_coordination_load = hundredths (xs ! 5), dv_latency_pressure = hundredths (xs ! 6)\<rparr>"

definition intent_vector :: "string \<Rightarrow> DrexVector" where
  "intent_vector intent =
     (if intent \<in> {''build'', ''files''} then vector_of [35, 35, 55, 90, 55, 30, 75]
      else if intent \<in> {''audit'', ''status_check''} then vector_of [45, 40, 60, 30, 45, 25, 60]
      else if intent = ''research'' then vector_of [70, 80, 85, 20, 40, 65, 30]
      else if intent = ''strategy'' then vector_of [90, 95, 80, 10, 75, 85, 20]
      else if intent \<in> {''deploy'', ''operate'', ''automate''} then vector_of [75, 60, 65, 65, 90, 70, 70]
      else vector_of [50, 50, 50, 50, 50, 50, 50])"

definition raise_proximity :: "DrexVector \<Rightarrow> DrexVector" where
  "raise_proximity v = v\<lparr>dv_execution_proximity := clamp (f64_add (dv_execution_proximity v) (hundredths 10))\<rparr>"

definition mentions :: "string list \<Rightarrow> string \<Rightarrow> bool" where
  "mentions needles s = list_ex (contains s) needles"

definition build_drex_vector :: "string \<Rightarrow> string \<Rightarrow> string \<Rightarrow> string \<Rightarrow> string \<Rightarrow> DrexVector" where
  "build_drex_vector intent risk raw_text privacy runtime =
     (let v0 = intent_vector intent;
          v1 = (if risk \<in> {''high'', ''critical''} then
                  v0\<lparr>dv_scope := clamp (f64_add (dv_scope v0) (hundredths 15)),
                     dv_blast_radius := clamp (f64_add (dv_blast_radius v0) (hundredths 15))\<rparr>
                else v0);
          v2 = (if privacy = ''sovereign'' then
                  raise_proximity (v1\<lparr>dv_scope := clamp (f64_sub (dv_scope v1) (hundredths 5))\<rparr>)
                else v1);
          v3 = (if runtime \<in> {''boost'', ''macbook'', ''local''} then raise_proximity v2 else v2);
          v4 = (if length raw_text > 500 then
                  v3\<lparr>dv_context_span := clamp (f64_add (dv_context_span v3) (hundredths 10))\<rparr>
                else v3);
          lowercase = to_ascii_lowercase raw_text;
          v5 = (if mentions [''patch'', ''edit'', ''write'', ''run'', ''pytest'', ''bash'', ''shell''] lowercase
                then raise_proximity v4 else v4)
      in if mentions [''portfolio'', ''enterprise'', ''roadmap'', ''priority'', ''governance''] lowercase then
           v5\<lparr>dv_scope := clamp (f64_add (dv_scope v5) (hundredths 10)),
              dv_abstraction := clamp (f64_add (dv_abstraction v5) (hundredths 10))\<rparr>
         else v5)"

section \<open>Planning a call\<close>

text \<open>\<open>serde\<close>: a text as a list of strings.\<close>

type_synonym strings_of_text = "string \<Rightarrow> string list option"

definition tier_has_strength :: "strings_of_text \<Rightarrow> ModelTier \<Rightarrow> string \<Rightarrow> bool" where
  "tier_has_strength P tier capability =
     (case P (mt_strengths_json tier) of None \<Rightarrow> False | Some strengths \<Rightarrow> capability \<in> set strengths)"

definition valid_cost :: "f64 option \<Rightarrow> bool" where
  "valid_cost cost = (case cost of None \<Rightarrow> True | Some c \<Rightarrow> f64_finite c \<and> f64_le (hundredths 0) c)"

definition valid_probability :: "f64 \<Rightarrow> bool" where
  "valid_probability v \<longleftrightarrow> f64_finite v \<and> f64_le (hundredths 0) v \<and> f64_le v (hundredths 100)"

definition valid_request :: "ModelCallRequest \<Rightarrow> bool" where
  "valid_request r \<longleftrightarrow> trim (rq_thread_id r) \<noteq> [] \<and> trim (rq_turn_id r) \<noteq> [] \<and> trim (rq_call_id r) \<noteq> [] \<and>
     valid_probability (rq_minimum_success_rate r) \<and> valid_cost (rq_maximum_marginal_cost_usd r)"

definition call_decision :: "ModelCallRequest \<Rightarrow> DrexPolicy \<Rightarrow> DrexDecision" where
  "call_decision r policy =
     (let vector = build_drex_vector (rq_intent r) (CallRisk_as_str (rq_risk r)) (rq_raw_text r) (PrivacyClass_as_str (rq_privacy r))
            (if rq_privacy r = Standard then ''any'' else ''local'');
          runtime_fit = (if is_execution_bearing (rq_stage r) then hundredths 100 else hundredths 80);
          observability = (if rq_safety r = SafetyApproved then hundredths 95 else hundredths 80)
      in evaluate_drex vector policy observability runtime_fit (hundredths 65))"

definition model_matches :: "ModelCallCandidate \<Rightarrow> string \<Rightarrow> bool" where
  "model_matches c model \<longleftrightarrow> model = mt_model_id (mc_tier c) \<or> model = mt_provider_model_id (mc_tier c) \<or>
     model = mt_provider (mc_tier c) @ ''/'' @ mt_model_id (mc_tier c)"

definition model_matches_any :: "ModelCallCandidate \<Rightarrow> string list \<Rightarrow> bool" where
  "model_matches_any c models = list_ex (model_matches c) models"

definition cost_truth_is_valid :: "ModelCallCandidate \<Rightarrow> bool" where
  "cost_truth_is_valid c =
     (case mc_cost_truth c of
        LocalZeroCost \<Rightarrow> mc_locality c = OnDevice \<and>
          (case mc_marginal_cost_usd c of Some cost \<Rightarrow> f64_eq cost (hundredths 0) | None \<Rightarrow> False)
      | CannotConfirm \<Rightarrow> mc_marginal_cost_usd c = None
      | _ \<Rightarrow> (case mc_marginal_cost_usd c of Some cost \<Rightarrow> f64_finite cost \<and> f64_le (hundredths 0) cost | None \<Rightarrow> False))"

definition privacy_reason :: "PrivacyClass \<Rightarrow> ExecutionLocality \<Rightarrow> CandidateRejectionReason option" where
  "privacy_reason privacy locality =
     (case privacy of
        Standard \<Rightarrow> None
      | LocalOnly \<Rightarrow> if locality \<noteq> OnDevice then Some LocalOnlyOnDeviceRequired else None
      | Sovereign \<Rightarrow> if locality \<notin> {OnDevice, SovereignEndpoint} then Some SovereignLocalityRequired else None)"

definition cost_reason :: "f64 option \<Rightarrow> f64 option \<Rightarrow> CandidateRejectionReason option" where
  "cost_reason maximum cost =
     (case maximum of
        None \<Rightarrow> None
      | Some m \<Rightarrow>
          (case cost of
             Some c \<Rightarrow> if f64_lt m c then Some MaximumMarginalCostUsd else None
           | None \<Rightarrow> Some UnknownMarginalCostUsd))"

definition rejection_reason ::
    "strings_of_text \<Rightarrow> ModelCallRequest \<Rightarrow> ModelCallCandidate \<Rightarrow> CandidateRejectionReason option" where
  "rejection_reason P r c =
     (let tier = mc_tier c in
      if \<not> mt_enabled tier then Some DisabledModel
      else if \<not> valid_cost (mc_marginal_cost_usd c) then Some InvalidMarginalCostUsd
      else if \<not> cost_truth_is_valid c then Some InvalidCostTruth
      else if \<not> valid_probability (mt_last_success_rate tier) then Some InvalidSuccessRate
      else if \<not> mc_connected c then Some Disconnected
      else if \<not> mc_adapter_capable c then Some AdapterIncapable
      else if \<not> mc_quota_available c then Some QuotaExhausted
      else if model_matches_any c (rq_excluded_models r) then Some ExcludedModel
      else if rq_allowed_models r \<noteq> [] \<and> \<not> model_matches_any c (rq_allowed_models r) then Some NotAllowedModel
      else if (case rq_preferred_provider r of Some p \<Rightarrow> p \<noteq> mt_provider tier | None \<Rightarrow> False) then Some PreferredProviderMismatch
      else if (case rq_preferred_model r of Some m \<Rightarrow> \<not> model_matches c m | None \<Rightarrow> False) then Some PreferredModelMismatch
      else (case privacy_reason (rq_privacy r) (mc_locality c) of
              Some reason \<Rightarrow> Some reason
            | None \<Rightarrow>
                if mt_max_context_tokens tier < rq_required_context_tokens r then Some InsufficientContext
                else if \<not> list_all (\<lambda>capability. tier_has_strength P tier capability \<or>
                     (capability = ''advanced_coding'' \<and> mt_capability_class tier \<ge> 3)) (rq_required_capabilities r)
                  then Some MissingRequiredCapability
                else if mt_capability_class tier < rq_minimum_quality_class r then Some MinimumQualityClass
                else if f64_lt (mt_last_success_rate tier) (rq_minimum_success_rate r) then Some MinimumSuccessRate
                else cost_reason (rq_maximum_marginal_cost_usd r) (mc_marginal_cost_usd c)))"

definition compare_candidates :: "ModelCallCandidate \<Rightarrow> ModelCallCandidate \<Rightarrow> Ordering" where
  "compare_candidates left right =
     (let cost = (case (mc_marginal_cost_usd left, mc_marginal_cost_usd right) of
                    (Some l, Some r) \<Rightarrow> total_cmp l r
                  | (Some _, None) \<Rightarrow> Less
                  | (None, Some _) \<Rightarrow> Greater
                  | (None, None) \<Rightarrow> Equal);
          quality = cmp_of (mt_capability_class (mc_tier right)) (mt_capability_class (mc_tier left));
          latency = cmp_of (mt_latency_p_95_ms (mc_tier left)) (mt_latency_p_95_ms (mc_tier right));
          success = total_cmp (mt_last_success_rate (mc_tier right)) (mt_last_success_rate (mc_tier left))
      in if cost \<noteq> Equal then cost
         else if quality \<noteq> Equal then quality
         else if latency \<noteq> Equal then latency
         else if success \<noteq> Equal then success
         else cmp_of (mt_id (mc_tier left)) (mt_id (mc_tier right)))"

definition rejection :: "u64 \<Rightarrow> CandidateRejectionReason \<Rightarrow> CandidateRejection" where
  "rejection i reason = \<lparr>cr_candidate_id = i, cr_reasons = [reason]\<rparr>"

definition compare_rejections :: "CandidateRejection \<Rightarrow> CandidateRejection \<Rightarrow> Ordering" where
  "compare_rejections left right =
     (let c = cmp_of (cr_candidate_id left) (cr_candidate_id right) in
      if c \<noteq> Equal then c else cmp_of (map reason_rank (cr_reasons left)) (map reason_rank (cr_reasons right)))"

definition sort_rejections :: "CandidateRejection list \<Rightarrow> CandidateRejection list" where
  "sort_rejections rejected = sort_by compare_rejections rejected"

text \<open>The map of counts, filtered, is only asked which keys it has.\<close>

definition count_id :: "(u64, nat) btree \<Rightarrow> u64 \<Rightarrow> (u64, nat) btree" where
  "count_id counts i = bt_insert i (unwrap_or (bt_get counts i) 0 + 1) counts"

definition duplicate_ids :: "ModelCallCandidate list \<Rightarrow> (u64, nat) btree" where
  "duplicate_ids candidates =
     filter (\<lambda>(_, count). count > 1) (foldl (\<lambda>counts c. count_id counts (mt_id (mc_tier c))) [] candidates)"

record ModelCallPlan =
  pl_thread_id :: string
  pl_turn_id :: string
  pl_call_id :: string
  pl_stage :: ModelCallStage
  pl_selected :: "ModelCallCandidate option"
  pl_selected_id :: "u64 option"
  pl_selected_cost_truth :: "CostTruth option"
  pl_admitted_ids :: "u64 list"
  pl_rejected :: "CandidateRejection list"
  pl_policy_version :: string
  pl_selection_reason :: string
  pl_decision :: DrexDecision

definition no_selection_plan ::
    "ModelCallRequest \<Rightarrow> DrexDecision \<Rightarrow> ModelCallCandidate list \<Rightarrow> CandidateRejectionReason \<Rightarrow> string \<Rightarrow> ModelCallPlan" where
  "no_selection_plan r decision candidates reason selection_reason =
     \<lparr>pl_thread_id = rq_thread_id r, pl_turn_id = rq_turn_id r, pl_call_id = rq_call_id r, pl_stage = rq_stage r,
      pl_selected = None, pl_selected_id = None, pl_selected_cost_truth = None, pl_admitted_ids = [],
      pl_rejected = sort_rejections (map (\<lambda>c. rejection (mt_id (mc_tier c)) reason) candidates),
      pl_policy_version = DEFAULT_POLICY_VERSION, pl_selection_reason = selection_reason, pl_decision = decision\<rparr>"

text \<open>What happens to one candidate: why it is rejected, if it is.\<close>

definition candidate_verdict :: "strings_of_text \<Rightarrow> ModelCallRequest \<Rightarrow> (u64, nat) btree \<Rightarrow> ModelCallCandidate \<Rightarrow> CandidateRejectionReason option" where
  "candidate_verdict P r duplicates c =
     (if bt_get duplicates (mt_id (mc_tier c)) \<noteq> None then Some DuplicateCandidateId else rejection_reason P r c)"

definition plan_model_call :: "strings_of_text \<Rightarrow> ModelCallRequest \<Rightarrow> ModelCallCandidate list \<Rightarrow> DrexPolicy \<Rightarrow> ModelCallPlan" where
  "plan_model_call P r candidates policy =
     (let decision = call_decision r policy in
      if \<not> valid_request r then
        no_selection_plan r decision candidates InvalidRequestPolicy ''invalid_request_policy''
      else if rq_safety r = SafetyBlocked then
        no_selection_plan r decision candidates SafetyForbidsExecution ''safety_forbids_execution''
      else if is_execution_bearing (rq_stage r) \<and> ag_requires_approval (de_gate decision) \<and> rq_safety r \<noteq> SafetyApproved then
        no_selection_plan r decision candidates AuthorityApprovalRequired ''authority_approval_required''
      else
        let duplicates = duplicate_ids candidates;
            rejected = List.map_filter (\<lambda>c. map_option (rejection (mt_id (mc_tier c))) (candidate_verdict P r duplicates c)) candidates;
            admitted = sort_by compare_candidates (filter (\<lambda>c. candidate_verdict P r duplicates c = None) candidates);
            selected = (case admitted of [] \<Rightarrow> None | c # _ \<Rightarrow> Some c)
        in \<lparr>pl_thread_id = rq_thread_id r, pl_turn_id = rq_turn_id r, pl_call_id = rq_call_id r, pl_stage = rq_stage r,
            pl_selected = selected, pl_selected_id = map_option (\<lambda>c. mt_id (mc_tier c)) selected,
            pl_selected_cost_truth = map_option mc_cost_truth selected,
            pl_admitted_ids = map (\<lambda>c. mt_id (mc_tier c)) admitted, pl_rejected = sort_rejections rejected,
            pl_policy_version = DEFAULT_POLICY_VERSION,
            pl_selection_reason = (if selected \<noteq> None then ''lowest_known_marginal_cost_then_quality_latency_success''
              else ''no_admitted_model_call_candidates''),
            pl_decision = decision\<rparr>)"

section \<open>Sorting by a comparison\<close>

lemma cmp_of_simps [simp]:
  "cmp_of a b = Equal \<longleftrightarrow> a = b" "cmp_of a b = Less \<longleftrightarrow> a < b" "cmp_of a b = Greater \<longleftrightarrow> b < a"
  by (auto simp: cmp_of_def)

lemma sort_by_key:
  assumes "\<And>a b. cmp a b = cmp_of (key a) (key b)"
  shows "sort_by cmp xs = sort_key key xs"
proof -
  have "insert_by cmp x ys = insort_key key x ys" for x ys
    by (induction ys) (auto simp: assms)
  then have "insert_by cmp = insort_key key" by blast
  then show ?thesis by (simp add: sort_by_def sort_key_def)
qed

lemma cmp_of_pair: "cmp_of (a, b) (c, d) = (if cmp_of a c \<noteq> Equal then cmp_of a c else cmp_of b d)"
  by (auto simp: cmp_of_def)

lemma less_pair: "(a :: 'a::linorder, b :: 'b::linorder) < (c, d) \<longleftrightarrow> a < c \<or> a = c \<and> b < d"
  by auto

lemma sort_key_mset_cong:
  assumes "mset xs = mset ys" and "inj_on f (set xs)"
  shows "sort_key f xs = sort_key f ys"
proof (rule properties_for_sort_key)
  show "mset (sort_key f ys) = mset xs" using assms(1) by simp
  show "sorted (map f (sort_key f ys))" by simp
  have sets: "set ys = set xs" using assms(1) by (metis set_mset_mset)
  show "filter (\<lambda>x. f k = f x) (sort_key f ys) = filter (\<lambda>x. f k = f x) xs" if "k \<in> set (sort_key f ys)" for k
  proof -
    have eq: "filter (\<lambda>x. f k = f x) zs = replicate (count (mset zs) k) k" if "set zs = set xs" for zs
    proof -
      have "filter (\<lambda>x. f k = f x) zs = filter (\<lambda>x. x = k) zs"
        using assms(2) that \<open>k \<in> set (sort_key f ys)\<close> sets by (intro filter_cong) (auto dest: inj_onD)
      also have "\<dots> = replicate (count (mset zs) k) k" by (induction zs) simp_all
      finally show ?thesis .
    qed
    show ?thesis using eq [of "sort_key f ys"] eq [of xs] sets assms(1) by simp
  qed
qed

text \<open>The keys the two comparisons compare.\<close>

definition candidate_key :: "ModelCallCandidate \<Rightarrow> (int \<times> int) \<times> int \<times> int \<times> int \<times> int" where
  "candidate_key c =
     ((case mc_marginal_cost_usd c of Some cost \<Rightarrow> (0, total_key cost) | None \<Rightarrow> (1, 0)),
      - uint (mt_capability_class (mc_tier c)), uint (mt_latency_p_95_ms (mc_tier c)),
      - total_key (mt_last_success_rate (mc_tier c)), uint (mt_id (mc_tier c)))"

lemma cmp_of_int:
  "cmp_of (- a :: int) (- b) = cmp_of b a" "cmp_of (uint v) (uint w) = cmp_of v w"
  by (auto simp: cmp_of_def word_less_def word_uint_eq_iff)

lemma compare_candidates_key: "compare_candidates a b = cmp_of (candidate_key a) (candidate_key b)"
proof -
  have cost: "(case (x, y) of (Some l, Some r) \<Rightarrow> total_cmp l r | (Some _, None) \<Rightarrow> Less | (None, Some _) \<Rightarrow> Greater | (None, None) \<Rightarrow> Equal) =
      cmp_of (case x of Some cost \<Rightarrow> (0 :: int, total_key cost) | None \<Rightarrow> (1, 0)) (case y of Some cost \<Rightarrow> (0, total_key cost) | None \<Rightarrow> (1, 0))"
    for x y by (cases x; cases y) (simp_all add: total_cmp_def cmp_of_pair, simp_all add: cmp_of_def)
  show ?thesis unfolding compare_candidates_def cost candidate_key_def cmp_of_pair cmp_of_int total_cmp_def Let_def by simp
qed

lemma reason_rank_inject: "reason_rank a = reason_rank b \<longleftrightarrow> a = b"
proof
  assume "reason_rank a = reason_rank b"
  define reasons where "reasons = [DuplicateCandidateId, DisabledModel, InvalidMarginalCostUsd, InvalidCostTruth, InvalidSuccessRate, Disconnected,
    AdapterIncapable, QuotaExhausted, ExcludedModel, NotAllowedModel, PreferredProviderMismatch, PreferredModelMismatch,
    LocalOnlyOnDeviceRequired, SovereignLocalityRequired, InsufficientContext, MissingRequiredCapability, MinimumQualityClass,
    MinimumSuccessRate, MaximumMarginalCostUsd, UnknownMarginalCostUsd, SafetyForbidsExecution, AuthorityApprovalRequired,
    InvalidRequestPolicy]"
  have "reasons ! reason_rank x = x" for x by (cases x) (simp_all add: reasons_def)
  then show "a = b" using \<open>reason_rank a = reason_rank b\<close> by metis
qed simp

definition rejection_key :: "CandidateRejection \<Rightarrow> u64 \<times> nat list" where
  "rejection_key r = (cr_candidate_id r, map reason_rank (cr_reasons r))"

lemma rejection_key_inj: "inj rejection_key"
proof (rule injI)
  fix r s assume "rejection_key r = rejection_key s"
  then have "cr_candidate_id r = cr_candidate_id s" "cr_reasons r = cr_reasons s"
    using inj_mapI [of reason_rank] by (auto simp: rejection_key_def inj_def reason_rank_inject)
  then show "r = s" by simp
qed

lemma sort_rejections_key: "sort_rejections rs = sort_key rejection_key rs"
  unfolding sort_rejections_def
  by (rule sort_by_key) (simp add: compare_rejections_def rejection_key_def cmp_of_pair Let_def)

section \<open>Duplicates\<close>

abbreviation tier_id :: "ModelCallCandidate \<Rightarrow> u64" where "tier_id c \<equiv> mt_id (mc_tier c)"

lemma duplicate_iff: "bt_get (duplicate_ids cs) i \<noteq> None \<longleftrightarrow> count (mset (map tier_id cs)) i > 1"
proof -
  let ?counts = "\<lambda>cs. foldl (\<lambda>counts c. count_id counts (tier_id c)) [] cs"
  have inv: "bt_inv (?counts cs)" for cs by (induction cs rule: rev_induct) (auto simp: count_id_def)
  have get: "bt_get (?counts cs) i = (let n = count (mset (map tier_id cs)) i in if n = 0 then None else Some n)" for cs
  proof (induction cs rule: rev_induct)
    case (snoc c cs)
    then show ?case by (cases "tier_id c = i") (simp_all add: count_id_def Let_def del: mset_map)
  qed simp
  have "map_of (filter (\<lambda>(_, n). n > 1) m) i = (case map_of m i of Some n \<Rightarrow> if n > 1 then Some n else None | None \<Rightarrow> None)"
    if "distinct (map fst m)" for m :: "(u64, nat) btree"
    using that by (induction m) (auto simp: map_of_eq_None_iff split: option.splits dest: map_of_SomeD)
  from this [OF bt_inv_distinct [OF inv]] show ?thesis
    unfolding duplicate_ids_def get by (auto simp: Let_def)
qed

section \<open>What a plan guarantees\<close>

text \<open>What a candidate has to be for a request.\<close>

definition admissible :: "strings_of_text \<Rightarrow> ModelCallRequest \<Rightarrow> ModelCallCandidate \<Rightarrow> bool" where
  "admissible P r c \<longleftrightarrow>
     mt_enabled (mc_tier c) \<and> mc_connected c \<and> mc_adapter_capable c \<and> mc_quota_available c \<and>
     valid_cost (mc_marginal_cost_usd c) \<and> cost_truth_is_valid c \<and> valid_probability (mt_last_success_rate (mc_tier c)) \<and>
     (\<forall>m \<in> set (rq_excluded_models r). \<not> model_matches c m) \<and>
     (rq_allowed_models r = [] \<or> (\<exists>m \<in> set (rq_allowed_models r). model_matches c m)) \<and>
     (\<forall>p. rq_preferred_provider r = Some p \<longrightarrow> mt_provider (mc_tier c) = p) \<and>
     (\<forall>m. rq_preferred_model r = Some m \<longrightarrow> model_matches c m) \<and>
     (rq_privacy r = LocalOnly \<longrightarrow> mc_locality c = OnDevice) \<and>
     (rq_privacy r = Sovereign \<longrightarrow> mc_locality c \<in> {OnDevice, SovereignEndpoint}) \<and>
     rq_required_context_tokens r \<le> mt_max_context_tokens (mc_tier c) \<and>
     (\<forall>capability \<in> set (rq_required_capabilities r). tier_has_strength P (mc_tier c) capability \<or>
        (capability = ''advanced_coding'' \<and> 3 \<le> mt_capability_class (mc_tier c))) \<and>
     rq_minimum_quality_class r \<le> mt_capability_class (mc_tier c) \<and>
     f64_le (rq_minimum_success_rate r) (mt_last_success_rate (mc_tier c)) \<and>
     (\<forall>m. rq_maximum_marginal_cost_usd r = Some m \<longrightarrow> (\<exists>cost. mc_marginal_cost_usd c = Some cost \<and> f64_le cost m))"

lemma hundredths_zero [simp]: "hundredths 0 = 0"
  by code_simp

lemma f64_le_not_lt: "\<not> f64_nan a \<Longrightarrow> \<not> f64_nan b \<Longrightarrow> f64_le a b \<longleftrightarrow> \<not> f64_lt b a"
  by (auto simp: f64_le_def f64_lt_def)

lemma admissible_iff:
  assumes "valid_request r"
  shows "rejection_reason P r c = None \<longleftrightarrow> admissible P r c"
proof -
  have nan: "\<not> f64_nan (rq_minimum_success_rate r)" "\<And>m. rq_maximum_marginal_cost_usd r = Some m \<Longrightarrow> \<not> f64_nan m"
    using assms by (auto simp: valid_request_def valid_probability_def valid_cost_def finite_not_nan)
  have cost: "cost_reason (rq_maximum_marginal_cost_usd r) (mc_marginal_cost_usd c) = None \<longleftrightarrow>
      (\<forall>m. rq_maximum_marginal_cost_usd r = Some m \<longrightarrow> (\<exists>k. mc_marginal_cost_usd c = Some k \<and> f64_le k m))"
    if "valid_cost (mc_marginal_cost_usd c)"
    using that nan(2) by (auto simp: cost_reason_def valid_cost_def f64_le_not_lt finite_not_nan split: option.splits)
  have success: "f64_lt (mt_last_success_rate (mc_tier c)) (rq_minimum_success_rate r) \<longleftrightarrow>
      \<not> f64_le (rq_minimum_success_rate r) (mt_last_success_rate (mc_tier c))"
    if "valid_probability (mt_last_success_rate (mc_tier c))"
    using that nan(1) by (simp add: f64_le_not_lt valid_probability_def finite_not_nan)
  have privacy: "privacy_reason (rq_privacy r) (mc_locality c) = None \<longleftrightarrow>
      (rq_privacy r = LocalOnly \<longrightarrow> mc_locality c = OnDevice) \<and>
      (rq_privacy r = Sovereign \<longrightarrow> mc_locality c \<in> {OnDevice, SovereignEndpoint})"
    by (cases "rq_privacy r") (auto simp: privacy_reason_def)
  have some: "(if A then Some x else y) = None \<longleftrightarrow> \<not> A \<and> y = None" for A and x :: CandidateRejectionReason and y by simp
  have first: "(case x of Some reason \<Rightarrow> Some reason | None \<Rightarrow> y) = None \<longleftrightarrow> x = None \<and> y = None"
    for x y :: "CandidateRejectionReason option" by (cases x) simp_all
  have preferred: "(case x of Some p \<Rightarrow> \<not> Q p | None \<Rightarrow> False) \<longleftrightarrow> \<not> (\<forall>p. x = Some p \<longrightarrow> Q p)" for x :: "string option" and Q
    by (cases x) simp_all
  have lists: "model_matches_any c ms \<longleftrightarrow> (\<exists>m \<in> set ms. model_matches c m)" for ms by (simp add: model_matches_any_def list_ex_iff)
  have provider: "(case rq_preferred_provider r of Some p \<Rightarrow> p \<noteq> mt_provider (mc_tier c) | None \<Rightarrow> False) \<longleftrightarrow>
      \<not> (\<forall>p. rq_preferred_provider r = Some p \<longrightarrow> mt_provider (mc_tier c) = p)"
    by (cases "rq_preferred_provider r") auto
  show ?thesis
  proof (cases "valid_cost (mc_marginal_cost_usd c) \<and> valid_probability (mt_last_success_rate (mc_tier c))")
    case True
    then show ?thesis
      unfolding rejection_reason_def Let_def some first provider preferred lists privacy admissible_def
        cost [OF conjunct1 [OF True]] success [OF conjunct2 [OF True]] list_all_iff not_less by blast
  next
    case False
    then show ?thesis unfolding rejection_reason_def Let_def some admissible_def by blast
  qed
qed

lemma admissible_locality:
  "admissible P r c \<Longrightarrow> rq_privacy r \<noteq> Standard \<longrightarrow> mc_locality c \<in> {OnDevice, SovereignEndpoint}"
  unfolding admissible_def by (cases "rq_privacy r") simp_all

text \<open>When a request is planned at all.\<close>

definition plannable :: "ModelCallRequest \<Rightarrow> DrexPolicy \<Rightarrow> bool" where
  "plannable r policy \<longleftrightarrow> valid_request r \<and> rq_safety r \<noteq> SafetyBlocked \<and>
     (is_execution_bearing (rq_stage r) \<and> ag_requires_approval (de_gate (call_decision r policy)) \<longrightarrow> rq_safety r = SafetyApproved)"

definition unique_id :: "ModelCallCandidate list \<Rightarrow> ModelCallCandidate \<Rightarrow> bool" where
  "unique_id cs c \<longleftrightarrow> count (mset (map tier_id cs)) (tier_id c) = 1"

lemma unique_id_inj:
  assumes "c \<in> set cs" "d \<in> set cs" "unique_id cs c" "tier_id c = tier_id d"
  shows "c = d"
proof (rule ccontr)
  assume "c \<noteq> d"
  from assms(1) obtain xs ys where "cs = xs @ c # ys" by (meson split_list)
  with \<open>c \<noteq> d\<close> assms(2) have "d \<in> set (xs @ ys)" and cs: "mset cs = add_mset c (mset (xs @ ys))" by auto
  then have "0 < count (image_mset tier_id (mset (xs @ ys))) (tier_id d)" by (auto simp: count_greater_zero_iff)
  then have "1 < count (mset (map tier_id cs)) (tier_id c)" using cs assms(4) by (simp add: mset_map)
  then show False using assms(3) by (simp add: unique_id_def)
qed

lemma candidate_verdict_none:
  assumes "valid_request r" "c \<in> set cs"
  shows "candidate_verdict P r (duplicate_ids cs) c = None \<longleftrightarrow> unique_id cs c \<and> admissible P r c"
proof -
  have "tier_id c \<in># mset (map tier_id cs)" using assms(2) by simp
  then have "0 < count (mset (map tier_id cs)) (tier_id c)" by (simp only: count_greater_zero_iff)
  then have "\<not> count (mset (map tier_id cs)) (tier_id c) > 1 \<longleftrightarrow> unique_id cs c" unfolding unique_id_def by linarith
  then have "bt_get (duplicate_ids cs) (tier_id c) = None \<longleftrightarrow> unique_id cs c"
    using duplicate_iff [of cs "tier_id c"] by blast
  then show ?thesis using admissible_iff [OF assms(1)] by (auto simp: candidate_verdict_def)
qed

definition admitted_of :: "strings_of_text \<Rightarrow> ModelCallRequest \<Rightarrow> ModelCallCandidate list \<Rightarrow> ModelCallCandidate list" where
  "admitted_of P r cs = filter (\<lambda>c. candidate_verdict P r (duplicate_ids cs) c = None) cs"

lemma candidate_key_id: "candidate_key c = candidate_key d \<Longrightarrow> tier_id c = tier_id d"
  by (simp add: candidate_key_def word_uint_eq_iff)

lemma admitted_key_inj:
  assumes "valid_request r"
  shows "inj_on candidate_key (set (admitted_of P r cs))"
proof (rule inj_onI)
  fix c d assume "c \<in> set (admitted_of P r cs)" "d \<in> set (admitted_of P r cs)" "candidate_key c = candidate_key d"
  then have "c \<in> set cs" "d \<in> set cs" "candidate_verdict P r (duplicate_ids cs) c = None" and "tier_id c = tier_id d"
    by (auto simp only: admitted_of_def set_filter mem_Collect_eq dest: candidate_key_id)
  moreover from this have "unique_id cs c" using candidate_verdict_none [OF assms, of c cs P] by blast
  ultimately show "c = d" using unique_id_inj by blast
qed

lemma planned:
  "plannable r policy \<Longrightarrow> pl_selected (plan_model_call P r cs policy) =
     (case sort_key candidate_key (admitted_of P r cs) of [] \<Rightarrow> None | c # _ \<Rightarrow> Some c)"
  "\<not> plannable r policy \<Longrightarrow> pl_selected (plan_model_call P r cs policy) = None"
  using sort_by_key [of compare_candidates candidate_key, OF compare_candidates_key]
  by (auto simp: plannable_def plan_model_call_def no_selection_plan_def admitted_of_def Let_def)

lemma sort_key_head:
  assumes "inj_on key (set xs)"
  shows "(case sort_key key xs of [] \<Rightarrow> None | x # _ \<Rightarrow> Some x) = Some c \<longleftrightarrow>
    c \<in> set xs \<and> (\<forall>d \<in> set xs. d \<noteq> c \<longrightarrow> key c < key d)"
proof (cases "sort_key key xs")
  case Nil
  then have "set xs = {}" using set_sort [of key xs] by simp
  with Nil show ?thesis by simp
next
  case (Cons x ys)
  have "set xs = insert x (set ys)" using Cons set_sort [of key xs] by simp
  moreover have "\<forall>d \<in> set ys. key x \<le> key d" using sorted_sort_key [of key xs] Cons by simp
  ultimately have x: "x \<in> set xs" "\<And>d. d \<in> set xs \<Longrightarrow> key x \<le> key d" by auto
  have strict: "key x < key d" if "d \<in> set xs" "d \<noteq> x" for d
    using x(2) [OF that(1)] inj_onD [OF assms, of x d] x(1) that by (metis order_le_less)
  have "c = x" if "c \<in> set xs" "\<forall>d \<in> set xs. d \<noteq> c \<longrightarrow> key c < key d"
    using that x by (metis leD)
  then show ?thesis using Cons x(1) strict by auto
qed

lemma plan_selection:
  "pl_selected (plan_model_call P r cs policy) = Some c \<longleftrightarrow>
     plannable r policy \<and> c \<in> set cs \<and> unique_id cs c \<and> admissible P r c \<and>
     (\<forall>d \<in> set cs. unique_id cs d \<and> admissible P r d \<and> d \<noteq> c \<longrightarrow> compare_candidates c d = Less)"
proof (cases "plannable r policy")
  case True
  then have "valid_request r" by (simp add: plannable_def)
  have "set (admitted_of P r cs) = {c \<in> set cs. unique_id cs c \<and> admissible P r c}"
    using candidate_verdict_none [OF \<open>valid_request r\<close>] by (auto simp: admitted_of_def)
  then show ?thesis
    using sort_key_head [OF admitted_key_inj [OF \<open>valid_request r\<close>, of P cs], of c] True
    by (auto simp: planned compare_candidates_key)
qed (simp add: planned)

lemma plan_selection_admissible:
  "pl_selected (plan_model_call P r cs policy) = Some c \<Longrightarrow> c \<in> set cs \<and> admissible P r c"
  by (simp add: plan_selection)

lemma single_candidate_selected:
  "plannable r policy \<Longrightarrow> admissible P r c \<Longrightarrow> unique_id [c] c \<Longrightarrow> pl_selected (plan_model_call P r [c] policy) = Some c"
  by (simp add: plan_selection)

text \<open>Which of two candidates is preferred, said without the comparison the planner sorts by. A negative
  zero comes before the positive one, the only numbers that are equal and not the same bits.\<close>

definition smaller :: "f64 \<Rightarrow> f64 \<Rightarrow> bool" where
  "smaller x y \<longleftrightarrow> f64_lt x y \<or> f64_eq x y \<and> f64_neg x \<and> \<not> f64_neg y"

definition cheaper :: "ModelCallCandidate \<Rightarrow> ModelCallCandidate \<Rightarrow> bool" where
  "cheaper c d \<longleftrightarrow>
     (\<exists>x. mc_marginal_cost_usd c = Some x \<and> (\<forall>y. mc_marginal_cost_usd d = Some y \<longrightarrow> smaller x y))"

definition better :: "ModelCallCandidate \<Rightarrow> ModelCallCandidate \<Rightarrow> bool" where
  "better c d \<longleftrightarrow>
     (let s = mc_tier c; t = mc_tier d in
      cheaper c d \<or> mc_marginal_cost_usd c = mc_marginal_cost_usd d \<and>
       (mt_capability_class t < mt_capability_class s \<or> mt_capability_class s = mt_capability_class t \<and>
        (mt_latency_p_95_ms s < mt_latency_p_95_ms t \<or> mt_latency_p_95_ms s = mt_latency_p_95_ms t \<and>
         (smaller (mt_last_success_rate t) (mt_last_success_rate s) \<or> mt_last_success_rate s = mt_last_success_rate t \<and>
          mt_id s < mt_id t))))"

lemma smaller_total_key: "\<not> f64_nan x \<Longrightarrow> \<not> f64_nan y \<Longrightarrow> smaller x y \<longleftrightarrow> total_key x < total_key y"
  using f64_mag_bounds(1) [of x] f64_mag_bounds(1) [of y]
  by (auto simp: smaller_def f64_lt_def f64_eq_def f64_key_def total_key_def)

lemma admissible_numbers:
  assumes "admissible P r c"
  shows "mc_marginal_cost_usd c = Some x \<Longrightarrow> \<not> f64_nan x" "\<not> f64_nan (mt_last_success_rate (mc_tier c))"
proof -
  from assms have "valid_cost (mc_marginal_cost_usd c)" "valid_probability (mt_last_success_rate (mc_tier c))"
    unfolding admissible_def by blast+
  then show "mc_marginal_cost_usd c = Some x \<Longrightarrow> \<not> f64_nan x" "\<not> f64_nan (mt_last_success_rate (mc_tier c))"
    by (simp_all add: valid_cost_def valid_probability_def finite_not_nan)
qed

lemma better_compares_less:
  assumes "admissible P r c" "admissible P r d"
  shows "compare_candidates c d = Less \<longleftrightarrow> better c d"
proof -
  let ?cost = "\<lambda>c. case mc_marginal_cost_usd c of Some cost \<Rightarrow> (0 :: int, total_key cost) | None \<Rightarrow> (1, 0)"
  note numbers = admissible_numbers [OF assms(1)] admissible_numbers [OF assms(2)]
  have cost: "?cost c < ?cost d \<longleftrightarrow> cheaper c d" "?cost c = ?cost d \<longleftrightarrow> mc_marginal_cost_usd c = mc_marginal_cost_usd d"
    using numbers by (auto simp: cheaper_def smaller_total_key total_key_inject split: option.splits)
  have rate: "total_key (mt_last_success_rate (mc_tier d)) < total_key (mt_last_success_rate (mc_tier c)) \<longleftrightarrow>
      smaller (mt_last_success_rate (mc_tier d)) (mt_last_success_rate (mc_tier c))"
    using numbers by (simp add: smaller_total_key)
  have "compare_candidates c d = Less \<longleftrightarrow> candidate_key c < candidate_key d"
    by (simp add: compare_candidates_key)
  also have "\<dots> \<longleftrightarrow> better c d"
    unfolding candidate_key_def less_pair cost better_def Let_def neg_less_iff_less neg_equal_iff_equal
      rate total_key_inject word_less_def word_uint_eq_iff [symmetric] by (rule refl)
  finally show ?thesis .
qed

text \<open>C11. The planner selects exactly the best admissible candidate: a call gets a model if and only if its
  request is well formed, not blocked, and approved where the authority gate asks for it, and the model is
  the one candidate with an id of its own that meets every demand of the request (locality for its privacy
  class, allowed and excluded models, context, capabilities, quality, success rate, cost ceiling) and is
  preferred to every other such candidate: a known cost before an unknown one, then the lower cost, the
  higher quality class, the lower 95th percentile latency, the higher success rate, the lower id, each
  deciding only among equals of the ones before it. A candidate whose cost is not known never passes a
  ceiling.\<close>

theorem plan_selects_the_best_admissible:
  "pl_selected (plan_model_call P r cs policy) = Some c \<longleftrightarrow>
     plannable r policy \<and> c \<in> set cs \<and> unique_id cs c \<and> admissible P r c \<and>
     (\<forall>d \<in> set cs. unique_id cs d \<and> admissible P r d \<and> d \<noteq> c \<longrightarrow> better c d)"
  unfolding plan_selection using better_compares_less by blast

text \<open>C25. A plan accounts for every candidate and does not depend on their order: each candidate's id is
  either admitted or rejected with a reason, as often as it occurs, and permuting the candidates changes
  nothing of the plan, neither the selection nor the recorded lists.\<close>

theorem plans_do_not_depend_on_order:
  assumes "mset cs = mset ds"
  shows "plan_model_call P r cs policy = plan_model_call P r ds policy \<and>
    mset (pl_admitted_ids (plan_model_call P r cs policy)) + mset (map cr_candidate_id (pl_rejected (plan_model_call P r cs policy))) =
      mset (map tier_id cs)"
proof
  have duplicates: "candidate_verdict P r (duplicate_ids cs) = candidate_verdict P r (duplicate_ids ds)"
    using duplicate_iff [of cs] duplicate_iff [of ds] assms by (auto simp: candidate_verdict_def fun_eq_iff)
  have rejected: "sort_rejections xs = sort_rejections ys" if "mset xs = mset ys" for xs ys
    unfolding sort_rejections_key by (rule sort_key_mset_cong [OF that]) (rule inj_on_subset [OF rejection_key_inj subset_UNIV])
  let ?no = "\<lambda>c. map_option (rejection (tier_id c)) (candidate_verdict P r (duplicate_ids ds) c)"
  have filtered: "mset (List.map_filter ?no cs) = mset (List.map_filter ?no ds)"
    by (simp add: List.map_filter_def assms)
  have admitted: "sort_by compare_candidates (filter (\<lambda>c. candidate_verdict P r (duplicate_ids ds) c = None) cs) =
      sort_by compare_candidates (filter (\<lambda>c. candidate_verdict P r (duplicate_ids ds) c = None) ds)" if "valid_request r"
    unfolding sort_by_key [of compare_candidates candidate_key, OF compare_candidates_key]
    using admitted_key_inj [OF that, of P cs] by (intro sort_key_mset_cong) (simp_all add: assms admitted_of_def duplicates)
  have all: "sort_rejections (map (\<lambda>c. rejection (tier_id c) reason) cs) = sort_rejections (map (\<lambda>c. rejection (tier_id c) reason) ds)" for reason
    by (rule rejected) (simp add: assms)
  show "plan_model_call P r cs policy = plan_model_call P r ds policy"
    using admitted rejected [OF filtered] all by (simp add: plan_model_call_def no_selection_plan_def duplicates Let_def)
  have split: "mset (map tier_id (filter (\<lambda>c. v c = None) cs)) +
      mset (map cr_candidate_id (List.map_filter (\<lambda>c. map_option (rejection (tier_id c)) (v c)) cs)) = mset (map tier_id cs)" for v
    by (induction cs) (auto simp: List.map_filter_simps rejection_def split: option.splits)
  have ids: "image_mset cr_candidate_id (mset (sort_rejections rs)) = image_mset cr_candidate_id (mset rs)" for rs
    by (simp add: sort_rejections_key)
  have "cr_candidate_id (rejection i reason) = i" for i reason by (simp add: rejection_def)
  then show "mset (pl_admitted_ids (plan_model_call P r cs policy)) +
      mset (map cr_candidate_id (pl_rejected (plan_model_call P r cs policy))) = mset (map tier_id cs)"
    using split [of "candidate_verdict P r (duplicate_ids cs)"]
    by (simp add: plan_model_call_def no_selection_plan_def ids Let_def
      sort_by_key [of compare_candidates candidate_key, OF compare_candidates_key] image_mset.compositionality comp_def)
qed

section \<open>The authority gate\<close>

lemma vector_blast_radius:
  "dv_blast_radius (build_drex_vector intent risk raw_text privacy runtime) =
     (if risk \<in> {''high'', ''critical''} then clamp (f64_add (dv_blast_radius (intent_vector intent)) (hundredths 15))
      else dv_blast_radius (intent_vector intent))"
  by (simp add: build_drex_vector_def raise_proximity_def Let_def)

lemma vector_coordination:
  "dv_coordination_load (build_drex_vector intent risk raw_text privacy runtime) = dv_coordination_load (intent_vector intent)"
  by (simp add: build_drex_vector_def raise_proximity_def Let_def)

lemma blast_radii:
  "f64_le (hundredths 75) (hundredths b) \<and> f64_le (hundredths 75) (clamp (f64_add (hundredths b) (hundredths 15)))"
  if "b \<in> {75, 90}"
  using that by (elim insertE emptyE) (simp_all only:, code_simp+)

lemma blast_radii_low:
  "\<not> f64_le (hundredths 75) (hundredths b) \<and> \<not> f64_le (hundredths 75) (clamp (f64_add (hundredths b) (hundredths 15)))"
  if "b \<in> {40, 45, 50, 55}"
  using that by (elim insertE emptyE) (simp_all only:, code_simp+)

lemma coordination_low: "\<not> f64_le (hundredths 70) (hundredths b)" if "b \<in> {25, 30, 50, 65}"
  using that by (elim insertE emptyE) (simp_all only:, code_simp+)

text \<open>C26. The authority gate looks at the intent only: a call needs approval exactly when its intent is
  strategy, deploy, operate or automate. Its risk class, its text, its privacy and the policy make no
  difference: the blast radius of every other intent stays below the threshold even when a high or critical
  risk raises it.\<close>

theorem authority_gate_follows_intent:
  "ag_requires_approval (de_gate (call_decision r policy)) \<longleftrightarrow>
     rq_intent r \<in> {''strategy'', ''deploy'', ''operate'', ''automate''}"
proof -
  let ?v = "build_drex_vector (rq_intent r) (CallRisk_as_str (rq_risk r)) (rq_raw_text r) (PrivacyClass_as_str (rq_privacy r))
      (if rq_privacy r = Standard then ''any'' else ''local'')"
  have gate: "de_gate (call_decision r policy) = authority_gate ?v"
    by (simp add: call_decision_def evaluate_drex_def Let_def split_def)
  let ?intent = "intent_vector (rq_intent r)"
  show ?thesis
  proof (cases "rq_intent r \<in> {''strategy'', ''deploy'', ''operate'', ''automate''}")
    case True
    then have "\<exists>b \<in> {75, 90}. dv_blast_radius ?intent = hundredths b"
      by (auto simp: intent_vector_def vector_of_def)
    then obtain b where b: "b \<in> {75, 90}" "dv_blast_radius ?intent = hundredths b" by blast
    have "f64_le (hundredths 75) (dv_blast_radius ?v)"
      unfolding vector_blast_radius b(2) using blast_radii [OF b(1)] by presburger
    then show ?thesis using True by (simp add: gate authority_gate_def)
  next
    case False
    then have "\<exists>b \<in> {40, 45, 50, 55}. dv_blast_radius ?intent = hundredths b"
      "\<exists>b \<in> {25, 30, 50, 65}. dv_coordination_load ?intent = hundredths b"
      by (auto simp: intent_vector_def vector_of_def)
    then obtain b d where b: "b \<in> {40, 45, 50, 55}" "dv_blast_radius ?intent = hundredths b"
      and d: "d \<in> {25, 30, 50, 65}" "dv_coordination_load ?intent = hundredths d" by blast
    have "\<not> f64_le (hundredths 75) (dv_blast_radius ?v)"
      unfolding vector_blast_radius b(2) using blast_radii_low [OF b(1)] by presburger
    moreover have "\<not> f64_le (hundredths 70) (dv_coordination_load ?v)"
      unfolding vector_coordination d(2) by (rule coordination_low [OF d(1)])
    ultimately have "\<not> f64_le (hundredths 75) (dv_blast_radius ?v)" "\<not> f64_le (hundredths 70) (dv_coordination_load ?v)" .
    then show ?thesis using False by (simp add: gate authority_gate_def)
  qed
qed

section \<open>Witnesses\<close>

definition demo_tier :: ModelTier where
  "demo_tier = \<lparr>mt_id = 1, mt_model_id = ''m'', mt_provider_model_id = ''m'', mt_provider = ''ollama'', mt_rate_group = ''local'',
     mt_capability_class = 2, mt_effort_knob = [], mt_effort_level = 1, mt_cost_per_turn = 0, mt_max_context_tokens = 8,
     mt_vram_requirement_mb = 0, mt_quantization_type = [], mt_kv_cache_strategy = [], mt_strengths_json = [], mt_enabled = True,
     mt_last_success_rate = hundredths 100, mt_avg_latency_ms = 1, mt_latency_p_95_ms = 1, mt_updated_at = []\<rparr>"

definition demo_local :: ModelCallCandidate where
  "demo_local = \<lparr>mc_tier = demo_tier, mc_locality = OnDevice, mc_connected = True, mc_adapter_capable = True,
     mc_quota_available = True, mc_marginal_cost_usd = Some 0, mc_cost_truth = LocalZeroCost\<rparr>"

definition demo_remote :: ModelCallCandidate where
  "demo_remote = demo_local\<lparr>mc_tier := demo_tier\<lparr>mt_id := 2\<rparr>, mc_locality := Remote, mc_cost_truth := TargetOnly\<rparr>"

definition demo_small :: ModelCallCandidate where
  "demo_small = demo_local\<lparr>mc_tier := demo_tier\<lparr>mt_id := 0, mt_capability_class := 1\<rparr>\<rparr>"

definition demo_call_request :: ModelCallRequest where
  "demo_call_request = \<lparr>rq_thread_id = ''t'', rq_turn_id = ''u'', rq_work_id = None, rq_call_id = ''c'', rq_intent = ''chat'',
     rq_stage = Planning, rq_raw_text = ''hi'', rq_privacy = LocalOnly, rq_risk = CallLow, rq_safety = SafetyUnapproved,
     rq_required_capabilities = [], rq_required_context_tokens = 1, rq_minimum_quality_class = 1, rq_minimum_success_rate = 0,
     rq_maximum_marginal_cost_usd = Some 0, rq_preferred_provider = None, rq_preferred_model = None, rq_allowed_models = [],
     rq_excluded_models = []\<rparr>"

lemma demo_admissible:
  "plannable demo_call_request default_policy" "admissible (\<lambda>_. None) demo_call_request demo_local"
  "\<not> admissible (\<lambda>_. None) demo_call_request demo_remote"
proof -
  have "valid_request demo_call_request" by code_simp
  then show "plannable demo_call_request default_policy"
    by (simp add: plannable_def demo_call_request_def is_execution_bearing_def)
  have "valid_probability (hundredths 100)" "f64_le 0 (hundredths 100)" "f64_le 0 0" "f64_eq 0 0" by code_simp+
  then show "admissible (\<lambda>_. None) demo_call_request demo_local"
    by (simp add: admissible_def demo_call_request_def demo_local_def demo_tier_def valid_cost_def cost_truth_is_valid_def)
  show "\<not> admissible (\<lambda>_. None) demo_call_request demo_remote"
    by (simp add: admissible_def demo_call_request_def demo_remote_def)
qed

theorem plan_selects_the_best_admissible_witness:
  "pl_selected (plan_model_call (\<lambda>_. None) demo_call_request [demo_small, demo_remote, demo_local] default_policy) = Some demo_local"
proof -
  have "tier_id demo_remote = 2" "tier_id demo_local = 1" "tier_id demo_small = 0"
    by (simp_all add: demo_remote_def demo_local_def demo_small_def demo_tier_def)
  then have "unique_id [demo_small, demo_remote, demo_local] demo_local" by (simp add: unique_id_def)
  moreover have "better demo_local demo_small" by (simp add: better_def demo_local_def demo_small_def demo_tier_def)
  ultimately show ?thesis unfolding plan_selects_the_best_admissible using demo_admissible by simp
qed

theorem plans_do_not_depend_on_order_witness:
  "mset [demo_remote, demo_local] = mset [demo_local, demo_remote] \<and>
   plan_model_call (\<lambda>_. None) demo_call_request [demo_remote, demo_local] default_policy =
   plan_model_call (\<lambda>_. None) demo_call_request [demo_local, demo_remote] default_policy"
proof
  show same: "mset [demo_remote, demo_local] = mset [demo_local, demo_remote]" by simp
  show "plan_model_call (\<lambda>_. None) demo_call_request [demo_remote, demo_local] default_policy =
      plan_model_call (\<lambda>_. None) demo_call_request [demo_local, demo_remote] default_policy"
    using plans_do_not_depend_on_order [OF same] by blast
qed

end
