(* ===== verification/Drex_Route.thy ===== *)
theory Drex_Route
  imports Drex
begin

text \<open>
  The legacy entry points of the router, \<open>apps/heiwa_core/src/drex/router.rs\<close>: the answer to an input
  before any model is called, and the route of an ingress, which is a plan of a model call.
\<close>

record DrexIngress =
  in_intent :: string
  in_risk :: string
  in_raw_text :: string
  in_privacy :: string
  in_runtime :: string
  in_available_vram_mb :: u32
  in_required_context_tokens :: u32

record RoutePlan =
  rp_thread_id :: string
  rp_turn_id :: string
  rp_call_id :: string
  rp_stage :: ModelCallStage
  rp_decision :: DrexDecision
  rp_execution_mode :: ExecutionMode
  rp_runtime_hint :: string
  rp_selected_model :: "ModelTier option"
  rp_routing_metadata :: string

record PreflightDecision =
  pd_execution_mode :: ExecutionMode
  pd_response_text :: "string option"
  pd_reason :: string

unbundle bit_operations_syntax

section \<open>Helpers\<close>

definition contains_word :: "string \<Rightarrow> string \<Rightarrow> bool" where
  "contains_word s word = list_ex (\<lambda>token. token = word) (split_on (\<lambda>c. \<not> is_ascii_alphanumeric c \<and> c \<noteq> CHR ''_'') s)"

definition is_local_provider :: "string \<Rightarrow> bool" where
  "is_local_provider provider \<longleftrightarrow> provider \<in> {''ollama'', ''local'', ''vllm'', ''litellm''}"

definition is_local_runtime :: "string \<Rightarrow> bool" where
  "is_local_runtime runtime \<longleftrightarrow> runtime \<in> {''macbook'', ''boost'', ''local''}"

definition is_greeting :: "string \<Rightarrow> bool" where
  "is_greeting lowercase \<longleftrightarrow> trim lowercase \<in> {''hi'', ''hello'', ''hey'', ''yo'', ''sup'', ''gm'', ''good morning'',
     ''good afternoon'', ''good evening''}"

definition is_underspecified :: "string \<Rightarrow> bool" where
  "is_underspecified lowercase \<longleftrightarrow>
     (let trimmed = trim lowercase in
      length (split_whitespace trimmed) \<le> 2 \<and>
      trimmed \<in> {''help'', ''what'', ''why'', ''huh'', ''okay'', ''ok'', ''sure'', ''go'', ''start'', ''continue''})"

definition runtime_hint :: "DrexIngress \<Rightarrow> DrexVector \<Rightarrow> string" where
  "runtime_hint ingress vector =
     (if in_privacy ingress = ''sovereign'' \<and> is_local_runtime (in_runtime ingress) then in_runtime ingress
      else if f64_le (hundredths 80) (dv_execution_proximity vector) \<and> is_local_runtime (in_runtime ingress) then in_runtime ingress
      else ''cloud'')"

definition required_model_capabilities :: "DrexIngress \<Rightarrow> string list" where
  "required_model_capabilities ingress =
     (let lowercase = to_ascii_lowercase (in_raw_text ingress) in
      if mentions [''mcp server'', ''mcp tool'', ''tool use'', ''use github'', ''github'', ''pull request'', ''open an issue'',
           ''create an issue'', ''notion'', ''slack'', ''gmail'', ''send email'', ''calendar'', ''google drive'', ''google sheet'',
           ''browser'', ''webhook'', ''jira'', ''linear''] lowercase \<or>
         list_ex (contains_word lowercase) [''mcp'']
      then [''tool_use''] else [])"

definition minimum_quality_class :: "DrexIngress \<Rightarrow> PrivacyClass \<Rightarrow> u8" where
  "minimum_quality_class ingress privacy =
     (if in_risk ingress \<in> {''critical'', ''high''} then 3
      else if in_risk ingress = ''medium'' then 2
      else if in_intent ingress = ''code'' \<and> privacy \<noteq> Sovereign then 3
      else 1)"

definition on_device_tier :: "ModelTier \<Rightarrow> bool" where
  "on_device_tier tier \<longleftrightarrow> mt_provider tier \<in> {''ollama'', ''local''} \<and> mt_rate_group tier \<in> {''local'', ''local_ollama''}"

definition legacy_locality :: "DrexIngress \<Rightarrow> ModelTier \<Rightarrow> ExecutionLocality" where
  "legacy_locality ingress tier = (if on_device_tier tier then OnDevice else Unverified)"

definition legacy_marginal_cost :: "DrexIngress \<Rightarrow> ModelTier \<Rightarrow> f64 option" where
  "legacy_marginal_cost ingress tier =
     (if f64_eq (mt_cost_per_turn tier) (hundredths 0) \<and> legacy_locality ingress tier \<noteq> OnDevice then None
      else Some (mt_cost_per_turn tier))"

definition cost_truth_for_tier :: "DrexIngress \<Rightarrow> ModelTier \<Rightarrow> CostTruth" where
  "cost_truth_for_tier ingress tier =
     (if f64_eq (mt_cost_per_turn tier) (hundredths 0) \<and> legacy_locality ingress tier = OnDevice then LocalZeroCost
      else if f64_eq (mt_cost_per_turn tier) (hundredths 0) then CannotConfirm
      else ProxyEstimate)"

definition legacy_model_id :: "ModelTier \<Rightarrow> u64" where
  "legacy_model_id tier =
     foldl (\<lambda>hash b. (hash XOR of_nat (byte b)) * 0x100000001b3) 0xcbf29ce484222325
       (mt_provider tier @ ''|'' @ mt_model_id tier @ ''|'' @ mt_provider_model_id tier @ ''|'' @ mt_rate_group tier)"

definition execution_mode_for_tier :: "ModelTier \<Rightarrow> ExecutionMode" where
  "execution_mode_for_tier tier = (if on_device_tier tier then LocalModel else RemoteModel)"

fun execution_mode_label :: "ExecutionMode \<Rightarrow> string" where
  "execution_mode_label Deterministic = ''deterministic''"
| "execution_mode_label LocalModel = ''local_model''"
| "execution_mode_label RemoteModel = ''remote_model''"
| "execution_mode_label Clarify = ''clarify''"

definition should_prefer_local :: "DrexIngress \<Rightarrow> DrexDecision \<Rightarrow> ModelTier list \<Rightarrow> bool" where
  "should_prefer_local ingress decision local_candidates =
     (let easy = in_required_context_tokens ingress \<le> 32768 \<and> in_risk ingress \<notin> {''high'', ''critical''} in
      if local_candidates = [] then False
      else if in_intent ingress \<in> {''chat'', ''status_check''} then True
      else if in_privacy ingress = ''sovereign'' then True
      else if in_intent ingress = ''code'' then
        Max (set (map mt_capability_class local_candidates)) \<ge> 3 \<and> easy
      else de_active_tier decision = Micro \<and> easy)"

section \<open>Before a model is called\<close>

definition preflight_execution :: "DrexIngress \<Rightarrow> ModelTier list \<Rightarrow> DrexPolicy \<Rightarrow> PreflightDecision" where
  "preflight_execution ingress model_tiers policy =
     (let trimmed = trim (in_raw_text ingress); lowercase = to_ascii_lowercase trimmed in
      if trimmed = [] then
        \<lparr>pd_execution_mode = Clarify,
         pd_response_text = Some ''Tell me the outcome you want, or use /status, /providers, or /models.'', pd_reason = ''empty_input''\<rparr>
      else if is_greeting lowercase then
        \<lparr>pd_execution_mode = Deterministic,
         pd_response_text = Some ''Ready. Tell me what you want to do, or use /status, /providers, or /models.'', pd_reason = ''greeting''\<rparr>
      else if is_underspecified lowercase then
        \<lparr>pd_execution_mode = Clarify,
         pd_response_text = Some ''Tell me the outcome you want, the repo or file target, or the command context.'',
         pd_reason = ''underspecified''\<rparr>
      else
        let vector = build_drex_vector (in_intent ingress) (in_risk ingress) (in_raw_text ingress) (in_privacy ingress) (in_runtime ingress);
            hint = runtime_hint ingress vector;
            runtime_fit = (if is_local_runtime hint then hundredths 100 else hundredths 80);
            decision = evaluate_drex vector policy (hundredths 95) runtime_fit (hundredths 65);
            local_candidates = filter (\<lambda>t. mt_enabled t \<and> is_local_provider (mt_provider t)) model_tiers;
            remote_candidates = filter (\<lambda>t. mt_enabled t \<and> \<not> is_local_provider (mt_provider t)) model_tiers
        in if should_prefer_local ingress decision local_candidates \<or> remote_candidates = []
           then \<lparr>pd_execution_mode = LocalModel, pd_response_text = None, pd_reason = ''local_first''\<rparr>
           else \<lparr>pd_execution_mode = RemoteModel, pd_response_text = None, pd_reason = ''remote_escalation''\<rparr>)"

section \<open>A route\<close>

text \<open>\<open>serde\<close>: the reader of strengths, and JSON text.\<close>

record route_lib =
  rl_strings_of_text :: strings_of_text
  rl_to_text :: "json \<Rightarrow> string"

definition rejection_value :: "CandidateRejection \<Rightarrow> json" where
  "rejection_value r = JObject [(''candidate_id'', JNumber (PosInt (cr_candidate_id r))),
     (''reasons'', JArray (map (\<lambda>x. JString (reason_str x)) (cr_reasons r)))]"

definition legacy_no_route :: "route_lib \<Rightarrow> DrexIngress \<Rightarrow> ModelTier list \<Rightarrow> DrexPolicy \<Rightarrow> ModelCallIdentity \<Rightarrow> string \<Rightarrow> RoutePlan" where
  "legacy_no_route L ingress model_tiers policy identity reason =
     (let vector = build_drex_vector (in_intent ingress) ''low'' (in_raw_text ingress) ''standard'' (in_runtime ingress);
          decision = evaluate_drex vector policy (hundredths 80) (hundredths 80) (hundredths 65);
          rejected = map (\<lambda>t. rejection (mt_id t) InvalidRequestPolicy) model_tiers
      in \<lparr>rp_thread_id = ci_thread_id identity, rp_turn_id = ci_turn_id identity, rp_call_id = ci_call_id identity,
          rp_stage = LegacyRoute, rp_decision = decision, rp_execution_mode = Clarify, rp_runtime_hint = in_runtime ingress,
          rp_selected_model = None,
          rp_routing_metadata = rl_to_text L (JObject [(''call_id'', JString (ci_call_id identity)),
            (''mode'', JString (execution_mode_label Clarify)), (''policy_version'', JString DEFAULT_POLICY_VERSION),
            (''reason'', JString reason), (''rejected'', JArray (map rejection_value rejected)),
            (''stage'', JString (ModelCallStage_str LegacyRoute)), (''thread_id'', JString (ci_thread_id identity)),
            (''turn_id'', JString (ci_turn_id identity))])\<rparr>)"

definition legacy_request :: "DrexIngress \<Rightarrow> PrivacyClass \<Rightarrow> CallRisk \<Rightarrow> ModelCallIdentity \<Rightarrow> ModelCallRequest" where
  "legacy_request ingress privacy risk identity =
     \<lparr>rq_thread_id = ci_thread_id identity, rq_turn_id = ci_turn_id identity, rq_work_id = None, rq_call_id = ci_call_id identity,
      rq_intent = in_intent ingress, rq_stage = LegacyRoute, rq_raw_text = in_raw_text ingress,
      rq_privacy = (if is_local_runtime (in_runtime ingress) then LocalOnly else privacy), rq_risk = risk,
      rq_safety = SafetyUnapproved,
      rq_required_capabilities = required_model_capabilities ingress @
        (if in_intent ingress = ''code'' \<and> privacy = Sovereign then [''advanced_coding''] else []),
      rq_required_context_tokens = in_required_context_tokens ingress,
      rq_minimum_quality_class = minimum_quality_class ingress privacy, rq_minimum_success_rate = hundredths 0,
      rq_maximum_marginal_cost_usd = None, rq_preferred_provider = None, rq_preferred_model = None,
      rq_allowed_models = [], rq_excluded_models = []\<rparr>"

definition legacy_candidate :: "DrexIngress \<Rightarrow> ModelTier \<Rightarrow> ModelCallCandidate" where
  "legacy_candidate ingress tier0 =
     (let tier = (if mt_id tier0 = 0 then tier0\<lparr>mt_id := legacy_model_id tier0\<rparr> else tier0);
          locality = legacy_locality ingress tier
      in \<lparr>mc_tier = tier, mc_locality = locality, mc_connected = mt_enabled tier,
          mc_adapter_capable = (locality \<noteq> OnDevice \<or> mt_vram_requirement_mb tier = 0 \<or>
            mt_vram_requirement_mb tier \<le> in_available_vram_mb ingress),
          mc_quota_available = True, mc_marginal_cost_usd = legacy_marginal_cost ingress tier,
          mc_cost_truth = cost_truth_for_tier ingress tier\<rparr>)"

definition route_metadata :: "DrexIngress \<Rightarrow> ModelCallPlan \<Rightarrow> string list \<Rightarrow> json" where
  "route_metadata ingress plan capabilities =
     (let ids = (''admitted_ids'', JArray (map (\<lambda>i. JNumber (PosInt i)) (pl_admitted_ids plan)));
          call = (''call_id'', JString (pl_call_id plan));
          rejected = (''rejected'', JArray (map rejection_value (pl_rejected plan)));
          version = (''policy_version'', JString (pl_policy_version plan));
          reason = (''reason'', JString (pl_selection_reason plan));
          stage = (''stage'', JString (ModelCallStage_str (pl_stage plan)));
          thread = (''thread_id'', JString (pl_thread_id plan));
          turn = (''turn_id'', JString (pl_turn_id plan))
      in case pl_selected plan of
           Some c \<Rightarrow> JObject [ids, call,
             (''cost_truth'', opt_str (map_option CostTruth_str (pl_selected_cost_truth plan))),
             (''mode'', JString (execution_mode_label (execution_mode_for_tier (mc_tier c)))),
             (''model_id'', JString (mt_model_id (mc_tier c))), version, (''provider'', JString (mt_provider (mc_tier c))),
             reason, rejected, (''required_capabilities'', JArray (map JString capabilities)), stage, thread, turn]
         | None \<Rightarrow> JObject [ids, call,
             (''legacy_locality_policy'', JString (if is_local_runtime (in_runtime ingress) then ''local_runtime_locality_required'' else ''none'')),
             (''mode'', JString (execution_mode_label Clarify)), version, reason, rejected, stage, thread, turn])"

definition plan_route_for_call :: "route_lib \<Rightarrow> DrexIngress \<Rightarrow> ModelTier list \<Rightarrow> DrexPolicy \<Rightarrow> ModelCallIdentity \<Rightarrow> RoutePlan" where
  "plan_route_for_call L ingress model_tiers policy identity =
     (case PrivacyClass_parse (in_privacy ingress) of
        Inl reason \<Rightarrow> legacy_no_route L ingress model_tiers policy identity reason
      | Inr privacy \<Rightarrow>
          (case CallRisk_parse (in_risk ingress) of
             Inl reason \<Rightarrow> legacy_no_route L ingress model_tiers policy identity reason
           | Inr risk \<Rightarrow>
               let vector = build_drex_vector (in_intent ingress) (CallRisk_as_str risk) (in_raw_text ingress)
                     (PrivacyClass_as_str privacy) (in_runtime ingress);
                   initial_hint = runtime_hint ingress vector;
                   request = legacy_request ingress privacy risk identity;
                   plan = plan_model_call (rl_strings_of_text L) request (map (legacy_candidate ingress) model_tiers) policy;
                   selected = map_option mc_tier (pl_selected plan);
                   mode = (case selected of Some tier \<Rightarrow> execution_mode_for_tier tier | None \<Rightarrow> Clarify);
                   hint = (if mode = LocalModel then ''local'' else initial_hint)
               in \<lparr>rp_thread_id = pl_thread_id plan, rp_turn_id = pl_turn_id plan, rp_call_id = pl_call_id plan,
                   rp_stage = pl_stage plan, rp_decision = pl_decision plan, rp_execution_mode = mode, rp_runtime_hint = hint,
                   rp_selected_model = selected,
                   rp_routing_metadata = rl_to_text L (route_metadata ingress plan (rq_required_capabilities request))\<rparr>))"

definition plan_route :: "route_lib \<Rightarrow> string \<Rightarrow> DrexIngress \<Rightarrow> ModelTier list \<Rightarrow> DrexPolicy \<Rightarrow> RoutePlan" where
  "plan_route L uuid ingress model_tiers policy = plan_route_for_call L ingress model_tiers policy (legacy_uuid uuid)"

section \<open>Locality of routes\<close>

lemma selected_tier:
  assumes "pl_selected (plan_model_call P (legacy_request ingress privacy risk identity) (map (legacy_candidate ingress) tiers) policy) = Some c"
    and "is_local_runtime (in_runtime ingress) \<or> privacy \<noteq> Standard"
  shows "on_device_tier (mc_tier c)"
proof -
  from assms(1) have "c \<in> legacy_candidate ingress ` set tiers" "admissible P (legacy_request ingress privacy risk identity) c"
    using plan_selection_admissible by fastforce+
  moreover have "rq_privacy (legacy_request ingress privacy risk identity) \<noteq> Standard"
    using assms(2) by (cases "is_local_runtime (in_runtime ingress)") (simp_all add: legacy_request_def)
  ultimately have "mc_locality c \<in> {OnDevice, SovereignEndpoint}" "mc_locality c = legacy_locality ingress (mc_tier c)"
    using admissible_locality by (blast, auto simp: legacy_candidate_def Let_def)
  then show ?thesis by (auto simp: legacy_locality_def split: if_splits)
qed

text \<open>C12. A private route stays on the device: when the ingress names a local runtime or a privacy class other
  than standard, the selected model, if there is one, is one of the two providers whose inventory is proof of
  local execution and the route runs in local mode; an ingress whose privacy or risk class does not parse
  selects nothing. No proxy or endpoint that only has a local name is taken.\<close>

theorem private_routes_stay_on_device:
  assumes "is_local_runtime (in_runtime ingress) \<or> in_privacy ingress \<noteq> ''standard''"
  shows "case rp_selected_model (plan_route_for_call L ingress tiers policy identity) of
      Some tier \<Rightarrow> mt_provider tier \<in> {''ollama'', ''local''} \<and> mt_rate_group tier \<in> {''local'', ''local_ollama''} \<and>
        rp_execution_mode (plan_route_for_call L ingress tiers policy identity) = LocalModel \<and>
        rp_runtime_hint (plan_route_for_call L ingress tiers policy identity) = ''local'' \<and>
        in_privacy ingress \<in> {''standard'', ''local_only'', ''sovereign''} \<and>
        in_risk ingress \<in> {''low'', ''medium'', ''high'', ''critical''}
    | None \<Rightarrow> rp_execution_mode (plan_route_for_call L ingress tiers policy identity) = Clarify"
proof (cases "PrivacyClass_parse (in_privacy ingress)")
  case (Inl reason)
  then show ?thesis by (simp add: plan_route_for_call_def legacy_no_route_def Let_def)
next
  case privacy: (Inr privacy)
  show ?thesis
  proof (cases "CallRisk_parse (in_risk ingress)")
    case (Inl reason)
    with privacy show ?thesis by (simp add: plan_route_for_call_def legacy_no_route_def Let_def)
  next
    case risk: (Inr risk)
    let ?plan = "plan_model_call (rl_strings_of_text L) (legacy_request ingress privacy risk identity) (map (legacy_candidate ingress) tiers) policy"
    have names: "in_privacy ingress \<in> {''standard'', ''local_only'', ''sovereign''}" "in_risk ingress \<in> {''low'', ''medium'', ''high'', ''critical''}"
      using privacy risk by (simp_all add: PrivacyClass_parse_def CallRisk_parse_def split: if_splits)
    have "is_local_runtime (in_runtime ingress) \<or> privacy \<noteq> Standard"
      using assms privacy by (auto simp: PrivacyClass_parse_def split: if_splits)
    then have local: "on_device_tier (mc_tier c)" if "pl_selected ?plan = Some c" for c using selected_tier [OF that] by blast
    have fields: "rp_selected_model (plan_route_for_call L ingress tiers policy identity) = map_option mc_tier (pl_selected ?plan)"
      "rp_execution_mode (plan_route_for_call L ingress tiers policy identity) =
        (case pl_selected ?plan of Some c \<Rightarrow> execution_mode_for_tier (mc_tier c) | None \<Rightarrow> Clarify)"
      "rp_execution_mode (plan_route_for_call L ingress tiers policy identity) = LocalModel \<Longrightarrow>
        rp_runtime_hint (plan_route_for_call L ingress tiers policy identity) = ''local''"
      using privacy risk by (simp_all add: plan_route_for_call_def Let_def split: option.splits)
    show ?thesis
    proof (cases "pl_selected ?plan")
      case (Some c)
      then have "rp_execution_mode (plan_route_for_call L ingress tiers policy identity) = LocalModel"
        using fields(2) local by (simp add: execution_mode_for_tier_def)
      then show ?thesis using fields(1,3) Some local [OF Some] names by (simp add: on_device_tier_def)
    qed (simp add: fields(1,2))
  qed
qed

definition demo_ingress :: DrexIngress where
  "demo_ingress = \<lparr>in_intent = ''chat'', in_risk = ''low'', in_raw_text = ''hi'', in_privacy = ''local_only'', in_runtime = ''cloud'',
     in_available_vram_mb = 0, in_required_context_tokens = 1\<rparr>"

theorem private_routes_stay_on_device_witness:
  "\<exists>route. route = plan_route_for_call \<lparr>rl_strings_of_text = (\<lambda>_. None), rl_to_text = (\<lambda>_. [])\<rparr> demo_ingress [demo_tier] default_policy
       (legacy_uuid ''1'') \<and> rp_selected_model route = Some demo_tier \<and> rp_execution_mode route = LocalModel"
proof -
  let ?L = "\<lparr>rl_strings_of_text = (\<lambda>_. None), rl_to_text = (\<lambda>_. [])\<rparr> :: route_lib" and ?id = "legacy_uuid ''1''"
  let ?r = "legacy_request demo_ingress LocalOnly CallLow ?id" and ?c = "legacy_candidate demo_ingress demo_tier"
  have "valid_request ?r" by code_simp
  then have plannable: "plannable ?r default_policy" by (simp add: plannable_def legacy_request_def is_execution_bearing_def)
  have floats: "valid_probability (hundredths 100)" "f64_le 0 (hundredths 100)" "f64_le 0 0" "f64_eq 0 0" by code_simp+
  have tools: "required_model_capabilities demo_ingress = []" by code_simp
  have "admissible (\<lambda>_. None) ?r ?c"
    using floats tools by (simp add: admissible_def legacy_request_def legacy_candidate_def demo_tier_def demo_ingress_def legacy_locality_def
      on_device_tier_def legacy_marginal_cost_def cost_truth_for_tier_def valid_cost_def cost_truth_is_valid_def is_local_runtime_def
      minimum_quality_class_def)
  moreover have "unique_id [?c] ?c" by (simp add: unique_id_def)
  ultimately have "pl_selected (plan_model_call (\<lambda>_. None) ?r [?c] default_policy) = Some ?c"
    using plannable by (intro single_candidate_selected)
  moreover have "mc_tier ?c = demo_tier" by (simp add: legacy_candidate_def demo_tier_def Let_def)
  ultimately have sel: "rp_selected_model (plan_route_for_call ?L demo_ingress [demo_tier] default_policy ?id) = Some demo_tier"
    by (simp add: plan_route_for_call_def PrivacyClass_parse_def CallRisk_parse_def demo_ingress_def Let_def)
  with private_routes_stay_on_device [of demo_ingress ?L "[demo_tier]" default_policy ?id] show ?thesis
    by (simp add: demo_ingress_def)
qed

end
