(* ===== verification/Spec2Isabelle.thy ===== *)
theory Spec2Isabelle
  imports Work_Session Evidence Operator_Journal Mesh Claim_Verify Workspace Quota
    Automation_Sched Session_Journal Local_Auth Decisions
    Float64_Round Drex_Route
begin

text \<open>
  A verification library for the core crates of the Heiwa runtime.

  \<^bold>\<open>The program.\<close> Heiwa is a local agent runtime. Its durable truth is a set of append-only JSON-lines
  files. The \<^emph>\<open>operator journal\<close> (\<open>crates/heiwa_evidence/src/operator.rs\<close>) holds typed events; a \<^emph>\<open>Work\<close>
  (\<open>crates/heiwa_work\<close>), its runs (\<open>crates/heiwa_worker\<close>) and the session a client sees are folds over that
  stream. The \<^emph>\<open>evidence journal\<close> (\<open>crates/heiwa_evidence/src/journal.rs\<close>, \<open>replay.rs\<close>, \<open>state.rs\<close>) holds
  worker sessions and leases; the exclusive writer lease of a repository
  (\<open>crates/heiwa_workspace/src/lease.rs\<close>) is one of its capabilities. The workspace crate also runs git,
  makes worktrees and projects their changes. The mesh crate signs envelopes that move between a user's
  devices, with keys from the vault. The claims crate decides which statements about the source are
  currently proved. The quota crate keeps the usage windows of model providers. The session crate serves
  threads, turns and projects to clients: each of its methods catches a projection up with the operator
  journal, checks, and appends. The automations crate runs stored prompts on cron schedules and file events.
  The runtime authenticates every operator request on its loopback port (\<open>apps/heiwa_core/src/auth.rs\<close>,
  \<open>apps/heiwa_shell/src/cmd/app.rs\<close>), and a risky action waits for a decision whose record is sealed with the
  installation's credential (\<open>apps/heiwa_core/src/integrity.rs\<close>, \<open>crates/heiwa_drex/src/drex_gate.rs\<close>).
  DREX (\<open>apps/heiwa_core/src/drex\<close>) decides which model serves a call.

  \<^bold>\<open>Theories, from the bottom.\<close>
  \<^item> \<open>Prelude\<close>: machine integers (words; \<open>i64\<close> as integers in range with wrapping and saturating
    operations), \<open>BTreeMap\<close> as a sorted association list, the locales \<open>keyed_store\<close> and \<open>event_fold\<close>.
  \<^item> \<open>Rust_Str\<close>, \<open>Utf8\<close>: the operations of \<open>str\<close> the program uses, on byte lists; lossy decoding.
  \<^item> \<open>Json\<close>, \<open>Wire\<close>: JSON values; the interface \<open>json_text\<close> of a printer and parser, and a concrete
    format that satisfies it, used wherever a witness needs text.
  \<^item> \<open>Operator_Event\<close>, \<open>Operator_Codec\<close>: the event envelope and a concrete codec.
  \<^item> \<open>Work\<close>: \<open>model.rs\<close>, \<open>events.rs\<close>, \<open>projector.rs\<close>, \<open>migration.rs\<close> of \<open>heiwa_work\<close>.
  \<^item> \<open>Worker\<close>, \<open>Pane\<close>: \<open>model.rs\<close>, \<open>events.rs\<close>, \<open>projector.rs\<close>, \<open>recovery.rs\<close>, \<open>pane.rs\<close> of \<open>heiwa_worker\<close>.
  \<^item> \<open>Work_Session\<close>: \<open>session.rs\<close>, \<open>snapshot.rs\<close>, \<open>surface.rs\<close> of \<open>heiwa_work\<close>.
  \<^item> \<open>Evidence\<close>: \<open>records.rs\<close>, \<open>journal.rs\<close>, \<open>replay.rs\<close>, \<open>state.rs\<close> of \<open>heiwa_evidence\<close>, and the writer lease.
  \<^item> \<open>Sensitive\<close>, \<open>Operator_Journal\<close>: the gate of \<open>sensitive.rs\<close> and the journal of \<open>operator.rs\<close>.
  \<^item> \<open>Keys\<close>, \<open>Mesh\<close>: \<open>heiwa_vault\<close> and the modules of \<open>heiwa_mesh\<close>.
  \<^item> \<open>Claims\<close>, \<open>Claim_Registry\<close>, \<open>Claim_Verify\<close>: the modules of \<open>heiwa_claims\<close>.
  \<^item> \<open>Workspace\<close>: the modules of \<open>heiwa_workspace\<close> but the lease.
  \<^item> \<open>Quota\<close>: \<open>heiwa_quota\<close>.
  \<^item> \<open>Automations\<close>, \<open>Automation_Run\<close>: the types and the store of \<open>heiwa_automations\<close>; its executor and
    scheduler. \<open>Automation_Codec\<close>: concrete codecs. \<open>Automation_Life\<close>, \<open>Automation_Sched\<close>: the life of an
    execution under any interleaving of operations; ticks and rate limits.
  \<^item> \<open>Provider_Executions\<close>: \<open>provider_executions.rs\<close> of \<open>heiwa_session\<close>.
  \<^item> \<open>Session_Fold\<close>, \<open>Session_Life\<close>: the state of \<open>operator.rs\<close> of \<open>heiwa_session\<close>, the strict check of an
    event and the fold of a row; the life of a turn. \<open>Session_Service\<close>: the methods of the service over any
    journal. \<open>Session_Journal\<close>: the locale \<open>event_log\<close>, what the service promises over it, and its
    interpretation by the operator journal.
  \<^item> \<open>Sha256\<close>, \<open>Auth\<close>: the hash functions, signed requests and tokens of \<open>auth.rs\<close>; the locales \<open>url_base64\<close>
    and \<open>auth_codec\<close>. \<open>Local_Auth\<close>: the authentication of an operator request in \<open>app.rs\<close>.
  \<^item> \<open>Decisions\<close>: \<open>integrity.rs\<close> and the approval gate; the locale \<open>decision_texts\<close> extends the mesh's locale of
    JSON printers.
  \<^item> \<open>Float64\<close>, \<open>Float64_Round\<close>: the language's \<open>f64\<close> on its bits, with rounding, and that rounding is monotone.
  \<^item> \<open>Drex\<close>, \<open>Drex_Route\<close>: \<open>vector.rs\<close>, \<open>policy.rs\<close>, \<open>scorer.rs\<close>, \<open>call.rs\<close> and \<open>router.rs\<close> of \<open>drex\<close>.

  \<^bold>\<open>How code becomes definitions.\<close> A struct is a record, an enum a datatype, a method a definition of the
  same name (with its type's name first where it would clash); a loop is a recursive function, its body a
  definition of its own where that reads better. Errors are values of a sum type, without the text of
  their messages. State is passed explicitly: a journal is the bytes of a file, the evidence store of the
  claims crate a map from paths to directory entries, a git repository the outputs of the commands that
  are run, a database its tables. What is not source of this repository is a parameter: \<open>serde\<close>'s derived
  codecs and JSON text, the hash crates, Ed25519, base64, TOML, the keyring, SQLite's column types, git and other
  processes, \<open>canonicalize\<close>, clocks. What the proofs use of a parameter is a locale (\<open>json_text\<close>,
  \<open>work_codec_laws\<close>, \<open>operator_laws\<close>, \<open>signing_scheme\<close>, \<open>keyring_backend\<close>, \<open>evidence_codec\<close>,
  \<open>canonical_paths\<close> and others), interpreted on concrete functions in the same theory.

  \<^bold>\<open>What is shown.\<close>
  \<^item> Evidence: whatever the interleaving of acquisitions, releases, recoveries and compactions, a
    repository has at most one live writer; a lease granted on a stream that ends at a line boundary is
    exclusive, compaction of lines the program wrote changes no lease, recovery is idempotent. A record
    without its line feed, left by a crash, swallows the next lease, with any codec.
  \<^item> Operator journal: polling with cursors replays the stream exactly, an append adds one event, a
    refused append none, repair keeps every complete line, a page is returned only when its lineage was the
    same at its start and end, the tail is the newest window; nothing sensitive passes the gate at any depth.
  \<^item> Work, runs and sessions: folds are append-only, isolated per Work and restart-safe; a session is
    bounded, reveals only what it declares, and its three surfaces agree; a client applies only the next
    delta of its own fold.
  \<^item> Mesh: the clock advances, the signed bytes determine the envelope, an enrolled node's envelopes
    open; a crafted signature makes \<open>open\<close> panic.
  \<^item> Claims: a registry that loads is well formed and complete, loading ends, a Cargo claim covers every
    path dependency, the digest's bytes determine the scope, evidence describes a clean commit, storing
    it is atomic and never follows a link, and a passed claim that is not retired is reported as verified.
  \<^item> Workspace and quota: a path is in scope exactly when it lands inside its root, a Work gets one worktree, projections are
    bounded and say when they are cut; the budget accounts for every use of a window.
  \<^item> Automations: an execution is claimed by one runner at a time and started a bounded number of times,
    a tick adds one execution for each due automation whose limits are not reached and nothing else, and a
    second tick at that time adds none; rate limits hold, the tables stay well typed. A schedule that no
    longer parses stays due, stops the tick and adds an execution each time.
  \<^item> Sessions: the projection of a service is the replay of the whole journal, catching up ends, and the
    replayed state is well formed; a turn goes from open to one terminal status and keeps its identity;
    an event that passes the strict check (and four conditions it does not look at) is replayed; a
    submission is idempotent across crashes, processes and later events; recovery closes every open turn, once; the
    events of a thread are paged without loss. Provider observations are the first copies of the route
    outcomes in the journal, counted by a reference definition.
  \<^item> Authentication and approval: the hand-written SHA-256 is the standard's; a signature binds every part of
    a request and is accepted once unless a session cookie decides the call; whoever is let in named this loopback origin and showed a credential; a
    bootstrap token opens one browser session. A tag binds everything a decision says, what is sealed
    verifies, and an effect goes ahead only on a verified decision for its own request.
  \<^item> Routing: a plan selects exactly the best admissible candidate, accounts for every candidate and does not
    depend on their order; a private route stays on the device; the authority gate of a call looks at its
    intent only, not at its risk.

  \<^bold>\<open>Fuel, bounds and non-termination.\<close> The concrete JSON parser of \<open>Wire\<close> takes as fuel one more than the
  length of its text, which its round trip shows to be enough. The reads of the operator journal retry as
  often as the source does. \<open>create_sibling\<close> tries 64 names, as the source does. The walk over path
  dependencies (\<open>cargo_inputs\<close>) is a partial function; it is shown to end on every finite tree. So are the
  page loops of the session service (\<open>sync_materialized_observing\<close>, \<open>events_loop\<close>, \<open>links_loop\<close>); the first
  two are shown to end on every journal within the scan budget. Drawing a new identifier (\<open>insert_new\<close>) ends
  as soon as one is new. All other functions are total. Counters that would need \<open>2 ^ 64\<close> lines to overflow are natural numbers; counters
  that a caller can drive are words or wrapping integers.

  \<^bold>\<open>Not modelled.\<close> Failures of the operating system other than those of the evidence store of claims, file
  locks (an operation under a lock is one step), poisoned mutexes, and message texts. Whole parts: the
  shell, the desktop application and the services (glue, HTTP, user interface), provider adapters,
  connectors, installation, OAuth, finance and embeddings (input and output, or floating point). Parts
  with logic of their own that are not modelled: resource admission, judgment, the binding of providers into
  DREX candidates, the execution of a planned call, and the fan-out of the agent loop. The lock files of the session
  service are one bit, granted or refused. Some operations are one step here although no lock spans them in the
  source: the restart recovery of the evidence journal, the recording of a quota use (a query and an insert),
  and the authentication of a request, whose clock is read before the mutex of the nonces is taken. The laws of
  the derived codecs state the full round trip; the crate's corner cases (a present null in an optional
  value, the text of floating-point numbers, its limit on nesting) are outside of it.
\<close>

end
